(* ===== verification/Prelude.thy ===== *)
theory Prelude
  imports Main "HOL-Library.Word"
begin

unbundle bit_operations_syntax

text \<open>
  Shared vocabulary of the development: the integer types of the C++ code, named theorem
  collections that carry the component proofs, and generic lemmas on lists, options and
  integers.

  \<^item> \<open>UChar\<close> (a 16-bit code unit) and \<open>char\<close> are \<open>int\<close> values; every conversion that
    narrows a value writes its \<open>mod\<close> out. The \<open>int\<close> variables that hold a code unit or
    \<open>-1\<close> (end of file) are \<open>int\<close> too.
  \<^item> \<open>uint32_t\<close> accumulators are \<open>32 word\<close>, whose arithmetic wraps.
\<close>

type_synonym uchar = int
type_synonym uchars = "int list"
type_synonym u32 = "32 word"

named_theorems lexer_defs \<open>definitions of the primitive lexer operations\<close>
named_theorems builder_defs \<open>definitions of the syntax tree builder\<close>
named_theorems wp_simps \<open>equations of the weakest precondition of a parser combinator\<close>

text \<open>Source text of a literal: the code units of its characters.\<close>

definition uchars_of :: "string \<Rightarrow> uchars" where
  "uchars_of cs = map of_char cs"

definition uchar_ok :: "int \<Rightarrow> bool" where
  "uchar_ok c \<longleftrightarrow> 0 \<le> c \<and> c < 65536"

text \<open>The conversion \<open>UChar(static_cast<unsigned short>(c))\<close>.\<close>

definition to_uchar :: "int \<Rightarrow> uchar" where
  "to_uchar c = c mod 65536"

lemma uchar_ok_to_uchar [simp]: "uchar_ok (to_uchar c)"
  by (simp add: uchar_ok_def to_uchar_def)

lemma to_uchar_id [simp]: "uchar_ok c \<Longrightarrow> to_uchar c = c"
  by (simp add: uchar_ok_def to_uchar_def)

subsection \<open>Generic lemmas\<close>

text \<open>A finite range of integers is decided by evaluating a predicate over a list.\<close>

lemma int_range_cases:
  assumes "0 \<le> (c::int)" and "c < int n" and "list_all P (map int [0..<n])"
  shows "P c"
proof -
  have "c = int (nat c)" and "nat c < n" using assms(1,2) by auto
  moreover from assms(3) have "\<forall>k < n. P (int k)" by (auto simp: list_all_iff)
  ultimately show ?thesis by metis
qed

lemma those_Some_iff: "those xs = Some ys \<longleftrightarrow> xs = map Some ys"
proof (induction xs arbitrary: ys)
  case Nil
  then show ?case by auto
next
  case (Cons x xs)
  then show ?case by (cases x; cases ys) auto
qed

lemma those_exists: "(\<And>x. x \<in> set xs \<Longrightarrow> \<exists>y. f x = Some y) \<Longrightarrow> \<exists>ys. those (map f xs) = Some ys"
proof (induction xs)
  case Nil
  then show ?case by simp
next
  case (Cons x xs)
  from Cons.prems obtain y where "f x = Some y" by (metis list.set_intros(1))
  moreover from Cons obtain ys where "those (map f xs) = Some ys" by (metis list.set_intros(2))
  ultimately show ?case by simp
qed

lemma take_drop_Suc: "i < length xs \<Longrightarrow> take (Suc n) (drop i xs) = xs ! i # take n (drop (Suc i) xs)"
  by (metis Cons_nth_drop_Suc take_Suc_Cons)

lemma take_drop_snoc:
  "i \<le> j \<Longrightarrow> j < length xs \<Longrightarrow> take (Suc j - i) (drop i xs) = take (j - i) (drop i xs) @ [xs ! j]"
  by (simp add: Suc_diff_le take_Suc_conv_app_nth)

lemma int_OR_32_bounds: "0 \<le> (c::int) \<Longrightarrow> 0 \<le> c OR 32"
  by simp

end
