(* ===== verification/ASCII.thy ===== *)
theory ASCII
  imports Prelude
begin

text \<open>
  Character classification: \<open>wtf/ASCIICType.h\<close>, the Unicode stubs of \<open>config.h\<close>
  (\<open>category\<close> and \<open>isSeparatorSpace\<close> are constants there: Unicode is not supported), the
  character table of \<open>parser/Lexer.cpp\<close> with the predicates built on it, and the escape
  and hexadecimal conversions of \<open>parser/Lexer.h\<close>. Arguments are C \<open>int\<close>s; \<open>-1\<close> is the end
  of the input.
\<close>

subsection \<open>wtf/ASCIICType.h\<close>

definition isASCII :: "int \<Rightarrow> bool" where
  "isASCII c \<longleftrightarrow> c AND NOT 0x7F = 0"

definition isASCIIDigit :: "int \<Rightarrow> bool" where
  "isASCIIDigit c \<longleftrightarrow> 48 \<le> c \<and> c \<le> 57"

definition isASCIIHexDigit :: "int \<Rightarrow> bool" where
  "isASCIIHexDigit c \<longleftrightarrow> (48 \<le> c \<and> c \<le> 57) \<or> (97 \<le> c OR 0x20 \<and> c OR 0x20 \<le> 102)"

definition isASCIIOctalDigit :: "int \<Rightarrow> bool" where
  "isASCIIOctalDigit c \<longleftrightarrow> 48 \<le> c \<and> c \<le> 55"

definition toASCIIHexValue :: "int \<Rightarrow> int" where
  "toASCIIHexValue c = (if c < 65 then c - 48 else (c - 65 + 10) AND 0xF)"

subsection \<open>config.h: no Unicode support\<close>

definition category :: "int \<Rightarrow> int" where
  "category ch = 0"

definition isSeparatorSpace :: "int \<Rightarrow> bool" where
  "isSeparatorSpace ch \<longleftrightarrow> False"

text \<open>The enumerators of \<open>WTF::Unicode\<close>, which number from 0.\<close>

definition unicodeLetterMask :: int where
  "unicodeLetterMask = 3 OR 4 OR 5 OR 6 OR 7"

definition unicodeIdentPartMask :: int where
  "unicodeIdentPartMask = unicodeLetterMask OR 0 OR 1 OR 2 OR 8"

subsection \<open>The character table of Lexer.cpp\<close>

datatype CharacterType =
    CharacterIdentifierStart | CharacterZero | CharacterNumber
  | CharacterInvalid | CharacterLineTerminator | CharacterExclamationMark
  | CharacterOpenParen | CharacterCloseParen | CharacterOpenBracket | CharacterCloseBracket
  | CharacterComma | CharacterColon | CharacterQuestion | CharacterTilde | CharacterQuote
  | CharacterDot | CharacterSlash | CharacterBackSlash | CharacterSemicolon
  | CharacterOpenBrace | CharacterCloseBrace
  | CharacterAdd | CharacterSub | CharacterMultiply | CharacterModulo | CharacterAnd
  | CharacterXor | CharacterOr | CharacterLess | CharacterGreater | CharacterEqual
  | CharacterWhiteSpace

text \<open>
  The first three enumerators have the values 0, 1 and 2; \<open>isIdentPart\<close> tests
  \<open><= CharacterNumber\<close>.
\<close>

fun characterTypeValue :: "CharacterType \<Rightarrow> nat" where
  "characterTypeValue CharacterIdentifierStart = 0"
| "characterTypeValue CharacterZero = 1"
| "characterTypeValue CharacterNumber = 2"
| "characterTypeValue CharacterInvalid = 3"
| "characterTypeValue CharacterLineTerminator = 4"
| "characterTypeValue CharacterExclamationMark = 5"
| "characterTypeValue CharacterOpenParen = 6"
| "characterTypeValue CharacterCloseParen = 7"
| "characterTypeValue CharacterOpenBracket = 8"
| "characterTypeValue CharacterCloseBracket = 9"
| "characterTypeValue CharacterComma = 10"
| "characterTypeValue CharacterColon = 11"
| "characterTypeValue CharacterQuestion = 12"
| "characterTypeValue CharacterTilde = 13"
| "characterTypeValue CharacterQuote = 14"
| "characterTypeValue CharacterDot = 15"
| "characterTypeValue CharacterSlash = 16"
| "characterTypeValue CharacterBackSlash = 17"
| "characterTypeValue CharacterSemicolon = 18"
| "characterTypeValue CharacterOpenBrace = 19"
| "characterTypeValue CharacterCloseBrace = 20"
| "characterTypeValue CharacterAdd = 21"
| "characterTypeValue CharacterSub = 22"
| "characterTypeValue CharacterMultiply = 23"
| "characterTypeValue CharacterModulo = 24"
| "characterTypeValue CharacterAnd = 25"
| "characterTypeValue CharacterXor = 26"
| "characterTypeValue CharacterOr = 27"
| "characterTypeValue CharacterLess = 28"
| "characterTypeValue CharacterGreater = 29"
| "characterTypeValue CharacterEqual = 30"
| "characterTypeValue CharacterWhiteSpace = 31"

definition typesOfASCIICharacters :: "CharacterType list" where
  "typesOfASCIICharacters = [
    \<comment> \<open>0\<close> CharacterInvalid, CharacterInvalid, CharacterInvalid, CharacterInvalid,
    \<comment> \<open>4\<close> CharacterInvalid, CharacterInvalid, CharacterInvalid, CharacterInvalid,
    \<comment> \<open>8\<close> CharacterInvalid, CharacterWhiteSpace, CharacterLineTerminator, CharacterWhiteSpace,
    \<comment> \<open>12\<close> CharacterWhiteSpace, CharacterLineTerminator, CharacterInvalid, CharacterInvalid,
    \<comment> \<open>16\<close> CharacterInvalid, CharacterInvalid, CharacterInvalid, CharacterInvalid,
    \<comment> \<open>20\<close> CharacterInvalid, CharacterInvalid, CharacterInvalid, CharacterInvalid,
    \<comment> \<open>24\<close> CharacterInvalid, CharacterInvalid, CharacterInvalid, CharacterInvalid,
    \<comment> \<open>28\<close> CharacterInvalid, CharacterInvalid, CharacterInvalid, CharacterInvalid,
    \<comment> \<open>32\<close> CharacterWhiteSpace, CharacterExclamationMark, CharacterQuote, CharacterInvalid,
    \<comment> \<open>36\<close> CharacterIdentifierStart, CharacterModulo, CharacterAnd, CharacterQuote,
    \<comment> \<open>40\<close> CharacterOpenParen, CharacterCloseParen, CharacterMultiply, CharacterAdd,
    \<comment> \<open>44\<close> CharacterComma, CharacterSub, CharacterDot, CharacterSlash,
    \<comment> \<open>48\<close> CharacterZero, CharacterNumber, CharacterNumber, CharacterNumber,
    \<comment> \<open>52\<close> CharacterNumber, CharacterNumber, CharacterNumber, CharacterNumber,
    \<comment> \<open>56\<close> CharacterNumber, CharacterNumber, CharacterColon, CharacterSemicolon,
    \<comment> \<open>60\<close> CharacterLess, CharacterEqual, CharacterGreater, CharacterQuestion,
    \<comment> \<open>64\<close> CharacterInvalid, CharacterIdentifierStart, CharacterIdentifierStart, CharacterIdentifierStart,
    \<comment> \<open>68\<close> CharacterIdentifierStart, CharacterIdentifierStart, CharacterIdentifierStart, CharacterIdentifierStart,
    \<comment> \<open>72\<close> CharacterIdentifierStart, CharacterIdentifierStart, CharacterIdentifierStart, CharacterIdentifierStart,
    \<comment> \<open>76\<close> CharacterIdentifierStart, CharacterIdentifierStart, CharacterIdentifierStart, CharacterIdentifierStart,
    \<comment> \<open>80\<close> CharacterIdentifierStart, CharacterIdentifierStart, CharacterIdentifierStart, CharacterIdentifierStart,
    \<comment> \<open>84\<close> CharacterIdentifierStart, CharacterIdentifierStart, CharacterIdentifierStart, CharacterIdentifierStart,
    \<comment> \<open>88\<close> CharacterIdentifierStart, CharacterIdentifierStart, CharacterIdentifierStart, CharacterOpenBracket,
    \<comment> \<open>92\<close> CharacterBackSlash, CharacterCloseBracket, CharacterXor, CharacterIdentifierStart,
    \<comment> \<open>96\<close> CharacterInvalid, CharacterIdentifierStart, CharacterIdentifierStart, CharacterIdentifierStart,
    \<comment> \<open>100\<close> CharacterIdentifierStart, CharacterIdentifierStart, CharacterIdentifierStart, CharacterIdentifierStart,
    \<comment> \<open>104\<close> CharacterIdentifierStart, CharacterIdentifierStart, CharacterIdentifierStart, CharacterIdentifierStart,
    \<comment> \<open>108\<close> CharacterIdentifierStart, CharacterIdentifierStart, CharacterIdentifierStart, CharacterIdentifierStart,
    \<comment> \<open>112\<close> CharacterIdentifierStart, CharacterIdentifierStart, CharacterIdentifierStart, CharacterIdentifierStart,
    \<comment> \<open>116\<close> CharacterIdentifierStart, CharacterIdentifierStart, CharacterIdentifierStart, CharacterIdentifierStart,
    \<comment> \<open>120\<close> CharacterIdentifierStart, CharacterIdentifierStart, CharacterIdentifierStart, CharacterOpenBrace,
    \<comment> \<open>124\<close> CharacterOr, CharacterCloseBrace, CharacterTilde, CharacterInvalid]"

text \<open>\<open>static_cast<CharacterType>(typesOfASCIICharacters[c])\<close>, for a \<open>c\<close> that is ASCII.\<close>

definition typeOfASCII :: "int \<Rightarrow> CharacterType" where
  "typeOfASCII c = typesOfASCIICharacters ! nat c"

subsection \<open>Predicates of Lexer.h and Lexer.cpp\<close>

definition isWhiteSpace :: "int \<Rightarrow> bool" where
  "isWhiteSpace ch \<longleftrightarrow>
     (if isASCII ch then ch = 32 \<or> ch = 9 \<or> ch = 0xB \<or> ch = 0xC
      else isSeparatorSpace ch \<or> ch = 0xFEFF)"

definition isLineTerminator :: "int \<Rightarrow> bool" where
  "isLineTerminator ch \<longleftrightarrow> ch = 13 \<or> ch = 10 \<or> ch AND NOT 1 = 0x2028"

definition isNonASCIIIdentStart :: "int \<Rightarrow> bool" where
  "isNonASCIIIdentStart c \<longleftrightarrow> category c AND unicodeLetterMask \<noteq> 0"

definition isIdentStart :: "int \<Rightarrow> bool" where
  "isIdentStart c \<longleftrightarrow>
     (if isASCII c then typeOfASCII c = CharacterIdentifierStart else isNonASCIIIdentStart c)"

definition isNonASCIIIdentPart :: "int \<Rightarrow> bool" where
  "isNonASCIIIdentPart c \<longleftrightarrow> category c AND unicodeIdentPartMask \<noteq> 0"

definition isIdentPart :: "int \<Rightarrow> bool" where
  "isIdentPart c \<longleftrightarrow>
     (if isASCII c then characterTypeValue (typeOfASCII c) \<le> characterTypeValue CharacterNumber
      else isNonASCIIIdentPart c)"

definition singleEscape :: "int \<Rightarrow> int" where
  "singleEscape c =
     (if c = 98 \<comment> \<open>b\<close> then 0x08
      else if c = 116 \<comment> \<open>t\<close> then 0x09
      else if c = 110 \<comment> \<open>n\<close> then 0x0A
      else if c = 118 \<comment> \<open>v\<close> then 0x0B
      else if c = 102 \<comment> \<open>f\<close> then 0x0C
      else if c = 114 \<comment> \<open>r\<close> then 0x0D
      else if c = 92 \<comment> \<open>backslash\<close> then 92
      else if c = 39 \<comment> \<open>single quote\<close> then 39
      else if c = 34 \<comment> \<open>double quote\<close> then 34
      else 0)"

text \<open>\<open>convertHex\<close> returns an \<open>unsigned char\<close>, \<open>convertUnicode\<close> a \<open>UChar\<close>.\<close>

definition convertHex :: "int \<Rightarrow> int \<Rightarrow> int" where
  "convertHex c1 c2 = (push_bit 4 (toASCIIHexValue c1) OR toASCIIHexValue c2) mod 256"

definition convertUnicode :: "int \<Rightarrow> int \<Rightarrow> int \<Rightarrow> int \<Rightarrow> int" where
  "convertUnicode c1 c2 c3 c4 = to_uchar (push_bit 8 (convertHex c1 c2) OR convertHex c3 c4)"

subsection \<open>What the predicates decide\<close>

lemma isASCII_iff: "isASCII c \<longleftrightarrow> 0 \<le> c \<and> c < 128"
proof -
  have "c AND NOT (mask 7) = 0 \<longleftrightarrow> take_bit 7 c = c"
    by (auto simp: bit_eq_iff bit_simps)
  then show ?thesis
    by (simp add: isASCII_def take_bit_int_eq_self_iff mask_eq_exp_minus_1)
qed

lemma isASCII_cases:
  assumes "list_all P (map int [0..<128])" and "0 \<le> c" and "c < 128"
  shows "P c"
  by (rule int_range_cases [where n = 128, OF assms(2) _ assms(1)]) (use assms(3) in \<open>simp only: of_nat_numeral\<close>)

lemma not_ASCII_minus_one [simp]: "\<not> isASCII (- 1)"
  by (simp add: isASCII_iff)

lemma isWhiteSpace_minus_one [simp]: "\<not> isWhiteSpace (- 1)"
  by (simp add: isWhiteSpace_def isSeparatorSpace_def)

lemma isLineTerminator_iff: "isLineTerminator c \<longleftrightarrow> c = 13 \<or> c = 10 \<or> c = 0x2028 \<or> c = 0x2029"
proof -
  have "c - take_bit 1 c = c AND NOT (take_bit 1 c)"
    by (rule disjunctive_diff) (auto simp: bit_simps bit_0)
  also have "\<dots> = c AND NOT 1"
    by (rule bit_eqI) (auto simp: bit_simps bit_0)
  finally have "c AND NOT 1 = c - c mod 2" by (simp add: take_bit_eq_mod)
  then show ?thesis unfolding isLineTerminator_def by presburger
qed

lemma isLineTerminator_minus_one [simp]: "\<not> isLineTerminator (- 1)"
  by (simp add: isLineTerminator_iff)

lemma isIdentPart_minus_one [simp]: "\<not> isIdentPart (- 1)"
  by (simp add: isIdentPart_def isNonASCIIIdentPart_def category_def)

lemma isASCIIDigit_minus_one [simp]: "\<not> isASCIIDigit (- 1)"
  by (simp add: isASCIIDigit_def)

lemma isASCIIOctalDigit_minus_one [simp]: "\<not> isASCIIOctalDigit (- 1)"
  by (simp add: isASCIIOctalDigit_def)

lemma isASCIIHexDigit_minus_one [simp]: "\<not> isASCIIHexDigit (- 1)"
  by (simp add: isASCIIHexDigit_def)

lemma isASCIIOctalDigit_digit: "isASCIIOctalDigit c \<Longrightarrow> isASCIIDigit c"
  by (simp add: isASCIIOctalDigit_def isASCIIDigit_def)

lemma isASCIIHexDigit_range:
  assumes "isASCIIHexDigit c"
  shows "0 \<le> c \<and> c < 128"
proof (cases "48 \<le> c \<and> c \<le> 57")
  case False
  with assms have b: "97 \<le> c OR 0x20" "c OR 0x20 \<le> 102" by (auto simp: isASCIIHexDigit_def)
  then have "0 \<le> c" by (metis or_nonnegative_int_iff dual_order.trans zero_le_numeral)
  moreover from this have "c \<le> c OR 0x20" by (simp add: or_greater_eq)
  ultimately show ?thesis using b by simp
qed simp

lemma isASCIIHexDigit_iff:
  "isASCIIHexDigit c \<longleftrightarrow> (48 \<le> c \<and> c \<le> 57) \<or> (65 \<le> c \<and> c \<le> 70) \<or> (97 \<le> c \<and> c \<le> 102)"
proof (cases "0 \<le> c \<and> c < 128")
  case True
  have "list_all (\<lambda>c. isASCIIHexDigit c \<longleftrightarrow>
      (48 \<le> c \<and> c \<le> 57) \<or> (65 \<le> c \<and> c \<le> 70) \<or> (97 \<le> c \<and> c \<le> 102)) (map int [0..<128])"
    by code_simp
  from isASCII_cases [OF this] True show ?thesis by blast
next
  case False
  then show ?thesis using isASCIIHexDigit_range by auto
qed

text \<open>The value of a hexadecimal digit, in either case, as ECMA-262 defines it.\<close>

lemma toASCIIHexValue_eq:
  assumes "isASCIIHexDigit c"
  shows "toASCIIHexValue c =
    (if c \<le> 57 then c - 48 else if c \<le> 70 then c - 55 else c - 87)"
proof -
  have "list_all (\<lambda>c. isASCIIHexDigit c \<longrightarrow> toASCIIHexValue c =
      (if c \<le> 57 then c - 48 else if c \<le> 70 then c - 55 else c - 87)) (map int [0..<128])"
    by code_simp
  from isASCII_cases [OF this, of c] isASCIIHexDigit_range [OF assms] assms show ?thesis by blast
qed

lemma toASCIIHexValue_range:
  "isASCIIHexDigit c \<Longrightarrow> 0 \<le> toASCIIHexValue c \<and> toASCIIHexValue c < 16"
  by (auto simp: toASCIIHexValue_eq isASCIIHexDigit_iff)

text \<open>
  The enumerator trick of \<open>isIdentPart\<close> is right: exactly the ASCII letters, digits, the
  underscore and the dollar sign are identifier characters, and only the digits may not start
  an identifier.
\<close>

lemma isIdentPart_iff:
  "isIdentPart c \<longleftrightarrow>
     (48 \<le> c \<and> c \<le> 57) \<or> (65 \<le> c \<and> c \<le> 90) \<or> (97 \<le> c \<and> c \<le> 122) \<or> c = 95 \<or> c = 36"
proof (cases "0 \<le> c \<and> c < 128")
  case True
  have "list_all (\<lambda>c. isIdentPart c \<longleftrightarrow> (48 \<le> c \<and> c \<le> 57) \<or> (65 \<le> c \<and> c \<le> 90) \<or>
      (97 \<le> c \<and> c \<le> 122) \<or> c = 95 \<or> c = 36) (map int [0..<128])"
    by code_simp
  from isASCII_cases [OF this] True show ?thesis by blast
next
  case False
  then show ?thesis
    by (auto simp: isIdentPart_def isASCII_iff isNonASCIIIdentPart_def category_def)
qed

lemma isIdentStart_iff: "isIdentStart c \<longleftrightarrow> isIdentPart c \<and> \<not> isASCIIDigit c"
proof (cases "0 \<le> c \<and> c < 128")
  case True
  have "list_all (\<lambda>c. isIdentStart c \<longleftrightarrow> isIdentPart c \<and> \<not> isASCIIDigit c) (map int [0..<128])"
    by code_simp
  from isASCII_cases [OF this] True show ?thesis by blast
next
  case False
  then show ?thesis
    by (auto simp: isIdentPart_def isIdentStart_def isASCII_iff isNonASCIIIdentPart_def
        isNonASCIIIdentStart_def category_def)
qed

lemma convertHex_eq:
  assumes "isASCIIHexDigit c1" and "isASCIIHexDigit c2"
  shows "convertHex c1 c2 = 16 * toASCIIHexValue c1 + toASCIIHexValue c2"
proof -
  have r: "0 \<le> toASCIIHexValue c1" "toASCIIHexValue c1 < 16" "0 \<le> toASCIIHexValue c2"
    "toASCIIHexValue c2 < 16"
    using toASCIIHexValue_range assms by auto
  have t: "take_bit 4 (toASCIIHexValue c2) = toASCIIHexValue c2"
    using r by (simp add: take_bit_int_eq_self)
  have "push_bit 4 (toASCIIHexValue c1) OR toASCIIHexValue c2
      = push_bit 4 (toASCIIHexValue c1) + toASCIIHexValue c2"
    by (subst (1 2) t [symmetric], rule disjunctive_add [symmetric]) (auto simp: bit_simps)
  then show ?thesis using r by (simp add: convertHex_def push_bit_eq_mult)
qed

end
