(* ===== verification/TokenType.thy ===== *)
theory TokenType
  imports ASCII
begin

text \<open>
  The token kinds of \<open>parser/JSParser.h\<close>: the enumeration \<open>JSTokenType\<close> as a datatype, in a
  theory of its own because so large an enumeration takes a while to define. \<open>OR\<close> and \<open>AND\<close> of
  the header are named \<open>OROR\<close> and \<open>ANDAND\<close> here, because they are the bitwise operators of the
  logic.
\<close>

datatype (plugins only: code) JSTokenType =
    NULLTOKEN | TRUETOKEN | FALSETOKEN | BREAK | CASE | DEFAULT
  | FOR | NEW | VAR | CONSTTOKEN | CONTINUE | FUNCTION
  | RETURN | IF | THISTOKEN | DO | WHILE | SWITCH
  | WITH | RESERVED | THROW | TRY | CATCH | FINALLY
  | DEBUGGER | ELSE | OPENBRACE | CLOSEBRACE | OPENPAREN | CLOSEPAREN
  | OPENBRACKET | CLOSEBRACKET | COMMA | QUESTION | NUMBER | IDENT
  | STRING | SEMICOLON | COLON | DOT | ERRORTOK | EOFTOK
  | EQUAL | PLUSEQUAL | MINUSEQUAL | MULTEQUAL | DIVEQUAL | LSHIFTEQUAL
  | RSHIFTEQUAL | URSHIFTEQUAL | ANDEQUAL | MODEQUAL | XOREQUAL | OREQUAL
  | PLUSPLUS | MINUSMINUS | EXCLAMATION | TILDE | AUTOPLUSPLUS | AUTOMINUSMINUS
  | TYPEOF | VOIDTOKEN | DELETETOKEN | OROR | ANDAND | BITOR
  | BITXOR | BITAND | EQEQ | NE | STREQ | STRNEQ
  | LT | GT | LE | GE | INSTANCEOF | INTOKEN
  | LSHIFT | RSHIFT | URSHIFT | PLUS | MINUS | TIMES
  | DIVIDE | MOD

end
