(* ===== verification/Token.thy ===== *)
theory Token
  imports TokenType
begin

text \<open>
  Tokens: the numeric values of \<open>JSTokenType\<close> as \<open>parser/JSParser.h\<close> writes them (the parser
  reads unary, keyword and precedence information out of the bits of a token), the token records
  of the same header, and the operator enumerations of \<open>parser/Nodes.h\<close>.
\<close>

definition UnaryOpTokenFlag :: int where
  "UnaryOpTokenFlag = 64"

definition KeywordTokenFlag :: int where
  "KeywordTokenFlag = 128"

definition BinaryOpTokenPrecedenceShift :: nat where
  "BinaryOpTokenPrecedenceShift = 8"

definition BinaryOpTokenAllowsInPrecedenceAdditionalShift :: nat where
  "BinaryOpTokenAllowsInPrecedenceAdditionalShift = 4"

definition BinaryOpTokenPrecedenceMask :: int where
  "BinaryOpTokenPrecedenceMask = push_bit BinaryOpTokenPrecedenceShift 15"

definition BINARY_OP_PRECEDENCE :: "int \<Rightarrow> int" where
  "BINARY_OP_PRECEDENCE prec =
     push_bit BinaryOpTokenPrecedenceShift prec OR
     push_bit (BinaryOpTokenPrecedenceShift + BinaryOpTokenAllowsInPrecedenceAdditionalShift) prec"

definition IN_OP_PRECEDENCE :: "int \<Rightarrow> int" where
  "IN_OP_PRECEDENCE prec =
     push_bit (BinaryOpTokenPrecedenceShift + BinaryOpTokenAllowsInPrecedenceAdditionalShift) prec"

primrec tokenValue :: "JSTokenType \<Rightarrow> int" where
  "tokenValue NULLTOKEN = KeywordTokenFlag"
| "tokenValue TRUETOKEN = KeywordTokenFlag + 1"
| "tokenValue FALSETOKEN = KeywordTokenFlag + 2"
| "tokenValue BREAK = KeywordTokenFlag + 3"
| "tokenValue CASE = KeywordTokenFlag + 4"
| "tokenValue DEFAULT = KeywordTokenFlag + 5"
| "tokenValue FOR = KeywordTokenFlag + 6"
| "tokenValue NEW = KeywordTokenFlag + 7"
| "tokenValue VAR = KeywordTokenFlag + 8"
| "tokenValue CONSTTOKEN = KeywordTokenFlag + 9"
| "tokenValue CONTINUE = KeywordTokenFlag + 10"
| "tokenValue FUNCTION = KeywordTokenFlag + 11"
| "tokenValue RETURN = KeywordTokenFlag + 12"
| "tokenValue IF = KeywordTokenFlag + 13"
| "tokenValue THISTOKEN = KeywordTokenFlag + 14"
| "tokenValue DO = KeywordTokenFlag + 15"
| "tokenValue WHILE = KeywordTokenFlag + 16"
| "tokenValue SWITCH = KeywordTokenFlag + 17"
| "tokenValue WITH = KeywordTokenFlag + 18"
| "tokenValue RESERVED = KeywordTokenFlag + 19"
| "tokenValue THROW = KeywordTokenFlag + 20"
| "tokenValue TRY = KeywordTokenFlag + 21"
| "tokenValue CATCH = KeywordTokenFlag + 22"
| "tokenValue FINALLY = KeywordTokenFlag + 23"
| "tokenValue DEBUGGER = KeywordTokenFlag + 24"
| "tokenValue ELSE = KeywordTokenFlag + 25"
| "tokenValue OPENBRACE = 0"
| "tokenValue CLOSEBRACE = 1"
| "tokenValue OPENPAREN = 2"
| "tokenValue CLOSEPAREN = 3"
| "tokenValue OPENBRACKET = 4"
| "tokenValue CLOSEBRACKET = 5"
| "tokenValue COMMA = 6"
| "tokenValue QUESTION = 7"
| "tokenValue NUMBER = 8"
| "tokenValue IDENT = 9"
| "tokenValue STRING = 10"
| "tokenValue SEMICOLON = 11"
| "tokenValue COLON = 12"
| "tokenValue DOT = 13"
| "tokenValue ERRORTOK = 14"
| "tokenValue EOFTOK = 15"
| "tokenValue EQUAL = 16"
| "tokenValue PLUSEQUAL = 17"
| "tokenValue MINUSEQUAL = 18"
| "tokenValue MULTEQUAL = 19"
| "tokenValue DIVEQUAL = 20"
| "tokenValue LSHIFTEQUAL = 21"
| "tokenValue RSHIFTEQUAL = 22"
| "tokenValue URSHIFTEQUAL = 23"
| "tokenValue ANDEQUAL = 24"
| "tokenValue MODEQUAL = 25"
| "tokenValue XOREQUAL = 26"
| "tokenValue OREQUAL = 27"
| "tokenValue PLUSPLUS = 0 OR UnaryOpTokenFlag"
| "tokenValue MINUSMINUS = 1 OR UnaryOpTokenFlag"
| "tokenValue EXCLAMATION = 2 OR UnaryOpTokenFlag"
| "tokenValue TILDE = 3 OR UnaryOpTokenFlag"
| "tokenValue AUTOPLUSPLUS = 4 OR UnaryOpTokenFlag"
| "tokenValue AUTOMINUSMINUS = 5 OR UnaryOpTokenFlag"
| "tokenValue TYPEOF = 6 OR UnaryOpTokenFlag OR KeywordTokenFlag"
| "tokenValue VOIDTOKEN = 7 OR UnaryOpTokenFlag OR KeywordTokenFlag"
| "tokenValue DELETETOKEN = 8 OR UnaryOpTokenFlag OR KeywordTokenFlag"
| "tokenValue OROR = 0 OR BINARY_OP_PRECEDENCE 1"
| "tokenValue ANDAND = 1 OR BINARY_OP_PRECEDENCE 2"
| "tokenValue BITOR = 2 OR BINARY_OP_PRECEDENCE 3"
| "tokenValue BITXOR = 3 OR BINARY_OP_PRECEDENCE 4"
| "tokenValue BITAND = 4 OR BINARY_OP_PRECEDENCE 5"
| "tokenValue EQEQ = 5 OR BINARY_OP_PRECEDENCE 6"
| "tokenValue NE = 6 OR BINARY_OP_PRECEDENCE 6"
| "tokenValue STREQ = 7 OR BINARY_OP_PRECEDENCE 6"
| "tokenValue STRNEQ = 8 OR BINARY_OP_PRECEDENCE 6"
| "tokenValue LT = 9 OR BINARY_OP_PRECEDENCE 7"
| "tokenValue GT = 10 OR BINARY_OP_PRECEDENCE 7"
| "tokenValue LE = 11 OR BINARY_OP_PRECEDENCE 7"
| "tokenValue GE = 12 OR BINARY_OP_PRECEDENCE 7"
| "tokenValue INSTANCEOF = 13 OR BINARY_OP_PRECEDENCE 7 OR KeywordTokenFlag"
| "tokenValue INTOKEN = 14 OR IN_OP_PRECEDENCE 7 OR KeywordTokenFlag"
| "tokenValue LSHIFT = 15 OR BINARY_OP_PRECEDENCE 8"
| "tokenValue RSHIFT = 16 OR BINARY_OP_PRECEDENCE 8"
| "tokenValue URSHIFT = 17 OR BINARY_OP_PRECEDENCE 8"
| "tokenValue PLUS = 18 OR BINARY_OP_PRECEDENCE 9 OR UnaryOpTokenFlag"
| "tokenValue MINUS = 19 OR BINARY_OP_PRECEDENCE 9 OR UnaryOpTokenFlag"
| "tokenValue TIMES = 20 OR BINARY_OP_PRECEDENCE 10"
| "tokenValue DIVIDE = 21 OR BINARY_OP_PRECEDENCE 10"
| "tokenValue MOD = 22 OR BINARY_OP_PRECEDENCE 10"

text \<open>All enumerators have different values, so comparing tokens is comparing values.\<close>

lemma tokenValue_inj: "tokenValue t = tokenValue u \<longleftrightarrow> t = u"
proof -
  define ts where "ts = [
    NULLTOKEN, TRUETOKEN, FALSETOKEN, BREAK, CASE, DEFAULT, FOR, NEW, VAR, CONSTTOKEN, CONTINUE,
    FUNCTION, RETURN, IF, THISTOKEN, DO, WHILE, SWITCH, WITH, RESERVED, THROW, TRY, CATCH,
    FINALLY, DEBUGGER, ELSE, OPENBRACE, CLOSEBRACE, OPENPAREN, CLOSEPAREN, OPENBRACKET,
    CLOSEBRACKET, COMMA, QUESTION, NUMBER, IDENT, STRING, SEMICOLON, COLON, DOT, ERRORTOK, EOFTOK,
    EQUAL, PLUSEQUAL, MINUSEQUAL, MULTEQUAL, DIVEQUAL, LSHIFTEQUAL, RSHIFTEQUAL, URSHIFTEQUAL,
    ANDEQUAL, MODEQUAL, XOREQUAL, OREQUAL, PLUSPLUS, MINUSMINUS, EXCLAMATION, TILDE, AUTOPLUSPLUS,
    AUTOMINUSMINUS, TYPEOF, VOIDTOKEN, DELETETOKEN, OROR, ANDAND, BITOR, BITXOR, BITAND, EQEQ, NE,
    STREQ, STRNEQ, LT, GT, LE, GE, INSTANCEOF, INTOKEN, LSHIFT, RSHIFT, URSHIFT, PLUS, MINUS,
    TIMES, DIVIDE, MOD]"
  have "UNIV = set ts"
  proof (rule UNIV_eq_I)
    show "x \<in> set ts" for x by (cases x) (simp_all add: ts_def)
  qed
  moreover have "distinct (map tokenValue ts)"
    unfolding ts_def by code_simp
  ultimately show ?thesis by (metis UNIV_I distinct_map inj_on_eq_iff)
qed

subsection \<open>Doubles, token data and tokens\<close>

text \<open>
  A \<open>double\<close> that the lexer produces is named by how it is produced: the exact conversion of an
  unsigned 32-bit integer, the result of \<open>WTF::strtod\<close> on a byte buffer, or the result of
  \<open>parseIntOverflow\<close> on a byte buffer with a radix. The rounding of these two routines is not
  modelled; which routine runs on which bytes is.
\<close>

datatype dbl =
    DUInt u32
  | DStrtod "int list"
  | DParseInt "int list" int

text \<open>
  \<open>union JSTokenData\<close>: one field per member. Only the member that was written last is
  meaningful in C++; the parser reads \<open>intValue\<close> of braces, \<open>doubleValue\<close> of \<open>NUMBER\<close> and \<open>ident\<close> of
  identifiers, keywords and strings, the members the lexer writes for these tokens.
\<close>

record JSTokenData =
  intValue :: int
  doubleValue :: dbl
  identValue :: uchars

record JSTokenInfo =
  tline :: int
  startOffset :: nat
  endOffset :: nat

record JSToken =
  m_type :: JSTokenType
  m_data :: JSTokenData
  m_info :: JSTokenInfo

text \<open>\<open>enum Operator\<close> and \<open>VarAttrs\<close> of \<open>parser/Nodes.h\<close>.\<close>

datatype Operator =
    OpEqual | OpPlusEq | OpMinusEq | OpMultEq | OpDivEq | OpPlusPlus | OpMinusMinus
  | OpAndEq | OpXOrEq | OpOrEq | OpModEq | OpLShift | OpRShift | OpURShift

definition IsConstant :: int where
  "IsConstant = 1"

definition HasInitializer :: int where
  "HasInitializer = 2"

end
