(* ===== verification/Lookup.thy ===== *)
theory Lookup
  imports Token
begin

text \<open>
  The keyword table of \<open>parser/Lookup.h\<close>: \<open>HashTable::testKeyword\<close>, a switch on the length of
  the identifier followed by comparisons of its characters, and \<open>HashTable::entry\<close>, which the
  lexer calls (it always returns an entry, whose value is \<open>IDENT\<close> for an identifier that is no
  keyword). Reads \<open>str[i]\<close> are \<open>str ! i\<close>; every caller passes \<open>len\<close> as the length of \<open>str\<close>.
\<close>

definition testKeyword :: "int \<Rightarrow> uchars \<Rightarrow> JSTokenType" where
  "testKeyword len str =
    (if len = 2 then
      if str ! 0 = of_char (CHR ''d'') \<and> str ! 1 = of_char (CHR ''o'') then DO
      else if str ! 0 = of_char (CHR ''i'') \<and> str ! 1 = of_char (CHR ''f'') then IF
      else if str ! 0 = of_char (CHR ''i'') \<and> str ! 1 = of_char (CHR ''n'') then INTOKEN
      else IDENT
     else if len = 3 then
      if str ! 0 = of_char (CHR ''f'') \<and> str ! 1 = of_char (CHR ''o'') \<and>
            str ! 2 = of_char (CHR ''r'') then FOR
      else if str ! 0 = of_char (CHR ''n'') \<and> str ! 1 = of_char (CHR ''e'') \<and>
            str ! 2 = of_char (CHR ''w'') then NEW
      else if str ! 0 = of_char (CHR ''t'') \<and> str ! 1 = of_char (CHR ''r'') \<and>
            str ! 2 = of_char (CHR ''y'') then TRY
      else if str ! 0 = of_char (CHR ''v'') \<and> str ! 1 = of_char (CHR ''a'') \<and>
            str ! 2 = of_char (CHR ''r'') then VAR
      else IDENT
     else if len = 4 then
      if str ! 0 = of_char (CHR ''c'') \<and> str ! 1 = of_char (CHR ''a'') \<and>
            str ! 2 = of_char (CHR ''s'') \<and> str ! 3 = of_char (CHR ''e'') then CASE
      else if str ! 0 = of_char (CHR ''e'') \<and> str ! 1 = of_char (CHR ''l'') \<and>
            str ! 2 = of_char (CHR ''s'') \<and> str ! 3 = of_char (CHR ''e'') then ELSE
      else if str ! 0 = of_char (CHR ''e'') \<and> str ! 1 = of_char (CHR ''n'') \<and>
            str ! 2 = of_char (CHR ''u'') \<and> str ! 3 = of_char (CHR ''m'') then RESERVED
      else if str ! 0 = of_char (CHR ''n'') \<and> str ! 1 = of_char (CHR ''u'') \<and>
            str ! 2 = of_char (CHR ''l'') \<and> str ! 3 = of_char (CHR ''l'') then NULLTOKEN
      else if str ! 0 = of_char (CHR ''t'') \<and> str ! 1 = of_char (CHR ''h'') \<and>
            str ! 2 = of_char (CHR ''i'') \<and> str ! 3 = of_char (CHR ''s'') then THISTOKEN
      else if str ! 0 = of_char (CHR ''t'') \<and> str ! 1 = of_char (CHR ''r'') \<and>
            str ! 2 = of_char (CHR ''u'') \<and> str ! 3 = of_char (CHR ''e'') then TRUETOKEN
      else if str ! 0 = of_char (CHR ''v'') \<and> str ! 1 = of_char (CHR ''o'') \<and>
            str ! 2 = of_char (CHR ''i'') \<and> str ! 3 = of_char (CHR ''d'') then VOIDTOKEN
      else if str ! 0 = of_char (CHR ''w'') \<and> str ! 1 = of_char (CHR ''i'') \<and>
            str ! 2 = of_char (CHR ''t'') \<and> str ! 3 = of_char (CHR ''h'') then WITH
      else IDENT
     else if len = 5 then
      if str ! 0 = of_char (CHR ''b'') \<and> str ! 1 = of_char (CHR ''r'') \<and>
            str ! 2 = of_char (CHR ''e'') \<and> str ! 3 = of_char (CHR ''a'') \<and>
            str ! 4 = of_char (CHR ''k'') then BREAK
      else if str ! 0 = of_char (CHR ''c'') \<and> str ! 1 = of_char (CHR ''a'') \<and>
            str ! 2 = of_char (CHR ''t'') \<and> str ! 3 = of_char (CHR ''c'') \<and>
            str ! 4 = of_char (CHR ''h'') then CATCH
      else if str ! 0 = of_char (CHR ''c'') \<and> str ! 1 = of_char (CHR ''o'') \<and>
            str ! 2 = of_char (CHR ''n'') \<and> str ! 3 = of_char (CHR ''s'') \<and>
            str ! 4 = of_char (CHR ''t'') then CONSTTOKEN
      else if str ! 0 = of_char (CHR ''f'') \<and> str ! 1 = of_char (CHR ''a'') \<and>
            str ! 2 = of_char (CHR ''l'') \<and> str ! 3 = of_char (CHR ''s'') \<and>
            str ! 4 = of_char (CHR ''e'') then FALSETOKEN
      else if str ! 0 = of_char (CHR ''t'') \<and> str ! 1 = of_char (CHR ''h'') \<and>
            str ! 2 = of_char (CHR ''r'') \<and> str ! 3 = of_char (CHR ''o'') \<and>
            str ! 4 = of_char (CHR ''w'') then THROW
      else if str ! 0 = of_char (CHR ''w'') \<and> str ! 1 = of_char (CHR ''h'') \<and>
            str ! 2 = of_char (CHR ''i'') \<and> str ! 3 = of_char (CHR ''l'') \<and>
            str ! 4 = of_char (CHR ''e'') then WHILE
      else if str ! 0 = of_char (CHR ''c'') \<and> str ! 1 = of_char (CHR ''l'') \<and>
            str ! 2 = of_char (CHR ''a'') \<and> str ! 3 = of_char (CHR ''s'') \<and>
            str ! 4 = of_char (CHR ''s'') then RESERVED
      else if str ! 0 = of_char (CHR ''s'') \<and> str ! 1 = of_char (CHR ''u'') \<and>
            str ! 2 = of_char (CHR ''p'') \<and> str ! 3 = of_char (CHR ''e'') \<and>
            str ! 4 = of_char (CHR ''r'') then RESERVED
      else IDENT
     else if len = 6 then
      if str ! 0 = of_char (CHR ''d'') \<and> str ! 1 = of_char (CHR ''e'') \<and>
            str ! 2 = of_char (CHR ''l'') \<and> str ! 3 = of_char (CHR ''e'') \<and>
            str ! 4 = of_char (CHR ''t'') \<and> str ! 5 = of_char (CHR ''e'') then DELETETOKEN
      else if str ! 0 = of_char (CHR ''s'') \<and> str ! 1 = of_char (CHR ''w'') \<and>
            str ! 2 = of_char (CHR ''i'') \<and> str ! 3 = of_char (CHR ''t'') \<and>
            str ! 4 = of_char (CHR ''c'') \<and> str ! 5 = of_char (CHR ''h'') then SWITCH
      else if str ! 0 = of_char (CHR ''r'') \<and> str ! 1 = of_char (CHR ''e'') \<and>
            str ! 2 = of_char (CHR ''t'') \<and> str ! 3 = of_char (CHR ''u'') \<and>
            str ! 4 = of_char (CHR ''r'') \<and> str ! 5 = of_char (CHR ''n'') then RETURN
      else if str ! 0 = of_char (CHR ''t'') \<and> str ! 1 = of_char (CHR ''y'') \<and>
            str ! 2 = of_char (CHR ''p'') \<and> str ! 3 = of_char (CHR ''e'') \<and>
            str ! 4 = of_char (CHR ''o'') \<and> str ! 5 = of_char (CHR ''f'') then TYPEOF
      else if str ! 0 = of_char (CHR ''e'') \<and> str ! 1 = of_char (CHR ''x'') \<and>
            str ! 2 = of_char (CHR ''p'') \<and> str ! 3 = of_char (CHR ''o'') \<and>
            str ! 4 = of_char (CHR ''r'') \<and> str ! 5 = of_char (CHR ''t'') then RESERVED
      else if str ! 0 = of_char (CHR ''i'') \<and> str ! 1 = of_char (CHR ''m'') \<and>
            str ! 2 = of_char (CHR ''p'') \<and> str ! 3 = of_char (CHR ''o'') \<and>
            str ! 4 = of_char (CHR ''r'') \<and> str ! 5 = of_char (CHR ''t'') then RESERVED
      else IDENT
     else if len = 7 then
      if str ! 0 = of_char (CHR ''d'') then
        (if str ! 1 = of_char (CHR ''e'') \<and> str ! 2 = of_char (CHR ''f'') \<and>
            str ! 3 = of_char (CHR ''a'') \<and> str ! 4 = of_char (CHR ''u'') \<and>
            str ! 5 = of_char (CHR ''l'') \<and> str ! 6 = of_char (CHR ''t'')
         then DEFAULT else IDENT)
      else if str ! 0 = of_char (CHR ''f'') then
        (if str ! 1 = of_char (CHR ''i'') \<and> str ! 2 = of_char (CHR ''n'') \<and>
            str ! 3 = of_char (CHR ''a'') \<and> str ! 4 = of_char (CHR ''l'') \<and>
            str ! 5 = of_char (CHR ''l'') \<and> str ! 6 = of_char (CHR ''y'')
         then FINALLY else IDENT)
      else if str ! 0 = of_char (CHR ''e'') then
        (if str ! 1 = of_char (CHR ''x'') \<and> str ! 2 = of_char (CHR ''t'') \<and>
            str ! 3 = of_char (CHR ''e'') \<and> str ! 4 = of_char (CHR ''n'') \<and>
            str ! 5 = of_char (CHR ''d'') \<and> str ! 6 = of_char (CHR ''s'')
         then RESERVED else IDENT)
      else IDENT
     else if len = 8 then
      if str ! 0 = of_char (CHR ''f'') then
        (if str ! 1 = of_char (CHR ''u'') \<and> str ! 2 = of_char (CHR ''n'') \<and>
            str ! 3 = of_char (CHR ''c'') \<and> str ! 4 = of_char (CHR ''t'') \<and>
            str ! 5 = of_char (CHR ''i'') \<and> str ! 6 = of_char (CHR ''o'') \<and>
            str ! 7 = of_char (CHR ''n'')
         then FUNCTION else IDENT)
      else if str ! 0 = of_char (CHR ''c'') then
        (if str ! 1 = of_char (CHR ''o'') \<and> str ! 2 = of_char (CHR ''n'') \<and>
            str ! 3 = of_char (CHR ''t'') \<and> str ! 4 = of_char (CHR ''i'') \<and>
            str ! 5 = of_char (CHR ''n'') \<and> str ! 6 = of_char (CHR ''u'') \<and>
            str ! 7 = of_char (CHR ''e'')
         then CONTINUE else IDENT)
      else if str ! 0 = of_char (CHR ''d'') then
        (if str ! 1 = of_char (CHR ''e'') \<and> str ! 2 = of_char (CHR ''b'') \<and>
            str ! 3 = of_char (CHR ''u'') \<and> str ! 4 = of_char (CHR ''g'') \<and>
            str ! 5 = of_char (CHR ''g'') \<and> str ! 6 = of_char (CHR ''e'') \<and>
            str ! 7 = of_char (CHR ''r'')
         then DEBUGGER else IDENT)
      else IDENT
     else if len = 10 then
      if str ! 0 = of_char (CHR ''i'') then
        (if str ! 1 = of_char (CHR ''n'') \<and> str ! 2 = of_char (CHR ''s'') \<and>
            str ! 3 = of_char (CHR ''t'') \<and> str ! 4 = of_char (CHR ''a'') \<and>
            str ! 5 = of_char (CHR ''n'') \<and> str ! 6 = of_char (CHR ''c'') \<and>
            str ! 7 = of_char (CHR ''e'') \<and> str ! 8 = of_char (CHR ''o'') \<and>
            str ! 9 = of_char (CHR ''f'')
         then INSTANCEOF else IDENT)
      else IDENT
     else IDENT)"

definition HashTable_entry :: "uchars \<Rightarrow> JSTokenType" where
  "HashTable_entry ident = testKeyword (int (length ident)) ident"

text \<open>The reference: the reserved words with their tokens.\<close>

definition keywordTable :: "(string \<times> JSTokenType) list" where
  "keywordTable = [
    (''do'', DO), (''if'', IF), (''in'', INTOKEN), (''for'', FOR),
    (''new'', NEW), (''try'', TRY), (''var'', VAR), (''case'', CASE),
    (''else'', ELSE), (''enum'', RESERVED), (''null'', NULLTOKEN), (''this'', THISTOKEN),
    (''true'', TRUETOKEN), (''void'', VOIDTOKEN), (''with'', WITH), (''break'', BREAK),
    (''catch'', CATCH), (''const'', CONSTTOKEN), (''false'', FALSETOKEN), (''throw'', THROW),
    (''while'', WHILE), (''class'', RESERVED), (''super'', RESERVED), (''delete'', DELETETOKEN),
    (''switch'', SWITCH), (''return'', RETURN), (''typeof'', TYPEOF), (''export'', RESERVED),
    (''import'', RESERVED), (''default'', DEFAULT), (''finally'', FINALLY), (''extends'', RESERVED),
    (''function'', FUNCTION), (''continue'', CONTINUE), (''debugger'', DEBUGGER), (''instanceof'', INSTANCEOF)]"

definition keywordMap :: "uchars \<rightharpoonup> JSTokenType" where
  "keywordMap = map_of (map (\<lambda>(w, t). (uchars_of w, t)) keywordTable)"

lemmas keyword_defs = testKeyword_def keywordMap_def keywordTable_def uchars_of_def

lemma keywordMap_length:
  assumes "keywordMap s = Some t"
  shows "length s \<in> {2, 3, 4, 5, 6, 7, 8, 10}"
proof -
  from assms have "s \<in> fst ` set (map (\<lambda>(w, t). (uchars_of w, t)) keywordTable)"
    unfolding keywordMap_def by (metis domI dom_map_of_conv_image_fst)
  then show ?thesis by (auto simp: keywordTable_def uchars_of_def)
qed

text \<open>
  C10. The hand-written comparison tree of \<open>HashTable::testKeyword\<close>, called as \<open>entry\<close> calls it,
  is the lookup in the table of the 36 reserved words: it yields the token of each of them and
  \<open>IDENT\<close> for every other character sequence.
\<close>

theorem testKeyword_is_table_lookup:
  "HashTable_entry s = (case keywordMap s of Some t \<Rightarrow> t | None \<Rightarrow> IDENT)"
proof -
  consider "length s = 2" | "length s = 3" | "length s = 4" | "length s = 5" | "length s = 6"
    | "length s = 7" | "length s = 8" | "length s = 10" | "length s \<notin> {2, 3, 4, 5, 6, 7, 8, 10}"
    by auto
  then show ?thesis
  proof cases
    case 9
    then have "keywordMap s = None" using keywordMap_length by (cases "keywordMap s") auto
    moreover from 9 have "testKeyword (int (length s)) s = IDENT" by (auto simp: testKeyword_def)
    ultimately show ?thesis by (simp add: HashTable_entry_def)
  qed (simp add: length_Suc_conv numeral_eq_Suc, clarsimp,
      simp add: HashTable_entry_def keyword_defs)+
qed

end
