(* ===== verification/Lexer.thy ===== *)
theory Lexer
  imports Lookup
begin

text \<open>
  The scanner: \<open>parser/Lexer.h\<close> and \<open>parser/Lexer.cpp\<close>. The state is the object's data members;
  pointers into the source become offsets from \<open>m_codeStart\<close>, the source itself is \<open>l_data\<close>
  (\<open>m_source->provider()->data()\<close>) and \<open>m_codeEnd\<close> is its end offset. Identifiers are their
  character sequences: the arena that owns them only keeps their addresses stable.

  The build does not define \<open>NDEBUG\<close>, so \<open>ASSERT\<close> is \<open>assert\<close> (\<open>wtf/Assertions.h\<close>): a failed one
  ends the process. The member \<open>assertsOK\<close> records whether all assertions executed so far held; a
  state in which it is \<open>False\<close> stands for an aborted process, and what the model does to it
  afterwards has no meaning.
\<close>

record lexer =
  l_data :: uchars
  m_lineNumber :: int
  m_lastLineNumber :: int
  m_buffer8 :: "int list"
  m_buffer16 :: uchars
  m_terminator :: bool
  m_delimited :: bool
  m_lastToken :: "JSTokenType option" \<comment> \<open>\<open>None\<close> is the initial \<open>-1\<close>\<close>
  m_code :: nat
  m_codeEnd :: nat
  m_isReparsing :: bool
  m_atLineStart :: bool
  m_lexError :: bool \<comment> \<open>the lexer's \<open>m_error\<close>\<close>
  m_current :: int
  assertsOK :: bool

datatype LexType = IdentifyReservedWords | IgnoreReservedWords

definition assertL :: "bool \<Rightarrow> lexer \<Rightarrow> lexer" where
  "assertL b s = s\<lparr>assertsOK := assertsOK s \<and> b\<rparr>"

subsection \<open>Construction and primitive operations\<close>

text \<open>
  \<open>raw\<close> is the memory the object is built in: the constructor sets \<open>m_isReparsing\<close> and, through
  their own constructors, the two buffers.
\<close>

definition Lexer_ctor :: "lexer \<Rightarrow> lexer" where
  "Lexer_ctor raw = raw\<lparr>m_isReparsing := False, m_buffer8 := [], m_buffer16 := []\<rparr>"

text \<open>
  \<open>setCode\<close> for a \<open>SourceCode\<close> of a whole provider, the only kind that can be built: start
  offset 0, end offset the length, first line 1.
\<close>

definition setCode :: "uchars \<Rightarrow> lexer \<Rightarrow> lexer" where
  "setCode source s = s\<lparr>
     m_lineNumber := 1, m_delimited := False, m_lastToken := None,
     l_data := source, m_code := 0, m_codeEnd := length source,
     m_lexError := False, m_atLineStart := True,
     m_current := (if 0 < length source then source ! 0 else - 1)\<rparr>"

text \<open>\<open>currentCharacter()\<close> and \<open>currentOffset()\<close> assert that the position is in the source.\<close>

definition assertOffset :: "lexer \<Rightarrow> lexer" where
  [lexer_defs]: "assertOffset s = assertL (m_code s \<le> m_codeEnd s) s"

definition shift :: "lexer \<Rightarrow> lexer" where
  "shift s =
    (let s = assertL (m_current s \<noteq> - 1) s; c = Suc (m_code s)
     in s\<lparr>m_code := c, m_current := (if c < m_codeEnd s then l_data s ! c else - 1)\<rparr>)"

definition peek :: "nat \<Rightarrow> lexer \<Rightarrow> int" where
  "peek offset s = (if m_code s + offset < m_codeEnd s then l_data s ! (m_code s + offset) else - 1)"

definition getUnicodeCharacter :: "lexer \<Rightarrow> int \<times> lexer" where
  "getUnicodeCharacter s =
    (let char1 = peek 1 s; char2 = peek 2 s; char3 = peek 3 s
     in if \<not> isASCIIHexDigit (m_current s) \<or> \<not> isASCIIHexDigit char1 \<or>
           \<not> isASCIIHexDigit char2 \<or> \<not> isASCIIHexDigit char3
        then (- 1, s)
        else (convertUnicode (m_current s) char1 char2 char3, shift (shift (shift (shift s)))))"

definition shiftLineTerminator :: "lexer \<Rightarrow> lexer" where
  "shiftLineTerminator s =
    (let s = assertL (isLineTerminator (m_current s)) s;
         m_prev = m_current s;
         s = shift s;
         s = (if m_prev + m_current s = 10 + 13 then shift s else s)
     in s\<lparr>m_lineNumber := m_lineNumber s + 1\<rparr>)"

definition lastTokenWasRestrKeyword :: "lexer \<Rightarrow> bool" where
  "lastTokenWasRestrKeyword s \<longleftrightarrow>
     m_lastToken s = Some CONTINUE \<or> m_lastToken s = Some BREAK \<or>
     m_lastToken s = Some RETURN \<or> m_lastToken s = Some THROW"

definition record8 :: "int \<Rightarrow> lexer \<Rightarrow> lexer" where
  "record8 c s = (let s = assertL (0 \<le> c \<and> c \<le> 0xFF) s in s\<lparr>m_buffer8 := m_buffer8 s @ [c mod 256]\<rparr>)"

definition record16 :: "int \<Rightarrow> lexer \<Rightarrow> lexer" where
  "record16 c s = (let s = assertL (0 \<le> c \<and> c \<le> 0xFFFF) s in s\<lparr>m_buffer16 := m_buffer16 s @ [to_uchar c]\<rparr>)"

text \<open>
  \<open>m_buffer16.append(start, currentCharacter() - start)\<close>, done when the two differ: the
  characters from offset \<open>start\<close> up to the current position.
\<close>

definition appendSince :: "nat \<Rightarrow> lexer \<Rightarrow> lexer" where
  "appendSince start s =
    (let s = assertOffset s
     in if start \<noteq> m_code s
        then s\<lparr>m_buffer16 := m_buffer16 s @ take (m_code s - start) (drop start (l_data s))\<rparr>
        else s)"

lemma m_current_frame [simp]:
  "m_current (assertL b s) = m_current s" "m_current (assertOffset s) = m_current s"
  "m_current (record8 c s) = m_current s" "m_current (record16 c s) = m_current s"
  "m_current (appendSince n s) = m_current s"
  by (simp_all add: assertL_def assertOffset_def record8_def record16_def appendSince_def Let_def)

text \<open>The measure of every loop: each \<open>shift\<close> of a proper character decreases it.\<close>

definition lrem :: "lexer \<Rightarrow> nat" where
  "lrem s = (m_codeEnd s - m_code s) + (if m_current s = - 1 then 0 else 1)"

lemma lrem_assertL [simp]: "lrem (assertL b s) = lrem s"
  by (simp add: lrem_def assertL_def)

lemma lrem_shift_le [simp]: "lrem (shift s) \<le> lrem s"
  by (auto simp: lrem_def shift_def Let_def assertL_def)

lemma lrem_shift_less [simp]: "m_current s \<noteq> - 1 \<Longrightarrow> lrem (shift s) < lrem s"
  by (auto simp: lrem_def shift_def Let_def assertL_def)

lemma lrem_buffers [simp]:
  "lrem (s\<lparr>m_buffer8 := b8\<rparr>) = lrem s" "lrem (s\<lparr>m_buffer16 := b16\<rparr>) = lrem s"
  "lrem (s\<lparr>m_lineNumber := ln\<rparr>) = lrem s" "lrem (s\<lparr>m_terminator := b\<rparr>) = lrem s"
  "lrem (s\<lparr>m_delimited := b\<rparr>) = lrem s" "lrem (s\<lparr>m_atLineStart := b\<rparr>) = lrem s"
  "lrem (s\<lparr>m_lastToken := t\<rparr>) = lrem s" "lrem (s\<lparr>m_lexError := b\<rparr>) = lrem s"
  "lrem (s\<lparr>m_lastLineNumber := ln\<rparr>) = lrem s"
  by (simp_all add: lrem_def)

lemma lrem_records [simp]:
  "lrem (record8 c s) = lrem s" "lrem (record16 c s) = lrem s" "lrem (assertOffset s) = lrem s"
  "lrem (appendSince n s) = lrem s"
  by (simp_all add: record8_def record16_def assertOffset_def appendSince_def Let_def)

lemma lrem_shift_le_trans: "lrem s \<le> n \<Longrightarrow> lrem (shift s) \<le> n"
  by (rule order_trans [OF lrem_shift_le])

lemma lrem_shift_less_trans: "lrem s < n \<Longrightarrow> lrem (shift s) < n"
  by (rule le_less_trans [OF lrem_shift_le])

lemma lrem_shiftLineTerminator_le [simp]: "lrem (shiftLineTerminator s) \<le> lrem s"
  unfolding shiftLineTerminator_def Let_def by (simp add: lrem_shift_le_trans)

lemma lrem_shiftLineTerminator_less [simp]:
  assumes "m_current s \<noteq> - 1"
  shows "lrem (shiftLineTerminator s) < lrem s"
proof -
  have "lrem (shift (assertL b s)) < lrem s" for b
    using lrem_shift_less [of "assertL b s"] assms by (simp add: assertL_def lrem_def)
  then show ?thesis
    unfolding shiftLineTerminator_def Let_def by (simp add: lrem_shift_less_trans)
qed

lemma lrem_getUnicodeCharacter [simp]: "lrem (snd (getUnicodeCharacter s)) \<le> lrem s"
  unfolding getUnicodeCharacter_def Let_def by (simp add: lrem_shift_le_trans)

subsection \<open>Identifiers\<close>

text \<open>
  The loop of \<open>parseIdentifier\<close>: \<open>(False, \<dots>)\<close> is the early \<open>return ERRORTOK\<close>. Its variables are
  \<open>bufferRequired\<close> and \<open>identifierStart\<close>.
\<close>

function parseIdentifier_loop :: "bool \<Rightarrow> nat \<Rightarrow> lexer \<Rightarrow> bool \<times> bool \<times> nat \<times> lexer" where
  "parseIdentifier_loop bufferRequired identifierStart s =
    (if isIdentPart (m_current s) then parseIdentifier_loop bufferRequired identifierStart (shift s)
     else if m_current s \<noteq> 92 \<comment> \<open>backslash\<close> then (True, bufferRequired, identifierStart, s)
     else
       let s1 = shift (appendSince identifierStart s)
       in if m_current s1 \<noteq> 117 \<comment> \<open>u\<close> then (False, True, identifierStart, s1)
          else
            let s2 = shift s1; (character, s3) = getUnicodeCharacter s2
            in if character = - 1 then (False, True, identifierStart, s3)
               else if (if m_buffer16 s3 \<noteq> [] then \<not> isIdentPart character
                        else \<not> isIdentStart character)
               then (False, True, identifierStart, s3)
               else
                 let s4 = assertOffset (record16 character s3)
                 in parseIdentifier_loop True (m_code s4) s4)"
  by pat_completeness auto
termination
proof (relation "measure (\<lambda>(b, n, s). lrem s)", goal_cases)
  case 1
  then show ?case by simp
next
  case (2 b n s)
  then show ?case by (cases "m_current s = - 1") auto
next
  case (3 b n s s1 s2 x character s3 s4)
  have "lrem s1 < lrem s"
    using 3(2) lrem_shift_less [of "appendSince n s"] by (simp add: 3(3))
  moreover have "lrem s2 \<le> lrem s1" by (simp add: 3(5))
  moreover have "lrem s3 \<le> lrem s2" by (metis 3(6,7) lrem_getUnicodeCharacter snd_conv)
  ultimately have "lrem s3 < lrem s" by linarith
  with 3 show ?case by simp
qed

declare parseIdentifier_loop.simps [simp del]

definition parseIdentifier :: "JSTokenData \<Rightarrow> LexType \<Rightarrow> lexer \<Rightarrow> JSTokenType \<times> JSTokenData \<times> lexer" where
  "parseIdentifier lvalp lexType s =
    (let s = assertOffset s;
         (ok, bufferRequired, identifierStart, s) = parseIdentifier_loop False (m_code s) s
     in if \<not> ok then (ERRORTOK, lvalp, s)
        else
          let (ident, s) =
                (if \<not> bufferRequired
                 then (take (m_code s - identifierStart) (drop identifierStart (l_data s)), assertOffset s)
                 else let s = appendSince identifierStart s in (m_buffer16 s, s));
              lvalp = lvalp\<lparr>identValue := ident\<rparr>;
              s = s\<lparr>m_delimited := False\<rparr>
          in if \<not> bufferRequired \<and> lexType = IdentifyReservedWords
             then (HashTable_entry ident, lvalp, s)
             else (IDENT, lvalp, s\<lparr>m_buffer16 := []\<rparr>))"

subsection \<open>String literals\<close>

text \<open>
  One escape sequence, after its backslash: the body of the \<open>if\<close> in the loop of \<open>parseString\<close>.
  The result is \<open>False\<close> for the two early \<open>return false\<close>.
\<close>

definition parseString_escape :: "int \<Rightarrow> lexer \<Rightarrow> bool \<times> lexer" where
  "parseString_escape stringQuoteCharacter s =
    (let escape = singleEscape (m_current s)
     in if escape \<noteq> 0 then (True, shift (record16 escape s))
        else if isLineTerminator (m_current s) then (True, shiftLineTerminator s)
        else if m_current s = 120 \<comment> \<open>x\<close> then
          (let s = shift s
           in if isASCIIHexDigit (m_current s) \<and> isASCIIHexDigit (peek 1 s)
              then let prev = m_current s; s = shift s
                   in (True, shift (record16 (convertHex prev (m_current s)) s))
              else (True, record16 120 s))
        else if m_current s = 117 \<comment> \<open>u\<close> then
          (let (character, s) = getUnicodeCharacter (shift s)
           in if character \<noteq> - 1 then (True, record16 character s)
              else if m_current s = stringQuoteCharacter then (True, record16 117 s)
              else (False, s))
        else if isASCIIOctalDigit (m_current s) then
          (let character1 = m_current s; s = shift s
           in if isASCIIOctalDigit (m_current s)
              then
                let character2 = m_current s; s = shift s
                in if 48 \<le> character1 \<and> character1 \<le> 51 \<and> isASCIIOctalDigit (m_current s)
                   then (True, shift (record16
                          ((character1 - 48) * 64 + (character2 - 48) * 8 + m_current s - 48) s))
                   else (True, record16 ((character1 - 48) * 8 + character2 - 48) s)
              else (True, record16 (character1 - 48) s))
        else if m_current s \<noteq> - 1 then (True, shift (record16 (m_current s) s))
        else (False, s))"

text \<open>
  The fast check \<open>(static_cast<unsigned>(m_current) - 0xE) & 0x2000\<close>, in 32-bit arithmetic.
\<close>

definition needsSpecialHandling :: "int \<Rightarrow> bool" where
  "needsSpecialHandling c \<longleftrightarrow> (word_of_int c - 0xE :: u32) AND 0x2000 \<noteq> 0"

lemma needsSpecialHandling_minus_one [simp]: "needsSpecialHandling (- 1)"
  unfolding needsSpecialHandling_def by simp

lemma lrem_parseString_escape [simp]:
  "lrem (snd (parseString_escape q s)) \<le> lrem s"
  unfolding parseString_escape_def Let_def
  by (auto simp: lrem_shift_le_trans split: prod.split)
     (metis lrem_getUnicodeCharacter lrem_shift_le order_trans snd_conv)+

text \<open>
  The loop of \<open>parseString\<close> over \<open>stringStart\<close>; \<open>(False, \<dots>)\<close> is \<open>return false\<close>.
\<close>

function parseString_loop :: "int \<Rightarrow> nat \<Rightarrow> lexer \<Rightarrow> bool \<times> nat \<times> lexer" where
  "parseString_loop stringQuoteCharacter stringStart s =
    (if m_current s \<noteq> stringQuoteCharacter then
       if m_current s = 92 \<comment> \<open>backslash\<close> then
         let (ok, s') = parseString_escape stringQuoteCharacter (shift (appendSince stringStart s))
         in if \<not> ok then (False, stringStart, s')
            else let s' = assertOffset s' in parseString_loop stringQuoteCharacter (m_code s') s'
       else if needsSpecialHandling (m_current s) \<and>
               (isLineTerminator (m_current s) \<or> m_current s = - 1)
       then (False, stringStart, s)
       else parseString_loop stringQuoteCharacter stringStart (shift s)
     else (True, stringStart, s))"
  by pat_completeness auto
termination
proof (relation "measure (\<lambda>(q, n, s). lrem s)", goal_cases)
  case 1
  then show ?case by simp
next
  case (2 q n s x ok s1 s2)
  have "lrem (shift (appendSince n s)) < lrem s"
    using 2(2) lrem_shift_less [of "appendSince n s"] by simp
  moreover have "lrem s1 \<le> lrem (shift (appendSince n s))"
    by (metis 2(3,4) lrem_parseString_escape snd_conv)
  ultimately have "lrem s1 < lrem s" by linarith
  with 2(6) show ?case by simp
next
  case (3 q n s)
  then show ?case by (cases "m_current s = - 1") auto
qed

declare parseString_loop.simps [simp del]

definition parseString :: "JSTokenData \<Rightarrow> lexer \<Rightarrow> bool \<times> JSTokenData \<times> lexer" where
  "parseString lvalp s =
    (let stringQuoteCharacter = m_current s;
         s = assertOffset (shift s);
         (ok, stringStart, s) = parseString_loop stringQuoteCharacter (m_code s) s
     in if \<not> ok then (False, lvalp, s)
        else let s = appendSince stringStart s
             in (True, lvalp\<lparr>identValue := m_buffer16 s\<rparr>, s\<lparr>m_buffer16 := []\<rparr>))"

subsection \<open>Numeric literals\<close>

text \<open>
  The three number parsers read digits into a \<open>uint32_t\<close> and stop after at most \<open>maximumDigits + 1\<close>
  of them; \<open>do \<dots> while\<close> loops become functions that test after the body. The temporary
  array \<open>digits[10]\<close> is filled from its end.
\<close>

function parseHex_loop :: "u32 \<Rightarrow> int \<Rightarrow> lexer \<Rightarrow> u32 \<times> int \<times> lexer" where
  "parseHex_loop hexValue maximumDigits s =
    (let s = assertL (isASCIIHexDigit (m_current s)) s;
         hexValue = push_bit 4 hexValue + word_of_int (toASCIIHexValue (m_current s));
         s = shift s;
         maximumDigits = maximumDigits - 1
     in if isASCIIHexDigit (m_current s) \<and> maximumDigits \<ge> 0
        then parseHex_loop hexValue maximumDigits s
        else (hexValue, maximumDigits, s))"
  by pat_completeness auto
termination
  by (relation "measure (\<lambda>(h, m, s). nat m)") auto

declare parseHex_loop.simps [simp del]

text \<open>Eight digits that do not fit are written back into \<open>m_buffer8\<close>, most significant first.\<close>

fun parseHex_writeBack :: "nat \<Rightarrow> u32 \<Rightarrow> lexer \<Rightarrow> lexer" where
  "parseHex_writeBack 0 hexValue s = s"
| "parseHex_writeBack (Suc i) hexValue s =
    (let digit = uint (drop_bit 28 hexValue)
     in parseHex_writeBack i (push_bit 4 hexValue)
          (if digit < 10 then record8 (digit + 48) s else record8 (digit - 10 + 97) s))"

function recordHexDigits :: "lexer \<Rightarrow> lexer" where
  "recordHexDigits s =
    (if isASCIIHexDigit (m_current s) then recordHexDigits (shift (record8 (m_current s) s)) else s)"
  by pat_completeness auto
termination
  by (relation "measure lrem")
     (auto intro!: lrem_shift_less [of "record8 c s" for c s, unfolded lrem_records m_current_frame])

declare recordHexDigits.simps [simp del]

definition parseHex :: "lexer \<Rightarrow> dbl \<times> lexer" where
  "parseHex s =
    (let s = shift s; \<comment> \<open>the 'x' prefix\<close>
         (hexValue, maximumDigits, s) = parseHex_loop 0 7 s
     in if maximumDigits \<ge> 0 then (DUInt hexValue, s)
        else let s = recordHexDigits (parseHex_writeBack 8 hexValue s)
             in (DParseInt (m_buffer8 s) 16, s))"

function parseOctal_loop :: "u32 \<Rightarrow> int \<Rightarrow> int list \<Rightarrow> lexer \<Rightarrow> u32 \<times> int \<times> int list \<times> lexer" where
  "parseOctal_loop octalValue maximumDigits digits s =
    (let octalValue = octalValue * 8 + word_of_int (m_current s - 48);
         digits = digits[nat maximumDigits := m_current s];
         s = shift s;
         maximumDigits = maximumDigits - 1
     in if isASCIIOctalDigit (m_current s) \<and> maximumDigits \<ge> 0
        then parseOctal_loop octalValue maximumDigits digits s
        else (octalValue, maximumDigits, digits, s))"
  by pat_completeness auto
termination
  by (relation "measure (\<lambda>(v, m, d, s). nat m)") auto

declare parseOctal_loop.simps [simp del]

text \<open>\<open>for (int i = 9; i > maximumDigits; --i) record8(digits[i])\<close>\<close>

definition recordDigits :: "int list \<Rightarrow> int \<Rightarrow> lexer \<Rightarrow> lexer" where
  "recordDigits digits maximumDigits s =
     fold (\<lambda>i. record8 (digits ! nat i)) (rev [maximumDigits + 1..9]) s"

function recordOctalDigits :: "lexer \<Rightarrow> lexer" where
  "recordOctalDigits s =
    (if isASCIIOctalDigit (m_current s) then recordOctalDigits (shift (record8 (m_current s) s)) else s)"
  by pat_completeness auto
termination
  by (relation "measure lrem")
     (auto intro!: lrem_shift_less [of "record8 c s" for c s, unfolded lrem_records m_current_frame])

declare recordOctalDigits.simps [simp del]

text \<open>\<open>digits0\<close>: the uninitialised contents of the array. \<open>None\<close> is \<open>return false\<close>.\<close>

definition parseOctal :: "int list \<Rightarrow> lexer \<Rightarrow> dbl option \<times> lexer" where
  "parseOctal digits0 s =
    (let (octalValue, maximumDigits, digits, s) = parseOctal_loop 0 9 digits0 s
     in if \<not> isASCIIDigit (m_current s) \<and> maximumDigits \<ge> 0 then (Some (DUInt octalValue), s)
        else
          let s = recordOctalDigits (recordDigits digits maximumDigits s)
          in if isASCIIDigit (m_current s) then (None, s)
             else (Some (DParseInt (m_buffer8 s) 8), s))"

function parseDecimal_loop :: "u32 \<Rightarrow> int \<Rightarrow> int list \<Rightarrow> lexer \<Rightarrow> u32 \<times> int \<times> int list \<times> lexer" where
  "parseDecimal_loop decimalValue maximumDigits digits s =
    (let decimalValue = decimalValue * 10 + word_of_int (m_current s - 48);
         digits = digits[nat maximumDigits := m_current s];
         s = shift s;
         maximumDigits = maximumDigits - 1
     in if isASCIIDigit (m_current s) \<and> maximumDigits \<ge> 0
        then parseDecimal_loop decimalValue maximumDigits digits s
        else (decimalValue, maximumDigits, digits, s))"
  by pat_completeness auto
termination
  by (relation "measure (\<lambda>(v, m, d, s). nat m)") auto

declare parseDecimal_loop.simps [simp del]

text \<open>\<open>while (isASCIIDigit(m_current)) { record8(m_current); shift(); }\<close>, used three times.\<close>

function recordDecimalDigits :: "lexer \<Rightarrow> lexer" where
  "recordDecimalDigits s =
    (if isASCIIDigit (m_current s) then recordDecimalDigits (shift (record8 (m_current s) s)) else s)"
  by pat_completeness auto
termination
  by (relation "measure lrem")
     (auto intro!: lrem_shift_less [of "record8 c s" for c s, unfolded lrem_records m_current_frame])

declare recordDecimalDigits.simps [simp del]

definition parseDecimal :: "int list \<Rightarrow> lexer \<Rightarrow> dbl option \<times> lexer" where
  "parseDecimal digits0 s =
    (if m_buffer8 s = [] then
       let (decimalValue, maximumDigits, digits, s) = parseDecimal_loop 0 9 digits0 s
       in if maximumDigits \<ge> 0 \<and> m_current s \<noteq> 46 \<and> m_current s OR 0x20 \<noteq> 101
          then (Some (DUInt decimalValue), s)
          else (None, recordDecimalDigits (recordDigits digits maximumDigits s))
     else (None, recordDecimalDigits s))"

definition parseNumberAfterDecimalPoint :: "lexer \<Rightarrow> lexer" where
  "parseNumberAfterDecimalPoint s = recordDecimalDigits (record8 46 s)"

definition parseNumberAfterExponentIndicator :: "lexer \<Rightarrow> bool \<times> lexer" where
  "parseNumberAfterExponentIndicator s =
    (let s = shift (record8 101 s);
         s = (if m_current s = 43 \<or> m_current s = 45 then shift (record8 (m_current s) s) else s)
     in if \<not> isASCIIDigit (m_current s) then (False, s)
        else (True, recordDecimalDigits (shift (record8 (m_current s) s))))"

subsection \<open>Comments\<close>

text \<open>
  \<open>parseMultilineComment\<close>: its inner loop over asterisks returns \<open>True\<close> when it has read the
  slash that closes the comment.
\<close>

function skipAsterisks :: "lexer \<Rightarrow> bool \<times> lexer" where
  "skipAsterisks s =
    (if m_current s = 42 then
       let s = shift s in if m_current s = 47 then (True, shift s) else skipAsterisks s
     else (False, s))"
  by pat_completeness auto
termination
  by (relation "measure lrem") auto

declare skipAsterisks.simps [simp del]

lemma lrem_skipAsterisks: "lrem (snd (skipAsterisks s)) \<le> lrem s"
proof (induction s rule: skipAsterisks.induct)
  case (1 s)
  then show ?case
    by (subst skipAsterisks.simps) (auto simp: Let_def lrem_shift_le_trans intro: order_trans [OF _ lrem_shift_le])
qed

function parseMultilineComment :: "lexer \<Rightarrow> bool \<times> lexer" where
  "parseMultilineComment s =
    (let (closed, s) = skipAsterisks s
     in if closed then (True, s)
        else if m_current s = - 1 then (False, s)
        else if isLineTerminator (m_current s) then parseMultilineComment (shiftLineTerminator s)
        else parseMultilineComment (shift s))"
  by pat_completeness auto
termination
proof (relation "measure lrem", goal_cases)
  case 1
  then show ?case by simp
next
  case (2 s x closed s1)
  then have "lrem s1 \<le> lrem s" by (metis lrem_skipAsterisks snd_conv)
  then have "lrem (shiftLineTerminator s1) < lrem s"
    using 2(4) by (metis lrem_shiftLineTerminator_less order_less_le_trans)
  then show ?case by simp
next
  case (3 s x closed s1)
  then have "lrem s1 \<le> lrem s" by (metis lrem_skipAsterisks snd_conv)
  then have "lrem (shift s1) < lrem s"
    using 3(4) by (metis lrem_shift_less order_less_le_trans)
  then show ?case by simp
qed

declare parseMultilineComment.simps [simp del]

text \<open>The loop at \<open>inSingleLineComment\<close>: \<open>True\<close> when it stops at a line terminator.\<close>

function skipLineComment :: "lexer \<Rightarrow> bool \<times> lexer" where
  "skipLineComment s =
    (if \<not> isLineTerminator (m_current s) then
       if m_current s = - 1 then (False, s) else skipLineComment (shift s)
     else (True, s))"
  by pat_completeness auto
termination
  by (relation "measure lrem") auto

declare skipLineComment.simps [simp del]

function skipWhiteSpace :: "lexer \<Rightarrow> lexer" where
  "skipWhiteSpace s = (if isWhiteSpace (m_current s) then skipWhiteSpace (shift s) else s)"
  by pat_completeness auto
termination
  by (relation "measure lrem") (auto intro!: lrem_shift_less)

declare skipWhiteSpace.simps [simp del]

subsection \<open>The switch of lex\<close>

text \<open>
  How a case of the switch ends: \<open>break\<close> with \<open>token\<close> set, \<open>goto returnToken\<close>, \<open>goto start\<close>,
  \<open>goto inSingleLineComment\<close>, \<open>goto returnError\<close>.
\<close>

datatype lexStep =
    Break JSTokenType
  | GotoReturnToken JSTokenType
  | GotoStart
  | GotoSingleLineComment
  | GotoReturnError

definition lexGreater :: "lexer \<Rightarrow> lexStep \<times> lexer" where
  "lexGreater s =
    (let s = shift s
     in if m_current s = 62 then
          let s = shift s
          in if m_current s = 62 then
               let s = shift s
               in if m_current s = 61 then (Break URSHIFTEQUAL, shift s) else (Break URSHIFT, s)
             else if m_current s = 61 then (Break RSHIFTEQUAL, shift s)
             else (Break RSHIFT, s)
        else if m_current s = 61 then (Break GE, shift s)
        else (Break GT, s))"

definition lexEqual :: "lexer \<Rightarrow> lexStep \<times> lexer" where
  "lexEqual s =
    (let s = shift s
     in if m_current s = 61 then
          let s = shift s
          in if m_current s = 61 then (Break STREQ, shift s) else (Break EQEQ, s)
        else (Break EQUAL, s))"

definition lexLess :: "lexer \<Rightarrow> lexStep \<times> lexer" where
  "lexLess s =
    (let s = shift s
     in if m_current s = 33 \<and> peek 1 s = 45 \<and> peek 2 s = 45 then (GotoSingleLineComment, s)
        else if m_current s = 60 then
          let s = shift s
          in if m_current s = 61 then (Break LSHIFTEQUAL, shift s) else (Break LSHIFT, s)
        else if m_current s = 61 then (Break LE, shift s)
        else (Break LT, s))"

definition lexExclamationMark :: "lexer \<Rightarrow> lexStep \<times> lexer" where
  "lexExclamationMark s =
    (let s = shift s
     in if m_current s = 61 then
          let s = shift s
          in if m_current s = 61 then (Break STRNEQ, shift s) else (Break NE, s)
        else (Break EXCLAMATION, s))"

definition lexAdd :: "lexer \<Rightarrow> lexStep \<times> lexer" where
  "lexAdd s =
    (let s = shift s
     in if m_current s = 43 then
          let s = shift s in (Break (if \<not> m_terminator s then PLUSPLUS else AUTOPLUSPLUS), s)
        else if m_current s = 61 then (Break PLUSEQUAL, shift s)
        else (Break PLUS, s))"

definition lexSub :: "lexer \<Rightarrow> lexStep \<times> lexer" where
  "lexSub s =
    (let s = shift s
     in if m_current s = 45 then
          let s = shift s
          in if m_atLineStart s \<and> m_current s = 62 then (GotoSingleLineComment, shift s)
             else (Break (if \<not> m_terminator s then MINUSMINUS else AUTOMINUSMINUS), s)
        else if m_current s = 61 then (Break MINUSEQUAL, shift s)
        else (Break MINUS, s))"

definition lexMultiply :: "lexer \<Rightarrow> lexStep \<times> lexer" where
  "lexMultiply s =
    (let s = shift s
     in if m_current s = 61 then (Break MULTEQUAL, shift s) else (Break TIMES, s))"

definition lexSlash :: "lexer \<Rightarrow> lexStep \<times> lexer" where
  "lexSlash s =
    (let s = shift s
     in if m_current s = 47 then (GotoSingleLineComment, shift s)
        else if m_current s = 42 then
          let (closed, s) = parseMultilineComment (shift s)
          in (if closed then GotoStart else GotoReturnError, s)
        else if m_current s = 61 then (Break DIVEQUAL, shift s)
        else (Break DIVIDE, s))"

definition lexAnd :: "lexer \<Rightarrow> lexStep \<times> lexer" where
  "lexAnd s =
    (let s = shift s
     in if m_current s = 38 then (Break ANDAND, shift s)
        else if m_current s = 61 then (Break ANDEQUAL, shift s)
        else (Break BITAND, s))"

definition lexXor :: "lexer \<Rightarrow> lexStep \<times> lexer" where
  "lexXor s =
    (let s = shift s
     in if m_current s = 61 then (Break XOREQUAL, shift s) else (Break BITXOR, s))"

definition lexModulo :: "lexer \<Rightarrow> lexStep \<times> lexer" where
  "lexModulo s =
    (let s = shift s
     in if m_current s = 61 then (Break MODEQUAL, shift s) else (Break MOD, s))"

definition lexOr :: "lexer \<Rightarrow> lexStep \<times> lexer" where
  "lexOr s =
    (let s = shift s
     in if m_current s = 61 then (Break OREQUAL, shift s)
        else if m_current s = 124 then (Break OROR, shift s)
        else (Break BITOR, s))"

text \<open>The cases of one character: parentheses, brackets, separators, braces, the semicolon.\<close>

definition lexSingle :: "JSTokenType \<Rightarrow> lexer \<Rightarrow> lexStep \<times> lexer" where
  "lexSingle token s = (Break token, shift s)"

definition lexSemicolon :: "lexer \<Rightarrow> lexStep \<times> lexer" where
  "lexSemicolon s = (Break SEMICOLON, shift (s\<lparr>m_delimited := True\<rparr>))"

definition lexOpenBrace :: "JSTokenData \<Rightarrow> lexer \<Rightarrow> lexStep \<times> JSTokenData \<times> lexer" where
  "lexOpenBrace lvalp s =
    (let s = assertOffset s
     in (Break OPENBRACE, lvalp\<lparr>intValue := int (m_code s)\<rparr>, shift s))"

definition lexCloseBrace :: "JSTokenData \<Rightarrow> lexer \<Rightarrow> lexStep \<times> JSTokenData \<times> lexer" where
  "lexCloseBrace lvalp s =
    (let s = assertOffset s
     in (Break CLOSEBRACE, lvalp\<lparr>intValue := int (m_code s)\<rparr>, shift (s\<lparr>m_delimited := True\<rparr>)))"

text \<open>
  The end of the number cases: the exponent and \<open>strtod\<close> (from after the label
  \<open>inNumberAfterDecimalPoint\<close>), and what every number token does last.
\<close>

definition lexNumberEnd :: "JSTokenData \<Rightarrow> lexer \<Rightarrow> lexStep \<times> JSTokenData \<times> lexer" where
  "lexNumberEnd lvalp s =
    (if isIdentStart (m_current s) then (GotoReturnError, lvalp, s)
     else (Break NUMBER, lvalp, s\<lparr>m_buffer8 := [], m_delimited := False\<rparr>))"

definition lexExponent :: "JSTokenData \<Rightarrow> lexer \<Rightarrow> lexStep \<times> JSTokenData \<times> lexer" where
  "lexExponent lvalp s =
    (let (ok, s) = (if m_current s OR 0x20 = 101 then parseNumberAfterExponentIndicator s else (True, s))
     in if \<not> ok then (GotoReturnError, lvalp, s)
        else let s = s\<lparr>m_buffer8 := m_buffer8 s @ [0]\<rparr>
             in lexNumberEnd (lvalp\<lparr>doubleValue := DStrtod (m_buffer8 s)\<rparr>) s)"

definition lexDot :: "JSTokenData \<Rightarrow> lexer \<Rightarrow> lexStep \<times> JSTokenData \<times> lexer" where
  "lexDot lvalp s =
    (let s = shift s
     in if \<not> isASCIIDigit (m_current s) then (Break DOT, lvalp, s)
        else lexExponent lvalp (parseNumberAfterDecimalPoint s))"

text \<open>\<open>digits0\<close> stands for the uninitialised arrays of \<open>parseOctal\<close> and \<open>parseDecimal\<close>.\<close>

definition lexNumber :: "int list \<Rightarrow> JSTokenData \<Rightarrow> lexer \<Rightarrow> lexStep \<times> JSTokenData \<times> lexer" where
  "lexNumber digits0 lvalp s =
    (let (value, s) = parseDecimal digits0 s
     in case value of
          Some d \<Rightarrow> lexNumberEnd (lvalp\<lparr>doubleValue := d\<rparr>) s
        | None \<Rightarrow> lexExponent lvalp
                    (if m_current s = 46 then parseNumberAfterDecimalPoint (shift s) else s))"

definition lexZero :: "int list \<Rightarrow> JSTokenData \<Rightarrow> lexer \<Rightarrow> lexStep \<times> JSTokenData \<times> lexer" where
  "lexZero digits0 lvalp s =
    (let s = shift s
     in if m_current s OR 0x20 = 120 \<and> isASCIIHexDigit (peek 1 s) then
          let (d, s) = parseHex s in lexNumberEnd (lvalp\<lparr>doubleValue := d\<rparr>) s
        else
          let s = record8 48 s
          in if isASCIIOctalDigit (m_current s) then
               let (value, s) = parseOctal digits0 s
               in case value of
                    Some d \<Rightarrow> lexNumberEnd (lvalp\<lparr>doubleValue := d\<rparr>) s
                  | None \<Rightarrow> lexNumber digits0 lvalp s
             else lexNumber digits0 lvalp s)"

definition lexQuote :: "JSTokenData \<Rightarrow> lexer \<Rightarrow> lexStep \<times> JSTokenData \<times> lexer" where
  "lexQuote lvalp s =
    (let (ok, lvalp, s) = parseString lvalp s
     in if \<not> ok then (GotoReturnError, lvalp, s)
        else (Break STRING, lvalp, (shift s)\<lparr>m_delimited := False\<rparr>))"

definition lexIdentifier :: "LexType \<Rightarrow> JSTokenData \<Rightarrow> lexer \<Rightarrow> lexStep \<times> JSTokenData \<times> lexer" where
  "lexIdentifier lexType lvalp s =
    (let (token, lvalp, s) = parseIdentifier lvalp lexType s in (Break token, lvalp, s))"

definition lexLineTerminator :: "lexer \<Rightarrow> lexStep \<times> lexer" where
  "lexLineTerminator s =
    (let s = assertL (isLineTerminator (m_current s)) s;
         s = (shiftLineTerminator s)\<lparr>m_atLineStart := True, m_terminator := True\<rparr>
     in if lastTokenWasRestrKeyword s
        then (GotoReturnToken SEMICOLON, s\<lparr>m_delimited := True\<rparr>)
        else (GotoStart, s))"

definition lexSwitch ::
  "int list \<Rightarrow> LexType \<Rightarrow> CharacterType \<Rightarrow> JSTokenData \<Rightarrow> lexer \<Rightarrow> lexStep \<times> JSTokenData \<times> lexer" where
  "lexSwitch digits0 lexType type lvalp s =
    (case type of
       CharacterGreater \<Rightarrow> (let (step, s) = lexGreater s in (step, lvalp, s))
     | CharacterEqual \<Rightarrow> (let (step, s) = lexEqual s in (step, lvalp, s))
     | CharacterLess \<Rightarrow> (let (step, s) = lexLess s in (step, lvalp, s))
     | CharacterExclamationMark \<Rightarrow> (let (step, s) = lexExclamationMark s in (step, lvalp, s))
     | CharacterAdd \<Rightarrow> (let (step, s) = lexAdd s in (step, lvalp, s))
     | CharacterSub \<Rightarrow> (let (step, s) = lexSub s in (step, lvalp, s))
     | CharacterMultiply \<Rightarrow> (let (step, s) = lexMultiply s in (step, lvalp, s))
     | CharacterSlash \<Rightarrow> (let (step, s) = lexSlash s in (step, lvalp, s))
     | CharacterAnd \<Rightarrow> (let (step, s) = lexAnd s in (step, lvalp, s))
     | CharacterXor \<Rightarrow> (let (step, s) = lexXor s in (step, lvalp, s))
     | CharacterModulo \<Rightarrow> (let (step, s) = lexModulo s in (step, lvalp, s))
     | CharacterOr \<Rightarrow> (let (step, s) = lexOr s in (step, lvalp, s))
     | CharacterOpenParen \<Rightarrow> (let (step, s) = lexSingle OPENPAREN s in (step, lvalp, s))
     | CharacterCloseParen \<Rightarrow> (let (step, s) = lexSingle CLOSEPAREN s in (step, lvalp, s))
     | CharacterOpenBracket \<Rightarrow> (let (step, s) = lexSingle OPENBRACKET s in (step, lvalp, s))
     | CharacterCloseBracket \<Rightarrow> (let (step, s) = lexSingle CLOSEBRACKET s in (step, lvalp, s))
     | CharacterComma \<Rightarrow> (let (step, s) = lexSingle COMMA s in (step, lvalp, s))
     | CharacterColon \<Rightarrow> (let (step, s) = lexSingle COLON s in (step, lvalp, s))
     | CharacterQuestion \<Rightarrow> (let (step, s) = lexSingle QUESTION s in (step, lvalp, s))
     | CharacterTilde \<Rightarrow> (let (step, s) = lexSingle TILDE s in (step, lvalp, s))
     | CharacterSemicolon \<Rightarrow> (let (step, s) = lexSemicolon s in (step, lvalp, s))
     | CharacterOpenBrace \<Rightarrow> lexOpenBrace lvalp s
     | CharacterCloseBrace \<Rightarrow> lexCloseBrace lvalp s
     | CharacterDot \<Rightarrow> lexDot lvalp s
     | CharacterZero \<Rightarrow> lexZero digits0 lvalp s
     | CharacterNumber \<Rightarrow> lexNumber digits0 lvalp s
     | CharacterQuote \<Rightarrow> lexQuote lvalp s
     | CharacterIdentifierStart \<Rightarrow>
         lexIdentifier lexType lvalp (assertL (isIdentStart (m_current s)) s)
     | CharacterBackSlash \<Rightarrow> lexIdentifier lexType lvalp s
     | CharacterLineTerminator \<Rightarrow> (let (step, s) = lexLineTerminator s in (step, lvalp, s))
     | CharacterInvalid \<Rightarrow> (GotoReturnError, lvalp, s)
     | CharacterWhiteSpace \<Rightarrow> (GotoReturnError, lvalp, assertL False s))"

subsection \<open>lex\<close>

definition characterType :: "int \<Rightarrow> CharacterType" where
  "characterType c =
    (if isASCII c then typeOfASCII c
     else if isNonASCIIIdentStart c then CharacterIdentifierStart
     else if isLineTerminator c then CharacterLineTerminator
     else CharacterInvalid)"

text \<open>The code at the label \<open>returnToken\<close>.\<close>

definition lexReturnToken ::
  "nat \<Rightarrow> JSTokenType \<Rightarrow> JSTokenData \<Rightarrow> JSTokenInfo \<Rightarrow> lexer \<Rightarrow>
    JSTokenType \<times> JSTokenData \<times> JSTokenInfo \<times> lexer" where
  "lexReturnToken start token lvalp llocp s =
    (let s = assertOffset s
     in (token, lvalp,
         llocp\<lparr>tline := m_lineNumber s, startOffset := start, endOffset := m_code s\<rparr>,
         s\<lparr>m_lastToken := Some token\<rparr>))"

text \<open>The code at the label \<open>returnError\<close>.\<close>

definition lexReturnError ::
  "JSTokenData \<Rightarrow> JSTokenInfo \<Rightarrow> lexer \<Rightarrow> JSTokenType \<times> JSTokenData \<times> JSTokenInfo \<times> lexer" where
  "lexReturnError lvalp llocp s = (ERRORTOK, lvalp, llocp, s\<lparr>m_lexError := True\<rparr>)"

lemma lrem_skipLineComment: "lrem (snd (skipLineComment s)) \<le> lrem s"
proof (induction s rule: skipLineComment.induct)
  case (1 s)
  then show ?case
    by (subst skipLineComment.simps) (auto intro: order_trans [OF _ lrem_shift_le])
qed

lemma lrem_skipWhiteSpace: "lrem (skipWhiteSpace s) \<le> lrem s"
proof (induction s rule: skipWhiteSpace.induct)
  case (1 s)
  then show ?case
    by (subst skipWhiteSpace.simps) (auto intro: order_trans [OF _ lrem_shift_le])
qed

lemma lrem_parseMultilineComment: "lrem (snd (parseMultilineComment s)) \<le> lrem s"
proof (induction s rule: parseMultilineComment.induct)
  case (1 s)
  obtain closed s1 where sk: "skipAsterisks s = (closed, s1)" by fastforce
  then have "lrem s1 \<le> lrem s" by (metis lrem_skipAsterisks snd_conv)
  then have "lrem (shift s1) \<le> lrem s" and "lrem (shiftLineTerminator s1) \<le> lrem s"
    by (meson lrem_shift_le lrem_shiftLineTerminator_le order_trans)+
  with \<open>lrem s1 \<le> lrem s\<close> 1 [OF sk [symmetric]] show ?case
    by (subst parseMultilineComment.simps) (simp add: sk Let_def, meson order_trans)
qed

lemma skipLineComment_stops: "skipLineComment s = (True, s') \<Longrightarrow> isLineTerminator (m_current s')"
proof (induction s rule: skipLineComment.induct)
  case (1 s)
  from "1.prems" show ?case
    by (subst (asm) skipLineComment.simps) (auto split: if_splits dest: "1.IH")
qed

text \<open>Every way back to the label \<open>start\<close> has read a character.\<close>

lemma lrem_lexSwitch_goto:
  assumes "lexSwitch digits0 lexType type lvalp s = (step, lvalp', s')"
    and "step = GotoStart \<or> step = GotoSingleLineComment" and "m_current s \<noteq> - 1"
  shows "lrem s' < lrem s"
proof -
  have sh: "lrem (shift s) < lrem s" "lrem (shift (shift s)) < lrem s"
    using assms(3) by (simp_all add: lrem_shift_less_trans)
  have mc: "lrem (snd (parseMultilineComment (shift (shift s)))) < lrem s"
    using sh lrem_parseMultilineComment le_less_trans by blast
  have sl: "lrem (shiftLineTerminator (assertL b s)) < lrem s" for b
    using lrem_shiftLineTerminator_less [of "assertL b s"] assms(3) by simp
  show ?thesis
    using assms sh mc sl
    by (cases type)
       (auto simp: lexSwitch_def lexGreater_def lexEqual_def lexLess_def lexExclamationMark_def
          lexAdd_def lexSub_def lexMultiply_def lexSlash_def lexAnd_def lexXor_def lexModulo_def
          lexOr_def lexSingle_def lexSemicolon_def lexOpenBrace_def lexCloseBrace_def lexDot_def
          lexZero_def lexNumber_def lexNumberEnd_def lexExponent_def lexQuote_def
          lexIdentifier_def lexLineTerminator_def Let_def lrem_shift_less_trans
          split: if_splits prod.splits option.splits)
qed

text \<open>
  \<open>lex\<close> from the label \<open>start\<close> on. The early \<open>return EOFTOK\<close> leaves \<open>*llocp\<close> and \<open>m_lastToken\<close> as
  they are.
\<close>

function lex_start ::
  "int list \<Rightarrow> LexType \<Rightarrow> JSTokenData \<Rightarrow> JSTokenInfo \<Rightarrow> lexer \<Rightarrow>
    JSTokenType \<times> JSTokenData \<times> JSTokenInfo \<times> lexer" where
  "lex_start digits0 lexType lvalp llocp s =
    (let s1 = assertOffset (skipWhiteSpace s); start = m_code s1
     in if m_current s1 = - 1 then (EOFTOK, lvalp, llocp, s1)
        else
          let (step, lvalp1, s2) =
                lexSwitch digits0 lexType (characterType (m_current s1)) lvalp (s1\<lparr>m_delimited := False\<rparr>)
          in case step of
               Break token \<Rightarrow> lexReturnToken start token lvalp1 llocp (s2\<lparr>m_atLineStart := False\<rparr>)
             | GotoReturnToken token \<Rightarrow> lexReturnToken start token lvalp1 llocp s2
             | GotoStart \<Rightarrow> lex_start digits0 lexType lvalp1 llocp s2
             | GotoReturnError \<Rightarrow> lexReturnError lvalp1 llocp s2
             | GotoSingleLineComment \<Rightarrow>
                 let (found, s3) = skipLineComment s2
                 in if \<not> found then (EOFTOK, lvalp1, llocp, s3)
                    else
                      let s4 = (shiftLineTerminator s3)\<lparr>m_atLineStart := True, m_terminator := True\<rparr>
                      in if \<not> lastTokenWasRestrKeyword s4 then lex_start digits0 lexType lvalp1 llocp s4
                         else lexReturnToken start SEMICOLON lvalp1 llocp (s4\<lparr>m_delimited := True\<rparr>))"
  by pat_completeness auto
termination
proof (relation "measure (\<lambda>(d, t, v, l, s). lrem s)", goal_cases)
  case 1
  then show ?case by simp
next
  case (2 d t v l s s1 start x step y v1 s2)
  have "lrem s2 < lrem (s1\<lparr>m_delimited := False\<rparr>)"
    using 2 by (intro lrem_lexSwitch_goto [of d t _ v _ step v1]) auto
  then show ?case using 2(1) lrem_skipWhiteSpace [of s] by simp
next
  case (3 d t v l s s1 start x step y v1 s2 z found s3 s4)
  have "lrem s2 < lrem (s1\<lparr>m_delimited := False\<rparr>)"
    using 3 by (intro lrem_lexSwitch_goto [of d t _ v _ step v1]) auto
  moreover have "lrem s3 \<le> lrem s2"
    using 3 lrem_skipLineComment [of s2] by (metis snd_conv)
  moreover have "lrem (shiftLineTerminator s3) \<le> lrem s3" by simp
  ultimately have "lrem (shiftLineTerminator s3) < lrem s1"
    unfolding lrem_buffers by linarith
  then show ?case using 3(1,11) lrem_skipWhiteSpace [of s] by simp
qed

declare lex_start.simps [simp del]

text \<open>The three assertions at the start of \<open>lex\<close> end the process when one fails.\<close>

definition lex ::
  "int list \<Rightarrow> LexType \<Rightarrow> JSTokenData \<Rightarrow> JSTokenInfo \<Rightarrow> lexer \<Rightarrow>
    JSTokenType \<times> JSTokenData \<times> JSTokenInfo \<times> lexer" where
  "lex digits0 lexType lvalp llocp s =
    (if \<not> m_lexError s \<and> m_buffer8 s = [] \<and> m_buffer16 s = []
     then lex_start digits0 lexType lvalp llocp (s\<lparr>m_terminator := False\<rparr>)
     else (ERRORTOK, lvalp, llocp, assertL False s))"

subsection \<open>Regular expression literals\<close>

text \<open>
  The first loop of \<open>scanRegExp\<close> over \<open>lastWasEscape\<close> and \<open>inBrackets\<close>: \<open>False\<close> when the line ends
  inside the pattern. \<open>skipRegExp\<close> has the same loop without \<open>record16\<close>.
\<close>

function scanRegExp_loop :: "bool \<Rightarrow> bool \<Rightarrow> bool \<Rightarrow> lexer \<Rightarrow> bool \<times> lexer" where
  "scanRegExp_loop recording lastWasEscape inBrackets s =
    (let current = m_current s
     in if isLineTerminator current \<or> current = - 1 then (False, s)
        else
          let s1 = shift s
          in if current = 47 \<and> \<not> lastWasEscape \<and> \<not> inBrackets then (True, s1)
             else
               let s2 = (if recording then record16 current s1 else s1)
               in if lastWasEscape then scanRegExp_loop recording False inBrackets s2
                  else if current = 91 then scanRegExp_loop recording lastWasEscape True s2
                  else if current = 93 then scanRegExp_loop recording lastWasEscape False s2
                  else if current = 92 then scanRegExp_loop recording True inBrackets s2
                  else scanRegExp_loop recording lastWasEscape inBrackets s2)"
  by pat_completeness auto
termination
  by (relation "measure (\<lambda>(r, e, b, s). lrem s)") (auto split: if_splits)

declare scanRegExp_loop.simps [simp del]

function recordIdentPart :: "lexer \<Rightarrow> lexer" where
  "recordIdentPart s =
    (if isIdentPart (m_current s) then recordIdentPart (shift (record16 (m_current s) s)) else s)"
  by pat_completeness auto
termination
  by (relation "measure lrem")
     (auto intro!: lrem_shift_less [of "record16 c s" for c s, unfolded lrem_records m_current_frame])

declare recordIdentPart.simps [simp del]

function skipIdentPart :: "lexer \<Rightarrow> lexer" where
  "skipIdentPart s = (if isIdentPart (m_current s) then skipIdentPart (shift s) else s)"
  by pat_completeness auto
termination
  by (relation "measure lrem") (auto intro!: lrem_shift_less)

declare skipIdentPart.simps [simp del]

text \<open>\<open>None\<close> is \<open>return false\<close>; \<open>Some (pattern, flags)\<close> the two identifiers and \<open>return true\<close>.\<close>

definition scanRegExp :: "int \<Rightarrow> lexer \<Rightarrow> (uchars \<times> uchars) option \<times> lexer" where
  "scanRegExp patternPrefix s =
    (let s = assertL (m_buffer16 s = []) s;
         s = (if patternPrefix \<noteq> 0
              then record16 patternPrefix (assertL (\<not> isLineTerminator patternPrefix \<and>
                     patternPrefix \<noteq> 47 \<and> patternPrefix \<noteq> 91) s)
              else s);
         (found, s) = scanRegExp_loop True False False s
     in if \<not> found then (None, s\<lparr>m_buffer16 := []\<rparr>)
        else
          let pattern = m_buffer16 s;
              s = recordIdentPart (s\<lparr>m_buffer16 := []\<rparr>);
              flags = m_buffer16 s
          in (Some (pattern, flags), s\<lparr>m_buffer16 := []\<rparr>))"

definition skipRegExp :: "lexer \<Rightarrow> bool \<times> lexer" where
  "skipRegExp s =
    (let (found, s) = scanRegExp_loop False False False s
     in if \<not> found then (False, s) else (True, skipIdentPart s))"

definition setOffset :: "nat \<Rightarrow> lexer \<Rightarrow> lexer" where
  "setOffset offset s = s\<lparr>m_code := offset, m_current := l_data s ! offset\<rparr>"

definition setLastLineNumber :: "int \<Rightarrow> lexer \<Rightarrow> lexer" where
  "setLastLineNumber n s = s\<lparr>m_lastLineNumber := n\<rparr>"

definition clear_lexer :: "lexer \<Rightarrow> lexer" where
  "clear_lexer s = s\<lparr>m_buffer8 := [], m_buffer16 := [], m_isReparsing := False\<rparr>"

end
