(* ===== verification/LexerProps.thy ===== *)
theory LexerProps
  imports Lexer
begin

text \<open>
  The invariant of the scanner and what each of its functions keeps of it. \<open>linv\<close> says that the
  position is inside the source, that \<open>m_current\<close> is the character at the position (or -1 at the
  end), and that no assertion has failed. \<open>lclean\<close> is the state between two tokens: no error and
  empty buffers, which \<open>lex\<close> asserts.
\<close>

definition linv :: "lexer \<Rightarrow> bool" where
  "linv s \<longleftrightarrow>
     m_codeEnd s = length (l_data s) \<and> (\<forall>c \<in> set (l_data s). uchar_ok c) \<and>
     m_code s \<le> m_codeEnd s \<and>
     m_current s = (if m_code s < m_codeEnd s then l_data s ! m_code s else - 1) \<and>
     assertsOK s"

definition lclean :: "lexer \<Rightarrow> bool" where
  "lclean s \<longleftrightarrow> \<not> m_lexError s \<and> m_buffer8 s = [] \<and> m_buffer16 s = []"

text \<open>
  \<open>adv s t\<close>: from \<open>s\<close> the scanner has come to \<open>t\<close>, no further back, in the same source;
  \<open>sadv\<close>: at least one character further.
\<close>

definition adv :: "lexer \<Rightarrow> lexer \<Rightarrow> bool" where
  "adv s t \<longleftrightarrow> linv t \<and> l_data t = l_data s \<and> m_code s \<le> m_code t \<and> m_lexError t = m_lexError s"

definition sadv :: "lexer \<Rightarrow> lexer \<Rightarrow> bool" where
  "sadv s t \<longleftrightarrow> adv s t \<and> m_code s < m_code t"

subsection \<open>Selectors of the primitive operations\<close>

lemma shift_sel [simp]:
  "m_code (shift s) = Suc (m_code s)" "l_data (shift s) = l_data s" "m_codeEnd (shift s) = m_codeEnd s"
  "m_buffer8 (shift s) = m_buffer8 s" "m_buffer16 (shift s) = m_buffer16 s"
  "m_lexError (shift s) = m_lexError s" "m_lastToken (shift s) = m_lastToken s"
  "m_lineNumber (shift s) = m_lineNumber s" "m_terminator (shift s) = m_terminator s"
  by (simp_all add: shift_def assertL_def Let_def)

lemma assertL_sel [simp]:
  "m_code (assertL b s) = m_code s" "l_data (assertL b s) = l_data s"
  "m_codeEnd (assertL b s) = m_codeEnd s"
  "m_buffer8 (assertL b s) = m_buffer8 s" "m_buffer16 (assertL b s) = m_buffer16 s"
  "m_lexError (assertL b s) = m_lexError s" "m_lastToken (assertL b s) = m_lastToken s"
  "m_lineNumber (assertL b s) = m_lineNumber s" "m_terminator (assertL b s) = m_terminator s"
  by (simp_all add: assertL_def)

lemma assertL_True [simp]: "assertL True s = s"
  by (simp add: assertL_def)

lemma linv_assertOffset [simp]: "linv s \<Longrightarrow> assertOffset s = s"
  by (simp add: linv_def assertOffset_def)

lemma record_sel [simp]:
  "m_code (record8 c s) = m_code s" "l_data (record8 c s) = l_data s"
  "m_codeEnd (record8 c s) = m_codeEnd s" "m_lexError (record8 c s) = m_lexError s"
  "m_buffer16 (record8 c s) = m_buffer16 s" "m_lastToken (record8 c s) = m_lastToken s"
  "m_code (record16 c s) = m_code s" "l_data (record16 c s) = l_data s"
  "m_codeEnd (record16 c s) = m_codeEnd s" "m_lexError (record16 c s) = m_lexError s"
  "m_buffer8 (record16 c s) = m_buffer8 s" "m_lastToken (record16 c s) = m_lastToken s"
  by (simp_all add: record8_def record16_def assertL_def Let_def)

lemma linv_updates [simp]:
  "linv (s\<lparr>m_buffer8 := b8\<rparr>) = linv s" "linv (s\<lparr>m_buffer16 := b16\<rparr>) = linv s"
  "linv (s\<lparr>m_lineNumber := n\<rparr>) = linv s" "linv (s\<lparr>m_terminator := b\<rparr>) = linv s"
  "linv (s\<lparr>m_delimited := b\<rparr>) = linv s" "linv (s\<lparr>m_atLineStart := b\<rparr>) = linv s"
  "linv (s\<lparr>m_lastToken := t\<rparr>) = linv s" "linv (s\<lparr>m_lexError := b\<rparr>) = linv s"
  "linv (s\<lparr>m_lastLineNumber := n\<rparr>) = linv s"
  by (simp_all add: linv_def)

lemma adv_updates [simp]:
  "adv s (t\<lparr>m_buffer8 := b8\<rparr>) = adv s t" "adv s (t\<lparr>m_buffer16 := b16\<rparr>) = adv s t"
  "adv s (t\<lparr>m_lineNumber := n\<rparr>) = adv s t" "adv s (t\<lparr>m_terminator := b\<rparr>) = adv s t"
  "adv s (t\<lparr>m_delimited := b\<rparr>) = adv s t" "adv s (t\<lparr>m_atLineStart := b\<rparr>) = adv s t"
  "adv s (t\<lparr>m_lastToken := k\<rparr>) = adv s t" "adv s (t\<lparr>m_lastLineNumber := n\<rparr>) = adv s t"
  "adv (s\<lparr>m_delimited := b\<rparr>) t = adv s t" "adv (s\<lparr>m_terminator := b\<rparr>) t = adv s t"
  by (simp_all add: adv_def)

lemma sadv_updates [simp]:
  "sadv s (t\<lparr>m_buffer8 := b8\<rparr>) = sadv s t" "sadv s (t\<lparr>m_buffer16 := b16\<rparr>) = sadv s t"
  "sadv s (t\<lparr>m_lineNumber := n\<rparr>) = sadv s t" "sadv s (t\<lparr>m_terminator := b\<rparr>) = sadv s t"
  "sadv s (t\<lparr>m_delimited := b\<rparr>) = sadv s t" "sadv s (t\<lparr>m_atLineStart := b\<rparr>) = sadv s t"
  "sadv s (t\<lparr>m_lastToken := k\<rparr>) = sadv s t" "sadv s (t\<lparr>m_lastLineNumber := n\<rparr>) = sadv s t"
  "sadv (s\<lparr>m_delimited := b\<rparr>) t = sadv s t" "sadv (s\<lparr>m_terminator := b\<rparr>) t = sadv s t"
  by (simp_all add: sadv_def)

lemma lclean_updates [simp]:
  "lclean (t\<lparr>m_lineNumber := n\<rparr>) = lclean t" "lclean (t\<lparr>m_terminator := b\<rparr>) = lclean t"
  "lclean (t\<lparr>m_delimited := b\<rparr>) = lclean t" "lclean (t\<lparr>m_atLineStart := b\<rparr>) = lclean t"
  "lclean (t\<lparr>m_lastToken := k\<rparr>) = lclean t" "lclean (t\<lparr>m_lastLineNumber := n\<rparr>) = lclean t"
  "lclean (shift t) = lclean t" "lclean (assertL c t) = lclean t"
  by (simp_all add: lclean_def)

subsection \<open>The relation adv\<close>

lemma adv_refl: "linv s \<Longrightarrow> adv s s"
  by (simp add: adv_def)

lemma adv_trans: "adv s t \<Longrightarrow> adv t u \<Longrightarrow> adv s u"
  by (auto simp: adv_def)

lemma adv_linv: "adv s t \<Longrightarrow> linv t"
  by (simp add: adv_def)

lemma sadv_adv: "sadv s t \<Longrightarrow> adv s t"
  by (simp add: sadv_def)

lemma sadv_trans1: "sadv s t \<Longrightarrow> adv t u \<Longrightarrow> sadv s u"
  by (auto simp: sadv_def adv_def)

lemma sadv_trans2: "adv s t \<Longrightarrow> sadv t u \<Longrightarrow> sadv s u"
  by (auto simp: sadv_def adv_def)

lemma linv_shift [simp]:
  assumes "linv s" and "m_current s \<noteq> - 1"
  shows "linv (shift s)"
  using assms by (auto simp: linv_def shift_def assertL_def Let_def split: if_splits)

lemma sadv_shift: "linv s \<Longrightarrow> m_current s \<noteq> - 1 \<Longrightarrow> sadv s (shift s)"
  by (simp add: sadv_def adv_def)

lemma adv_shift: "adv s t \<Longrightarrow> m_current t \<noteq> - 1 \<Longrightarrow> sadv s (shift t)"
  using sadv_shift adv_linv sadv_trans2 by blast

lemma adv_shift_adv: "adv s t \<Longrightarrow> m_current t \<noteq> - 1 \<Longrightarrow> adv s (shift t)"
  using adv_shift sadv_adv by blast

lemma sadv_shift_sadv: "sadv s t \<Longrightarrow> m_current t \<noteq> - 1 \<Longrightarrow> sadv s (shift t)"
  using adv_shift sadv_adv by blast

lemmas adv_intros = adv_shift adv_shift_adv sadv_shift_sadv

lemma linv_nth:
  assumes "linv s" and "i < length (l_data s)"
  shows "uchar_ok (l_data s ! i)"
  using assms by (simp add: linv_def)

lemma linv_current:
  "linv s \<Longrightarrow> m_current s = (if m_code s < length (l_data s) then l_data s ! m_code s else - 1)"
  by (simp add: linv_def)

lemma m_current_range: "linv s \<Longrightarrow> - 1 \<le> m_current s \<and> m_current s < 65536"
  using linv_nth [of s "m_code s"] by (auto simp: linv_current uchar_ok_def)

lemma m_current_eof:
  assumes "linv s"
  shows "m_current s = - 1 \<longleftrightarrow> m_code s = length (l_data s)"
proof (cases "m_code s < length (l_data s)")
  case True
  then show ?thesis using linv_nth [OF assms True] assms by (auto simp: linv_current uchar_ok_def)
next
  case False
  then show ?thesis using assms by (auto simp: linv_def)
qed

lemma m_current_uchar: "linv s \<Longrightarrow> m_current s \<noteq> - 1 \<Longrightarrow> uchar_ok (m_current s)"
  using linv_nth [of s "m_code s"] by (auto simp: linv_current split: if_splits)

lemma lrem_linv: "linv s \<Longrightarrow>
    lrem s = (length (l_data s) - m_code s) + (if m_code s < length (l_data s) then 1 else 0)"
  using m_current_eof [of s] by (auto simp: lrem_def linv_def)

lemma adv_lrem: "linv s \<Longrightarrow> adv s t \<Longrightarrow> lrem t \<le> lrem s"
  by (auto simp: lrem_linv adv_def)

lemma sadv_lrem: "linv s \<Longrightarrow> sadv s t \<Longrightarrow> lrem t < lrem s"
  by (auto simp: lrem_linv adv_def sadv_def linv_def split: if_splits)

lemma peek_Suc:
  assumes "linv s" and "m_current s \<noteq> - 1"
  shows "peek (Suc n) s = peek n (shift s)" and "peek 0 s = m_current s"
  using assms by (auto simp: peek_def linv_def)

subsection \<open>Recording\<close>

lemma linv_record8 [simp]: "linv s \<Longrightarrow> 0 \<le> c \<Longrightarrow> c \<le> 255 \<Longrightarrow> linv (record8 c s)"
  by (simp add: record8_def Let_def)

lemma linv_record16 [simp]: "linv s \<Longrightarrow> 0 \<le> c \<Longrightarrow> c \<le> 65535 \<Longrightarrow> linv (record16 c s)"
  by (simp add: record16_def Let_def)

lemma adv_record8 [simp]: "adv s t \<Longrightarrow> 0 \<le> c \<Longrightarrow> c \<le> 255 \<Longrightarrow> adv s (record8 c t)"
  by (simp add: adv_def)

lemma adv_record16 [simp]: "adv s t \<Longrightarrow> 0 \<le> c \<Longrightarrow> c \<le> 65535 \<Longrightarrow> adv s (record16 c t)"
  by (simp add: adv_def)

lemma sadv_record16 [simp]: "sadv s t \<Longrightarrow> 0 \<le> c \<Longrightarrow> c \<le> 65535 \<Longrightarrow> sadv s (record16 c t)"
  by (simp add: sadv_def)

lemma sadv_record8 [simp]: "sadv s t \<Longrightarrow> 0 \<le> c \<Longrightarrow> c \<le> 255 \<Longrightarrow> sadv s (record8 c t)"
  by (simp add: sadv_def)

lemma appendSince_sel [simp]:
  "m_code (appendSince n s) = m_code s" "l_data (appendSince n s) = l_data s"
  "m_codeEnd (appendSince n s) = m_codeEnd s" "m_lexError (appendSince n s) = m_lexError s"
  "m_buffer8 (appendSince n s) = m_buffer8 s"
  by (simp_all add: appendSince_def assertOffset_def Let_def)

lemma linv_appendSince [simp]: "linv s \<Longrightarrow> linv (appendSince n s)"
  by (simp add: appendSince_def Let_def)

lemma adv_appendSince [simp]: "adv s t \<Longrightarrow> adv s (appendSince n t)"
  by (simp add: adv_def)

lemma sadv_appendSince [simp]: "sadv s t \<Longrightarrow> sadv s (appendSince n t)"
  by (simp add: sadv_def)

text \<open>Record a character that is a digit or a letter, and go on.\<close>

lemma sadv_record8_shift:
  assumes "linv s" and "0 \<le> m_current s" and "m_current s \<le> 255"
  shows "sadv s (shift (record8 (m_current s) s))"
  using assms by (intro adv_shift) (auto simp: adv_refl)

lemma sadv_record16_shift:
  assumes "linv s" and "m_current s \<noteq> - 1"
  shows "sadv s (shift (record16 (m_current s) s))"
  using assms m_current_range [OF assms(1)] by (intro adv_shift) (auto simp: adv_refl)


subsection \<open>Character classes and the end of the source\<close>

lemma class_range:
  "isASCIIDigit c \<Longrightarrow> 0 \<le> c \<and> c \<le> 255" "isASCIIOctalDigit c \<Longrightarrow> 0 \<le> c \<and> c \<le> 255"
  "isASCIIHexDigit c \<Longrightarrow> 0 \<le> c \<and> c \<le> 255"
  using isASCIIHexDigit_range [of c]
  by (auto simp: isASCIIDigit_def isASCIIOctalDigit_def)

lemma class_not_eof:
  "isASCIIDigit c \<Longrightarrow> c \<noteq> - 1" "isASCIIOctalDigit c \<Longrightarrow> c \<noteq> - 1"
  "isASCIIHexDigit c \<Longrightarrow> c \<noteq> - 1" "isLineTerminator c \<Longrightarrow> c \<noteq> - 1" "isWhiteSpace c \<Longrightarrow> c \<noteq> - 1"
  "isIdentPart c \<Longrightarrow> c \<noteq> - 1" "isIdentStart c \<Longrightarrow> c \<noteq> - 1"
  by (auto simp: isIdentStart_iff)

lemma singleEscape_range: "0 \<le> singleEscape c \<and> singleEscape c \<le> 65535"
  by (simp add: singleEscape_def)

lemma convertHex_range:
  assumes "isASCIIHexDigit a" and "isASCIIHexDigit b"
  shows "0 \<le> convertHex a b \<and> convertHex a b \<le> 255"
  using toASCIIHexValue_range [OF assms(1)] toASCIIHexValue_range [OF assms(2)]
  by (simp add: convertHex_eq assms)

lemma singleEscape_not_eof: "singleEscape c \<noteq> 0 \<Longrightarrow> c \<noteq> - 1"
  by (auto simp: singleEscape_def)

subsection \<open>Loops that record a class of characters\<close>

lemma adv_recordHexDigits:
  "linv s \<Longrightarrow> adv s (recordHexDigits s) \<and> m_buffer16 (recordHexDigits s) = m_buffer16 s"
proof (induction s rule: recordHexDigits.induct)
  case (1 s)
  show ?case
    using 1 sadv_record8_shift [of s] class_range(3) [of "m_current s"]
    by (subst (1 2) recordHexDigits.simps) (auto intro: adv_refl dest: sadv_adv adv_linv intro: adv_trans)
qed

lemma adv_recordOctalDigits:
  "linv s \<Longrightarrow> adv s (recordOctalDigits s) \<and> m_buffer16 (recordOctalDigits s) = m_buffer16 s"
proof (induction s rule: recordOctalDigits.induct)
  case (1 s)
  show ?case
    using 1 sadv_record8_shift [of s] class_range(2) [of "m_current s"]
    by (subst (1 2) recordOctalDigits.simps) (auto intro: adv_refl dest: sadv_adv adv_linv intro: adv_trans)
qed

lemma adv_recordDecimalDigits:
  "linv s \<Longrightarrow> adv s (recordDecimalDigits s) \<and> m_buffer16 (recordDecimalDigits s) = m_buffer16 s"
proof (induction s rule: recordDecimalDigits.induct)
  case (1 s)
  show ?case
    using 1 sadv_record8_shift [of s] class_range(1) [of "m_current s"]
    by (subst (1 2) recordDecimalDigits.simps) (auto intro: adv_refl dest: sadv_adv adv_linv intro: adv_trans)
qed

lemma adv_recordIdentPart:
  "linv s \<Longrightarrow> adv s (recordIdentPart s) \<and> m_buffer8 (recordIdentPart s) = m_buffer8 s"
proof (induction s rule: recordIdentPart.induct)
  case (1 s)
  show ?case
    using 1 sadv_record16_shift [of s] class_not_eof(6) [of "m_current s"]
    by (subst (1 2) recordIdentPart.simps) (auto intro: adv_refl dest: sadv_adv adv_linv intro: adv_trans)
qed

lemma adv_skipWhiteSpace:
  "linv s \<Longrightarrow> adv s (skipWhiteSpace s) \<and> m_buffer8 (skipWhiteSpace s) = m_buffer8 s \<and>
     m_buffer16 (skipWhiteSpace s) = m_buffer16 s"
proof (induction s rule: skipWhiteSpace.induct)
  case (1 s)
  show ?case
    using 1 sadv_shift [of s] class_not_eof(5) [of "m_current s"]
    by (subst (1 2 3) skipWhiteSpace.simps) (auto intro: adv_refl dest: sadv_adv adv_linv intro: adv_trans)
qed

lemma adv_skipLineComment:
  "linv s \<Longrightarrow> adv s (snd (skipLineComment s)) \<and>
     m_buffer8 (snd (skipLineComment s)) = m_buffer8 s \<and> m_buffer16 (snd (skipLineComment s)) = m_buffer16 s"
proof (induction s rule: skipLineComment.induct)
  case (1 s)
  show ?case
    using 1 sadv_shift [of s]
    by (subst (1 2 3) skipLineComment.simps) (auto intro: adv_refl dest: sadv_adv adv_linv intro: adv_trans)
qed

lemma adv_skipAsterisks:
  "linv s \<Longrightarrow> adv s (snd (skipAsterisks s)) \<and>
     m_buffer8 (snd (skipAsterisks s)) = m_buffer8 s \<and> m_buffer16 (snd (skipAsterisks s)) = m_buffer16 s"
proof (induction s rule: skipAsterisks.induct)
  case (1 s)
  have "m_current s = 42 \<Longrightarrow> sadv s (shift s)"
    using 1(2) by (simp add: sadv_shift)
  moreover have "m_current s = 42 \<Longrightarrow> m_current (shift s) = 47 \<Longrightarrow> sadv s (shift (shift s))"
    using calculation by (simp add: sadv_shift_sadv)
  ultimately show ?case
    using 1
    by (subst (1 2 3) skipAsterisks.simps)
       (auto simp: Let_def intro: adv_refl dest: sadv_adv adv_linv intro: adv_trans)
qed

subsection \<open>Line terminators and comments\<close>

lemma shiftLineTerminator_buffers [simp]:
  "m_buffer8 (shiftLineTerminator s) = m_buffer8 s" "m_buffer16 (shiftLineTerminator s) = m_buffer16 s"
  "m_lexError (shiftLineTerminator s) = m_lexError s"
  "m_lastToken (shiftLineTerminator s) = m_lastToken s"
  by (simp_all add: shiftLineTerminator_def Let_def)

lemma lclean_shiftLineTerminator [simp]: "lclean (shiftLineTerminator s) = lclean s"
  by (simp add: lclean_def)

text \<open>
  The sum of two adjacent characters is \<open>'\n' + '\r'\<close> only for the two proper pairs, since the first
  is a line terminator and the second, at the end of the source, is -1.
\<close>

lemma sadv_shiftLineTerminator:
  assumes "linv s" and "isLineTerminator (m_current s)"
  shows "sadv s (shiftLineTerminator s)"
proof -
  have ne: "m_current s \<noteq> - 1" using assms(2) by auto
  have "sadv s (shift s)" using assms(1) ne by (rule sadv_shift)
  moreover have "m_current s + m_current (shift s) = 23 \<Longrightarrow> m_current (shift s) \<noteq> - 1"
    using assms(2) by (auto simp: isLineTerminator_iff)
  ultimately show ?thesis
    using assms(2) by (simp add: shiftLineTerminator_def Let_def sadv_shift_sadv)
qed

lemma adv_parseMultilineComment:
  "linv s \<Longrightarrow> adv s (snd (parseMultilineComment s)) \<and>
     m_buffer8 (snd (parseMultilineComment s)) = m_buffer8 s \<and>
     m_buffer16 (snd (parseMultilineComment s)) = m_buffer16 s"
proof (induction s rule: parseMultilineComment.induct)
  case (1 s)
  obtain closed s1 where sk: "skipAsterisks s = (closed, s1)" by fastforce
  from adv_skipAsterisks [OF 1(3)] have a: "adv s s1" "m_buffer8 s1 = m_buffer8 s" "m_buffer16 s1 = m_buffer16 s"
    by (simp_all add: sk)
  then have l: "linv s1" by (simp add: adv_linv)
  show ?case
  proof (cases "closed \<or> m_current s1 = - 1")
    case True
    then show ?thesis using a by (subst (1 2 3) parseMultilineComment.simps) (auto simp: sk)
  next
    case False
    define s2 where "s2 = (if isLineTerminator (m_current s1) then shiftLineTerminator s1 else shift s1)"
    have "adv s1 s2" "m_buffer8 s2 = m_buffer8 s" "m_buffer16 s2 = m_buffer16 s"
      using False l a sadv_shiftLineTerminator [of s1] sadv_shift [of s1]
      by (auto simp: s2_def intro: sadv_adv)
    moreover have "parseMultilineComment s = parseMultilineComment s2"
      using False by (subst parseMultilineComment.simps) (simp add: sk s2_def)
    moreover have "linv s2 \<Longrightarrow> adv s2 (snd (parseMultilineComment s2)) \<and>
        m_buffer8 (snd (parseMultilineComment s2)) = m_buffer8 s2 \<and>
        m_buffer16 (snd (parseMultilineComment s2)) = m_buffer16 s2"
      using 1(1,2) [OF sk [symmetric] refl] False by (auto simp: s2_def)
    ultimately show ?thesis using a by (metis adv_linv adv_trans)
  qed
qed


subsection \<open>Unicode escapes and identifiers\<close>

lemma peek_shift:
  assumes "linv s" and "m_current s \<noteq> - 1"
  shows "peek 1 s = m_current (shift s)" "peek 2 s = peek 1 (shift s)" "peek 3 s = peek 2 (shift s)"
  using assms peek_Suc [OF assms] peek_Suc(2) [of "shift s"]
  by (auto simp: peek_def linv_def eval_nat_numeral shift_def Let_def)

lemma convertUnicode_range: "0 \<le> convertUnicode a b c d \<and> convertUnicode a b c d \<le> 65535"
  by (simp add: convertUnicode_def to_uchar_def)

lemma getUnicodeCharacter_cases:
  assumes "linv s" and "getUnicodeCharacter s = (c, t)"
  shows "c = - 1 \<and> t = s \<or>
    0 \<le> c \<and> c \<le> 65535 \<and> sadv s t \<and> m_buffer8 t = m_buffer8 s \<and> m_buffer16 t = m_buffer16 s"
proof (cases "isASCIIHexDigit (m_current s) \<and> isASCIIHexDigit (peek 1 s) \<and>
    isASCIIHexDigit (peek 2 s) \<and> isASCIIHexDigit (peek 3 s)")
  case True
  let ?s1 = "shift s" and ?s2 = "shift (shift s)" and ?s3 = "shift (shift (shift s))"
  have n0: "m_current s \<noteq> - 1" using True by auto
  have l1: "linv ?s1" using assms(1) n0 by simp
  have n1: "m_current ?s1 \<noteq> - 1" using True peek_shift(1) [OF assms(1) n0] by auto
  have l2: "linv ?s2" using l1 n1 by simp
  have n2: "m_current ?s2 \<noteq> - 1"
    using True peek_shift(1) [OF l1 n1] peek_shift(2) [OF assms(1) n0] by auto
  have l3: "linv ?s3" using l2 n2 by simp
  have n3: "m_current ?s3 \<noteq> - 1"
    using True peek_shift(1) [OF l2 n2] peek_shift(2) [OF l1 n1] peek_shift(3) [OF assms(1) n0] by auto
  have "sadv s (shift ?s3)"
    using assms(1) n0 n1 n2 n3 by (simp add: adv_intros adv_refl)
  then show ?thesis
    using True assms(2) convertUnicode_range by (auto simp: getUnicodeCharacter_def Let_def)
next
  case False
  then show ?thesis using assms(2) by (auto simp: getUnicodeCharacter_def Let_def)
qed

lemma adv_parseIdentifier_loop:
  assumes "linv s" and "parseIdentifier_loop b start s = (ok, b', start', t)"
  shows "adv s t \<and> m_buffer8 t = m_buffer8 s \<and> (ok \<and> \<not> b' \<longrightarrow> m_buffer16 t = m_buffer16 s \<and> \<not> b) \<and>
    (ok \<and> (isIdentPart (m_current s) \<or> m_current s = 92) \<longrightarrow> sadv s t)"
  using assms
proof (induction b start s arbitrary: ok b' start' t rule: parseIdentifier_loop.induct)
  case (1 b start s)
  note eq = 1(4) [unfolded parseIdentifier_loop.simps [of b start s]]
  consider "isIdentPart (m_current s)" | "\<not> isIdentPart (m_current s)" "m_current s \<noteq> 92"
    | "\<not> isIdentPart (m_current s)" "m_current s = 92" by blast
  then show ?case
  proof cases
    case 1
    then have "sadv s (shift s)" using "1.prems"(1) by (intro sadv_shift) auto
    with 1 "1.IH"(1) [of ok b' start' t] eq show ?thesis
      by (auto dest: sadv_adv adv_linv intro: adv_trans sadv_trans1)
  next
    case 2
    with eq "1.prems"(1) show ?thesis by (auto intro: adv_refl)
  next
    case 3
    let ?s1 = "shift (appendSince start s)"
    have s1: "sadv s ?s1" using 3 "1.prems"(1) by (intro adv_shift) (simp_all add: adv_refl)
    obtain c s3 where gu: "getUnicodeCharacter (shift ?s1) = (c, s3)" by fastforce
    show ?thesis
    proof (cases "m_current ?s1 = 117")
      case False
      with eq 3 s1 show ?thesis by (auto simp: Let_def dest: sadv_adv)
    next
      case True
      then have s2: "sadv s (shift ?s1)" using s1 by (simp add: sadv_shift_sadv)
      have l2: "linv (shift ?s1)" using s2 by (simp add: sadv_def adv_def)
      have s3: "sadv s s3" "m_buffer8 s3 = m_buffer8 s"
        using getUnicodeCharacter_cases [OF l2 gu] s2 by (auto intro: sadv_trans1 dest: sadv_adv)
      show ?thesis
      proof (cases "c = - 1 \<or> (if m_buffer16 s3 \<noteq> [] then \<not> isIdentPart c else \<not> isIdentStart c)")
        case True
        then show ?thesis
          using eq 3 \<open>m_current ?s1 = 117\<close> gu s3
          by (auto simp: Let_def dest: sadv_adv split: if_splits)
      next
        case False
        let ?s4 = "record16 c s3"
        have "sadv s ?s4" using False getUnicodeCharacter_cases [OF l2 gu] s3 by auto
        then have l4: "sadv s ?s4" "linv ?s4" by (simp_all add: sadv_def adv_def)
        have r: "parseIdentifier_loop True (m_code ?s4) ?s4 = (ok, b', start', t)"
          using eq 3 \<open>m_current ?s1 = 117\<close> gu False l4(2) by (auto simp: Let_def split: if_splits)
        have as: "assertOffset ?s4 = ?s4" using l4(2) by simp
        have "adv ?s4 t \<and> m_buffer8 t = m_buffer8 ?s4 \<and> (ok \<and> \<not> b' \<longrightarrow> m_buffer16 t = m_buffer16 ?s4 \<and> \<not> True)"
          using "1.IH"(2) [of ?s1 "shift ?s1" "(c, s3)" c s3 ?s4 ok b' start' t]
            3 \<open>m_current ?s1 = 117\<close> gu False l4(2) r as by auto
        then show ?thesis
          using sadv_trans1 [OF l4(1), of t] s3(2) 3 by (auto dest: sadv_adv)
      qed
    qed
  qed
qed

definition proper_token :: "JSTokenType \<Rightarrow> bool" where
  "proper_token t \<longleftrightarrow> t \<noteq> ERRORTOK \<and> t \<noteq> EOFTOK"

lemma proper_token_if: "proper_token a \<Longrightarrow> proper_token b \<Longrightarrow> proper_token (if c then a else b)"
  by simp

lemma HashTable_entry_token: "proper_token (HashTable_entry s)"
  unfolding HashTable_entry_def testKeyword_def
  by (intro proper_token_if) (simp_all add: proper_token_def)

lemma parseIdentifier_ok:
  assumes "linv s" and "lclean s" and "parseIdentifier lvalp lexType s = (t, lvalp', s')"
    and "isIdentPart (m_current s) \<or> m_current s = 92"
  shows "adv s s' \<and> t \<noteq> EOFTOK \<and> (t \<noteq> ERRORTOK \<longrightarrow> lclean s' \<and> sadv s s')"
proof -
  obtain ok b start s1 where l: "parseIdentifier_loop False (m_code s) s = (ok, b, start, s1)"
    by (metis surj_pair)
  have a: "adv s s1" "m_buffer8 s1 = m_buffer8 s" "ok \<Longrightarrow> \<not> b \<Longrightarrow> m_buffer16 s1 = m_buffer16 s"
    "ok \<Longrightarrow> sadv s s1"
    using adv_parseIdentifier_loop [OF assms(1) l] assms(4) by auto
  then have "linv s1" by (simp add: adv_linv)
  with a assms(1,2,3) l show ?thesis
    using HashTable_entry_token
    by (auto simp: proper_token_def parseIdentifier_def Let_def lclean_def adv_def split: if_splits)
qed


subsection \<open>Strings\<close>

lemma adv_parseString_escape:
  assumes "linv s" and "parseString_escape q s = (ok, t)"
  shows "adv s t \<and> m_buffer8 t = m_buffer8 s"
proof -
  note r = m_current_range [OF assms(1)]
  have sh: "m_current s \<noteq> - 1 \<Longrightarrow> linv (shift s)" "m_current s \<noteq> - 1 \<Longrightarrow> adv s (shift s)"
    using assms(1) sadv_shift sadv_adv by auto
  consider (single) "singleEscape (m_current s) \<noteq> 0"
    | (line) "singleEscape (m_current s) = 0" "isLineTerminator (m_current s)"
    | (hex) "singleEscape (m_current s) = 0" "\<not> isLineTerminator (m_current s)" "m_current s = 120"
    | (uni) "singleEscape (m_current s) = 0" "\<not> isLineTerminator (m_current s)" "m_current s = 117"
    | (oct) "singleEscape (m_current s) = 0" "\<not> isLineTerminator (m_current s)" "m_current s \<noteq> 120"
        "m_current s \<noteq> 117" "isASCIIOctalDigit (m_current s)"
    | (other) "singleEscape (m_current s) = 0" "\<not> isLineTerminator (m_current s)" "m_current s \<noteq> 120"
        "m_current s \<noteq> 117" "\<not> isASCIIOctalDigit (m_current s)"
    by blast
  then show ?thesis
  proof cases
    case single
    then show ?thesis
      using assms singleEscape_range [of "m_current s"] singleEscape_not_eof [of "m_current s"]
      by (auto simp: parseString_escape_def Let_def intro!: adv_intros adv_record16 adv_refl)
  next
    case line
    then show ?thesis
      using assms sadv_shiftLineTerminator [OF assms(1)]
      by (auto simp: parseString_escape_def Let_def intro: sadv_adv)
  next
    case hex
    then have l1: "linv (shift s)" and a1: "adv s (shift s)" using sh by simp_all
    show ?thesis
    proof (cases "isASCIIHexDigit (m_current (shift s)) \<and> isASCIIHexDigit (peek 1 (shift s))")
      case True
      then have n1: "m_current (shift s) \<noteq> - 1" by auto
      have h2: "isASCIIHexDigit (m_current (shift (shift s)))"
        using True peek_shift(1) [OF l1 n1] by simp
      have "adv s (shift (record16 (convertHex (m_current (shift s)) (m_current (shift (shift s))))
              (shift (shift s))))"
        using adv_shift_adv [OF a1 n1] h2 True
          convertHex_range [of "m_current (shift s)" "m_current (shift (shift s))"]
        by (intro adv_shift_adv [of _ "record16 c t" for c t] adv_record16) auto
      then show ?thesis using assms hex True by (auto simp: parseString_escape_def Let_def)
    next
      case False
      then show ?thesis using assms hex a1 by (auto simp: parseString_escape_def Let_def)
    qed
  next
    case uni
    then have l1: "linv (shift s)" and a1: "adv s (shift s)" using sh by simp_all
    obtain c s2 where gu: "getUnicodeCharacter (shift s) = (c, s2)" by fastforce
    have g: "c = - 1 \<and> s2 = shift s \<or> 0 \<le> c \<and> c \<le> 65535 \<and> adv s s2 \<and> m_buffer8 s2 = m_buffer8 s"
      using getUnicodeCharacter_cases [OF l1 gu] a1 by (auto intro: adv_trans sadv_adv)
    then show ?thesis
      using assms uni gu a1 by (auto simp: parseString_escape_def Let_def split: if_splits)
  next
    case oct
    then have n0: "m_current s \<noteq> - 1" by auto
    then have l1: "linv (shift s)" and a1: "adv s (shift s)" using sh by simp_all
    have b: "48 \<le> m_current s" "m_current s \<le> 55" using oct by (simp_all add: isASCIIOctalDigit_def)
    have o: "isASCIIOctalDigit (m_current u) \<Longrightarrow> 48 \<le> m_current u \<and> m_current u \<le> 55" for u
      by (simp add: isASCIIOctalDigit_def)
    show ?thesis
      using assms(2) oct n0 l1 a1 b o [of "shift s"] o [of "shift (shift s)"]
      by (auto simp: parseString_escape_def Let_def split: if_splits
            intro!: adv_shift_adv adv_record16 a1)
  next
    case other
    then show ?thesis
      using assms r sh
      by (auto simp: parseString_escape_def Let_def split: if_splits
            intro!: adv_intros adv_record16 adv_refl)
  qed
qed

lemma adv_parseString_loop:
  assumes "linv s" and "parseString_loop q start s = (ok, start', t)"
  shows "adv s t \<and> m_buffer8 t = m_buffer8 s \<and> (ok \<longrightarrow> m_current t = q)"
  using assms
proof (induction q start s arbitrary: ok start' t rule: parseString_loop.induct)
  case (1 q start s)
  note eq = 1(4) [unfolded parseString_loop.simps [of q start s]]
  have stop: "m_current s = - 1 \<Longrightarrow> needsSpecialHandling (m_current s)" by simp
  consider "m_current s = q" | "m_current s \<noteq> q" "m_current s = 92"
    | "m_current s \<noteq> q" "m_current s \<noteq> 92"
      "needsSpecialHandling (m_current s) \<and> (isLineTerminator (m_current s) \<or> m_current s = - 1)"
    | "m_current s \<noteq> q" "m_current s \<noteq> 92"
      "\<not> (needsSpecialHandling (m_current s) \<and> (isLineTerminator (m_current s) \<or> m_current s = - 1))"
    by blast
  then show ?case
  proof cases
    case 1
    with eq "1.prems"(1) show ?thesis by (auto intro: adv_refl)
  next
    case 2
    let ?s1 = "shift (appendSince start s)"
    obtain b s2 where pe: "parseString_escape q ?s1 = (b, s2)" by fastforce
    have "adv s ?s1" using 2 "1.prems"(1) by (intro adv_shift_adv) (simp_all add: adv_refl)
    moreover from this have "adv ?s1 s2 \<and> m_buffer8 s2 = m_buffer8 s"
      using adv_parseString_escape [OF _ pe] by (simp add: adv_linv)
    ultimately have a2: "adv s s2" "linv s2" "m_buffer8 s2 = m_buffer8 s"
      by (auto intro: adv_trans adv_linv)
    show ?thesis
    proof (cases b)
      case True
      then have "parseString_loop q (m_code s2) s2 = (ok, start', t)"
        using eq 2 pe a2(2) by (auto simp: Let_def split: if_splits)
      then have "adv s2 t \<and> m_buffer8 t = m_buffer8 s2 \<and> (ok \<longrightarrow> m_current t = q)"
        using "1.IH"(1) [of "(b, s2)" b s2 s2 ok start' t] 2 pe a2 True by simp
      then show ?thesis using a2 by (auto intro: adv_trans)
    next
      case False
      with eq 2 pe a2 show ?thesis by (auto simp: Let_def split: if_splits)
    qed
  next
    case 3
    with eq "1.prems"(1) show ?thesis by (auto intro: adv_refl split: if_splits)
  next
    case 4
    then have n: "m_current s \<noteq> - 1" using stop by auto
    then have a: "adv s (shift s)" "linv (shift s)"
      using "1.prems"(1) sadv_shift sadv_adv by auto
    have "parseString_loop q start (shift s) = (ok, start', t)"
      using eq 4 by (simp split: if_splits)
    then show ?thesis using "1.IH"(2) [of ok start' t] 4 a by (auto intro: adv_trans)
  qed
qed

lemma parseString_ok:
  assumes "linv s" and "lclean s" and "m_current s \<noteq> - 1" and "parseString lvalp s = (ok, lvalp', t)"
  shows "sadv s t \<and> (ok \<longrightarrow> lclean t \<and> m_current t = m_current s)"
proof -
  obtain b start s1 where l: "parseString_loop (m_current s) (m_code (shift s)) (shift s) = (b, start, s1)"
    by (metis surj_pair)
  have a: "sadv s (shift s)" "linv (shift s)" using assms(1,3) sadv_shift by auto
  have "adv (shift s) s1 \<and> m_buffer8 s1 = m_buffer8 s \<and> (b \<longrightarrow> m_current s1 = m_current s)"
    using adv_parseString_loop [OF a(2) l] by simp
  with a have s1: "sadv s s1" "m_buffer8 s1 = m_buffer8 s" "b \<Longrightarrow> m_current s1 = m_current s"
    by (auto intro: sadv_trans1)
  with assms a l show ?thesis
    by (auto simp: parseString_def Let_def lclean_def sadv_def adv_def split: if_splits)
qed


subsection \<open>Numbers\<close>

lemma sadv_parseHex_loop:
  assumes "linv s" and "isASCIIHexDigit (m_current s)" and "parseHex_loop h m s = (h', m', t)"
  shows "sadv s t \<and> m_buffer16 t = m_buffer16 s"
  using assms
proof (induction h m s arbitrary: h' m' t rule: parseHex_loop.induct)
  case (1 h m s)
  have a: "sadv s (shift s)" "linv (shift s)" "assertL (isASCIIHexDigit (m_current s)) s = s"
    using 1(2,3) sadv_shift [of s] class_not_eof(3) [of "m_current s"] by auto
  show ?case
  proof (cases "isASCIIHexDigit (m_current (shift s)) \<and> 0 \<le> m - 1")
    case True
    with 1(4) a have "parseHex_loop (push_bit 4 h + word_of_int (toASCIIHexValue (m_current s))) (m - 1) (shift s) = (h', m', t)"
      by (subst (asm) parseHex_loop.simps) (simp add: Let_def)
    with 1(1) [OF _ refl refl refl _ a(2)] True a show ?thesis
      by (auto intro: sadv_trans1 sadv_adv)
  next
    case False
    with 1(4) a show ?thesis by (subst (asm) parseHex_loop.simps) (auto simp: Let_def)
  qed
qed

lemma uint_drop_28: "uint (drop_bit 28 (h :: u32)) < 16" "0 \<le> uint (drop_bit 28 (h :: u32))"
proof -
  have "uint h < 2 ^ 32" using uint_lt2p [of h] by simp
  then have "uint h div 2 ^ 28 < 16" by simp
  then show "uint (drop_bit 28 h) < 16"
    by (simp add: drop_bit_eq_div uint_div)
qed simp

lemma adv_parseHex_writeBack:
  "adv u s \<Longrightarrow> adv u (parseHex_writeBack n h s) \<and>
     m_buffer16 (parseHex_writeBack n h s) = m_buffer16 s"
proof (induction n h s rule: parseHex_writeBack.induct)
  case (2 i h s)
  then show ?case using uint_drop_28 [of h] by (auto simp: Let_def)
qed simp

lemma parseHex_ok:
  assumes "linv s" and "m_current s \<noteq> - 1" and "isASCIIHexDigit (peek 1 s)" and "parseHex s = (d, t)"
  shows "sadv s t \<and> m_buffer16 t = m_buffer16 s"
proof -
  obtain h m s1 where l: "parseHex_loop 0 7 (shift s) = (h, m, s1)" by (metis surj_pair)
  have h: "isASCIIHexDigit (m_current (shift s))" using assms(3) peek_shift(1) [OF assms(1,2)] by simp
  have a: "sadv s (shift s)" "linv (shift s)" using assms(1,2) sadv_shift by auto
  have s1: "sadv s s1" "m_buffer16 s1 = m_buffer16 s" "linv s1"
    using sadv_parseHex_loop [OF a(2) h l] a by (auto intro: sadv_trans1 sadv_adv adv_linv)
  let ?w = "parseHex_writeBack 8 h s1"
  have w: "adv s1 ?w" "m_buffer16 ?w = m_buffer16 s1"
    using adv_parseHex_writeBack [OF adv_refl [OF s1(3)]] by auto
  have "adv ?w (recordHexDigits ?w) \<and> m_buffer16 (recordHexDigits ?w) = m_buffer16 ?w"
    using adv_recordHexDigits adv_linv [OF w(1)] by blast
  then show ?thesis
    using assms(4) l s1 w
    by (auto simp: parseHex_def Let_def intro: sadv_trans1 split: if_splits)
qed

text \<open>
  The array of digits: the entries above \<open>maximumDigits\<close> have been written, with digits.
\<close>

definition digits_ok :: "int \<Rightarrow> int list \<Rightarrow> bool" where
  "digits_ok m ds \<longleftrightarrow> length ds = 10 \<and> (\<forall>i. m < i \<and> 0 \<le> i \<and> i \<le> 9 \<longrightarrow> 0 \<le> ds ! nat i \<and> ds ! nat i \<le> 255)"

lemma digits_ok_init: "length ds = 10 \<Longrightarrow> digits_ok 9 ds"
  by (simp add: digits_ok_def)

lemma digits_ok_update:
  assumes "digits_ok m ds" and "0 \<le> m" and "0 \<le> c" and "c \<le> 255"
  shows "digits_ok (m - 1) (ds[nat m := c])"
proof -
  have "0 \<le> ds[nat m := c] ! nat i \<and> ds[nat m := c] ! nat i \<le> 255" if "m - 1 < i" "0 \<le> i" "i \<le> 9" for i
    using assms that by (cases "i = m") (auto simp: digits_ok_def nth_list_update)
  with assms(1) show ?thesis by (simp add: digits_ok_def)
qed

lemma sadv_parseOctal_loop:
  assumes "linv s" and "isASCIIOctalDigit (m_current s)" and "digits_ok m ds" and "0 \<le> m"
    and "parseOctal_loop v m ds s = (v', m', ds', t)"
  shows "sadv s t \<and> m_buffer8 t = m_buffer8 s \<and> m_buffer16 t = m_buffer16 s \<and> digits_ok m' ds' \<and> - 1 \<le> m'"
  using assms
proof (induction v m ds s arbitrary: v' m' ds' t rule: parseOctal_loop.induct)
  case (1 v m ds s)
  have a: "sadv s (shift s)" "linv (shift s)"
    using 1(2,3) sadv_shift [of s] class_not_eof(2) [of "m_current s"] by auto
  have d: "digits_ok (m - 1) (ds[nat m := m_current s])"
    using digits_ok_update [OF 1(4,5)] class_range(2) [OF 1(3)] by simp
  show ?case
  proof (cases "isASCIIOctalDigit (m_current (shift s)) \<and> 0 \<le> m - 1")
    case True
    with 1(6) have "parseOctal_loop (v * 8 + word_of_int (m_current s - 48)) (m - 1) (ds[nat m := m_current s]) (shift s) = (v', m', ds', t)"
      by (subst (asm) parseOctal_loop.simps) (simp add: Let_def)
    with 1(1) [OF refl refl refl refl _ a(2) _ d] True a show ?thesis
      by (auto intro: sadv_trans1 sadv_adv)
  next
    case False
    with 1(5,6) a d show ?thesis by (subst (asm) parseOctal_loop.simps) (auto simp: Let_def)
  qed
qed

lemma sadv_parseDecimal_loop:
  assumes "linv s" and "isASCIIDigit (m_current s)" and "digits_ok m ds" and "0 \<le> m"
    and "parseDecimal_loop v m ds s = (v', m', ds', t)"
  shows "sadv s t \<and> m_buffer8 t = m_buffer8 s \<and> m_buffer16 t = m_buffer16 s \<and> digits_ok m' ds' \<and> - 1 \<le> m'"
  using assms
proof (induction v m ds s arbitrary: v' m' ds' t rule: parseDecimal_loop.induct)
  case (1 v m ds s)
  have a: "sadv s (shift s)" "linv (shift s)"
    using 1(2,3) sadv_shift [of s] class_not_eof(1) [of "m_current s"] by auto
  have d: "digits_ok (m - 1) (ds[nat m := m_current s])"
    using digits_ok_update [OF 1(4,5)] class_range(1) [OF 1(3)] by simp
  show ?case
  proof (cases "isASCIIDigit (m_current (shift s)) \<and> 0 \<le> m - 1")
    case True
    with 1(6) have "parseDecimal_loop (v * 10 + word_of_int (m_current s - 48)) (m - 1) (ds[nat m := m_current s]) (shift s) = (v', m', ds', t)"
      by (subst (asm) parseDecimal_loop.simps) (simp add: Let_def)
    with 1(1) [OF refl refl refl refl _ a(2) _ d] True a show ?thesis
      by (auto intro: sadv_trans1 sadv_adv)
  next
    case False
    with 1(5,6) a d show ?thesis by (subst (asm) parseDecimal_loop.simps) (auto simp: Let_def)
  qed
qed

lemma adv_recordDigits:
  assumes "adv u s" and "digits_ok m ds" and "- 1 \<le> m"
  shows "adv u (recordDigits ds m s) \<and> m_buffer16 (recordDigits ds m s) = m_buffer16 s"
proof -
  have "adv u (fold (\<lambda>i. record8 (ds ! nat i)) is t) \<and>
      m_buffer16 (fold (\<lambda>i. record8 (ds ! nat i)) is t) = m_buffer16 t"
    if "set is \<subseteq> {m + 1..9}" "adv u t" for "is" t
    using that
  proof (induction "is" arbitrary: t)
    case (Cons i js)
    then have "0 \<le> ds ! nat i \<and> ds ! nat i \<le> 255"
      using assms(2,3) by (auto simp: digits_ok_def)
    with Cons show ?case by simp
  qed simp
  from this [of "rev [m + 1..9]"] assms(1) show ?thesis by (simp add: recordDigits_def)
qed

lemma parseOctal_ok:
  assumes "linv s" and "isASCIIOctalDigit (m_current s)" and "length ds = 10" and "parseOctal ds s = (v, t)"
  shows "sadv s t \<and> m_buffer16 t = m_buffer16 s \<and>
    (v = None \<longrightarrow> isASCIIDigit (m_current t))"
proof -
  obtain w m ds' s1 where l: "parseOctal_loop 0 9 ds s = (w, m, ds', s1)" by (metis surj_pair)
  have s1: "sadv s s1" "m_buffer16 s1 = m_buffer16 s" "digits_ok m ds'" "- 1 \<le> m"
    using sadv_parseOctal_loop [OF assms(1,2) digits_ok_init [OF assms(3)] _ l] by auto
  let ?r = "recordDigits ds' m s1" and ?t = "recordOctalDigits (recordDigits ds' m s1)"
  have r: "adv s ?r" "m_buffer16 ?r = m_buffer16 s1" "adv s1 ?r"
    using adv_recordDigits [OF sadv_adv [OF s1(1)] s1(3,4)]
      adv_recordDigits [OF adv_refl s1(3,4)] s1(1) by (auto simp: sadv_def adv_def)
  have t: "adv ?r ?t" "m_buffer16 ?t = m_buffer16 ?r"
    using adv_recordOctalDigits [OF adv_linv [OF r(1)]] by auto
  show ?thesis
    using assms(4) l s1 r t
    by (auto simp: parseOctal_def Let_def intro: sadv_trans1 adv_trans split: if_splits)
qed


lemma parseDecimal_ok:
  assumes "linv s" and "m_buffer8 s = [] \<Longrightarrow> isASCIIDigit (m_current s)" and "length ds = 10"
    and "parseDecimal ds s = (v, t)"
  shows "adv s t \<and> m_buffer16 t = m_buffer16 s \<and> (isASCIIDigit (m_current s) \<longrightarrow> sadv s t)"
proof (cases "m_buffer8 s = []")
  case True
  obtain w m ds' s1 where l: "parseDecimal_loop 0 9 ds s = (w, m, ds', s1)" by (metis surj_pair)
  have s1: "sadv s s1" "m_buffer16 s1 = m_buffer16 s" "digits_ok m ds'" "- 1 \<le> m"
    using sadv_parseDecimal_loop [OF assms(1) assms(2) [OF True] digits_ok_init [OF assms(3)] _ l] by auto
  let ?r = "recordDigits ds' m s1" and ?t = "recordDecimalDigits (recordDigits ds' m s1)"
  have r: "adv s1 ?r" "m_buffer16 ?r = m_buffer16 s1"
    using adv_recordDigits [OF adv_refl s1(3,4)] s1(1) by (auto simp: sadv_def adv_def)
  have t: "adv ?r ?t" "m_buffer16 ?t = m_buffer16 ?r"
    using adv_recordDecimalDigits [OF adv_linv [OF r(1)]] by auto
  have "sadv s t" "m_buffer16 t = m_buffer16 s"
    using assms(4) l s1 r t True
    by (auto simp: parseDecimal_def Let_def intro: sadv_trans1 adv_trans split: if_splits)
  then show ?thesis by (auto intro: sadv_adv)
next
  case False
  then have t: "t = recordDecimalDigits s" using assms(4) by (simp add: parseDecimal_def)
  have a: "adv s t" "m_buffer16 t = m_buffer16 s"
    using adv_recordDecimalDigits [OF assms(1)] by (simp_all add: t)
  have "sadv s t" if d: "isASCIIDigit (m_current s)"
  proof -
    let ?s1 = "shift (record8 (m_current s) s)"
    have "sadv s ?s1" using sadv_record8_shift [OF assms(1)] class_range(1) [OF d] by simp
    moreover have "t = recordDecimalDigits ?s1"
      unfolding t using d by (subst recordDecimalDigits.simps) simp
    ultimately show ?thesis
      using adv_recordDecimalDigits [of ?s1] by (auto simp: sadv_def adv_def)
  qed
  with a show ?thesis by simp
qed

lemma adv_parseNumberAfterDecimalPoint:
  assumes "linv s"
  shows "adv s (parseNumberAfterDecimalPoint s) \<and> m_buffer16 (parseNumberAfterDecimalPoint s) = m_buffer16 s"
  using adv_recordDecimalDigits [of "record8 46 s"] adv_record8 [OF adv_refl [OF assms], of 46] assms
  by (auto simp: parseNumberAfterDecimalPoint_def intro: adv_trans)

lemma adv_parseNumberAfterExponentIndicator:
  assumes "linv s" and "m_current s \<noteq> - 1" and "parseNumberAfterExponentIndicator s = (ok, t)"
  shows "adv s t \<and> m_buffer16 t = m_buffer16 s"
proof -
  define s1 where "s1 = shift (record8 101 s)"
  define s2 where "s2 = (if m_current s1 = 43 \<or> m_current s1 = 45 then shift (record8 (m_current s1) s1) else s1)"
  have eq: "parseNumberAfterExponentIndicator s =
      (if \<not> isASCIIDigit (m_current s2) then (False, s2)
       else (True, recordDecimalDigits (shift (record8 (m_current s2) s2))))"
    unfolding parseNumberAfterExponentIndicator_def s1_def s2_def Let_def by (rule refl)
  have s1: "adv s s1" "m_buffer16 s1 = m_buffer16 s"
    unfolding s1_def using assms(1,2) by (auto intro!: adv_shift_adv adv_record8 adv_refl)
  have s2: "adv s s2" "m_buffer16 s2 = m_buffer16 s"
    unfolding s2_def using s1 by (auto intro!: adv_shift_adv adv_record8)
  show ?thesis
  proof (cases "isASCIIDigit (m_current s2)")
    case True
    let ?s3 = "shift (record8 (m_current s2) s2)"
    have "adv s ?s3" using s2(1) True class_range(1) [OF True] class_not_eof(1) [OF True]
      by (intro adv_shift_adv adv_record8) auto
    moreover have "t = recordDecimalDigits ?s3"
      using assms(3) True by (simp add: eq)
    ultimately show ?thesis
      using adv_recordDecimalDigits [of ?s3] s2(2) by (auto intro: adv_trans dest: adv_linv)
  next
    case False
    then have "t = s2"
      using assms(3) by (simp add: eq)
    with s2 show ?thesis by simp
  qed
qed

subsection \<open>The switch\<close>

text \<open>
  What the code after the switch may assume of a step from \<open>s\<close> to \<open>t\<close>, when \<open>s\<close> is between
  tokens: unless it is an error, the buffers are empty again and the step has read something.
\<close>

definition step_ok :: "lexer \<Rightarrow> lexStep \<Rightarrow> lexer \<Rightarrow> bool" where
  "step_ok s step t \<longleftrightarrow> adv s t \<and>
     (case step of
        Break token \<Rightarrow> token \<noteq> EOFTOK \<and> (token \<noteq> ERRORTOK \<longrightarrow> lclean t \<and> sadv s t)
      | GotoReturnToken token \<Rightarrow> token \<noteq> EOFTOK \<and> token \<noteq> ERRORTOK \<and> lclean t \<and> sadv s t
      | GotoStart \<Rightarrow> lclean t \<and> sadv s t
      | GotoSingleLineComment \<Rightarrow> lclean t \<and> sadv s t
      | GotoReturnError \<Rightarrow> True)"

lemma step_ok_Break: "lclean t \<Longrightarrow> sadv s t \<Longrightarrow> token \<noteq> EOFTOK \<Longrightarrow> step_ok s (Break token) t"
  by (simp add: step_ok_def sadv_adv)

lemma step_ok_Comment: "lclean t \<Longrightarrow> sadv s t \<Longrightarrow> step_ok s GotoSingleLineComment t"
  by (simp add: step_ok_def sadv_adv)

lemma step_ok_Start: "lclean t \<Longrightarrow> sadv s t \<Longrightarrow> step_ok s GotoStart t"
  by (simp add: step_ok_def sadv_adv)

lemma step_ok_Error: "adv s t \<Longrightarrow> step_ok s GotoReturnError t"
  by (simp add: step_ok_def)

lemmas step_ok_intros = step_ok_Break step_ok_Comment step_ok_Start step_ok_Error

lemma lclean_adv: "adv s t \<Longrightarrow> lclean s \<Longrightarrow> m_buffer8 t = [] \<Longrightarrow> m_buffer16 t = m_buffer16 s \<Longrightarrow> lclean t"
  by (simp add: lclean_def adv_def)

text \<open>The operators: one to four characters, nothing recorded.\<close>

lemma step_ok_operators:
  assumes "linv s" and "lclean s" and "m_current s \<noteq> - 1"
  shows "step_ok s (fst (lexGreater s)) (snd (lexGreater s))"
    and "step_ok s (fst (lexEqual s)) (snd (lexEqual s))"
    and "step_ok s (fst (lexLess s)) (snd (lexLess s))"
    and "step_ok s (fst (lexExclamationMark s)) (snd (lexExclamationMark s))"
    and "step_ok s (fst (lexAdd s)) (snd (lexAdd s))"
    and "step_ok s (fst (lexSub s)) (snd (lexSub s))"
    and "step_ok s (fst (lexMultiply s)) (snd (lexMultiply s))"
    and "step_ok s (fst (lexAnd s)) (snd (lexAnd s))"
    and "step_ok s (fst (lexXor s)) (snd (lexXor s))"
    and "step_ok s (fst (lexModulo s)) (snd (lexModulo s))"
    and "step_ok s (fst (lexOr s)) (snd (lexOr s))"
    and "token \<noteq> EOFTOK \<Longrightarrow> step_ok s (fst (lexSingle token s)) (snd (lexSingle token s))"
    and "step_ok s (fst (lexSemicolon s)) (snd (lexSemicolon s))"
  using assms adv_refl [OF assms(1)]
  by (auto simp: lexGreater_def lexEqual_def lexLess_def lexExclamationMark_def lexAdd_def lexSub_def
      lexMultiply_def lexAnd_def lexXor_def lexModulo_def lexOr_def lexSingle_def lexSemicolon_def Let_def
      intro!: step_ok_intros adv_shift adv_shift_adv)

lemma step_ok_slash:
  assumes "linv s" and "lclean s" and "m_current s \<noteq> - 1"
  shows "step_ok s (fst (lexSlash s)) (snd (lexSlash s))"
proof -
  have a: "adv s (shift s)" "sadv s (shift s)" using assms sadv_shift sadv_adv by blast+
  have m: "sadv s t \<and> lclean t" if "m_current (shift s) = 42" "parseMultilineComment (shift (shift s)) = (c, t)" for c t
  proof -
    have "sadv s (shift (shift s))" using a(1) that(1) by (intro adv_shift) auto
    then show ?thesis
      using adv_parseMultilineComment [of "shift (shift s)"] that(2) assms(2)
      by (auto simp: sadv_def adv_def lclean_def)
  qed
  show ?thesis
    using a assms(2) m
    by (auto simp: lexSlash_def Let_def intro!: step_ok_intros adv_shift adv_shift_adv
          split: prod.splits dest: sadv_adv)
qed

lemma step_ok_lineTerminator:
  assumes "linv s" and "lclean s" and "isLineTerminator (m_current s)"
  shows "step_ok s (fst (lexLineTerminator s)) (snd (lexLineTerminator s))"
  using assms sadv_shiftLineTerminator [OF assms(1,3)] sadv_adv
  by (auto simp: lexLineTerminator_def Let_def step_ok_def)

lemma step_ok_numberEnd:
  assumes "sadv s t" and "lclean s" and "m_buffer16 t = []" and "lexNumberEnd lvalp t = (step, lvalp', u)"
  shows "step_ok s step u"
  using assms by (auto simp: lexNumberEnd_def step_ok_def lclean_def sadv_def adv_def split: if_splits)

lemma step_ok_exponent:
  assumes "sadv s t" and "lclean s" and "m_buffer16 t = []" and "lexExponent lvalp t = (step, lvalp', u)"
  shows "step_ok s step u"
proof -
  obtain ok t1 where e: "(if m_current t OR 0x20 = 101 then parseNumberAfterExponentIndicator t else (True, t)) = (ok, t1)"
    by fastforce
  have l: "linv t" using assms(1) by (simp add: sadv_def adv_def)
  have "m_current t OR 0x20 = 101 \<Longrightarrow> m_current t \<noteq> - 1" by auto
  then have "adv t t1 \<and> m_buffer16 t1 = m_buffer16 t"
    using e adv_parseNumberAfterExponentIndicator [OF l] l by (auto split: if_splits intro: adv_refl)
  then have t1: "sadv s t1" "m_buffer16 t1 = []" using assms(1,3) by (auto intro: sadv_trans1)
  show ?thesis
  proof (cases ok)
    case True
    then show ?thesis
      using assms(4) e t1 by (intro step_ok_numberEnd [of s "t1\<lparr>m_buffer8 := m_buffer8 t1 @ [0]\<rparr>", OF _ assms(2)])
        (auto simp: lexExponent_def Let_def)
  next
    case False
    then show ?thesis using assms(4) e t1 by (auto simp: lexExponent_def Let_def intro: step_ok_Error sadv_adv)
  qed
qed

lemma step_ok_number:
  assumes "linv s" and "adv u s" and "lclean u" and "m_buffer16 s = []" and "length ds = 10"
    and "m_buffer8 s = [] \<Longrightarrow> isASCIIDigit (m_current s)" and "isASCIIDigit (m_current s) \<or> sadv u s"
    and "lexNumber ds lvalp s = (step, lvalp', t)"
  shows "step_ok u step t"
proof -
  obtain v s1 where d: "parseDecimal ds s = (v, s1)" by fastforce
  have s1: "sadv u s1" "m_buffer16 s1 = []"
    using parseDecimal_ok [OF assms(1) assms(6,5) d] assms(2,4,7) sadv_trans1 sadv_trans2 by auto
  have l1: "linv s1" using s1 by (simp add: sadv_def adv_def)
  show ?thesis
  proof (cases v)
    case (Some x)
    with assms(3,8) d s1 show ?thesis
      by (intro step_ok_numberEnd [of u s1]) (auto simp: lexNumber_def)
  next
    case None
    define s2 where "s2 = (if m_current s1 = 46 then parseNumberAfterDecimalPoint (shift s1) else s1)"
    have "sadv u s2 \<and> m_buffer16 s2 = []"
    proof (cases "m_current s1 = 46")
      case True
      then have "sadv u (shift s1)" using s1 by (simp add: sadv_shift_sadv)
      then show ?thesis
        using adv_parseNumberAfterDecimalPoint [of "shift s1"] s1 True
        by (auto simp: s2_def sadv_def adv_def)
    next
      case False
      with s1 show ?thesis by (simp add: s2_def)
    qed
    then show ?thesis
      using assms(3,8) d None by (intro step_ok_exponent [of u s2]) (auto simp: lexNumber_def s2_def)
  qed
qed

lemma step_ok_zero:
  assumes "linv s" and "lclean s" and "m_current s \<noteq> - 1" and "length ds = 10"
    and "lexZero ds lvalp s = (step, lvalp', t)"
  shows "step_ok s step t"
proof -
  let ?s1 = "shift s" and ?s2 = "record8 48 (shift s)"
  have a: "sadv s ?s1" "linv ?s1" "m_buffer16 ?s1 = []"
    using assms(1,2,3) sadv_shift by (auto simp: lclean_def)
  then have a2: "sadv s ?s2" "linv ?s2" "m_buffer16 ?s2 = []" "m_buffer8 ?s2 \<noteq> []"
    by (auto simp: record8_def Let_def)
  consider "m_current ?s1 OR 0x20 = 120 \<and> isASCIIHexDigit (peek 1 ?s1)"
    | "\<not> (m_current ?s1 OR 0x20 = 120 \<and> isASCIIHexDigit (peek 1 ?s1))" "isASCIIOctalDigit (m_current ?s2)"
    | "\<not> (m_current ?s1 OR 0x20 = 120 \<and> isASCIIHexDigit (peek 1 ?s1))" "\<not> isASCIIOctalDigit (m_current ?s2)"
    by blast
  then show ?thesis
  proof cases
    case 1
    obtain d s3 where h: "parseHex ?s1 = (d, s3)" by fastforce
    have "m_current ?s1 \<noteq> - 1" using 1 by auto
    then have "sadv s s3" "m_buffer16 s3 = []"
      using parseHex_ok [OF a(2) _ _ h] 1 a by (auto intro: sadv_trans1 sadv_adv)
    then show ?thesis
      using assms(2,5) h 1 by (intro step_ok_numberEnd [of s s3]) (auto simp: lexZero_def Let_def)
  next
    case 2
    obtain v s3 where o: "parseOctal ds ?s2 = (v, s3)" by fastforce
    have s3: "sadv s s3" "m_buffer16 s3 = []" "v = None \<Longrightarrow> isASCIIDigit (m_current s3)" "linv s3"
      using parseOctal_ok [OF a2(2) 2(2) assms(4) o] a2 by (auto intro: sadv_trans1 sadv_adv adv_linv)
    show ?thesis
    proof (cases v)
      case (Some d)
      with assms(2,5) o 2 s3 show ?thesis
        by (intro step_ok_numberEnd [of s s3]) (auto simp: lexZero_def Let_def)
    next
      case None
      with assms(2,4,5) o 2 s3 show ?thesis
        by (intro step_ok_number [of s3 s ds lvalp step lvalp' t]) (auto simp: lexZero_def Let_def sadv_adv)
    qed
  next
    case 3
    with assms(2,4,5) a2 show ?thesis
      by (intro step_ok_number [of ?s2 s ds lvalp step lvalp' t]) (auto simp: lexZero_def Let_def sadv_adv)
  qed
qed


lemma step_ok_braces:
  assumes "linv s" and "lclean s" and "m_current s \<noteq> - 1"
  shows "lexOpenBrace lvalp s = (step, lvalp', t) \<Longrightarrow> step_ok s step t"
    and "lexCloseBrace lvalp s = (step, lvalp', t) \<Longrightarrow> step_ok s step t"
  using assms adv_refl [OF assms(1)]
  by (auto simp: lexOpenBrace_def lexCloseBrace_def Let_def intro!: step_ok_intros adv_shift)

lemma step_ok_dot:
  assumes "linv s" and "lclean s" and "m_current s \<noteq> - 1" and "lexDot lvalp s = (step, lvalp', t)"
  shows "step_ok s step t"
proof -
  have a: "sadv s (shift s)" "linv (shift s)" "lclean (shift s)"
    using assms(1-3) sadv_shift by auto
  let ?t = "parseNumberAfterDecimalPoint (shift s)"
  have "sadv s ?t" "m_buffer16 ?t = []"
    using adv_parseNumberAfterDecimalPoint [OF a(2)] a by (auto intro: sadv_trans1 simp: lclean_def)
  then show ?thesis
    using assms(4) a step_ok_exponent [OF _ assms(2), of ?t lvalp step lvalp' t]
    by (auto simp: lexDot_def Let_def intro: step_ok_Break split: if_splits)
qed

lemma step_ok_quote:
  assumes "linv s" and "lclean s" and "m_current s \<noteq> - 1" and "lexQuote lvalp s = (step, lvalp', t)"
  shows "step_ok s step t"
proof -
  obtain ok lv s1 where p: "parseString lvalp s = (ok, lv, s1)" by (metis surj_pair)
  have "sadv s s1 \<and> (ok \<longrightarrow> lclean s1 \<and> m_current s1 = m_current s)"
    by (rule parseString_ok [OF assms(1-3) p])
  then show ?thesis
    using assms(3,4) p
    by (auto simp: lexQuote_def Let_def intro!: step_ok_Break sadv_shift_sadv split: if_splits)
       (auto intro!: step_ok_Error sadv_adv)
qed

lemma step_ok_identifier:
  assumes "linv s" and "lclean s" and "isIdentPart (m_current s) \<or> m_current s = 92"
    and "lexIdentifier lexType lvalp s = (step, lvalp', t)"
  shows "step_ok s step t"
proof -
  obtain k lv s1 where p: "parseIdentifier lvalp lexType s = (k, lv, s1)" by (metis surj_pair)
  show ?thesis
    using parseIdentifier_ok [OF assms(1,2) p assms(3)] assms(4) p
    by (auto simp: lexIdentifier_def step_ok_def)
qed

text \<open>The classification of the current character implies what its case asserts.\<close>

definition type_ok :: "int \<Rightarrow> CharacterType \<Rightarrow> bool" where
  "type_ok c type \<longleftrightarrow>
     (case type of
        CharacterNumber \<Rightarrow> isASCIIDigit c
      | CharacterIdentifierStart \<Rightarrow> isIdentStart c
      | CharacterBackSlash \<Rightarrow> c = 92
      | CharacterLineTerminator \<Rightarrow> isLineTerminator c
      | CharacterWhiteSpace \<Rightarrow> isWhiteSpace c
      | _ \<Rightarrow> True)"

lemma type_ok_characterType: "type_ok c (characterType c)"
proof (cases "0 \<le> c \<and> c < 128")
  case True
  have "list_all (\<lambda>c. type_ok c (characterType c)) (map int [0..<128])"
    by code_simp
  from isASCII_cases [OF this] True show ?thesis by blast
next
  case False
  then show ?thesis
    by (auto simp: type_ok_def characterType_def isASCII_iff isNonASCIIIdentStart_def category_def)
qed

lemma step_ok_lexSwitch:
  assumes "linv s" and "lclean s" and "m_current s \<noteq> - 1" and "\<not> isWhiteSpace (m_current s)"
    and "length ds = 10" and "type_ok (m_current s) type"
    and "lexSwitch ds lexType type lvalp s = (step, lvalp', t)"
  shows "step_ok s step t"
proof -
  have ops: "(case r of (step, u) \<Rightarrow> (step, lvalp, u)) = (step, lvalp', t) \<Longrightarrow>
      step_ok s (fst r) (snd r) \<Longrightarrow> step_ok s step t" for r :: "lexStep \<times> lexer"
    by (cases r) auto
  note op = step_ok_operators [OF assms(1-3)] step_ok_slash [OF assms(1-3)]
  show ?thesis
  proof (cases type)
    case CharacterIdentifierStart
    then show ?thesis
      using assms(6,7) step_ok_identifier [OF assms(1,2)]
      by (auto simp: lexSwitch_def type_ok_def isIdentStart_iff)
  next
    case CharacterBackSlash
    then show ?thesis
      using assms(6,7) step_ok_identifier [OF assms(1,2)] by (auto simp: lexSwitch_def type_ok_def)
  next
    case CharacterLineTerminator
    then show ?thesis
      using assms(6,7) step_ok_lineTerminator [OF assms(1,2)] ops
      by (auto simp: lexSwitch_def type_ok_def)
  next
    case CharacterNumber
    then show ?thesis
      using assms(2,5,6,7) step_ok_number [OF assms(1) adv_refl [OF assms(1)] assms(2)]
      by (auto simp: lexSwitch_def type_ok_def lclean_def)
  next
    case CharacterWhiteSpace
    then show ?thesis using assms(4,6) by (simp add: type_ok_def)
  next
    case CharacterInvalid
    then show ?thesis using assms(1,7) by (auto simp: lexSwitch_def intro: step_ok_Error adv_refl)
  next
    case CharacterDot
    then show ?thesis using assms(7) step_ok_dot [OF assms(1-3)] by (auto simp: lexSwitch_def)
  next
    case CharacterZero
    then show ?thesis using assms(7) step_ok_zero [OF assms(1-3,5)] by (auto simp: lexSwitch_def)
  next
    case CharacterQuote
    then show ?thesis using assms(7) step_ok_quote [OF assms(1-3)] by (auto simp: lexSwitch_def)
  next
    case CharacterOpenBrace
    then show ?thesis using assms(7) step_ok_braces(1) [OF assms(1-3)] by (auto simp: lexSwitch_def)
  next
    case CharacterCloseBrace
    then show ?thesis using assms(7) step_ok_braces(2) [OF assms(1-3)] by (auto simp: lexSwitch_def)
  qed (use assms(7) ops op in \<open>auto simp: lexSwitch_def\<close>)
qed

subsection \<open>lex\<close>

lemma skipLineComment_eof: "skipLineComment s = (False, t) \<Longrightarrow> m_current t = - 1"
proof (induction s rule: skipLineComment.induct)
  case (1 s)
  from "1.prems" show ?case
    by (subst (asm) skipLineComment.simps) (auto split: if_splits dest: "1.IH")
qed

text \<open>
  The result of \<open>lex\<close> from a state between tokens: the invariant holds, an ordinary token leaves
  the scanner between tokens and has consumed at least one character, and the end of the source
  is only reported there.
\<close>

definition lex_ok :: "lexer \<Rightarrow> JSTokenType \<Rightarrow> lexer \<Rightarrow> bool" where
  "lex_ok s token t \<longleftrightarrow>
     linv t \<and> l_data t = l_data s \<and> m_code s \<le> m_code t \<and>
     (token \<noteq> ERRORTOK \<longrightarrow> lclean t) \<and>
     (token \<noteq> ERRORTOK \<and> token \<noteq> EOFTOK \<longrightarrow> m_code s < m_code t) \<and>
     (token = EOFTOK \<longrightarrow> m_code t = length (l_data t))"

lemma lex_ok_adv: "adv s u \<Longrightarrow> lex_ok u token t \<Longrightarrow> lex_ok s token t"
  by (auto simp: lex_ok_def adv_def)

lemma lex_ok_return:
  assumes "adv s t" and "lclean s" and "token \<noteq> EOFTOK" and "token \<noteq> ERRORTOK \<longrightarrow> lclean t \<and> sadv s t"
    and "lexReturnToken start token lvalp llocp t = (tok, lvalp', llocp', u)"
  shows "lex_ok s tok u"
  using assms by (auto simp: lexReturnToken_def lex_ok_def adv_def sadv_def Let_def)

lemma not_white_after_skip: "\<not> isWhiteSpace (m_current (skipWhiteSpace s))"
proof (induction s rule: skipWhiteSpace.induct)
  case (1 s)
  then show ?case by (subst skipWhiteSpace.simps) simp
qed

lemma adv_upd_pair [simp]:
  "adv s (t\<lparr>m_atLineStart := a, m_terminator := b\<rparr>) = adv s t"
  "sadv s (t\<lparr>m_atLineStart := a, m_terminator := b\<rparr>) = sadv s t"
  "lclean (t\<lparr>m_atLineStart := a, m_terminator := b\<rparr>) = lclean t"
  "linv (t\<lparr>m_atLineStart := a, m_terminator := b\<rparr>) = linv t"
  by (simp_all add: adv_def sadv_def lclean_def linv_def)

lemma lex_start_ok:
  assumes "linv s" and "lclean s" and "length ds = 10"
    and "lex_start ds lexType lvalp llocp s = (token, lvalp', llocp', t)"
  shows "lex_ok s token t"
  using assms
proof (induction ds lexType lvalp llocp s arbitrary: token lvalp' llocp' t rule: lex_start.induct)
  case (1 ds lexType lvalp llocp s)
  note IH = "1.IH" and prems = "1.prems"
  let ?s1 = "skipWhiteSpace s"
  have w: "adv s ?s1" "linv ?s1" "lclean ?s1"
    using adv_skipWhiteSpace [OF prems(1)] prems(2) adv_linv by (auto simp: lclean_def adv_def)
  have as: "?s1 = assertOffset (skipWhiteSpace s)" using w(2) by simp
  note eq = prems(4) [unfolded lex_start.simps [of ds lexType lvalp llocp s] as [symmetric] Let_def]
  show ?case
  proof (cases "m_current ?s1 = - 1")
    case True
    then show ?thesis
      using eq w m_current_eof [OF w(2)] by (auto simp: lex_ok_def adv_def)
  next
    case False
    let ?s0 = "?s1\<lparr>m_delimited := False\<rparr>"
    obtain step lv s2 where sw:
      "lexSwitch ds lexType (characterType (m_current ?s1)) lvalp ?s0 = (step, lv, s2)"
      by (metis surj_pair)
    have so: "step_ok ?s0 step s2"
      using step_ok_lexSwitch [OF _ _ _ _ prems(3) _ sw] w False not_white_after_skip [of s]
        type_ok_characterType by simp
    have a2: "adv ?s1 s2" using so by (simp add: step_ok_def)
    have "lex_ok ?s1 token t"
    proof (cases step)
      case (Break k)
      then show ?thesis
        using eq w False sw so
        by (intro lex_ok_return [of ?s1 "s2\<lparr>m_atLineStart := False\<rparr>" k "m_code ?s1" lv llocp]) (auto simp: step_ok_def)
    next
      case (GotoReturnToken k)
      then show ?thesis
        using eq w False sw so
        by (intro lex_ok_return [of ?s1 s2 k "m_code ?s1" lv llocp]) (auto simp: step_ok_def)
    next
      case GotoStart
      then have "lex_start ds lexType lv llocp s2 = (token, lvalp', llocp', t)"
        using eq w False sw by simp
      moreover have "linv s2" "lclean s2" using so GotoStart by (auto simp: step_ok_def adv_linv)
      ultimately have "lex_ok s2 token t"
        using IH(1) [OF as refl False sw [symmetric] refl refl GotoStart _ _ prems(3)] by blast
      then show ?thesis using a2 by (rule lex_ok_adv [rotated])
    next
      case GotoReturnError
      then show ?thesis
        using eq w False sw a2 by (auto simp: lexReturnError_def lex_ok_def adv_def)
    next
      case GotoSingleLineComment
      obtain found s3 where cm: "skipLineComment s2 = (found, s3)" by fastforce
      have c2: "linv s2" "lclean s2" using so GotoSingleLineComment by (auto simp: step_ok_def adv_linv)
      have c3: "adv s2 s3" "linv s3" "lclean s3"
        using adv_skipLineComment [OF c2(1)] cm c2(2) adv_linv by (auto simp: lclean_def adv_def)
      show ?thesis
      proof (cases found)
        case False': False
        have "m_current s3 = - 1" using skipLineComment_eof [of s2 s3] cm False' by simp
        then show ?thesis
          using eq w False sw GotoSingleLineComment cm False' c3 a2 m_current_eof [OF c3(2)]
          by (auto simp: lex_ok_def adv_def)
      next
        case True
        let ?s4 = "(shiftLineTerminator s3)\<lparr>m_atLineStart := True, m_terminator := True\<rparr>"
        have "isLineTerminator (m_current s3)" using skipLineComment_stops [of s2 s3] cm True by simp
        then have s4: "sadv s3 ?s4" "linv ?s4" "lclean ?s4"
          using sadv_shiftLineTerminator [OF c3(2)] c3 by (auto simp: sadv_def adv_def)
        then have a4: "sadv ?s1 ?s4" "adv ?s1 ?s4"
          using a2 c3(1) by (meson adv_trans sadv_trans2 sadv_adv)+
        show ?thesis
        proof (cases "lastTokenWasRestrKeyword ?s4")
          case True': True
          show ?thesis
            using eq w False sw GotoSingleLineComment cm True True' a4 s4
            by (intro lex_ok_return [of ?s1 "?s4\<lparr>m_delimited := True\<rparr>" SEMICOLON "m_code ?s1" lv llocp]) auto
        next
          case False': False
          then have "lex_start ds lexType lv llocp ?s4 = (token, lvalp', llocp', t)"
            using eq w False sw GotoSingleLineComment cm True by simp
          then have "lex_ok ?s4 token t"
            using IH(2) [OF as refl False sw [symmetric] refl refl GotoSingleLineComment cm [symmetric]
                refl _ refl _ s4(2,3) prems(3)] True False' by blast
          then show ?thesis using a4(2) by (rule lex_ok_adv [rotated])
        qed
      qed
    qed
    then show ?thesis using w(1) by (rule lex_ok_adv [rotated])
  qed
qed


lemma lex_lex_ok:
  assumes "linv s" and "lclean s" and "length ds = 10"
    and "lex ds lexType lvalp llocp s = (token, lvalp', llocp', t)"
  shows "lex_ok s token t"
proof -
  have "lex_start ds lexType lvalp llocp (s\<lparr>m_terminator := False\<rparr>) = (token, lvalp', llocp', t)"
    using assms(2,4) by (simp add: lex_def lclean_def Let_def)
  then have "lex_ok (s\<lparr>m_terminator := False\<rparr>) token t"
    using assms(1-3) by (intro lex_start_ok) simp_all
  then show ?thesis by (simp add: lex_ok_def)
qed

text \<open>A call in a state with an error or with text left in a buffer violates an assertion.\<close>

lemma lex_not_lclean:
  "\<not> lclean s \<Longrightarrow> lex ds lexType lvalp llocp s = (token, lvalp', llocp', t) \<Longrightarrow> \<not> assertsOK t"
  by (auto simp: lex_def lclean_def assertL_def split: if_splits)

subsection \<open>Regular expressions\<close>

lemma adv_scanRegExp_loop:
  assumes "linv s" and "scanRegExp_loop r e b s = (ok, t)"
  shows "adv s t \<and> m_buffer8 t = m_buffer8 s \<and> (\<not> r \<longrightarrow> m_buffer16 t = m_buffer16 s)"
  using assms
proof (induction r e b s arbitrary: ok t rule: scanRegExp_loop.induct)
  case (1 r e b s)
  note IH = "1.IH" and prems = "1.prems"
  note eq = prems(2) [unfolded scanRegExp_loop.simps [of r e b s] Let_def]
  show ?case
  proof (cases "isLineTerminator (m_current s) \<or> m_current s = - 1")
    case True
    with eq prems(1) show ?thesis by (auto intro: adv_refl)
  next
    case False
    then have a: "adv s (shift s)" "linv (shift s)" using prems(1) sadv_shift sadv_adv by auto
    let ?s2 = "if r then record16 (m_current s) (shift s) else shift s"
    have a2: "adv s ?s2" "linv ?s2" "m_buffer8 ?s2 = m_buffer8 s" "\<not> r \<Longrightarrow> m_buffer16 ?s2 = m_buffer16 s"
      using a m_current_range [OF prems(1)] False by auto
    have rec: "adv s t \<and> m_buffer8 t = m_buffer8 s \<and> (\<not> r \<longrightarrow> m_buffer16 t = m_buffer16 s)"
      if "adv ?s2 t \<and> m_buffer8 t = m_buffer8 ?s2 \<and> (\<not> r \<longrightarrow> m_buffer16 t = m_buffer16 ?s2)"
      using that a2 by (auto intro: adv_trans split: if_splits)
    show ?thesis
    proof (cases "m_current s = 47 \<and> \<not> e \<and> \<not> b")
      case True
      with eq False a show ?thesis by auto
    next
      case False': False
      note IHs = IH [OF refl False refl False' refl]
      consider "e" | "\<not> e" "m_current s = 91" | "\<not> e" "m_current s = 93" | "\<not> e" "m_current s = 92"
        | "\<not> e" "m_current s \<noteq> 91" "m_current s \<noteq> 93" "m_current s \<noteq> 92" by blast
      then show ?thesis
      proof cases
        case 1
        with eq False False' IHs(1) [OF _ a2(2)] show ?thesis by (intro rec) auto
      next
        case 2
        with eq False False' IHs(2) [OF _ _ a2(2)] show ?thesis by (intro rec) auto
      next
        case 3
        with eq False False' IHs(3) [OF _ _ _ a2(2)] show ?thesis by (intro rec) auto
      next
        case 4
        with eq False False' IHs(4) [OF _ _ _ _ a2(2)] show ?thesis by (intro rec) auto
      next
        case 5
        with eq False False' IHs(5) [OF _ _ _ _ a2(2)] show ?thesis by (intro rec) auto
      qed
    qed
  qed
qed

text \<open>
  \<open>scanRegExp\<close> keeps the state between tokens on both of its results, for the two prefixes the
  parser passes.
\<close>

lemma scanRegExp_ok:
  assumes "linv s" and "lclean s" and "patternPrefix = 0 \<or> patternPrefix = 61"
    and "scanRegExp patternPrefix s = (r, t)"
  shows "adv s t \<and> lclean t"
proof -
  define s1 where "s1 = (if patternPrefix \<noteq> 0 then record16 patternPrefix s else s)"
  obtain found s2 where l: "scanRegExp_loop True False False s1 = (found, s2)" by fastforce
  have s1: "adv s s1" "linv s1" "m_buffer8 s1 = m_buffer8 s"
    using assms(1,3) by (auto simp: s1_def adv_refl)
  have s2: "adv s s2" "m_buffer8 s2 = []" "linv s2"
    using adv_scanRegExp_loop [OF s1(2) l] s1 assms(2) by (auto simp: lclean_def adv_linv intro: adv_trans)
  have i: "adv s2 (recordIdentPart (s2\<lparr>m_buffer16 := []\<rparr>))"
    "m_buffer8 (recordIdentPart (s2\<lparr>m_buffer16 := []\<rparr>)) = []"
    using adv_recordIdentPart [of "s2\<lparr>m_buffer16 := []\<rparr>"] s2 by (auto simp: adv_def)
  have eq: "scanRegExp patternPrefix s =
      (if \<not> found then (None, s2\<lparr>m_buffer16 := []\<rparr>)
       else (Some (m_buffer16 s2, m_buffer16 (recordIdentPart (s2\<lparr>m_buffer16 := []\<rparr>))),
             (recordIdentPart (s2\<lparr>m_buffer16 := []\<rparr>))\<lparr>m_buffer16 := []\<rparr>))"
    using assms(2,3) l by (auto simp: scanRegExp_def s1_def Let_def lclean_def isLineTerminator_iff)
  show ?thesis
  proof (cases found)
    case True
    have "adv s (recordIdentPart (s2\<lparr>m_buffer16 := []\<rparr>))" using s2(1) i(1) by (rule adv_trans)
    then show ?thesis using assms(2,4) i True by (auto simp: eq lclean_def adv_def)
  next
    case False
    then show ?thesis using assms(2,4) s2 by (auto simp: eq lclean_def adv_def)
  qed
qed

subsection \<open>Starting\<close>

lemma setCode_ok:
  assumes "list_all uchar_ok source" and "assertsOK s" and "m_buffer8 s = []" and "m_buffer16 s = []"
  shows "linv (setCode source s) \<and> lclean (setCode source s)"
  using assms by (auto simp: setCode_def linv_def lclean_def list_all_iff)

lemma lrem_setCode: "lrem (setCode source s) \<le> Suc (length source)"
  by (simp add: lrem_def setCode_def)

end
