(* ===== verification/Scanning.thy ===== *)
theory Scanning
  imports LexerProps "HOL-Library.Sublist"
begin

text \<open>
  What the scanner reads, as a function of the text before it: \<open>unread s\<close> is the rest of the
  source, \<open>advance n s\<close> the state \<open>n\<close> characters further. White space, comments, identifiers and
  punctuators; the literals are in a theory of their own.
\<close>

subsection \<open>The rest of the source\<close>

named_theorems reading \<open>reading characters of a known text\<close>

definition unread :: "lexer \<Rightarrow> uchars" where
  "unread s = drop (m_code s) (l_data s)"

definition advance :: "nat \<Rightarrow> lexer \<Rightarrow> lexer" where
  "advance n s =
    (let c = m_code s + n
     in s\<lparr>m_code := c, m_current := (if c < length (l_data s) then l_data s ! c else - 1)\<rparr>)"

lemma unread_Cons:
  assumes "linv s" and "unread s = c # cs"
  shows "m_current s = c" and "uchar_ok c"
proof -
  have "m_code s < length (l_data s)"
    using arg_cong [OF assms(2), of length] by (simp add: unread_def)
  then show "m_current s = c" "uchar_ok c"
    using assms by (auto simp: linv_def unread_def Cons_nth_drop_Suc [symmetric])
qed

lemma unread_Cons_ok:
  assumes "linv s" and "unread s = c # cs"
  shows "m_current s \<noteq> - 1" and "c \<noteq> - 1"
  using unread_Cons [OF assms] by (auto simp: uchar_ok_def)

lemma unread_Nil: "linv s \<Longrightarrow> unread s = [] \<longleftrightarrow> m_current s = - 1"
  using m_current_eof [of s] by (auto simp: unread_def linv_def)

lemma current_unread: "linv s \<Longrightarrow> m_current s = (case unread s of [] \<Rightarrow> - 1 | c # _ \<Rightarrow> c)"
  using unread_Nil [of s] unread_Cons [of s] by (auto split: list.splits)

lemma unread_uchar: "linv s \<Longrightarrow> list_all uchar_ok (unread s)"
  by (auto simp: linv_def unread_def list_all_iff dest: in_set_dropD)

lemma unread_length: "linv s \<Longrightarrow> m_code s + length (unread s) = length (l_data s)"
  by (simp add: unread_def linv_def)

lemma peek_unread: "linv s \<Longrightarrow> peek k s = (if k < length (unread s) then unread s ! k else - 1)"
  by (auto simp: peek_def linv_def unread_def)

lemma unread_updates [simp]:
  "unread (s\<lparr>m_buffer8 := b8\<rparr>) = unread s" "unread (s\<lparr>m_buffer16 := b16\<rparr>) = unread s"
  "unread (s\<lparr>m_lineNumber := n\<rparr>) = unread s" "unread (s\<lparr>m_terminator := b\<rparr>) = unread s"
  "unread (s\<lparr>m_delimited := b\<rparr>) = unread s" "unread (s\<lparr>m_atLineStart := b\<rparr>) = unread s"
  "unread (s\<lparr>m_lastToken := t\<rparr>) = unread s" "unread (s\<lparr>m_lexError := b\<rparr>) = unread s"
  by (simp_all add: unread_def)

lemma advance_sel [simp]:
  "m_code (advance n s) = m_code s + n" "l_data (advance n s) = l_data s"
  "m_codeEnd (advance n s) = m_codeEnd s" "m_buffer8 (advance n s) = m_buffer8 s"
  "m_buffer16 (advance n s) = m_buffer16 s" "m_lexError (advance n s) = m_lexError s"
  "m_lastToken (advance n s) = m_lastToken s" "m_lineNumber (advance n s) = m_lineNumber s"
  "m_terminator (advance n s) = m_terminator s" "m_atLineStart (advance n s) = m_atLineStart s"
  "m_delimited (advance n s) = m_delimited s"
  by (simp_all add: advance_def Let_def)

lemma advance_updates [simp]:
  "advance n (s\<lparr>m_buffer8 := b8\<rparr>) = (advance n s)\<lparr>m_buffer8 := b8\<rparr>"
  "advance n (s\<lparr>m_buffer16 := b16\<rparr>) = (advance n s)\<lparr>m_buffer16 := b16\<rparr>"
  "advance n (s\<lparr>m_lineNumber := k\<rparr>) = (advance n s)\<lparr>m_lineNumber := k\<rparr>"
  "advance n (s\<lparr>m_terminator := b\<rparr>) = (advance n s)\<lparr>m_terminator := b\<rparr>"
  "advance n (s\<lparr>m_delimited := b\<rparr>) = (advance n s)\<lparr>m_delimited := b\<rparr>"
  "advance n (s\<lparr>m_atLineStart := b\<rparr>) = (advance n s)\<lparr>m_atLineStart := b\<rparr>"
  "advance n (s\<lparr>m_lastToken := t\<rparr>) = (advance n s)\<lparr>m_lastToken := t\<rparr>"
  by (simp_all add: advance_def Let_def)

lemma unread_advance [simp]: "unread (advance n s) = drop n (unread s)"
  by (simp add: unread_def add.commute)

lemma advance_advance [simp]: "advance m (advance n s) = advance (n + m) s"
  by (simp add: advance_def Let_def add.assoc)

lemma advance_0:
  assumes "linv s"
  shows "advance 0 s = s"
proof -
  have "advance 0 s = s\<lparr>m_code := m_code s, m_current := m_current s\<rparr>"
    using linv_current [OF assms] by (simp add: advance_def)
  then show ?thesis by simp
qed

lemma linv_advance: "linv s \<Longrightarrow> n \<le> length (unread s) \<Longrightarrow> linv (advance n s)"
  by (auto simp: linv_def advance_def unread_def Let_def)

lemma lclean_advance [simp]: "lclean (advance n s) = lclean s"
  by (simp add: lclean_def)

lemma shift_advance:
  assumes "linv s" and "unread s \<noteq> []"
  shows "shift s = advance 1 s"
proof -
  have "m_current s \<noteq> - 1" using unread_Nil assms by simp
  then have "assertL (m_current s \<noteq> - 1) s = s" by simp
  then show ?thesis using assms(1) by (simp add: shift_def advance_def linv_def Let_def)
qed

text \<open>Reading from a state that is \<open>n\<close> characters further.\<close>

lemma reading_advance:
  assumes "linv s" and "n < length (unread s)"
  shows "shift (advance n s) = advance (Suc n) s" and "m_current (advance n s) = unread s ! n"
proof -
  have v: "linv (advance n s)" using assms by (simp add: linv_advance)
  have "unread (advance n s) \<noteq> []" using assms(2) by simp
  then show "shift (advance n s) = advance (Suc n) s" using shift_advance [OF v] by simp
  have "unread (advance n s) = unread s ! n # drop (Suc n) (unread s)"
    using assms(2) by (simp add: Cons_nth_drop_Suc)
  then show "m_current (advance n s) = unread s ! n" by (rule unread_Cons(1) [OF v])
qed

lemma shift_updates [simp]:
  "shift (s\<lparr>m_buffer8 := b8\<rparr>) = (shift s)\<lparr>m_buffer8 := b8\<rparr>"
  "shift (s\<lparr>m_buffer16 := b16\<rparr>) = (shift s)\<lparr>m_buffer16 := b16\<rparr>"
  "shift (s\<lparr>m_lineNumber := k\<rparr>) = (shift s)\<lparr>m_lineNumber := k\<rparr>"
  "shift (s\<lparr>m_terminator := b\<rparr>) = (shift s)\<lparr>m_terminator := b\<rparr>"
  "shift (s\<lparr>m_delimited := b\<rparr>) = (shift s)\<lparr>m_delimited := b\<rparr>"
  "shift (s\<lparr>m_atLineStart := b\<rparr>) = (shift s)\<lparr>m_atLineStart := b\<rparr>"
  "shift (s\<lparr>m_lastToken := t\<rparr>) = (shift s)\<lparr>m_lastToken := t\<rparr>"
  by (simp_all add: shift_def assertL_def Let_def)

lemma empty_buffers:
  "m_buffer16 t = [] \<Longrightarrow> t\<lparr>m_buffer16 := []\<rparr> = t" "m_buffer8 t = [] \<Longrightarrow> t\<lparr>m_buffer8 := []\<rparr> = t"
  by (cases t, simp)+

text \<open>A fresh environment for runs on concrete texts.\<close>

definition blank_lexer :: lexer where
  "blank_lexer =
    \<lparr>l_data = [], m_lineNumber = 0, m_lastLineNumber = 0, m_buffer8 = [], m_buffer16 = [],
     m_terminator = False, m_delimited = False, m_lastToken = None, m_code = 0, m_codeEnd = 0,
     m_isReparsing = False, m_atLineStart = False, m_lexError = False, m_current = 0,
     assertsOK = True\<rparr>"

definition blank_token :: JSToken where
  "blank_token =
    \<lparr>m_type = EOFTOK, m_data = \<lparr>intValue = 0, doubleValue = DUInt 0, identValue = []\<rparr>,
     m_info = \<lparr>tline = 0, startOffset = 0, endOffset = 0\<rparr>\<rparr>"

definition scanner_at :: "string \<Rightarrow> lexer" where
  "scanner_at text = setCode (uchars_of text) blank_lexer"

lemma unread_scanner_at: "unread (scanner_at text) = uchars_of text"
  by (simp add: unread_def scanner_at_def setCode_def)

lemma of_char_range: "0 \<le> (of_char c :: int) \<and> of_char c < (65536 :: int)"
  using of_char_mod_256 [of c, where 'a = int] pos_mod_bound [of 256 "of_char c :: int"]
    pos_mod_sign [of 256 "of_char c :: int"] by linarith

lemma scanner_at_ok: "linv (scanner_at text)" "lclean (scanner_at text)"
proof -
  have "list_all uchar_ok (uchars_of text)"
    using of_char_range by (auto simp: uchars_of_def list_all_iff uchar_ok_def)
  then show "linv (scanner_at text)" "lclean (scanner_at text)"
    using setCode_ok [of "uchars_of text" blank_lexer] by (simp_all add: scanner_at_def blank_lexer_def)
qed

subsection \<open>Every call of lex\<close>

text \<open>
  C11. One call of \<open>lex\<close> in a state between two tokens keeps the invariant of the scanner: no assertion
  fails, the source stays, the position stays in it and moves forward with every token; at the end
  of the source \<open>EOFTOK\<close> is returned, and unless the result is \<open>ERRORTOK\<close> the buffers are empty and
  the error flag is unset, which the next call asserts.
\<close>

theorem lex_keeps_invariant:
  assumes "linv s" and "lclean s" and "length ds = 10"
    and "lex ds lexType lvalp llocp s = (token, lvalp', llocp', t)"
  shows "linv t \<and> l_data t = l_data s \<and> m_code s \<le> m_code t \<and>
    (token \<noteq> ERRORTOK \<longrightarrow> lclean t) \<and> (token \<noteq> ERRORTOK \<and> token \<noteq> EOFTOK \<longrightarrow> m_code s < m_code t) \<and>
    (token = EOFTOK \<longrightarrow> unread t = [])"
  using lex_lex_ok [OF assms] by (simp add: lex_ok_def unread_def)

theorem lex_keeps_invariant_witness:
  "\<exists>token lvalp' llocp' t. lex (replicate 10 0) IdentifyReservedWords (m_data blank_token) (m_info blank_token)
     (scanner_at ''x'') = (token, lvalp', llocp', t) \<and> linv t"
proof -
  obtain token lvalp' llocp' t where l: "lex (replicate 10 0) IdentifyReservedWords (m_data blank_token)
      (m_info blank_token) (scanner_at ''x'') = (token, lvalp', llocp', t)"
    by (metis surj_pair)
  from lex_keeps_invariant [OF scanner_at_ok _ l] l show ?thesis by simp
qed

subsection \<open>White space\<close>

lemma skipWhiteSpace_prefix:
  "linv s \<Longrightarrow> unread s = ws @ rest \<Longrightarrow> list_all isWhiteSpace ws \<Longrightarrow>
     skipWhiteSpace s = skipWhiteSpace (advance (length ws) s)"
proof (induction ws arbitrary: s)
  case Nil
  then show ?case by (simp add: advance_0)
next
  case (Cons c ws)
  have c: "m_current s = c" "shift s = advance 1 s"
    using Cons.prems unread_Cons(1) [of s c] shift_advance [of s] by simp_all
  have "skipWhiteSpace s = skipWhiteSpace (advance 1 s)"
    using c Cons.prems(3) by (subst skipWhiteSpace.simps) simp
  also have "\<dots> = skipWhiteSpace (advance (length ws) (advance 1 s))"
    using Cons.prems by (intro Cons.IH) (simp_all add: linv_advance)
  finally show ?case by simp
qed

lemma skipWhiteSpace_none: "\<not> isWhiteSpace (m_current s) \<Longrightarrow> skipWhiteSpace s = s"
  by (subst skipWhiteSpace.simps) simp

lemma lex_white_space_prefix:
  assumes "linv s" and "lclean s" and "unread s = ws @ rest" and "list_all isWhiteSpace ws"
  shows "lex ds lexType lvalp llocp s = lex ds lexType lvalp llocp (advance (length ws) s)"
  using assms skipWhiteSpace_prefix [of "s\<lparr>m_terminator := False\<rparr>" ws rest]
  by (simp add: lex_def lclean_def lex_start.simps [of ds lexType lvalp llocp])

text \<open>One token: \<open>lex\<close> at a character that is not white space, where the switch ends with \<open>break\<close>.\<close>

lemma lex_break:
  assumes "linv s" and "lclean s" and "unread s = c # cs" and "\<not> isWhiteSpace c"
    and "lexSwitch ds lexType (characterType c) lvalp (s\<lparr>m_terminator := False, m_delimited := False\<rparr>) =
      (Break token, lv, t)" and "linv t"
  shows "lex ds lexType lvalp llocp s =
    (token, lv, llocp\<lparr>tline := m_lineNumber t, startOffset := m_code s, endOffset := m_code t\<rparr>,
     t\<lparr>m_atLineStart := False, m_lastToken := Some token\<rparr>)"
proof -
  have c: "m_current s = c" "c \<noteq> - 1" using unread_Cons(1) unread_Cons_ok(2) assms(1,3) by auto
  then have w: "skipWhiteSpace (s\<lparr>m_terminator := False\<rparr>) = s\<lparr>m_terminator := False\<rparr>"
    using assms(4) by (simp add: skipWhiteSpace_none)
  show ?thesis
    using assms(1,2,5,6) c
    by (simp add: lex_def lclean_def lex_start.simps [of ds lexType lvalp llocp] w lexReturnToken_def Let_def)
qed

subsection \<open>Identifiers and reserved words\<close>

lemma parseIdentifier_loop_plain:
  assumes "linv s" and "unread s = w @ rest" and "list_all isIdentPart w"
    and "rest = [] \<or> (\<not> isIdentPart (hd rest) \<and> hd rest \<noteq> 92)"
  shows "parseIdentifier_loop b n s = (True, b, n, advance (length w) s)"
  using assms
proof (induction w arbitrary: s)
  case Nil
  then have "\<not> isIdentPart (m_current s)" "m_current s \<noteq> 92"
    by (auto simp: current_unread split: list.splits)
  then show ?case by (subst parseIdentifier_loop.simps) (simp add: advance_0 Nil)
next
  case (Cons c w)
  have c: "m_current s = c" "shift s = advance 1 s"
    using Cons.prems unread_Cons(1) [of s c] shift_advance [of s] by simp_all
  have "parseIdentifier_loop b n s = parseIdentifier_loop b n (advance 1 s)"
    using c Cons.prems(3) by (subst parseIdentifier_loop.simps) simp
  also have "\<dots> = (True, b, n, advance (length w) (advance 1 s))"
    using Cons.prems by (intro Cons.IH) (simp_all add: linv_advance)
  finally show ?case by simp
qed

lemma identStart_type:
  assumes "isIdentStart c"
  shows "characterType c = CharacterIdentifierStart" and "\<not> isWhiteSpace c"
proof -
  have r: "0 \<le> c \<and> c < 128" using assms by (auto simp: isIdentStart_iff isIdentPart_iff)
  have "list_all (\<lambda>c. isIdentStart c \<longrightarrow> characterType c = CharacterIdentifierStart \<and> \<not> isWhiteSpace c)
      (map int [0..<128])"
    by code_simp
  from isASCII_cases [OF this, of c] r assms
  show "characterType c = CharacterIdentifierStart" "\<not> isWhiteSpace c" by blast+
qed

lemma lex_word_token:
  assumes "linv s" and "lclean s" and "unread s = w @ rest" and "w \<noteq> []" and "isIdentStart (hd w)"
    and "list_all isIdentPart w" and "rest = [] \<or> (\<not> isIdentPart (hd rest) \<and> hd rest \<noteq> 92)"
  shows "lex ds lexType lvalp llocp s =
    (if lexType = IdentifyReservedWords then HashTable_entry w else IDENT,
     lvalp\<lparr>identValue := w\<rparr>,
     llocp\<lparr>tline := m_lineNumber s, startOffset := m_code s, endOffset := m_code s + length w\<rparr>,
     (advance (length w) s)\<lparr>m_terminator := False, m_delimited := False, m_atLineStart := False,
       m_lastToken := Some (if lexType = IdentifyReservedWords then HashTable_entry w else IDENT)\<rparr>)"
proof -
  let ?s = "s\<lparr>m_terminator := False, m_delimited := False\<rparr>"
  let ?token = "if lexType = IdentifyReservedWords then HashTable_entry w else IDENT"
  obtain c cs where w: "w = c # cs" using assms(4) by (cases w) auto
  have loop: "parseIdentifier_loop False (m_code s) ?s = (True, False, m_code s, advance (length w) ?s)"
    using assms by (intro parseIdentifier_loop_plain) simp_all
  have v: "linv (advance (length w) ?s)"
    using assms(1,3) by (intro linv_advance) simp_all
  have take: "take (length w) (drop (m_code s) (l_data s)) = w"
    using assms(3) by (simp add: unread_def)
  have b: "m_buffer16 s = []" using assms(2) by (simp add: lclean_def)
  have cur: "m_current ?s = c" using unread_Cons(1) [of ?s c] assms(1,3) w by simp
  have u: "(advance (length w) ?s)\<lparr>m_buffer16 := []\<rparr> = advance (length w) ?s"
    using b by (intro empty_buffers) simp
  have "parseIdentifier lvalp lexType ?s =
      (?token, lvalp\<lparr>identValue := w\<rparr>, advance (length w) ?s)"
    using loop v take assms(1) b u by (simp add: parseIdentifier_def Let_def)
  then have "lexSwitch ds lexType (characterType c) lvalp ?s =
      (Break ?token, lvalp\<lparr>identValue := w\<rparr>, advance (length w) ?s)"
    using identStart_type(1) [of c] assms(5) w cur by (simp add: lexSwitch_def lexIdentifier_def)
  note lexed = lex_break [OF assms(1,2) _ _ this v]
  show ?thesis
    using lexed [of "cs @ rest" llocp] identStart_type(2) [of c] assms(3,5) w by simp
qed

text \<open>
  C16. A word without escapes that starts with a letter, underscore or dollar sign is read as one token:
  the reserved word it spells, where those are recognised, and an identifier otherwise; its
  characters are the value of the token and its place is recorded. It ends where no identifier
  character follows.
\<close>

theorem lex_word:
  assumes "linv s" and "lclean s" and "unread s = w @ rest" and "w \<noteq> []" and "isIdentStart (hd w)"
    and "list_all isIdentPart w" and "rest = [] \<or> (\<not> isIdentPart (hd rest) \<and> hd rest \<noteq> 92)"
  shows "lex ds lexType lvalp llocp s =
    (if lexType = IdentifyReservedWords then HashTable_entry w else IDENT,
     lvalp\<lparr>identValue := w\<rparr>,
     llocp\<lparr>tline := m_lineNumber s, startOffset := m_code s, endOffset := m_code s + length w\<rparr>,
     (advance (length w) s)\<lparr>m_terminator := False, m_delimited := False, m_atLineStart := False,
       m_lastToken := Some (if lexType = IdentifyReservedWords then HashTable_entry w else IDENT)\<rparr>)"
  by (rule lex_word_token [OF assms])

theorem lex_word_witness:
  "\<exists>t. lex [] IdentifyReservedWords (m_data blank_token) (m_info blank_token) (scanner_at ''while(1)'') =
     (WHILE, (m_data blank_token)\<lparr>identValue := uchars_of ''while''\<rparr>,
      \<lparr>tline = 1, startOffset = 0, endOffset = 5\<rparr>, t)"
proof -
  have "HashTable_entry (uchars_of ''while'') = WHILE" by code_simp
  then show ?thesis
    using lex_word [of "scanner_at ''while(1)''" "uchars_of ''while''" "uchars_of ''(1)''" "[]"
        IdentifyReservedWords "m_data blank_token" "m_info blank_token"]
    by (simp add: scanner_at_ok unread_scanner_at uchars_of_def isIdentStart_iff isIdentPart_iff isASCIIDigit_def)
      (simp add: scanner_at_def setCode_def blank_lexer_def blank_token_def)
qed


subsection \<open>Punctuators\<close>

text \<open>The punctuators of the language, longer ones first.\<close>

definition punctuators :: "(string \<times> JSTokenType) list" where
  "punctuators =
    [(''>>>='', URSHIFTEQUAL),
     (''>>>'', URSHIFT), (''>>='', RSHIFTEQUAL), (''<<='', LSHIFTEQUAL), (''==='', STREQ), (''!=='', STRNEQ),
     (''>>'', RSHIFT), (''>='', GE), (''=='', EQEQ), (''<<'', LSHIFT), (''<='', LE), (''!='', NE),
     (''++'', PLUSPLUS), (''+='', PLUSEQUAL), (''--'', MINUSMINUS), (''-='', MINUSEQUAL), (''*='', MULTEQUAL),
     (''/='', DIVEQUAL), (''&&'', ANDAND), (''&='', ANDEQUAL), (''^='', XOREQUAL), (''%='', MODEQUAL),
     (''|='', OREQUAL), (''||'', OROR),
     (''>'', GT), (''='', EQUAL), (''<'', LT), (''!'', EXCLAMATION), (''+'', PLUS), (''-'', MINUS),
     (''*'', TIMES), (''/'', DIVIDE), (''&'', BITAND), (''^'', BITXOR), (''%'', MOD), (''|'', BITOR),
     (''('', OPENPAREN), ('')'', CLOSEPAREN), (''['', OPENBRACKET), ('']'', CLOSEBRACKET),
     ('','', COMMA), ('':'', COLON), (''?'', QUESTION), (''~'', TILDE), ('';'', SEMICOLON),
     (''{'', OPENBRACE), (''}'', CLOSEBRACE), (''.'', DOT)]"

definition starts_with :: "string \<Rightarrow> uchars \<Rightarrow> bool" where
  "starts_with p cs \<longleftrightarrow> prefix (uchars_of p) cs"

text \<open>The longest punctuator that the text starts with.\<close>

definition punctuator_at :: "uchars \<Rightarrow> (string \<times> JSTokenType) option" where
  "punctuator_at cs = find (\<lambda>(p, _). starts_with p cs) punctuators"

text \<open>What starts like a punctuator and is none: comments, and a number with its decimal point first.\<close>

definition no_punctuator :: "bool \<Rightarrow> uchars \<Rightarrow> bool" where
  "no_punctuator atLineStart cs \<longleftrightarrow>
     starts_with ''//'' cs \<or> starts_with ''/*'' cs \<or> starts_with ''<!--'' cs \<or>
     (atLineStart \<and> starts_with ''-->'' cs) \<or>
     (starts_with ''.'' cs \<and> tl cs \<noteq> [] \<and> isASCIIDigit (hd (tl cs)))"

text \<open>After a line terminator the two tokens that may follow an operand have other names.\<close>

definition after_line :: "bool \<Rightarrow> JSTokenType \<Rightarrow> JSTokenType" where
  "after_line terminator token =
    (if terminator \<and> token = PLUSPLUS then AUTOPLUSPLUS
     else if terminator \<and> token = MINUSMINUS then AUTOMINUSMINUS else token)"

lemma not_delimited: "\<not> m_delimited t \<Longrightarrow> t\<lparr>m_delimited := False\<rparr> = t"
  by (cases t) simp

lemma reading_peek:
  assumes "linv s"
  shows "m_current (advance k s) = peek k s"
    and "peek j (advance k s) = peek (k + j) s"
    and "peek k s \<noteq> - 1 \<Longrightarrow> shift (advance k s) = advance (Suc k) s"
    and "peek k s \<noteq> - 1 \<Longrightarrow> linv (advance (Suc k) s)"
proof -
  have e: "m_codeEnd s = length (l_data s)" using assms by (simp add: linv_def)
  show "m_current (advance k s) = peek k s" "peek j (advance k s) = peek (k + j) s"
    by (simp_all add: advance_def peek_def e Let_def add.assoc)
  assume "peek k s \<noteq> - 1"
  then have k: "k < length (unread s)" using peek_unread [OF assms] by (metis)
  then show "shift (advance k s) = advance (Suc k) s" by (rule reading_advance(1) [OF assms])
  show "linv (advance (Suc k) s)" using k by (intro linv_advance [OF assms]) simp
qed

lemma prefix_peek:
  assumes "linv s" and "a \<noteq> - 1"
  shows "prefix (a # p) (drop k (unread s)) \<longleftrightarrow> peek k s = a \<and> prefix p (drop (Suc k) (unread s))"
proof (cases "k < length (unread s)")
  case True
  then have "drop k (unread s) = unread s ! k # drop (Suc k) (unread s)"
    by (simp add: Cons_nth_drop_Suc)
  then show ?thesis using True peek_unread [OF assms(1), of k] by auto
next
  case False
  then show ?thesis using assms(2) peek_unread [OF assms(1), of k] by simp
qed

lemmas prefix_peek_0 = prefix_peek [where k = 0, simplified]

lemma characterType_punctuator:
  "characterType 62 = CharacterGreater" "characterType 61 = CharacterEqual" "characterType 60 = CharacterLess"
  "characterType 33 = CharacterExclamationMark" "characterType 43 = CharacterAdd"
  "characterType 45 = CharacterSub" "characterType 42 = CharacterMultiply" "characterType 47 = CharacterSlash"
  "characterType 38 = CharacterAnd" "characterType 94 = CharacterXor" "characterType 37 = CharacterModulo"
  "characterType 124 = CharacterOr" "characterType 40 = CharacterOpenParen"
  "characterType 41 = CharacterCloseParen" "characterType 91 = CharacterOpenBracket"
  "characterType 93 = CharacterCloseBracket" "characterType 44 = CharacterComma"
  "characterType 58 = CharacterColon" "characterType 63 = CharacterQuestion"
  "characterType 126 = CharacterTilde" "characterType 59 = CharacterSemicolon"
  "characterType 123 = CharacterOpenBrace" "characterType 125 = CharacterCloseBrace"
  "characterType 46 = CharacterDot"
  by code_simp+

lemma starts_with_Nil [simp]: "starts_with [] cs"
  by (simp add: starts_with_def uchars_of_def)

lemma starts_with_peek:
  assumes "linv s"
  shows "starts_with (x # p) (drop k (unread s)) \<longleftrightarrow>
      peek k s = of_char x \<and> starts_with p (drop (Suc k) (unread s))"
    and "starts_with (x # p) (unread s) \<longleftrightarrow> peek 0 s = of_char x \<and> starts_with p (drop (Suc 0) (unread s))"
proof -
  have "(of_char x :: int) \<noteq> - 1"
    by (metis of_char_of of_nat_0_le_iff of_nat_of_char neg_0_le_iff_le not_one_le_zero)
  from prefix_peek [OF assms this] prefix_peek_0 [OF assms this] show
    "starts_with (x # p) (drop k (unread s)) \<longleftrightarrow>
      peek k s = of_char x \<and> starts_with p (drop (Suc k) (unread s))"
    "starts_with (x # p) (unread s) \<longleftrightarrow> peek 0 s = of_char x \<and> starts_with p (drop (Suc 0) (unread s))"
    by (simp_all add: starts_with_def uchars_of_def)
qed

lemma next_digit_peek:
  assumes "linv s"
  shows "tl (unread s) \<noteq> [] \<and> isASCIIDigit (hd (tl (unread s))) \<longleftrightarrow> isASCIIDigit (peek 1 s)"
  using assms by (cases "unread s"; cases "tl (unread s)") (auto simp: peek_unread)

lemma first_character:
  assumes "linv s" and "punctuator_at (unread s) = Some (p, token)"
  shows "peek 0 s \<in> {62, 61, 60, 33, 43, 45, 42, 47, 38, 94, 37, 124, 40, 41, 91, 93, 44, 58, 63, 126, 59, 123, 125, 46}"
  using assms(2)
  unfolding punctuator_at_def punctuators_def find.simps prod.case starts_with_peek [OF assms(1)]
  by (simp split: if_split_asm)

lemma lexSwitch_punctuator:
  assumes "linv s" and "punctuator_at (unread s) = Some (p, token)"
    and "\<not> no_punctuator (m_atLineStart s) (unread s)" and "\<not> m_delimited s"
  shows "lexSwitch ds lexType (characterType (peek 0 s)) lvalp s =
    (Break (after_line (m_terminator s) token),
     if token = OPENBRACE \<or> token = CLOSEBRACE then lvalp\<lparr>intValue := int (m_code s)\<rparr> else lvalp,
     (advance (length p) s)\<lparr>m_delimited := (token = SEMICOLON \<or> token = CLOSEBRACE)\<rparr>)"
proof -
  note v = assms(1)
  have read: "m_current s = peek 0 s" "\<And>k. m_current (advance k s) = peek k s"
    "\<And>j k. peek j (advance k s) = peek (k + j) s"
    "peek 0 s \<noteq> - 1 \<Longrightarrow> shift s = advance (Suc 0) s"
    "\<And>k. peek k s \<noteq> - 1 \<Longrightarrow> shift (advance k s) = advance (Suc k) s"
    using reading_peek [OF v] reading_peek(3) [OF v, of 0] advance_0 [OF v] by (metis, auto)
  have del: "\<And>n. (advance n s)\<lparr>m_delimited := False\<rparr> = advance n s"
    using assms(4) by (simp add: not_delimited)
  note dot = next_digit_peek [OF v, symmetric, simplified]
  note table = punctuator_at_def punctuators_def no_punctuator_def find.simps prod.case starts_with_peek [OF v]
  note code = lexSwitch_def characterType_punctuator read del lexGreater_def lexEqual_def lexLess_def
        lexExclamationMark_def lexAdd_def lexSub_def lexMultiply_def lexSlash_def lexAnd_def lexXor_def
        lexModulo_def lexOr_def lexSingle_def lexSemicolon_def lexOpenBrace_def lexCloseBrace_def lexDot_def
        v after_line_def Let_def dot
  note first = first_character [OF assms(1,2)]
  show ?thesis
    using first assms(2,3) unfolding table
    by (elim insertE emptyE) (simp_all add: code split: if_split_asm, auto simp: code)
qed

lemma lex_punctuator_token:
  assumes "linv s" and "punctuator_at (unread s) = Some (p, token)"
    and "\<not> no_punctuator (m_atLineStart s) (unread s)"
  shows "lex_start ds lexType lvalp llocp s =
    (after_line (m_terminator s) token,
     if token = OPENBRACE \<or> token = CLOSEBRACE then lvalp\<lparr>intValue := int (m_code s)\<rparr> else lvalp,
     llocp\<lparr>tline := m_lineNumber s, startOffset := m_code s, endOffset := m_code s + length p\<rparr>,
     (advance (length p) s)\<lparr>m_delimited := (token = SEMICOLON \<or> token = CLOSEBRACE),
       m_atLineStart := False, m_lastToken := Some (after_line (m_terminator s) token)\<rparr>)"
proof -
  let ?s = "s\<lparr>m_delimited := False\<rparr>"
  have pk: "peek 0 ?s = peek 0 s" by (simp add: peek_def)
  have sw: "lexSwitch ds lexType (characterType (peek 0 s)) lvalp ?s =
    (Break (after_line (m_terminator s) token),
     if token = OPENBRACE \<or> token = CLOSEBRACE then lvalp\<lparr>intValue := int (m_code s)\<rparr> else lvalp,
     (advance (length p) s)\<lparr>m_delimited := (token = SEMICOLON \<or> token = CLOSEBRACE)\<rparr>)"
    using lexSwitch_punctuator [of ?s p token ds lexType lvalp] assms pk by simp
  have "starts_with p (unread s)"
    using assms(2) by (auto simp: punctuator_at_def find_Some_iff)
  then have len: "length p \<le> length (unread s)"
    by (auto simp: starts_with_def uchars_of_def dest: prefix_length_le)
  have cur: "m_current s = peek 0 s" "\<not> isWhiteSpace (peek 0 s)" "peek 0 s \<noteq> - 1"
    using first_character [OF assms(1,2)] reading_peek(1) [OF assms(1), of 0] advance_0 [OF assms(1)]
    by (auto simp: isWhiteSpace_def isASCII_iff)
  have v: "linv (advance (length p) s)" using assms(1) len by (rule linv_advance)
  show ?thesis
    using sw cur v assms(1)
    by (subst lex_start.simps) (simp add: skipWhiteSpace_none lexReturnToken_def Let_def)
qed

text \<open>
  C12. The scanner reads the longest punctuator: where the text starts with one and neither a comment nor
  a number starts there, the token is that of the longest punctuator in the table that the text
  starts with, and exactly its characters are read. The two forms of \<open>++\<close> and \<open>--\<close> depend on whether
  a line terminator has been passed.
\<close>

theorem lex_longest_punctuator:
  assumes "linv s" and "punctuator_at (unread s) = Some (p, token)"
    and "\<not> no_punctuator (m_atLineStart s) (unread s)"
  shows "lex_start ds lexType lvalp llocp s =
    (after_line (m_terminator s) token,
     if token = OPENBRACE \<or> token = CLOSEBRACE then lvalp\<lparr>intValue := int (m_code s)\<rparr> else lvalp,
     llocp\<lparr>tline := m_lineNumber s, startOffset := m_code s, endOffset := m_code s + length p\<rparr>,
     (advance (length p) s)\<lparr>m_delimited := (token = SEMICOLON \<or> token = CLOSEBRACE),
       m_atLineStart := False, m_lastToken := Some (after_line (m_terminator s) token)\<rparr>)"
  by (rule lex_punctuator_token [OF assms])

theorem lex_longest_punctuator_witness:
  "fst (lex_start [] IdentifyReservedWords (m_data blank_token) (m_info blank_token)
     (scanner_at ''>>>=a'')) = URSHIFTEQUAL"
proof -
  have "punctuator_at (uchars_of ''>>>=a'') = Some (''>>>='', URSHIFTEQUAL)"
    and "\<not> no_punctuator (m_atLineStart (scanner_at ''>>>=a'')) (uchars_of ''>>>=a'')"
    by code_simp+
  then show ?thesis
    using lex_longest_punctuator [of "scanner_at ''>>>=a''" "''>>>=''" URSHIFTEQUAL "[]"
        IdentifyReservedWords "m_data blank_token" "m_info blank_token"]
    by (simp add: scanner_at_ok unread_scanner_at after_line_def)
qed


text \<open>The table is complete and ordered: no punctuator is a proper prefix of a later one.\<close>

lemma punctuators_ordered:
  "sorted_wrt (\<lambda>(p, _) (q, _). length q \<le> length p) punctuators" "distinct (map fst punctuators)"
  by code_simp+

subsection \<open>Comments\<close>

text \<open>
  How many lines a comment ends: two different ones of line feed and carriage return in a row are one
  line terminator.
\<close>

fun line_terminators :: "uchars \<Rightarrow> int" where
  "line_terminators [] = 0"
| "line_terminators [c] = (if isLineTerminator c then 1 else 0)"
| "line_terminators (c # d # cs) =
     (if isLineTerminator c
      then 1 + (if c + d = 10 + 13 then line_terminators cs else line_terminators (d # cs))
      else line_terminators (d # cs))"

lemma shiftLineTerminator_unread:
  assumes "linv s" and "unread s = c # cs" and "isLineTerminator c"
  shows "shiftLineTerminator s =
    (if cs \<noteq> [] \<and> c + hd cs = 10 + 13 then (advance 2 s)\<lparr>m_lineNumber := m_lineNumber s + 1\<rparr>
     else (advance 1 s)\<lparr>m_lineNumber := m_lineNumber s + 1\<rparr>)"
proof -
  have c: "m_current s = c" "shift s = advance 1 s"
    using assms unread_Cons(1) [of s c] shift_advance [of s] by simp_all
  have v: "linv (advance 1 s)" using assms(1,2) by (intro linv_advance) simp_all
  have d: "m_current (advance 1 s) = (case cs of [] \<Rightarrow> - 1 | d # _ \<Rightarrow> d)"
    using current_unread [OF v] assms(2) by simp
  have two: "cs \<noteq> [] \<Longrightarrow> shift (advance 1 s) = advance 2 s"
    using shift_advance [OF v] assms(2) by (simp add: numeral_2_eq_2)
  show ?thesis
    using c d two assms(3) unfolding shiftLineTerminator_def Let_def
    by (cases cs) (auto simp: isLineTerminator_iff)
qed

lemma skipAsterisks_end:
  assumes "linv s" and "unread s = 42 # 47 # rest"
  shows "skipAsterisks s = (True, advance 2 s)"
proof -
  have "linv (advance 1 s)" using assms by (intro linv_advance) simp_all
  then have "m_current (advance 1 s) = 47" "shift (advance 1 s) = advance 2 s"
    using unread_Cons(1) [of "advance 1 s" 47 rest] shift_advance [of "advance 1 s"] assms(2)
    by (simp_all add: numeral_2_eq_2)
  moreover have "m_current s = 42" "shift s = advance 1 s"
    using unread_Cons(1) [OF assms] shift_advance [of s] assms by simp_all
  ultimately show ?thesis by (subst skipAsterisks.simps) (simp add: Let_def)
qed

text \<open>Inside the comment one round skips an asterisk, a line terminator, or another character.\<close>

lemma parseMultilineComment_star:
  assumes "linv s" and "unread s = 42 # c # cs" and "c \<noteq> 47"
  shows "parseMultilineComment s = parseMultilineComment (advance 1 s)"
proof -
  have "linv (advance 1 s)" using assms by (intro linv_advance) simp_all
  then have c: "m_current (advance 1 s) = c"
    using unread_Cons(1) [of "advance 1 s" c cs] assms(2) by simp
  have "m_current s = 42" "shift s = advance 1 s"
    using unread_Cons(1) [OF assms(1,2)] shift_advance [of s] assms by simp_all
  then have "skipAsterisks s = skipAsterisks (advance 1 s)"
    using c assms(3) by (subst skipAsterisks.simps) (simp add: Let_def)
  then show ?thesis by (subst (1 2) parseMultilineComment.simps) simp
qed

lemma parseMultilineComment_other:
  assumes "linv s" and "unread s = c # cs" and "c \<noteq> 42"
  shows "parseMultilineComment s =
    parseMultilineComment (if isLineTerminator c then shiftLineTerminator s else advance 1 s)"
proof -
  have c: "m_current s = c" "shift s = advance 1 s" "c \<noteq> - 1"
    using unread_Cons(1) [OF assms(1,2)] shift_advance [of s] assms unread_Cons_ok(2) by simp_all
  have "skipAsterisks s = (False, s)" using c assms(3) by (subst skipAsterisks.simps) simp
  then show ?thesis using c by (subst parseMultilineComment.simps) simp
qed

lemma same_line: "m_lineNumber t = n \<Longrightarrow> t\<lparr>m_lineNumber := n\<rparr> = t"
  by (cases t) simp

lemma line_terminators_none: "\<not> isLineTerminator c \<Longrightarrow> line_terminators (c # cs) = line_terminators cs"
  by (cases cs) simp_all

lemma no_close_tl: "\<not> sublist [42, 47] (c # cs) \<Longrightarrow> \<not> sublist [42, 47 :: int] cs"
  by (simp add: sublist_Cons_right)

lemma parseMultilineComment_body:
  assumes "linv s" and "unread s = body @ 42 # 47 # rest" and "\<not> sublist [42, 47] body"
  shows "parseMultilineComment s =
    (True, (advance (length body + 2) s)\<lparr>m_lineNumber := m_lineNumber s + line_terminators body\<rparr>)"
  using assms
proof (induction "length body" arbitrary: s body rule: less_induct)
  case less
  note IH = less(1) and s = less(2-4)
  show ?case
  proof (cases body)
    case Nil
    then show ?thesis
      using skipAsterisks_end [OF s(1), of rest] s(2)
      by (subst parseMultilineComment.simps) (simp add: same_line numeral_2_eq_2)
  next
    case (Cons c b)
    have u: "unread s = c # b @ 42 # 47 # rest" using s(2) Cons by simp
    have v: "linv (advance 1 s)" using s(1) u by (intro linv_advance) simp_all
    have nb: "\<not> sublist [42, 47] b" using no_close_tl s(3) Cons by blast
    have one: "parseMultilineComment ((advance 1 s)\<lparr>m_lineNumber := n\<rparr>) =
        (True, (advance (length body + 2) s)\<lparr>m_lineNumber := n + line_terminators b\<rparr>)" for n
      using IH [of b "(advance 1 s)\<lparr>m_lineNumber := n\<rparr>"] v nb u Cons by simp
    show ?thesis
    proof (cases "isLineTerminator c")
      case True
      then have sl: "parseMultilineComment s = parseMultilineComment (shiftLineTerminator s)"
        using parseMultilineComment_other [OF s(1) u] by (auto simp: isLineTerminator_iff)
      show ?thesis
      proof (cases "b \<noteq> [] \<and> c + hd b = 10 + 13")
        case pair: True
        then obtain d b' where b: "b = d # b'" by (cases b) auto
        have v2: "linv (advance 2 s)" using s(1) u b by (intro linv_advance) simp_all
        have "parseMultilineComment ((advance 2 s)\<lparr>m_lineNumber := m_lineNumber s + 1\<rparr>) =
            (True, (advance (length body + 2) s)\<lparr>m_lineNumber := m_lineNumber s + 1 + line_terminators b'\<rparr>)"
          using IH [of b' "(advance 2 s)\<lparr>m_lineNumber := m_lineNumber s + 1\<rparr>"] v2 no_close_tl nb u b Cons
          by (auto simp: numeral_2_eq_2)
        then show ?thesis
          using sl shiftLineTerminator_unread [OF s(1) u True] pair True b Cons by simp
      next
        case single: False
        then have "\<not> c + hd (b @ 42 # 47 # rest) = 10 + 13"
          using True by (cases b) (auto simp: isLineTerminator_iff)
        moreover have "line_terminators (c # b) = 1 + line_terminators b"
          using single True by (cases b) simp_all
        ultimately show ?thesis
          using sl shiftLineTerminator_unread [OF s(1) u True] one [of "m_lineNumber s + 1"] Cons by simp
      qed
    next
      case False
      have "parseMultilineComment s = parseMultilineComment (advance 1 s)"
      proof (cases "c = 42")
        case True
        obtain d ds where d: "b @ 42 # 47 # rest = d # ds" by (cases "b @ 42 # 47 # rest") auto
        have "d \<noteq> 47"
          using d s(3) Cons True by (cases b) (auto simp: sublist_Cons_right)
        then show ?thesis using parseMultilineComment_star [OF s(1)] u d True by simp
      qed (use parseMultilineComment_other [OF s(1) u] False in simp)
      then show ?thesis
        using one [of "m_lineNumber s"] Cons line_terminators_none [OF False]
        by (simp add: same_line)
    qed
  qed
qed

text \<open>
  C17. A comment between \<open>/*\<close> and the first \<open>*/\<close> after it is white space: \<open>lex\<close> goes on behind it, with
  the lines counted that it ends. It does not count as a line terminator, even if it contains one.
\<close>

theorem lex_block_comment:
  assumes "linv s" and "lclean s" and "unread s = 47 # 42 # body @ 42 # 47 # rest"
    and "\<not> sublist [42, 47] body"
  shows "lex ds lexType lvalp llocp s =
    lex ds lexType lvalp llocp ((advance (length body + 4) s)
      \<lparr>m_lineNumber := m_lineNumber s + line_terminators body, m_delimited := False\<rparr>)"
proof -
  let ?s = "s\<lparr>m_terminator := False, m_delimited := False\<rparr>"
  have read: "m_current s = 47" "shift ?s = advance 1 ?s" "m_current (advance 1 ?s) = 42"
    "shift (advance 1 ?s) = advance 2 ?s"
    using unread_Cons(1) [OF assms(1,3)] shift_advance [of ?s] reading_advance [of ?s 1] assms(1,3)
    by (simp_all add: numeral_2_eq_2)
  have v: "linv (advance 2 ?s)" using assms(1,3) by (intro linv_advance) simp_all
  have "parseMultilineComment (advance 2 ?s) =
    (True, (advance (length body + 2) (advance 2 ?s))\<lparr>m_lineNumber := m_lineNumber s + line_terminators body\<rparr>)"
    using parseMultilineComment_body [OF v _ assms(4)] assms(3) by simp
  then have sw: "lexSwitch ds lexType (characterType 47) lvalp ?s = (GotoStart, lvalp,
      (advance (length body + 4) ?s)\<lparr>m_lineNumber := m_lineNumber s + line_terminators body\<rparr>)"
    using read by (simp add: lexSwitch_def characterType_punctuator lexSlash_def Let_def numeral_eq_Suc)
  have w: "\<not> isWhiteSpace 47" by code_simp
  have reorder: "t\<lparr>m_lineNumber := n, m_delimited := False, m_terminator := False\<rparr> =
      t\<lparr>m_terminator := False, m_delimited := False, m_lineNumber := n\<rparr>" for t :: lexer and n
    by (cases t) simp
  show ?thesis
    using sw w read(1) assms(1,2)
    by (simp add: lex_def lclean_def lex_start.simps [of ds lexType lvalp llocp "s\<lparr>m_terminator := False\<rparr>"]
        skipWhiteSpace_none reorder)
qed

theorem lex_block_comment_witness:
  "lex [] IdentifyReservedWords (m_data blank_token) (m_info blank_token) (scanner_at ''/* * */b'') =
   lex [] IdentifyReservedWords (m_data blank_token) (m_info blank_token)
     ((advance 7 (scanner_at ''/* * */b''))\<lparr>m_lineNumber := 1, m_delimited := False\<rparr>)"
proof -
  have "\<not> sublist [42, 47] (uchars_of '' * '')" "line_terminators (uchars_of '' * '') = 0"
    by code_simp+
  then show ?thesis
    using lex_block_comment [of "scanner_at ''/* * */b''" "uchars_of '' * ''" "uchars_of ''b''" "[]"
        IdentifyReservedWords "m_data blank_token" "m_info blank_token"]
    by (simp add: scanner_at_ok unread_scanner_at uchars_of_def)
      (simp add: scanner_at_def setCode_def blank_lexer_def)
qed


end
