(* ===== verification/Literals.thy ===== *)
theory Literals
  imports Scanning
begin

text \<open>
  String and number literals: a string printed with escapes is read back, an unterminated one is an
  error, and decimal and hexadecimal integers have the value of their digits whatever their length.
\<close>

subsection \<open>Escape sequences\<close>

definition hex_digit :: "int \<Rightarrow> uchar" where
  "hex_digit v = (if v < 10 then 48 + v else 87 + v)"

definition unicode_escape :: "uchar \<Rightarrow> uchars" where
  "unicode_escape c =
    [92, 117, hex_digit (c div 4096), hex_digit (c div 256 mod 16), hex_digit (c div 16 mod 16),
     hex_digit (c mod 16)]"

text \<open>The letters of the single character escapes.\<close>

definition escape_letter :: "uchar \<Rightarrow> uchar option" where
  "escape_letter c = find (\<lambda>l. singleEscape l = c) [98, 116, 110, 118, 102, 114, 92, 39, 34]"

definition print_char :: "uchar \<Rightarrow> uchars" where
  "print_char c =
    (case escape_letter c of
       Some l \<Rightarrow> [92, l]
     | None \<Rightarrow> if isLineTerminator c then unicode_escape c else [c])"

definition print_string :: "uchar \<Rightarrow> uchars \<Rightarrow> uchars" where
  "print_string quote cs = quote # concat (map print_char cs) @ [quote]"

lemma hex_digit_ok:
  assumes "0 \<le> v" and "v < 16"
  shows "isASCIIHexDigit (hex_digit v)" and "toASCIIHexValue (hex_digit v) = v"
proof -
  show h: "isASCIIHexDigit (hex_digit v)" using assms by (auto simp: hex_digit_def isASCIIHexDigit_iff)
  show "toASCIIHexValue (hex_digit v) = v"
    using toASCIIHexValue_eq [OF h] assms by (auto simp: hex_digit_def)
qed

lemma push_or:
  fixes y :: int
  assumes "0 \<le> y" and "y < 2 ^ n"
  shows "push_bit n x OR y = 2 ^ n * x + y"
proof -
  have t: "take_bit n y = y" using assms by (simp add: take_bit_int_eq_self)
  have "push_bit n x OR take_bit n y = push_bit n x + take_bit n y"
    by (rule disjunctive_add [symmetric]) (auto simp: bit_simps)
  then show ?thesis by (simp add: t push_bit_eq_mult mult.commute)
qed

lemma convertUnicode_hex_digits:
  assumes "uchar_ok c"
  shows "convertUnicode (hex_digit (c div 4096)) (hex_digit (c div 256 mod 16))
    (hex_digit (c div 16 mod 16)) (hex_digit (c mod 16)) = c"
proof -
  have r: "0 \<le> c div 4096" "c div 4096 < 16" using assms by (auto simp: uchar_ok_def)
  let ?x = "16 * (c div 4096) + c div 256 mod 16" and ?y = "16 * (c div 16 mod 16) + c mod 16"
  have hi: "convertHex (hex_digit (c div 4096)) (hex_digit (c div 256 mod 16)) = ?x"
    and lo: "convertHex (hex_digit (c div 16 mod 16)) (hex_digit (c mod 16)) = ?y"
    using r by (simp_all add: convertHex_eq hex_digit_ok)
  have "0 \<le> ?y" by simp
  moreover have "c div 16 mod 16 < 16" "c mod 16 < 16" by simp_all
  then have "?y < 2 ^ 8" by simp
  ultimately have "push_bit 8 ?x OR ?y = 2 ^ 8 * ?x + ?y" by (rule push_or)
  moreover have "2 ^ 8 * ?x + ?y = c"
  proof -
    have nested: "c div 16 div 16 = c div 256" "c div 256 div 16 = c div 4096"
      by (simp_all add: zdiv_zmult2_eq [symmetric])
    have sum: "16 * a + x = c \<Longrightarrow> 16 * b + y = a \<Longrightarrow> 16 * d + z = b \<Longrightarrow>
        2 ^ 8 * (16 * d + z) + (16 * y + x) = c" for a b d x y z
      by simp
    show ?thesis
      by (rule sum [OF mult_div_mod_eq mult_div_mod_eq]) (metis nested mult_div_mod_eq)
  qed
  ultimately show ?thesis
    using assms by (simp only: convertUnicode_def hi lo) (simp add: to_uchar_def uchar_ok_def)
qed

lemma getUnicodeCharacter_reads:
  assumes "linv s" and "uchar_ok c" and "unread s = drop 2 (unicode_escape c) @ rest"
  shows "getUnicodeCharacter s = (c, advance 4 s)"
proof -
  have v: "0 \<le> c div 4096" "c div 4096 < 16" using assms(2) by (auto simp: uchar_ok_def)
  have p: "peek 0 s = hex_digit (c div 4096)" "peek 1 s = hex_digit (c div 256 mod 16)"
    "peek 2 s = hex_digit (c div 16 mod 16)" "peek 3 s = hex_digit (c mod 16)"
    using assms(1,3) by (simp_all add: peek_unread unicode_escape_def nth_Cons')
  have h: "\<And>x. isASCIIHexDigit (hex_digit (x mod 16))" "isASCIIHexDigit (hex_digit (c div 4096))"
    using v by (simp_all add: hex_digit_ok)
  have len: "4 \<le> length (unread s)" using assms(3) by (simp add: unicode_escape_def)
  have "m_current s = peek 0 s"
    using reading_peek(1) [OF assms(1), of 0] advance_0 [OF assms(1)] by simp
  moreover have "shift s = advance 1 s" using shift_advance [OF assms(1)] len by fastforce
  moreover have "shift (advance 1 s) = advance 2 s" "shift (advance 2 s) = advance 3 s"
    "shift (advance 3 s) = advance 4 s"
    using reading_advance(1) [OF assms(1), of 1] reading_advance(1) [OF assms(1), of 2]
      reading_advance(1) [OF assms(1), of 3] len by (simp_all add: eval_nat_numeral)
  ultimately show ?thesis
    using p h convertUnicode_hex_digits [OF assms(2)] by (simp add: getUnicodeCharacter_def Let_def)
qed

subsection \<open>Characters recorded and characters pending\<close>

text \<open>The loop records what was read up to \<open>n\<close>; the text from \<open>n\<close> on is still to be appended.\<close>

definition pending :: "nat \<Rightarrow> lexer \<Rightarrow> uchars" where
  "pending n s = take (m_code s - n) (drop n (l_data s))"

lemma pending_self [simp]: "pending (m_code s) s = []"
  by (simp add: pending_def)

lemma pending_here [simp]:
  "pending (m_code s + k) (advance k s) = []" "pending (Suc (m_code s)) (advance (Suc 0) s) = []"
  by (simp_all add: pending_def)

lemma pending_updates [simp]:
  "pending n (s\<lparr>m_buffer16 := b16\<rparr>) = pending n s" "pending n (s\<lparr>m_terminator := b\<rparr>) = pending n s"
  "pending n (s\<lparr>m_delimited := b\<rparr>) = pending n s"
  by (simp_all add: pending_def)

lemma pending_advance:
  assumes "n \<le> m_code s" and "unread s = xs @ rest"
  shows "pending n (advance (length xs) s) = pending n s @ xs"
proof -
  have k: "m_code s + length xs - n = (m_code s - n) + length xs" using assms(1) by simp
  show ?thesis
    using assms unfolding pending_def advance_sel k take_add by (simp add: unread_def)
qed

lemma appendSince_eq:
  assumes "linv s"
  shows "appendSince n s = s\<lparr>m_buffer16 := m_buffer16 s @ pending n s\<rparr>"
proof -
  have "s\<lparr>m_buffer16 := m_buffer16 s\<rparr> = s" by simp
  then show ?thesis using assms by (simp add: appendSince_def pending_def Let_def)
qed

subsection \<open>Strings\<close>

lemma escape_letter_Some:
  "escape_letter c = Some l \<Longrightarrow> singleEscape l = c \<and> c \<noteq> 0 \<and> l \<noteq> - 1 \<and> uchar_ok c"
  by (auto simp: escape_letter_def singleEscape_def uchar_ok_def split: if_split_asm)

lemma escape_letter_None:
  "escape_letter c = None \<Longrightarrow> c \<noteq> 92 \<and> c \<noteq> 39 \<and> c \<noteq> 34"
  by (auto simp: escape_letter_def singleEscape_def find_None_iff)

lemma record16_eq: "uchar_ok c \<Longrightarrow> record16 c s = s\<lparr>m_buffer16 := m_buffer16 s @ [c]\<rparr>"
  by (simp add: record16_def uchar_ok_def to_uchar_def)

text \<open>One printed character is one round of the loop, or a part of the text that is appended as it is.\<close>

lemma parseString_escape_print:
  assumes "linv s" and "uchar_ok c" and "print_char c = 92 # e" and "unread s = e @ rest"
  shows "parseString_escape q s = (True, (advance (length e) s)\<lparr>m_buffer16 := m_buffer16 s @ [c]\<rparr>)"
proof (cases "escape_letter c")
  case None
  then have "e = 117 # drop 2 (unicode_escape c)"
    using assms(3) escape_letter_None [OF None]
    by (auto simp: print_char_def unicode_escape_def split: if_split_asm)
  then have u: "unread s = 117 # drop 2 (unicode_escape c) @ rest" "length e = 5"
    using assms(4) by (simp_all add: unicode_escape_def)
  have c: "m_current s = 117" "shift s = advance 1 s"
    using unread_Cons(1) [OF assms(1) u(1)] shift_advance [OF assms(1)] u(1) by auto
  have "getUnicodeCharacter (advance 1 s) = (c, advance 4 (advance 1 s))"
    using assms(1,2) u(1) by (intro getUnicodeCharacter_reads) (simp_all add: linv_advance)
  then show ?thesis
    using c u(2) assms(2)
    by (simp add: parseString_escape_def singleEscape_def record16_eq isLineTerminator_iff uchar_ok_def
        eval_nat_numeral)
next
  case (Some l)
  then have e: "e = [l]" and l: "singleEscape l = c" "c \<noteq> 0"
    using assms(3) escape_letter_Some [OF Some] by (auto simp: print_char_def)
  have "m_current s = l" "shift s = advance 1 s"
    using unread_Cons(1) [OF assms(1)] shift_advance [OF assms(1)] assms(4) e by auto
  then show ?thesis
    using l e assms(2) by (simp add: parseString_escape_def record16_eq)
qed

lemma parseString_loop_print:
  assumes "linv s" and "n \<le> m_code s" and "unread s = concat (map print_char cs) @ q # rest"
    and "list_all uchar_ok cs" and "q = 34 \<or> q = 39"
  shows "\<exists>n' b. parseString_loop q n s =
      (True, n', (advance (length (concat (map print_char cs))) s)\<lparr>m_buffer16 := b\<rparr>) \<and>
    b @ pending n' (advance (length (concat (map print_char cs))) s) = m_buffer16 s @ pending n s @ cs"
  using assms(1-4)
proof (induction cs arbitrary: n s)
  case Nil
  then have "m_current s = q" using unread_Cons(1) by simp
  then have "parseString_loop q n s = (True, n, s)" by (subst parseString_loop.simps) simp
  then show ?case
    using Nil(1) by (intro exI [of _ n] exI [of _ "m_buffer16 s"]) (simp add: advance_0)
next
  case (Cons c cs)
  let ?p = "print_char c" and ?r = "concat (map print_char cs)"
  have c: "uchar_ok c" "list_all uchar_ok cs" using Cons.prems(4) by simp_all
  have u: "unread s = ?p @ ?r @ q # rest" using Cons.prems(3) by simp
  have v: "linv (advance (length ?p) s)" using Cons.prems(1) u by (intro linv_advance) simp_all
  show ?case
  proof (cases "?p = [c]")
    case True
    have cur: "m_current s = c" "shift s = advance 1 s"
      using unread_Cons(1) [OF Cons.prems(1)] shift_advance [OF Cons.prems(1)] u True by auto
    have no: "c \<noteq> 92" "c \<noteq> q" "\<not> isLineTerminator c" "c \<noteq> - 1"
      using True c(1) assms(5) escape_letter_None
      by (auto simp: print_char_def unicode_escape_def uchar_ok_def split: option.splits if_split_asm)
    have "parseString_loop q n s = parseString_loop q n (advance 1 s)"
      using cur no by (subst parseString_loop.simps) simp
    moreover have "pending n (advance 1 s) = pending n s @ [c]"
      using pending_advance [OF Cons.prems(2) u] True by simp
    ultimately show ?thesis
      using Cons.IH [of "advance 1 s" n] v u c(2) Cons.prems(2) True by simp
  next
    case False
    then obtain e where e: "?p = 92 # e"
      by (auto simp: print_char_def unicode_escape_def split: option.splits if_split_asm)
    let ?s = "(advance (length ?p) s)\<lparr>m_buffer16 := m_buffer16 s @ pending n s @ [c]\<rparr>"
    have cur: "m_current s = 92" "shift s = advance 1 s"
      using unread_Cons(1) [OF Cons.prems(1)] shift_advance [OF Cons.prems(1)] u e by auto
    have "linv (advance 1 s)" using Cons.prems(1) u e by (intro linv_advance) simp_all
    then have "parseString_escape q (shift (appendSince n s)) = (True, ?s)"
      using parseString_escape_print [OF _ c(1) e, of "(advance 1 s)\<lparr>m_buffer16 := m_buffer16 s @ pending n s\<rparr>"]
        u e cur by (simp add: appendSince_eq [OF Cons.prems(1)])
    then have "parseString_loop q n s = parseString_loop q (m_code ?s) ?s"
      using cur v assms(5) by (subst parseString_loop.simps) auto
    then show ?thesis
      using Cons.IH [of ?s "m_code ?s"] v u c(2) by simp
  qed
qed

lemma characterType_quote: "characterType 34 = CharacterQuote" "characterType 39 = CharacterQuote"
  by code_simp+

lemma lex_string_token:
  assumes "linv s" and "lclean s" and "unread s = print_string quote cs @ rest"
    and "quote = 34 \<or> quote = 39" and "list_all uchar_ok cs"
  shows "lex ds lexType lvalp llocp s =
    (STRING, lvalp\<lparr>identValue := cs\<rparr>,
     llocp\<lparr>tline := m_lineNumber s, startOffset := m_code s,
       endOffset := m_code s + length (print_string quote cs)\<rparr>,
     (advance (length (print_string quote cs)) s)\<lparr>m_terminator := False, m_delimited := False,
       m_atLineStart := False, m_lastToken := Some STRING\<rparr>)"
proof -
  let ?s = "s\<lparr>m_terminator := False, m_delimited := False\<rparr>"
  let ?r = "concat (map print_char cs)"
  have u: "unread s = quote # ?r @ quote # rest" using assms(3) by (simp add: print_string_def)
  have cur: "m_current s = quote" "shift ?s = advance 1 ?s"
    using unread_Cons(1) [OF assms(1) u] shift_advance [of ?s] assms(1) u by simp_all
  have v: "linv (advance 1 ?s)" using assms(1) u by (intro linv_advance) simp_all
  have "\<exists>n' b. parseString_loop quote (m_code (advance 1 ?s)) (advance 1 ?s) =
      (True, n', (advance (length ?r) (advance 1 ?s))\<lparr>m_buffer16 := b\<rparr>) \<and>
    b @ pending n' (advance (length ?r) (advance 1 ?s)) =
      m_buffer16 (advance 1 ?s) @ pending (m_code (advance 1 ?s)) (advance 1 ?s) @ cs"
    using u by (intro parseString_loop_print [OF v order_refl _ assms(5,4)]) simp
  then obtain n' b where loop: "parseString_loop quote (Suc (m_code s)) (advance 1 ?s) =
      (True, n', (advance (Suc (length ?r)) ?s)\<lparr>m_buffer16 := b\<rparr>)"
    "b @ pending n' (advance (Suc (length ?r)) ?s) = cs"
    using assms(2) by (auto simp: lclean_def)
  have v2: "linv (advance (Suc (length ?r)) ?s)" "linv (advance (Suc (Suc (length ?r))) ?s)"
    using assms(1) u by (auto intro!: linv_advance)
  have b16: "m_buffer16 (advance k ?s) = []" for k using assms(2) by (simp add: lclean_def)
  have "parseString lvalp ?s = (True, lvalp\<lparr>identValue := cs\<rparr>, advance (Suc (length ?r)) ?s)"
    using cur v loop v2 empty_buffers(1) [OF b16] by (simp add: parseString_def appendSince_eq Let_def)
  then have "lexSwitch ds lexType (characterType quote) lvalp ?s =
      (Break STRING, lvalp\<lparr>identValue := cs\<rparr>, advance (Suc (Suc (length ?r))) ?s)"
    using assms(1,4) u reading_advance(1) [of ?s "Suc (length ?r)"]
    by (auto simp: lexSwitch_def lexQuote_def characterType_quote Let_def not_delimited)
  note lexed = lex_break [OF assms(1,2) u _ this v2(2)]
  have "\<not> isWhiteSpace quote" using assms(4) by (auto simp: isWhiteSpace_def isASCII_iff)
  then show ?thesis using lexed [of llocp] by (simp add: print_string_def)
qed

text \<open>
  C13. Reading a string back: the literal that a string of UTF-16 units is printed as is one token whose
  value is the string.
\<close>

theorem lex_print_string:
  assumes "linv s" and "lclean s" and "unread s = print_string quote cs @ rest"
    and "quote = 34 \<or> quote = 39" and "list_all uchar_ok cs"
  shows "lex ds lexType lvalp llocp s =
    (STRING, lvalp\<lparr>identValue := cs\<rparr>,
     llocp\<lparr>tline := m_lineNumber s, startOffset := m_code s,
       endOffset := m_code s + length (print_string quote cs)\<rparr>,
     (advance (length (print_string quote cs)) s)\<lparr>m_terminator := False, m_delimited := False,
       m_atLineStart := False, m_lastToken := Some STRING\<rparr>)"
  by (rule lex_string_token [OF assms])

theorem lex_print_string_witness:
  "fst (snd (lex [] IdentifyReservedWords (m_data blank_token) (m_info blank_token)
     (setCode (print_string 34 [34, 8232, 65, 10]) blank_lexer))) =
   (m_data blank_token)\<lparr>identValue := [34, 8232, 65, 10]\<rparr>"
proof -
  let ?s = "setCode (print_string 34 [34, 8232, 65, 10]) blank_lexer"
  have "list_all uchar_ok (print_string 34 [34, 8232, 65, 10])" by code_simp
  then have "linv ?s" "lclean ?s"
    using setCode_ok [of _ blank_lexer] by (simp_all add: blank_lexer_def)
  moreover have "unread ?s = print_string 34 [34, 8232, 65, 10] @ []" by (simp add: unread_def setCode_def)
  ultimately show ?thesis
    using lex_print_string [of ?s 34 "[34, 8232, 65, 10]" "[]"] by (simp add: uchar_ok_def)
qed

text \<open>
  The test of a character in the fast loop lets no line terminator and no end of the source pass.
\<close>

lemma needsSpecialHandling_terminators: "isLineTerminator c \<or> c = - 1 \<Longrightarrow> needsSpecialHandling c"
  by (auto simp: isLineTerminator_iff needsSpecialHandling_def)

lemma parseString_loop_unterminated:
  assumes "linv s" and "unread s = cs @ rest" and "q \<notin> set cs" and "92 \<notin> set cs"
    and "list_all (\<lambda>c. \<not> isLineTerminator c) cs" and "rest = [] \<or> isLineTerminator (hd rest)"
    and "q = 34 \<or> q = 39"
  shows "parseString_loop q n s = (False, n, advance (length cs) s)"
  using assms(1-6)
proof (induction cs arbitrary: s)
  case Nil
  then have c: "isLineTerminator (m_current s) \<or> m_current s = - 1"
    by (auto simp: current_unread split: list.splits)
  then have "m_current s \<noteq> q" "m_current s \<noteq> 92" using assms(7) by (auto simp: isLineTerminator_iff)
  then show ?case
    using c needsSpecialHandling_terminators [OF c] Nil(1)
    by (subst parseString_loop.simps) (simp add: advance_0)
next
  case (Cons c cs)
  have c: "m_current s = c" "shift s = advance 1 s" "c \<noteq> - 1"
    using Cons.prems(2) unread_Cons(1) [OF Cons.prems(1)] shift_advance [OF Cons.prems(1)]
      unread_Cons_ok(2) [OF Cons.prems(1)] by auto
  have v: "linv (advance 1 s)" using Cons.prems(1,2) by (intro linv_advance) simp_all
  have "parseString_loop q n s = parseString_loop q n (advance 1 s)"
    using c Cons.prems(3-5) by (subst parseString_loop.simps) auto
  then show ?case using Cons.IH [OF v] Cons.prems by simp
qed

text \<open>
  C18. A string that the end of its line or of the source cuts off is a lexical error: \<open>lex\<close> returns
  \<open>ERRORTOK\<close> with the error flag set and the position in front of the line terminator, and a further
  call of \<open>lex\<close> fails its first assertion.
\<close>

theorem lex_unterminated_string:
  assumes "linv s" and "lclean s" and "unread s = q # cs @ rest" and "q = 34 \<or> q = 39"
    and "q \<notin> set cs" and "92 \<notin> set cs" and "list_all (\<lambda>c. \<not> isLineTerminator c) cs"
    and "rest = [] \<or> isLineTerminator (hd rest)"
  shows "\<exists>t. lex ds lexType lvalp llocp s = (ERRORTOK, lvalp, llocp, t) \<and> m_lexError t \<and>
    unread t = rest \<and> assertsOK t \<and>
    (\<forall>ds' lexType' lvalp' llocp'. \<not> assertsOK (snd (snd (snd (lex ds' lexType' lvalp' llocp' t)))))"
proof -
  let ?s = "s\<lparr>m_terminator := False, m_delimited := False\<rparr>"
  have cur: "m_current s = q" "shift ?s = advance 1 ?s"
    using unread_Cons(1) [OF assms(1,3)] shift_advance [of ?s] assms(1,3) by simp_all
  have v: "linv (advance 1 ?s)" using assms(1,3) by (intro linv_advance) simp_all
  have "parseString_loop q (m_code (advance 1 ?s)) (advance 1 ?s) =
      (False, m_code (advance 1 ?s), advance (length cs) (advance 1 ?s))"
    using assms(3) by (intro parseString_loop_unterminated [OF v _ assms(5-8,4)]) simp
  then have sw: "lexSwitch ds lexType (characterType q) lvalp ?s =
      (GotoReturnError, lvalp, advance (Suc (length cs)) ?s)"
    using cur v assms(4)
    by (auto simp: lexSwitch_def lexQuote_def parseString_def characterType_quote Let_def)
  let ?t = "(advance (Suc (length cs)) ?s)\<lparr>m_lexError := True\<rparr>"
  have q: "\<not> isWhiteSpace q" "q \<noteq> - 1" using assms(4) by (auto simp: isWhiteSpace_def isASCII_iff)
  have "lex ds lexType lvalp llocp s = (ERRORTOK, lvalp, llocp, ?t)"
    using sw q cur assms(1,2)
    by (simp add: lex_def lclean_def lex_start.simps [of ds lexType lvalp llocp] skipWhiteSpace_none
        lexReturnError_def)
  moreover have "linv (advance (Suc (length cs)) ?s)" using assms(1,3) by (intro linv_advance) simp_all
  then have "assertsOK ?t" by (simp add: linv_def)
  moreover have "\<not> assertsOK (snd (snd (snd (lex ds' lexType' lvalp' llocp' ?t))))" for ds' lexType' lvalp' llocp'
    by (simp add: lex_def assertL_def)
  ultimately show ?thesis using assms(3) by (intro exI [of _ ?t]) simp
qed

theorem lex_unterminated_string_witness:
  "fst (lex [] IdentifyReservedWords (m_data blank_token) (m_info blank_token) (scanner_at (''\"ab''))) = ERRORTOK"
proof -
  have "unread (scanner_at ''\"ab'') = 34 # uchars_of ''ab'' @ []"
    by (simp add: unread_scanner_at uchars_of_def)
  from lex_unterminated_string [OF scanner_at_ok this, of "[]" IdentifyReservedWords "m_data blank_token"
      "m_info blank_token"]
  show ?thesis by (auto simp: uchars_of_def isLineTerminator_iff)
qed


subsection \<open>Decimal integers\<close>

definition decimal_value :: "uchars \<Rightarrow> int" where
  "decimal_value ds = foldl (\<lambda>v d. v * 10 + (d - 48)) 0 ds"

definition digit_step :: "u32 \<Rightarrow> int \<Rightarrow> u32" where
  "digit_step v d = v * 10 + word_of_int (d - 48)"

lemma decimal_value_snoc: "decimal_value (ds @ [d]) = decimal_value ds * 10 + (d - 48)"
  by (simp add: decimal_value_def)

lemma decimal_value_bounds:
  "list_all isASCIIDigit ds \<Longrightarrow> 0 \<le> decimal_value ds \<and> decimal_value ds < 10 ^ length ds"
proof (induction ds rule: rev_induct)
  case (snoc d ds)
  then have "48 \<le> d" "d \<le> 57" by (auto simp: isASCIIDigit_def)
  then show ?case using snoc by (auto simp: decimal_value_snoc)
qed (simp add: decimal_value_def)

lemma digit_step_value: "foldl digit_step 0 ds = word_of_int (decimal_value ds)"
  by (induction ds rule: rev_induct) (simp_all add: decimal_value_def digit_step_def)

text \<open>The loop stores the digits from the end of the array, the first at \<open>m\<close>.\<close>

fun store_digits :: "int \<Rightarrow> int list \<Rightarrow> int list \<Rightarrow> int list" where
  "store_digits m [] arr = arr"
| "store_digits m (d # ds) arr = store_digits (m - 1) ds (arr[nat m := d])"

lemma store_digits_above: "m < i \<Longrightarrow> 0 < i \<Longrightarrow> store_digits m ds arr ! nat i = arr ! nat i"
  by (induction ds arbitrary: m arr) (auto simp: nth_list_update)

lemma length_store_digits [simp]: "length (store_digits m ds arr) = length arr"
  by (induction ds arbitrary: m arr) simp_all

lemma stored_digits:
  assumes "int (length ds) \<le> m + 1" and "m < int (length arr)"
  shows "map (\<lambda>i. store_digits m ds arr ! nat i) (rev [m - int (length ds) + 1..m]) = ds"
  using assms
proof (induction ds arbitrary: m arr)
  case (Cons d ds)
  have u: "rev [m - int (length (d # ds)) + 1..m] = m # rev [m - 1 - int (length ds) + 1..m - 1]"
    by (subst upto_rec2) (simp_all add: algebra_simps)
  have "store_digits (m - 1) ds (arr[nat m := d]) ! nat m = d"
  proof (cases "ds = []")
    case False
    then have "0 < m" using Cons.prems(1) by (cases ds) simp_all
    then show ?thesis using Cons.prems by (simp add: store_digits_above)
  qed (use Cons.prems in simp)
  moreover have "map (\<lambda>i. store_digits (m - 1) ds (arr[nat m := d]) ! nat i)
      (rev [m - 1 - int (length ds) + 1..m - 1]) = ds"
    using Cons.prems by (intro Cons.IH) simp_all
  ultimately show ?case unfolding u by simp
qed simp

lemma parseDecimal_loop_digits:
  assumes "linv s" and "unread s = ds @ rest" and "ds \<noteq> []" and "list_all isASCIIDigit ds"
    and "rest = [] \<or> \<not> isASCIIDigit (hd rest) \<or> int (length ds) = m + 1"
    and "int (length ds) \<le> m + 1"
  shows "parseDecimal_loop v m arr s =
    (foldl digit_step v ds, m - int (length ds), store_digits m ds arr, advance (length ds) s)"
  using assms
proof (induction ds arbitrary: v m arr s)
  case (Cons d ds)
  have d: "m_current s = d" "shift s = advance 1 s"
    using Cons.prems(2) unread_Cons(1) [OF Cons.prems(1)] shift_advance [OF Cons.prems(1)] by auto
  have v: "linv (advance 1 s)" using Cons.prems(1,2) by (intro linv_advance) simp_all
  have n: "m_current (advance 1 s) = (case ds @ rest of [] \<Rightarrow> - 1 | c # _ \<Rightarrow> c)"
    using current_unread [OF v] Cons.prems(2) by simp
  show ?case
  proof (cases ds)
    case Nil
    then have "\<not> (isASCIIDigit (m_current (advance 1 s)) \<and> 0 \<le> m - 1)"
      using n Cons.prems(5) by (auto split: list.splits)
    then show ?thesis
      using d Nil by (subst parseDecimal_loop.simps) (auto simp: Let_def digit_step_def)
  next
    case more: (Cons e ds')
    then have "isASCIIDigit (m_current (advance 1 s)) \<and> 0 \<le> m - 1"
      using n Cons.prems(4,6) by simp
    then have "parseDecimal_loop v m arr s =
        parseDecimal_loop (digit_step v d) (m - 1) (arr[nat m := d]) (advance 1 s)"
      using d by (subst parseDecimal_loop.simps) (simp add: Let_def digit_step_def)
    then show ?thesis
      using Cons.IH [of "advance 1 s" "m - 1"] Cons.prems v more by simp
  qed
qed simp

lemma record8_eq: "0 \<le> c \<Longrightarrow> c \<le> 255 \<Longrightarrow> record8 c s = s\<lparr>m_buffer8 := m_buffer8 s @ [c]\<rparr>"
  by (simp add: record8_def)

lemma fold_record8:
  "list_all (\<lambda>i. 0 \<le> f i \<and> f i \<le> 255) is \<Longrightarrow>
     fold (\<lambda>i. record8 (f i)) is s = s\<lparr>m_buffer8 := m_buffer8 s @ map f is\<rparr>"
proof (induction "is" arbitrary: s)
  case Nil
  have "s\<lparr>m_buffer8 := m_buffer8 s\<rparr> = s" by simp
  then show ?case by simp
qed (simp add: record8_eq)

lemma recordDigits_stored:
  assumes "length arr = 10" and "length ds \<le> 10" and "list_all isASCIIDigit ds"
  shows "recordDigits (store_digits 9 ds arr) (9 - int (length ds)) s = s\<lparr>m_buffer8 := m_buffer8 s @ ds\<rparr>"
proof -
  let ?f = "\<lambda>i. store_digits 9 ds arr ! nat i" and ?is = "rev [9 - int (length ds) + 1..9]"
  have m: "map ?f ?is = ds" using assms(1,2) by (intro stored_digits) simp_all
  have "list_all (\<lambda>d. 0 \<le> d \<and> d \<le> 255) (map ?f ?is)"
    unfolding m using assms(3) by (auto simp: list_all_iff isASCIIDigit_def)
  then have "list_all (\<lambda>i. 0 \<le> ?f i \<and> ?f i \<le> 255) ?is" by (simp add: list_all_iff)
  from fold_record8 [OF this, of s] show ?thesis unfolding recordDigits_def m .
qed

lemma recordDecimalDigits_reads:
  assumes "linv s" and "unread s = ds @ rest" and "list_all isASCIIDigit ds"
    and "rest = [] \<or> \<not> isASCIIDigit (hd rest)"
  shows "recordDecimalDigits s = (advance (length ds) s)\<lparr>m_buffer8 := m_buffer8 s @ ds\<rparr>"
  using assms
proof (induction ds arbitrary: s)
  case Nil
  have "s\<lparr>m_buffer8 := m_buffer8 s\<rparr> = s" by simp
  moreover have "\<not> isASCIIDigit (m_current s)" using Nil by (auto simp: current_unread split: list.splits)
  ultimately show ?case using Nil(1) by (subst recordDecimalDigits.simps) (simp add: advance_0)
next
  case (Cons d ds)
  have d: "m_current s = d" "shift s = advance 1 s"
    using Cons.prems(2) unread_Cons(1) [OF Cons.prems(1)] shift_advance [OF Cons.prems(1)] by auto
  have r: "0 \<le> d" "d \<le> 255" using Cons.prems(3) by (simp_all add: isASCIIDigit_def)
  have v: "linv (advance 1 s)" using Cons.prems(1,2) by (intro linv_advance) simp_all
  have "recordDecimalDigits s = recordDecimalDigits ((advance 1 s)\<lparr>m_buffer8 := m_buffer8 s @ [d]\<rparr>)"
    using d r Cons.prems(3) by (subst recordDecimalDigits.simps) (simp add: record8_eq)
  then show ?case
    using Cons.IH [of "(advance 1 s)\<lparr>m_buffer8 := m_buffer8 s @ [d]\<rparr>"] Cons.prems v by simp
qed

text \<open>What \<open>parseDecimal\<close> makes of a whole number that no point and no exponent follows.\<close>

lemma or_32_e:
  assumes "c OR 0x20 = (101 :: int)" and "0 \<le> c"
  shows "isIdentPart c"
proof -
  have "c \<le> c OR 0x20" by (simp add: or_greater_eq)
  then have "c \<le> 101" using assms(1) by simp
  moreover have "list_all (\<lambda>c. c OR 0x20 = 101 \<longrightarrow> isIdentPart c) (map int [0..<128])" by code_simp
  ultimately show ?thesis using isASCII_cases [where P = "\<lambda>c. c OR 0x20 = 101 \<longrightarrow> isIdentPart c"] assms by simp
qed

lemma parseDecimal_integer:
  assumes "linv s" and "m_buffer8 s = []" and "length arr = 10" and "unread s = ds @ rest" and "ds \<noteq> []"
    and "list_all isASCIIDigit ds" and "rest = [] \<or> (\<not> isIdentPart (hd rest) \<and> hd rest \<noteq> 46)"
  shows "parseDecimal arr s =
    (if length ds \<le> 9 then (Some (DUInt (word_of_int (decimal_value ds))), advance (length ds) s)
     else (None, (advance (length ds) s)\<lparr>m_buffer8 := ds\<rparr>))"
proof (cases "length ds \<le> 9")
  case True
  have nd: "rest = [] \<or> \<not> isASCIIDigit (hd rest)"
    using assms(7) by (auto simp: isIdentPart_iff isASCIIDigit_def)
  have loop: "parseDecimal_loop 0 9 arr s =
      (foldl digit_step 0 ds, 9 - int (length ds), store_digits 9 ds arr, advance (length ds) s)"
    using True nd by (intro parseDecimal_loop_digits [OF assms(1,4-6)]) auto
  have v: "linv (advance (length ds) s)" using assms(1,4) by (intro linv_advance) simp_all
  have "m_current (advance (length ds) s) = (case rest of [] \<Rightarrow> - 1 | c # _ \<Rightarrow> c)"
    using current_unread [OF v] assms(4) by simp
  moreover have "uchar_ok (hd rest)" if "rest \<noteq> []"
    using unread_uchar [OF assms(1)] assms(4) that by (cases rest) simp_all
  ultimately have "m_current (advance (length ds) s) \<noteq> 46"
    "m_current (advance (length ds) s) OR 0x20 \<noteq> 101"
    using assms(7) or_32_e [of "hd rest"] by (auto simp: uchar_ok_def split: list.splits)
  then show ?thesis
    using True loop assms(2) by (simp add: parseDecimal_def digit_step_value)
next
  case False
  let ?xs = "take 10 ds" and ?ys = "drop 10 ds"
  have nd: "rest = [] \<or> \<not> isASCIIDigit (hd rest)"
    using assms(7) by (auto simp: isIdentPart_iff isASCIIDigit_def)
  have digits: "list_all isASCIIDigit ?xs" "list_all isASCIIDigit ?ys"
    using assms(6) by (auto simp: list_all_iff dest: in_set_takeD in_set_dropD)
  have xs: "length ?xs = 10" "unread s = ?xs @ ?ys @ rest"
    using False assms(4) by simp_all
  have loop: "parseDecimal_loop 0 9 arr s =
      (foldl digit_step 0 ?xs, - 1, store_digits 9 ?xs arr, advance 10 s)"
    using parseDecimal_loop_digits [OF assms(1) xs(2) _ digits(1), of 9 0 arr] xs(1) False by fastforce
  have v: "linv (advance 10 s)" using assms(1,4) False by (intro linv_advance) simp_all
  have r: "recordDigits (store_digits 9 ?xs arr) (- 1) (advance 10 s) = (advance 10 s)\<lparr>m_buffer8 := ?xs\<rparr>"
    using recordDigits_stored [OF assms(3) _ digits(1), of "advance 10 s"] xs(1) assms(2) by simp
  have "recordDecimalDigits ((advance 10 s)\<lparr>m_buffer8 := ?xs\<rparr>) = (advance (length ds) s)\<lparr>m_buffer8 := ds\<rparr>"
    using recordDecimalDigits_reads [OF _ _ digits(2) nd, of "(advance 10 s)\<lparr>m_buffer8 := ?xs\<rparr>"]
      v xs False by (simp add: assms(4))
  then show ?thesis using False loop r assms(2) by (simp add: parseDecimal_def)
qed

lemma not_identStart_after:
  assumes "linv s" and "unread s = rest" and "rest = [] \<or> \<not> isIdentPart (hd rest)"
  shows "\<not> isIdentStart (m_current s)"
  using assms by (auto simp: current_unread isIdentStart_iff split: list.splits)

lemma digit_type:
  assumes "isASCIIDigit c" and "c \<noteq> 48"
  shows "characterType c = CharacterNumber" and "\<not> isWhiteSpace c"
proof -
  have "list_all (\<lambda>c. isASCIIDigit c \<and> c \<noteq> 48 \<longrightarrow> characterType c = CharacterNumber \<and> \<not> isWhiteSpace c)
      (map int [0..<128])"
    by code_simp
  from isASCII_cases [OF this, of c] assms show "characterType c = CharacterNumber" "\<not> isWhiteSpace c"
    by (auto simp: isASCIIDigit_def)
qed

text \<open>
  C15. A decimal integer is one number token. Up to nine digits its value is computed in 32 bits, without
  overflow, and is the value of the digits; with more digits its digits are given to \<open>strtod\<close>, all
  of them and in order.
\<close>

theorem lex_decimal_integer:
  assumes "linv s" and "lclean s" and "length arr = 10" and "unread s = ds @ rest" and "ds \<noteq> []"
    and "list_all isASCIIDigit ds" and "hd ds \<noteq> 48"
    and "rest = [] \<or> (\<not> isIdentPart (hd rest) \<and> hd rest \<noteq> 46)"
  shows "\<exists>w. (length ds \<le> 9 \<longrightarrow> uint w = decimal_value ds) \<and>
    lex arr lexType lvalp llocp s =
    (NUMBER, lvalp\<lparr>doubleValue := if length ds \<le> 9 then DUInt w else DStrtod (ds @ [0])\<rparr>,
     llocp\<lparr>tline := m_lineNumber s, startOffset := m_code s, endOffset := m_code s + length ds\<rparr>,
     (advance (length ds) s)\<lparr>m_terminator := False, m_delimited := False, m_atLineStart := False,
       m_lastToken := Some NUMBER\<rparr>)"
proof -
  let ?s = "s\<lparr>m_terminator := False, m_delimited := False\<rparr>"
  let ?w = "word_of_int (decimal_value ds) :: u32"
  obtain c cs where c: "ds = c # cs" using assms(5) by (cases ds) auto
  have u: "unread s = c # cs @ rest" using assms(4) c by simp
  have v: "linv (advance (length ds) ?s)" using assms(1,4) by (intro linv_advance) simp_all
  have b8: "m_buffer8 s = []" using assms(2) by (simp add: lclean_def)
  have keep: "(advance (length ds) ?s)\<lparr>m_buffer8 := [], m_delimited := False\<rparr> = advance (length ds) ?s"
    using empty_buffers(2) [of "advance (length ds) ?s"] not_delimited [of "advance (length ds) ?s"] b8 by simp
  have dec: "parseDecimal arr ?s =
    (if length ds \<le> 9 then (Some (DUInt ?w), advance (length ds) ?s)
     else (None, (advance (length ds) ?s)\<lparr>m_buffer8 := ds\<rparr>))"
    using assms b8 by (intro parseDecimal_integer) simp_all
  have ns: "\<not> isIdentStart (m_current (advance (length ds) ?s))"
    using not_identStart_after [OF v] assms(4,8) by auto
  have "m_current (advance (length ds) ?s) = (case rest of [] \<Rightarrow> - 1 | c # _ \<Rightarrow> c)"
    using current_unread [OF v] assms(4) by simp
  moreover have "uchar_ok (hd rest)" if "rest \<noteq> []"
    using unread_uchar [OF assms(1)] assms(4) that by (cases rest) simp_all
  ultimately have nd: "m_current (advance (length ds) ?s) \<noteq> 46"
    "m_current (advance (length ds) ?s) OR 0x20 \<noteq> 101"
    using assms(8) or_32_e [of "hd rest"] by (auto simp: uchar_ok_def split: list.splits)
  have "lexSwitch arr lexType (characterType c) lvalp ?s =
    (Break NUMBER, lvalp\<lparr>doubleValue := if length ds \<le> 9 then DUInt ?w else DStrtod (ds @ [0])\<rparr>,
     advance (length ds) ?s)"
    using dec ns nd keep digit_type(1) [of c] assms(6,7) c b8
    by (cases "length ds \<le> 9")
      (auto simp: lexSwitch_def lexNumber_def lexNumberEnd_def lexExponent_def Let_def)
  note lexed = lex_break [OF assms(1,2) u _ this v, of llocp]
  have "uint ?w = decimal_value ds" if "length ds \<le> 9"
  proof -
    have "(10 :: int) ^ length ds \<le> 10 ^ 9" using that by (intro power_increasing) simp_all
    then have "decimal_value ds < 2 ^ 32" "0 \<le> decimal_value ds"
      using decimal_value_bounds [OF assms(6)] by simp_all
    then show ?thesis by (simp add: uint_word_of_int)
  qed
  then show ?thesis
    using lexed digit_type(2) [of c] assms(6,7) c by (intro exI [of _ ?w]) simp
qed

theorem lex_decimal_integer_witness:
  "fst (snd (lex (replicate 10 0) IdentifyReservedWords (m_data blank_token) (m_info blank_token)
     (scanner_at ''12345678901;''))) =
   (m_data blank_token)\<lparr>doubleValue := DStrtod (uchars_of ''12345678901'' @ [0])\<rparr>"
proof -
  have "list_all isASCIIDigit (uchars_of ''12345678901'')" "\<not> isIdentPart 59" by code_simp+
  then show ?thesis
    using lex_decimal_integer [of "scanner_at ''12345678901;''" "replicate 10 0" "uchars_of ''12345678901''"
        "uchars_of '';''" IdentifyReservedWords "m_data blank_token" "m_info blank_token"]
    by (auto simp: scanner_at_ok unread_scanner_at uchars_of_def)
qed


subsection \<open>Hexadecimal integers\<close>

definition hex_value :: "uchars \<Rightarrow> int" where
  "hex_value ds = foldl (\<lambda>v d. v * 16 + toASCIIHexValue d) 0 ds"

text \<open>The digits as they are written back: letters in lower case.\<close>

definition lower_hex :: "uchar \<Rightarrow> uchar" where
  "lower_hex d = hex_digit (toASCIIHexValue d)"

lemma foldl_hex:
  "foldl (\<lambda>v d. v * 16 + toASCIIHexValue d) a ds = a * 16 ^ length ds + hex_value ds"
proof (induction ds arbitrary: a)
  case (Cons d ds)
  have "hex_value (d # ds) = toASCIIHexValue d * 16 ^ length ds + hex_value ds"
    using Cons [of "toASCIIHexValue d"] by (simp add: hex_value_def)
  then show ?case using Cons [of "a * 16 + toASCIIHexValue d"] by (simp add: algebra_simps)
qed (simp add: hex_value_def)

lemma hex_value_Cons:
  "hex_value (d # ds) = toASCIIHexValue d * 16 ^ length ds + hex_value ds"
  using foldl_hex [of "toASCIIHexValue d" ds] by (simp add: hex_value_def)

lemma hex_value_bounds:
  "list_all isASCIIHexDigit ds \<Longrightarrow> 0 \<le> hex_value ds \<and> hex_value ds < 16 ^ length ds"
proof (induction ds)
  case (Cons d ds)
  then have d: "0 \<le> toASCIIHexValue d" "toASCIIHexValue d \<le> 15"
    using toASCIIHexValue_range [of d] by simp_all
  have "toASCIIHexValue d * 16 ^ length ds \<le> 15 * 16 ^ length ds"
    by (rule mult_right_mono [OF d(2)]) simp
  moreover have "0 \<le> toASCIIHexValue d * 16 ^ length ds" using d(1) by simp
  moreover have "0 \<le> hex_value ds" "hex_value ds < 16 ^ length ds" using Cons by simp_all
  ultimately show ?case unfolding hex_value_Cons length_Cons power_Suc by linarith
qed (simp add: hex_value_def)

lemma uint_small: "0 \<le> x \<Longrightarrow> x < 2 ^ 32 \<Longrightarrow> uint (word_of_int x :: u32) = x"
  by (simp add: uint_word_of_int)

lemma hex_step_value:
  "foldl (\<lambda>v d. push_bit 4 v + word_of_int (toASCIIHexValue d)) 0 ds = (word_of_int (hex_value ds) :: u32)"
  by (induction ds rule: rev_induct) (simp_all add: hex_value_def push_bit_eq_mult)

lemma parseHex_loop_digits:
  assumes "linv s" and "unread s = ds @ rest" and "ds \<noteq> []" and "list_all isASCIIHexDigit ds"
    and "rest = [] \<or> \<not> isASCIIHexDigit (hd rest) \<or> int (length ds) = m + 1"
    and "int (length ds) \<le> m + 1"
  shows "parseHex_loop v m s =
    (foldl (\<lambda>v d. push_bit 4 v + word_of_int (toASCIIHexValue d)) v ds, m - int (length ds), advance (length ds) s)"
  using assms
proof (induction ds arbitrary: v m s)
  case (Cons d ds)
  have d: "m_current s = d" "shift s = advance 1 s"
    using Cons.prems(2) unread_Cons(1) [OF Cons.prems(1)] shift_advance [OF Cons.prems(1)] by auto
  have v: "linv (advance 1 s)" using Cons.prems(1,2) by (intro linv_advance) simp_all
  have n: "m_current (advance 1 s) = (case ds @ rest of [] \<Rightarrow> - 1 | c # _ \<Rightarrow> c)"
    using current_unread [OF v] Cons.prems(2) by simp
  show ?case
  proof (cases ds)
    case Nil
    then have "\<not> (isASCIIHexDigit (m_current (advance 1 s)) \<and> 0 \<le> m - 1)"
      using n Cons.prems(5) by (auto split: list.splits)
    then show ?thesis
      using d Nil Cons.prems(4) by (subst parseHex_loop.simps) (auto simp: Let_def)
  next
    case more: (Cons e ds')
    then have "isASCIIHexDigit (m_current (advance 1 s)) \<and> 0 \<le> m - 1"
      using n Cons.prems(4,6) by simp
    then have "parseHex_loop v m s =
        parseHex_loop (push_bit 4 v + word_of_int (toASCIIHexValue d)) (m - 1) (advance 1 s)"
      using d Cons.prems(4) by (subst parseHex_loop.simps) (simp add: Let_def)
    then show ?thesis
      using Cons.IH [of "advance 1 s" "m - 1"] Cons.prems v more by simp
  qed
qed simp

text \<open>The top four bits of the accumulator are the first of the digits that are left.\<close>

lemma uint_top: "uint (drop_bit 28 (h :: u32)) = uint h div 2 ^ 28"
  by (simp add: drop_bit_eq_div uint_div)

lemma write_back_digit:
  assumes "0 \<le> d" and "d < 16" and "0 \<le> r" and "r < 2 ^ 28"
  shows "uint (drop_bit 28 (word_of_int (d * 2 ^ 28 + r) :: u32)) = d"
    and "push_bit 4 (word_of_int (d * 2 ^ 28 + r) :: u32) = word_of_int (16 * r)"
proof -
  let ?w = "word_of_int (d * 2 ^ 28 + r) :: u32"
  have "d * 2 ^ 28 + r < 2 ^ 32" using assms by simp
  then have u: "uint ?w = d * 2 ^ 28 + r" using assms by (intro uint_small) simp_all
  have "uint (drop_bit 28 ?w) = uint ?w div 2 ^ 28" by (rule uint_top)
  also have "\<dots> = d" unfolding u using assms by simp
  finally show "uint (drop_bit 28 ?w) = d" .
  have zero_32: "(4294967296 :: u32) = 0" by simp
  have "push_bit 4 ?w = word_of_int (d * 2 ^ 32 + 16 * r)" by (simp add: push_bit_eq_mult algebra_simps)
  also have "\<dots> = (word_of_int (16 * r) :: u32)"
    by (simp add: zero_32)
  finally show "push_bit 4 ?w = word_of_int (16 * r)" .
qed

lemma parseHex_writeBack_digits:
  assumes "list_all isASCIIHexDigit ds" and "length ds \<le> 8"
  shows "parseHex_writeBack (length ds) (word_of_int (hex_value ds * 16 ^ (8 - length ds))) s =
    s\<lparr>m_buffer8 := m_buffer8 s @ map lower_hex ds\<rparr>"
  using assms
proof (induction ds arbitrary: s)
  case Nil
  have "s\<lparr>m_buffer8 := m_buffer8 s\<rparr> = s" by simp
  then show ?case by simp
next
  case (Cons d ds)
  let ?d = "toASCIIHexValue d" and ?r = "hex_value ds * 16 ^ (7 - length ds)"
  have d: "0 \<le> ?d" "?d < 16" using toASCIIHexValue_range [of d] Cons.prems(1) by simp_all
  have p: "(16 :: int) ^ length ds * 16 ^ (7 - length ds) = 2 ^ 28"
    using Cons.prems(2) by (simp add: power_add [symmetric])
  have b: "0 \<le> hex_value ds" "hex_value ds < 16 ^ length ds"
    using hex_value_bounds [of ds] Cons.prems(1) by simp_all
  have "?r < 16 ^ length ds * 16 ^ (7 - length ds)"
    using b by (intro mult_strict_right_mono) simp_all
  then have r: "0 \<le> ?r" "?r < 2 ^ 28" using b(1) unfolding p by simp_all
  have v: "hex_value (d # ds) * 16 ^ (8 - length (d # ds)) = ?d * 2 ^ 28 + ?r"
    unfolding hex_value_Cons p [symmetric] by (simp add: algebra_simps)
  have s16: "16 * ?r = hex_value ds * 16 ^ (8 - length ds)"
  proof -
    have "8 - length ds = Suc (7 - length ds)" using Cons.prems(2) by simp
    then show ?thesis by simp
  qed
  have rec: "(if ?d < 10 then record8 (?d + 48) s else record8 (?d - 10 + 97) s) =
      s\<lparr>m_buffer8 := m_buffer8 s @ [lower_hex d]\<rparr>"
    using d by (auto simp: record8_eq lower_hex_def hex_digit_def)
  define w :: u32 where "w = word_of_int (?d * 2 ^ 28 + ?r)"
  have w: "uint (drop_bit 28 w) = ?d" "push_bit 4 w = word_of_int (hex_value ds * 16 ^ (8 - length ds))"
    unfolding w_def using write_back_digit [OF d r] s16 by simp_all
  have "parseHex_writeBack (length (d # ds)) w s =
      parseHex_writeBack (length ds) (word_of_int (hex_value ds * 16 ^ (8 - length ds)))
        (s\<lparr>m_buffer8 := m_buffer8 s @ [lower_hex d]\<rparr>)"
    using rec by (simp only: length_Cons parseHex_writeBack.simps w Let_def)
  also have "\<dots> = s\<lparr>m_buffer8 := m_buffer8 s @ map lower_hex (d # ds)\<rparr>"
    using Cons.IH [of "s\<lparr>m_buffer8 := m_buffer8 s @ [lower_hex d]\<rparr>"] Cons.prems by simp
  finally show ?case unfolding v w_def .
qed

lemma recordHexDigits_reads:
  assumes "linv s" and "unread s = ds @ rest" and "list_all isASCIIHexDigit ds"
    and "rest = [] \<or> \<not> isASCIIHexDigit (hd rest)"
  shows "recordHexDigits s = (advance (length ds) s)\<lparr>m_buffer8 := m_buffer8 s @ ds\<rparr>"
  using assms
proof (induction ds arbitrary: s)
  case Nil
  have "s\<lparr>m_buffer8 := m_buffer8 s\<rparr> = s" by simp
  moreover have "\<not> isASCIIHexDigit (m_current s)" using Nil by (auto simp: current_unread split: list.splits)
  ultimately show ?case using Nil(1) by (subst recordHexDigits.simps) (simp add: advance_0)
next
  case (Cons d ds)
  have d: "m_current s = d" "shift s = advance 1 s"
    using Cons.prems(2) unread_Cons(1) [OF Cons.prems(1)] shift_advance [OF Cons.prems(1)] by auto
  have r: "0 \<le> d" "d \<le> 255" using Cons.prems(3) by (auto simp: isASCIIHexDigit_iff)
  have v: "linv (advance 1 s)" using Cons.prems(1,2) by (intro linv_advance) simp_all
  have "recordHexDigits s = recordHexDigits ((advance 1 s)\<lparr>m_buffer8 := m_buffer8 s @ [d]\<rparr>)"
    using d r Cons.prems(3) by (subst recordHexDigits.simps) (simp add: record8_eq)
  then show ?case
    using Cons.IH [of "(advance 1 s)\<lparr>m_buffer8 := m_buffer8 s @ [d]\<rparr>"] Cons.prems v by simp
qed

lemma parseHex_integer:
  assumes "linv s" and "m_buffer8 s = []" and "unread s = x # ds @ rest" and "ds \<noteq> []"
    and "list_all isASCIIHexDigit ds" and "rest = [] \<or> \<not> isASCIIHexDigit (hd rest)"
  shows "parseHex s =
    (if length ds \<le> 7 then (DUInt (word_of_int (hex_value ds)), advance (Suc (length ds)) s)
     else let b = map lower_hex (take 8 ds) @ drop 8 ds
          in (DParseInt b 16, (advance (Suc (length ds)) s)\<lparr>m_buffer8 := b\<rparr>))"
proof -
  have sh: "shift s = advance 1 s" using shift_advance [OF assms(1)] assms(3) by simp
  have v: "linv (advance 1 s)" using assms(1,3) by (intro linv_advance) simp_all
  show ?thesis
  proof (cases "length ds \<le> 7")
    case True
    have "parseHex_loop 0 7 (advance 1 s) =
        (word_of_int (hex_value ds), 7 - int (length ds), advance (length ds) (advance 1 s))"
      using parseHex_loop_digits [OF v, of ds rest 7 0] assms True by (simp add: hex_step_value)
    then show ?thesis using True sh by (simp add: parseHex_def)
  next
    case False
    let ?xs = "take 8 ds" and ?ys = "drop 8 ds"
    have digits: "list_all isASCIIHexDigit ?xs" "list_all isASCIIHexDigit ?ys"
      using assms(5) by (auto simp: list_all_iff dest: in_set_takeD in_set_dropD)
    have xs: "length ?xs = 8" "unread (advance 1 s) = ?xs @ ?ys @ rest" "?xs \<noteq> []"
      using False assms(3) by auto
    have loop: "parseHex_loop 0 7 (advance 1 s) =
        (word_of_int (hex_value ?xs), - 1, advance 8 (advance 1 s))"
      using parseHex_loop_digits [OF v xs(2,3) digits(1), of 7 0] xs(1) by (simp add: hex_step_value)
    have wb: "parseHex_writeBack 8 (word_of_int (hex_value ?xs)) t =
        t\<lparr>m_buffer8 := m_buffer8 t @ map lower_hex ?xs\<rparr>" for t
      using parseHex_writeBack_digits [OF digits(1), of t] xs(1) by simp
    have "linv (advance 9 s)" using assms(1,3) False by (intro linv_advance) simp_all
    then have v8: "linv (advance 8 (advance 1 s))" by simp
    let ?b = "map lower_hex ?xs"
    have "recordHexDigits ((advance 8 (advance 1 s))\<lparr>m_buffer8 := ?b\<rparr>) =
        (advance (length ?ys) (advance 8 (advance 1 s)))\<lparr>m_buffer8 := ?b @ ?ys\<rparr>"
      using recordHexDigits_reads [OF _ _ digits(2) assms(6), of "(advance 8 (advance 1 s))\<lparr>m_buffer8 := ?b\<rparr>"]
        v8 xs False by (simp add: assms(3))
    moreover have "9 + length ?ys = Suc (length ds)" using False by simp
    ultimately show ?thesis
      using False loop wb sh assms(2) by (simp add: parseHex_def Let_def)
  qed
qed

text \<open>
  C14. A hexadecimal integer is one number token. Up to seven digits its value is computed in 32 bits,
  without overflow, and is the value of the digits; with more digits the digits are written back
  out of the accumulator and given to \<open>parseIntOverflow\<close>, all of them and in order, the first
  eight in lower case.
\<close>

theorem lex_hex_integer:
  assumes "linv s" and "lclean s" and "unread s = 48 # x # ds @ rest" and "x = 120 \<or> x = 88" and "ds \<noteq> []"
    and "list_all isASCIIHexDigit ds" and "rest = [] \<or> \<not> isIdentPart (hd rest)"
  shows "\<exists>w. (length ds \<le> 7 \<longrightarrow> uint w = hex_value ds) \<and>
    lex arr lexType lvalp llocp s =
    (NUMBER, lvalp\<lparr>doubleValue := if length ds \<le> 7 then DUInt w
       else DParseInt (map lower_hex (take 8 ds) @ drop 8 ds) 16\<rparr>,
     llocp\<lparr>tline := m_lineNumber s, startOffset := m_code s, endOffset := m_code s + 2 + length ds\<rparr>,
     (advance (2 + length ds) s)\<lparr>m_terminator := False, m_delimited := False, m_atLineStart := False,
       m_lastToken := Some NUMBER\<rparr>)"
proof -
  let ?s = "s\<lparr>m_terminator := False, m_delimited := False\<rparr>" and ?t = "advance (2 + length ds)"
  let ?w = "word_of_int (hex_value ds) :: u32"
  have v: "linv (advance 1 ?s)" "linv (?t ?s)" using assms(1,3) by (auto intro!: linv_advance)
  have b8: "m_buffer8 s = []" using assms(2) by (simp add: lclean_def)
  have keep: "(?t ?s)\<lparr>m_buffer8 := [], m_delimited := False\<rparr> = ?t ?s"
    using empty_buffers(2) [of "?t ?s"] not_delimited [of "?t ?s"] b8 by simp
  have nd: "rest = [] \<or> \<not> isASCIIHexDigit (hd rest)"
    using assms(7) by (auto simp: isIdentPart_iff isASCIIHexDigit_iff)
  have sh: "shift ?s = advance 1 ?s" using shift_advance [of ?s] assms(1,3) by simp
  have cur: "m_current (advance 1 ?s) = x" "isASCIIHexDigit (peek 1 (advance 1 ?s))"
    using unread_Cons(1) [OF v(1), of x] peek_unread [OF v(1), of 1] assms(3,5,6)
    by (auto simp: nth_append neq_Nil_conv)
  have x: "x OR 0x20 = 120" using assms(4) by auto
  have ph: "parseHex (advance 1 ?s) =
    (if length ds \<le> 7 then (DUInt ?w, ?t ?s)
     else let b = map lower_hex (take 8 ds) @ drop 8 ds in (DParseInt b 16, (?t ?s)\<lparr>m_buffer8 := b\<rparr>))"
    using parseHex_integer [OF v(1) _ _ assms(5,6) nd, of x] assms(3) b8 by simp
  have ns: "\<not> isIdentStart (m_current (?t ?s))"
    using not_identStart_after [OF v(2)] assms(3,7) by auto
  have z: "characterType 48 = CharacterZero" "\<not> isWhiteSpace 48" by code_simp+
  have "lexSwitch arr lexType (characterType 48) lvalp ?s =
    (Break NUMBER, lvalp\<lparr>doubleValue := if length ds \<le> 7 then DUInt ?w
       else DParseInt (map lower_hex (take 8 ds) @ drop 8 ds) 16\<rparr>, ?t ?s)"
    using sh cur x ph ns keep z by (simp add: lexSwitch_def lexZero_def lexNumberEnd_def Let_def)
  note lexed = lex_break [OF assms(1-3) z(2) this v(2), of llocp]
  have "uint ?w = hex_value ds" if "length ds \<le> 7"
  proof -
    have "(16 :: int) ^ length ds \<le> 16 ^ 7" using that by (intro power_increasing) simp_all
    then show ?thesis using hex_value_bounds [OF assms(6)] by (intro uint_small) simp_all
  qed
  then show ?thesis using lexed by (intro exI [of _ ?w]) simp
qed

theorem lex_hex_integer_witness:
  "\<exists>w. uint w = 255 \<and> fst (snd (lex [] IdentifyReservedWords (m_data blank_token) (m_info blank_token)
     (scanner_at ''0xfF''))) = (m_data blank_token)\<lparr>doubleValue := DUInt w\<rparr>"
proof -
  have "list_all isASCIIHexDigit (uchars_of ''fF'')" "hex_value (uchars_of ''fF'') = 255" by code_simp+
  then show ?thesis
    using lex_hex_integer [of "scanner_at ''0xfF''" 120 "uchars_of ''fF''" "[]" "[]" IdentifyReservedWords
        "m_data blank_token" "m_info blank_token"]
    by (auto simp: scanner_at_ok unread_scanner_at uchars_of_def)
qed


end
