(* ===== verification/SyntaxTree.thy ===== *)
theory SyntaxTree
  imports Token
begin

text \<open>
  The tree the parser builds: \<open>parser/SyntaxTree.h\<close>. A node is a value, a child is a pointer that may
  be null, hence a \<open>Node option\<close>. The builder's \<open>append\<close> through a pointer becomes a functional
  update: the parser never keeps a second pointer to a node it still extends, except the tail
  pointers of its lists, which are discussed at the functions that use them.

  The position arguments of the builder's functions are stored in no node (\<open>start\<close> and \<open>end\<close> keep
  the 0 of the constructors and have no accessor), so the functions here do not take them; the
  positions in the entries of the builder's stacks are kept.
\<close>

subsection \<open>Enumerations\<close>

datatype (plugins only: code) NodeType =
    ArgumentsListType | ArgumentsType | ArrayType | AssignmentExpressionType | AssignType
  | BinaryExpressionType | BlockStatementType | BooleanExpressionType | BracketAccessType
  | BreakStatementType | CommaType | ConditionalExpressionType | ConstDeclarationType
  | ConstStatementType | ContinueStatementType | ClauseType | ClauseListType | DebuggerType
  | DeclarationType | DoWhileStatementType | DotAccessType | ElementListType | EmptyStatementType
  | ExpressionStatementType | ExpressionType | ForInLoopType | ForLoopType
  | FormalParameterListType | FunctionBodyType | FunctionCallType | FunctionDeclStatementType
  | FunctionExpressionType | IdentifierExpressionType | IfStatementType | LabelStatementType
  | NewExpressionType | NullType | NumberExpressionType | ObjectLiteralType | PostfixType
  | PrefixType | PropertyType | PropertyListType | RegexType | ResolveType | ReturnStatementType
  | SourceElementsType | StatementType | StringExpressionType | SwitchStatementType | ThisType
  | ThrowStatementType | TryStatementType | UnaryExpressionType | VariableDeclarationType
  | VoidType | WhileStatementType | WithStatementType

datatype (plugins only: code) OperatorType =
    NoOperator | TypeofOperator | DeleteOperator | LogicalNotOperator | LogicalOrOperator
  | LogicalAndOperator | BitwiseNotOperator | BitwiseOrOperator | BitwiseXorOperator
  | BitwiseAndOperator | EqualOperator | NotEqualOperator | StringEqualOperator
  | StringNotEqualOperator | LessThanOperator | GreaterThanOperator | LessThanOrEqualOperator
  | GreaterThanOrEqualOperator | InstanceofOperator | IntokenOperator | LeftShiftOperator
  | RightShiftOperator | ZeroFillRightShiftOperator | AddOperator | SubtractOperator
  | MultiplyOperator | DivideOperator | ModulusOperator | PlusPlusOperator | MinusMinusOperator
  | AssignEqual | AssignAdd | AssignSubtract | AssignMultiply | AssignDivide | AssignModulus
  | AssignLeftShift | AssignRightShift | AssignZeroFillRightShift | AssignAnd | AssignXor | AssignOr

text \<open>\<open>PropertyNode::Type\<close> (\<open>parser/Parser.h\<close>), with its values 1, 2 and 4.\<close>

datatype PropertyNodeType = Constant | Getter | Setter

fun propertyTypeValue :: "PropertyNodeType \<Rightarrow> int" where
  "propertyTypeValue Constant = 1"
| "propertyTypeValue Getter = 2"
| "propertyTypeValue Setter = 4"

text \<open>The two overloads of \<open>convertOperator\<close>; \<open>None\<close> is the \<open>CRASH()\<close> of the default case.\<close>

fun convertOperator :: "Operator \<Rightarrow> OperatorType" where
  "convertOperator OpEqual = AssignEqual"
| "convertOperator OpPlusEq = AssignAdd"
| "convertOperator OpMinusEq = AssignSubtract"
| "convertOperator OpMultEq = AssignMultiply"
| "convertOperator OpDivEq = AssignDivide"
| "convertOperator OpPlusPlus = PlusPlusOperator"
| "convertOperator OpMinusMinus = MinusMinusOperator"
| "convertOperator OpAndEq = AssignAnd"
| "convertOperator OpXOrEq = AssignXor"
| "convertOperator OpOrEq = AssignOr"
| "convertOperator OpModEq = AssignModulus"
| "convertOperator OpLShift = AssignLeftShift"
| "convertOperator OpRShift = AssignRightShift"
| "convertOperator OpURShift = AssignZeroFillRightShift"

definition convertOperator_token :: "JSTokenType \<Rightarrow> OperatorType option" where
  "convertOperator_token tokenType =
    (case tokenType of
       OROR \<Rightarrow> Some LogicalOrOperator
     | ANDAND \<Rightarrow> Some LogicalAndOperator
     | BITOR \<Rightarrow> Some BitwiseOrOperator
     | BITXOR \<Rightarrow> Some BitwiseXorOperator
     | BITAND \<Rightarrow> Some BitwiseAndOperator
     | EQEQ \<Rightarrow> Some EqualOperator
     | NE \<Rightarrow> Some NotEqualOperator
     | STREQ \<Rightarrow> Some StringEqualOperator
     | STRNEQ \<Rightarrow> Some StringNotEqualOperator
     | LT \<Rightarrow> Some LessThanOperator
     | GT \<Rightarrow> Some GreaterThanOperator
     | LE \<Rightarrow> Some LessThanOrEqualOperator
     | GE \<Rightarrow> Some GreaterThanOrEqualOperator
     | INSTANCEOF \<Rightarrow> Some InstanceofOperator
     | INTOKEN \<Rightarrow> Some IntokenOperator
     | LSHIFT \<Rightarrow> Some LeftShiftOperator
     | RSHIFT \<Rightarrow> Some RightShiftOperator
     | URSHIFT \<Rightarrow> Some ZeroFillRightShiftOperator
     | PLUS \<Rightarrow> Some AddOperator
     | MINUS \<Rightarrow> Some SubtractOperator
     | TIMES \<Rightarrow> Some MultiplyOperator
     | DIVIDE \<Rightarrow> Some DivideOperator
     | MOD \<Rightarrow> Some ModulusOperator
     | PLUSPLUS \<Rightarrow> Some AddOperator
     | MINUSMINUS \<Rightarrow> Some SubtractOperator
     | EQUAL \<Rightarrow> Some AssignEqual
     | PLUSEQUAL \<Rightarrow> Some AssignAdd
     | MINUSEQUAL \<Rightarrow> Some AssignSubtract
     | MULTEQUAL \<Rightarrow> Some AssignMultiply
     | DIVEQUAL \<Rightarrow> Some AssignDivide
     | LSHIFTEQUAL \<Rightarrow> Some AssignLeftShift
     | RSHIFTEQUAL \<Rightarrow> Some AssignRightShift
     | URSHIFTEQUAL \<Rightarrow> Some AssignZeroFillRightShift
     | ANDEQUAL \<Rightarrow> Some AssignAnd
     | XOREQUAL \<Rightarrow> Some AssignXor
     | OREQUAL \<Rightarrow> Some AssignOr
     | MODEQUAL \<Rightarrow> Some AssignModulus
     | _ \<Rightarrow> None)"

subsection \<open>Nodes\<close>

text \<open>
  The constructors that take an \<open>Identifier\<close> or a child do not initialise \<open>m_operator\<close>: it is
  \<open>None\<close> then. \<open>m_identifier\<close> and \<open>m_string\<close> of a node without one are null strings, which every
  use treats as empty.
\<close>

datatype Node =
  Node (m_ntype: NodeType) (m_operator: "OperatorType option") (m_boolean: bool) (m_number: dbl)
    (m_string: uchars) (m_identifier: uchars) (m_propertyType: PropertyNodeType)
    (m_children: "Node option list")

definition Node_type :: "NodeType \<Rightarrow> Node" where
  "Node_type type = Node type (Some NoOperator) False (DUInt 0) [] [] Constant []"

definition Node_bool :: "bool \<Rightarrow> Node" where
  "Node_bool b = Node BooleanExpressionType (Some NoOperator) b (DUInt 0) [] [] Constant []"

definition Node_number :: "dbl \<Rightarrow> Node" where
  "Node_number d = Node NumberExpressionType (Some NoOperator) False d [] [] Constant []"

definition Node_string :: "uchars \<Rightarrow> Node" where
  "Node_string str = Node StringExpressionType (Some NoOperator) False (DUInt 0) str [] Constant []"

definition Node_op :: "NodeType \<Rightarrow> OperatorType \<Rightarrow> Node" where
  "Node_op type op = Node type (Some op) False (DUInt 0) [] [] Constant []"

definition Node_id :: "NodeType \<Rightarrow> uchars \<Rightarrow> Node" where
  "Node_id type ident = Node type None False (DUInt 0) [] ident Constant []"

definition Node_pattern :: "NodeType \<Rightarrow> uchars \<Rightarrow> uchars \<Rightarrow> Node" where
  "Node_pattern type pattern flags = Node type None False (DUInt 0) flags pattern Constant []"

definition Node_child :: "NodeType \<Rightarrow> Node option \<Rightarrow> Node" where
  "Node_child type expr = Node type None False (DUInt 0) [] [] Constant [expr]"

fun append_child :: "Node \<Rightarrow> Node option \<Rightarrow> Node" where
  "append_child (Node t op b d s i p cs) c = Node t op b d s i p (cs @ [c])"

fun setPropertyType :: "PropertyNodeType \<Rightarrow> Node \<Rightarrow> Node" where
  "setPropertyType p' (Node t op b d s i p cs) = Node t op b d s i p' cs"

lemmas node_ctors = Node_type_def Node_bool_def Node_number_def Node_string_def Node_op_def
  Node_id_def Node_pattern_def Node_child_def

subsection \<open>Creating nodes\<close>

text \<open>\<open>combineCommaNodes\<close> is only called with a list that is not null.\<close>

definition combineCommaNodes :: "Node \<Rightarrow> Node \<Rightarrow> Node" where
  "combineCommaNodes list init =
    (if m_ntype list = CommaType then append_child list (Some init)
     else append_child (append_child (Node_type CommaType) (Some list)) (Some init))"

definition createArguments :: "Node option \<Rightarrow> Node" where
  "createArguments argumentsList =
    (case argumentsList of
       None \<Rightarrow> Node_type ArgumentsType
     | Some l \<Rightarrow> Node_child ArgumentsType (Some l))"

definition createArgumentsList :: "Node \<Rightarrow> Node" where
  "createArgumentsList expression = Node_child ArgumentsListType (Some expression)"

text \<open>
  The two-argument \<open>createArgumentsList\<close>, \<open>createElementList\<close>, \<open>createPropertyList\<close> and
  \<open>createClauseList\<close> append to their tail and return it: head and tail stay the same node.
\<close>

definition createArgumentsList2 :: "Node \<Rightarrow> Node \<Rightarrow> Node" where
  "createArgumentsList2 tail expression = append_child tail (Some expression)"

definition createArray :: "Node option \<Rightarrow> Node" where
  "createArray elements =
    (case elements of
       None \<Rightarrow> Node_type ArrayType
     | Some l \<Rightarrow> append_child (Node_type ArrayType) (Some l))"

definition createAssignResolve :: "uchars \<Rightarrow> Node \<Rightarrow> Node" where
  "createAssignResolve ident rhs =
    append_child (append_child (Node_op AssignmentExpressionType AssignEqual)
      (Some (Node_id IdentifierExpressionType ident))) (Some rhs)"

definition createBlockStatement :: "Node option \<Rightarrow> Node" where
  "createBlockStatement elements = Node_child BlockStatementType elements"

definition createBoolean :: "bool \<Rightarrow> Node" where
  "createBoolean b = Node_bool b"

definition createBracketAccess :: "Node \<Rightarrow> Node \<Rightarrow> Node" where
  "createBracketAccess base property =
    append_child (append_child (Node_type BracketAccessType) (Some base)) (Some property)"

definition createBreakStatement :: "uchars option \<Rightarrow> Node" where
  "createBreakStatement ident =
    (case ident of None \<Rightarrow> Node_type BreakStatementType | Some i \<Rightarrow> Node_id BreakStatementType i)"

definition createClause :: "Node option \<Rightarrow> Node \<Rightarrow> Node" where
  "createClause expr elements = append_child (Node_child ClauseType expr) (Some elements)"

definition createClauseList :: "Node \<Rightarrow> Node" where
  "createClauseList clause = Node_child ClauseListType (Some clause)"

definition createClauseList2 :: "Node \<Rightarrow> Node \<Rightarrow> Node" where
  "createClauseList2 tail clause = append_child tail (Some clause)"

definition createCommaExpr :: "Node \<Rightarrow> Node \<Rightarrow> Node" where
  "createCommaExpr lhs rhs =
    append_child (append_child (Node_type CommaType) (Some lhs)) (Some rhs)"

definition appendToComma :: "Node \<Rightarrow> Node \<Rightarrow> Node" where
  "appendToComma comma expr = append_child comma (Some expr)"

definition appendStatement :: "Node \<Rightarrow> Node \<Rightarrow> Node" where
  "appendStatement sourceElements statement = append_child sourceElements (Some statement)"

text \<open>The middle operand may be null: the parser does not check it.\<close>

definition createConditionalExpr :: "Node \<Rightarrow> Node option \<Rightarrow> Node \<Rightarrow> Node" where
  "createConditionalExpr condition lhs rhs =
    append_child (append_child (append_child (Node_type ConditionalExpressionType)
      (Some condition)) lhs) (Some rhs)"

definition createConstStatement :: "Node option \<Rightarrow> Node" where
  "createConstStatement decls = Node_child ConstStatementType decls"

text \<open>
  \<open>appendConstDecl\<close> writes through \<open>tail\<close>, also when it is null: \<open>None\<close> then.
\<close>

definition appendConstDecl :: "Node option \<Rightarrow> uchars \<Rightarrow> Node option \<Rightarrow> Node option" where
  "appendConstDecl tail name initializer =
    (let node = append_child (Node_id ConstDeclarationType name) initializer
     in case tail of None \<Rightarrow> None | Some t \<Rightarrow> Some (append_child t (Some node)))"

definition createContinueStatement :: "uchars option \<Rightarrow> Node" where
  "createContinueStatement ident =
    (case ident of
       None \<Rightarrow> Node_type ContinueStatementType
     | Some i \<Rightarrow> Node_id ContinueStatementType i)"

definition createDebugger :: Node where
  "createDebugger = Node_type DebuggerType"

definition createDotAccess :: "Node \<Rightarrow> uchars \<Rightarrow> Node" where
  "createDotAccess base property = append_child (Node_id DotAccessType property) (Some base)"

definition createDoWhileStatement :: "Node \<Rightarrow> Node \<Rightarrow> Node" where
  "createDoWhileStatement statement expr =
    append_child (append_child (Node_type DoWhileStatementType) (Some statement)) (Some expr)"

definition createElementList :: "Node \<Rightarrow> Node" where
  "createElementList expression = Node_child ElementListType (Some expression)"

definition createElementList2 :: "Node \<Rightarrow> Node \<Rightarrow> Node" where
  "createElementList2 tail expression = append_child tail (Some expression)"

definition createEmptyStatement :: Node where
  "createEmptyStatement = Node_type EmptyStatementType"

definition createExprStatement :: "Node \<Rightarrow> Node" where
  "createExprStatement expr = append_child (Node_type ExpressionStatementType) (Some expr)"

definition createForLoop :: "Node option \<Rightarrow> Node option \<Rightarrow> Node option \<Rightarrow> Node \<Rightarrow> Node" where
  "createForLoop initializer condition iter statements =
    append_child (append_child (append_child (append_child (Node_type ForLoopType)
      initializer) condition) iter) (Some statements)"

definition createForInLoop_var :: "uchars \<Rightarrow> Node option \<Rightarrow> Node \<Rightarrow> Node \<Rightarrow> Node" where
  "createForInLoop_var ident initializer iter statements =
    append_child (append_child (append_child (Node_id ForInLoopType ident)
      initializer) (Some iter)) (Some statements)"

definition createForInLoop :: "Node \<Rightarrow> Node \<Rightarrow> Node \<Rightarrow> Node" where
  "createForInLoop lhs iter statements =
    append_child (append_child (append_child (Node_type ForInLoopType)
      (Some lhs)) (Some iter)) (Some statements)"

definition createFormalParameterList :: "uchars \<Rightarrow> Node" where
  "createFormalParameterList identifier = Node_id FormalParameterListType identifier"

text \<open>
  The two-argument \<open>createFormalParameterList\<close> appends the new node to the tail and returns it as
  the new tail: the parameters form a chain. Over the head of the chain it appends at the node
  without children.
\<close>

fun createFormalParameterList2 :: "Node \<Rightarrow> uchars \<Rightarrow> Node" where
  "createFormalParameterList2 (Node t op b d s i p (Some c # cs)) identifier =
    Node t op b d s i p (Some (createFormalParameterList2 c identifier) # cs)"
| "createFormalParameterList2 list identifier =
    append_child list (Some (Node_id FormalParameterListType identifier))"

definition createFuncDeclStatement :: "uchars \<Rightarrow> Node \<Rightarrow> Node option \<Rightarrow> Node" where
  "createFuncDeclStatement name body parameters =
    append_child (append_child (Node_id FunctionDeclStatementType name) parameters) (Some body)"

definition createFunctionBody :: "Node option \<Rightarrow> Node" where
  "createFunctionBody elements = Node_child FunctionBodyType elements"

definition createFunctionExpr :: "uchars \<Rightarrow> Node \<Rightarrow> Node option \<Rightarrow> Node" where
  "createFunctionExpr name body parameters =
    append_child (append_child (Node_id FunctionExpressionType name) parameters) (Some body)"

definition createIfStatement :: "Node \<Rightarrow> Node \<Rightarrow> Node" where
  "createIfStatement condition trueBlock =
    append_child (Node_child IfStatementType (Some condition)) (Some trueBlock)"

definition createIfElseStatement :: "Node \<Rightarrow> Node \<Rightarrow> Node \<Rightarrow> Node" where
  "createIfElseStatement condition trueBlock falseBlock =
    append_child (append_child (Node_child IfStatementType (Some condition))
      (Some trueBlock)) (Some falseBlock)"

definition createLabelStatement :: "uchars \<Rightarrow> Node \<Rightarrow> Node" where
  "createLabelStatement ident statement =
    append_child (Node_id LabelStatementType ident) (Some statement)"

definition createLogicalNot :: "Node \<Rightarrow> Node" where
  "createLogicalNot expr = append_child (Node_op UnaryExpressionType LogicalNotOperator) (Some expr)"

definition createObjectLiteral :: "Node option \<Rightarrow> Node" where
  "createObjectLiteral properties =
    (case properties of
       None \<Rightarrow> Node_type ObjectLiteralType
     | Some l \<Rightarrow> append_child (Node_type ObjectLiteralType) (Some l))"

definition createNewExpr_args :: "Node \<Rightarrow> Node \<Rightarrow> Node" where
  "createNewExpr_args expr arguments =
    append_child (Node_child NewExpressionType (Some expr)) (Some arguments)"

definition createNewExpr :: "Node \<Rightarrow> Node" where
  "createNewExpr expr = Node_child ExpressionType (Some expr)"

definition createNull :: Node where
  "createNull = Node_type NullType"

definition createNumberExpr :: "dbl \<Rightarrow> Node" where
  "createNumberExpr d = Node_number d"

text \<open>The overload for a number takes the identifier that \<open>makeNumericIdentifier\<close> has made.\<close>

definition createProperty :: "uchars \<Rightarrow> Node \<Rightarrow> PropertyNodeType \<Rightarrow> Node" where
  "createProperty name expr type =
    append_child (setPropertyType type (Node_id PropertyType name)) (Some expr)"

definition createPropertyList :: "Node \<Rightarrow> Node" where
  "createPropertyList property = Node_child PropertyListType (Some property)"

definition createPropertyList2 :: "Node \<Rightarrow> Node \<Rightarrow> Node" where
  "createPropertyList2 property tail = append_child tail (Some property)"

definition createRegex :: "uchars \<Rightarrow> uchars \<Rightarrow> Node" where
  "createRegex pattern flags = Node_pattern RegexType pattern flags"

definition createResolve :: "uchars \<Rightarrow> Node" where
  "createResolve ident = Node_id ResolveType ident"

definition createReturnStatement :: "Node option \<Rightarrow> Node" where
  "createReturnStatement expression = Node_child ReturnStatementType expression"

definition createSourceElements :: Node where
  "createSourceElements = Node_type SourceElementsType"

definition createString :: "uchars \<Rightarrow> Node" where
  "createString str = Node_string str"

definition createSwitchStatement ::
  "Node \<Rightarrow> Node option \<Rightarrow> Node option \<Rightarrow> Node option \<Rightarrow> Node" where
  "createSwitchStatement expr firstClauses defaultClause secondClauses =
    append_child (append_child (append_child (Node_child SwitchStatementType (Some expr))
      firstClauses) defaultClause) secondClauses"

definition createThrowStatement :: "Node \<Rightarrow> Node" where
  "createThrowStatement expr = Node_child ThrowStatementType (Some expr)"

definition createTryStatement :: "Node \<Rightarrow> uchars \<Rightarrow> Node option \<Rightarrow> Node option \<Rightarrow> Node" where
  "createTryStatement tryBlock ident catchBlock finallyBlock =
    append_child (append_child (append_child (Node_id TryStatementType ident)
      (Some tryBlock)) catchBlock) finallyBlock"

definition createUnaryPlus :: "Node \<Rightarrow> Node" where
  "createUnaryPlus expr = append_child (Node_op UnaryExpressionType AddOperator) (Some expr)"

definition createVarStatement :: "Node option \<Rightarrow> Node" where
  "createVarStatement expr = Node_child VariableDeclarationType expr"

definition createWhileStatement :: "Node \<Rightarrow> Node \<Rightarrow> Node" where
  "createWhileStatement expr statement =
    append_child (Node_child WhileStatementType (Some expr)) (Some statement)"

definition createWithStatement :: "Node \<Rightarrow> Node \<Rightarrow> Node" where
  "createWithStatement expr statement =
    append_child (Node_child WithStatementType (Some expr)) (Some statement)"

definition createVarIdentifier :: "uchars \<Rightarrow> Node" where
  "createVarIdentifier ident = Node_id IdentifierExpressionType ident"

text \<open>\<open>createVoid\<close> drops its operand.\<close>

definition createVoid :: "Node \<Rightarrow> Node" where
  "createVoid expr = Node_type VoidType"

definition thisExpr :: Node where
  "thisExpr = Node_type ThisType"

definition makeBitwiseNotNode :: "Node \<Rightarrow> Node" where
  "makeBitwiseNotNode expr = append_child (Node_op UnaryExpressionType BitwiseNotOperator) (Some expr)"

definition makeDeleteNode :: "Node \<Rightarrow> Node" where
  "makeDeleteNode expr = append_child (Node_op UnaryExpressionType DeleteOperator) (Some expr)"

definition makeFunctionCallNode :: "Node \<Rightarrow> Node \<Rightarrow> Node" where
  "makeFunctionCallNode func args =
    append_child (append_child (Node_type FunctionCallType) (Some func)) (Some args)"

definition makeNegateNode :: "Node \<Rightarrow> Node" where
  "makeNegateNode expr = append_child (Node_op UnaryExpressionType SubtractOperator) (Some expr)"

definition makePostfixNode :: "Node \<Rightarrow> Operator \<Rightarrow> Node" where
  "makePostfixNode expr op = append_child (Node_op PostfixType (convertOperator op)) (Some expr)"

definition makePrefixNode :: "Node \<Rightarrow> Operator \<Rightarrow> Node" where
  "makePrefixNode expr op = append_child (Node_op PrefixType (convertOperator op)) (Some expr)"

definition makeTypeOfNode :: "Node \<Rightarrow> Node" where
  "makeTypeOfNode expr = append_child (Node_op UnaryExpressionType TypeofOperator) (Some expr)"

subsection \<open>The stacks of the builder\<close>

record BinaryOpInfo =
  bi_start :: nat
  bi_divot :: nat
  bi_end :: nat
  bi_hasAssignment :: bool

definition BinaryOpInfo_merge :: "BinaryOpInfo \<Rightarrow> BinaryOpInfo \<Rightarrow> BinaryOpInfo" where
  "BinaryOpInfo_merge lhs rhs =
    \<lparr>bi_start = bi_start lhs, bi_divot = bi_start rhs, bi_end = bi_end rhs,
     bi_hasAssignment = bi_hasAssignment lhs \<or> bi_hasAssignment rhs\<rparr>"

type_synonym BinaryOperand = "Node \<times> BinaryOpInfo"

record AssignmentInfo =
  ai_node :: Node
  ai_start :: nat
  ai_divot :: nat
  ai_initAssignments :: int
  ai_op :: Operator

text \<open>
  The vectors of \<open>Builder\<close>, their last element at the head. The functions that read the last
  element of an empty vector fail its assertion: \<open>None\<close> then.
\<close>

record builder =
  m_assignmentInfoStack :: "AssignmentInfo list"
  m_binaryOperandStack :: "BinaryOperand list"
  m_binaryOperatorStack :: "(JSTokenType \<times> int) list"
  m_unaryTokenStack :: "(JSTokenType \<times> nat) list"

definition Builder :: builder where
  "Builder = \<lparr>m_assignmentInfoStack = [], m_binaryOperandStack = [], m_binaryOperatorStack = [],
     m_unaryTokenStack = []\<rparr>"

definition makeBinaryNode :: "JSTokenType \<Rightarrow> BinaryOperand \<Rightarrow> BinaryOperand \<Rightarrow> Node option" where
  "makeBinaryNode token lhs rhs =
    (case convertOperator_token token of
       None \<Rightarrow> None
     | Some op \<Rightarrow> Some (append_child (append_child (Node_op BinaryExpressionType op)
         (Some (fst lhs))) (Some (fst rhs))))"

definition appendBinaryExpressionInfo ::
  "int \<Rightarrow> Node \<Rightarrow> nat \<Rightarrow> nat \<Rightarrow> nat \<Rightarrow> bool \<Rightarrow> builder \<Rightarrow> int \<times> builder" where
  "appendBinaryExpressionInfo operandStackDepth current exprStart lhs rhs hasAssignments b =
    (operandStackDepth + 1,
     b\<lparr>m_binaryOperandStack :=
       (current, \<lparr>bi_start = exprStart, bi_divot = lhs, bi_end = rhs,
                  bi_hasAssignment = hasAssignments\<rparr>) # m_binaryOperandStack b\<rparr>)"

definition appendBinaryOperation ::
  "int \<Rightarrow> BinaryOperand \<Rightarrow> BinaryOperand \<Rightarrow> builder \<Rightarrow> (int \<times> builder) option" where
  "appendBinaryOperation operandStackDepth lhs rhs b =
    (case m_binaryOperatorStack b of
       [] \<Rightarrow> None
     | (token, _) # _ \<Rightarrow>
         (case makeBinaryNode token lhs rhs of
            None \<Rightarrow> None
          | Some node \<Rightarrow>
              Some (operandStackDepth + 1,
                    b\<lparr>m_binaryOperandStack :=
                        (node, BinaryOpInfo_merge (snd lhs) (snd rhs)) # m_binaryOperandStack b\<rparr>)))"

definition appendUnaryToken :: "nat \<Rightarrow> JSTokenType \<Rightarrow> nat \<Rightarrow> builder \<Rightarrow> nat \<times> builder" where
  "appendUnaryToken tokenStackDepth type start b =
    (tokenStackDepth + 1, b\<lparr>m_unaryTokenStack := (type, start) # m_unaryTokenStack b\<rparr>)"

definition assignmentStackAppend ::
  "nat \<Rightarrow> Node \<Rightarrow> nat \<Rightarrow> nat \<Rightarrow> int \<Rightarrow> Operator \<Rightarrow> builder \<Rightarrow> nat \<times> builder" where
  "assignmentStackAppend assignmentStackDepth node start divot assignmentCount op b =
    (assignmentStackDepth + 1,
     b\<lparr>m_assignmentInfoStack :=
       \<lparr>ai_node = node, ai_start = start, ai_divot = divot, ai_initAssignments = assignmentCount,
        ai_op = op\<rparr> # m_assignmentInfoStack b\<rparr>)"

definition createAssignment :: "Node \<Rightarrow> builder \<Rightarrow> (Node \<times> builder) option" where
  "createAssignment rhs b =
    (case m_assignmentInfoStack b of
       [] \<Rightarrow> None
     | info # rest \<Rightarrow>
         Some (append_child (append_child
                 (Node_op AssignmentExpressionType (convertOperator (ai_op info)))
                 (Some (ai_node info))) (Some rhs),
               b\<lparr>m_assignmentInfoStack := rest\<rparr>))"

text \<open>\<open>getFromOperandStack(-1)\<close> is the last element, \<open>getFromOperandStack(-2)\<close> the one before.\<close>

definition getFromOperandStack :: "nat \<Rightarrow> builder \<Rightarrow> BinaryOperand option" where
  "getFromOperandStack i b =
    (if 1 \<le> i \<and> i \<le> length (m_binaryOperandStack b) then Some (m_binaryOperandStack b ! (i - 1))
     else None)"

definition operatorStackHasHigherPrecedence :: "int \<Rightarrow> builder \<Rightarrow> bool option" where
  "operatorStackHasHigherPrecedence precedence b =
    (case m_binaryOperatorStack b of [] \<Rightarrow> None | (_, prec) # _ \<Rightarrow> Some (precedence \<le> prec))"

definition operatorStackAppend :: "nat \<Rightarrow> JSTokenType \<Rightarrow> int \<Rightarrow> builder \<Rightarrow> nat \<times> builder" where
  "operatorStackAppend operatorStackDepth op precedence b =
    (operatorStackDepth + 1,
     b\<lparr>m_binaryOperatorStack := (op, precedence) # m_binaryOperatorStack b\<rparr>)"

definition operatorStackPop :: "builder \<Rightarrow> builder option" where
  "operatorStackPop b =
    (case m_binaryOperatorStack b of
       [] \<Rightarrow> None
     | _ # rest \<Rightarrow> Some (b\<lparr>m_binaryOperatorStack := rest\<rparr>))"

definition popOperandStack :: "builder \<Rightarrow> (Node \<times> builder) option" where
  "popOperandStack b =
    (case m_binaryOperandStack b of
       [] \<Rightarrow> None
     | (result, _) # rest \<Rightarrow> Some (result, b\<lparr>m_binaryOperandStack := rest\<rparr>))"

definition shrinkOperandStackBy :: "int \<Rightarrow> nat \<Rightarrow> builder \<Rightarrow> (int \<times> builder) option" where
  "shrinkOperandStackBy operandStackDepth amount b =
    (let operandStackDepth = operandStackDepth - int amount
     in if operandStackDepth \<ge> 0 \<and> amount \<le> length (m_binaryOperandStack b)
        then Some (operandStackDepth,
                   b\<lparr>m_binaryOperandStack := drop amount (m_binaryOperandStack b)\<rparr>)
        else None)"

definition unaryTokenStackLast :: "builder \<Rightarrow> (JSTokenType \<times> nat) option" where
  "unaryTokenStackLast b = (case m_unaryTokenStack b of [] \<Rightarrow> None | e # _ \<Rightarrow> Some e)"

definition unaryTokenStackRemoveLast :: "builder \<Rightarrow> builder option" where
  "unaryTokenStackRemoveLast b =
    (case m_unaryTokenStack b of
       [] \<Rightarrow> None
     | _ # rest \<Rightarrow> Some (b\<lparr>m_unaryTokenStack := rest\<rparr>))"

end
