(* ===== verification/Reflect.thy ===== *)
theory Reflect
  imports SyntaxTree
begin

text \<open>
  \<open>modules/reflect/reflect.cpp\<close>: the conversion of the syntax tree into JavaScript values and the
  function \<open>Reflect.parse\<close>. The V8 values it builds are a datatype; an object is the list of its
  properties in the order they were first set. \<open>None\<close> is the end of the process: the \<open>CRASH()\<close>
  of \<open>operatorAsText\<close>, a child index outside the vector of children, or a member call on a null
  child.
\<close>

subsection \<open>JavaScript values\<close>

text \<open>
  \<open>JInteger d\<close> is \<open>Integer::New(d)\<close>: the double \<open>d\<close> converted to a 32-bit integer.
\<close>

datatype jsval =
    JUndefined
  | JNull
  | JBool bool
  | JInteger dbl
  | JString uchars
  | JArray "jsval list"
  | JObject "(string \<times> jsval) list"

definition jtext :: "string \<Rightarrow> jsval option" where
  "jtext cs = Some (JString (uchars_of cs))"

text \<open>\<open>Object::New()\<close> followed by \<open>Set\<close> calls with different names.\<close>

definition jobject :: "(string \<times> jsval option) list \<Rightarrow> jsval option" where
  "jobject props =
    map_option JObject (those (map (\<lambda>(name, v). map_option (Pair name) v) props))"

fun js_get :: "jsval \<Rightarrow> string \<Rightarrow> jsval option" where
  "js_get (JObject props) name = map_of props name"
| "js_get _ name = None"

subsection \<open>Operators\<close>

definition operatorAsText :: "OperatorType \<Rightarrow> string option" where
  "operatorAsText op =
    (case op of
       TypeofOperator \<Rightarrow> Some ''typeof''
     | DeleteOperator \<Rightarrow> Some ''delete''
     | LogicalNotOperator \<Rightarrow> Some ''!''
     | LogicalOrOperator \<Rightarrow> Some ''||''
     | LogicalAndOperator \<Rightarrow> Some ''&&''
     | BitwiseNotOperator \<Rightarrow> Some ''!''
     | BitwiseOrOperator \<Rightarrow> Some ''|''
     | BitwiseXorOperator \<Rightarrow> Some ''^''
     | BitwiseAndOperator \<Rightarrow> Some ''&''
     | EqualOperator \<Rightarrow> Some ''==''
     | NotEqualOperator \<Rightarrow> Some ''!=''
     | StringEqualOperator \<Rightarrow> Some ''===''
     | StringNotEqualOperator \<Rightarrow> Some ''!==''
     | LessThanOperator \<Rightarrow> Some ''<''
     | GreaterThanOperator \<Rightarrow> Some ''>''
     | LessThanOrEqualOperator \<Rightarrow> Some ''>=''
     | GreaterThanOrEqualOperator \<Rightarrow> Some ''<=''
     | InstanceofOperator \<Rightarrow> Some ''instance of''
     | IntokenOperator \<Rightarrow> Some ''in''
     | LeftShiftOperator \<Rightarrow> Some ''<<''
     | RightShiftOperator \<Rightarrow> Some ''>>''
     | ZeroFillRightShiftOperator \<Rightarrow> Some ''>>>''
     | AddOperator \<Rightarrow> Some ''+''
     | SubtractOperator \<Rightarrow> Some ''-''
     | MultiplyOperator \<Rightarrow> Some ''*''
     | DivideOperator \<Rightarrow> Some ''/''
     | ModulusOperator \<Rightarrow> Some ''%''
     | PlusPlusOperator \<Rightarrow> Some ''++''
     | MinusMinusOperator \<Rightarrow> Some ''--''
     | AssignEqual \<Rightarrow> Some ''=''
     | AssignAdd \<Rightarrow> Some ''+=''
     | AssignSubtract \<Rightarrow> Some ''-=''
     | AssignMultiply \<Rightarrow> Some ''*=''
     | AssignDivide \<Rightarrow> Some ''/=''
     | AssignModulus \<Rightarrow> Some ''%=''
     | AssignLeftShift \<Rightarrow> Some ''>>=''
     | AssignRightShift \<Rightarrow> Some ''<<=''
     | AssignZeroFillRightShift \<Rightarrow> Some ''>>>=''
     | AssignAnd \<Rightarrow> Some ''&=''
     | AssignXor \<Rightarrow> Some ''^=''
     | AssignOr \<Rightarrow> Some ''|=''
     | NoOperator \<Rightarrow> None)"

text \<open>\<open>String::New(operatorAsText(n->op()))\<close>; an operator that was never set has no text.\<close>

definition jop :: "Node \<Rightarrow> jsval option" where
  "jop n = Option.bind (m_operator n) (\<lambda>op. Option.bind (operatorAsText op) jtext)"

subsection \<open>Children\<close>

definition childAt :: "Node \<Rightarrow> nat \<Rightarrow> Node option option" where
  "childAt n i = (if i < length (m_children n) then Some (m_children n ! i) else None)"

text \<open>
  \<open>convertChildren\<close> and \<open>convertChild\<close>, over the function they call for each child. A child
  outside the vector is null for \<open>convertChild\<close>, which checks its index.
\<close>

definition convertChildren :: "(Node option \<Rightarrow> int \<Rightarrow> jsval option) \<Rightarrow> Node \<Rightarrow> int \<Rightarrow> jsval option" where
  "convertChildren convert n indent =
    map_option JArray (those (map (\<lambda>c. convert c (indent + 1)) (m_children n)))"

definition convertChild :: "(Node option \<Rightarrow> int \<Rightarrow> jsval option) \<Rightarrow> Node \<Rightarrow> nat \<Rightarrow> int \<Rightarrow> jsval option" where
  "convertChild convert n index indent =
    (if index < length (m_children n) then convert (m_children n ! index) indent else Some JNull)"

lemma convertChildren_cong [fundef_cong]:
  assumes "n = n'" and "indent = indent'"
    and "\<And>c. c \<in> set (m_children n') \<Longrightarrow> convert c (indent' + 1) = convert' c (indent' + 1)"
  shows "convertChildren convert n indent = convertChildren convert' n' indent'"
  using assms by (auto simp: convertChildren_def cong: map_cong)

lemma convertChild_cong [fundef_cong]:
  assumes "n = n'" and "index = index'" and "indent = indent'"
    and "index' < length (m_children n') \<Longrightarrow>
      convert (m_children n' ! index') indent' = convert' (m_children n' ! index') indent'"
  shows "convertChild convert n index indent = convertChild convert' n' index' indent'"
  using assms by (simp add: convertChild_def)

text \<open>The measure of \<open>convertNode\<close>; a null pointer is 0.\<close>

definition node_size :: "Node option \<Rightarrow> nat" where
  "node_size p = (case p of None \<Rightarrow> 0 | Some n \<Rightarrow> size n)"

lemma node_size_child: "c \<in> set (m_children n) \<Longrightarrow> node_size c < size n"
proof (cases n)
  case (Node t op b d s i p cs)
  assume "c \<in> set (m_children n)"
  then have "c \<in> set cs" using Node by simp
  then have "size_option size c \<le> size_list (size_option size) cs"
    by (induction cs) auto
  then show ?thesis using Node by (cases c) (auto simp: node_size_def)
qed

lemma node_size_nth [simp]: "i < length (m_children n) \<Longrightarrow> node_size (m_children n ! i) < size n"
  by (simp add: node_size_child)

lemma node_size_Some [simp]: "node_size (Some n) = size n" "node_size None = 0"
  by (simp_all add: node_size_def)

lemma childAt_size: "childAt n i = Some (Some c) \<Longrightarrow> size c < size n"
  by (metis childAt_def node_size_Some(1) node_size_nth option.inject option.distinct(1))

text \<open>The chain of formal parameters: the loop in the case \<open>FormalParameterListType\<close>.\<close>

definition jidentifier :: "uchars \<Rightarrow> jsval" where
  "jidentifier ident = JObject [(''type'', JString (uchars_of ''Identifier'')), (''name'', JString ident)]"

function convertParameters :: "Node \<Rightarrow> jsval list option" where
  "convertParameters pnode =
    (if m_ntype pnode = FormalParameterListType then
       case m_children pnode of
         [] \<Rightarrow> Some [jidentifier (m_identifier pnode)]
       | None # _ \<Rightarrow> None
       | Some c # _ \<Rightarrow> map_option (Cons (jidentifier (m_identifier pnode))) (convertParameters c)
     else Some [])"
  by pat_completeness auto
termination
proof (relation "measure size", goal_cases)
  case 1
  then show ?case by simp
next
  case (2 n ms m c)
  then have "Some c \<in> set (m_children n)" by simp
  then show ?case using node_size_child by fastforce
qed

declare convertParameters.simps [simp del]

text \<open>\<open>identifier().ustring().isEmpty() ? Null() : convertUString(\<dots>)\<close>\<close>

definition jlabel :: "Node \<Rightarrow> jsval option" where
  "jlabel n = Some (if m_identifier n = [] then JNull else JString (m_identifier n))"

text \<open>\<open>childCount() && childAt(0)\<close>: the first child, unless there is none or it is null.\<close>

definition firstChild :: "Node \<Rightarrow> Node option" where
  "firstChild n = (case m_children n of [] \<Rightarrow> None | c # _ \<Rightarrow> c)"

lemma firstChild_size: "firstChild n = Some c \<Longrightarrow> size c < size n"
  by (auto simp: firstChild_def split: list.splits intro: childAt_size [of n 0] simp: childAt_def)

lemma childAt_firstChild_Some: "firstChild n = Some c \<Longrightarrow> childAt n 0 = Some (Some c)"
  by (auto simp: firstChild_def childAt_def split: list.splits)

text \<open>\<open>JSC::SyntaxTree::Node clauses(*n->childAt(1)); clauses.append(n->childAt(2))\<close>\<close>

lemma size_append_clause:
  assumes "childAt n (Suc 0) = Some (Some c1)" and "childAt n 2 = Some (Some c2)"
  shows "size (append_child c1 (Some c2)) < size n"
proof (cases n)
  case (Node t op b d s i p cs)
  from assms have "2 < length cs" "cs ! 1 = Some c1" "cs ! 2 = Some c2"
    unfolding childAt_def using Node by (auto split: if_splits)
  then obtain c0 rest where "cs = c0 # Some c1 # Some c2 # rest"
    by (cases cs; cases "tl cs"; cases "tl (tl cs)") auto
  then show ?thesis using Node by (cases c1) (simp add: size_list_append)
qed

text \<open>The declaration that the for-in loop over a \<open>var\<close> makes up.\<close>

definition jdeclaration :: "uchars \<Rightarrow> jsval" where
  "jdeclaration ident =
    JObject [(''type'', JString (uchars_of ''VariableDeclaration'')),
      (''declarations'', JArray [JObject [
         (''type'', JString (uchars_of ''VariableDeclarator'')),
         (''id'', jidentifier ident),
         (''init'', JNull)]])]"

lemma firstChild_grandchild:
  "firstChild n = Some x \<Longrightarrow> c \<in> set (m_children x) \<Longrightarrow> node_size c < size n"
  using firstChild_size node_size_child less_trans by blast

lemma childAt_grandchild:
  "childAt n i = Some (Some x) \<Longrightarrow> c \<in> set (m_children x) \<Longrightarrow> node_size c < size n"
  using childAt_size node_size_child less_trans by blast

subsection \<open>convertNode\<close>

text \<open>
  The tests are in the order of the code. \<open>SourceElementsType\<close> sets the property \<open>type\<close> twice when
  \<open>indent > 0\<close>; the second value replaces the first.
\<close>

function convertNode :: "Node option \<Rightarrow> int \<Rightarrow> jsval option" where
  "convertNode None indent = Some JNull"
| "convertNode (Some n) indent =
    (if m_ntype n = ArgumentsType then
       (case firstChild n of
          Some c \<Rightarrow> convertNode (Some c) indent
        | None \<Rightarrow> Some (JArray []))
     else if m_ntype n = ArgumentsListType then
       convertChildren convertNode n (indent + 1)
     else if m_ntype n = ArrayType then
       (if m_children n \<noteq> [] then
         case firstChild n of
           Some c \<Rightarrow> jobject [(''type'', jtext ''ArrayExpression''),
          (''elements'', convertChildren convertNode c (indent + 1))]
         | None \<Rightarrow> None
       else jobject [(''type'', jtext ''ArrayExpression''),
          (''elements'', Some (JArray []))])
     else if m_ntype n = AssignmentExpressionType then
       jobject [(''type'', jtext ''AssignmentExpression''),
          (''operator'', jop n),
          (''left'', convertChild convertNode n 0 (indent + 1)),
          (''right'', convertChild convertNode n 1 (indent + 1))]
     else if m_ntype n = BinaryExpressionType then
       jobject [(''type'', jtext ''BinaryExpression''),
          (''operator'', jop n),
          (''left'', convertChild convertNode n 0 (indent + 1)),
          (''right'', convertChild convertNode n 1 (indent + 1))]
     else if m_ntype n = BlockStatementType then
       (case firstChild n of
          Some c \<Rightarrow>
            if length (m_children n) = 1 \<and> m_ntype c = SourceElementsType
            then jobject [(''type'', jtext ''BlockStatement''),
          (''body'', convertChildren convertNode c (indent + 1))]
            else jobject [(''type'', jtext ''BlockStatement''),
          (''body'', Some (JArray []))]
        | None \<Rightarrow> jobject [(''type'', jtext ''BlockStatement''),
          (''body'', Some (JArray []))])
     else if m_ntype n = BooleanExpressionType then
       jobject [(''type'', jtext ''Literal''),
          (''objtype'', jtext ''Boolean''),
          (''value'', Some (JBool (m_boolean n)))]
     else if m_ntype n = BracketAccessType then
       jobject [(''type'', jtext ''MemberExpression''),
          (''accesstype'', jtext ''Bracket''),
          (''object'', convertChild convertNode n 0 (indent + 1)),
          (''property'', convertChild convertNode n 1 (indent + 1))]
     else if m_ntype n = BreakStatementType then
       jobject [(''type'', jtext ''BreakStatement''),
          (''label'', jlabel n)]
     else if m_ntype n = ClauseListType then
       convertChildren convertNode n (indent + 1)
     else if m_ntype n = ClauseType then
       (if m_children n = [] then jobject [(''type'', jtext ''SwitchCase''),
          (''test'', convertChild convertNode n 0 (indent + 1)),
          (''consequent'', Some (JArray []))]
       else
         case childAt n 1 of
           None \<Rightarrow> None
         | Some None \<Rightarrow> jobject [(''type'', jtext ''SwitchCase''),
          (''test'', convertChild convertNode n 0 (indent + 1)),
          (''consequent'', Some (JArray []))]
         | Some (Some c) \<Rightarrow> jobject [(''type'', jtext ''SwitchCase''),
          (''test'', convertChild convertNode n 0 (indent + 1)),
          (''consequent'', map_option (\<lambda>v. JArray [v]) (convertNode (Some c) (indent + 1)))])
     else if m_ntype n = CommaType then
       jobject [(''type'', jtext ''SequenceExpression''),
          (''expressions'', convertChildren convertNode n (indent + 1))]
     else if m_ntype n = ContinueStatementType then
       jobject [(''type'', jtext ''ContinueStatement''),
          (''label'', jlabel n)]
     else if m_ntype n = ConditionalExpressionType then
       jobject [(''type'', jtext ''ConditionalExpression''),
          (''test'', convertChild convertNode n 0 (indent + 1)),
          (''consequent'', convertChild convertNode n 1 (indent + 1)),
          (''alternate'', convertChild convertNode n 2 (indent + 1))]
     else if m_ntype n = DebuggerType then
       jobject [(''type'', jtext ''DebuggerStatement'')]
     else if m_ntype n = DotAccessType then
       jobject [(''type'', jtext ''MemberExpression''),
          (''accesstype'', jtext ''Dot''),
          (''object'', convertChild convertNode n 0 (indent + 1)),
          (''property'', Some (jidentifier (m_identifier n)))]
     else if m_ntype n = DoWhileStatementType then
       jobject [(''type'', jtext ''DoWhileStatement''),
          (''body'', convertChild convertNode n 0 (indent + 1)),
          (''test'', convertChild convertNode n 1 (indent + 1))]
     else if m_ntype n = ElementListType then
       convertChildren convertNode n (indent + 1)
     else if m_ntype n = EmptyStatementType then
       jobject [(''type'', jtext ''EmptyStatement'')]
     else if m_ntype n = ExpressionStatementType then
       jobject [(''type'', jtext ''ExpressionStatement''),
          (''expression'', convertChild convertNode n 0 (indent + 1))]
     else if m_ntype n = ExpressionType then
       jobject [(''type'', jtext ''ExpressionStatement''),
          (''expression'', convertChild convertNode n 0 (indent + 1))]
     else if m_ntype n = ForInLoopType then
       (case childAt n 0 of
          None \<Rightarrow> None
        | Some (Some c) \<Rightarrow> jobject [(''type'', jtext ''ForInStatement''),
          (''right'', convertChild convertNode n 1 (indent + 1)),
          (''body'', convertChild convertNode n 2 (indent + 1)),
          (''each'', Some (JBool False))]
        | Some None \<Rightarrow> jobject [(''type'', jtext ''ForInStatement''),
          (''left'', Some (jdeclaration (m_identifier n))),
          (''right'', convertChild convertNode n 1 (indent + 1)),
          (''body'', convertChild convertNode n 2 (indent + 1)),
          (''each'', Some (JBool False))])
     else if m_ntype n = ForLoopType then
       jobject [(''type'', jtext ''ForStatement''),
          (''init'', convertChild convertNode n 0 (indent + 1)),
          (''test'', convertChild convertNode n 1 (indent + 1)),
          (''update'', convertChild convertNode n 2 (indent + 1)),
          (''body'', convertChild convertNode n 3 (indent + 1))]
     else if m_ntype n = FormalParameterListType then
       map_option JArray (convertParameters n)
     else if m_ntype n = FunctionBodyType then
       (case firstChild n of
          Some c \<Rightarrow> convertNode (Some c) indent
        | None \<Rightarrow> jobject [(''type'', jtext ''BlockStatement''),
          (''body'', Some (JArray []))])
     else if m_ntype n = FunctionCallType then
       jobject [(''type'', jtext ''CallExpression''),
          (''callee'', convertChild convertNode n 0 (indent + 1)),
          (''arguments'', convertChild convertNode n 1 (indent + 1))]
     else if m_ntype n = FunctionDeclStatementType then
       jobject [(''type'', jtext ''FunctionExpression''),
          (''id'', jlabel n),
          (''params'', (if firstChild n \<noteq> None then convertChild convertNode n 0 (indent + 1) else Some (JArray []))),
          (''body'', convertChild convertNode n 1 (indent + 1))]
     else if m_ntype n = FunctionExpressionType then
       jobject [(''type'', jtext ''FunctionExpression''),
          (''id'', jlabel n),
          (''params'', (if firstChild n \<noteq> None then convertChild convertNode n 0 (indent + 1) else Some (JArray []))),
          (''body'', convertChild convertNode n 1 (indent + 1))]
     else if m_ntype n = IdentifierExpressionType then
       Some (jidentifier (m_identifier n))
     else if m_ntype n = IfStatementType then
       jobject [(''type'', jtext ''IfStatement''),
          (''test'', convertChild convertNode n 0 (indent + 1)),
          (''consequent'', convertChild convertNode n 1 (indent + 1)),
          (''alternate'', convertChild convertNode n 2 (indent + 1))]
     else if m_ntype n = NewExpressionType then
       jobject [(''type'', jtext ''NewExpression''),
          (''callee'', convertChild convertNode n 0 (indent + 1)),
          (''arguments'', convertChild convertNode n 1 (indent + 1))]
     else if m_ntype n = NullType then
       jobject [(''type'', jtext ''Literal''),
          (''objtype'', jtext ''Null''),
          (''value'', Some JNull)]
     else if m_ntype n = NumberExpressionType then
       jobject [(''type'', jtext ''Literal''),
          (''objtype'', jtext ''Number''),
          (''value'', Some (JInteger (m_number n)))]
     else if m_ntype n = ObjectLiteralType then
       (case firstChild n of
          Some c \<Rightarrow>
            if m_ntype c = PropertyListType
            then jobject [(''type'', jtext ''ObjectExpression''),
          (''properties'', convertChildren convertNode c (indent + 1))]
            else jobject [(''type'', jtext ''ObjectExpression''),
          (''properties'', convertChildren convertNode n (indent + 1))]
        | None \<Rightarrow> jobject [(''type'', jtext ''ObjectExpression''),
          (''properties'', convertChildren convertNode n (indent + 1))])
     else if m_ntype n = PostfixType then
       jobject [(''type'', jtext ''UpdateExpression''),
          (''operator'', jop n),
          (''argument'', convertChild convertNode n 0 (indent + 1)),
          (''prefix'', Some (JBool False))]
     else if m_ntype n = PrefixType then
       jobject [(''type'', jtext ''UpdateExpression''),
          (''operator'', jop n),
          (''argument'', convertChild convertNode n 0 (indent + 1)),
          (''prefix'', Some (JBool True))]
     else if m_ntype n = PropertyType then
       jobject [(''type'', jtext ''Property''),
          (''key'', Some (jidentifier (m_identifier n))),
          (''value'', convertChild convertNode n 0 (indent + 1))]
     else if m_ntype n = RegexType then
       jobject [(''type'', jtext ''Literal''),
          (''objtype'', jtext ''RegEx''),
          (''value'', Some (JString (uchars_of ''/'' @ m_identifier n @ uchars_of ''/'' @ m_string n)))]
     else if m_ntype n = ReturnStatementType then
       jobject [(''type'', jtext ''ReturnStatement''),
          (''argument'', convertChild convertNode n 0 (indent + 1))]
     else if m_ntype n = ResolveType then
       Some (jidentifier (m_identifier n))
     else if m_ntype n = SourceElementsType then
       jobject [(''type'', jtext (if indent > 0 then ''BlockStatement'' else ''Program'')),
          (''body'', convertChildren convertNode n (indent + 1))]
     else if m_ntype n = StringExpressionType then
       jobject [(''type'', jtext ''Literal''),
          (''objtype'', jtext ''String''),
          (''value'', Some (JString (m_string n)))]
     else if m_ntype n = SwitchStatementType then
       (case (childAt n 1, childAt n 2) of
          (Some (Some c1), Some (Some c2)) \<Rightarrow> jobject [(''type'', jtext ''SwitchStatement''),
          (''discriminant'', convertChild convertNode n 0 (indent + 1)),
          (''cases'', convertNode (Some (append_child c1 (Some c2))) (indent + 1))]
        | (Some (Some c1), Some None) \<Rightarrow> jobject [(''type'', jtext ''SwitchStatement''),
          (''discriminant'', convertChild convertNode n 0 (indent + 1)),
          (''cases'', convertNode (Some c1) (indent + 1))]
        | (Some None, Some (Some c2)) \<Rightarrow> jobject [(''type'', jtext ''SwitchStatement''),
          (''discriminant'', convertChild convertNode n 0 (indent + 1)),
          (''cases'', convertChildren convertNode c2 (indent + 1))]
        | (Some None, Some None) \<Rightarrow> jobject [(''type'', jtext ''SwitchStatement''),
          (''discriminant'', convertChild convertNode n 0 (indent + 1))]
        | _ \<Rightarrow> None)
     else if m_ntype n = ThisType then
       jobject [(''type'', jtext ''ThisExpression'')]
     else if m_ntype n = ThrowStatementType then
       jobject [(''type'', jtext ''ThrowStatement''),
          (''argument'', convertChild convertNode n 0 (indent + 1))]
     else if m_ntype n = TryStatementType then
       jobject [(''type'', jtext ''TryStatement''),
          (''block'', convertChild convertNode n 0 (indent + 1)),
          (''handler'', convertChild convertNode n 1 (indent + 1)),
          (''finalizer'', convertChild convertNode n 2 (indent + 1))]
     else if m_ntype n = UnaryExpressionType then
       jobject [(''type'', jtext ''UnaryExpression''),
          (''operator'', jop n),
          (''argument'', convertChild convertNode n 0 (indent + 1))]
     else if m_ntype n = VariableDeclarationType then
       jobject [(''type'', jtext ''VariableDeclaration''),
          (''declarations'', convertChildren convertNode n (indent + 1))]
     else if m_ntype n = VoidType then
       jobject [(''type'', jtext ''UnaryExpression''),
          (''operator'', jtext ''void''),
          (''argument'', convertChild convertNode n 0 (indent + 1))]
     else if m_ntype n = WhileStatementType then
       jobject [(''type'', jtext ''WhileStatement''),
          (''test'', convertChild convertNode n 0 (indent + 1)),
          (''body'', convertChild convertNode n 1 (indent + 1))]
     else if m_ntype n = WithStatementType then
       jobject [(''type'', jtext ''WithStatement''),
          (''object'', convertChild convertNode n 0 (indent + 1)),
          (''body'', convertChild convertNode n 1 (indent + 1))]
     else Some JUndefined)"
  by pat_completeness auto
termination
  by (relation "measure (\<lambda>(p, i). node_size p)")
     (auto simp: node_size_child dest: firstChild_size firstChild_grandchild
       dest!: sym [of _ "childAt _ _"] dest: childAt_size childAt_grandchild size_append_clause)

declare convertNode.simps [simp del]

end
