(* ===== verification/TreeShape.thy ===== *)
theory TreeShape
  imports Reflect
begin

text \<open>
  The shape of the trees that \<open>reflect.cpp\<close> can convert: which nodes need an operator, how many
  children a node must have, and which of them must not be null. Every node the builder creates
  from well-formed parts is well-formed, and \<open>convertNode\<close> is total on well-formed trees.
\<close>

subsection \<open>Well-formed nodes\<close>

definition operator_set :: "OperatorType option \<Rightarrow> bool" where
  "operator_set op \<longleftrightarrow> op \<noteq> None \<and> op \<noteq> Some NoOperator"

definition clause_list_or_null :: "Node option \<Rightarrow> bool" where
  "clause_list_or_null c \<longleftrightarrow> (case c of None \<Rightarrow> True | Some n \<Rightarrow> m_ntype n = ClauseListType)"

definition node_ok :: "NodeType \<Rightarrow> OperatorType option \<Rightarrow> Node option list \<Rightarrow> bool" where
  "node_ok t op cs \<longleftrightarrow>
     (t = AssignmentExpressionType \<or> t = BinaryExpressionType \<or> t = PostfixType \<or> t = PrefixType \<or>
      t = UnaryExpressionType \<longrightarrow> operator_set op) \<and>
     (t = ArrayType \<or> t = FormalParameterListType \<longrightarrow> cs = [] \<or> hd cs \<noteq> None) \<and>
     (t = ClauseType \<longrightarrow> cs = [] \<or> 2 \<le> length cs) \<and>
     (t = ForInLoopType \<longrightarrow> cs \<noteq> []) \<and>
     (t = SwitchStatementType \<longrightarrow> 3 \<le> length cs \<and> clause_list_or_null (cs ! 1))"

function wfNode :: "Node \<Rightarrow> bool" where
  "wfNode (Node t op b d s i p cs) \<longleftrightarrow> node_ok t op cs \<and> (\<forall>c \<in> set cs. \<forall>n. c = Some n \<longrightarrow> wfNode n)"
  by pat_completeness auto
termination
proof (relation "measure size", goal_cases)
  case 1
  then show ?case by simp
next
  case (2 t op b d s i p cs c n)
  then have "c \<in> set (m_children (Node t op b d s i p cs))" by simp
  from node_size_child [OF this] 2(2) show ?case by simp
qed

declare wfNode.simps [simp del]

definition wfOpt :: "Node option \<Rightarrow> bool" where
  "wfOpt c \<longleftrightarrow> (case c of None \<Rightarrow> True | Some n \<Rightarrow> wfNode n)"

lemma wfOpt_simps [simp]: "wfOpt None" "wfOpt (Some n) \<longleftrightarrow> wfNode n"
  by (simp_all add: wfOpt_def)

lemma wfNode_iff:
  "wfNode n \<longleftrightarrow> node_ok (m_ntype n) (m_operator n) (m_children n) \<and> list_all wfOpt (m_children n)"
proof (cases n)
  case (Node t op b d s i p cs)
  have "(\<forall>n. c = Some n \<longrightarrow> wfNode n) \<longleftrightarrow> wfOpt c" for c by (cases c) auto
  then show ?thesis by (simp add: Node wfNode.simps list_all_iff)
qed

lemma append_child_sel [simp]:
  "m_ntype (append_child n c) = m_ntype n" "m_operator (append_child n c) = m_operator n"
  "m_children (append_child n c) = m_children n @ [c]"
  "m_identifier (append_child n c) = m_identifier n"
  "m_propertyType (append_child n c) = m_propertyType n"
  by (cases n; simp)+

lemma setPropertyType_sel [simp]:
  "m_ntype (setPropertyType p n) = m_ntype n" "m_operator (setPropertyType p n) = m_operator n"
  "m_children (setPropertyType p n) = m_children n" "m_propertyType (setPropertyType p n) = p"
  by (cases n; simp)+

lemma node_ctors_sel [simp]:
  "m_ntype (Node_type t) = t" "m_ntype (Node_op t op) = t" "m_ntype (Node_id t i) = t"
  "m_ntype (Node_child t c) = t" "m_ntype (Node_pattern t i f) = t"
  "m_ntype (Node_bool b) = BooleanExpressionType" "m_ntype (Node_number d) = NumberExpressionType"
  "m_ntype (Node_string s) = StringExpressionType"
  "m_operator (Node_op t op) = Some op"
  "m_children (Node_type t) = []" "m_children (Node_op t op) = []" "m_children (Node_id t i) = []"
  "m_children (Node_child t c) = [c]" "m_children (Node_pattern t i f) = []"
  "m_children (Node_bool b) = []" "m_children (Node_number d) = []" "m_children (Node_string s) = []"
  by (simp_all add: node_ctors)

text \<open>A list node that may be extended.\<close>

definition wfList :: "Node \<Rightarrow> bool" where
  "wfList n \<longleftrightarrow> wfNode n \<and> m_ntype n \<noteq> ClauseType \<and> m_ntype n \<noteq> SwitchStatementType"

lemma wfNode_append:
  assumes "wfList n" and "wfNode c"
  shows "wfList (append_child n (Some c))"
  using assms by (cases "m_children n") (auto simp: wfList_def wfNode_iff node_ok_def)

lemma operator_set_simps [simp]: "operator_set (Some op) \<longleftrightarrow> op \<noteq> NoOperator"
  by (simp add: operator_set_def)

lemma convertOperator_proper [simp]: "convertOperator op \<noteq> NoOperator"
  by (cases op) simp_all

lemma convertOperator_token_proper: "convertOperator_token t = Some op \<Longrightarrow> op \<noteq> NoOperator"
  by (cases t) (auto simp: convertOperator_token_def)

subsection \<open>The builder creates well-formed nodes\<close>

text \<open>A node that has just been built is checked from its parts.\<close>

lemma wf_build:
  "wfNode (append_child n c) \<longleftrightarrow>
     node_ok (m_ntype n) (m_operator n) (m_children n @ [c]) \<and> list_all wfOpt (m_children n) \<and> wfOpt c"
  "wfNode (Node_child t c) \<longleftrightarrow> node_ok t None [c] \<and> wfOpt c"
  "wfNode (Node_type t) \<longleftrightarrow> node_ok t (Some NoOperator) []"
  "wfNode (Node_op t op) \<longleftrightarrow> node_ok t (Some op) []"
  "wfNode (Node_id t i) \<longleftrightarrow> node_ok t None []"
  "wfNode (Node_pattern t i f) \<longleftrightarrow> node_ok t None []"
  "wfNode (Node_bool b)" "wfNode (Node_number d)" "wfNode (Node_string str)"
  by (auto simp: wfNode_iff [of "append_child _ _"] wfNode_iff [of "Node_child _ _"]
      wfNode_iff [of "Node_type _"] wfNode_iff [of "Node_op _ _"] wfNode_iff [of "Node_id _ _"]
      wfNode_iff [of "Node_pattern _ _ _"] wfNode_iff [of "Node_bool _"]
      wfNode_iff [of "Node_number _"] wfNode_iff [of "Node_string _"])
     (simp_all add: node_ctors node_ok_def)

lemma wf_leaves [simp]:
  "wfNode (createBreakStatement i)" "wfNode (createContinueStatement i)" "wfNode createDebugger"
  "wfNode createEmptyStatement" "wfNode createNull" "wfNode (createNumberExpr d)"
  "wfNode (createBoolean b)" "wfNode (createString str)" "wfNode (createRegex pat flags)"
  "wfNode (createResolve ident)" "wfNode createSourceElements" "wfNode (createVarIdentifier ident)"
  "wfNode thisExpr" "wfNode (createVoid n)" "wfNode (createFormalParameterList ident)"
  by (auto simp: wf_build node_ok_def createBreakStatement_def createContinueStatement_def
      createDebugger_def createEmptyStatement_def createNull_def createNumberExpr_def createBoolean_def
      createString_def createRegex_def createResolve_def createSourceElements_def createVarIdentifier_def
      thisExpr_def createVoid_def createFormalParameterList_def split: option.splits)

lemma wf_expressions [simp]:
  "wfNode l \<Longrightarrow> wfNode r \<Longrightarrow> wfNode (createBracketAccess l r)"
  "wfNode l \<Longrightarrow> wfNode (createDotAccess l ident)"
  "wfNode l \<Longrightarrow> wfNode r \<Longrightarrow> wfNode (makeFunctionCallNode l r)"
  "wfNode l \<Longrightarrow> wfNode r \<Longrightarrow> wfNode (createNewExpr_args l r)"
  "wfNode l \<Longrightarrow> wfNode (createNewExpr l)"
  "wfNode l \<Longrightarrow> wfNode (createLogicalNot l)" "wfNode l \<Longrightarrow> wfNode (createUnaryPlus l)"
  "wfNode l \<Longrightarrow> wfNode (makeBitwiseNotNode l)" "wfNode l \<Longrightarrow> wfNode (makeNegateNode l)"
  "wfNode l \<Longrightarrow> wfNode (makeTypeOfNode l)" "wfNode l \<Longrightarrow> wfNode (makeDeleteNode l)"
  "wfNode l \<Longrightarrow> wfNode (makePostfixNode l op)" "wfNode l \<Longrightarrow> wfNode (makePrefixNode l op)"
  "wfNode l \<Longrightarrow> wfOpt m \<Longrightarrow> wfNode r \<Longrightarrow> wfNode (createConditionalExpr l m r)"
  "wfNode r \<Longrightarrow> wfNode (createAssignResolve ident r)"
  "wfNode r \<Longrightarrow> wfNode (createProperty ident r p)"
  "wfOpt e \<Longrightarrow> wfNode (createArguments e)" "wfOpt e \<Longrightarrow> wfNode (createArray e)"
  "wfOpt e \<Longrightarrow> wfNode (createObjectLiteral e)"
  by (auto simp: wf_build node_ok_def createBracketAccess_def createDotAccess_def
      makeFunctionCallNode_def createNewExpr_args_def
      createNewExpr_def createLogicalNot_def createUnaryPlus_def makeBitwiseNotNode_def
      makeNegateNode_def makeTypeOfNode_def makeDeleteNode_def makePostfixNode_def makePrefixNode_def
      createConditionalExpr_def createAssignResolve_def createArguments_def
      createArray_def createObjectLiteral_def split: option.splits)
     (simp add: createProperty_def wfNode_iff [of "append_child _ _"] node_ok_def)

lemma wf_statements [simp]:
  "wfOpt e \<Longrightarrow> wfNode (createBlockStatement e)"
  "wfOpt e \<Longrightarrow> wfNode (createVarStatement e)"
  "wfOpt e \<Longrightarrow> wfNode (createConstStatement e)"
  "wfOpt e \<Longrightarrow> wfNode (createReturnStatement e)"
  "wfNode l \<Longrightarrow> wfNode (createThrowStatement l)" "wfNode l \<Longrightarrow> wfNode (createExprStatement l)"
  "wfNode l \<Longrightarrow> wfNode r \<Longrightarrow> wfNode (createDoWhileStatement l r)"
  "wfNode l \<Longrightarrow> wfNode r \<Longrightarrow> wfNode (createWhileStatement l r)"
  "wfNode l \<Longrightarrow> wfNode r \<Longrightarrow> wfNode (createWithStatement l r)"
  "wfNode l \<Longrightarrow> wfNode (createLabelStatement ident l)"
  "wfNode l \<Longrightarrow> wfNode r \<Longrightarrow> wfNode (createIfStatement l r)"
  "wfNode l \<Longrightarrow> wfNode r \<Longrightarrow> wfNode q \<Longrightarrow> wfNode (createIfElseStatement l r q)"
  "wfOpt e \<Longrightarrow> wfOpt f \<Longrightarrow> wfOpt g \<Longrightarrow> wfNode r \<Longrightarrow> wfNode (createForLoop e f g r)"
  "wfNode l \<Longrightarrow> wfNode r \<Longrightarrow> wfNode q \<Longrightarrow> wfNode (createForInLoop l r q)"
  "wfOpt e \<Longrightarrow> wfNode r \<Longrightarrow> wfNode q \<Longrightarrow> wfNode (createForInLoop_var ident e r q)"
  "wfNode l \<Longrightarrow> wfOpt e \<Longrightarrow> wfOpt f \<Longrightarrow> wfNode (createTryStatement l ident e f)"
  "wfOpt e \<Longrightarrow> wfNode (createFunctionBody e)"
  "wfNode l \<Longrightarrow> wfOpt e \<Longrightarrow> wfNode (createFuncDeclStatement ident l e)"
  "wfNode l \<Longrightarrow> wfOpt e \<Longrightarrow> wfNode (createFunctionExpr ident l e)"
  "wfOpt e \<Longrightarrow> wfNode r \<Longrightarrow> wfNode (createClause e r)"
  "wfNode l \<Longrightarrow> wfOpt e \<Longrightarrow> wfOpt f \<Longrightarrow> wfOpt g \<Longrightarrow> clause_list_or_null e \<Longrightarrow>
     wfNode (createSwitchStatement l e f g)"
  by (simp_all add: wf_build node_ok_def createBlockStatement_def createVarStatement_def
      createConstStatement_def createReturnStatement_def createThrowStatement_def
      createExprStatement_def createDoWhileStatement_def createWhileStatement_def
      createWithStatement_def createLabelStatement_def createIfStatement_def
      createIfElseStatement_def createForLoop_def createForInLoop_def createForInLoop_var_def
      createTryStatement_def createFunctionBody_def createFuncDeclStatement_def createFunctionExpr_def
      createClause_def createSwitchStatement_def nth_append)

lemma wf_lists [simp]:
  "wfNode l \<Longrightarrow> wfList (createArgumentsList l)" "wfNode l \<Longrightarrow> wfList (createElementList l)"
  "wfNode l \<Longrightarrow> wfList (createPropertyList l)" "wfNode l \<Longrightarrow> wfList (createClauseList l)"
  "wfNode l \<Longrightarrow> wfNode r \<Longrightarrow> wfList (createCommaExpr l r)" "wfList createSourceElements"
  by (simp_all add: wfList_def wf_build node_ok_def createArgumentsList_def createElementList_def
      createPropertyList_def createClauseList_def createCommaExpr_def createSourceElements_def)

lemma wf_extend [simp]:
  "wfList l \<Longrightarrow> wfNode r \<Longrightarrow> wfList (createArgumentsList2 l r)"
  "wfList l \<Longrightarrow> wfNode r \<Longrightarrow> wfList (createElementList2 l r)"
  "wfList l \<Longrightarrow> wfNode r \<Longrightarrow> wfList (createPropertyList2 r l)"
  "wfList l \<Longrightarrow> wfNode r \<Longrightarrow> wfList (createClauseList2 l r)"
  "wfList l \<Longrightarrow> wfNode r \<Longrightarrow> wfList (appendToComma l r)"
  "wfList l \<Longrightarrow> wfNode r \<Longrightarrow> wfList (appendStatement l r)"
  by (simp_all add: wfNode_append createArgumentsList2_def createElementList2_def
      createPropertyList2_def createClauseList2_def appendToComma_def appendStatement_def)

lemma wfList_wfNode [simp]: "wfList l \<Longrightarrow> wfNode l"
  by (simp add: wfList_def)

lemma clauseList_type [simp]:
  "m_ntype (createClauseList l) = ClauseListType"
  "m_ntype (createClauseList2 t l) = m_ntype t"
  by (simp_all add: createClauseList_def createClauseList2_def)

lemma sourceElements_type [simp]:
  "m_ntype createSourceElements = SourceElementsType"
  "m_ntype (appendStatement l st) = m_ntype l"
  by (simp_all add: createSourceElements_def appendStatement_def)

lemma wf_combineCommaNodes [simp]:
  assumes "wfNode l" and "wfNode r"
  shows "wfNode (combineCommaNodes l r)"
proof (cases "m_ntype l = CommaType")
  case True
  then have "wfList l" using assms(1) by (simp add: wfList_def)
  then show ?thesis using True assms(2) wfNode_append by (simp add: combineCommaNodes_def)
next
  case False
  then show ?thesis using assms by (simp add: combineCommaNodes_def wf_build node_ok_def)
qed

lemma wf_makeBinaryNode:
  "makeBinaryNode t l r = Some n \<Longrightarrow> wfNode (fst l) \<Longrightarrow> wfNode (fst r) \<Longrightarrow> wfNode n"
  using convertOperator_token_proper
  by (auto simp: makeBinaryNode_def wf_build node_ok_def split: option.splits)

text \<open>Formal parameters: a chain of nodes with at most one child each.\<close>

inductive parameterChain :: "Node \<Rightarrow> bool" where
  last_parameter: "parameterChain (Node FormalParameterListType op b d s i p [])"
| next_parameter: "parameterChain c \<Longrightarrow> parameterChain (Node FormalParameterListType op b d s i p [Some c])"

inductive_simps parameterChain_Node: "parameterChain (Node t op b d s i p cs)"

lemma parameterChain_wf: "parameterChain n \<Longrightarrow> wfNode n"
  by (induction rule: parameterChain.induct) (simp_all add: wfNode.simps node_ok_def)

lemma parameterChain_create [simp]: "parameterChain (createFormalParameterList ident)"
  by (simp add: createFormalParameterList_def Node_id_def parameterChain_Node)

lemma parameterChain_create2: "parameterChain n \<Longrightarrow> parameterChain (createFormalParameterList2 n ident)"
  by (induction rule: parameterChain.induct) (simp_all add: Node_id_def parameterChain_Node)

subsection \<open>The conversion of a well-formed tree\<close>

lemma wfNode_children: "wfNode n \<Longrightarrow> c \<in> set (m_children n) \<Longrightarrow> wfOpt c"
  by (simp add: wfNode_iff list_all_iff)

lemma wfNode_childAt: "wfNode n \<Longrightarrow> childAt n i = Some c \<Longrightarrow> wfOpt c"
  by (auto simp: childAt_def wfNode_children split: if_splits)

lemma wfNode_firstChild: "wfNode n \<Longrightarrow> firstChild n = Some c \<Longrightarrow> wfNode c"
  using wfNode_childAt [of n 0 "Some c"] by (simp add: childAt_firstChild_Some)

lemma jobject_Some [simp]:
  "(\<exists>v. jobject props = Some v) \<longleftrightarrow> (\<forall>(name, v) \<in> set props. \<exists>w. v = Some w)"
proof -
  have "(\<exists>ys. those (map (\<lambda>(name, v). map_option (Pair name) v) props) = Some ys) \<longleftrightarrow>
      (\<forall>(name, v) \<in> set props. \<exists>w. v = Some w)"
    by (induction props) (auto split: option.splits)
  then show ?thesis by (auto simp: jobject_def)
qed

lemma jtext_Some [simp]: "\<exists>v. jtext cs = Some v"
  by (simp add: jtext_def)

lemma jlabel_Some [simp]: "\<exists>v. jlabel n = Some v"
  by (simp add: jlabel_def)

lemma operatorAsText_Some: "op \<noteq> NoOperator \<Longrightarrow> \<exists>cs. operatorAsText op = Some cs"
  by (cases op) (simp_all add: operatorAsText_def)

lemma jop_Some: "operator_set (m_operator n) \<Longrightarrow> \<exists>v. jop n = Some v"
  using operatorAsText_Some by (cases "m_operator n") (fastforce simp: operator_set_def jop_def jtext_def)+

lemma convertParameters_Some: "wfNode n \<Longrightarrow> \<exists>vs. convertParameters n = Some vs"
proof (induction n rule: convertParameters.induct)
  case (1 n)
  show ?case
  proof (cases "m_ntype n = FormalParameterListType")
    case True
    then have "m_children n = [] \<or> hd (m_children n) \<noteq> None" using 1(2) by (auto simp: wfNode_iff node_ok_def)
    then consider "m_children n = []" | c cs where "m_children n = Some c # cs"
      by (cases "m_children n") auto
    then show ?thesis
    proof cases
      case 1
      with True show ?thesis by (simp add: convertParameters.simps [of n])
    next
      case (2 c cs)
      then have "wfNode c" using \<open>wfNode n\<close> wfNode_children [of n "Some c"] by simp
      then show ?thesis using True 1(1) 2 by (auto simp: convertParameters.simps [of n])
    qed
  qed (simp add: convertParameters.simps [of n])
qed


lemma convertChildren_Some:
  assumes "\<And>c j. c \<in> set (m_children n) \<Longrightarrow> \<exists>v. convert c j = Some v"
  shows "\<exists>v. convertChildren convert n j = Some v"
  using those_exists [of "m_children n" "\<lambda>c. convert c (j + 1)"] assms by (auto simp: convertChildren_def)

lemma convertChild_Some:
  assumes "\<And>c j. c \<in> set (m_children n) \<Longrightarrow> \<exists>v. convert c j = Some v"
  shows "\<exists>v. convertChild convert n i j = Some v"
  using assms by (simp add: convertChild_def)

lemma wf_switch_children:
  assumes "wfNode n" and "m_ntype n = SwitchStatementType"
  shows "\<exists>c1 c2. childAt n (Suc 0) = Some c1 \<and> childAt n 2 = Some c2 \<and> clause_list_or_null c1"
  using assms by (auto simp: wfNode_iff node_ok_def childAt_def)

lemma wf_clause_child:
  assumes "wfNode n" and "m_ntype n = ClauseType" and "m_children n \<noteq> []"
  shows "\<exists>c. childAt n (Suc 0) = Some c"
  using assms by (auto simp: wfNode_iff node_ok_def childAt_def)

lemma wf_forIn_child: "wfNode n \<Longrightarrow> m_ntype n = ForInLoopType \<Longrightarrow> \<exists>c. childAt n 0 = Some c"
  by (auto simp: wfNode_iff node_ok_def childAt_def)

lemma wf_array_child:
  "wfNode n \<Longrightarrow> m_ntype n = ArrayType \<Longrightarrow> m_children n \<noteq> [] \<Longrightarrow> \<exists>c. firstChild n = Some c"
  by (cases "m_children n") (auto simp: wfNode_iff node_ok_def firstChild_def)

lemma wf_operator:
  "wfNode n \<Longrightarrow> m_ntype n = AssignmentExpressionType \<or> m_ntype n = BinaryExpressionType \<or>
     m_ntype n = PostfixType \<or> m_ntype n = PrefixType \<or> m_ntype n = UnaryExpressionType \<Longrightarrow>
   \<exists>v. jop n = Some v"
  by (rule jop_Some) (auto simp: wfNode_iff node_ok_def)

lemma convertNode_total:
  "wfOpt p \<Longrightarrow> \<exists>v. convertNode p indent = Some v"
proof (induction p arbitrary: indent rule: measure_induct_rule [of node_size])
  case (less p)
  show ?case
  proof (cases p)
    case None
    then show ?thesis by (simp add: convertNode.simps)
  next
    case (Some n)
    then have wf: "wfNode n" using less(2) by simp
    note eq = convertNode.simps(2) [of n indent]
    have rec: "\<exists>v. convertNode c j = Some v" if "node_size c < size n" "wfOpt c" for c j
      using less(1) that Some by simp
    have child: "\<exists>v. convertNode c j = Some v" if "c \<in> set (m_children n)" for c j
      using rec that node_size_child wfNode_children [OF wf] by blast
    have C: "\<exists>v. convertChild convertNode n i j = Some v" for i j
      by (rule convertChild_Some) (rule child)
    have A: "\<exists>v. convertChildren convertNode n j = Some v" for j
      by (rule convertChildren_Some) (rule child)
    have N: "(\<exists>v. convertNode (Some c) j = Some v) \<and> (\<exists>v. convertChildren convertNode c j = Some v)"
      if "size c < size n" "wfNode c" for c j
    proof -
      have "\<exists>v. convertNode d k = Some v" if d: "d \<in> set (m_children c)" for d k
        using rec [of d k] node_size_child [OF d] wfNode_children [OF \<open>wfNode c\<close> d] \<open>size c < size n\<close>
        by simp
      then show ?thesis using rec [of "Some c" j] that convertChildren_Some by simp
    qed
    have F: "(\<exists>v. convertNode (Some c) j = Some v) \<and> (\<exists>v. convertChildren convertNode c j = Some v)"
      if "firstChild n = Some c" for c j
      using N firstChild_size [OF that] wfNode_firstChild [OF wf that] by simp
    have G: "(\<exists>v. convertNode (Some c) j = Some v) \<and> (\<exists>v. convertChildren convertNode c j = Some v)"
      if "childAt n i = Some (Some c)" for c i j
      using N childAt_size [OF that] wfNode_childAt [OF wf that] by simp
    have S: "\<exists>v. convertNode (Some (append_child c1 (Some c2))) j = Some v"
      if "childAt n (Suc 0) = Some (Some c1)" "childAt n 2 = Some (Some c2)" "m_ntype c1 = ClauseListType" for c1 c2 j
    proof -
      have "wfList c1" "wfNode c2" using that wfNode_childAt [OF wf] by (fastforce simp: wfList_def)+
      then have "wfNode (append_child c1 (Some c2))" by (simp add: wfNode_append)
      then show ?thesis using N size_append_clause [OF that(1,2)] by simp
    qed
    show ?thesis
    proof (cases "m_ntype n")
      case SwitchStatementType
      obtain c1 c2 where cc: "childAt n (Suc 0) = Some c1" "childAt n 2 = Some c2" "clause_list_or_null c1"
        using wf_switch_children [OF wf SwitchStatementType] by blast
      show ?thesis
        using SwitchStatementType Some cc C G S
        by (cases c1; cases c2) (auto simp: eq clause_list_or_null_def)
    next
      case ClauseType
      then show ?thesis
        using Some C G wf_clause_child [OF wf ClauseType]
        by (cases "m_children n = []") (auto simp: eq split: option.splits)
    next
      case ForInLoopType
      then show ?thesis
        using Some C wf_forIn_child [OF wf ForInLoopType]
        by (auto simp: eq split: option.splits)
    next
      case ArrayType
      then show ?thesis
        using Some F wf_array_child [OF wf ArrayType]
        by (cases "m_children n = []") (auto simp: eq split: option.splits)
    qed (use Some A C F wf wf_operator convertParameters_Some in
         \<open>auto simp: eq split: option.splits\<close>)
  qed
qed

end
