(* ===== verification/ParserMonad.thy ===== *)
theory ParserMonad
  imports Lexer SyntaxTree
begin

text \<open>
  The state of a \<open>JSParser\<close> object (with the lexer it drives and the builder it is passed) and the
  effects of its member functions: a function reads and updates the state, it may execute one of
  the \<open>fail()\<close> macros, and it may end the process.
\<close>

subsection \<open>State and outcomes\<close>

text \<open>
  \<open>p_context\<close> is the builder that the functions take as \<open>context\<close>. Two members are not state of
  the program but what it finds in its environment: \<open>p_arrays\<close>, the contents of the uninitialised
  digit arrays of the lexer, and \<open>p_numberToString\<close>, the text \<open>UString::number\<close> makes of a double.
  The counters are \<open>int\<close>: each is bounded by twice the number of tokens of the source.
\<close>

record pstate =
  m_lexer :: lexer
  m_error :: bool
  m_token :: JSToken
  m_allowsIn :: bool
  m_tokenCount :: int
  m_lastLine :: int
  m_lastTokenEnd :: nat
  m_assignmentCount :: int
  m_nonLHSCount :: int
  m_syntaxAlreadyValidated :: bool
  p_context :: builder
  p_arrays :: "int list"
  p_numberToString :: "dbl \<Rightarrow> uchars"

text \<open>How the process can end: which check of the code fails.\<close>

datatype crash =
    LexerAssertion \<comment> \<open>an \<open>ASSERT\<close> of the lexer\<close>
  | ParserAssertion \<comment> \<open>an \<open>ASSERT\<close> of the parser\<close>
  | VectorAssertion \<comment> \<open>an access outside a \<open>Vector\<close>, or a binary operator token without operator\<close>
  | NullConstDecl \<comment> \<open>the append through the null \<open>tail\<close> in \<open>appendConstDecl\<close>\<close>
  | NullDereference \<comment> \<open>any other member access through a null pointer\<close>
  | AccessorProperty \<comment> \<open>the \<open>CRASH()\<close> of \<open>createGetterOrSetterProperty\<close>\<close>
  | ExplicitCrash \<comment> \<open>any other \<open>CRASH()\<close>\<close>

text \<open>
  \<open>Fail\<close> is a \<open>fail()\<close> on its way to the end of the function that executes it. \<open>OutOfFuel\<close> is no
  behaviour of the program: it marks a fuel that was too small.
\<close>

datatype (plugins only: code) 'a outcome =
    Ret 'a pstate
  | Fail pstate
  | Crash crash
  | OutOfFuel

type_synonym 'a parser = "pstate \<Rightarrow> 'a outcome"

subsection \<open>Combinators\<close>

definition retP :: "'a \<Rightarrow> 'a parser" where
  "retP a s = Ret a s"

definition bindP :: "'a parser \<Rightarrow> ('a \<Rightarrow> 'b parser) \<Rightarrow> 'b parser" where
  "bindP m f s =
    (case m s of
       Ret a s' \<Rightarrow> f a s'
     | Fail s' \<Rightarrow> Fail s'
     | Crash k \<Rightarrow> Crash k
     | OutOfFuel \<Rightarrow> OutOfFuel)"

definition thenP :: "'a parser \<Rightarrow> 'b parser \<Rightarrow> 'b parser" where
  "thenP m m' = bindP m (\<lambda>_. m')"

definition getP :: "(pstate \<Rightarrow> 'a) \<Rightarrow> 'a parser" where
  "getP f s = Ret (f s) s"

definition modP :: "(pstate \<Rightarrow> pstate) \<Rightarrow> unit parser" where
  "modP f s = Ret () (f s)"

definition crashP :: "crash \<Rightarrow> 'a parser" where
  "crashP k s = Crash k"

definition outOfFuelP :: "'a parser" where
  "outOfFuelP s = OutOfFuel"

text \<open>\<open>fail()\<close>: \<open>m_error = true; return 0\<close>.\<close>

definition failP :: "'a parser" where
  "failP s = Fail (s\<lparr>m_error := True\<rparr>)"

definition failIfFalse :: "bool \<Rightarrow> unit parser" where
  "failIfFalse cond = (if cond then retP () else failP)"

text \<open>\<open>failIfFalse(result)\<close> on a pointer that has just been computed.\<close>

definition needP :: "'a option parser \<Rightarrow> 'a parser" where
  "needP m = bindP m (\<lambda>r. case r of None \<Rightarrow> failP | Some x \<Rightarrow> retP x)"

text \<open>The body of a function, whose \<open>fail()\<close> returns \<open>zero\<close> to the caller.\<close>

definition functionP :: "'a \<Rightarrow> 'a parser \<Rightarrow> 'a parser" where
  "functionP zero m s =
    (case m s of
       Ret a s' \<Rightarrow> Ret a s'
     | Fail s' \<Rightarrow> Ret zero s'
     | Crash k \<Rightarrow> Crash k
     | OutOfFuel \<Rightarrow> OutOfFuel)"

definition assertP :: "bool \<Rightarrow> unit parser" where
  "assertP cond = (if cond then retP () else crashP ParserAssertion)"

text \<open>
  A loop: its body returns \<open>Inl\<close> the loop variables to go round again and \<open>Inr\<close> a result to leave
  the loop.
\<close>

primrec loopP :: "nat \<Rightarrow> ('a \<Rightarrow> ('a + 'b) parser) \<Rightarrow> 'a \<Rightarrow> 'b parser" where
  "loopP 0 body a = outOfFuelP"
| "loopP (Suc n) body a =
    bindP (body a) (\<lambda>r. case r of Inl a' \<Rightarrow> loopP n body a' | Inr b \<Rightarrow> retP b)"

text \<open>An operation of the builder; \<open>None\<close> is a failed check inside it.\<close>

definition contextP :: "(builder \<Rightarrow> ('a \<times> builder) option) \<Rightarrow> 'a parser" where
  "contextP f s =
    (case f (p_context s) of
       None \<Rightarrow> Crash VectorAssertion
     | Some (a, b) \<Rightarrow> Ret a (s\<lparr>p_context := b\<rparr>))"

definition readContextP :: "(builder \<Rightarrow> 'a option) \<Rightarrow> 'a parser" where
  "readContextP f s = (case f (p_context s) of None \<Rightarrow> Crash VectorAssertion | Some a \<Rightarrow> Ret a s)"

text \<open>A local \<open>FunctionBodyBuilder\<close>: the enclosing builder is left alone.\<close>

definition withBuilderP :: "'a parser \<Rightarrow> 'a parser" where
  "withBuilderP m s =
    (case m (s\<lparr>p_context := Builder\<rparr>) of
       Ret a s' \<Rightarrow> Ret a (s'\<lparr>p_context := p_context s\<rparr>)
     | Fail s' \<Rightarrow> Fail (s'\<lparr>p_context := p_context s\<rparr>)
     | Crash k \<Rightarrow> Crash k
     | OutOfFuel \<Rightarrow> OutOfFuel)"

text \<open>
  \<open>AllowInOverride\<close>: \<open>m_allowsIn\<close> is set for the scope and restored by the destructor, on every
  way out of the scope.
\<close>

definition allowInOverrideP :: "'a parser \<Rightarrow> 'a parser" where
  "allowInOverrideP m s =
    (case m (s\<lparr>m_allowsIn := True\<rparr>) of
       Ret a s' \<Rightarrow> Ret a (s'\<lparr>m_allowsIn := m_allowsIn s\<rparr>)
     | Fail s' \<Rightarrow> Fail (s'\<lparr>m_allowsIn := m_allowsIn s\<rparr>)
     | Crash k \<Rightarrow> Crash k
     | OutOfFuel \<Rightarrow> OutOfFuel)"

text \<open>A call of the lexer: an assertion that fails inside it ends the process.\<close>

definition lexerP :: "(lexer \<Rightarrow> 'a \<times> lexer) \<Rightarrow> 'a parser" where
  "lexerP f s =
    (let (a, lx) = f (m_lexer s)
     in if assertsOK lx then Ret a (s\<lparr>m_lexer := lx\<rparr>) else Crash LexerAssertion)"

subsection \<open>The small member functions\<close>

definition tokenType :: "pstate \<Rightarrow> JSTokenType" where
  "tokenType s = m_type (m_token s)"

definition tokenStart :: "pstate \<Rightarrow> nat" where
  "tokenStart s = startOffset (m_info (m_token s))"

definition tokenLine :: "pstate \<Rightarrow> int" where
  "tokenLine s = tline (m_info (m_token s))"

definition tokenEnd :: "pstate \<Rightarrow> nat" where
  "tokenEnd s = endOffset (m_info (m_token s))"

definition tokenIdent :: "pstate \<Rightarrow> uchars" where
  "tokenIdent s = identValue (m_data (m_token s))"

definition nextP_type :: "LexType \<Rightarrow> unit parser" where
  "nextP_type lexType s =
    (let s = s\<lparr>m_lastLine := tline (m_info (m_token s)),
               m_lastTokenEnd := endOffset (m_info (m_token s))\<rparr>;
         (type, data, info, lx) =
           lex (p_arrays s) lexType (m_data (m_token s)) (m_info (m_token s))
             (setLastLineNumber (m_lastLine s) (m_lexer s))
     in if assertsOK lx
        then Ret () (s\<lparr>m_lexer := lx,
                       m_token := \<lparr>m_type = type, m_data = data, m_info = info\<rparr>,
                       m_tokenCount := m_tokenCount s + 1\<rparr>)
        else Crash LexerAssertion)"

definition nextP :: "unit parser" where
  "nextP = nextP_type IdentifyReservedWords"

definition matchP :: "JSTokenType \<Rightarrow> bool parser" where
  "matchP expected = getP (\<lambda>s. tokenType s = expected)"

definition consumeP :: "JSTokenType \<Rightarrow> bool parser" where
  "consumeP expected =
    functionP False
      (bindP (matchP expected) (\<lambda>result.
       thenP (failIfFalse result)
      (thenP nextP
      (retP result))))"

definition consumeOrFail :: "JSTokenType \<Rightarrow> unit parser" where
  "consumeOrFail t = bindP (consumeP t) failIfFalse"

definition matchOrFail :: "JSTokenType \<Rightarrow> unit parser" where
  "matchOrFail t = bindP (matchP t) failIfFalse"

definition allowAutomaticSemicolon :: "bool parser" where
  "allowAutomaticSemicolon =
    getP (\<lambda>s. tokenType s = CLOSEBRACE \<or> tokenType s = EOFTOK \<or> m_terminator (m_lexer s))"

definition autoSemiColon :: "bool parser" where
  "autoSemiColon =
    bindP (matchP SEMICOLON) (\<lambda>semicolon.
    if semicolon then thenP nextP (retP True) else allowAutomaticSemicolon)"

text \<open>\<open>m_nonLHSCount++\<close>, \<open>m_assignmentCount++\<close> and \<open>failIfTrue(m_error)\<close>.\<close>

definition incNonLHSCount :: "unit parser" where
  "incNonLHSCount = modP (\<lambda>s. s\<lparr>m_nonLHSCount := m_nonLHSCount s + 1\<rparr>)"

definition incAssignmentCount :: "unit parser" where
  "incAssignmentCount = modP (\<lambda>s. s\<lparr>m_assignmentCount := m_assignmentCount s + 1\<rparr>)"

definition failIfError :: "unit parser" where
  "failIfError = bindP (getP m_error) (\<lambda>e. failIfFalse (\<not> e))"

end
