(* ===== verification/JSParser.thy ===== *)
theory JSParser
  imports ParserMonad
begin

text \<open>
  The recursive descent parser: \<open>parser/JSParser.cpp\<close>, instantiated with the tree builder of
  \<open>parser/SyntaxTree.h\<close> as \<open>createSyntaxTree\<close> does. One definition per member function.

  Every cycle of calls goes through \<open>parseStatement\<close> or \<open>parseAssignmentExpression\<close>. The other
  functions therefore take these two as arguments (\<open>ps\<close> and \<open>pa\<close>) and the number \<open>n\<close> of rounds
  their loops may make; the two functions themselves are defined at the end by recursion over
  \<open>n\<close>. The theorems on termination give an \<open>n\<close> that is enough for every source.

  Local variables that hold positions and lines, which only feed arguments the builder ignores,
  are left out.
\<close>

type_synonym treeP = "Node option parser"

text \<open>\<open>CommonIdentifiers\<close> of \<open>runtime/JSGlobalData.h\<close>, as far as the parser compares with them.\<close>

definition propertyNames_arguments :: uchars where
  "propertyNames_arguments = uchars_of ''argument''"

definition propertyNames_get :: uchars where
  "propertyNames_get = uchars_of ''get''"

definition propertyNames_set :: uchars where
  "propertyNames_set = uchars_of ''set''"

definition nullIdentifier :: uchars where
  "nullIdentifier = []"

subsection \<open>Source elements and declarations\<close>

definition parseSourceElements :: "nat \<Rightarrow> treeP \<Rightarrow> treeP" where
  "parseSourceElements n ps = functionP None
    (bindP (loopP n (\<lambda>sourceElements.
        bindP ps (\<lambda>statement.
        case statement of
          None \<Rightarrow> retP (Inr sourceElements)
        | Some st \<Rightarrow> retP (Inl (appendStatement sourceElements st)))) createSourceElements)
      (\<lambda>sourceElements.
     thenP failIfError
    (retP (Some sourceElements))))"

text \<open>
  \<open>parseVarDeclarationList\<close> returns its list and, through references, the number of declarations,
  the last identifier and the last initializer. After a \<open>fail()\<close> both callers find \<open>m_error\<close> set
  and use none of these.
\<close>

type_synonym varDecls = "Node option \<times> int \<times> uchars \<times> Node option"

definition parseVarDeclarator :: "treeP \<Rightarrow> varDecls \<Rightarrow> varDecls parser" where
  "parseVarDeclarator pa decls =
    (case decls of (varDecls, declarations, lastIdent, lastInitializer) \<Rightarrow>
      thenP nextP
     (thenP (matchOrFail IDENT)
     (bindP (getP tokenIdent) (\<lambda>name.
      thenP nextP
     (bindP (matchP EQUAL) (\<lambda>hasInitializer.
      if hasInitializer then
        thenP nextP
       (bindP (needP pa) (\<lambda>initializer.
        let node = createAssignResolve name initializer
        in retP (Some (case varDecls of None \<Rightarrow> node | Some v \<Rightarrow> combineCommaNodes v node),
                 declarations + 1, name, Some initializer)))
      else
        let node = createVarIdentifier name
        in retP (Some (case varDecls of None \<Rightarrow> node | Some v \<Rightarrow> combineCommaNodes v node),
                 declarations + 1, name, lastInitializer)))))))"

definition parseVarDeclarationList :: "nat \<Rightarrow> treeP \<Rightarrow> varDecls parser" where
  "parseVarDeclarationList n pa = functionP (None, 0, nullIdentifier, None)
    (loopP n (\<lambda>decls.
       bindP (parseVarDeclarator pa decls) (\<lambda>decls'.
       bindP (matchP COMMA) (\<lambda>comma. retP (if comma then Inl decls' else Inr decls'))))
     (None, 0, nullIdentifier, None))"

definition parseVarDeclaration :: "nat \<Rightarrow> treeP \<Rightarrow> treeP" where
  "parseVarDeclaration n pa = functionP None
    (bindP (matchP VAR) (\<lambda>v. thenP (assertP v)
    (bindP (parseVarDeclarationList n pa) (\<lambda>(varDecls, _, _, _).
     thenP failIfError
    (bindP autoSemiColon (\<lambda>ok. thenP (failIfFalse ok)
    (retP (Some (createVarStatement varDecls)))))))))"

text \<open>
  In \<open>parseConstDeclarationList\<close> the variables \<open>constDecls\<close> and \<open>tail\<close> always hold the same
  pointer: \<open>appendConstDecl\<close> returns its argument. The initializer is not checked.
\<close>

definition parseConstDeclarationList :: "nat \<Rightarrow> treeP \<Rightarrow> treeP" where
  "parseConstDeclarationList n pa = functionP None
    (loopP n (\<lambda>tail.
       thenP nextP
      (thenP (matchOrFail IDENT)
      (bindP (getP tokenIdent) (\<lambda>name.
       thenP nextP
      (bindP (matchP EQUAL) (\<lambda>hasInitializer.
       bindP (if hasInitializer then thenP nextP pa else retP None) (\<lambda>initializer.
       case appendConstDecl tail name initializer of
         None \<Rightarrow> crashP NullConstDecl
       | Some tail' \<Rightarrow>
           bindP (matchP COMMA) (\<lambda>comma.
           retP (if comma then Inl (Some tail') else Inr (Some tail')))))))))) None)"

definition parseConstDeclaration :: "nat \<Rightarrow> treeP \<Rightarrow> treeP" where
  "parseConstDeclaration n pa = functionP None
    (bindP (matchP CONSTTOKEN) (\<lambda>c. thenP (assertP c)
    (bindP (parseConstDeclarationList n pa) (\<lambda>constDecls.
     thenP failIfError
    (bindP autoSemiColon (\<lambda>ok. thenP (failIfFalse ok)
    (retP (Some (createConstStatement constDecls)))))))))"

subsection \<open>Expressions\<close>

definition parseExpression :: "nat \<Rightarrow> treeP \<Rightarrow> treeP" where
  "parseExpression n pa = functionP None
    (bindP (needP pa) (\<lambda>node.
     bindP (matchP COMMA) (\<lambda>comma.
     if \<not> comma then retP (Some node)
     else
       thenP nextP
      (thenP incNonLHSCount
      (bindP (needP pa) (\<lambda>right.
       loopP n (\<lambda>commaNode.
         bindP (matchP COMMA) (\<lambda>comma.
         if comma then
           thenP nextP
          (bindP (needP pa) (\<lambda>right. retP (Inl (appendToComma commaNode right))))
         else retP (Inr (Some commaNode)))) (createCommaExpr node right)))))))"

text \<open>The switch of \<open>parseAssignmentExpression\<close>; \<open>None\<close> is its default case.\<close>

definition assignmentOperator :: "JSTokenType \<Rightarrow> Operator option" where
  "assignmentOperator t =
    (case t of
       EQUAL \<Rightarrow> Some OpEqual
     | PLUSEQUAL \<Rightarrow> Some OpPlusEq
     | MINUSEQUAL \<Rightarrow> Some OpMinusEq
     | MULTEQUAL \<Rightarrow> Some OpMultEq
     | DIVEQUAL \<Rightarrow> Some OpDivEq
     | LSHIFTEQUAL \<Rightarrow> Some OpLShift
     | RSHIFTEQUAL \<Rightarrow> Some OpRShift
     | URSHIFTEQUAL \<Rightarrow> Some OpURShift
     | ANDEQUAL \<Rightarrow> Some OpAndEq
     | XOREQUAL \<Rightarrow> Some OpXOrEq
     | OREQUAL \<Rightarrow> Some OpOrEq
     | MODEQUAL \<Rightarrow> Some OpModEq
     | _ \<Rightarrow> None)"

text \<open>\<open>while (assignmentStack) lhs = context.createAssignment(\<dots>)\<close>\<close>

primrec createAssignments :: "nat \<Rightarrow> Node \<Rightarrow> Node parser" where
  "createAssignments 0 lhs = retP lhs"
| "createAssignments (Suc assignmentStack) lhs =
    bindP (contextP (createAssignment lhs)) (createAssignments assignmentStack)"

text \<open>
  The loop of \<open>parseAssignmentExpression\<close>, over \<open>lhs\<close>, \<open>start\<close>, \<open>assignmentStack\<close> and
  \<open>hadAssignment\<close>; \<open>pc\<close> is \<open>parseConditionalExpression\<close>.
\<close>

definition parseAssignmentExpression_step ::
  "treeP \<Rightarrow> int \<Rightarrow> Node \<times> nat \<times> nat \<times> bool \<Rightarrow>
    (Node \<times> nat \<times> nat \<times> bool + Node \<times> nat \<times> bool) parser" where
  "parseAssignmentExpression_step pc initialNonLHSCount loopVars =
    (case loopVars of (lhs, start, assignmentStack, hadAssignment) \<Rightarrow>
      bindP (getP tokenType) (\<lambda>type.
      case assignmentOperator type of
        None \<Rightarrow> retP (Inr (lhs, assignmentStack, hadAssignment))
      | Some op \<Rightarrow>
          bindP (getP tokenStart) (\<lambda>divot.
          bindP (getP m_assignmentCount) (\<lambda>count.
          bindP (contextP (\<lambda>b. Some (assignmentStackAppend assignmentStack lhs start divot count op b)))
            (\<lambda>assignmentStack'.
          thenP incAssignmentCount
         (thenP nextP
         (bindP (needP pc) (\<lambda>lhs'.
          bindP (getP m_nonLHSCount) (\<lambda>nonLHS.
          retP (if initialNonLHSCount \<noteq> nonLHS then Inr (lhs', assignmentStack', True)
                else Inl (lhs', divot, assignmentStack', True)))))))))))"

definition parseConditionalExpression :: "treeP \<Rightarrow> treeP \<Rightarrow> treeP" where
  "parseConditionalExpression pb pa = functionP None
    (bindP (needP pb) (\<lambda>cond.
     bindP (matchP QUESTION) (\<lambda>question.
     if \<not> question then retP (Some cond)
     else
       thenP incNonLHSCount
      (thenP nextP
      (bindP pa (\<lambda>lhs.
       thenP (consumeOrFail COLON)
      (bindP (needP pa) (\<lambda>rhs.
       retP (Some (createConditionalExpr cond lhs rhs))))))))))"

definition isUnaryOp :: "JSTokenType \<Rightarrow> bool" where
  "isUnaryOp token \<longleftrightarrow> tokenValue token AND UnaryOpTokenFlag \<noteq> 0"

definition isBinaryOperator :: "bool \<Rightarrow> JSTokenType \<Rightarrow> int" where
  "isBinaryOperator allowsIn token =
    (if allowsIn
     then tokenValue token AND
            push_bit BinaryOpTokenAllowsInPrecedenceAdditionalShift BinaryOpTokenPrecedenceMask
     else tokenValue token AND BinaryOpTokenPrecedenceMask)"

text \<open>
  The body that the two inner loops of \<open>parseBinaryExpression\<close> share, from its \<open>ASSERT\<close> on; the
  result is the new \<open>operandStackDepth\<close>.
\<close>

definition reduceBinary :: "int \<Rightarrow> int parser" where
  "reduceBinary operandStackDepth =
    thenP (assertP (operandStackDepth > 1))
   (bindP (readContextP (getFromOperandStack 1)) (\<lambda>rhs.
    bindP (readContextP (getFromOperandStack 2)) (\<lambda>lhs.
    bindP (contextP (shrinkOperandStackBy operandStackDepth 2)) (\<lambda>operandStackDepth.
    bindP (contextP (appendBinaryOperation operandStackDepth lhs rhs)) (\<lambda>operandStackDepth.
    thenP (contextP (\<lambda>b. map_option (\<lambda>b'. ((), b')) (operatorStackPop b)))
   (retP operandStackDepth))))))"

primrec reduceHigher :: "int \<Rightarrow> nat \<Rightarrow> int \<Rightarrow> (nat \<times> int) parser" where
  "reduceHigher precedence 0 operandStackDepth = retP (0, operandStackDepth)"
| "reduceHigher precedence (Suc operatorStackDepth) operandStackDepth =
    bindP (readContextP (operatorStackHasHigherPrecedence precedence)) (\<lambda>higher.
    if higher then
      bindP (reduceBinary operandStackDepth) (\<lambda>operandStackDepth'.
      reduceHigher precedence operatorStackDepth operandStackDepth')
    else retP (Suc operatorStackDepth, operandStackDepth))"

primrec reduceAll :: "nat \<Rightarrow> int \<Rightarrow> int parser" where
  "reduceAll 0 operandStackDepth = retP operandStackDepth"
| "reduceAll (Suc operatorStackDepth) operandStackDepth =
    bindP (reduceBinary operandStackDepth) (reduceAll operatorStackDepth)"

definition parseBinaryExpression_step ::
  "treeP \<Rightarrow> int \<times> nat \<Rightarrow> (int \<times> nat + int \<times> nat) parser" where
  "parseBinaryExpression_step pu depths =
    (case depths of (operandStackDepth, operatorStackDepth) \<Rightarrow>
      bindP (getP tokenStart) (\<lambda>exprStart.
      bindP (getP m_assignmentCount) (\<lambda>initialAssignments.
      bindP (needP pu) (\<lambda>current.
      bindP (getP m_lastTokenEnd) (\<lambda>end.
      bindP (getP m_assignmentCount) (\<lambda>assignments.
      bindP (contextP (\<lambda>b. Some (appendBinaryExpressionInfo operandStackDepth current exprStart end end
                                  (initialAssignments \<noteq> assignments) b))) (\<lambda>operandStackDepth.
      bindP (getP (\<lambda>s. isBinaryOperator (m_allowsIn s) (tokenType s))) (\<lambda>precedence.
      if precedence = 0 then retP (Inr (operandStackDepth, operatorStackDepth))
      else
        thenP incNonLHSCount
       (bindP (getP tokenType) (\<lambda>operatorToken.
        thenP nextP
       (bindP (reduceHigher precedence operatorStackDepth operandStackDepth)
          (\<lambda>(operatorStackDepth, operandStackDepth).
        bindP (contextP (\<lambda>b. Some (operatorStackAppend operatorStackDepth operatorToken precedence b)))
          (\<lambda>operatorStackDepth.
        retP (Inl (operandStackDepth, operatorStackDepth)))))))))))))))"

definition parseBinaryExpression :: "nat \<Rightarrow> treeP \<Rightarrow> treeP" where
  "parseBinaryExpression n pu = functionP None
    (bindP (loopP n (parseBinaryExpression_step pu) (0, 0)) (\<lambda>(operandStackDepth, operatorStackDepth).
     thenP (reduceAll operatorStackDepth operandStackDepth)
    (bindP (contextP popOperandStack) (\<lambda>result. retP (Some result)))))"

text \<open>The loop at the end of \<open>parseUnaryExpression\<close>, from the innermost operator outwards.\<close>

definition applyUnaryToken :: "JSTokenType \<Rightarrow> Node \<Rightarrow> Node parser" where
  "applyUnaryToken type expr =
    (case type of
       EXCLAMATION \<Rightarrow> retP (createLogicalNot expr)
     | TILDE \<Rightarrow> retP (makeBitwiseNotNode expr)
     | MINUS \<Rightarrow> retP (makeNegateNode expr)
     | PLUS \<Rightarrow> retP (createUnaryPlus expr)
     | PLUSPLUS \<Rightarrow> thenP incAssignmentCount (retP (makePrefixNode expr OpPlusPlus))
     | AUTOPLUSPLUS \<Rightarrow> thenP incAssignmentCount (retP (makePrefixNode expr OpPlusPlus))
     | MINUSMINUS \<Rightarrow> thenP incAssignmentCount (retP (makePrefixNode expr OpMinusMinus))
     | AUTOMINUSMINUS \<Rightarrow> thenP incAssignmentCount (retP (makePrefixNode expr OpMinusMinus))
     | TYPEOF \<Rightarrow> retP (makeTypeOfNode expr)
     | VOIDTOKEN \<Rightarrow> retP (createVoid expr)
     | DELETETOKEN \<Rightarrow> retP (makeDeleteNode expr)
     | _ \<Rightarrow> crashP ExplicitCrash)"

primrec applyUnaryTokens :: "nat \<Rightarrow> Node \<Rightarrow> Node parser" where
  "applyUnaryTokens 0 expr = retP expr"
| "applyUnaryTokens (Suc tokenStackDepth) expr =
    bindP (readContextP unaryTokenStackLast) (\<lambda>(type, _).
    bindP (applyUnaryToken type expr) (\<lambda>expr'.
    thenP (contextP (\<lambda>b. map_option (\<lambda>b'. ((), b')) (unaryTokenStackRemoveLast b)))
   (applyUnaryTokens tokenStackDepth expr')))"

definition parseUnaryOperators :: "nat \<Rightarrow> nat parser" where
  "parseUnaryOperators n =
    loopP n (\<lambda>tokenStackDepth.
      bindP (getP tokenType) (\<lambda>type.
      if isUnaryOp type then
        thenP incNonLHSCount
       (bindP (getP tokenStart) (\<lambda>start.
        bindP (contextP (\<lambda>b. Some (appendUnaryToken tokenStackDepth type start b))) (\<lambda>tokenStackDepth.
        thenP nextP
       (retP (Inl tokenStackDepth)))))
      else retP (Inr tokenStackDepth))) 0"

definition parsePostfix :: "Node \<Rightarrow> Node parser" where
  "parsePostfix expr =
    bindP (getP tokenType) (\<lambda>type.
    case type of
      PLUSPLUS \<Rightarrow>
        thenP incNonLHSCount
       (thenP incAssignmentCount
       (thenP nextP
       (retP (makePostfixNode expr OpPlusPlus))))
    | MINUSMINUS \<Rightarrow>
        thenP incNonLHSCount
       (thenP incAssignmentCount
       (thenP nextP
       (retP (makePostfixNode expr OpMinusMinus))))
    | _ \<Rightarrow> retP expr)"

definition parseUnaryExpression :: "nat \<Rightarrow> treeP \<Rightarrow> treeP" where
  "parseUnaryExpression n pm = functionP None
    (allowInOverrideP
      (bindP (parseUnaryOperators n) (\<lambda>tokenStackDepth.
       bindP (needP pm) (\<lambda>expr.
       bindP (parsePostfix expr) (\<lambda>expr.
       bindP (applyUnaryTokens tokenStackDepth expr) (\<lambda>expr.
       retP (Some expr)))))))"

subsection \<open>Functions\<close>

text \<open>\<open>parseFormalParameters\<close> returns the list and, through a reference, \<open>usesArguments\<close>.\<close>

definition parseFormalParameters :: "nat \<Rightarrow> (Node option \<times> bool) parser" where
  "parseFormalParameters n = functionP (None, False)
    (thenP (matchOrFail IDENT)
    (bindP (getP tokenIdent) (\<lambda>ident.
     thenP nextP
    (loopP n (\<lambda>(list, usesArguments).
       bindP (matchP COMMA) (\<lambda>comma.
       if comma then
         thenP nextP
        (thenP (matchOrFail IDENT)
        (bindP (getP tokenIdent) (\<lambda>ident.
         thenP nextP
        (retP (Inl (createFormalParameterList2 list ident,
                    usesArguments \<or> propertyNames_arguments = ident))))))
       else retP (Inr (Some list, usesArguments))))
      (createFormalParameterList ident, propertyNames_arguments = ident)))))"

definition parseFunctionBody :: "nat \<Rightarrow> treeP \<Rightarrow> treeP" where
  "parseFunctionBody n ps = functionP None
    (bindP (matchP CLOSEBRACE) (\<lambda>closed.
     if closed then retP (Some (createFunctionBody None))
     else
       bindP (withBuilderP (needP (parseSourceElements n ps))) (\<lambda>function.
       retP (Some (createFunctionBody (Some function))))))"

text \<open>
  \<open>parseFunctionInfo\<close>: \<open>None\<close> is the result \<open>false\<close>, otherwise the values of \<open>name\<close>,
  \<open>parameters\<close> and \<open>body\<close>. \<open>name0\<close> is what the caller has put into \<open>name\<close>, and \<open>None\<close> there a
  null pointer. \<open>setUsesArguments\<close> does nothing.
\<close>

definition parseFunctionInfo ::
  "nat \<Rightarrow> treeP \<Rightarrow> bool \<Rightarrow> uchars option \<Rightarrow> (uchars option \<times> Node option \<times> Node) option parser" where
  "parseFunctionInfo n ps needsName name0 = functionP None
    (bindP (matchP IDENT) (\<lambda>hasName.
     if \<not> hasName \<and> needsName then retP None
     else
       bindP (if hasName then bindP (getP tokenIdent) (\<lambda>ident. thenP nextP (retP (Some ident)))
              else retP name0) (\<lambda>name.
       thenP (consumeOrFail OPENPAREN)
      (bindP (matchP CLOSEPAREN) (\<lambda>noParameters.
       bindP (if noParameters then retP (None, False)
              else bindP (parseFormalParameters n) (\<lambda>(parameters, usesArguments).
                   thenP (failIfFalse (parameters \<noteq> None)) (retP (parameters, usesArguments))))
        (\<lambda>(parameters, usesArguments).
       thenP (consumeOrFail CLOSEPAREN)
      (thenP (matchOrFail OPENBRACE)
      (thenP nextP
      (bindP (needP (parseFunctionBody n ps)) (\<lambda>body.
       thenP (matchOrFail CLOSEBRACE)
      (thenP nextP
      (retP (Some (name, parameters, body))))))))))))))"

definition parseFunctionDeclaration :: "nat \<Rightarrow> treeP \<Rightarrow> treeP" where
  "parseFunctionDeclaration n ps = functionP None
    (bindP (matchP FUNCTION) (\<lambda>f. thenP (assertP f)
    (thenP nextP
    (bindP (parseFunctionInfo n ps True None) (\<lambda>info.
     case info of
       None \<Rightarrow> failP
     | Some (name, parameters, body) \<Rightarrow>
         (case name of
            None \<Rightarrow> failP
          | Some name \<Rightarrow> retP (Some (createFuncDeclStatement name body parameters))))))))"

subsection \<open>Literals\<close>

text \<open>
  The case \<open>IDENT\<close>/\<open>STRING\<close> of \<open>parseProperty\<close>, at the label \<open>namedProperty\<close> when \<open>wasIdent\<close>.
  Accessor properties end in \<open>createGetterOrSetterProperty\<close>, which is \<open>CRASH()\<close>.
\<close>

definition parseNamedProperty :: "nat \<Rightarrow> treeP \<Rightarrow> treeP \<Rightarrow> bool \<Rightarrow> treeP" where
  "parseNamedProperty n ps pa wasIdent =
    bindP (getP tokenIdent) (\<lambda>ident.
    thenP (nextP_type IgnoreReservedWords)
   (bindP (matchP COLON) (\<lambda>colon.
    if colon then
      thenP nextP
     (bindP (needP pa) (\<lambda>node.
      retP (Some (createProperty ident node Constant))))
    else
      thenP (failIfFalse wasIdent)
     (thenP (matchOrFail IDENT)
     (thenP (failIfFalse (ident = propertyNames_get \<or> ident = propertyNames_set))
     (bindP (parseFunctionInfo n ps True None) (\<lambda>info.
      thenP (failIfFalse (info \<noteq> None))
     (crashP AccessorProperty)))))))) "

definition parseProperty :: "nat \<Rightarrow> treeP \<Rightarrow> treeP \<Rightarrow> treeP" where
  "parseProperty n ps pa = functionP None
    (bindP (getP tokenType) (\<lambda>type.
     if type = IDENT then parseNamedProperty n ps pa True
     else if type = STRING then parseNamedProperty n ps pa False
     else if type = NUMBER then
       bindP (getP (\<lambda>s. p_numberToString s (doubleValue (m_data (m_token s))))) (\<lambda>propertyName.
       thenP nextP
      (thenP (consumeOrFail COLON)
      (bindP (needP pa) (\<lambda>node.
       retP (Some (createProperty propertyName node Constant))))))
     else
       thenP (failIfFalse (tokenValue type AND KeywordTokenFlag \<noteq> 0))
      (parseNamedProperty n ps pa True)))"

text \<open>
  \<open>parseStrictObjectLiteral\<close>. The stub \<open>ObjectValidationMap::add\<close> returns an iterator that
  dereferences null and \<open>false\<close>, so from the second property on the duplicate check reads through
  a null pointer.
\<close>

definition parseStrictObjectLiteral :: "nat \<Rightarrow> treeP \<Rightarrow> treeP \<Rightarrow> treeP" where
  "parseStrictObjectLiteral n ps pa = functionP None
    (thenP (consumeOrFail OPENBRACE)
    (bindP (matchP CLOSEBRACE) (\<lambda>empty.
     if empty then thenP nextP (retP (Some (createObjectLiteral None)))
     else
       bindP (needP (parseProperty n ps pa)) (\<lambda>property.
       bindP (loopP n (\<lambda>tail.
         bindP (matchP COMMA) (\<lambda>comma.
         if \<not> comma then retP (Inr tail)
         else
           thenP nextP
          (bindP (matchP CLOSEBRACE) (\<lambda>closed.
           if closed then retP (Inr tail)
           else
             bindP (needP (parseProperty n ps pa)) (\<lambda>property.
             bindP (getP m_syntaxAlreadyValidated) (\<lambda>validated.
             thenP (if validated then retP () else crashP NullDereference)
            (retP (Inl (createPropertyList2 property tail)))))))))
         (createPropertyList property)) (\<lambda>propertyList.
       thenP (consumeOrFail CLOSEBRACE)
      (retP (Some (createObjectLiteral (Some propertyList)))))))))"

text \<open>The restart as a strict literal: back to the opening brace.\<close>

definition restartStrict :: "nat \<Rightarrow> treeP \<Rightarrow> treeP \<Rightarrow> int \<Rightarrow> treeP" where
  "restartStrict n ps pa braceOffset =
    thenP (lexerP (\<lambda>lx. ((), setOffset (nat braceOffset) lx)))
   (thenP nextP
   (parseStrictObjectLiteral n ps pa))"

definition parseObjectLiteral :: "nat \<Rightarrow> treeP \<Rightarrow> treeP \<Rightarrow> treeP" where
  "parseObjectLiteral n ps pa = functionP None
    (bindP (getP (\<lambda>s. intValue (m_data (m_token s)))) (\<lambda>braceOffset.
     thenP (consumeOrFail OPENBRACE)
    (bindP (matchP CLOSEBRACE) (\<lambda>empty.
     if empty then thenP nextP (retP (Some (createObjectLiteral None)))
     else
       bindP (needP (parseProperty n ps pa)) (\<lambda>property.
       bindP (getP m_syntaxAlreadyValidated) (\<lambda>validated.
       if \<not> validated \<and> m_propertyType property \<noteq> Constant then restartStrict n ps pa braceOffset
       else
         bindP (loopP n (\<lambda>tail.
           bindP (matchP COMMA) (\<lambda>comma.
           if \<not> comma then retP (Inr (Inl tail))
           else
             thenP nextP
            (bindP (matchP CLOSEBRACE) (\<lambda>closed.
             if closed then retP (Inr (Inl tail))
             else
               bindP (needP (parseProperty n ps pa)) (\<lambda>property.
               if \<not> validated \<and> m_propertyType property \<noteq> Constant
               then bindP (restartStrict n ps pa braceOffset) (\<lambda>r. retP (Inr (Inr r)))
               else retP (Inl (createPropertyList2 property tail)))))))
           (createPropertyList property)) (\<lambda>r.
         case r of
           Inl propertyList \<Rightarrow>
             thenP (consumeOrFail CLOSEBRACE)
            (retP (Some (createObjectLiteral (Some propertyList))))
         | Inr result \<Rightarrow> retP result)))))))"

text \<open>\<open>while (match(COMMA)) { next(); elisions++; }\<close>; the builder ignores the count.\<close>

definition skipElisions :: "nat \<Rightarrow> unit parser" where
  "skipElisions n =
    loopP n (\<lambda>_. bindP (matchP COMMA) (\<lambda>comma. if comma then thenP nextP (retP (Inl ())) else retP (Inr ()))) ()"

definition parseArrayLiteral :: "nat \<Rightarrow> treeP \<Rightarrow> treeP" where
  "parseArrayLiteral n pa = functionP None
    (thenP (consumeOrFail OPENBRACKET)
    (thenP (skipElisions n)
    (bindP (matchP CLOSEBRACKET) (\<lambda>empty.
     if empty then thenP nextP (retP (Some (createArray None)))
     else
       bindP (needP pa) (\<lambda>elem.
       bindP (loopP n (\<lambda>elementList.
         bindP (matchP COMMA) (\<lambda>comma.
         if \<not> comma then retP (Inr (elementList, False))
         else
           thenP nextP
          (thenP (skipElisions n)
          (bindP (matchP CLOSEBRACKET) (\<lambda>closed.
           if closed then thenP nextP (retP (Inr (elementList, True)))
           else
             bindP (needP pa) (\<lambda>elem.
             retP (Inl (createElementList2 elementList elem))))))))
         (createElementList elem)) (\<lambda>(elementList, closed).
       thenP (if closed then retP () else consumeOrFail CLOSEBRACKET)
      (retP (Some (createArray (Some elementList))))))))))"

definition parsePrimaryExpression :: "nat \<Rightarrow> treeP \<Rightarrow> treeP \<Rightarrow> treeP" where
  "parsePrimaryExpression n ps pa = functionP None
    (bindP (getP tokenType) (\<lambda>type.
     case type of
       OPENBRACE \<Rightarrow> parseObjectLiteral n ps pa
     | OPENBRACKET \<Rightarrow> parseArrayLiteral n pa
     | OPENPAREN \<Rightarrow>
         thenP nextP
        (bindP (getP m_nonLHSCount) (\<lambda>oldNonLHSCount.
         bindP (parseExpression n pa) (\<lambda>result.
         thenP (modP (\<lambda>s. s\<lparr>m_nonLHSCount := oldNonLHSCount\<rparr>))
        (thenP (consumeOrFail CLOSEPAREN)
        (retP result)))))
     | THISTOKEN \<Rightarrow> thenP nextP (retP (Some thisExpr))
     | IDENT \<Rightarrow> bindP (getP tokenIdent) (\<lambda>ident. thenP nextP (retP (Some (createResolve ident))))
     | STRING \<Rightarrow> bindP (getP tokenIdent) (\<lambda>ident. thenP nextP (retP (Some (createString ident))))
     | NUMBER \<Rightarrow>
         bindP (getP (\<lambda>s. doubleValue (m_data (m_token s)))) (\<lambda>d.
         thenP nextP (retP (Some (createNumberExpr d))))
     | NULLTOKEN \<Rightarrow> thenP nextP (retP (Some createNull))
     | TRUETOKEN \<Rightarrow> thenP nextP (retP (Some (createBoolean True)))
     | FALSETOKEN \<Rightarrow> thenP nextP (retP (Some (createBoolean False)))
     | DIVEQUAL \<Rightarrow>
         bindP (lexerP (scanRegExp 61)) (\<lambda>r.
         case r of
           None \<Rightarrow> failP
         | Some (pattern, flags) \<Rightarrow> thenP nextP (retP (Some (createRegex pattern flags))))
     | DIVIDE \<Rightarrow>
         bindP (lexerP (scanRegExp 0)) (\<lambda>r.
         case r of
           None \<Rightarrow> failP
         | Some (pattern, flags) \<Rightarrow> thenP nextP (retP (Some (createRegex pattern flags))))
     | _ \<Rightarrow> failP))"

subsection \<open>Calls and member accesses\<close>

definition parseArguments :: "nat \<Rightarrow> treeP \<Rightarrow> treeP" where
  "parseArguments n pa = functionP None
    (thenP (consumeOrFail OPENPAREN)
    (bindP (matchP CLOSEPAREN) (\<lambda>empty.
     if empty then thenP nextP (retP (Some (createArguments None)))
     else
       bindP (needP pa) (\<lambda>firstArg.
       bindP (loopP n (\<lambda>argList.
         bindP (matchP COMMA) (\<lambda>comma.
         if comma then
           thenP nextP
          (bindP (needP pa) (\<lambda>arg. retP (Inl (createArgumentsList2 argList arg))))
         else retP (Inr argList))) (createArgumentsList firstArg)) (\<lambda>argList.
       thenP (consumeOrFail CLOSEPAREN)
      (retP (Some (createArguments (Some argList)))))))))"

text \<open>
  The loop of \<open>parseMemberExpression\<close>, over \<open>base\<close> and \<open>newCount\<close>. In the case \<open>OPENPAREN\<close> the
  test \<open>match(OPENPAREN)\<close> repeats the case label; its \<open>else\<close> branch is never taken.
\<close>

definition parseMemberExpression_step ::
  "nat \<Rightarrow> treeP \<Rightarrow> Node \<times> nat \<Rightarrow> (Node \<times> nat + Node \<times> nat) parser" where
  "parseMemberExpression_step n pa loopVars =
    (case loopVars of (base, newCount) \<Rightarrow>
      bindP (getP tokenType) (\<lambda>type.
      if type = OPENBRACKET then
        thenP nextP
       (bindP (getP m_nonLHSCount) (\<lambda>nonLHSCount.
        bindP (needP (parseExpression n pa)) (\<lambda>property.
        bindP (consumeP CLOSEBRACKET) (\<lambda>closed.
        thenP (failIfFalse closed)
       (thenP (modP (\<lambda>s. s\<lparr>m_nonLHSCount := nonLHSCount\<rparr>))
       (retP (Inl (createBracketAccess base property, newCount))))))))
      else if type = OPENPAREN then
        (if newCount > 0 then
           bindP (needP (parseArguments n pa)) (\<lambda>arguments.
           retP (Inl (createNewExpr_args base arguments, newCount - 1)))
         else
           bindP (getP m_nonLHSCount) (\<lambda>nonLHSCount.
           bindP (needP (parseArguments n pa)) (\<lambda>arguments.
           thenP (modP (\<lambda>s. s\<lparr>m_nonLHSCount := nonLHSCount\<rparr>))
          (retP (Inl (makeFunctionCallNode base arguments, newCount))))))
      else if type = DOT then
        thenP (nextP_type IgnoreReservedWords)
       (thenP (matchOrFail IDENT)
       (bindP (getP tokenIdent) (\<lambda>ident.
        thenP nextP
       (retP (Inl (createDotAccess base ident, newCount))))))
      else retP (Inr (base, newCount))))"

text \<open>\<open>while (newCount--) base = context.createNewExpr(\<dots>)\<close>\<close>

primrec createNewExprs :: "nat \<Rightarrow> Node \<Rightarrow> Node" where
  "createNewExprs 0 base = base"
| "createNewExprs (Suc newCount) base = createNewExprs newCount (createNewExpr base)"

definition countNew :: "nat \<Rightarrow> nat parser" where
  "countNew n =
    loopP n (\<lambda>newCount.
      bindP (matchP NEW) (\<lambda>new.
      if new then thenP nextP (retP (Inl (Suc newCount))) else retP (Inr newCount))) 0"

definition parseMemberExpression :: "nat \<Rightarrow> treeP \<Rightarrow> treeP \<Rightarrow> treeP" where
  "parseMemberExpression n ps pa = functionP None
    (bindP (countNew n) (\<lambda>newCount.
     bindP (matchP FUNCTION) (\<lambda>function.
     bindP (if function then
              thenP nextP
             (bindP (parseFunctionInfo n ps False (Some nullIdentifier)) (\<lambda>info.
              case info of
                None \<Rightarrow> failP
              | Some (name, parameters, body) \<Rightarrow>
                  (case name of
                     None \<Rightarrow> crashP NullDereference
                   | Some name \<Rightarrow> retP (createFunctionExpr name body parameters))))
            else needP (parsePrimaryExpression n ps pa)) (\<lambda>base.
     bindP (loopP n (parseMemberExpression_step n pa) (base, newCount)) (\<lambda>(base, newCount).
     retP (Some (createNewExprs newCount base)))))))"

text \<open>
  \<open>parseAssignmentExpression\<close>, with the chain of functions below it:
  conditional, binary, unary and member expressions.
\<close>

definition conditionalExpression :: "nat \<Rightarrow> treeP \<Rightarrow> treeP \<Rightarrow> treeP" where
  "conditionalExpression n ps pa =
    parseConditionalExpression
      (parseBinaryExpression n (parseUnaryExpression n (parseMemberExpression n ps pa))) pa"

definition parseAssignmentExpression_body :: "nat \<Rightarrow> treeP \<Rightarrow> treeP \<Rightarrow> treeP" where
  "parseAssignmentExpression_body n ps pa = functionP None
    (bindP (getP tokenStart) (\<lambda>start.
     bindP (getP m_nonLHSCount) (\<lambda>initialNonLHSCount.
     bindP (needP (conditionalExpression n ps pa)) (\<lambda>lhs.
     bindP (getP m_nonLHSCount) (\<lambda>nonLHSCount.
     if initialNonLHSCount \<noteq> nonLHSCount then retP (Some lhs)
     else
       bindP (loopP n (parseAssignmentExpression_step (conditionalExpression n ps pa) initialNonLHSCount)
                (lhs, start, 0, False)) (\<lambda>(lhs, assignmentStack, hadAssignment).
       thenP (if hadAssignment then incNonLHSCount else retP ())
      (bindP (createAssignments assignmentStack lhs) (\<lambda>lhs.
       retP (Some lhs)))))))))"

end
