(* ===== verification/JSStatements.thy ===== *)
theory JSStatements
  imports JSParser
begin

text \<open>
  The statement level of \<open>parser/JSParser.cpp\<close>, the recursion that closes the calls of
  \<open>parseStatement\<close> and \<open>parseAssignmentExpression\<close>, the construction of the parser, and
  \<open>Parser::createSyntaxTree\<close> of \<open>parser/Parser.cpp\<close>. The arguments \<open>n\<close>, \<open>ps\<close> and \<open>pa\<close> are as in
  \<open>JSParser\<close>.
\<close>

subsection \<open>Loops\<close>

definition parseDoWhileStatement :: "nat \<Rightarrow> treeP \<Rightarrow> treeP \<Rightarrow> treeP" where
  "parseDoWhileStatement n ps pa = functionP None
    (bindP (matchP DO) (\<lambda>d. thenP (assertP d)
    (thenP nextP
    (bindP (needP ps) (\<lambda>statement.
     thenP (consumeOrFail WHILE)
    (thenP (consumeOrFail OPENPAREN)
    (bindP (needP (parseExpression n pa)) (\<lambda>expr.
     thenP (consumeOrFail CLOSEPAREN)
    (bindP (matchP SEMICOLON) (\<lambda>semicolon.
     thenP (if semicolon then nextP else retP ())
    (retP (Some (createDoWhileStatement statement expr)))))))))))))"

definition parseWhileStatement :: "nat \<Rightarrow> treeP \<Rightarrow> treeP \<Rightarrow> treeP" where
  "parseWhileStatement n ps pa = functionP None
    (bindP (matchP WHILE) (\<lambda>w. thenP (assertP w)
    (thenP nextP
    (thenP (consumeOrFail OPENPAREN)
    (bindP (needP (parseExpression n pa)) (\<lambda>expr.
     thenP (consumeOrFail CLOSEPAREN)
    (bindP (needP ps) (\<lambda>statement.
     retP (Some (createWhileStatement expr statement))))))))))"

text \<open>The condition and the increment of a \<open>for\<close> loop, each of which may be absent.\<close>

definition parseOptionalExpression :: "nat \<Rightarrow> treeP \<Rightarrow> bool \<Rightarrow> treeP" where
  "parseOptionalExpression n pa absent =
    (if absent then retP None
     else bindP (needP (parseExpression n pa)) (\<lambda>e. retP (Some e)))"

text \<open>\<open>parseForStatement\<close> from the label \<open>standardForLoop\<close> on.\<close>

definition parseStandardForLoop :: "nat \<Rightarrow> treeP \<Rightarrow> treeP \<Rightarrow> Node option \<Rightarrow> treeP" where
  "parseStandardForLoop n ps pa decls =
    thenP nextP
   (bindP (matchP SEMICOLON) (\<lambda>noCondition.
    bindP (parseOptionalExpression n pa noCondition) (\<lambda>condition.
    thenP (consumeOrFail SEMICOLON)
   (bindP (matchP CLOSEPAREN) (\<lambda>noIncrement.
    bindP (parseOptionalExpression n pa noIncrement) (\<lambda>increment.
    thenP (consumeOrFail CLOSEPAREN)
   (bindP (needP ps) (\<lambda>statement.
    retP (Some (createForLoop decls condition increment statement))))))))))"

text \<open>The case \<open>match(VAR)\<close> of \<open>parseForStatement\<close>.\<close>

definition parseForVar :: "nat \<Rightarrow> treeP \<Rightarrow> treeP \<Rightarrow> treeP" where
  "parseForVar n ps pa =
    thenP (modP (\<lambda>s. s\<lparr>m_allowsIn := False\<rparr>))
   (bindP (parseVarDeclarationList n pa) (\<lambda>(decls, declarations, forInTarget, forInInitializer).
    thenP (modP (\<lambda>s. s\<lparr>m_allowsIn := True\<rparr>))
   (thenP failIfError
   (bindP (matchP SEMICOLON) (\<lambda>semicolon.
    if declarations > 1 \<or> semicolon then parseStandardForLoop n ps pa decls
    else
      bindP (consumeP INTOKEN) (\<lambda>inToken.
      thenP (failIfFalse inToken)
     (bindP (needP (parseExpression n pa)) (\<lambda>expr.
      thenP (consumeOrFail CLOSEPAREN)
     (bindP (needP ps) (\<lambda>statement.
      retP (Some (createForInLoop_var forInTarget forInInitializer expr statement))))))))))))"

definition parseForStatement :: "nat \<Rightarrow> treeP \<Rightarrow> treeP \<Rightarrow> treeP" where
  "parseForStatement n ps pa = functionP None
    (bindP (matchP FOR) (\<lambda>f. thenP (assertP f)
    (thenP nextP
    (thenP (consumeOrFail OPENPAREN)
    (bindP (getP m_nonLHSCount) (\<lambda>nonLHSCount.
     bindP (matchP VAR) (\<lambda>var.
     if var then parseForVar n ps pa
     else
       bindP (matchP SEMICOLON) (\<lambda>noInit.
       bindP (if noInit then retP None
              else
                thenP (modP (\<lambda>s. s\<lparr>m_allowsIn := False\<rparr>))
               (bindP (parseExpression n pa) (\<lambda>decls.
                thenP (modP (\<lambda>s. s\<lparr>m_allowsIn := True\<rparr>))
               (thenP (failIfFalse (decls \<noteq> None))
               (retP decls))))) (\<lambda>decls.
       bindP (matchP SEMICOLON) (\<lambda>semicolon.
       if semicolon then parseStandardForLoop n ps pa decls
       else
         bindP (getP m_nonLHSCount) (\<lambda>nonLHSCount'.
         thenP (failIfFalse (nonLHSCount = nonLHSCount'))
        (thenP (consumeOrFail INTOKEN)
        (bindP (needP (parseExpression n pa)) (\<lambda>expr.
         thenP (consumeOrFail CLOSEPAREN)
        (bindP (needP ps) (\<lambda>statement.
         case decls of
           None \<Rightarrow> crashP NullDereference
         | Some lhs \<Rightarrow> retP (Some (createForInLoop lhs expr statement))))))))))))))))))"

subsection \<open>Jumps\<close>

text \<open>\<open>parseBreakStatement\<close> and \<open>parseContinueStatement\<close> differ in the node they make.\<close>

definition parseJump :: "(uchars option \<Rightarrow> Node) \<Rightarrow> treeP" where
  "parseJump create =
    thenP nextP
   (bindP autoSemiColon (\<lambda>ended.
    if ended then retP (Some (create None))
    else
      thenP (matchOrFail IDENT)
     (bindP (getP tokenIdent) (\<lambda>ident.
      thenP nextP
     (bindP autoSemiColon (\<lambda>ok. thenP (failIfFalse ok)
     (retP (Some (create (Some ident))))))))))"

definition parseBreakStatement :: treeP where
  "parseBreakStatement = functionP None
    (bindP (matchP BREAK) (\<lambda>b. thenP (assertP b) (parseJump createBreakStatement)))"

definition parseContinueStatement :: treeP where
  "parseContinueStatement = functionP None
    (bindP (matchP CONTINUE) (\<lambda>c. thenP (assertP c) (parseJump createContinueStatement)))"

definition parseReturnStatement :: "nat \<Rightarrow> treeP \<Rightarrow> treeP" where
  "parseReturnStatement n pa = functionP None
    (bindP (matchP RETURN) (\<lambda>r. thenP (assertP r)
    (thenP nextP
    (bindP autoSemiColon (\<lambda>ended.
     if ended then retP (Some (createReturnStatement None))
     else
       bindP (needP (parseExpression n pa)) (\<lambda>expr.
       bindP autoSemiColon (\<lambda>ok. thenP (failIfFalse ok)
      (retP (Some (createReturnStatement (Some expr)))))))))))"

definition parseThrowStatement :: "nat \<Rightarrow> treeP \<Rightarrow> treeP" where
  "parseThrowStatement n pa = functionP None
    (bindP (matchP THROW) (\<lambda>t. thenP (assertP t)
    (thenP nextP
    (bindP (needP (parseExpression n pa)) (\<lambda>expr.
     bindP autoSemiColon (\<lambda>ok. thenP (failIfFalse ok)
    (retP (Some (createThrowStatement expr)))))))))"

definition parseWithStatement :: "nat \<Rightarrow> treeP \<Rightarrow> treeP \<Rightarrow> treeP" where
  "parseWithStatement n ps pa = functionP None
    (bindP (matchP WITH) (\<lambda>w. thenP (assertP w)
    (thenP nextP
    (thenP (consumeOrFail OPENPAREN)
    (bindP (needP (parseExpression n pa)) (\<lambda>expr.
     thenP (consumeOrFail CLOSEPAREN)
    (bindP (needP ps) (\<lambda>statement.
     retP (Some (createWithStatement expr statement))))))))))"

subsection \<open>switch\<close>

text \<open>One clause, after its \<open>case\<close> token has matched.\<close>

definition parseSwitchClause :: "nat \<Rightarrow> treeP \<Rightarrow> treeP \<Rightarrow> Node parser" where
  "parseSwitchClause n ps pa =
    thenP nextP
   (bindP (needP (parseExpression n pa)) (\<lambda>condition.
    thenP (consumeOrFail COLON)
   (bindP (needP (parseSourceElements n ps)) (\<lambda>statements.
    retP (createClause (Some condition) statements)))))"

definition parseSwitchClauses :: "nat \<Rightarrow> treeP \<Rightarrow> treeP \<Rightarrow> treeP" where
  "parseSwitchClauses n ps pa = functionP None
    (bindP (matchP CASE) (\<lambda>isCase.
     if \<not> isCase then retP None
     else
       bindP (parseSwitchClause n ps pa) (\<lambda>clause.
       loopP n (\<lambda>clauseList.
         bindP (matchP CASE) (\<lambda>isCase.
         if isCase then
           bindP (parseSwitchClause n ps pa) (\<lambda>clause.
           retP (Inl (createClauseList2 clauseList clause)))
         else retP (Inr (Some clauseList)))) (createClauseList clause))))"

definition parseSwitchDefaultClause :: "nat \<Rightarrow> treeP \<Rightarrow> treeP" where
  "parseSwitchDefaultClause n ps = functionP None
    (bindP (matchP DEFAULT) (\<lambda>isDefault.
     if \<not> isDefault then retP None
     else
       thenP nextP
      (thenP (consumeOrFail COLON)
      (bindP (needP (parseSourceElements n ps)) (\<lambda>statements.
       retP (Some (createClause None statements)))))))"

definition parseSwitchStatement :: "nat \<Rightarrow> treeP \<Rightarrow> treeP \<Rightarrow> treeP" where
  "parseSwitchStatement n ps pa = functionP None
    (bindP (matchP SWITCH) (\<lambda>w. thenP (assertP w)
    (thenP nextP
    (thenP (consumeOrFail OPENPAREN)
    (bindP (needP (parseExpression n pa)) (\<lambda>expr.
     thenP (consumeOrFail CLOSEPAREN)
    (thenP (consumeOrFail OPENBRACE)
    (bindP (parseSwitchClauses n ps pa) (\<lambda>firstClauses.
     thenP failIfError
    (bindP (parseSwitchDefaultClause n ps) (\<lambda>defaultClause.
     thenP failIfError
    (bindP (parseSwitchClauses n ps pa) (\<lambda>secondClauses.
     thenP failIfError
    (thenP (consumeOrFail CLOSEBRACE)
    (retP (Some (createSwitchStatement expr firstClauses defaultClause secondClauses)))))))))))))))))"

subsection \<open>Blocks, try, debugger\<close>

definition parseBlockStatement :: "nat \<Rightarrow> treeP \<Rightarrow> treeP" where
  "parseBlockStatement n ps = functionP None
    (bindP (matchP OPENBRACE) (\<lambda>b. thenP (assertP b)
    (thenP nextP
    (bindP (matchP CLOSEBRACE) (\<lambda>empty.
     if empty then thenP nextP (retP (Some (createBlockStatement None)))
     else
       bindP (needP (parseSourceElements n ps)) (\<lambda>subtree.
       thenP (matchOrFail CLOSEBRACE)
      (thenP nextP
      (retP (Some (createBlockStatement (Some subtree)))))))))))"

definition parseTryStatement :: "nat \<Rightarrow> treeP \<Rightarrow> treeP" where
  "parseTryStatement n ps = functionP None
    (bindP (matchP TRY) (\<lambda>t. thenP (assertP t)
    (thenP nextP
    (thenP (matchOrFail OPENBRACE)
    (bindP (needP (parseBlockStatement n ps)) (\<lambda>tryBlock.
     bindP (matchP CATCH) (\<lambda>hasCatch.
     bindP (if hasCatch then
              thenP nextP
             (thenP (consumeOrFail OPENPAREN)
             (thenP (matchOrFail IDENT)
             (bindP (getP tokenIdent) (\<lambda>ident.
              thenP nextP
             (thenP (consumeOrFail CLOSEPAREN)
             (thenP (matchOrFail OPENBRACE)
             (bindP (needP (parseBlockStatement n ps)) (\<lambda>catchBlock.
              retP (ident, Some catchBlock)))))))))
            else retP (nullIdentifier, None)) (\<lambda>(ident, catchBlock).
     bindP (matchP FINALLY) (\<lambda>hasFinally.
     bindP (if hasFinally then
              thenP nextP
             (thenP (matchOrFail OPENBRACE)
             (bindP (needP (parseBlockStatement n ps)) (\<lambda>finallyBlock.
              retP (Some finallyBlock))))
            else retP None) (\<lambda>finallyBlock.
     thenP (failIfFalse (catchBlock \<noteq> None \<or> finallyBlock \<noteq> None))
    (retP (Some (createTryStatement tryBlock ident catchBlock finallyBlock)))))))))))))"

definition parseDebuggerStatement :: treeP where
  "parseDebuggerStatement = functionP None
    (bindP (matchP DEBUGGER) (\<lambda>d. thenP (assertP d)
    (thenP nextP
    (bindP autoSemiColon (\<lambda>ok. thenP (failIfFalse ok)
    (retP (Some createDebugger)))))))"

subsection \<open>Expression statements and labels\<close>

definition parseExpressionOrLabelStatement :: "nat \<Rightarrow> treeP \<Rightarrow> treeP \<Rightarrow> treeP" where
  "parseExpressionOrLabelStatement n ps pa = functionP None
    (bindP (getP tokenIdent) (\<lambda>ident.
     bindP (getP m_tokenCount) (\<lambda>currentToken.
     bindP (needP (parseExpression n pa)) (\<lambda>expression.
     bindP autoSemiColon (\<lambda>ended.
     if ended then retP (Some (createExprStatement expression))
     else
       bindP (getP m_tokenCount) (\<lambda>tokenCount.
       thenP (failIfFalse (currentToken + 1 = tokenCount))
      (thenP (consumeOrFail COLON)
      (bindP (needP ps) (\<lambda>statement.
       retP (Some (createLabelStatement ident statement)))))))))))"

definition parseExpressionStatement :: "nat \<Rightarrow> treeP \<Rightarrow> treeP" where
  "parseExpressionStatement n pa = functionP None
    (bindP (needP (parseExpression n pa)) (\<lambda>expression.
     bindP autoSemiColon (\<lambda>ok. thenP (failIfFalse ok)
    (retP (Some (createExprStatement expression))))))"

subsection \<open>if\<close>

text \<open>
  \<open>parseIfStatement\<close> collects a chain of \<open>else if\<close> on two stacks and builds the nodes from the
  innermost out. The stacks are lists with the last element at the head; \<open>None\<close> is an access to
  an empty vector.
\<close>

definition parseElseBranch ::
  "nat \<Rightarrow> treeP \<Rightarrow> treeP \<Rightarrow> Node list \<times> Node list \<Rightarrow>
    (Node list \<times> Node list + Node list \<times> Node list \<times> bool) parser" where
  "parseElseBranch n ps pa stacks =
    (case stacks of (exprStack, statementStack) \<Rightarrow>
      thenP nextP
     (bindP (matchP IF) (\<lambda>elseIf.
      if \<not> elseIf then
        bindP (needP ps) (\<lambda>block.
        retP (Inr (exprStack, block # statementStack, True)))
      else
        thenP nextP
       (thenP (consumeOrFail OPENPAREN)
       (bindP (needP (parseExpression n pa)) (\<lambda>innerCondition.
        thenP (consumeOrFail CLOSEPAREN)
       (bindP (needP ps) (\<lambda>innerTrueBlock.
        bindP (matchP ELSE) (\<lambda>more.
        let stacks' = (innerCondition # exprStack, innerTrueBlock # statementStack)
        in retP (if more then Inl stacks' else Inr (fst stacks', snd stacks', False)))))))))))"

definition closeElseIf :: "Node list \<Rightarrow> Node list \<Rightarrow> bool \<Rightarrow> (Node list \<times> Node list) option" where
  "closeElseIf exprStack statementStack trailingElse =
    (if trailingElse then Some (exprStack, statementStack)
     else
       case (exprStack, statementStack) of
         (condition # exprs, trueBlock # statements) \<Rightarrow>
           Some (exprs, createIfStatement condition trueBlock # statements)
       | _ \<Rightarrow> None)"

fun foldElseIf :: "Node list \<Rightarrow> Node list \<Rightarrow> Node list option" where
  "foldElseIf [] statementStack = Some statementStack"
| "foldElseIf (condition # exprs) (falseBlock # trueBlock # statements) =
    foldElseIf exprs (createIfElseStatement condition trueBlock falseBlock # statements)"
| "foldElseIf (condition # exprs) statements = None"

definition elseChain :: "Node list \<Rightarrow> Node list \<Rightarrow> bool \<Rightarrow> Node option" where
  "elseChain exprStack statementStack trailingElse =
    (case closeElseIf exprStack statementStack trailingElse of
       None \<Rightarrow> None
     | Some (exprs, statements) \<Rightarrow>
         (case foldElseIf exprs statements of
            Some (falseBlock # _) \<Rightarrow> Some falseBlock
          | _ \<Rightarrow> None))"

definition parseIfStatement :: "nat \<Rightarrow> treeP \<Rightarrow> treeP \<Rightarrow> treeP" where
  "parseIfStatement n ps pa = functionP None
    (bindP (matchP IF) (\<lambda>i. thenP (assertP i)
    (thenP nextP
    (thenP (consumeOrFail OPENPAREN)
    (bindP (needP (parseExpression n pa)) (\<lambda>condition.
     thenP (consumeOrFail CLOSEPAREN)
    (bindP (needP ps) (\<lambda>trueBlock.
     bindP (matchP ELSE) (\<lambda>hasElse.
     if \<not> hasElse then retP (Some (createIfStatement condition trueBlock))
     else
       bindP (loopP n (parseElseBranch n ps pa) ([], []))
         (\<lambda>(exprStack, statementStack, trailingElse).
       case elseChain exprStack statementStack trailingElse of
         None \<Rightarrow> crashP VectorAssertion
       | Some falseBlock \<Rightarrow>
           retP (Some (createIfElseStatement condition trueBlock falseBlock)))))))))))) "

subsection \<open>parseStatement and the recursion\<close>

definition parseStatement_body :: "nat \<Rightarrow> treeP \<Rightarrow> treeP \<Rightarrow> treeP" where
  "parseStatement_body n ps pa =
    bindP (getP tokenType) (\<lambda>type.
    case type of
      OPENBRACE \<Rightarrow> parseBlockStatement n ps
    | VAR \<Rightarrow> parseVarDeclaration n pa
    | CONSTTOKEN \<Rightarrow> parseConstDeclaration n pa
    | FUNCTION \<Rightarrow> parseFunctionDeclaration n ps
    | SEMICOLON \<Rightarrow> thenP nextP (retP (Some createEmptyStatement))
    | IF \<Rightarrow> parseIfStatement n ps pa
    | DO \<Rightarrow> parseDoWhileStatement n ps pa
    | WHILE \<Rightarrow> parseWhileStatement n ps pa
    | FOR \<Rightarrow> parseForStatement n ps pa
    | CONTINUE \<Rightarrow> parseContinueStatement
    | BREAK \<Rightarrow> parseBreakStatement
    | RETURN \<Rightarrow> parseReturnStatement n pa
    | WITH \<Rightarrow> parseWithStatement n ps pa
    | SWITCH \<Rightarrow> parseSwitchStatement n ps pa
    | THROW \<Rightarrow> parseThrowStatement n pa
    | TRY \<Rightarrow> parseTryStatement n ps
    | DEBUGGER \<Rightarrow> parseDebuggerStatement
    | EOFTOK \<Rightarrow> retP None
    | CASE \<Rightarrow> retP None
    | CLOSEBRACE \<Rightarrow> retP None
    | DEFAULT \<Rightarrow> retP None
    | IDENT \<Rightarrow> parseExpressionOrLabelStatement n ps pa
    | _ \<Rightarrow> parseExpressionStatement n pa)"

text \<open>
  The two functions every recursion passes through. The argument bounds the depth of the calls.
\<close>

fun parseStatement :: "nat \<Rightarrow> treeP" and parseAssignmentExpression :: "nat \<Rightarrow> treeP" where
  "parseStatement 0 s = OutOfFuel"
| "parseStatement (Suc n) s =
    parseStatement_body n (parseStatement n) (parseAssignmentExpression n) s"
| "parseAssignmentExpression 0 s = OutOfFuel"
| "parseAssignmentExpression (Suc n) s =
    parseAssignmentExpression_body n (parseStatement n) (parseAssignmentExpression n) s"

subsection \<open>Construction and entry points\<close>

text \<open>
  The initialisers of the constructor \<open>JSParser::JSParser\<close>. \<open>token0\<close> is the uninitialised
  \<open>m_token\<close>, of which only \<open>line\<close> is set, to 0.
\<close>

definition JSParser_init ::
  "lexer \<Rightarrow> bool \<Rightarrow> JSToken \<Rightarrow> int list \<Rightarrow> (dbl \<Rightarrow> uchars) \<Rightarrow> pstate" where
  "JSParser_init lx isValid token0 arrays numberToString =
    \<lparr>m_lexer = lx, m_error = False,
     m_token = token0\<lparr>m_info := (m_info token0)\<lparr>tline := 0\<rparr>\<rparr>,
     m_allowsIn = True, m_tokenCount = 0, m_lastLine = 0, m_lastTokenEnd = 0,
     m_assignmentCount = 0, m_nonLHSCount = 0, m_syntaxAlreadyValidated = isValid,
     p_context = Builder, p_arrays = arrays, p_numberToString = numberToString\<rparr>"

text \<open>The body of the constructor, then \<open>JSParser::createSyntaxTree\<close>.\<close>

definition JSParser_ctor :: "unit parser" where
  "JSParser_ctor =
    thenP nextP
   (modP (\<lambda>s. s\<lparr>m_lexer := setLastLineNumber (tokenLine s) (m_lexer s)\<rparr>))"

definition JSParser_createSyntaxTree :: "nat \<Rightarrow> treeP" where
  "JSParser_createSyntaxTree n =
    thenP (modP (\<lambda>s. s\<lparr>p_context := Builder\<rparr>)) (parseSourceElements n (parseStatement n))"

definition jsCreateSyntaxTree :: "nat \<Rightarrow> treeP" where
  "jsCreateSyntaxTree n = thenP JSParser_ctor (JSParser_createSyntaxTree n)"

text \<open>
  \<open>Parser::createSyntaxTree\<close>. Besides the tree it reports \<open>errLine\<close>, the line of a lexical error
  or -1, and leaves the lexer cleared. \<open>lexer0\<close> is the lexer of the \<open>JSGlobalData\<close>, \<open>isValid\<close> is
  \<open>provider->isValid()\<close>.
\<close>

definition createSyntaxTree ::
  "nat \<Rightarrow> lexer \<Rightarrow> bool \<Rightarrow> JSToken \<Rightarrow> int list \<Rightarrow> (dbl \<Rightarrow> uchars) \<Rightarrow> uchars \<Rightarrow>
    (Node option \<times> int) outcome" where
  "createSyntaxTree n lexer0 isValid token0 arrays numberToString source =
    bindP (jsCreateSyntaxTree n) (\<lambda>tree.
    bindP (getP (\<lambda>s. if m_lexError (m_lexer s) then m_lineNumber (m_lexer s) else - 1)) (\<lambda>errLine.
    thenP (modP (\<lambda>s. s\<lparr>m_lexer := clear_lexer (m_lexer s)\<rparr>))
   (retP (tree, errLine))))
   (JSParser_init (setCode source (lexer0\<lparr>assertsOK := True\<rparr>)) isValid token0 arrays numberToString)"

end
