(* ===== verification/ParserWP.thy ===== *)
theory ParserWP
  imports LexerProps TreeShape JSStatements
begin

text \<open>
  A weakest-precondition calculus for the parser. \<open>wp m Q E s\<close>: run from \<open>s\<close>, the code \<open>m\<close> does
  not run out of fuel; if it returns, \<open>Q\<close> holds of the result and the state; if it executes
  \<open>fail()\<close>, \<open>E\<close> holds of the state; and if it ends the process it does so in one of the known
  ways. The relation \<open>run\<close> is what all parser functions keep: the invariant of the scanner, the
  measure of the remaining input, the error flag, and the stacks of the builder.
\<close>

subsection \<open>Weakest preconditions\<close>

definition known_crash :: "crash \<Rightarrow> bool" where
  "known_crash k \<longleftrightarrow> k = LexerAssertion \<or> k = NullConstDecl \<or> k = AccessorProperty"

lemma known_crash_simps [simp]:
  "known_crash LexerAssertion" "known_crash NullConstDecl" "known_crash AccessorProperty"
  "\<not> known_crash ParserAssertion" "\<not> known_crash VectorAssertion" "\<not> known_crash NullDereference"
  "\<not> known_crash ExplicitCrash"
  by (simp_all add: known_crash_def)

definition wp :: "'a parser \<Rightarrow> ('a \<Rightarrow> pstate \<Rightarrow> bool) \<Rightarrow> (pstate \<Rightarrow> bool) \<Rightarrow> pstate \<Rightarrow> bool" where
  "wp m Q E s \<longleftrightarrow>
     (case m s of
        Ret a t \<Rightarrow> Q a t
      | Fail t \<Rightarrow> E t
      | Crash k \<Rightarrow> known_crash k
      | OutOfFuel \<Rightarrow> False)"

lemma wp_mono:
  "wp m Q E s \<Longrightarrow> (\<And>a t. Q a t \<Longrightarrow> Q' a t) \<Longrightarrow> (\<And>t. E t \<Longrightarrow> E' t) \<Longrightarrow> wp m Q' E' s"
  by (auto simp: wp_def split: outcome.splits)

lemma wp_ret [wp_simps]: "wp (retP a) Q E s = Q a s"
  by (simp add: wp_def retP_def)

lemma wp_get [wp_simps]: "wp (getP f) Q E s = Q (f s) s"
  by (simp add: wp_def getP_def)

lemma wp_mod [wp_simps]: "wp (modP g) Q E s = Q () (g s)"
  by (simp add: wp_def modP_def)

lemma wp_fail [wp_simps]: "wp failP Q E s = E (s\<lparr>m_error := True\<rparr>)"
  by (simp add: wp_def failP_def)

lemma wp_crash [wp_simps]: "wp (crashP k) Q E s = known_crash k"
  by (simp add: wp_def crashP_def)

lemma wp_bind [wp_simps]:
  "wp (bindP m f) Q E s = wp m (\<lambda>a. wp (f a) Q E) E s"
  by (simp add: wp_def bindP_def split: outcome.splits)

lemma wp_then [wp_simps]:
  "wp (thenP m m') Q E s = wp m (\<lambda>_. wp m' Q E) E s"
  by (simp add: thenP_def wp_simps)

lemma wp_function [wp_simps]:
  "wp (functionP zero m) Q E s = wp m Q (Q zero) s"
  by (simp add: wp_def functionP_def split: outcome.splits)

lemma wp_need:
  "wp (needP m) Q E s =
     wp m (\<lambda>r t. case r of None \<Rightarrow> E (t\<lparr>m_error := True\<rparr>) | Some x \<Rightarrow> Q x t) E s"
  unfolding needP_def wp_bind
  by (rule arg_cong [where f = "\<lambda>X. wp m X E s"]) (auto simp: wp_simps fun_eq_iff split: option.splits)

lemma wp_failIfFalse [wp_simps]:
  "wp (failIfFalse b) Q E s = (if b then Q () s else E (s\<lparr>m_error := True\<rparr>))"
  by (simp add: failIfFalse_def wp_simps)

lemma wp_failIfError [wp_simps]:
  "wp failIfError Q E s = (if m_error s then E (s\<lparr>m_error := True\<rparr>) else Q () s)"
  by (simp add: failIfError_def wp_simps)

lemma wp_assert [wp_simps]: "wp (assertP b) Q E s = (b \<and> Q () s)"
  by (simp add: assertP_def wp_simps)

lemma wp_match [wp_simps]: "wp (matchP x) Q E s = Q (tokenType s = x) s"
  by (simp add: matchP_def wp_simps)

lemma wp_matchOrFail [wp_simps]:
  "wp (matchOrFail x) Q E s = (if tokenType s = x then Q () s else E (s\<lparr>m_error := True\<rparr>))"
  by (simp add: matchOrFail_def wp_simps)

lemma wp_counters [wp_simps]:
  "wp incNonLHSCount Q E s = Q () (s\<lparr>m_nonLHSCount := m_nonLHSCount s + 1\<rparr>)"
  "wp incAssignmentCount Q E s = Q () (s\<lparr>m_assignmentCount := m_assignmentCount s + 1\<rparr>)"
  by (simp_all add: incNonLHSCount_def incAssignmentCount_def wp_simps)

lemma wp_context [wp_simps]:
  "wp (contextP f) Q E s =
     (case f (p_context s) of None \<Rightarrow> False | Some (a, b) \<Rightarrow> Q a (s\<lparr>p_context := b\<rparr>))"
  by (simp add: wp_def contextP_def split: option.splits prod.splits)

lemma wp_readContext [wp_simps]:
  "wp (readContextP g) Q E s = (case g (p_context s) of None \<Rightarrow> False | Some a \<Rightarrow> Q a s)"
  by (simp add: wp_def readContextP_def split: option.splits)

lemma wp_withBuilder [wp_simps]:
  "wp (withBuilderP m) Q E s =
     wp m (\<lambda>a t. Q a (t\<lparr>p_context := p_context s\<rparr>)) (\<lambda>t. E (t\<lparr>p_context := p_context s\<rparr>))
       (s\<lparr>p_context := Builder\<rparr>)"
  by (simp add: wp_def withBuilderP_def split: outcome.splits)

lemma wp_allowInOverride [wp_simps]:
  "wp (allowInOverrideP m) Q E s =
     wp m (\<lambda>a t. Q a (t\<lparr>m_allowsIn := m_allowsIn s\<rparr>)) (\<lambda>t. E (t\<lparr>m_allowsIn := m_allowsIn s\<rparr>))
       (s\<lparr>m_allowsIn := True\<rparr>)"
  by (simp add: wp_def allowInOverrideP_def split: outcome.splits)

subsection \<open>The invariant and the measure\<close>

text \<open>
  What is on the stacks of the builder: well-formed nodes, binary operators that
  \<open>convertOperator\<close> knows, and unary operators.
\<close>

definition ctx_ok :: "builder \<Rightarrow> bool" where
  "ctx_ok b \<longleftrightarrow>
     list_all (\<lambda>i. wfNode (ai_node i)) (m_assignmentInfoStack b) \<and>
     list_all (\<lambda>p. wfNode (fst p)) (m_binaryOperandStack b) \<and>
     list_all (\<lambda>p. convertOperator_token (fst p) \<noteq> None) (m_binaryOperatorStack b) \<and>
     list_all (\<lambda>p. isUnaryOp (fst p)) (m_unaryTokenStack b)"

definition pinv :: "pstate \<Rightarrow> bool" where
  "pinv s \<longleftrightarrow>
     linv (m_lexer s) \<and> length (p_arrays s) = 10 \<and>
     (tokenType s \<noteq> ERRORTOK \<longrightarrow> lclean (m_lexer s)) \<and>
     ctx_ok (p_context s)"

text \<open>
  The measure: the characters the scanner has left, and one more while the current token is an
  ordinary one.
\<close>

definition proper :: "JSTokenType \<Rightarrow> bool" where
  "proper t \<longleftrightarrow> t \<noteq> EOFTOK \<and> t \<noteq> ERRORTOK"

definition prem :: "pstate \<Rightarrow> nat" where
  "prem s = lrem (m_lexer s) + (if proper (tokenType s) then 1 else 0)"

text \<open>\<open>ys\<close> is \<open>xs\<close> with \<open>k\<close> elements pushed; after an error there may be more of them.\<close>

definition pushed :: "bool \<Rightarrow> nat \<Rightarrow> 'a list \<Rightarrow> 'a list \<Rightarrow> bool" where
  "pushed err k xs ys \<longleftrightarrow> (\<exists>zs. ys = zs @ xs \<and> k \<le> length zs \<and> (\<not> err \<longrightarrow> length zs = k))"

text \<open>
  \<open>run s a d p u t\<close>: execution from \<open>s\<close> has come to \<open>t\<close>, with \<open>a\<close>, \<open>d\<close>, \<open>p\<close> and \<open>u\<close> elements pushed on
  the stacks of assignments, operands, operators and unary tokens.
\<close>

definition run :: "pstate \<Rightarrow> nat \<Rightarrow> nat \<Rightarrow> nat \<Rightarrow> nat \<Rightarrow> pstate \<Rightarrow> bool" where
  "run s a d p u t \<longleftrightarrow>
     pinv t \<and> prem t \<le> prem s \<and> (m_error s \<longrightarrow> m_error t) \<and>
     pushed (m_error t) a (m_assignmentInfoStack (p_context s)) (m_assignmentInfoStack (p_context t)) \<and>
     pushed (m_error t) d (m_binaryOperandStack (p_context s)) (m_binaryOperandStack (p_context t)) \<and>
     pushed (m_error t) p (m_binaryOperatorStack (p_context s)) (m_binaryOperatorStack (p_context t)) \<and>
     pushed (m_error t) u (m_unaryTokenStack (p_context s)) (m_unaryTokenStack (p_context t))"

lemma pushed_refl [simp]: "pushed err 0 xs xs"
  by (simp add: pushed_def)

lemma pushed_trans:
  assumes "pushed e k xs ys" and "pushed e' 0 ys zs" and "e \<longrightarrow> e'"
  shows "pushed e' k xs zs"
  using assms by (fastforce simp: pushed_def)

lemma pushed_error: "pushed e k xs ys \<Longrightarrow> pushed True k xs ys"
  by (auto simp: pushed_def)

lemma pushed_Cons: "pushed e k xs ys \<Longrightarrow> pushed e (Suc k) xs (y # ys)"
  unfolding pushed_def by (metis Suc_le_mono append_Cons length_Cons)

lemma pushed_Suc:
  assumes "pushed e (Suc k) xs ys"
  obtains y ys' where "ys = y # ys'" and "pushed e k xs ys'"
proof -
  from assms obtain zs where zs: "ys = zs @ xs" "Suc k \<le> length zs" "\<not> e \<longrightarrow> length zs = Suc k"
    by (auto simp: pushed_def)
  then obtain z zs' where "zs = z # zs'" by (cases zs) auto
  with zs have "ys = z # (zs' @ xs)" "pushed e k xs (zs' @ xs)" by (auto simp: pushed_def)
  then show ?thesis by (rule that)
qed

lemma run_refl: "pinv s \<Longrightarrow> run s 0 0 0 0 s"
  by (simp add: run_def)

lemma run_trans: "run s a d p u t \<Longrightarrow> run t 0 0 0 0 v \<Longrightarrow> run s a d p u v"
  unfolding run_def by (auto intro: pushed_trans)

lemma run_pinv: "run s a d p u t \<Longrightarrow> pinv t"
  by (simp add: run_def)

lemma run_prem: "run s a d p u t \<Longrightarrow> prem t \<le> prem s"
  by (simp add: run_def)

lemma token_frame [simp]:
  "tokenType (s\<lparr>m_error := e\<rparr>) = tokenType s" "tokenType (s\<lparr>m_allowsIn := b\<rparr>) = tokenType s"
  "tokenType (s\<lparr>m_nonLHSCount := i\<rparr>) = tokenType s" "tokenType (s\<lparr>m_assignmentCount := i\<rparr>) = tokenType s"
  "tokenType (s\<lparr>p_context := c\<rparr>) = tokenType s" "tokenType (s\<lparr>m_lexer := lx\<rparr>) = tokenType s"
  by (simp_all add: tokenType_def)

lemma prem_frame [simp]:
  "prem (s\<lparr>m_error := e\<rparr>) = prem s" "prem (s\<lparr>m_allowsIn := b\<rparr>) = prem s"
  "prem (s\<lparr>m_nonLHSCount := i\<rparr>) = prem s" "prem (s\<lparr>m_assignmentCount := i\<rparr>) = prem s"
  "prem (s\<lparr>p_context := c\<rparr>) = prem s"
  by (simp_all add: prem_def)

lemma pinv_frame [simp]:
  "pinv (s\<lparr>m_error := e\<rparr>) = pinv s" "pinv (s\<lparr>m_allowsIn := b\<rparr>) = pinv s"
  "pinv (s\<lparr>m_nonLHSCount := i\<rparr>) = pinv s" "pinv (s\<lparr>m_assignmentCount := i\<rparr>) = pinv s"
  by (simp_all add: pinv_def)

lemma run_frame [simp]:
  "run s a d p u (t\<lparr>m_allowsIn := b\<rparr>) = run s a d p u t"
  "run s a d p u (t\<lparr>m_nonLHSCount := i\<rparr>) = run s a d p u t"
  "run s a d p u (t\<lparr>m_assignmentCount := i\<rparr>) = run s a d p u t"
  "run (s\<lparr>m_allowsIn := b\<rparr>) a d p u t = run s a d p u t"
  "run (s\<lparr>m_nonLHSCount := i\<rparr>) a d p u t = run s a d p u t"
  "run (s\<lparr>m_assignmentCount := i\<rparr>) a d p u t = run s a d p u t"
  by (simp_all add: run_def)

lemma run_error [simp]: "run s a d p u t \<Longrightarrow> run s a d p u (t\<lparr>m_error := True\<rparr>)"
  by (auto simp: run_def intro: pushed_error)

text \<open>Pushing on a stack of the builder, and popping from it.\<close>

lemma run_push:
  "run s a d p u t \<Longrightarrow> c = p_context t \<Longrightarrow> wfNode (ai_node i) \<Longrightarrow>
     run s (Suc a) d p u (t\<lparr>p_context := c\<lparr>m_assignmentInfoStack := i # m_assignmentInfoStack c\<rparr>\<rparr>)"
  "run s a d p u t \<Longrightarrow> c = p_context t \<Longrightarrow> wfNode (fst x) \<Longrightarrow>
     run s a (Suc d) p u (t\<lparr>p_context := c\<lparr>m_binaryOperandStack := x # m_binaryOperandStack c\<rparr>\<rparr>)"
  "run s a d p u t \<Longrightarrow> c = p_context t \<Longrightarrow> convertOperator_token (fst y) \<noteq> None \<Longrightarrow>
     run s a d (Suc p) u (t\<lparr>p_context := c\<lparr>m_binaryOperatorStack := y # m_binaryOperatorStack c\<rparr>\<rparr>)"
  "run s a d p u t \<Longrightarrow> c = p_context t \<Longrightarrow> isUnaryOp (fst z) \<Longrightarrow>
     run s a d p (Suc u) (t\<lparr>p_context := c\<lparr>m_unaryTokenStack := z # m_unaryTokenStack c\<rparr>\<rparr>)"
  by (auto simp: run_def pinv_def ctx_ok_def intro: pushed_Cons)

lemma run_pop:
  "run s (Suc a) d p u t \<Longrightarrow> \<exists>i is. m_assignmentInfoStack (p_context t) = i # is \<and> wfNode (ai_node i)"
  "run s a (Suc d) p u t \<Longrightarrow> \<exists>x xs. m_binaryOperandStack (p_context t) = x # xs \<and> wfNode (fst x)"
  "run s a d (Suc p) u t \<Longrightarrow>
     \<exists>y ys. m_binaryOperatorStack (p_context t) = y # ys \<and> convertOperator_token (fst y) \<noteq> None"
  "run s a d p (Suc u) t \<Longrightarrow> \<exists>z zs. m_unaryTokenStack (p_context t) = z # zs \<and> isUnaryOp (fst z)"
  by (auto simp: run_def pinv_def ctx_ok_def elim: pushed_Suc)

lemma run_popped:
  "run s (Suc a) d p u t \<Longrightarrow> c = p_context t \<Longrightarrow> m_assignmentInfoStack c = i # is \<Longrightarrow>
     run s a d p u (t\<lparr>p_context := c\<lparr>m_assignmentInfoStack := is\<rparr>\<rparr>)"
  "run s a (Suc d) p u t \<Longrightarrow> c = p_context t \<Longrightarrow> m_binaryOperandStack c = x # xs \<Longrightarrow>
     run s a d p u (t\<lparr>p_context := c\<lparr>m_binaryOperandStack := xs\<rparr>\<rparr>)"
  "run s a d (Suc p) u t \<Longrightarrow> c = p_context t \<Longrightarrow> m_binaryOperatorStack c = y # ys \<Longrightarrow>
     run s a d p u (t\<lparr>p_context := c\<lparr>m_binaryOperatorStack := ys\<rparr>\<rparr>)"
  "run s a d p (Suc u) t \<Longrightarrow> c = p_context t \<Longrightarrow> m_unaryTokenStack c = z # zs \<Longrightarrow>
     run s a d p u (t\<lparr>p_context := c\<lparr>m_unaryTokenStack := zs\<rparr>\<rparr>)"
  by (auto simp: run_def pinv_def ctx_ok_def elim: pushed_Suc)

lemma pushed_error_0: "pushed True k xs ys \<Longrightarrow> pushed True 0 xs ys"
  by (auto simp: pushed_def)

lemma run_lower: "run s a d p u t \<Longrightarrow> m_error t \<Longrightarrow> run s 0 0 0 0 t"
  by (auto simp: run_def intro: pushed_error_0)

subsection \<open>Rules for tokens\<close>

lemma wp_next_pinv:
  assumes "pinv s"
    and "\<And>t. pinv t \<Longrightarrow> prem t \<le> lrem (m_lexer s) \<Longrightarrow> p_context t = p_context s \<Longrightarrow>
      m_error t = m_error s \<Longrightarrow> Q () t"
  shows "wp (nextP_type lexType) Q E s"
proof -
  define lx where "lx = setLastLineNumber (tline (m_info (m_token s))) (m_lexer s)"
  obtain k dt inf lx' where l:
    "lex (p_arrays s) lexType (m_data (m_token s)) (m_info (m_token s)) lx = (k, dt, inf, lx')"
    by (metis surj_pair)
  have lx: "linv lx" "lclean lx = lclean (m_lexer s)" "lrem lx = lrem (m_lexer s)"
    using assms(1) by (simp_all add: lx_def setLastLineNumber_def pinv_def)
  show ?thesis
  proof (cases "assertsOK lx'")
    case False
    then show ?thesis using l by (simp add: wp_def nextP_type_def lx_def)
  next
    case True
    let ?t = "s\<lparr>m_lastLine := tline (m_info (m_token s)), m_lastTokenEnd := endOffset (m_info (m_token s)),
      m_lexer := lx', m_token := \<lparr>m_type = k, m_data = dt, m_info = inf\<rparr>,
      m_tokenCount := m_tokenCount s + 1\<rparr>"
    have c: "lclean lx" using True lex_not_lclean [OF _ l] by blast
    have ok: "lex_ok lx k lx'"
      using lex_lex_ok [OF lx(1) c _ l] assms(1) by (simp add: pinv_def)
    have inv: "pinv ?t" using ok assms(1) by (simp add: pinv_def lex_ok_def tokenType_def)
    have "lrem lx' + (if proper k then 1 else 0) \<le> lrem lx"
      using ok lx(1) by (auto simp: lex_ok_def proper_def lrem_linv linv_def)
    then have "prem ?t \<le> lrem (m_lexer s)" by (simp add: prem_def tokenType_def lx(3))
    then have "Q () ?t" using inv by (intro assms(2)) simp_all
    then show ?thesis using l True by (simp add: wp_def nextP_type_def lx_def)
  qed
qed

lemma wp_next_type:
  assumes "run s0 a d p u s"
    and "\<And>t. run s0 a d p u t \<Longrightarrow> prem t \<le> prem s \<Longrightarrow> proper (tokenType s) \<longrightarrow> prem t < prem s \<Longrightarrow>
      m_error t = m_error s \<Longrightarrow> Q () t"
  shows "wp (nextP_type lexType) Q E s"
proof (rule wp_next_pinv)
  show "pinv s" using assms(1) by (rule run_pinv)
next
  fix t
  assume t: "pinv t" "prem t \<le> lrem (m_lexer s)" "p_context t = p_context s" "m_error t = m_error s"
  then have "run s0 a d p u t" using assms(1) by (auto simp: run_def prem_def)
  then show "Q () t" using t by (intro assms(2)) (auto simp: prem_def)
qed

lemma wp_next:
  assumes "run s0 a d p u s"
    and "\<And>t. run s0 a d p u t \<Longrightarrow> prem t \<le> prem s \<Longrightarrow> proper (tokenType s) \<longrightarrow> prem t < prem s \<Longrightarrow>
      m_error t = m_error s \<Longrightarrow> Q () t"
  shows "wp nextP Q E s"
  unfolding nextP_def using assms by (rule wp_next_type)

lemma wp_consume:
  assumes "run s0 a d p u s" and "proper x"
    and "\<And>t. run s0 a d p u t \<Longrightarrow> prem t < prem s \<Longrightarrow> m_error t = m_error s \<Longrightarrow> Q True t"
    and "\<And>t. run s0 a d p u t \<Longrightarrow> m_error t \<Longrightarrow> prem t \<le> prem s \<Longrightarrow> Q False t"
  shows "wp (consumeP x) Q E s"
  using assms(1,2) assms(4) [of "s\<lparr>m_error := True\<rparr>"]
  by (auto simp: consumeP_def wp_simps intro!: wp_next assms(3))

lemma wp_consumeOrFail:
  assumes "run s0 a d p u s" and "proper x"
    and "\<And>t. run s0 a d p u t \<Longrightarrow> prem t < prem s \<Longrightarrow> m_error t = m_error s \<Longrightarrow> Q () t"
    and "\<And>t. run s0 a d p u t \<Longrightarrow> m_error t \<Longrightarrow> prem t \<le> prem s \<Longrightarrow> E t"
  shows "wp (consumeOrFail x) Q E s"
  unfolding consumeOrFail_def wp_bind
  by (rule wp_consume [OF assms(1,2)]) (auto simp: wp_simps intro: assms(3,4))

lemma wp_autoSemiColon:
  assumes "run s0 a d p u s"
    and "\<And>b t. run s0 a d p u t \<Longrightarrow> prem t \<le> prem s \<Longrightarrow> m_error t = m_error s \<Longrightarrow> Q b t"
  shows "wp autoSemiColon Q E s"
  using assms
  by (auto simp: autoSemiColon_def allowAutomaticSemicolon_def wp_simps intro!: wp_next)

lemma wp_scanRegExp:
  assumes "run s0 a d p u s" and "tokenType s \<noteq> ERRORTOK" and "prefix = 0 \<or> prefix = 61"
    and "\<And>r t. run s0 a d p u t \<Longrightarrow> prem t \<le> prem s \<Longrightarrow> m_error t = m_error s \<Longrightarrow>
      tokenType t = tokenType s \<Longrightarrow> Q r t"
  shows "wp (lexerP (scanRegExp prefix)) Q E s"
proof -
  obtain r lx where sc: "scanRegExp prefix (m_lexer s) = (r, lx)" by fastforce
  have i: "linv (m_lexer s)" "lclean (m_lexer s)" "pinv s"
    using assms(1,2) by (auto simp: run_def pinv_def)
  have o: "adv (m_lexer s) lx" "lclean lx" using scanRegExp_ok [OF i(1,2) assms(3) sc] by simp_all
  let ?t = "s\<lparr>m_lexer := lx\<rparr>"
  have "pinv ?t" using i(3) o by (simp add: pinv_def adv_def)
  moreover have "prem ?t \<le> prem s" using adv_lrem [OF i(1) o(1)] by (simp add: prem_def)
  ultimately have "run s0 a d p u ?t" using assms(1) by (auto simp: run_def)
  then have "Q r ?t" using \<open>prem ?t \<le> prem s\<close> by (intro assms(4)) simp_all
  moreover have "assertsOK lx" using o(1) by (simp add: adv_def linv_def)
  ultimately show ?thesis by (simp add: wp_def lexerP_def sc)
qed

subsection \<open>Loops\<close>

lemma wp_loop:
  assumes "\<And>a t. I a t \<Longrightarrow> prem t \<le> prem s \<Longrightarrow>
      wp (body a) (\<lambda>r v. case r of Inl a' \<Rightarrow> I a' v \<and> prem v < prem t | Inr b \<Rightarrow> Q b v) E t"
    and "I a s" and "prem s < n"
  shows "wp (loopP n body a) Q E s"
proof -
  have "wp (loopP n body a) Q E t" if "I a t" "prem t \<le> prem s" "prem t < n" for t
    using that
  proof (induction n arbitrary: a t)
    case (Suc n)
    show ?case
      unfolding loopP.simps wp_bind
    proof (rule wp_mono [OF assms(1) [OF Suc.prems(1,2)]])
      fix r v
      assume r: "case r of Inl a' \<Rightarrow> I a' v \<and> prem v < prem t | Inr b \<Rightarrow> Q b v"
      then show "wp (case r of Inl a' \<Rightarrow> loopP n body a' | Inr b \<Rightarrow> retP b) Q E v"
        using Suc.IH [of _ v] Suc.prems by (cases r) (auto simp: wp_simps)
    qed
  qed simp
  then show ?thesis using assms(2,3) by simp
qed

text \<open>
  The contract of a function that returns a pointer to a node: on a node, \<open>P\<close> holds of it and it
  has cost some input; on a null pointer, \<open>N\<close> holds of the state.
\<close>

definition post :: "(pstate \<Rightarrow> bool) \<Rightarrow> (Node \<Rightarrow> bool) \<Rightarrow> pstate \<Rightarrow> Node option \<Rightarrow> pstate \<Rightarrow> bool" where
  "post N P s r t \<longleftrightarrow> run s 0 0 0 0 t \<and> (case r of None \<Rightarrow> N t | Some n \<Rightarrow> P n \<and> prem t < prem s)"

definition meets :: "(pstate \<Rightarrow> bool) \<Rightarrow> (Node \<Rightarrow> bool) \<Rightarrow> nat \<Rightarrow> treeP \<Rightarrow> bool" where
  "meets N P b m \<longleftrightarrow> (\<forall>s. pinv s \<and> prem s < b \<longrightarrow> wp m (post N P s) (\<lambda>_. False) s)"

text \<open>
  Most functions return a well-formed tree, and a null pointer only with the error flag;
  \<open>parseStatement\<close> also returns null at the end of a list of statements.
\<close>

abbreviation tree_ok :: "nat \<Rightarrow> treeP \<Rightarrow> bool" where
  "tree_ok \<equiv> meets m_error wfNode"

abbreviation stmt_ok :: "nat \<Rightarrow> treeP \<Rightarrow> bool" where
  "stmt_ok \<equiv> meets (\<lambda>_. True) wfNode"

lemma meetsI:
  "(\<And>s. pinv s \<Longrightarrow> prem s < b \<Longrightarrow> run s 0 0 0 0 s \<Longrightarrow> wp m (post N P s) (\<lambda>_. False) s) \<Longrightarrow> meets N P b m"
  by (simp add: meets_def run_refl)

lemma meets_mono: "meets N P b m \<Longrightarrow> b' \<le> b \<Longrightarrow> meets N P b' m"
  by (auto simp: meets_def)

lemma meets_weaken:
  "meets N P b m \<Longrightarrow> (\<And>t. N t \<Longrightarrow> N' t) \<Longrightarrow> (\<And>n. P n \<Longrightarrow> P' n) \<Longrightarrow> meets N' P' b m"
  unfolding meets_def by (auto elim!: wp_mono simp: post_def split: option.splits)

lemma post_apply:
  assumes "wp m (post N P s) (\<lambda>_. False) s" and "run s0 a d p u s"
    and "\<And>t. run s0 a d p u t \<Longrightarrow> N t \<Longrightarrow> prem t \<le> prem s \<Longrightarrow> m_error s \<longrightarrow> m_error t \<Longrightarrow> Q None t"
    and "\<And>n t. run s0 a d p u t \<Longrightarrow> P n \<Longrightarrow> prem t < prem s \<Longrightarrow> m_error s \<longrightarrow> m_error t \<Longrightarrow> Q (Some n) t"
  shows "wp m Q E s"
  using assms(1)
proof (rule wp_mono)
  fix r t
  assume t: "post N P s r t"
  then have "run s0 a d p u t" using assms(2) by (auto simp: post_def intro: run_trans)
  then show "Q r t"
    using t assms(3,4) by (cases r) (auto simp: post_def run_def)
qed simp

lemma meets_apply:
  assumes "meets N P b m" and "run s0 a d p u s" and "prem s < b"
    and "\<And>t. run s0 a d p u t \<Longrightarrow> N t \<Longrightarrow> prem t \<le> prem s \<Longrightarrow> m_error s \<longrightarrow> m_error t \<Longrightarrow> Q None t"
    and "\<And>n t. run s0 a d p u t \<Longrightarrow> P n \<Longrightarrow> prem t < prem s \<Longrightarrow> m_error s \<longrightarrow> m_error t \<Longrightarrow> Q (Some n) t"
  shows "wp m Q E s"
  by (rule post_apply [OF _ assms(2,4,5)]) (use assms(1,2,3) in \<open>auto simp: meets_def run_def\<close>)

text \<open>The same under \<open>failIfFalse\<close>.\<close>

lemma meets_need:
  assumes "meets N P b m" and "run s0 a d p u s" and "prem s < b"
    and "\<And>n t. run s0 a d p u t \<Longrightarrow> P n \<Longrightarrow> prem t < prem s \<Longrightarrow> m_error s \<longrightarrow> m_error t \<Longrightarrow> Q n t"
    and "\<And>t. run s0 a d p u t \<Longrightarrow> m_error t \<Longrightarrow> prem t \<le> prem s \<Longrightarrow> E t"
  shows "wp (needP m) Q E s"
  unfolding wp_need
  by (rule meets_apply [OF assms(1-3)]) (auto intro: assms(4,5))

lemma wp_cases [wp_simps]:
  "wp (if b then m else m') Q E s = (if b then wp m Q E s else wp m' Q E s)"
  "wp (case x of None \<Rightarrow> m | Some y \<Rightarrow> f y) Q E s =
     (case x of None \<Rightarrow> wp m Q E s | Some y \<Rightarrow> wp (f y) Q E s)"
  "wp (case z of (v, w) \<Rightarrow> g v w) Q E s = (case z of (v, w) \<Rightarrow> wp (g v w) Q E s)"
  by (simp_all split: option.splits prod.splits)

declare proper_def [wp_simps]

end
