(* ===== verification/ParserProps.thy ===== *)
theory ParserProps
  imports ParserWP
begin

text \<open>
  The contracts of the functions of \<open>JSParser\<close>. Each lemma assumes the contracts of the two
  functions the recursion goes through (\<open>pa\<close> for inputs with a measure below \<open>c\<close>, \<open>ps\<close> likewise) and
  gives the contract of one function; \<open>b \<le> n\<close> says that \<open>n\<close> rounds are enough for its loops. A
  function that consumes a token before it calls \<open>pa\<close> or \<open>ps\<close> needs them one step lower.
\<close>

subsection \<open>Lists of expressions\<close>

lemma parseExpression_ok:
  assumes "tree_ok b pa" and "b \<le> n"
  shows "tree_ok b (parseExpression n pa)"
proof (rule meetsI)
  fix s
  assume s: "pinv s" "prem s < b" "run s 0 0 0 0 s"
  note rules = meets_need [OF assms(1), of s 0 0 0 0] wp_next [of s 0 0 0 0]
    wp_loop [where I = "\<lambda>c t. run s 0 0 0 0 t \<and> wfList c \<and> prem t < prem s"]
  show "wp (parseExpression n pa) (post m_error wfNode s) (\<lambda>_. False) s"
    unfolding parseExpression_def using s assms(2)
    by (auto simp: wp_simps post_def intro!: rules)
qed

lemma parseArguments_ok:
  assumes "tree_ok c pa" and "b \<le> Suc c" and "b \<le> n"
  shows "tree_ok b (parseArguments n pa)"
proof (rule meetsI)
  fix s
  assume s: "pinv s" "prem s < b" "run s 0 0 0 0 s"
  note rules = meets_need [OF assms(1), of s 0 0 0 0] wp_next [of s 0 0 0 0]
    wp_consumeOrFail [of s 0 0 0 0]
    wp_loop [where I = "\<lambda>l t. run s 0 0 0 0 t \<and> wfList l \<and> prem t < prem s"]
  show "wp (parseArguments n pa) (post m_error wfNode s) (\<lambda>_. False) s"
    unfolding parseArguments_def using s assms(2,3)
    by (auto simp: wp_simps post_def intro!: rules)
qed

lemma wp_skipElisions:
  assumes "run s0 a d p u s" and "prem s < n"
    and "\<And>t. run s0 a d p u t \<Longrightarrow> prem t \<le> prem s \<Longrightarrow> m_error t = m_error s \<Longrightarrow> Q () t"
  shows "wp (skipElisions n) Q E s"
  unfolding skipElisions_def using assms
  by (auto simp: wp_simps intro!: wp_next [of s0 a d p u]
      wp_loop [where I = "\<lambda>_ t. run s0 a d p u t \<and> prem t \<le> prem s \<and> m_error t = m_error s"])

lemma parseArrayLiteral_ok:
  assumes "tree_ok c pa" and "b \<le> Suc c" and "b \<le> n"
  shows "tree_ok b (parseArrayLiteral n pa)"
proof (rule meetsI)
  fix s
  assume s: "pinv s" "prem s < b" "run s 0 0 0 0 s"
  note rules = meets_need [OF assms(1), of s 0 0 0 0] wp_next [of s 0 0 0 0]
    wp_consumeOrFail [of s 0 0 0 0] wp_skipElisions [of s 0 0 0 0]
    wp_loop [where I = "\<lambda>l t. run s 0 0 0 0 t \<and> wfList l \<and> prem t < prem s"]
  show "wp (parseArrayLiteral n pa) (post m_error wfNode s) (\<lambda>_. False) s"
    unfolding parseArrayLiteral_def using s assms(2,3)
    by (auto simp: wp_simps post_def intro!: rules)
qed

lemma parseConditionalExpression_ok:
  assumes "tree_ok b pb" and "tree_ok c pa" and "b \<le> Suc c"
  shows "tree_ok b (parseConditionalExpression pb pa)"
proof (rule meetsI)
  fix s
  assume s: "pinv s" "prem s < b" "run s 0 0 0 0 s"
  note rules = meets_need [OF assms(1), of s 0 0 0 0] meets_need [OF assms(2), of s 0 0 0 0]
    meets_apply [OF assms(2), of s 0 0 0 0] wp_next [of s 0 0 0 0] wp_consumeOrFail [of s 0 0 0 0]
  show "wp (parseConditionalExpression pb pa) (post m_error wfNode s) (\<lambda>_. False) s"
    unfolding parseConditionalExpression_def using s assms(3)
    by (auto simp: wp_simps post_def intro!: rules)
qed

subsection \<open>Functions\<close>

lemma wp_parseSourceElements:
  assumes "stmt_ok b ps" and "run s0 a d p u s" and "prem s < b" and "b \<le> n"
    and "\<And>e t. run s0 a d p u t \<Longrightarrow> wfNode e \<Longrightarrow> prem t \<le> prem s \<Longrightarrow> m_error s \<longrightarrow> m_error t \<Longrightarrow> \<not> m_error t \<Longrightarrow>
      m_ntype e = SourceElementsType \<Longrightarrow> Q (Some e) t"
    and "\<And>t. run s0 a d p u t \<Longrightarrow> m_error t \<Longrightarrow> prem t \<le> prem s \<Longrightarrow> Q None t"
  shows "wp (parseSourceElements n ps) Q E s"
  unfolding parseSourceElements_def using assms(2-)
  by (auto simp: wp_simps intro!: meets_apply [OF assms(1), of s0 a d p u]
      wp_loop [where I = "\<lambda>l t. run s0 a d p u t \<and> wfList l \<and>
        m_ntype l = SourceElementsType \<and> prem t \<le> prem s \<and> (m_error s \<longrightarrow> m_error t)"])

lemma wp_need_parseSourceElements:
  assumes "stmt_ok b ps" and "run s0 a d p u s" and "prem s < b" and "b \<le> n"
    and "\<And>e t. run s0 a d p u t \<Longrightarrow> wfNode e \<Longrightarrow> prem t \<le> prem s \<Longrightarrow> m_error s \<longrightarrow> m_error t \<Longrightarrow> Q e t"
    and "\<And>t. run s0 a d p u t \<Longrightarrow> m_error t \<Longrightarrow> prem t \<le> prem s \<Longrightarrow> E t"
  shows "wp (needP (parseSourceElements n ps)) Q E s"
  unfolding wp_need by (rule wp_parseSourceElements [OF assms(1-4)]) (auto intro: assms(5,6))

lemma wp_parseFormalParameters:
  assumes "run s0 a d p u s" and "prem s < n"
    and "\<And>l w t. run s0 a d p u t \<Longrightarrow> wfNode l \<Longrightarrow> prem t < prem s \<Longrightarrow> m_error t = m_error s \<Longrightarrow> Q (Some l, w) t"
    and "\<And>w t. run s0 a d p u t \<Longrightarrow> m_error t \<Longrightarrow> prem t \<le> prem s \<Longrightarrow> Q (None, w) t"
  shows "wp (parseFormalParameters n) Q E s"
  unfolding parseFormalParameters_def using assms
  by (auto simp: wp_simps parameterChain_wf parameterChain_create2 intro!: wp_next [of s0 a d p u]
      wp_loop [where I = "\<lambda>(l, w) t. run s0 a d p u t \<and> parameterChain l \<and> prem t < prem s \<and> m_error t = m_error s"])

lemma pushed_weaken: "pushed e k xs ys \<Longrightarrow> e \<longrightarrow> e' \<Longrightarrow> pushed e' k xs ys"
  by (auto simp: pushed_def)

text \<open>The body of a function is parsed with a builder of its own.\<close>

lemma run_withBuilder:
  assumes "run s0 a d p u s" and "run (s\<lparr>p_context := Builder\<rparr>) 0 0 0 0 t"
  shows "run s0 a d p u (t\<lparr>p_context := p_context s\<rparr>)"
  using assms by (auto simp: run_def pinv_def intro: pushed_weaken)

lemma pinv_Builder: "pinv s \<Longrightarrow> pinv (s\<lparr>p_context := Builder\<rparr>)"
  by (simp add: pinv_def ctx_ok_def Builder_def)

lemma wp_need_parseFunctionBody:
  assumes "stmt_ok b ps" and "run s0 a d p u s" and "prem s < b" and "b \<le> n"
    and "\<And>e t. run s0 a d p u t \<Longrightarrow> wfNode e \<Longrightarrow> prem t \<le> prem s \<Longrightarrow> m_error s \<longrightarrow> m_error t \<Longrightarrow> Q e t"
    and "\<And>t. run s0 a d p u t \<Longrightarrow> m_error t \<Longrightarrow> prem t \<le> prem s \<Longrightarrow> E t"
  shows "wp (needP (parseFunctionBody n ps)) Q E s"
proof -
  have "run (s\<lparr>p_context := Builder\<rparr>) 0 0 0 0 (s\<lparr>p_context := Builder\<rparr>)"
    using assms(2) by (intro run_refl pinv_Builder run_pinv)
  then show ?thesis
    unfolding parseFunctionBody_def using assms(2-4)
    by (auto simp: wp_simps wp_need [of "functionP _ _"] intro!: assms(5,6) run_error run_withBuilder
        wp_need_parseSourceElements [OF assms(1), of "s\<lparr>p_context := Builder\<rparr>" 0 0 0 0])
qed

lemma wp_parseFunctionInfo:
  assumes "stmt_ok c ps" and "run s0 a d p u s" and "prem s < Suc c" and "c < n"
    and "\<And>name ls e t. run s0 a d p u t \<Longrightarrow> wfNode e \<Longrightarrow> wfOpt ls \<Longrightarrow> prem t < prem s \<Longrightarrow>
      m_error s \<longrightarrow> m_error t \<Longrightarrow> needsName \<or> name0 \<noteq> None \<Longrightarrow> Q (Some (Some name, ls, e)) t"
    and "\<And>t. run s0 a d p u t \<Longrightarrow> prem t \<le> prem s \<Longrightarrow> m_error s \<longrightarrow> m_error t \<Longrightarrow> Q None t"
    and "needsName \<or> name0 \<noteq> None"
  shows "wp (parseFunctionInfo n ps needsName name0) Q E s"
  unfolding parseFunctionInfo_def using assms(2-)
  by (auto simp: wp_simps intro!: wp_next [of s0 a d p u] wp_consumeOrFail [of s0 a d p u]
      wp_parseFormalParameters [of s0 a d p u] wp_need_parseFunctionBody [OF assms(1), of s0 a d p u])

end
