(* ===== verification/ExpressionProps.thy ===== *)
theory ExpressionProps
  imports ParserProps
begin

text \<open>
  The contracts of the functions of \<open>JSParser\<close> from literals up to \<open>parseAssignmentExpression\<close>, in
  the style of \<open>ParserProps\<close>.
\<close>

subsection \<open>Object literals\<close>

text \<open>
  A property that is parsed at all is a constant one: accessors end in \<open>CRASH()\<close>. So the restart
  of \<open>parseObjectLiteral\<close> in strict mode is never reached.
\<close>

abbreviation constantProperty :: "Node \<Rightarrow> bool" where
  "constantProperty p \<equiv> wfNode p \<and> m_propertyType p = Constant"

lemma constantProperty_create:
  "wfNode e \<Longrightarrow> constantProperty (createProperty ident e Constant)"
  by (simp add: createProperty_def wf_build node_ok_def)

lemma keyword_proper: "tokenValue t AND KeywordTokenFlag \<noteq> 0 \<Longrightarrow> proper t"
  by (auto simp: proper_def tokenValue_def KeywordTokenFlag_def)

lemma wp_parseNamedProperty:
  assumes "tree_ok c pa" and "stmt_ok c ps" and "c < n" and "run s 0 0 0 0 s" and "prem s < Suc c"
    and "proper (tokenType s)"
  shows "wp (parseNamedProperty n ps pa wasIdent) (post m_error constantProperty s)
           (post m_error constantProperty s None) s"
  unfolding parseNamedProperty_def using assms(3-)
  by (auto simp: wp_simps post_def constantProperty_create
      intro!: wp_next_type [of s 0 0 0 0] wp_next [of s 0 0 0 0] meets_need [OF assms(1), of s 0 0 0 0]
        wp_parseFunctionInfo [OF assms(2), of s 0 0 0 0])

lemma parseProperty_ok:
  assumes "tree_ok c pa" and "stmt_ok c ps" and "c < n" and "b \<le> Suc c"
  shows "meets m_error constantProperty b (parseProperty n ps pa)"
proof (rule meetsI)
  fix s
  assume s: "pinv s" "prem s < b" "run s 0 0 0 0 s"
  note rules = wp_next [of s 0 0 0 0] wp_consumeOrFail [of s 0 0 0 0]
    meets_need [OF assms(1), of s 0 0 0 0]
  have named: "wp (parseNamedProperty n ps pa wasIdent) (post m_error constantProperty s)
      (post m_error constantProperty s None) s" if "proper (tokenType s)" for wasIdent
    using wp_parseNamedProperty [OF assms(1-3)] s assms(4) that by simp
  show "wp (parseProperty n ps pa) (post m_error constantProperty s) (\<lambda>_. False) s"
    unfolding parseProperty_def using s assms(3,4) named keyword_proper [of "tokenType s"]
    by (auto simp: wp_simps post_def [abs_def] constantProperty_create intro!: rules)
qed

lemma parseObjectLiteral_ok:
  assumes "tree_ok c pa" and "stmt_ok c ps" and "c < n" and "b \<le> Suc c"
  shows "tree_ok b (parseObjectLiteral n ps pa)"
proof (rule meetsI)
  fix s
  assume s: "pinv s" "prem s < b" "run s 0 0 0 0 s"
  note rules = wp_next [of s 0 0 0 0] wp_consumeOrFail [of s 0 0 0 0]
    meets_need [OF parseProperty_ok [OF assms(1-3) le_refl], of s 0 0 0 0]
    wp_loop [where I = "\<lambda>l t. run s 0 0 0 0 t \<and> wfList l \<and> prem t < prem s"]
  show "wp (parseObjectLiteral n ps pa) (post m_error wfNode s) (\<lambda>_. False) s"
    unfolding parseObjectLiteral_def using s assms(3,4)
    by (auto simp: wp_simps post_def intro!: rules)
qed

subsection \<open>Primary expressions\<close>

lemma parsePrimaryExpression_ok:
  assumes "tree_ok c pa" and "stmt_ok c ps" and "c < n" and "b \<le> Suc c"
  shows "tree_ok b (parsePrimaryExpression n ps pa)"
proof (rule meetsI)
  fix s
  assume s: "pinv s" "prem s < b" "run s 0 0 0 0 s"
  have n: "Suc c \<le> n" using assms(3) by simp
  note rules = wp_next [of s 0 0 0 0] wp_consumeOrFail [of s 0 0 0 0] wp_scanRegExp [of s 0 0 0 0]
    meets_apply [OF parseExpression_ok [OF assms(1) less_imp_le [OF assms(3)]], of s 0 0 0 0]
    meets_apply [OF parseObjectLiteral_ok [OF assms(1-3) le_refl], of s 0 0 0 0]
    meets_apply [OF parseArrayLiteral_ok [OF assms(1) le_refl n], of s 0 0 0 0]
  show "wp (parsePrimaryExpression n ps pa) (post m_error wfNode s) (\<lambda>_. False) s"
    unfolding parsePrimaryExpression_def using s assms(3,4)
    by (cases "tokenType s") (auto simp: wp_simps post_def split: option.splits intro!: rules)
qed

subsection \<open>Member expressions\<close>

lemma wp_countNew:
  assumes "run s0 a d p u s" and "prem s < n"
    and "\<And>k t. run s0 a d p u t \<Longrightarrow> prem t \<le> prem s \<Longrightarrow> m_error t = m_error s \<Longrightarrow> Q k t"
  shows "wp (countNew n) Q E s"
  unfolding countNew_def using assms
  by (auto simp: wp_simps intro!: wp_next [of s0 a d p u]
      wp_loop [where I = "\<lambda>_ t. run s0 a d p u t \<and> prem t \<le> prem s \<and> m_error t = m_error s"])

lemma wf_createNewExprs [simp]: "wfNode base \<Longrightarrow> wfNode (createNewExprs k base)"
  by (induction k arbitrary: base) simp_all

lemma parseMemberExpression_ok:
  assumes "tree_ok c pa" and "stmt_ok c ps" and "c < n" and "b \<le> Suc c"
  shows "tree_ok b (parseMemberExpression n ps pa)"
proof (rule meetsI)
  fix s
  assume s: "pinv s" "prem s < b" "run s 0 0 0 0 s"
  have n: "Suc c \<le> n" using assms(3) by simp
  note rules = wp_next [of s 0 0 0 0] wp_next_type [of s 0 0 0 0] wp_countNew [of s 0 0 0 0] wp_consume [of s 0 0 0 0]
    wp_parseFunctionInfo [OF assms(2), of s 0 0 0 0]
    meets_need [OF parsePrimaryExpression_ok [OF assms(1-3) le_refl], of s 0 0 0 0]
    meets_need [OF parseExpression_ok [OF assms(1) less_imp_le [OF assms(3)]], of s 0 0 0 0]
    meets_need [OF parseArguments_ok [OF assms(1) le_refl n], of s 0 0 0 0]
    wp_loop [where I = "\<lambda>(base, _) t. run s 0 0 0 0 t \<and> wfNode base \<and> prem t < prem s"]
  show "wp (parseMemberExpression n ps pa) (post m_error wfNode s) (\<lambda>_. False) s"
    unfolding parseMemberExpression_def parseMemberExpression_step_def using s assms(3,4)
    by (auto simp: wp_simps post_def split: option.splits intro!: rules)
qed

subsection \<open>Unary expressions\<close>

text \<open>The switch over the unary operators covers every token with the flag of one.\<close>

lemmas token_bits =
  UnaryOpTokenFlag_def KeywordTokenFlag_def BINARY_OP_PRECEDENCE_def IN_OP_PRECEDENCE_def
  BinaryOpTokenPrecedenceShift_def BinaryOpTokenAllowsInPrecedenceAdditionalShift_def
  BinaryOpTokenPrecedenceMask_def

lemma isUnaryOp_iff:
  "isUnaryOp t \<longleftrightarrow> t \<in> {EXCLAMATION, TILDE, MINUS, PLUS, PLUSPLUS, AUTOPLUSPLUS, MINUSMINUS,
     AUTOMINUSMINUS, TYPEOF, VOIDTOKEN, DELETETOKEN}"
  by (cases t; simp add: isUnaryOp_def token_bits)

lemma wp_applyUnaryToken:
  assumes "isUnaryOp type" and "wfNode e" and "run s0 a d p u s"
    and "\<And>e' t. run s0 a d p u t \<Longrightarrow> wfNode e' \<Longrightarrow> prem t = prem s \<Longrightarrow> m_error t = m_error s \<Longrightarrow>
      p_context t = p_context s \<Longrightarrow> Q e' t"
  shows "wp (applyUnaryToken type e) Q E s"
  using assms by (auto simp: isUnaryOp_iff applyUnaryToken_def wp_simps)

lemma unaryOp_proper: "isUnaryOp t \<Longrightarrow> proper t"
  by (auto simp: proper_def isUnaryOp_iff)

lemma wp_applyUnaryTokens:
  assumes "wfNode e" and "run s0 a d p k s"
    and "\<And>e' t. run s0 a d p 0 t \<Longrightarrow> wfNode e' \<Longrightarrow> prem t = prem s \<Longrightarrow> m_error t = m_error s \<Longrightarrow> Q e' t"
  shows "wp (applyUnaryTokens k e) Q E s"
  using assms
proof (induction k arbitrary: e s)
  case (Suc k)
  obtain z zs where z: "m_unaryTokenStack (p_context s) = z # zs" "isUnaryOp (fst z)"
    using run_pop(4) [OF Suc.prems(2)] by blast
  show ?case
    using z Suc.prems
    by (auto simp: wp_simps unaryTokenStackLast_def unaryTokenStackRemoveLast_def split: prod.splits
        intro!: wp_applyUnaryToken [of _ _ s0 a d p "Suc k"] Suc.IH run_popped(4))
qed (simp add: wp_simps)

lemma wp_parseUnaryOperators:
  assumes "run s0 a d p 0 s" and "prem s < n"
    and "\<And>k t. run s0 a d p k t \<Longrightarrow> prem t \<le> prem s \<Longrightarrow> m_error t = m_error s \<Longrightarrow> Q k t"
  shows "wp (parseUnaryOperators n) Q E s"
  unfolding parseUnaryOperators_def
proof (rule wp_loop [where I = "\<lambda>k t. run s0 a d p k t \<and> prem t \<le> prem s \<and> m_error t = m_error s"])
  fix k t
  assume t: "run s0 a d p k t \<and> prem t \<le> prem s \<and> m_error t = m_error s"
  then have push: "run s0 a d p (Suc k) (t\<lparr>m_nonLHSCount := m_nonLHSCount t + 1,
      p_context := (p_context t)\<lparr>m_unaryTokenStack :=
        (tokenType t, start) # m_unaryTokenStack (p_context t)\<rparr>\<rparr>)"
    if "isUnaryOp (tokenType t)" for start
    using that by (auto intro!: run_push(4))
  show "wp (bindP (getP tokenType) (\<lambda>type. if isUnaryOp type then
        thenP incNonLHSCount
       (bindP (getP tokenStart) (\<lambda>start.
        bindP (contextP (\<lambda>b. Some (appendUnaryToken k type start b))) (\<lambda>k.
        thenP nextP (retP (Inl k)))))
      else retP (Inr k)))
    (\<lambda>r v. case r of Inl k' \<Rightarrow> (run s0 a d p k' v \<and> prem v \<le> prem s \<and> m_error v = m_error s) \<and> prem v < prem t
      | Inr k' \<Rightarrow> Q k' v) E t"
    using t assms(3) push
    by (auto simp: wp_simps appendUnaryToken_def unaryOp_proper [unfolded proper_def]
        intro!: wp_next [of s0 a d p "Suc k"])
qed (use assms in simp_all)

lemma wp_parsePostfix:
  assumes "wfNode e" and "run s0 a d p u s"
    and "\<And>e' t. run s0 a d p u t \<Longrightarrow> wfNode e' \<Longrightarrow> prem t \<le> prem s \<Longrightarrow> m_error t = m_error s \<Longrightarrow> Q e' t"
  shows "wp (parsePostfix e) Q E s"
  unfolding parsePostfix_def using assms
  by (cases "tokenType s") (auto simp: wp_simps intro!: wp_next [of s0 a d p u])

lemma parseUnaryExpression_ok:
  assumes "tree_ok b pm" and "b \<le> n"
  shows "tree_ok b (parseUnaryExpression n pm)"
proof (rule meetsI)
  fix s
  assume s: "pinv s" "prem s < b" "run s 0 0 0 0 s"
  show "wp (parseUnaryExpression n pm) (post m_error wfNode s) (\<lambda>_. False) s"
    unfolding parseUnaryExpression_def using s assms(2)
    by (auto simp: wp_simps post_def
        intro!: wp_parseUnaryOperators [of s 0 0 0] meets_need [OF assms(1), of s 0 0 0]
          wp_parsePostfix [of _ s 0 0 0] wp_applyUnaryTokens [of _ s 0 0 0])
       (blast intro: run_lower)+
qed

subsection \<open>Binary expressions\<close>

text \<open>A token with a precedence is a binary operator that \<open>convertOperator\<close> knows.\<close>

lemma isBinaryOperator_convert:
  "isBinaryOperator allowsIn t \<noteq> 0 \<Longrightarrow> convertOperator_token t \<noteq> None"
  by (cases t; cases allowsIn; simp add: isBinaryOperator_def convertOperator_token_def token_bits)

lemma isBinaryOperator_proper: "isBinaryOperator allowsIn t \<noteq> 0 \<Longrightarrow> proper t"
  using isBinaryOperator_convert [of allowsIn t] by (auto simp: proper_def convertOperator_token_def)

text \<open>
  One reduction. The stacks hold one operand more than operators, so both operands are there, and
  the depths the parser counts are the numbers of pushed elements.
\<close>

lemma wp_reduceBinary:
  assumes "run s0 a (Suc (Suc k)) (Suc k') u s" and "depth = int (Suc (Suc k))"
    and "\<And>t. run s0 a (Suc k) k' u t \<Longrightarrow> prem t = prem s \<Longrightarrow> m_error t = m_error s \<Longrightarrow> Q (int (Suc k)) t"
  shows "wp (reduceBinary depth) Q E s"
proof -
  let ?c = "p_context s"
  obtain x xs where x: "m_binaryOperandStack ?c = x # xs" "wfNode (fst x)"
    using run_pop(2) [OF assms(1)] by blast
  have r1: "run s0 a (Suc k) (Suc k') u (s\<lparr>p_context := ?c\<lparr>m_binaryOperandStack := xs\<rparr>\<rparr>)"
    using run_popped(2) [OF assms(1) refl x(1)] .
  obtain y ys where y: "xs = y # ys" "wfNode (fst y)"
    using run_pop(2) [OF r1] by auto
  have r2: "run s0 a k (Suc k') u (s\<lparr>p_context := ?c\<lparr>m_binaryOperandStack := ys\<rparr>\<rparr>)"
    using run_popped(2) [OF r1 refl, of y ys] y(1) by simp
  obtain z zs where z: "m_binaryOperatorStack ?c = z # zs" "convertOperator_token (fst z) \<noteq> None"
    using run_pop(3) [OF assms(1)] by blast
  obtain node where node: "makeBinaryNode (fst z) y x = Some node"
    using z(2) by (auto simp: makeBinaryNode_def)
  let ?b = "BinaryOpInfo_merge (snd y) (snd x)"
  have "wfNode node" using wf_makeBinaryNode [OF node] x(2) y(2) by simp
  then have "run s0 a (Suc k) (Suc k') u (s\<lparr>p_context := ?c\<lparr>m_binaryOperandStack := (node, ?b) # ys\<rparr>\<rparr>)"
    using run_push(2) [OF r2 refl, of "(node, ?b)"] by simp
  then have "run s0 a (Suc k) k' u (s\<lparr>p_context := ?c\<lparr>m_binaryOperandStack := (node, ?b) # ys,
      m_binaryOperatorStack := zs\<rparr>\<rparr>)"
    using run_popped(3) [OF _ refl, of s0 a "Suc k" k' u _ z zs] z(1) by fastforce
  then have "Q (int (Suc k)) (s\<lparr>p_context := ?c\<lparr>m_binaryOperandStack := (node, ?b) # ys,
      m_binaryOperatorStack := zs\<rparr>\<rparr>)"
    by (rule assms(3)) simp_all
  then show ?thesis
    using x y z node assms(2)
    by (auto simp: wp_simps reduceBinary_def getFromOperandStack_def shrinkOperandStackBy_def
        appendBinaryOperation_def operatorStackPop_def add.commute split: prod.splits)
qed

text \<open>With one operand more than operators on the stacks, the reductions keep it so.\<close>

lemma wp_reduceHigher:
  assumes "run s0 a (Suc k) k u s" and "depth = int (Suc k)"
    and "\<And>k t. run s0 a (Suc k) k u t \<Longrightarrow> prem t = prem s \<Longrightarrow> m_error t = m_error s \<Longrightarrow> Q (k, int (Suc k)) t"
  shows "wp (reduceHigher precedence k depth) Q E s"
  using assms
proof (induction k arbitrary: s depth)
  case 0
  then have "Q (0, int (Suc 0)) s" by blast
  then show ?case using 0 by (simp add: wp_simps)
next
  case (Suc k)
  have red: "wp (bindP (reduceBinary depth) (reduceHigher precedence k)) Q E s"
    unfolding wp_bind using Suc.prems by (intro wp_reduceBinary [OF Suc.prems(1,2)] Suc.IH) auto
  have "Q (Suc k, int (Suc (Suc k))) s" using Suc.prems by blast
  then show ?case
    using run_pop(3) [OF Suc.prems(1)] red Suc.prems(2)
    by (auto simp: wp_simps operatorStackHasHigherPrecedence_def)
qed

lemma wp_reduceAll:
  assumes "run s0 a (Suc k) k u s" and "depth = int (Suc k)"
    and "\<And>d t. run s0 a 1 0 u t \<Longrightarrow> prem t = prem s \<Longrightarrow> m_error t = m_error s \<Longrightarrow> Q d t"
  shows "wp (reduceAll k depth) Q E s"
  using assms
proof (induction k arbitrary: s depth)
  case (Suc k)
  show ?case
    unfolding reduceAll.simps wp_bind using Suc.prems
    by (intro wp_reduceBinary [OF Suc.prems(1,2)] Suc.IH) auto
qed (simp add: wp_simps)

lemma wp_parseBinaryExpression_step:
  assumes "tree_ok b pu" and "run s 0 k k 0 t" and "prem t \<le> prem s" and "prem s < b"
  shows "wp (parseBinaryExpression_step pu (int k, k))
    (\<lambda>r v. case r of
        Inl (d, k') \<Rightarrow> d = int k' \<and> run s 0 k' k' 0 v \<and> prem v < prem s \<and> prem v < prem t
      | Inr (d, k') \<Rightarrow> d = int (Suc k') \<and> run s 0 (Suc k') k' 0 v \<and> prem v < prem s)
    (\<lambda>v. run s 0 0 0 0 v \<and> m_error v) t"
proof -
  note rules = meets_need [OF assms(1,2)] wp_next [of s 0 "Suc k" k 0]
    wp_reduceHigher [of s 0 k 0] run_push(2) [of s 0 k k 0] run_push(3)
  show ?thesis
    unfolding parseBinaryExpression_step_def using assms(2-)
    by (auto simp: wp_simps appendBinaryExpressionInfo_def operatorStackAppend_def
        isBinaryOperator_proper [unfolded proper_def] isBinaryOperator_convert [simplified]
        intro!: rules intro: run_lower)
qed

lemma parseBinaryExpression_ok:
  assumes "tree_ok b pu" and "b \<le> n"
  shows "tree_ok b (parseBinaryExpression n pu)"
proof (rule meetsI)
  fix s
  assume s: "pinv s" "prem s < b" "run s 0 0 0 0 s"
  let ?Q = "\<lambda>(d, k) v. d = int (Suc k) \<and> run s 0 (Suc k) k 0 v \<and> prem v < prem s"
  let ?I = "\<lambda>(d, k) t. d = int k \<and> run s 0 k k 0 t \<and> prem t \<le> prem s"
  have loop: "wp (loopP n (parseBinaryExpression_step pu) (0, 0)) ?Q (\<lambda>v. run s 0 0 0 0 v \<and> m_error v) s"
  proof (rule wp_loop [where I = ?I])
    fix a t
    assume "?I a t"
    then obtain k where a: "a = (int k, k)" "run s 0 k k 0 t" "prem t \<le> prem s" by auto
    show "wp (parseBinaryExpression_step pu a)
        (\<lambda>r v. case r of
            Inl a' \<Rightarrow> ?I a' v \<and> prem v < prem t
          | Inr q \<Rightarrow> ?Q q v)
        (\<lambda>v. run s 0 0 0 0 v \<and> m_error v) t"
      unfolding a(1)
      by (rule wp_mono [OF wp_parseBinaryExpression_step [OF assms(1) a(2,3) s(2)]])
         (auto split: sum.splits)
  qed (use s assms(2) in auto)
  have all: "wp (reduceAll k d) (\<lambda>_ t. run s 0 1 0 0 t \<and> prem t < prem s) E t" if "?Q (d, k) t" for d k t E
    using that by (auto intro!: wp_reduceAll [of s 0 k 0])
  have pop: "wp (contextP popOperandStack) (\<lambda>r v. run s 0 0 0 0 v \<and> wfNode r \<and> prem v < prem s) E t"
    if "run s 0 1 0 0 t" "prem t < prem s" for t E
    using that run_pop(2) [of s 0 0 0 0 t] run_popped(2) [of s 0 0 0 0 t]
    by (auto simp: wp_simps popOperandStack_def split: prod.splits)
  show "wp (parseBinaryExpression n pu) (post m_error wfNode s) (\<lambda>_. False) s"
    unfolding parseBinaryExpression_def wp_function wp_bind
  proof (rule wp_mono [OF loop])
    fix q t
    assume q: "?Q q t"
    obtain d k where dk: "q = (d, k)" by (cases q)
    have last: "wp (contextP popOperandStack) (\<lambda>r. wp (retP (Some r)) (post m_error wfNode s) E) E v"
      if "run s 0 1 0 0 v" "prem v < prem s" for v E
      by (rule wp_mono [OF pop [OF that]]) (simp_all add: wp_ret post_def)
    have "wp (reduceAll k d) (\<lambda>_. wp (contextP popOperandStack)
        (\<lambda>r. wp (retP (Some r)) (post m_error wfNode s) (post m_error wfNode s None))
        (post m_error wfNode s None)) (post m_error wfNode s None) t"
      by (rule wp_mono [OF all]) (use q dk last in auto)
    then show "wp (case q of (d, k) \<Rightarrow> thenP (reduceAll k d)
        (bindP (contextP popOperandStack) (\<lambda>result. retP (Some result))))
        (post m_error wfNode s) (post m_error wfNode s None) t"
      unfolding dk prod.case wp_then wp_bind .
  qed (auto simp: post_def)
qed

subsection \<open>Assignment expressions\<close>

lemma assignmentOperator_proper: "assignmentOperator t = Some op \<Longrightarrow> proper t"
  by (auto simp: proper_def assignmentOperator_def)

lemma wp_createAssignments:
  assumes "wfNode e" and "run s0 k d p u s"
    and "\<And>e' t. run s0 0 d p u t \<Longrightarrow> wfNode e' \<Longrightarrow> prem t = prem s \<Longrightarrow> m_error t = m_error s \<Longrightarrow> Q e' t"
  shows "wp (createAssignments k e) Q E s"
  using assms
proof (induction k arbitrary: e s)
  case (Suc k)
  obtain i xs where i: "m_assignmentInfoStack (p_context s) = i # xs" "wfNode (ai_node i)"
    using run_pop(1) [OF Suc.prems(2)] by blast
  then show ?case
    using Suc.prems run_popped(1) [OF Suc.prems(2) refl i(1)]
    by (auto simp: wp_simps createAssignment_def wf_build node_ok_def intro!: Suc.IH)
qed (simp add: wp_simps)

lemma wp_parseAssignmentExpression_step:
  assumes "tree_ok b pc" and "run s k 0 0 0 t" and "prem t < prem s" and "prem s < Suc b" and "wfNode lhs"
  shows "wp (parseAssignmentExpression_step pc i (lhs, start, k, had))
    (\<lambda>r v. case r of
        Inl (e, _, k', _) \<Rightarrow> run s k' 0 0 0 v \<and> wfNode e \<and> prem v < prem s \<and> prem v < prem t
      | Inr (e, k', _) \<Rightarrow> run s k' 0 0 0 v \<and> wfNode e \<and> prem v < prem s)
    (\<lambda>v. run s 0 0 0 0 v \<and> m_error v) t"
proof -
  note rules = meets_need [OF assms(1), of s "Suc k" 0 0 0] wp_next [of s "Suc k" 0 0 0]
    run_push(1) [of s k 0 0 0]
  show ?thesis
    unfolding parseAssignmentExpression_step_def using assms(2-)
    by (auto simp: wp_simps assignmentStackAppend_def assignmentOperator_proper [unfolded proper_def]
        split: option.splits intro!: rules intro: run_lower)
qed

lemma parseAssignmentExpression_body_ok:
  assumes "tree_ok c pa" and "stmt_ok c ps" and "c < n" and "b \<le> Suc c"
  shows "tree_ok b (parseAssignmentExpression_body n ps pa)"
proof (rule meetsI)
  fix s
  assume s: "pinv s" "prem s < b" "run s 0 0 0 0 s"
  have n: "Suc c \<le> n" using assms(3) by simp
  have pc: "tree_ok (Suc c) (conditionalExpression n ps pa)"
    unfolding conditionalExpression_def
    by (intro parseConditionalExpression_ok [OF _ assms(1) le_refl] parseBinaryExpression_ok [OF _ n]
        parseUnaryExpression_ok [OF _ n] parseMemberExpression_ok [OF assms(1-3) le_refl])
  let ?E = "\<lambda>v. run s 0 0 0 0 v \<and> m_error v"
  let ?I = "\<lambda>(e, start :: nat, k, had :: bool) t. run s k 0 0 0 t \<and> wfNode e \<and> prem t < prem s"
  let ?Q = "\<lambda>(e, k, had :: bool) t. run s k 0 0 0 t \<and> wfNode e \<and> prem t < prem s"
  have loop: "wp (loopP n (parseAssignmentExpression_step (conditionalExpression n ps pa) i)
      (e, start, 0, False)) ?Q ?E t" if "run s 0 0 0 0 t" "wfNode e" "prem t < prem s" for e t start i
  proof (rule wp_loop [where I = ?I])
    fix a v
    assume "?I a v"
    then obtain e start k had where a: "a = (e, start, k, had)" "run s k 0 0 0 v" "wfNode e" "prem v < prem s"
      by (cases a) auto
    have "prem s < Suc (Suc c)" using s(2) assms(4) by simp
    from wp_parseAssignmentExpression_step [OF pc a(2,4) this a(3)]
    show "wp (parseAssignmentExpression_step (conditionalExpression n ps pa) i a)
      (\<lambda>r w. case r of Inl a' \<Rightarrow> ?I a' w \<and> prem w < prem v | Inr q \<Rightarrow> ?Q q w) ?E v"
      unfolding a(1) by (rule wp_mono) (auto split: sum.splits)
  qed (use that s(2) n assms(4) in auto)
  show "wp (parseAssignmentExpression_body n ps pa) (post m_error wfNode s) (\<lambda>_. False) s"
    unfolding parseAssignmentExpression_body_def using s assms(4)
    by (auto simp: wp_simps post_def intro!: meets_need [OF pc, of s 0 0 0 0] wp_mono [OF loop]
        wp_createAssignments [of _ s _ 0 0 0])
qed

end
