(* ===== verification/StatementProps.thy ===== *)
theory StatementProps
  imports ExpressionProps
begin

text \<open>
  The contracts of the statement functions of \<open>JSStatements\<close>, in the style of \<open>ParserProps\<close>, and
  the recursion: with fuel for the input, \<open>parseStatement\<close> and \<open>parseAssignmentExpression\<close> meet
  theirs.
\<close>

subsection \<open>Declarations\<close>

lemma wp_parseVarDeclarationList:
  assumes "tree_ok c pa" and "run s0 a d p u s" and "prem s < Suc c" and "c < n" and "proper (tokenType s)"
    and "\<And>v k i e t. run s0 a d p u t \<Longrightarrow> wfOpt v \<Longrightarrow> wfOpt e \<Longrightarrow> prem t < prem s \<or> m_error t \<Longrightarrow>
      prem t \<le> prem s \<Longrightarrow> m_error s \<longrightarrow> m_error t \<Longrightarrow> Q (v, k, i, e) t"
  shows "wp (parseVarDeclarationList n pa) Q E s"
  unfolding parseVarDeclarationList_def parseVarDeclarator_def using assms(2-)
  by (auto simp: wp_simps Let_def split: option.splits
      intro!: wp_next [of s0 a d p u] meets_need [OF assms(1), of s0 a d p u]
        wp_loop [where I = "\<lambda>(v, k, i, e) t. run s0 a d p u t \<and> wfOpt v \<and> wfOpt e \<and>
          prem t \<le> prem s \<and> (m_error s \<longrightarrow> m_error t) \<and> proper (tokenType t)"])

lemma wp_parseConstDeclarationList:
  assumes "tree_ok c pa" and "run s0 a d p u s" and "prem s < Suc c" and "c < n" and "proper (tokenType s)"
    and "\<And>t. run s0 a d p u t \<Longrightarrow> m_error t \<Longrightarrow> prem t \<le> prem s \<Longrightarrow> Q None t"
  shows "wp (parseConstDeclarationList n pa) Q E s"
proof -
  obtain m where n: "n = Suc m" using assms(4) by (cases n) auto
  show ?thesis
    unfolding parseConstDeclarationList_def n using assms(2-)
    by (auto simp: wp_simps appendConstDecl_def
        intro!: wp_next [of s0 a d p u] meets_apply [OF assms(1), of s0 a d p u])
qed


subsection \<open>The functions below parseStatement\<close>

text \<open>
  A statement function is called at its first token, which it consumes before it calls \<open>ps\<close> or
  \<open>pa\<close>. What it relies on are the contracts of the two for less input: the interface below.
  \<open>c\<close> bounds the measure after the first token, and the loops may make \<open>n\<close> rounds.
\<close>

definition stmt_at :: "JSTokenType set \<Rightarrow> nat \<Rightarrow> treeP \<Rightarrow> bool" where
  "stmt_at T b m \<longleftrightarrow>
     (\<forall>s. pinv s \<and> prem s < b \<and> tokenType s \<in> T \<longrightarrow> wp m (post m_error wfNode s) (\<lambda>_. False) s)"

lemma stmt_atI:
  "(\<And>s. pinv s \<Longrightarrow> prem s < b \<Longrightarrow> run s 0 0 0 0 s \<Longrightarrow> tokenType s \<in> T \<Longrightarrow>
      wp m (post m_error wfNode s) (\<lambda>_. False) s) \<Longrightarrow> stmt_at T b m"
  by (simp add: stmt_at_def run_refl)

locale sub_parsers =
  fixes c n :: nat and ps pa :: treeP
  assumes pa_ok: "tree_ok c pa"
    and ps_ok: "stmt_ok c ps"
    and rounds: "c < n"
begin

lemma expression_ok: "tree_ok c (parseExpression n pa)"
  using pa_ok rounds by (intro parseExpression_ok) simp_all

lemmas statement_rules =
  wp_next [of _ 0 0 0 0] wp_consume [of _ 0 0 0 0] wp_consumeOrFail [of _ 0 0 0 0]
  wp_autoSemiColon [of _ 0 0 0 0] run_error less_imp_le [OF rounds]
  meets_need [OF ps_ok, of _ 0 0 0 0] meets_need [OF expression_ok, of _ 0 0 0 0]
  wp_need_parseSourceElements [OF ps_ok, of _ 0 0 0 0]

lemma parseVarDeclaration_ok: "stmt_at {VAR} (Suc c) (parseVarDeclaration n pa)"
  by (rule stmt_atI) (auto simp: parseVarDeclaration_def wp_simps post_def rounds
      intro!: wp_parseVarDeclarationList [OF pa_ok, of _ 0 0 0 0] statement_rules)

lemma parseConstDeclaration_ok: "stmt_at {CONSTTOKEN} (Suc c) (parseConstDeclaration n pa)"
  by (rule stmt_atI) (auto simp: parseConstDeclaration_def wp_simps post_def rounds
      intro!: wp_parseConstDeclarationList [OF pa_ok, of _ 0 0 0 0])

lemma parseFunctionDeclaration_ok: "stmt_at {FUNCTION} (Suc c) (parseFunctionDeclaration n ps)"
  by (rule stmt_atI) (auto simp: parseFunctionDeclaration_def wp_simps post_def rounds
      intro!: wp_parseFunctionInfo [OF ps_ok, of _ 0 0 0 0] wp_next [of _ 0 0 0 0])

lemma parseDoWhileStatement_ok: "stmt_at {DO} (Suc c) (parseDoWhileStatement n ps pa)"
  by (rule stmt_atI)
     (auto simp: parseDoWhileStatement_def wp_simps post_def rounds intro!: statement_rules)

lemma parseWhileStatement_ok: "stmt_at {WHILE} (Suc c) (parseWhileStatement n ps pa)"
  by (rule stmt_atI)
     (auto simp: parseWhileStatement_def wp_simps post_def rounds intro!: statement_rules)

lemma parseWithStatement_ok: "stmt_at {WITH} (Suc c) (parseWithStatement n ps pa)"
  by (rule stmt_atI)
     (auto simp: parseWithStatement_def wp_simps post_def rounds intro!: statement_rules)

lemma parseBreakStatement_ok: "stmt_at {BREAK} (Suc c) parseBreakStatement"
  by (rule stmt_atI)
     (auto simp: parseBreakStatement_def parseJump_def wp_simps post_def intro!: statement_rules)

lemma parseContinueStatement_ok: "stmt_at {CONTINUE} (Suc c) parseContinueStatement"
  by (rule stmt_atI)
     (auto simp: parseContinueStatement_def parseJump_def wp_simps post_def intro!: statement_rules)

lemma parseReturnStatement_ok: "stmt_at {RETURN} (Suc c) (parseReturnStatement n pa)"
  by (rule stmt_atI)
     (auto simp: parseReturnStatement_def wp_simps post_def rounds intro!: statement_rules)

lemma parseThrowStatement_ok: "stmt_at {THROW} (Suc c) (parseThrowStatement n pa)"
  by (rule stmt_atI)
     (auto simp: parseThrowStatement_def wp_simps post_def rounds intro!: statement_rules)

lemma parseDebuggerStatement_ok: "stmt_at {DEBUGGER} (Suc c) parseDebuggerStatement"
  by (rule stmt_atI) (auto simp: parseDebuggerStatement_def wp_simps post_def intro!: statement_rules)

lemma parseBlockStatement_ok: "stmt_at {OPENBRACE} (Suc c) (parseBlockStatement n ps)"
  by (rule stmt_atI)
     (auto simp: parseBlockStatement_def wp_simps post_def rounds intro!: statement_rules)

lemma blocks_rule:
  assumes "run s0 0 0 0 0 s" and "prem s < Suc c" and "tokenType s = OPENBRACE"
    and "\<And>e t. run s0 0 0 0 0 t \<Longrightarrow> wfNode e \<Longrightarrow> prem t < prem s \<Longrightarrow> m_error s \<longrightarrow> m_error t \<Longrightarrow> Q e t"
    and "\<And>t. run s0 0 0 0 0 t \<Longrightarrow> m_error t \<Longrightarrow> prem t \<le> prem s \<Longrightarrow> E t"
  shows "wp (needP (parseBlockStatement n ps)) Q E s"
proof -
  have "wp (parseBlockStatement n ps) (post m_error wfNode s) (\<lambda>_. False) s"
    using parseBlockStatement_ok assms(1-3) by (simp add: stmt_at_def run_pinv)
  then show ?thesis
    unfolding wp_need by (rule post_apply [OF _ assms(1)]) (auto intro: assms(4,5))
qed

lemma parseTryStatement_ok: "stmt_at {TRY} (Suc c) (parseTryStatement n ps)"
  by (rule stmt_atI)
     (auto simp: parseTryStatement_def wp_simps post_def rounds intro!: statement_rules blocks_rule)

subsection \<open>switch\<close>

abbreviation clauseList :: "Node \<Rightarrow> bool" where
  "clauseList l \<equiv> wfList l \<and> m_ntype l = ClauseListType"

lemma wp_parseSwitchClause:
  assumes "run s0 0 0 0 0 s" and "prem s < Suc c" and "tokenType s = CASE"
    and "\<And>e t. run s0 0 0 0 0 t \<Longrightarrow> wfNode e \<Longrightarrow> prem t < prem s \<Longrightarrow> m_error s \<longrightarrow> m_error t \<Longrightarrow> Q e t"
    and "\<And>t. run s0 0 0 0 0 t \<Longrightarrow> m_error t \<Longrightarrow> prem t \<le> prem s \<Longrightarrow> E t"
  shows "wp (parseSwitchClause n ps pa) Q E s"
  unfolding parseSwitchClause_def using assms(1-3) rounds
  by (auto simp: wp_simps intro!: statement_rules assms(4,5))

lemma wp_parseSwitchClauses:
  assumes "run s0 0 0 0 0 s" and "prem s < c"
    and "\<And>l t. run s0 0 0 0 0 t \<Longrightarrow> clauseList l \<Longrightarrow> prem t \<le> prem s \<Longrightarrow> m_error s \<longrightarrow> m_error t \<Longrightarrow> Q (Some l) t"
    and "\<And>t. run s0 0 0 0 0 t \<Longrightarrow> prem t \<le> prem s \<Longrightarrow> m_error s \<longrightarrow> m_error t \<Longrightarrow> Q None t"
  shows "wp (parseSwitchClauses n ps pa) Q E s"
  unfolding parseSwitchClauses_def using assms(1,2) rounds
  by (auto simp: wp_simps intro!: assms(3,4) wp_parseSwitchClause [of s0]
      wp_loop [where I = "\<lambda>l t. run s0 0 0 0 0 t \<and> clauseList l \<and> prem t \<le> prem s \<and> (m_error s \<longrightarrow> m_error t)"])

lemma wp_parseSwitchDefaultClause:
  assumes "run s0 0 0 0 0 s" and "prem s < c"
    and "\<And>r t. run s0 0 0 0 0 t \<Longrightarrow> wfOpt r \<Longrightarrow> prem t \<le> prem s \<Longrightarrow> m_error s \<longrightarrow> m_error t \<Longrightarrow> Q r t"
  shows "wp (parseSwitchDefaultClause n ps) Q E s"
  unfolding parseSwitchDefaultClause_def using assms(1,2) rounds
  by (auto simp: wp_simps intro!: statement_rules assms(3))

lemma parseSwitchStatement_ok: "stmt_at {SWITCH} (Suc c) (parseSwitchStatement n ps pa)"
  by (rule stmt_atI)
     (auto simp: parseSwitchStatement_def wp_simps post_def rounds clause_list_or_null_def
       intro!: statement_rules wp_parseSwitchClauses wp_parseSwitchDefaultClause)

subsection \<open>if\<close>

text \<open>
  The stacks of an \<open>else if\<close> chain: as many conditions as blocks while it goes on, and one block
  more at a trailing \<open>else\<close>. The chain then folds into one node.
\<close>

lemma foldElseIf_wf:
  assumes "length ss = Suc (length es)" and "list_all wfNode es" and "list_all wfNode ss"
  shows "\<exists>x. foldElseIf es ss = Some [x] \<and> wfNode x"
  using assms
proof (induction es ss rule: foldElseIf.induct)
  case (1 ss)
  then show ?case by (cases ss) auto
qed auto

lemma elseChain_wf:
  assumes "list_all wfNode es" and "list_all wfNode ss"
    and "if trailing then length ss = Suc (length es) else length ss = length es \<and> es \<noteq> []"
  shows "\<exists>x. elseChain es ss trailing = Some x \<and> wfNode x"
proof (cases trailing)
  case True
  then show ?thesis
    using foldElseIf_wf [of ss es] assms by (auto simp: elseChain_def closeElseIf_def)
next
  case False
  then obtain e es' t ss' where e: "es = e # es'" "ss = t # ss'" using assms by (cases es; cases ss) auto
  then show ?thesis
    using foldElseIf_wf [of "createIfStatement e t # ss'" es'] assms False
    by (auto simp: elseChain_def closeElseIf_def)
qed

lemma wp_parseElseBranch:
  assumes "run s0 0 0 0 0 s" and "prem s < Suc c" and "tokenType s = ELSE"
    and "list_all wfNode es" and "list_all wfNode ss" and "length ss = length es"
  shows "wp (parseElseBranch n ps pa (es, ss))
    (\<lambda>r t. run s0 0 0 0 0 t \<and> prem t < prem s \<and>
      (case r of
         Inl (es', ss') \<Rightarrow> list_all wfNode es' \<and> list_all wfNode ss' \<and> length ss' = length es' \<and> tokenType t = ELSE
       | Inr (es', ss', trailing) \<Rightarrow> \<exists>x. elseChain es' ss' trailing = Some x \<and> wfNode x))
    (\<lambda>t. run s0 0 0 0 0 t \<and> m_error t \<and> prem t \<le> prem s) s"
  unfolding parseElseBranch_def using assms rounds
  by (auto simp: wp_simps Let_def intro!: statement_rules elseChain_wf)

lemma parseIfStatement_ok: "stmt_at {IF} (Suc c) (parseIfStatement n ps pa)"
proof (rule stmt_atI)
  fix s
  assume s: "pinv s" "prem s < Suc c" "run s 0 0 0 0 s" "tokenType s \<in> {IF}"
  let ?I = "\<lambda>(es, ss) t. run s 0 0 0 0 t \<and> prem t < prem s \<and> tokenType t = ELSE \<and>
    list_all wfNode es \<and> list_all wfNode ss \<and> length ss = length es"
  let ?Q = "\<lambda>(es, ss, trailing) t. run s 0 0 0 0 t \<and> prem t < prem s \<and>
    (\<exists>x. elseChain es ss trailing = Some x \<and> wfNode x)"
  have loop: "wp (loopP n (parseElseBranch n ps pa) ([], [])) ?Q
      (\<lambda>t. run s 0 0 0 0 t \<and> m_error t \<and> prem t \<le> prem s) t"
    if "run s 0 0 0 0 t" "prem t < prem s" "tokenType t = ELSE" for t
  proof (rule wp_loop [where I = ?I])
    fix a v
    assume "?I a v"
    then obtain es ss where a: "a = (es, ss)" "run s 0 0 0 0 v" "prem v < prem s" "tokenType v = ELSE"
      "list_all wfNode es" "list_all wfNode ss" "length ss = length es" by (cases a) auto
    have "prem v < Suc c" using a(3) s(2) by simp
    from wp_parseElseBranch [OF a(2) this a(4-7)]
    show "wp (parseElseBranch n ps pa a) (\<lambda>r w. case r of Inl a' \<Rightarrow> ?I a' w \<and> prem w < prem v | Inr q \<Rightarrow> ?Q q w)
      (\<lambda>t. run s 0 0 0 0 t \<and> m_error t \<and> prem t \<le> prem s) v"
      unfolding a(1) by (rule wp_mono) (use a(3) in \<open>auto split: sum.splits\<close>)
  qed (use that s(2) rounds in auto)
  show "wp (parseIfStatement n ps pa) (post m_error wfNode s) (\<lambda>_. False) s"
    unfolding parseIfStatement_def using s rounds
    by (auto simp: wp_simps post_def intro!: statement_rules wp_mono [OF loop])
qed

subsection \<open>for\<close>

lemma wp_parseOptionalExpression:
  assumes "run s0 0 0 0 0 s" and "prem s < c"
    and "\<And>r t. run s0 0 0 0 0 t \<Longrightarrow> wfOpt r \<Longrightarrow> prem t \<le> prem s \<Longrightarrow> m_error s \<longrightarrow> m_error t \<Longrightarrow> Q r t"
    and "\<And>t. run s0 0 0 0 0 t \<Longrightarrow> m_error t \<Longrightarrow> prem t \<le> prem s \<Longrightarrow> E t"
  shows "wp (parseOptionalExpression n pa absent) Q E s"
  unfolding parseOptionalExpression_def using assms(1,2) rounds
  by (auto simp: wp_simps intro!: statement_rules assms(3,4))

lemma wp_parseStandardForLoop:
  assumes "run s0 0 0 0 0 s" and "prem s < c" and "wfOpt decls"
    and "\<And>e t. run s0 0 0 0 0 t \<Longrightarrow> wfNode e \<Longrightarrow> prem t \<le> prem s \<Longrightarrow> Q (Some e) t"
    and "\<And>t. run s0 0 0 0 0 t \<Longrightarrow> m_error t \<Longrightarrow> E t"
  shows "wp (parseStandardForLoop n ps pa decls) Q E s"
  unfolding parseStandardForLoop_def using assms(1-3) rounds
  by (auto simp: wp_simps intro!: statement_rules wp_parseOptionalExpression assms(4,5))

lemma wp_parseForVar:
  assumes "run s0 0 0 0 0 s" and "prem s < c" and "tokenType s = VAR"
    and "\<And>e t. run s0 0 0 0 0 t \<Longrightarrow> wfNode e \<Longrightarrow> prem t \<le> prem s \<Longrightarrow> Q (Some e) t"
    and "\<And>t. run s0 0 0 0 0 t \<Longrightarrow> m_error t \<Longrightarrow> E t"
  shows "wp (parseForVar n ps pa) Q E s"
  unfolding parseForVar_def using assms(1-3) rounds
  by (auto simp: wp_simps intro!: statement_rules assms(4,5) wp_parseStandardForLoop
      wp_parseVarDeclarationList [OF pa_ok, of _ 0 0 0 0])

lemma parseForStatement_ok: "stmt_at {FOR} (Suc c) (parseForStatement n ps pa)"
proof (rule stmt_atI)
  fix s
  assume s: "pinv s" "prem s < Suc c" "run s 0 0 0 0 s" "tokenType s \<in> {FOR}"
  show "wp (parseForStatement n ps pa) (post m_error wfNode s) (\<lambda>_. False) s"
    unfolding parseForStatement_def using s rounds
    by (auto simp: wp_simps post_def intro!: statement_rules wp_parseForVar wp_parseStandardForLoop
        meets_apply [OF expression_ok, of _ 0 0 0 0])
qed

end

subsection \<open>parseStatement\<close>

text \<open>
  \<open>parseStatement\<close> may start an expression without having consumed a token, so it needs the
  contract of \<open>pa\<close> one step higher.
\<close>

locale statement_parsers = sub_parsers +
  assumes pa_first: "tree_ok (Suc c) pa"
begin

lemma first_expression_ok: "tree_ok (Suc c) (parseExpression n pa)"
  using pa_first rounds by (intro parseExpression_ok) simp_all

lemma parseExpressionStatement_ok: "tree_ok (Suc c) (parseExpressionStatement n pa)"
  by (rule meetsI)
     (auto simp: parseExpressionStatement_def wp_simps post_def
       intro!: statement_rules meets_need [OF first_expression_ok, of _ 0 0 0 0])

lemma parseExpressionOrLabelStatement_ok: "tree_ok (Suc c) (parseExpressionOrLabelStatement n ps pa)"
  by (rule meetsI)
     (auto simp: parseExpressionOrLabelStatement_def wp_simps post_def
       intro!: statement_rules meets_need [OF first_expression_ok, of _ 0 0 0 0])

lemma stmt_at_wp:
  "stmt_at T b m \<Longrightarrow> pinv s \<Longrightarrow> prem s < b \<Longrightarrow> tokenType s \<in> T \<Longrightarrow>
     wp m (post (\<lambda>_. True) wfNode s) (\<lambda>_. False) s"
  unfolding stmt_at_def by (auto elim!: wp_mono simp: post_def split: option.splits)

lemma parseStatement_body_ok: "stmt_ok (Suc c) (parseStatement_body n ps pa)"
proof (rule meetsI)
  fix s
  assume s: "pinv s" "prem s < Suc c" "run s 0 0 0 0 s"
  note statements = parseBlockStatement_ok parseVarDeclaration_ok parseConstDeclaration_ok
    parseFunctionDeclaration_ok parseIfStatement_ok parseDoWhileStatement_ok parseWhileStatement_ok
    parseForStatement_ok parseContinueStatement_ok parseBreakStatement_ok parseReturnStatement_ok
    parseWithStatement_ok parseSwitchStatement_ok parseThrowStatement_ok parseTryStatement_ok
    parseDebuggerStatement_ok
  note at = statements [THEN stmt_at_wp, OF s(1,2)]
  have e: "wp (parseExpressionStatement n pa) (post (\<lambda>_. True) wfNode s) (\<lambda>_. False) s"
    "wp (parseExpressionOrLabelStatement n ps pa) (post (\<lambda>_. True) wfNode s) (\<lambda>_. False) s"
    using parseExpressionStatement_ok parseExpressionOrLabelStatement_ok s
    by (auto simp: meets_def elim!: wp_mono simp: post_def split: option.splits)
  have none: "wp (retP None) (post (\<lambda>_. True) wfNode s) (\<lambda>_. False) s"
    using s by (simp add: wp_ret post_def)
  have empty: "wp (thenP nextP (retP (Some createEmptyStatement)))
      (post (\<lambda>_. True) wfNode s) (\<lambda>_. False) s" if "tokenType s = SEMICOLON"
    using that s by (auto simp: wp_simps post_def intro!: wp_next [of s 0 0 0 0])
  show "wp (parseStatement_body n ps pa) (post (\<lambda>_. True) wfNode s) (\<lambda>_. False) s"
    unfolding parseStatement_body_def wp_bind wp_get
    by (cases "tokenType s") (simp_all add: at e none empty)
qed

end

subsection \<open>The recursion\<close>

text \<open>
  Every call that goes around consumes a token, and \<open>parseStatement\<close> may call
  \<open>parseAssignmentExpression\<close> once before it does: two levels of calls for each step of the
  measure are enough.
\<close>

lemma parse_ok:
  "2 * b \<le> n \<Longrightarrow> tree_ok b (parseAssignmentExpression n)"
  "2 * b < n \<Longrightarrow> stmt_ok b (parseStatement n)"
proof (induction n arbitrary: b)
  case 0
  {
    case 1
    then show ?case by (simp add: meets_def)
  next
    case 2
    then show ?case by simp
  }
next
  case (Suc n)
  {
    case 1
    have unfold: "parseAssignmentExpression (Suc n) =
        parseAssignmentExpression_body n (parseStatement n) (parseAssignmentExpression n)"
      by (rule ext) simp
    show ?case
    proof (cases b)
      case (Suc c)
      then show ?thesis
        unfolding unfold using 1
        by (intro parseAssignmentExpression_body_ok [where c = c] Suc.IH) simp_all
    qed (simp add: meets_def)
  next
    case 2
    have unfold: "parseStatement (Suc n) =
        parseStatement_body n (parseStatement n) (parseAssignmentExpression n)"
      by (rule ext) simp
    show ?case
    proof (cases b)
      case (Suc c)
      then have "statement_parsers c n (parseStatement n) (parseAssignmentExpression n)"
        using 2 by unfold_locales (auto intro!: Suc.IH)
      then show ?thesis unfolding unfold Suc by (rule statement_parsers.parseStatement_body_ok)
    qed (simp add: meets_def)
  }
qed

text \<open>The two functions of the recursion provide the interface, with fuel \<open>2 * c + 2\<close>.\<close>

interpretation recursive_descent: statement_parsers c "2 * c + 2" "parseStatement (2 * c + 2)"
  "parseAssignmentExpression (2 * c + 2)" for c
  by unfold_locales (simp_all add: parse_ok)

end
