(* ===== verification/FuelMono.thy ===== *)
theory FuelMono
  imports JSStatements
begin

text \<open>
  More fuel never changes a result. \<open>below m m'\<close>: wherever \<open>m\<close> comes to an end, \<open>m'\<close> has the same
  outcome. Every combinator keeps the relation, hence every parser function does.
\<close>

definition below :: "'a parser \<Rightarrow> 'a parser \<Rightarrow> bool" where
  "below m m' \<longleftrightarrow> (\<forall>s. m s = OutOfFuel \<or> m' s = m s)"

named_theorems below_intros

lemma belowI: "(\<And>s. m s \<noteq> OutOfFuel \<Longrightarrow> m' s = m s) \<Longrightarrow> below m m'"
  unfolding below_def by blast

lemma belowD: "below m m' \<Longrightarrow> m s \<noteq> OutOfFuel \<Longrightarrow> m' s = m s"
  unfolding below_def by blast

lemma below_refl [simp, below_intros]: "below m m"
  by (simp add: below_def)

lemma below_bind [below_intros]:
  assumes "below m m'" and "\<And>a. below (f a) (f' a)"
  shows "below (bindP m f) (bindP m' f')"
proof (rule belowI)
  fix s
  assume s: "bindP m f s \<noteq> OutOfFuel"
  then have "m' s = m s" by (intro belowD [OF assms(1)]) (auto simp: bindP_def)
  then show "bindP m' f' s = bindP m f s"
    using s belowD [OF assms(2)] by (cases "m s") (auto simp: bindP_def)
qed

lemma below_then [below_intros]:
  "below m m' \<Longrightarrow> below k k' \<Longrightarrow> below (thenP m k) (thenP m' k')"
  unfolding thenP_def by (intro below_bind)

text \<open>The combinators that run a parser in a changed state and then look at its outcome.\<close>

lemma below_map:
  assumes "below m m'" and "\<And>s. F s OutOfFuel = OutOfFuel"
  shows "below (\<lambda>s. F s (m (g s))) (\<lambda>s. F s (m' (g s)))"
  using assms unfolding below_def by metis

lemma below_function [below_intros]: "below m m' \<Longrightarrow> below (functionP z m) (functionP z m')"
  unfolding functionP_def [abs_def] by (erule below_map) simp

lemma below_withBuilder [below_intros]: "below m m' \<Longrightarrow> below (withBuilderP m) (withBuilderP m')"
  unfolding withBuilderP_def [abs_def] by (erule below_map) simp

lemma below_allowIn [below_intros]: "below m m' \<Longrightarrow> below (allowInOverrideP m) (allowInOverrideP m')"
  unfolding allowInOverrideP_def [abs_def] by (erule below_map) simp

lemma below_need [below_intros]: "below m m' \<Longrightarrow> below (needP m) (needP m')"
  unfolding needP_def by (intro below_bind) auto

lemma below_cases [below_intros]:
  "below m m' \<Longrightarrow> below k k' \<Longrightarrow> below (if b then m else k) (if b then m' else k')"
  "below m m' \<Longrightarrow> (\<And>y. below (f y) (f' y)) \<Longrightarrow>
     below (case x of None \<Rightarrow> m | Some y \<Rightarrow> f y) (case x of None \<Rightarrow> m' | Some y \<Rightarrow> f' y)"
  "(\<And>v w. below (g v w) (g' v w)) \<Longrightarrow> below (case z of (v, w) \<Rightarrow> g v w) (case z of (v, w) \<Rightarrow> g' v w)"
  "(\<And>v. below (h v) (h' v)) \<Longrightarrow> (\<And>w. below (j w) (j' w)) \<Longrightarrow>
     below (case r of Inl v \<Rightarrow> h v | Inr w \<Rightarrow> j w) (case r of Inl v \<Rightarrow> h' v | Inr w \<Rightarrow> j' w)"
  by (simp_all split: option.splits prod.splits sum.splits)

lemma below_loop [below_intros]:
  assumes "n \<le> n'" and "\<And>a. below (body a) (body' a)"
  shows "below (loopP n body a) (loopP n' body' a)"
  using assms(1)
proof (induction n arbitrary: n' a)
  case 0
  show ?case by (simp add: below_def outOfFuelP_def)
next
  case (Suc n)
  then obtain m where "n' = Suc m" "n \<le> m" by (cases n') auto
  then show ?case
    using Suc.IH assms(2) by (auto intro!: below_bind below_cases)
qed

subsection \<open>Parsers without a recursive call\<close>

lemma below_parseConditional [below_intros]:
  "below pb pb' \<Longrightarrow> below pa pa' \<Longrightarrow>
     below (parseConditionalExpression pb pa) (parseConditionalExpression pb' pa')"
  unfolding parseConditionalExpression_def by (intro below_intros; assumption)

lemma below_parseBinary [below_intros]:
  "n \<le> n' \<Longrightarrow> below pu pu' \<Longrightarrow> below (parseBinaryExpression n pu) (parseBinaryExpression n' pu')"
  unfolding parseBinaryExpression_def parseBinaryExpression_step_def by (intro below_intros; assumption)

lemma below_parseUnary [below_intros]:
  "n \<le> n' \<Longrightarrow> below pm pm' \<Longrightarrow> below (parseUnaryExpression n pm) (parseUnaryExpression n' pm')"
  unfolding parseUnaryExpression_def parseUnaryOperators_def by (intro below_intros; assumption)

lemma below_assignmentStep [below_intros]:
  "below pc pc' \<Longrightarrow> below (parseAssignmentExpression_step pc i v) (parseAssignmentExpression_step pc' i v)"
  unfolding parseAssignmentExpression_step_def by (intro below_intros; assumption)

subsection \<open>The functions of the parser\<close>

text \<open>
  More fuel in the interface of the parser functions: more rounds for the loops, and more
  outcomes of the two functions of the recursion.
\<close>

locale more_fuel =
  fixes n n' :: nat and ps ps' pa pa' :: treeP
  assumes rounds [below_intros]: "n \<le> n'"
    and ps_below [below_intros]: "below ps ps'"
    and pa_below [below_intros]: "below pa pa'"
begin

lemma parseSourceElements_below [below_intros]: "below (parseSourceElements n ps) (parseSourceElements n' ps')"
  unfolding parseSourceElements_def by (intro below_intros)+

lemma parseVarDeclarator_below [below_intros]: "below (parseVarDeclarator pa decls) (parseVarDeclarator pa' decls)"
  unfolding parseVarDeclarator_def by (intro below_intros)+

lemma parseVarDeclarationList_below [below_intros]: "below (parseVarDeclarationList n pa) (parseVarDeclarationList n' pa')"
  unfolding parseVarDeclarationList_def by (intro below_intros)+

lemma parseVarDeclaration_below [below_intros]: "below (parseVarDeclaration n pa) (parseVarDeclaration n' pa')"
  unfolding parseVarDeclaration_def by (intro below_intros)+

lemma parseConstDeclarationList_below [below_intros]: "below (parseConstDeclarationList n pa) (parseConstDeclarationList n' pa')"
  unfolding parseConstDeclarationList_def by (intro below_intros)+

lemma parseConstDeclaration_below [below_intros]: "below (parseConstDeclaration n pa) (parseConstDeclaration n' pa')"
  unfolding parseConstDeclaration_def by (intro below_intros)+

lemma parseExpression_below [below_intros]: "below (parseExpression n pa) (parseExpression n' pa')"
  unfolding parseExpression_def by (intro below_intros)+

lemma parseFunctionBody_below [below_intros]: "below (parseFunctionBody n ps) (parseFunctionBody n' ps')"
  unfolding parseFunctionBody_def by (intro below_intros)+

lemma parseFormalParameters_below [below_intros]: "below (parseFormalParameters n) (parseFormalParameters n')"
  unfolding parseFormalParameters_def by (intro below_intros)+

lemma parseFunctionInfo_below [below_intros]: "below (parseFunctionInfo n ps needsName name0) (parseFunctionInfo n' ps' needsName name0)"
  unfolding parseFunctionInfo_def by (intro below_intros)+

lemma parseFunctionDeclaration_below [below_intros]: "below (parseFunctionDeclaration n ps) (parseFunctionDeclaration n' ps')"
  unfolding parseFunctionDeclaration_def by (intro below_intros)+

lemma parseNamedProperty_below [below_intros]: "below (parseNamedProperty n ps pa wasIdent) (parseNamedProperty n' ps' pa' wasIdent)"
  unfolding parseNamedProperty_def by (intro below_intros)+

lemma parseProperty_below [below_intros]: "below (parseProperty n ps pa) (parseProperty n' ps' pa')"
  unfolding parseProperty_def by (intro below_intros)+

lemma parseStrictObjectLiteral_below [below_intros]: "below (parseStrictObjectLiteral n ps pa) (parseStrictObjectLiteral n' ps' pa')"
  unfolding parseStrictObjectLiteral_def by (intro below_intros)+

lemma restartStrict_below [below_intros]: "below (restartStrict n ps pa off) (restartStrict n' ps' pa' off)"
  unfolding restartStrict_def by (intro below_intros)+

lemma parseObjectLiteral_below [below_intros]: "below (parseObjectLiteral n ps pa) (parseObjectLiteral n' ps' pa')"
  unfolding parseObjectLiteral_def by (intro below_intros)+

lemma skipElisions_below [below_intros]: "below (skipElisions n) (skipElisions n')"
  unfolding skipElisions_def by (intro below_intros)+

lemma parseArrayLiteral_below [below_intros]: "below (parseArrayLiteral n pa) (parseArrayLiteral n' pa')"
  unfolding parseArrayLiteral_def by (intro below_intros)+

lemma parsePrimaryExpression_below [below_intros]: "below (parsePrimaryExpression n ps pa) (parsePrimaryExpression n' ps' pa')"
  unfolding parsePrimaryExpression_def
  by (intro below_function below_bind below_refl)
     (simp split: JSTokenType.split add: below_intros)

lemma parseArguments_below [below_intros]: "below (parseArguments n pa) (parseArguments n' pa')"
  unfolding parseArguments_def by (intro below_intros)+

lemma parseMemberExpression_step_below [below_intros]: "below (parseMemberExpression_step n pa v) (parseMemberExpression_step n' pa' v)"
  unfolding parseMemberExpression_step_def by (intro below_intros)+

lemma countNew_below [below_intros]: "below (countNew n) (countNew n')"
  unfolding countNew_def by (intro below_intros)+

lemma parseMemberExpression_below [below_intros]: "below (parseMemberExpression n ps pa) (parseMemberExpression n' ps' pa')"
  unfolding parseMemberExpression_def by (intro below_intros)+

lemma conditionalExpression_below [below_intros]: "below (conditionalExpression n ps pa) (conditionalExpression n' ps' pa')"
  unfolding conditionalExpression_def by (intro below_intros)+

lemma parseAssignmentExpression_body_below [below_intros]: "below (parseAssignmentExpression_body n ps pa) (parseAssignmentExpression_body n' ps' pa')"
  unfolding parseAssignmentExpression_body_def by (intro below_intros)+

lemma parseDoWhileStatement_below [below_intros]: "below (parseDoWhileStatement n ps pa) (parseDoWhileStatement n' ps' pa')"
  unfolding parseDoWhileStatement_def by (intro below_intros)+

lemma parseWhileStatement_below [below_intros]: "below (parseWhileStatement n ps pa) (parseWhileStatement n' ps' pa')"
  unfolding parseWhileStatement_def by (intro below_intros)+

lemma parseOptionalExpression_below [below_intros]: "below (parseOptionalExpression n pa b) (parseOptionalExpression n' pa' b)"
  unfolding parseOptionalExpression_def by (intro below_intros)+

lemma parseStandardForLoop_below [below_intros]: "below (parseStandardForLoop n ps pa decls) (parseStandardForLoop n' ps' pa' decls)"
  unfolding parseStandardForLoop_def by (intro below_intros)+

lemma parseForVar_below [below_intros]: "below (parseForVar n ps pa) (parseForVar n' ps' pa')"
  unfolding parseForVar_def by (intro below_intros)+

lemma parseForStatement_below [below_intros]: "below (parseForStatement n ps pa) (parseForStatement n' ps' pa')"
  unfolding parseForStatement_def by (intro below_intros)+

lemma parseReturnStatement_below [below_intros]: "below (parseReturnStatement n pa) (parseReturnStatement n' pa')"
  unfolding parseReturnStatement_def by (intro below_intros)+

lemma parseThrowStatement_below [below_intros]: "below (parseThrowStatement n pa) (parseThrowStatement n' pa')"
  unfolding parseThrowStatement_def by (intro below_intros)+

lemma parseWithStatement_below [below_intros]: "below (parseWithStatement n ps pa) (parseWithStatement n' ps' pa')"
  unfolding parseWithStatement_def by (intro below_intros)+

lemma parseSwitchClause_below [below_intros]: "below (parseSwitchClause n ps pa) (parseSwitchClause n' ps' pa')"
  unfolding parseSwitchClause_def by (intro below_intros)+

lemma parseSwitchClauses_below [below_intros]: "below (parseSwitchClauses n ps pa) (parseSwitchClauses n' ps' pa')"
  unfolding parseSwitchClauses_def by (intro below_intros)+

lemma parseSwitchDefaultClause_below [below_intros]: "below (parseSwitchDefaultClause n ps) (parseSwitchDefaultClause n' ps')"
  unfolding parseSwitchDefaultClause_def by (intro below_intros)+

lemma parseSwitchStatement_below [below_intros]: "below (parseSwitchStatement n ps pa) (parseSwitchStatement n' ps' pa')"
  unfolding parseSwitchStatement_def by (intro below_intros)+

lemma parseBlockStatement_below [below_intros]: "below (parseBlockStatement n ps) (parseBlockStatement n' ps')"
  unfolding parseBlockStatement_def by (intro below_intros)+

lemma parseTryStatement_below [below_intros]: "below (parseTryStatement n ps) (parseTryStatement n' ps')"
  unfolding parseTryStatement_def by (intro below_intros)+

lemma parseExpressionOrLabelStatement_below [below_intros]: "below (parseExpressionOrLabelStatement n ps pa) (parseExpressionOrLabelStatement n' ps' pa')"
  unfolding parseExpressionOrLabelStatement_def by (intro below_intros)+

lemma parseExpressionStatement_below [below_intros]: "below (parseExpressionStatement n pa) (parseExpressionStatement n' pa')"
  unfolding parseExpressionStatement_def by (intro below_intros)+

lemma parseElseBranch_below [below_intros]: "below (parseElseBranch n ps pa st) (parseElseBranch n' ps' pa' st)"
  unfolding parseElseBranch_def by (intro below_intros)+

lemma parseIfStatement_below [below_intros]: "below (parseIfStatement n ps pa) (parseIfStatement n' ps' pa')"
  unfolding parseIfStatement_def by (intro below_intros)+

lemma parseStatement_body_below [below_intros]: "below (parseStatement_body n ps pa) (parseStatement_body n' ps' pa')"
  unfolding parseStatement_body_def
  by (intro below_bind below_refl) (simp split: JSTokenType.split add: below_intros)

end

subsection \<open>The recursion\<close>

lemma parse_below:
  "n \<le> n' \<Longrightarrow> below (parseStatement n) (parseStatement n')"
  "n \<le> n' \<Longrightarrow> below (parseAssignmentExpression n) (parseAssignmentExpression n')"
proof (induction n arbitrary: n')
  case 0
  {
    case 1
    show ?case by (simp add: below_def)
  next
    case 2
    show ?case by (simp add: below_def)
  }
next
  case (Suc n)
  have unfold: "parseStatement (Suc k) = parseStatement_body k (parseStatement k) (parseAssignmentExpression k)"
    "parseAssignmentExpression (Suc k) =
       parseAssignmentExpression_body k (parseStatement k) (parseAssignmentExpression k)" for k
    by (rule ext, simp)+
  {
    case 1
    then obtain k where k: "n' = Suc k" "n \<le> k" by (cases n') auto
    then have "more_fuel n k (parseStatement n) (parseStatement k)
        (parseAssignmentExpression n) (parseAssignmentExpression k)"
      by (intro more_fuel.intro Suc.IH)
    then show ?case unfolding k unfold by (rule more_fuel.parseStatement_body_below)
  next
    case 2
    then obtain k where k: "n' = Suc k" "n \<le> k" by (cases n') auto
    then have "more_fuel n k (parseStatement n) (parseStatement k)
        (parseAssignmentExpression n) (parseAssignmentExpression k)"
      by (intro more_fuel.intro Suc.IH)
    then show ?case unfolding k unfold by (rule more_fuel.parseAssignmentExpression_body_below)
  }
qed

text \<open>The two functions of the recursion, at increasing fuel, are an instance of the interface.\<close>

interpretation deeper: more_fuel n "n + k" "parseStatement n" "parseStatement (n + k)"
  "parseAssignmentExpression n" "parseAssignmentExpression (n + k)" for n k
  by unfold_locales (simp_all add: parse_below)

lemma createSyntaxTree_more_fuel:
  assumes "createSyntaxTree n lx isValid token0 arrays numberToString source \<noteq> OutOfFuel" and "n \<le> n'"
  shows "createSyntaxTree n' lx isValid token0 arrays numberToString source =
    createSyntaxTree n lx isValid token0 arrays numberToString source"
proof -
  obtain k where k: "n' = n + k" using assms(2) le_Suc_ex by blast
  have "below (jsCreateSyntaxTree n) (jsCreateSyntaxTree n')"
    unfolding jsCreateSyntaxTree_def JSParser_createSyntaxTree_def k
    by (intro below_then below_refl deeper.parseSourceElements_below)
  then have "below (bindP (jsCreateSyntaxTree n) f) (bindP (jsCreateSyntaxTree n') f)" for f :: "_ \<Rightarrow> (Node option \<times> int) parser"
    by (intro below_bind below_refl)
  from belowD [OF this] show ?thesis using assms(1) by (simp add: createSyntaxTree_def)
qed

end
