(* ===== verification/CreateSyntaxTree.thy ===== *)
theory CreateSyntaxTree
  imports Scanning StatementProps FuelMono
begin

text \<open>
  The entry points: what \<open>Parser::createSyntaxTree\<close> does on every source. The fuel
  \<open>parserFuel\<close> is enough for each of them.
\<close>

definition parserFuel :: "uchars \<Rightarrow> nat" where
  "parserFuel source = 2 * length source + 5"

text \<open>
  A source the caller may pass: characters that are UTF-16 units. The lexer of the
  \<open>JSGlobalData\<close> is fresh or was cleared by an earlier parse, and the table of the ten digits is
  the scratch array of \<open>parseDecimal\<close>.
\<close>

definition fresh_lexer :: "lexer \<Rightarrow> bool" where
  "fresh_lexer lx \<longleftrightarrow> m_buffer8 lx = [] \<and> m_buffer16 lx = []"

text \<open>What the parser returns: null, or a well-formed list of source elements.\<close>

definition programOpt :: "Node option \<Rightarrow> bool" where
  "programOpt tree \<longleftrightarrow>
     (case tree of None \<Rightarrow> True | Some p \<Rightarrow> wfNode p \<and> m_ntype p = SourceElementsType)"

lemma wp_jsCreateSyntaxTree:
  assumes "list_all uchar_ok source" and "fresh_lexer lx" and "length arrays = 10"
    and "parserFuel source \<le> n"
  shows "wp (jsCreateSyntaxTree n)
    (\<lambda>tree t. pinv t \<and> programOpt tree \<and> (tree = None \<longleftrightarrow> m_error t)) (\<lambda>_. False)
    (JSParser_init (setCode source (lx\<lparr>assertsOK := True\<rparr>)) isValid token0 arrays numberToString)"
    (is "wp _ ?Q _ ?s")
proof -
  have lx: "linv (m_lexer ?s)" "lclean (m_lexer ?s)" "lrem (m_lexer ?s) \<le> Suc (length source)"
    using setCode_ok [of source "lx\<lparr>assertsOK := True\<rparr>"] lrem_setCode assms(1,2)
    by (simp_all add: JSParser_init_def fresh_lexer_def)
  have s: "pinv ?s" using lx assms(3) by (simp add: pinv_def JSParser_init_def ctx_ok_def Builder_def)
  have body: "wp (parseSourceElements n (parseStatement n)) ?Q (\<lambda>_. False) t"
    if "pinv t" "prem t \<le> Suc (length source)" for t
    using that assms(4)
    by (intro wp_parseSourceElements [OF parse_ok(2), of "length source + 2" n t 0 0 0 0 t])
       (auto simp: parserFuel_def programOpt_def run_refl run_pinv)
  show ?thesis
    unfolding jsCreateSyntaxTree_def JSParser_ctor_def JSParser_createSyntaxTree_def wp_then nextP_def
  proof (rule wp_next_pinv [OF s])
    fix t
    assume t: "pinv t" "prem t \<le> lrem (m_lexer ?s)"
    let ?t = "t\<lparr>m_lexer := setLastLineNumber (tokenLine t) (m_lexer t)\<rparr>"
    have "pinv (?t\<lparr>p_context := Builder\<rparr>)" "prem (?t\<lparr>p_context := Builder\<rparr>) \<le> Suc (length source)"
      using t lx(3) by (auto simp: pinv_def setLastLineNumber_def ctx_ok_def Builder_def prem_def)
    from body [OF this] show "wp (modP (\<lambda>s. s\<lparr>m_lexer := setLastLineNumber (tokenLine s) (m_lexer s)\<rparr>))
      (\<lambda>_. wp (modP (p_context_update (\<lambda>_. Builder)))
        (\<lambda>_. wp (parseSourceElements n (parseStatement n)) ?Q (\<lambda>_. False)) (\<lambda>_. False)) (\<lambda>_. False) t"
      by (simp add: wp_mod)
  qed
qed

lemma createSyntaxTree_outcome:
  assumes "list_all uchar_ok source" and "fresh_lexer lx" and "length arrays = 10"
    and "parserFuel source \<le> n"
  shows "case createSyntaxTree n lx isValid token0 arrays numberToString source of
      Ret (tree, errLine) t \<Rightarrow> programOpt tree \<and> (tree = None \<longleftrightarrow> m_error t) \<and> fresh_lexer (m_lexer t)
    | Crash k \<Rightarrow> k = LexerAssertion \<or> k = NullConstDecl \<or> k = AccessorProperty
    | _ \<Rightarrow> False"
proof -
  have "wp (jsCreateSyntaxTree n)
    (\<lambda>tree t. pinv t \<and> programOpt tree \<and> (tree = None \<longleftrightarrow> m_error t)) (\<lambda>_. False)
    (JSParser_init (setCode source (lx\<lparr>assertsOK := True\<rparr>)) isValid token0 arrays numberToString)"
    by (rule wp_jsCreateSyntaxTree [OF assms])
  then show ?thesis
    by (auto simp: createSyntaxTree_def wp_def bindP_def getP_def thenP_def modP_def retP_def
        known_crash_def fresh_lexer_def clear_lexer_def split: outcome.splits)
qed

text \<open>
  C2. \<open>Parser::createSyntaxTree\<close> has one outcome on every source, which any fuel from a linear
  bound in the length on gives. The tree is null exactly when the error flag is set, and otherwise
  a well-formed list of source elements; the scanner is ready for the next source. The process can
  end only in the three ways named.
\<close>

theorem createSyntaxTree_total:
  assumes "list_all uchar_ok source" and "fresh_lexer lx" and "length arrays = 10"
  shows "\<exists>r. (\<forall>n \<ge> parserFuel source.
        createSyntaxTree n lx isValid token0 arrays numberToString source = r) \<and>
      (case r of
         Ret (tree, errLine) t \<Rightarrow> programOpt tree \<and> (tree = None \<longleftrightarrow> m_error t) \<and> fresh_lexer (m_lexer t)
       | Crash k \<Rightarrow> k = LexerAssertion \<or> k = NullConstDecl \<or> k = AccessorProperty
       | _ \<Rightarrow> False)"
proof -
  let ?r = "createSyntaxTree (parserFuel source) lx isValid token0 arrays numberToString source"
  note outcome = createSyntaxTree_outcome [OF assms le_refl, of isValid token0 numberToString]
  then have "?r \<noteq> OutOfFuel" by (auto split: outcome.splits)
  then have "\<forall>n \<ge> parserFuel source.
      createSyntaxTree n lx isValid token0 arrays numberToString source = ?r"
    by (intro allI impI createSyntaxTree_more_fuel)
  then show ?thesis using outcome by blast
qed

theorem createSyntaxTree_total_witness:
  "\<exists>r. (\<forall>n \<ge> parserFuel [59].
        createSyntaxTree n blank_lexer False blank_token (replicate 10 0) (\<lambda>_. []) [59] = r) \<and>
      (case r of
         Ret (tree, errLine) t \<Rightarrow> programOpt tree \<and> (tree = None \<longleftrightarrow> m_error t) \<and> fresh_lexer (m_lexer t)
       | Crash k \<Rightarrow> k = LexerAssertion \<or> k = NullConstDecl \<or> k = AccessorProperty
       | _ \<Rightarrow> False)"
  by (rule createSyntaxTree_total) (simp_all add: uchar_ok_def fresh_lexer_def blank_lexer_def)

end
