(* ===== verification/Source.thy ===== *)
theory Source
  imports Prelude
begin

text \<open>
  Strings and source texts: \<open>runtime/UString.h\<close>, \<open>runtime/Identifier.h\<close>, \<open>parser/SourceProvider.h\<close>
  and \<open>parser/SourceCode.h\<close>. A \<open>UString\<close> owns its characters, so copies never share storage and
  the value of the object is its length and its characters; \<open>us_data\<close> is \<open>None\<close> for a null
  pointer. The \<open>char\<close> of the platform is signed: a byte is an \<open>8 word\<close>, and its conversion to
  \<open>UChar\<close> extends the sign.
\<close>

record ustring =
  us_length :: nat
  us_data :: "uchars option"

definition UChar_of_char :: "8 word \<Rightarrow> uchar" where
  "UChar_of_char c = to_uchar (sint c)"

subsection \<open>Construction\<close>

definition UString_null :: ustring where
  "UString_null = \<lparr>us_length = 0, us_data = None\<rparr>"

definition UString_copy :: "ustring \<Rightarrow> ustring" where
  "UString_copy other =
    \<lparr>us_length = us_length other,
     us_data = (if us_length other \<noteq> 0 then map_option (take (us_length other)) (us_data other) else None)\<rparr>"

text \<open>\<open>operator=\<close> between different objects; an object assigned to itself stays as it is.\<close>

definition UString_assign :: "ustring \<Rightarrow> ustring \<Rightarrow> ustring" where
  "UString_assign this other = UString_copy other"

definition UString_utf16 :: "uchars option \<Rightarrow> nat \<Rightarrow> ustring" where
  "UString_utf16 characters len =
    (case characters of
       None \<Rightarrow> UString_null
     | Some cs \<Rightarrow>
         if len \<noteq> 0 then \<lparr>us_length = len, us_data = Some (take len cs)\<rparr> else UString_null)"

definition UString_latin1 :: "8 word list option \<Rightarrow> nat \<Rightarrow> ustring" where
  "UString_latin1 characters len =
    (case characters of
       None \<Rightarrow> UString_null
     | Some cs \<Rightarrow>
         if len \<noteq> 0 then \<lparr>us_length = len, us_data = Some (map UChar_of_char (take len cs))\<rparr>
         else UString_null)"

text \<open>The characters of a null-terminated source, without the terminator.\<close>

definition UString_cstring :: "8 word list option \<Rightarrow> ustring" where
  "UString_cstring characters =
    (case characters of
       None \<Rightarrow> UString_null
     | Some cs \<Rightarrow> \<lparr>us_length = length cs, us_data = Some (map UChar_of_char cs)\<rparr>)"

subsection \<open>Access and comparison\<close>

definition UString_isEmpty :: "ustring \<Rightarrow> bool" where
  "UString_isEmpty s \<longleftrightarrow> us_length s = 0 \<or> us_data s = None"

definition UString_index :: "ustring \<Rightarrow> nat \<Rightarrow> uchar" where
  "UString_index s index =
    (case us_data s of
       None \<Rightarrow> 0
     | Some d \<Rightarrow> if index \<ge> us_length s then 0 else d ! index)"

text \<open>
  \<open>operator==\<close>. Two different objects have the same character pointer only when both are null. The result is
  \<open>None\<close> when one pointer is null and the other is not, which is then handed to \<open>memcmp\<close>: undefined, also for a
  length of 0.
\<close>

definition UString_eq :: "ustring \<Rightarrow> ustring \<Rightarrow> bool option" where
  "UString_eq s1 s2 =
    (if us_length s1 \<noteq> us_length s2 then Some False
     else
       case (us_data s1, us_data s2) of
         (None, None) \<Rightarrow> Some True
       | (Some d1, Some d2) \<Rightarrow> Some (take (us_length s1) d1 = take (us_length s1) d2)
       | _ \<Rightarrow> None)"

definition Identifier_equal :: "ustring \<Rightarrow> ustring \<Rightarrow> bool option" where
  "Identifier_equal a b = UString_eq a b"

subsection \<open>Source texts\<close>

record source_provider =
  sp_url :: ustring
  sp_validated :: bool
  sp_source :: ustring

definition UStringSourceProvider :: "ustring \<Rightarrow> ustring \<Rightarrow> source_provider" where
  "UStringSourceProvider source url =
    \<lparr>sp_url = UString_copy url, sp_validated = False, sp_source = UString_copy source\<rparr>"

definition provider_isValid :: "source_provider \<Rightarrow> bool" where
  "provider_isValid p = sp_validated p"

record source_code =
  sc_provider :: source_provider
  sc_startChar :: nat
  sc_endChar :: nat
  sc_firstLine :: int

definition SourceCode_ctor :: "source_provider \<Rightarrow> source_code" where
  "SourceCode_ctor provider =
    \<lparr>sc_provider = provider, sc_startChar = 0, sc_endChar = us_length (sp_source provider),
     sc_firstLine = 1\<rparr>"

definition makeSource :: "ustring \<Rightarrow> source_code" where
  "makeSource source = SourceCode_ctor (UStringSourceProvider source UString_null)"

definition source_length :: "source_code \<Rightarrow> nat" where
  "source_length c = sc_endChar c - sc_startChar c"

text \<open>The characters from \<open>data()\<close> on, as many as \<open>length()\<close> says.\<close>

definition source_text :: "source_code \<Rightarrow> uchars" where
  "source_text c =
    (case us_data (sp_source (sc_provider c)) of
       None \<Rightarrow> []
     | Some d \<Rightarrow> take (source_length c) (drop (sc_startChar c) d))"

subsection \<open>Strings as character sequences\<close>

definition ustring_ok :: "ustring \<Rightarrow> bool" where
  "ustring_ok s \<longleftrightarrow> us_length s = (case us_data s of None \<Rightarrow> 0 | Some d \<Rightarrow> length d)"

definition ustring_chars :: "ustring \<Rightarrow> uchars" where
  "ustring_chars s = (case us_data s of None \<Rightarrow> [] | Some d \<Rightarrow> d)"

lemma ustring_ok_length: "ustring_ok s \<Longrightarrow> us_length s = length (ustring_chars s)"
  by (auto simp: ustring_ok_def ustring_chars_def split: option.splits)

lemma ustring_ok_ctors [simp]:
  "ustring_ok UString_null" "ustring_ok s \<Longrightarrow> ustring_ok (UString_copy s)"
  "len \<le> length cs \<Longrightarrow> ustring_ok (UString_utf16 (Some cs) len)"
  "len \<le> length bs \<Longrightarrow> ustring_ok (UString_latin1 (Some bs) len)"
  "ustring_ok (UString_cstring b)"
  by (auto simp: ustring_ok_def UString_null_def UString_copy_def UString_utf16_def UString_latin1_def
      UString_cstring_def split: option.splits)

lemma ustring_chars_ctors [simp]:
  "ustring_chars UString_null = []"
  "ustring_ok s \<Longrightarrow> ustring_chars (UString_copy s) = ustring_chars s"
  "ustring_chars (UString_utf16 (Some cs) len) = take len cs"
  "ustring_chars (UString_latin1 (Some bs) len) = map UChar_of_char (take len bs)"
  by (auto simp: ustring_ok_def ustring_chars_def UString_null_def UString_copy_def UString_utf16_def
      UString_latin1_def split: option.splits)

lemma UString_isEmpty_iff: "ustring_ok s \<Longrightarrow> UString_isEmpty s \<longleftrightarrow> ustring_chars s = []"
  by (auto simp: ustring_ok_def ustring_chars_def UString_isEmpty_def split: option.splits)

text \<open>
  C30. Comparison of strings is equality of their characters, for all strings the constructors
  build, with one exception: of a null string and an empty one that is not null, as the constructor from
  a C string builds it, the comparison hands a null pointer to \<open>memcmp\<close>. The comment in front of that call
  rules the case out.
\<close>

theorem UString_eq_iff:
  assumes "ustring_ok s1" and "ustring_ok s2"
  shows "Identifier_equal s1 s2 =
    (if ustring_chars s1 = [] \<and> ustring_chars s2 = [] \<and> (us_data s1 = None) \<noteq> (us_data s2 = None) then None
     else Some (ustring_chars s1 = ustring_chars s2))"
  using assms
  by (auto simp: Identifier_equal_def UString_eq_def ustring_ok_def ustring_chars_def split: option.splits)

text \<open>Two equal identifiers, and a null string with the empty string of a constructor.\<close>

theorem UString_eq_iff_witness:
  "Identifier_equal (UString_cstring (Some [97])) (UString_utf16 (Some [97, 98]) 1) = Some True \<and>
   Identifier_equal UString_null (UString_cstring (Some [])) = None"
proof -
  have ok: "ustring_ok (UString_cstring (Some [97]))" "ustring_ok (UString_utf16 (Some [97, 98]) 1)"
    "ustring_ok UString_null" "ustring_ok (UString_cstring (Some []))" by simp_all
  show ?thesis
    unfolding UString_eq_iff [OF ok(1,2)] UString_eq_iff [OF ok(3,4)]
    by (simp add: ustring_chars_def UString_null_def UString_cstring_def UString_utf16_def UChar_of_char_def to_uchar_def)
qed

text \<open>The scanner reads exactly the characters of the string the source was made of.\<close>

lemma source_text_makeSource: "ustring_ok s \<Longrightarrow> source_text (makeSource s) = ustring_chars s"
  by (auto simp: source_text_def makeSource_def SourceCode_ctor_def UStringSourceProvider_def
      UString_copy_def source_length_def ustring_ok_def ustring_chars_def split: option.splits)

end
