(* ===== verification/ReflectParse.thy ===== *)
theory ReflectParse
  imports CreateSyntaxTree Reflect Source
begin

text \<open>
  \<open>reflect_parse\<close> of \<open>modules/reflect/reflect.cpp\<close>: from the arguments of the JavaScript call to the
  value it returns or the exception it throws.
\<close>

text \<open>
  \<open>Aborted\<close> is the end of the process: a failed \<open>ASSERT\<close>, a \<open>CRASH()\<close> or an invalid access, with
  \<open>None\<close> for one in \<open>convertNode\<close>.
\<close>

datatype reflect_result =
    Returned jsval
  | Thrown string
  | Aborted "crash option"
  | NoFuel

text \<open>The loop that fills \<open>content\<close> from the bytes of \<open>String::Utf8Value\<close>.\<close>

definition reflect_content :: "8 word list \<Rightarrow> uchars" where
  "reflect_content code = map UChar_of_char code"

definition reflect_source :: "8 word list \<Rightarrow> source_code" where
  "reflect_source code = makeSource (UString_utf16 (Some (reflect_content code)) (length code))"

text \<open>
  An argument is the UTF-8 text of the JavaScript value (the conversion is V8's). \<open>raw\<close> is the
  memory the \<open>Lexer\<close> is built in, and \<open>n\<close>, \<open>token0\<close>, \<open>arrays\<close> and \<open>numberToString\<close> are as for
  \<open>createSyntaxTree\<close>.
\<close>

definition reflect_parse ::
  "nat \<Rightarrow> lexer \<Rightarrow> JSToken \<Rightarrow> int list \<Rightarrow> (dbl \<Rightarrow> uchars) \<Rightarrow> 8 word list list \<Rightarrow> reflect_result" where
  "reflect_parse n raw token0 arrays numberToString args =
    (if length args \<noteq> 1 then Thrown ''Exception: Reflect.parse() accepts 1 argument''
     else
       let source = reflect_source (args ! 0)
       in case createSyntaxTree n (Lexer_ctor raw) (provider_isValid (sc_provider source)) token0 arrays
                 numberToString (source_text source) of
            Ret (tree, errLine) _ \<Rightarrow>
              (case tree of
                 None \<Rightarrow> Thrown ''Exception: Reflect.parse error!''
               | Some node \<Rightarrow>
                   (case convertNode (Some node) 0 of
                      None \<Rightarrow> Aborted None
                    | Some v \<Rightarrow> Returned v))
          | Fail _ \<Rightarrow> Thrown ''Exception: Reflect.parse error!''
          | Crash k \<Rightarrow> Aborted (Some k)
          | OutOfFuel \<Rightarrow> NoFuel)"

lemma uchar_ok_UChar_of_char [simp]: "uchar_ok (UChar_of_char c)"
  by (simp add: UChar_of_char_def)

lemma source_text_reflect: "source_text (reflect_source code) = reflect_content code"
  by (simp add: reflect_source_def source_text_makeSource reflect_content_def)

lemma convertNode_program:
  assumes "wfNode p" and "m_ntype p = SourceElementsType"
  shows "\<exists>body. convertNode (Some p) 0 =
    Some (JObject [(''type'', JString (uchars_of ''Program'')), (''body'', JArray body)])"
proof -
  obtain v where v: "convertNode (Some p) 0 = Some v"
    using convertNode_total [of "Some p" 0] assms(1) by auto
  then show ?thesis
    using assms(2)
    by (auto simp: convertNode.simps jobject_def jtext_def convertChildren_def
        split: option.splits)
qed

definition parse_text :: "string \<Rightarrow> reflect_result" where
  "parse_text text =
    reflect_parse (2 * length text + 5) blank_lexer blank_token (replicate 10 0) (\<lambda>_. [])
      [map of_char text]"

text \<open>
  C1. \<open>Reflect.parse\<close> with one argument comes to an end on every text, of which the fuel is a linear
  function: it returns a \<open>Program\<close> object with a list of statements, or throws the exception of a
  parse error, or ends the process in one of three ways: an \<open>ASSERT\<close> of the scanner, the null
  pointer of a \<open>const\<close> declaration or the \<open>CRASH()\<close> of an accessor property. No other assertion
  fails, no child index and no stack access is out of bounds.
\<close>

theorem reflect_parse_total:
  assumes "length arrays = 10" and "2 * length code + 5 \<le> n"
  shows "case reflect_parse n raw token0 arrays numberToString [code] of
      Returned v \<Rightarrow> \<exists>body. v = JObject [(''type'', JString (uchars_of ''Program'')), (''body'', JArray body)]
    | Thrown msg \<Rightarrow> msg = ''Exception: Reflect.parse error!''
    | Aborted k \<Rightarrow> k \<in> {Some LexerAssertion, Some NullConstDecl, Some AccessorProperty}
    | NoFuel \<Rightarrow> False"
proof -
  have "list_all uchar_ok (reflect_content code)"
    by (simp add: reflect_content_def list_all_iff)
  moreover have "fresh_lexer (Lexer_ctor raw)" by (simp add: fresh_lexer_def Lexer_ctor_def)
  moreover have "parserFuel (reflect_content code) \<le> n"
    using assms(2) by (simp add: parserFuel_def reflect_content_def)
  ultimately show ?thesis
    using createSyntaxTree_outcome [of "reflect_content code" "Lexer_ctor raw" arrays n
        "provider_isValid (sc_provider (reflect_source code))" token0 numberToString] assms(1)
    by (auto simp: reflect_parse_def source_text_reflect programOpt_def
        dest!: convertNode_program split: outcome.splits option.splits)
qed

theorem reflect_parse_total_witness:
  "case reflect_parse 7 blank_lexer blank_token (replicate 10 0) (\<lambda>_. []) [[97]] of
      Returned v \<Rightarrow> \<exists>body. v = JObject [(''type'', JString (uchars_of ''Program'')), (''body'', JArray body)]
    | Thrown msg \<Rightarrow> msg = ''Exception: Reflect.parse error!''
    | Aborted k \<Rightarrow> k \<in> {Some LexerAssertion, Some NullConstDecl, Some AccessorProperty}
    | NoFuel \<Rightarrow> False"
  using reflect_parse_total [of "replicate 10 0" "[97]" 7 blank_lexer blank_token "\<lambda>_. []"]
  by simp

end
