(* ===== verification/ReflectProps.thy ===== *)
theory ReflectProps
  imports ReflectParse
begin

text \<open>
  What the objects returned by \<open>Reflect.parse\<close> tell about the program: the operators they name, and
  the parts of the source they lose.
\<close>

subsection \<open>Characters\<close>

lemma UChar_of_char_cases:
  "UChar_of_char b = (if uint b < 128 then uint b else uint b + 65280)"
proof -
  have r: "0 \<le> uint b" "uint b < 256" using uint_ge_0 uint_lt2p [of b] by simp_all
  have "sint b = (uint b + 128) mod 256 - 128"
    using int_word_sint [where 'a = 8, of "uint b"] by simp
  then have "sint b = (if uint b < 128 then uint b else uint b - 256)"
  proof (cases "uint b < 128")
    case False
    then have "(uint b + 128) mod 256 = uint b - 128"
      using r mod_add_self2 [of "uint b - 128" 256] by (simp add: mod_pos_pos_trivial add.commute)
    then show ?thesis using False \<open>sint b = _\<close> by simp
  qed (use r in simp)
  then show ?thesis
    using r mod_add_self2 [of "uint b - 256" 65536] by (auto simp: UChar_of_char_def to_uchar_def)
qed

text \<open>
  C37. Every byte of the text given to the parser becomes one UTF-16 unit of its own: a byte below 128 the
  unit of that value, a byte from 128 on, that is every byte of a UTF-8 sequence, the sign-extended one, \<open>0xFF00\<close>
  above. So the parser reads the text of the argument exactly when that is ASCII.
\<close>

theorem reflect_content_ascii:
  "source_text (reflect_source code) = map (\<lambda>b. if uint b < 128 then uint b else uint b + 0xFF00) code \<and>
   (source_text (reflect_source code) = map uint code \<longleftrightarrow> list_all (\<lambda>b. uint b < 128) code)"
proof (intro conjI)
  show "source_text (reflect_source code) = map (\<lambda>b. if uint b < 128 then uint b else uint b + 0xFF00) code"
    by (simp add: source_text_reflect reflect_content_def UChar_of_char_cases)
  show "source_text (reflect_source code) = map uint code \<longleftrightarrow> list_all (\<lambda>b. uint b < 128) code"
    by (auto simp: source_text_reflect reflect_content_def UChar_of_char_cases list_all_iff split: if_splits)
qed

subsection \<open>Operators\<close>

text \<open>The operators as JavaScript writes them.\<close>

definition operatorSpelling :: "OperatorType \<Rightarrow> string option" where
  "operatorSpelling op =
    (case op of
       TypeofOperator \<Rightarrow> Some ''typeof'' | DeleteOperator \<Rightarrow> Some ''delete''
     | LogicalNotOperator \<Rightarrow> Some ''!'' | BitwiseNotOperator \<Rightarrow> Some ''~''
     | LogicalOrOperator \<Rightarrow> Some ''||'' | LogicalAndOperator \<Rightarrow> Some ''&&''
     | BitwiseOrOperator \<Rightarrow> Some ''|'' | BitwiseXorOperator \<Rightarrow> Some ''^''
     | BitwiseAndOperator \<Rightarrow> Some ''&''
     | EqualOperator \<Rightarrow> Some ''=='' | NotEqualOperator \<Rightarrow> Some ''!=''
     | StringEqualOperator \<Rightarrow> Some ''==='' | StringNotEqualOperator \<Rightarrow> Some ''!==''
     | LessThanOperator \<Rightarrow> Some ''<'' | GreaterThanOperator \<Rightarrow> Some ''>''
     | LessThanOrEqualOperator \<Rightarrow> Some ''<='' | GreaterThanOrEqualOperator \<Rightarrow> Some ''>=''
     | InstanceofOperator \<Rightarrow> Some ''instanceof'' | IntokenOperator \<Rightarrow> Some ''in''
     | LeftShiftOperator \<Rightarrow> Some ''<<'' | RightShiftOperator \<Rightarrow> Some ''>>''
     | ZeroFillRightShiftOperator \<Rightarrow> Some ''>>>''
     | AddOperator \<Rightarrow> Some ''+'' | SubtractOperator \<Rightarrow> Some ''-''
     | MultiplyOperator \<Rightarrow> Some ''*'' | DivideOperator \<Rightarrow> Some ''/'' | ModulusOperator \<Rightarrow> Some ''%''
     | PlusPlusOperator \<Rightarrow> Some ''++'' | MinusMinusOperator \<Rightarrow> Some ''--''
     | AssignEqual \<Rightarrow> Some ''='' | AssignAdd \<Rightarrow> Some ''+='' | AssignSubtract \<Rightarrow> Some ''-=''
     | AssignMultiply \<Rightarrow> Some ''*='' | AssignDivide \<Rightarrow> Some ''/='' | AssignModulus \<Rightarrow> Some ''%=''
     | AssignLeftShift \<Rightarrow> Some ''<<='' | AssignRightShift \<Rightarrow> Some ''>>=''
     | AssignZeroFillRightShift \<Rightarrow> Some ''>>>=''
     | AssignAnd \<Rightarrow> Some ''&='' | AssignXor \<Rightarrow> Some ''^='' | AssignOr \<Rightarrow> Some ''|=''
     | NoOperator \<Rightarrow> None)"

text \<open>
  C38. The text of every operator is its JavaScript spelling but for six: the two non-strict
  comparisons are exchanged, so are the two signed shift assignments, \<open>~\<close> is written \<open>!\<close> and
  \<open>instanceof\<close> has a space. In particular the text does not determine the operator.
\<close>

theorem operatorAsText_spelling:
  "operatorAsText op =
    (case op of
       LessThanOrEqualOperator \<Rightarrow> operatorSpelling GreaterThanOrEqualOperator
     | GreaterThanOrEqualOperator \<Rightarrow> operatorSpelling LessThanOrEqualOperator
     | AssignLeftShift \<Rightarrow> operatorSpelling AssignRightShift
     | AssignRightShift \<Rightarrow> operatorSpelling AssignLeftShift
     | BitwiseNotOperator \<Rightarrow> operatorSpelling LogicalNotOperator
     | InstanceofOperator \<Rightarrow> Some ''instance of''
     | _ \<Rightarrow> operatorSpelling op)"
  by (cases op) (simp_all add: operatorAsText_def operatorSpelling_def)

subsection \<open>What is lost\<close>

lemma childAt_append [simp]:
  "childAt (append_child n c) i =
     (if i < length (m_children n) then childAt n i
      else if i = length (m_children n) then Some c else None)"
  by (auto simp: childAt_def nth_append)

lemma childAt_ctors [simp]:
  "childAt (Node_child t c) 0 = Some c" "childAt (Node_type t) i = None" "childAt (Node_id t ident) i = None"
  by (simp_all add: childAt_def Node_child_def Node_type_def Node_id_def)

text \<open>
  C39. The clauses of a \<open>switch\<close> after its \<open>default\<close> clause are in no way part of the result.
\<close>

theorem switch_second_clauses_lost:
  "convertNode (Some (createSwitchStatement e first (Some d) second)) indent =
   convertNode (Some (createSwitchStatement e first (Some d) second')) indent"
proof -
  have "convertChild convertNode (createSwitchStatement e first (Some d) s) 0 j = convertNode (Some e) j"
    "m_ntype (createSwitchStatement e first (Some d) s) = SwitchStatementType"
    "childAt (createSwitchStatement e first (Some d) s) 1 = Some first"
    "childAt (createSwitchStatement e first (Some d) s) 2 = Some (Some d)" for s j
    by (simp_all add: createSwitchStatement_def convertChild_def nth_append)
  then show ?thesis
    by (subst (1 2) convertNode.simps) (cases first; simp)
qed

text \<open>
  Of a \<open>for\<close>-\<open>in\<close> loop over an expression the result does not contain the expression, of a
  \<open>void\<close> expression it does not contain the operand, and a \<open>new\<close> without arguments gives an
  expression statement.
\<close>

theorem operands_lost:
  "convertNode (Some (createForInLoop lhs iter body)) indent =
     convertNode (Some (createForInLoop lhs' iter body)) indent \<and>
   convertNode (Some (createVoid e)) indent = convertNode (Some (createVoid e')) indent \<and>
   convertNode (Some (createNewExpr e)) indent = convertNode (Some (createExprStatement e)) indent"
proof (intro conjI)
  show "convertNode (Some (createForInLoop lhs iter body)) indent =
      convertNode (Some (createForInLoop lhs' iter body)) indent"
    by (subst (1 2) convertNode.simps)
       (simp add: createForInLoop_def convertChild_def nth_append)
  show "convertNode (Some (createVoid e)) indent = convertNode (Some (createVoid e')) indent"
    by (simp add: createVoid_def)
  show "convertNode (Some (createNewExpr e)) indent = convertNode (Some (createExprStatement e)) indent"
    by (subst (1 2) convertNode.simps)
       (simp add: createNewExpr_def createExprStatement_def convertChild_def)
qed

end
