(* ===== verification/ParserErrors.thy ===== *)
theory ParserErrors
  imports ReflectParse
begin

text \<open>
  Constructs that the parser never accepts, and inputs it accepts by accident. The theorems hold for
  every state the functions can be called in: the calculus is the one of partial correctness,
  where only an outcome that returns has to satisfy a condition.
\<close>

subsection \<open>Partial correctness\<close>

definition wlp :: "'a parser \<Rightarrow> ('a \<Rightarrow> pstate \<Rightarrow> bool) \<Rightarrow> (pstate \<Rightarrow> bool) \<Rightarrow> pstate \<Rightarrow> bool" where
  "wlp m Q E s = (case m s of Ret a t \<Rightarrow> Q a t | Fail t \<Rightarrow> E t | _ \<Rightarrow> True)"

named_theorems wlp_simps \<open>equations of the weakest liberal precondition\<close>

lemma wlp_any: "(\<And>a t. Q a t) \<Longrightarrow> (\<And>t. E t) \<Longrightarrow> wlp m Q E s"
  by (simp add: wlp_def split: outcome.splits)

lemma wlp_mono:
  "wlp m Q E s \<Longrightarrow> (\<And>a t. Q a t \<Longrightarrow> Q' a t) \<Longrightarrow> (\<And>t. E t \<Longrightarrow> E' t) \<Longrightarrow> wlp m Q' E' s"
  by (auto simp: wlp_def split: outcome.splits)

lemma wlp_ret [wlp_simps]: "wlp (retP a) Q E s = Q a s"
  and wlp_get [wlp_simps]: "wlp (getP f) Q' E s = Q' (f s) s"
  and wlp_mod [wlp_simps]: "wlp (modP g) Q'' E s = Q'' () (g s)"
  and wlp_fail [wlp_simps]: "wlp failP Q E s = E (s\<lparr>m_error := True\<rparr>)"
  and wlp_crash [wlp_simps]: "wlp (crashP k) Q E s"
  and wlp_outOfFuel [wlp_simps]: "wlp outOfFuelP Q E s"
  by (simp_all add: wlp_def retP_def getP_def modP_def failP_def crashP_def outOfFuelP_def)

lemma wlp_bind [wlp_simps]: "wlp (bindP m f) Q E s = wlp m (\<lambda>a. wlp (f a) Q E) E s"
  by (simp add: wlp_def bindP_def split: outcome.splits)

lemma wlp_then [wlp_simps]: "wlp (thenP m m') Q E s = wlp m (\<lambda>_. wlp m' Q E) E s"
  by (simp add: thenP_def wlp_bind)

lemma wlp_function [wlp_simps]: "wlp (functionP z m) Q E s = wlp m Q (Q z) s"
  by (simp add: wlp_def functionP_def split: outcome.splits)

lemma wlp_failIfFalse [wlp_simps]:
  "wlp (failIfFalse b) Q E s = (if b then Q () s else E (s\<lparr>m_error := True\<rparr>))"
  by (simp add: failIfFalse_def wlp_simps)

lemma wlp_matchOrFail [wlp_simps]:
  "wlp (matchOrFail x) Q E s = (if tokenType s = x then Q () s else E (s\<lparr>m_error := True\<rparr>))"
  by (simp add: matchOrFail_def matchP_def wlp_simps)

lemma wlp_match [wlp_simps]: "wlp (matchP x) Q E s = Q (tokenType s = x) s"
  by (simp add: matchP_def wlp_simps)

lemma wlp_cases [wlp_simps]:
  "wlp (if b then m else m') Q E s = (if b then wlp m Q E s else wlp m' Q E s)"
  "wlp (case x of None \<Rightarrow> m | Some y \<Rightarrow> f y) Q E s =
     (case x of None \<Rightarrow> wlp m Q E s | Some y \<Rightarrow> wlp (f y) Q E s)"
  by (simp_all split: option.splits)

text \<open>\<open>next()\<close> and the functions of the parser return; they do not leave the function they are called in.\<close>

lemma wlp_next: "(\<And>t. Q () t) \<Longrightarrow> wlp nextP Q E s"
  by (simp add: wlp_def nextP_def nextP_type_def Let_def split: outcome.splits prod.splits)

lemmas wlp_calls =
  wlp_next wlp_any [of _ _ "nextP_type x" for x] wlp_any [of _ _ "needP m" for m]
  wlp_any [of _ _ "consumeOrFail x" for x]
  wlp_any [of _ _ "parseFunctionInfo n ps b name" for n ps b name]

lemma wlp_parseAssignmentExpression: "(\<And>r t. Q r t) \<Longrightarrow> wlp (parseAssignmentExpression n) Q E s"
  by (cases n) (simp_all add: wlp_def parseAssignmentExpression_body_def functionP_def split: outcome.splits)

subsection \<open>const\<close>

lemma wlp_parseConstDeclaration:
  "wlp (parseConstDeclaration n (parseAssignmentExpression k)) (\<lambda>r t. r = None \<and> m_error t) E s"
  unfolding parseConstDeclaration_def parseConstDeclarationList_def
  by (cases n) (auto simp: wlp_simps assertP_def failIfError_def appendConstDecl_def
      intro!: wlp_next wlp_parseAssignmentExpression)

text \<open>
  C33. No \<open>const\<close> statement is ever parsed. Whatever follows the keyword, \<open>parseStatement\<close> returns
  null with the error flag set, if it returns: \<open>appendConstDecl\<close> writes through the null tail of the
  empty list at the first declarator.
\<close>

theorem const_never_parsed:
  assumes "tokenType s = CONSTTOKEN" and "parseStatement n s = Ret tree t"
  shows "tree = None \<and> m_error t"
proof (cases n)
  case (Suc k)
  then show ?thesis
    using assms wlp_parseConstDeclaration [of k k "\<lambda>_. True" s]
    by (simp add: parseStatement_body_def bindP_def getP_def wlp_def)
qed (use assms in simp)

text \<open>The state of the parser before the first statement of a text.\<close>

definition parser_start :: "string \<Rightarrow> unit outcome" where
  "parser_start text =
    JSParser_ctor (JSParser_init (setCode (map of_char text) blank_lexer) False blank_token
      (replicate 10 0) (\<lambda>_. []))"

definition parser_at :: "string \<Rightarrow> pstate" where
  "parser_at text = (case parser_start text of Ret _ s \<Rightarrow> s)"

theorem const_never_parsed_witness:
  "\<exists>tree t. parseStatement 3 (parser_at ''const 1'') = Ret tree t \<and> tree = None \<and> m_error t"
proof -
  have at: "tokenType (parser_at ''const 1'') = CONSTTOKEN" by code_simp
  have "case parseStatement 3 (parser_at ''const 1'') of Ret _ _ \<Rightarrow> True | _ \<Rightarrow> False" by code_simp
  then obtain tree t where "parseStatement 3 (parser_at ''const 1'') = Ret tree t"
    by (auto split: outcome.splits)
  with const_never_parsed [OF at this] show ?thesis by blast
qed

subsection \<open>Object literals\<close>

lemma wlp_parseNamedProperty:
  "wlp (parseNamedProperty n ps pa wasIdent) (\<lambda>r t. r \<noteq> None \<longrightarrow> m_propertyType (the r) = Constant)
     (\<lambda>_. True) s"
  unfolding parseNamedProperty_def
  by (auto simp: wlp_simps createProperty_def intro!: wlp_calls)

lemma parseProperty_constant: "parseProperty n ps pa s = Ret (Some p) t \<Longrightarrow> m_propertyType p = Constant"
proof -
  assume "parseProperty n ps pa s = Ret (Some p) t"
  moreover have "wlp (parseProperty n ps pa) (\<lambda>r t. r \<noteq> None \<longrightarrow> m_propertyType (the r) = Constant) (\<lambda>_. True) s"
    unfolding parseProperty_def
    by (auto simp: wlp_simps createProperty_def
        intro!: wlp_calls wlp_mono [OF wlp_parseNamedProperty])
  ultimately show ?thesis by (simp add: wlp_def)
qed

text \<open>
  C34. A getter or setter in an object literal ends the process: where \<open>get\<close> or \<open>set\<close> is followed by a name,
  parameters and a body that the parser accepts, \<open>parseProperty\<close> reaches \<open>CRASH()\<close>, whatever comes behind. And no
  property that \<open>parseProperty\<close> returns, from any state, is an accessor.
\<close>

theorem complete_accessor_crashes:
  assumes "tokenType s = IDENT" and "tokenIdent s = propertyNames_get \<or> tokenIdent s = propertyNames_set"
    and "nextP_type IgnoreReservedWords s = Ret () s1" and "tokenType s1 = IDENT"
    and "parseFunctionInfo n ps True None s1 = Ret (Some info) s2"
  shows "parseProperty n ps pa s = Crash AccessorProperty \<and>
    (\<forall>s p t. parseProperty n ps pa s = Ret (Some p) t \<longrightarrow> m_propertyType p = Constant)"
proof (intro conjI allI impI)
  show "parseProperty n ps pa s = Crash AccessorProperty"
    using assms by (cases info) (auto simp: parseProperty_def parseNamedProperty_def functionP_def bindP_def thenP_def getP_def
        matchP_def matchOrFail_def failIfFalse_def retP_def crashP_def)
qed (rule parseProperty_constant)

theorem complete_accessor_crashes_witness:
  "\<exists>s. tokenIdent s = propertyNames_get \<and>
    parseProperty 5 (parseStatement 3) (parseAssignmentExpression 3) s = Crash AccessorProperty"
proof -
  let ?s = "parser_at ''get x(){}''"
  have 1: "tokenType ?s = IDENT" "tokenIdent ?s = propertyNames_get" by code_simp+
  have "case nextP_type IgnoreReservedWords ?s of
      Ret _ s1 \<Rightarrow> tokenType s1 = IDENT \<and>
        (case parseFunctionInfo 5 (parseStatement 3) True None s1 of Ret (Some _) _ \<Rightarrow> True | _ \<Rightarrow> False)
    | _ \<Rightarrow> False" by code_simp
  then obtain s1 info s2 where "nextP_type IgnoreReservedWords ?s = Ret () s1" "tokenType s1 = IDENT"
    "parseFunctionInfo 5 (parseStatement 3) True None s1 = Ret (Some info) s2"
    by (auto split: outcome.splits option.splits)
  from complete_accessor_crashes [OF 1(1) _ this] 1(2) show ?thesis by blast
qed

subsection \<open>The end of the program\<close>

lemma lex_closeBrace:
  assumes "m_current s = 125" and "m_code s < m_codeEnd s" and "lclean s" and "assertsOK s"
  shows "\<exists>d i s'. lex digits IdentifyReservedWords lvalp llocp s = (CLOSEBRACE, d, i, s') \<and>
    assertsOK s' \<and> \<not> m_lexError s'"
proof -
  have c: "characterType 125 = CharacterCloseBrace" "\<not> isWhiteSpace 125" by code_simp+
  have "skipWhiteSpace s' = s'" if "m_current s' = 125" for s'
    using that c(2) by (subst skipWhiteSpace.simps) simp
  then show ?thesis
    using assms c(1)
    by (auto simp: lex_def lclean_def lex_start.simps Let_def lexSwitch_def lexCloseBrace_def
        lexReturnToken_def assertOffset_def assertL_def shift_def)
qed

text \<open>
  C35. The parser does not look for the end of the input: a text that starts with \<open>}\<close> is the empty
  program, whatever follows.
\<close>

theorem closing_brace_ends_program:
  "reflect_parse (Suc n) raw token0 arrays numberToString [125 # rest] =
    Returned (JObject [(''type'', JString (uchars_of ''Program'')), (''body'', JArray [])])"
proof -
  let ?lx = "setCode (reflect_content (125 # rest)) (Lexer_ctor raw\<lparr>assertsOK := True\<rparr>)"
  have c: "UChar_of_char 125 = 125" by (simp add: UChar_of_char_def to_uchar_def)
  have "m_current (setLastLineNumber l ?lx) = 125" "m_code (setLastLineNumber l ?lx) < m_codeEnd (setLastLineNumber l ?lx)"
    "lclean (setLastLineNumber l ?lx)" "assertsOK (setLastLineNumber l ?lx)" for l
    by (simp_all add: setCode_def reflect_content_def c lclean_def Lexer_ctor_def setLastLineNumber_def)
  note lex = lex_closeBrace [OF this]
  have src: "source_text (reflect_source (125 # rest)) = reflect_content (125 # rest)"
    by (rule source_text_reflect)
  obtain d i s where lexed: "lex arrays IdentifyReservedWords (m_data token0)
      (m_info token0\<lparr>tline := 0\<rparr>) (setLastLineNumber 0 ?lx) = (CLOSEBRACE, d, i, s)"
    "assertsOK s" "\<not> m_lexError s"
    using lex by blast
  show ?thesis
    by (simp add: reflect_parse_def src createSyntaxTree_def jsCreateSyntaxTree_def JSParser_ctor_def
        JSParser_createSyntaxTree_def JSParser_init_def bindP_def thenP_def getP_def modP_def retP_def
        nextP_def nextP_type_def Let_def lexed parseSourceElements_def functionP_def failIfError_def
        failIfFalse_def tokenType_def parseStatement_body_def createSourceElements_def
        convertNode.simps jobject_def jtext_def convertChildren_def)
qed

subsection \<open>Loops over declared variables\<close>

lemma parseStandardForLoop_any_token:
  "parseStandardForLoop n ps pa decls (s\<lparr>m_token := (m_token s)\<lparr>m_type := x\<rparr>\<rparr>) = parseStandardForLoop n ps pa decls s"
proof -
  have "nextP (s\<lparr>m_token := (m_token s)\<lparr>m_type := x\<rparr>\<rparr>) = nextP s"
    by (cases s) (simp add: nextP_def nextP_type_def Let_def split: prod.split)
  then show ?thesis by (simp add: parseStandardForLoop_def thenP_def bindP_def)
qed

lemma nextP_after_lexical_error: "m_lexError (m_lexer s) \<Longrightarrow> nextP s = Crash LexerAssertion"
  by (auto simp: nextP_def nextP_type_def Let_def lex_def setLastLineNumber_def assertL_def split: prod.splits)

text \<open>
  C36. In a \<open>for\<close> loop with two or more declared variables the token behind them is never looked at: the loop is
  parsed exactly as if any other token \<open>x\<close>, a semicolon for one, stood in its place. When that token is a
  lexical error, the next call of the scanner fails an assertion and ends the process. This holds for any
  declarations, in every state and whatever the parsers for expressions and statements do.
\<close>

theorem for_var_takes_any_token:
  assumes "parseVarDeclarationList n pa (s\<lparr>m_allowsIn := False\<rparr>) = Ret (decls, declarations, target, initializer) t"
    and "1 < declarations" and "\<not> m_error t"
  shows "parseForVar n ps pa s =
      parseStandardForLoop n ps pa decls (t\<lparr>m_allowsIn := True, m_token := (m_token t)\<lparr>m_type := x\<rparr>\<rparr>) \<and>
    (m_lexError (m_lexer t) \<longrightarrow> parseForVar n ps pa s = Crash LexerAssertion)"
proof -
  have run: "parseForVar n ps pa s = parseStandardForLoop n ps pa decls (t\<lparr>m_allowsIn := True\<rparr>)"
    using assms by (simp add: parseForVar_def thenP_def bindP_def modP_def failIfError_def getP_def failIfFalse_def
        retP_def matchP_def)
  then show ?thesis
    using parseStandardForLoop_any_token [of n ps pa decls x "t\<lparr>m_allowsIn := True\<rparr>"]
      nextP_after_lexical_error [of "t\<lparr>m_allowsIn := True\<rparr>"]
    by (simp add: parseStandardForLoop_def thenP_def bindP_def)
qed

text \<open>A bracket behind the declarations, and a character that is no token.\<close>

theorem for_var_takes_any_token_witness:
  "(\<exists>decls t. tokenType t = CLOSEBRACKET \<and>
     parseForVar 5 (parseStatement 3) (parseAssignmentExpression 3) (parser_at ''var a,b];){}'') =
       parseStandardForLoop 5 (parseStatement 3) (parseAssignmentExpression 3) decls
         (t\<lparr>m_allowsIn := True, m_token := (m_token t)\<lparr>m_type := SEMICOLON\<rparr>\<rparr>)) \<and>
   parseForVar 5 (parseStatement 3) (parseAssignmentExpression 3) (parser_at ''var a,b #'') = Crash LexerAssertion"
proof -
  let ?list = "\<lambda>text. parseVarDeclarationList 5 (parseAssignmentExpression 3) ((parser_at text)\<lparr>m_allowsIn := False\<rparr>)"
  have "case ?list ''var a,b];){}'' of
      Ret (_, declarations, _, _) t \<Rightarrow> 1 < declarations \<and> \<not> m_error t \<and> tokenType t = CLOSEBRACKET | _ \<Rightarrow> False"
    "case ?list ''var a,b #'' of
      Ret (_, declarations, _, _) t \<Rightarrow> 1 < declarations \<and> \<not> m_error t \<and> m_lexError (m_lexer t) | _ \<Rightarrow> False"
    by code_simp+
  then obtain d1 n1 f1 i1 t1 d2 n2 f2 i2 t2 where
    1: "?list ''var a,b];){}'' = Ret (d1, n1, f1, i1) t1" "1 < n1" "\<not> m_error t1" "tokenType t1 = CLOSEBRACKET" and
    2: "?list ''var a,b #'' = Ret (d2, n2, f2, i2) t2" "1 < n2" "\<not> m_error t2" "m_lexError (m_lexer t2)"
    by (auto split: outcome.splits prod.splits)
  show ?thesis
    using for_var_takes_any_token [OF 1(1-3), of "parseStatement 3" SEMICOLON]
      for_var_takes_any_token [OF 2(1-3), of "parseStatement 3" SEMICOLON] 1(4) 2(4) by blast
qed

end
