(* ===== verification/BinaryExpression.thy ===== *)
theory BinaryExpression
  imports ParserErrors
begin

text \<open>
  The operator precedence parser \<open>parseBinaryExpression\<close> implements the grammar of binary
  expressions: of a sequence of operands and operators it builds the one tree in which an operator
  has operators of its own or higher precedence on its left and of higher precedence on its right.
  The two stacks of the builder are refined by a stack of trees and a stack of operators.
\<close>

subsection \<open>Trees of binary operators\<close>

type_synonym binaryOperator = "JSTokenType \<times> int"

datatype etree = Operand Node | Bin etree binaryOperator etree

primrec operands :: "etree \<Rightarrow> Node list" where
  "operands (Operand x) = [x]"
| "operands (Bin l oper r) = operands l @ operands r"

primrec operators :: "etree \<Rightarrow> binaryOperator list" where
  "operators (Operand x) = []"
| "operators (Bin l oper r) = operators l @ oper # operators r"

text \<open>Left associative, and higher precedence binds tighter.\<close>

primrec respects_precedence :: "etree \<Rightarrow> bool" where
  "respects_precedence (Operand x) \<longleftrightarrow> True"
| "respects_precedence (Bin l oper r) \<longleftrightarrow>
     respects_precedence l \<and> respects_precedence r \<and>
     list_all (\<lambda>q. snd oper \<le> snd q) (operators l) \<and> list_all (\<lambda>q. snd oper < snd q) (operators r)"

primrec etree_node :: "etree \<Rightarrow> Node" where
  "etree_node (Operand x) = x"
| "etree_node (Bin l oper r) =
     append_child (append_child
       (Node_op BinaryExpressionType (the (convertOperator_token (fst oper))))
       (Some (etree_node l))) (Some (etree_node r))"

text \<open>Such a tree is determined by its operands and operators.\<close>

lemma length_operands: "length (operands e) = Suc (length (operators e))"
  by (induction e) simp_all

lemma split_prefix:
  assumes "xs @ x # ys = us @ u # vs" and "length us \<le> length xs"
    and "list_all (\<lambda>q. snd x \<le> (snd q :: int)) xs" and "list_all (\<lambda>q. snd u < snd q) vs"
  shows "xs = us"
proof -
  obtain ws where ws: "xs = us @ ws" "ws @ x # ys = u # vs"
    using assms(1,2) by (auto simp: append_eq_append_conv2)
  show ?thesis
  proof (cases ws)
    case (Cons w ws')
    then have "w = u" "x \<in> set vs" using ws(2) by auto
    then show ?thesis using ws(1) Cons assms(3,4) by (fastforce simp: list_all_iff)
  qed (use ws in simp)
qed

lemma etree_unique:
  assumes "respects_precedence e" and "respects_precedence e'"
    and "operands e = operands e'" and "operators e = operators e'"
  shows "e = e'"
  using assms
proof (induction e arbitrary: e')
  case (Operand x)
  then show ?case by (cases e') auto
next
  case (Bin l x r)
  then obtain l' x' r' where e': "e' = Bin l' x' r'" by (cases e') auto
  have ops: "operators l @ x # operators r = operators l' @ x' # operators r'"
    using Bin.prems(4) e' by simp
  have "operators l = operators l'"
  proof (cases "length (operators l') \<le> length (operators l)")
    case True
    then show ?thesis using ops Bin.prems e' by (intro split_prefix [OF ops]) simp_all
  next
    case False
    then show ?thesis using Bin.prems e' by (intro split_prefix [OF ops [symmetric], symmetric]) simp_all
  qed
  moreover from this have "x = x'" "operators r = operators r'" using ops by simp_all
  moreover from calculation have "operands l = operands l'" "operands r = operands r'"
    using Bin.prems(3) e' length_operands [of l] length_operands [of l'] by simp_all
  ultimately show ?case using Bin e' by simp
qed

subsection \<open>The two stacks\<close>

text \<open>
  Both stacks with the top first. Before an operand is pushed they have the same length: every tree
  is followed by its operator. After it there is one tree more.
\<close>

abbreviation opers_ge :: "int \<Rightarrow> etree \<Rightarrow> bool" where
  "opers_ge p e \<equiv> list_all (\<lambda>q. p \<le> snd q) (operators e)"

abbreviation binds_after :: "binaryOperator list \<Rightarrow> etree \<Rightarrow> bool" where
  "binds_after os e \<equiv> (case os of [] \<Rightarrow> True | q # _ \<Rightarrow> list_all (\<lambda>q'. snd q < snd q') (operators e))"

fun waiting :: "etree list \<Rightarrow> binaryOperator list \<Rightarrow> bool" where
  "waiting [] [] \<longleftrightarrow> True"
| "waiting (e # es) (x # os) \<longleftrightarrow>
     waiting es os \<and> respects_precedence e \<and> opers_ge (snd x) e \<and> binds_after os e \<and>
     (case os of [] \<Rightarrow> True | q # _ \<Rightarrow> snd q < snd x)"
| "waiting _ _ \<longleftrightarrow> False"

fun complete :: "etree list \<Rightarrow> binaryOperator list \<Rightarrow> bool" where
  "complete (e # es) os \<longleftrightarrow> waiting es os \<and> respects_precedence e \<and> binds_after os e"
| "complete [] os \<longleftrightarrow> False"

definition all_operands :: "etree list \<Rightarrow> Node list" where
  "all_operands es = concat (map operands (rev es))"

fun waiting_operators :: "etree list \<Rightarrow> binaryOperator list \<Rightarrow> binaryOperator list" where
  "waiting_operators (e # es) (x # os) = waiting_operators es os @ operators e @ [x]"
| "waiting_operators _ _ = []"

fun all_operators :: "etree list \<Rightarrow> binaryOperator list \<Rightarrow> binaryOperator list" where
  "all_operators (e # es) os = waiting_operators es os @ operators e"
| "all_operators [] os = []"

lemma waiting_length: "waiting es os \<Longrightarrow> length es = length os"
  by (induction es os rule: waiting.induct) simp_all

text \<open>A reduction replaces two trees and the operator between them.\<close>

lemma complete_reduce:
  assumes "complete (r # l # es) (x # os)"
  shows "complete (Bin l x r # es) os"
    and "all_operands (Bin l x r # es) = all_operands (r # l # es)"
    and "all_operators (Bin l x r # es) os = all_operators (r # l # es) (x # os)"
  using assms by (auto simp: all_operands_def list_all_iff split: list.splits)

text \<open>The stacks of the builder represent stacks of trees and operators above those of \<open>c0\<close>.\<close>

definition represents :: "builder \<Rightarrow> builder \<Rightarrow> etree list \<Rightarrow> binaryOperator list \<Rightarrow> bool" where
  "represents c0 c es os \<longleftrightarrow>
     map fst (m_binaryOperandStack c) = map etree_node es @ map fst (m_binaryOperandStack c0) \<and>
     m_binaryOperatorStack c = os @ m_binaryOperatorStack c0 \<and>
     list_all (\<lambda>x. convertOperator_token (fst x) \<noteq> None) os"

lemma reduceBinary_represents:
  assumes "represents c0 (p_context s) (r # l # es) (x # os)" and "depth = int (Suc (Suc (length es)))"
  shows "\<exists>c. reduceBinary depth s = Ret (int (Suc (length es))) (s\<lparr>p_context := c\<rparr>) \<and>
    represents c0 c (Bin l x r # es) os"
proof -
  obtain a b rest where st: "m_binaryOperandStack (p_context s) = a # b # rest" "fst a = etree_node r"
    "fst b = etree_node l" "map fst rest = map etree_node es @ map fst (m_binaryOperandStack c0)"
    using assms(1) by (auto simp: represents_def map_eq_Cons_conv)
  obtain oper where oper: "convertOperator_token (fst x) = Some oper"
    "m_binaryOperatorStack (p_context s) = x # os @ m_binaryOperatorStack c0"
    using assms(1) by (auto simp: represents_def)
  obtain t p where x: "x = (t, p)" by fastforce
  let ?c = "(p_context s)\<lparr>m_binaryOperandStack :=
      (etree_node (Bin l x r), BinaryOpInfo_merge (snd b) (snd a)) # rest,
      m_binaryOperatorStack := os @ m_binaryOperatorStack c0\<rparr>"
  have "reduceBinary depth s = Ret (int (Suc (length es))) (s\<lparr>p_context := ?c\<rparr>)"
    using st oper x assms(2)
    by (simp add: reduceBinary_def assertP_def bindP_def thenP_def readContextP_def contextP_def retP_def
        getFromOperandStack_def shrinkOperandStackBy_def appendBinaryOperation_def operatorStackPop_def
        makeBinaryNode_def)
  moreover have "represents c0 ?c (Bin l x r # es) os"
    using assms(1) st by (simp add: represents_def)
  ultimately show ?thesis by blast
qed

text \<open>
  \<open>reduceHigher\<close> leaves the operators that bind less than the next one, and a tree on top that may
  stand before it.
\<close>

lemma reduceHigher_represents:
  assumes "represents c0 (p_context s) (e # es) os" and "complete (e # es) os" and "opers_ge p e"
  shows "\<exists>e' es' os' c. reduceHigher p (length os) (int (Suc (length es))) s =
      Ret (length os', int (Suc (length os'))) (s\<lparr>p_context := c\<rparr>) \<and>
    represents c0 c (e' # es') os' \<and> complete (e' # es') os' \<and> opers_ge p e' \<and>
    (case os' of [] \<Rightarrow> True | q # _ \<Rightarrow> snd q < p) \<and>
    all_operands (e' # es') = all_operands (e # es) \<and>
    all_operators (e' # es') os' = all_operators (e # es) os"
  using assms
proof (induction os arbitrary: s e es)
  case Nil
  then have "es = []" using waiting_length by fastforce
  moreover have "s\<lparr>p_context := p_context s\<rparr> = s" by simp
  ultimately show ?case
    using Nil by (intro exI [of _ e] exI [of _ "[]"] exI [of _ "[]"] exI [of _ "p_context s"])
      (simp add: retP_def)
next
  case (Cons x os)
  then obtain l es1 where es: "es = l # es1" by (cases es) auto
  obtain t q where x: "x = (t, q)" by fastforce
  have top: "m_binaryOperatorStack (p_context s) = (t, q) # os @ m_binaryOperatorStack c0"
    using Cons.prems(1) x by (simp add: represents_def)
  show ?case
  proof (cases "p \<le> q")
    case True
    obtain c where c: "reduceBinary (int (Suc (length es))) s = Ret (int (Suc (length es1))) (s\<lparr>p_context := c\<rparr>)"
      "represents c0 c (Bin l x e # es1) os"
      using reduceBinary_represents [of c0 s e l es1 x os "int (Suc (length es))"] Cons.prems(1) es by auto
    have cm: "complete (Bin l x e # es1) os" "opers_ge p (Bin l x e)"
      using complete_reduce(1) [of e l es1 x os] Cons.prems(2,3) True es x by (auto simp: list_all_iff)
    have "represents c0 (p_context (s\<lparr>p_context := c\<rparr>)) (Bin l x e # es1) os" using c(2) by simp
    from Cons.IH [OF this cm] obtain e' es' os' c' where *:
      "reduceHigher p (length os) (int (Suc (length es1))) (s\<lparr>p_context := c\<rparr>) =
        Ret (length os', int (Suc (length os'))) (s\<lparr>p_context := c'\<rparr>)"
      "represents c0 c' (e' # es') os'" "complete (e' # es') os'" "opers_ge p e'"
      "case os' of [] \<Rightarrow> True | q # _ \<Rightarrow> snd q < p"
      "all_operands (e' # es') = all_operands (Bin l x e # es1)"
      "all_operators (e' # es') os' = all_operators (Bin l x e # es1) os"
      by auto
    have "reduceHigher p (length (x # os)) (int (Suc (length es))) s =
        Ret (length os', int (Suc (length os'))) (s\<lparr>p_context := c'\<rparr>)"
      using * (1) c(1) top True
      by (simp add: bindP_def readContextP_def operatorStackHasHigherPrecedence_def)
    then show ?thesis
      using * complete_reduce(2,3) [of e l es1 x os] Cons.prems(2) es by metis
  next
    case False
    have "reduceHigher p (length (x # os)) (int (Suc (length es))) s =
        Ret (length (x # os), int (Suc (length es))) (s\<lparr>p_context := p_context s\<rparr>)"
      using top False
      by (simp add: bindP_def readContextP_def operatorStackHasHigherPrecedence_def retP_def)
    moreover have "length es = length (x # os)"
      using Cons.prems(2) waiting_length [of es "x # os"] by simp
    ultimately show ?thesis
      using Cons.prems False x
      by (intro exI [of _ e] exI [of _ es] exI [of _ "x # os"] exI [of _ "p_context s"]) simp
  qed
qed

lemma reduceAll_represents:
  assumes "represents c0 (p_context s) (e # es) os" and "complete (e # es) os"
  shows "\<exists>e' c d. reduceAll (length os) (int (Suc (length es))) s = Ret d (s\<lparr>p_context := c\<rparr>) \<and>
    represents c0 c [e'] [] \<and> respects_precedence e' \<and>
    operands e' = all_operands (e # es) \<and> operators e' = all_operators (e # es) os"
  using assms
proof (induction os arbitrary: s e es)
  case Nil
  then have "es = []" using waiting_length by fastforce
  then show ?case
    using Nil by (intro exI [of _ e] exI [of _ "p_context s"]) (simp add: retP_def all_operands_def)
next
  case (Cons x os)
  then obtain l es1 where es: "es = l # es1" by (cases es) auto
  obtain c where c: "reduceBinary (int (Suc (length es))) s = Ret (int (Suc (length es1))) (s\<lparr>p_context := c\<rparr>)"
    "represents c0 c (Bin l x e # es1) os"
    using reduceBinary_represents [of c0 s e l es1 x os "int (Suc (length es))"] Cons.prems(1) es by auto
  have cm: "complete (Bin l x e # es1) os"
    using complete_reduce(1) [of e l es1 x os] Cons.prems(2) es by simp
  have "represents c0 (p_context (s\<lparr>p_context := c\<rparr>)) (Bin l x e # es1) os" using c(2) by simp
  from Cons.IH [OF this cm] obtain e' c' d where
    "reduceAll (length os) (int (Suc (length es1))) (s\<lparr>p_context := c\<rparr>) = Ret d (s\<lparr>p_context := c'\<rparr>)"
    "represents c0 c' [e'] []" "respects_precedence e'"
    "operands e' = all_operands (Bin l x e # es1)" "operators e' = all_operators (Bin l x e # es1) os"
    by auto
  then show ?case
    using c(1) complete_reduce(2,3) [of e l es1 x os] Cons.prems(2) es
    by (intro exI [of _ e'] exI [of _ c'] exI [of _ d]) (simp add: bindP_def)
qed

subsection \<open>The sequence of operands and operators\<close>

text \<open>
  The operands are what the operand parser returns, one after the other, and the operators are the
  tokens between them with their precedences; \<open>in\<close> is none where \<open>m_allowsIn\<close> is off. The builder
  and the counters are not part of the input.
\<close>

definition same_input :: "pstate \<Rightarrow> pstate \<Rightarrow> bool" where
  "same_input s t \<longleftrightarrow> (\<exists>c k. t = s\<lparr>p_context := c, m_nonLHSCount := k\<rparr>)"

definition current_precedence :: "pstate \<Rightarrow> int" where
  "current_precedence s = isBinaryOperator (m_allowsIn s) (tokenType s)"

inductive reads :: "treeP \<Rightarrow> pstate \<Rightarrow> Node list \<Rightarrow> binaryOperator list \<Rightarrow> pstate \<Rightarrow> bool"
  for pu where
  start: "reads pu s [] [] s"
| more: "reads pu s xs os t \<Longrightarrow> pu t = Ret (Some x) u \<Longrightarrow> current_precedence u \<noteq> 0 \<Longrightarrow>
     same_input u u' \<Longrightarrow> nextP u' = Ret () v \<Longrightarrow> same_input v v' \<Longrightarrow>
     reads pu s (xs @ [x]) (os @ [(tokenType u, current_precedence u)]) v'"

definition reads_expression ::
  "treeP \<Rightarrow> pstate \<Rightarrow> Node list \<Rightarrow> binaryOperator list \<Rightarrow> pstate \<Rightarrow> bool" where
  "reads_expression pu s xs os t \<longleftrightarrow>
     (\<exists>ys x u v. xs = ys @ [x] \<and> reads pu s ys os u \<and> pu u = Ret (Some x) v \<and>
        current_precedence v = 0 \<and> same_input v t)"

lemma same_input_frame [simp]:
  "same_input s (s\<lparr>p_context := c\<rparr>)"
  "same_input s (s\<lparr>m_nonLHSCount := k, p_context := c\<rparr>)"
  "same_input s (s\<lparr>p_context := c, m_nonLHSCount := k\<rparr>)"
proof -
  have "s\<lparr>p_context := c\<rparr> = s\<lparr>p_context := c, m_nonLHSCount := m_nonLHSCount s\<rparr>"
    and "s\<lparr>m_nonLHSCount := k, p_context := c\<rparr> = s\<lparr>p_context := c, m_nonLHSCount := k\<rparr>"
    by simp_all
  then show "same_input s (s\<lparr>p_context := c\<rparr>)" "same_input s (s\<lparr>m_nonLHSCount := k, p_context := c\<rparr>)"
    "same_input s (s\<lparr>p_context := c, m_nonLHSCount := k\<rparr>)"
    unfolding same_input_def by metis+
qed

lemma same_input_context:
  assumes "same_input s t"
  shows "same_input s (t\<lparr>p_context := c\<rparr>)" and "same_input s (t\<lparr>m_nonLHSCount := n\<rparr>)"
proof -
  obtain c' k where t: "t = s\<lparr>p_context := c', m_nonLHSCount := k\<rparr>"
    using assms by (auto simp: same_input_def)
  have "t\<lparr>p_context := c\<rparr> = s\<lparr>p_context := c, m_nonLHSCount := k\<rparr>"
    and "t\<lparr>m_nonLHSCount := n\<rparr> = s\<lparr>p_context := c', m_nonLHSCount := n\<rparr>" using t by simp_all
  then show "same_input s (t\<lparr>p_context := c\<rparr>)" and "same_input s (t\<lparr>m_nonLHSCount := n\<rparr>)" by simp_all
qed

subsection \<open>The parser follows the sequence\<close>

lemma wp_strengthen:
  assumes "wp m Q E s" and "\<And>a t. m s = Ret a t \<Longrightarrow> Q a t \<Longrightarrow> Q' a t"
  shows "wp m Q' E s"
  using assms by (auto simp: wp_def split: outcome.splits)

lemma wp_need_operand:
  assumes "tree_ok b pu" and "run s0 a d p u s" and "prem s < b"
    and "\<And>x t. pu s = Ret (Some x) t \<Longrightarrow> run s0 a d p u t \<Longrightarrow> wfNode x \<Longrightarrow> prem t < prem s \<Longrightarrow>
      m_error s \<longrightarrow> m_error t \<Longrightarrow>
      \<not> m_error t \<longrightarrow> m_binaryOperandStack (p_context t) = m_binaryOperandStack (p_context s) \<and>
        m_binaryOperatorStack (p_context t) = m_binaryOperatorStack (p_context s) \<Longrightarrow> Q x t"
    and "\<And>t. run s0 a d p u t \<Longrightarrow> m_error t \<Longrightarrow> E t"
  shows "wp (needP pu) Q E s"
proof -
  have "wp pu (post m_error wfNode s) (\<lambda>_. False) s"
    using assms(1-3) by (auto simp: meets_def run_def)
  then have "wp pu (\<lambda>r t. case r of None \<Rightarrow> E (t\<lparr>m_error := True\<rparr>) | Some x \<Rightarrow> Q x t) (\<lambda>_. False) s"
  proof (rule wp_strengthen)
    fix r t
    assume r: "pu s = Ret r t" "post m_error wfNode s r t"
    then have r0: "run s 0 0 0 0 t" by (simp add: post_def)
    then have t: "run s0 a d p u t" "m_error s \<longrightarrow> m_error t"
      using run_trans [OF assms(2) r0] by (simp_all add: run_def)
    show "case r of None \<Rightarrow> E (t\<lparr>m_error := True\<rparr>) | Some x \<Rightarrow> Q x t"
    proof (cases r)
      case None
      then show ?thesis using assms(5) run_error [OF t(1)] by simp
    next
      case (Some x)
      have "wfNode x" "prem t < prem s" using r(2) Some by (simp_all add: post_def)
      moreover have "\<not> m_error t \<longrightarrow> m_binaryOperandStack (p_context t) = m_binaryOperandStack (p_context s) \<and>
          m_binaryOperatorStack (p_context t) = m_binaryOperatorStack (p_context s)"
        using r0 by (auto simp: run_def pushed_def)
      ultimately show ?thesis
        using assms(4) [OF _ t(1), of x] r(1) t(2) Some by simp
    qed
  qed
  then show ?thesis unfolding wp_need by (rule wp_mono) simp_all
qed

lemma wp_next_context:
  assumes "run s0 a d p u s"
    and "\<And>t. nextP s = Ret () t \<Longrightarrow> run s0 a d p u t \<Longrightarrow> prem t \<le> prem s \<Longrightarrow>
      proper (tokenType s) \<longrightarrow> prem t < prem s \<Longrightarrow> m_error t = m_error s \<Longrightarrow>
      p_context t = p_context s \<Longrightarrow> Q () t"
  shows "wp nextP Q E s"
proof -
  have "wp nextP (\<lambda>_ t. run s0 a d p u t \<and> prem t \<le> prem s \<and> (proper (tokenType s) \<longrightarrow> prem t < prem s) \<and>
      m_error t = m_error s) E s"
    by (rule wp_next [OF assms(1)]) simp
  then show ?thesis
  proof (rule wp_strengthen)
    fix r t
    assume t: "nextP s = Ret r t" "run s0 a d p u t \<and> prem t \<le> prem s \<and>
      (proper (tokenType s) \<longrightarrow> prem t < prem s) \<and> m_error t = m_error s"
    have "p_context t = p_context s"
      using t(1) by (auto simp: nextP_def nextP_type_def Let_def split: prod.splits if_splits)
    then show "Q r t" using t assms(2) by simp
  qed
qed

definition follows :: "treeP \<Rightarrow> pstate \<Rightarrow> nat \<Rightarrow> pstate \<Rightarrow> bool" where
  "follows pu s k t \<longleftrightarrow>
     (\<exists>es os. length os = k \<and> waiting es os \<and> represents (p_context s) (p_context t) es os \<and>
        reads pu s (all_operands es) (waiting_operators es os) t)"

definition followed :: "treeP \<Rightarrow> pstate \<Rightarrow> nat \<Rightarrow> pstate \<Rightarrow> bool" where
  "followed pu s k t \<longleftrightarrow>
     (\<exists>e es os. length os = k \<and> complete (e # es) os \<and>
        represents (p_context s) (p_context t) (e # es) os \<and>
        reads_expression pu s (all_operands (e # es)) (all_operators (e # es) os) t)"

lemma follows_operand:
  assumes "follows pu s k t" and "pu t = Ret (Some x) u"
    and "m_binaryOperandStack (p_context u) = m_binaryOperandStack (p_context t)"
    and "m_binaryOperatorStack (p_context u) = m_binaryOperatorStack (p_context t)"
  obtains es os where "length os = k" and "complete (Operand x # es) os"
    and "represents (p_context s) ((p_context u)\<lparr>m_binaryOperandStack :=
      (x, info) # m_binaryOperandStack (p_context u)\<rparr>) (Operand x # es) os"
    and "reads pu s (all_operands es) (all_operators (Operand x # es) os) t"
    and "all_operands (Operand x # es) = all_operands es @ [x]"
proof -
  obtain es os where *: "length os = k" "waiting es os" "represents (p_context s) (p_context t) es os"
    "reads pu s (all_operands es) (waiting_operators es os) t"
    using assms(1) by (auto simp: follows_def)
  show thesis
    by (rule that [of os es])
       (use * assms(3,4) in \<open>auto simp: represents_def all_operands_def split: list.splits\<close>)
qed

text \<open>The second half of a round: the operator, and the reductions before it is pushed.\<close>

lemma wp_reduceHigher_follows:
  assumes "run s 0 (Suc k) k 0 v" and "p_context v = p_context u"
    and "\<not> m_error v \<longrightarrow> complete (e # es) os \<and> length os = k \<and>
      represents (p_context s) (p_context u) (e # es) os \<and> operators e = []"
    and "\<And>k' w. run s 0 (Suc k') k' 0 w \<Longrightarrow> prem w = prem v \<Longrightarrow> m_error w = m_error v \<Longrightarrow>
      \<not> m_error v \<longrightarrow> (\<exists>e' es' os' c. w = v\<lparr>p_context := c\<rparr> \<and> length os' = k' \<and>
        represents (p_context s) c (e' # es') os' \<and> complete (e' # es') os' \<and> opers_ge p e' \<and>
        (case os' of [] \<Rightarrow> True | q # _ \<Rightarrow> snd q < p) \<and>
        all_operands (e' # es') = all_operands (e # es) \<and>
        all_operators (e' # es') os' = all_operators (e # es) os) \<Longrightarrow> Q (k', int (Suc k')) w"
  shows "wp (reduceHigher p k (int (Suc k))) Q E v"
proof (rule wp_strengthen)
  show "wp (reduceHigher p k (int (Suc k))) (\<lambda>(k', d) w. d = int (Suc k') \<and> run s 0 (Suc k') k' 0 w \<and>
      prem w = prem v \<and> m_error w = m_error v) E v"
    by (rule wp_reduceHigher [OF assms(1) refl]) simp
next
  fix r w
  assume r: "reduceHigher p k (int (Suc k)) v = Ret r w"
    and *: "(case r of (k', d) \<Rightarrow> \<lambda>w. d = int (Suc k') \<and> run s 0 (Suc k') k' 0 w \<and>
      prem w = prem v \<and> m_error w = m_error v) w"
  obtain k' where k': "r = (k', int (Suc k'))" "run s 0 (Suc k') k' 0 w" "prem w = prem v" "m_error w = m_error v"
    using * by (cases r) auto
  show "Q r w"
    unfolding k'(1)
  proof (rule assms(4) [OF k'(2-4)], rule impI)
    assume "\<not> m_error v"
    then have v: "complete (e # es) os" "length os = k" "represents (p_context s) (p_context v) (e # es) os"
      "opers_ge p e"
      using assms(2,3) by simp_all
    then have "length es = k" using waiting_length by fastforce
    with reduceHigher_represents [OF v(3,1,4)] v(2) r k'(1)
    show "\<exists>e' es' os' c. w = v\<lparr>p_context := c\<rparr> \<and> length os' = k' \<and>
        represents (p_context s) c (e' # es') os' \<and> complete (e' # es') os' \<and> opers_ge p e' \<and>
        (case os' of [] \<Rightarrow> True | q # _ \<Rightarrow> snd q < p) \<and>
        all_operands (e' # es') = all_operands (e # es) \<and>
        all_operators (e' # es') os' = all_operators (e # es) os"
      by auto
  qed
qed

definition operand_pushed :: "treeP \<Rightarrow> pstate \<Rightarrow> nat \<Rightarrow> pstate \<Rightarrow> pstate \<Rightarrow> bool" where
  "operand_pushed pu s k t v \<longleftrightarrow>
     (\<exists>x u es os. pu t = Ret (Some x) u \<and> same_input u v \<and> length os = k \<and>
        complete (Operand x # es) os \<and> represents (p_context s) (p_context v) (Operand x # es) os \<and>
        reads pu s (all_operands es) (all_operators (Operand x # es) os) t)"

lemma operand_pushed_counter:
  "operand_pushed pu s k t v \<Longrightarrow> operand_pushed pu s k t (v\<lparr>m_nonLHSCount := n\<rparr>)"
  unfolding operand_pushed_def using same_input_context(2) by fastforce

lemma same_input_sel:
  assumes "same_input u v"
  shows "tokenType v = tokenType u" and "current_precedence v = current_precedence u"
  using assms by (auto simp: same_input_def current_precedence_def)

lemma wp_operator_follows:
  assumes "run s 0 (Suc k) k 0 v" and "p = current_precedence v" and "p \<noteq> 0"
    and "\<not> m_error v \<longrightarrow> operand_pushed pu s k t v"
    and "\<And>k' w. run s 0 (Suc k') (Suc k') 0 w \<Longrightarrow> prem w \<le> prem v \<Longrightarrow>
      \<not> m_error w \<longrightarrow> follows pu s (Suc k') w \<Longrightarrow> Q (Inl (int (Suc k'), Suc k')) w"
  shows "wp (thenP nextP
     (bindP (reduceHigher p k (int (Suc k))) (\<lambda>(operatorStackDepth, operandStackDepth).
      bindP (contextP (\<lambda>b. Some (operatorStackAppend operatorStackDepth (tokenType v) p b))) (\<lambda>operatorStackDepth.
      retP (Inl (operandStackDepth, operatorStackDepth)))))) Q E v"
proof -
  have "wp nextP (\<lambda>_. wp (reduceHigher p k (int (Suc k))) (\<lambda>(k', d) w.
      Q (Inl (d, Suc k')) (w\<lparr>p_context := (p_context w)\<lparr>m_binaryOperatorStack :=
        (tokenType v, p) # m_binaryOperatorStack (p_context w)\<rparr>\<rparr>)) E) E v"
  proof (rule wp_next_context [OF assms(1)])
  fix u
  assume u: "nextP v = Ret () u" "run s 0 (Suc k) k 0 u" "prem u \<le> prem v" "m_error u = m_error v"
    "p_context u = p_context v"
  obtain x u0 es os where *: "\<not> m_error v \<longrightarrow> pu t = Ret (Some x) u0 \<and> same_input u0 v \<and> length os = k \<and>
      complete (Operand x # es) os \<and> represents (p_context s) (p_context v) (Operand x # es) os \<and>
      reads pu s (all_operands es) (all_operators (Operand x # es) os) t"
    using assms(4) unfolding operand_pushed_def by blast
  have conv: "convertOperator_token (tokenType v) \<noteq> None"
    using assms(2,3) isBinaryOperator_convert by (simp add: current_precedence_def)
  show "wp (reduceHigher p k (int (Suc k))) (\<lambda>(k', d) w.
      Q (Inl (d, Suc k')) (w\<lparr>p_context := (p_context w)\<lparr>m_binaryOperatorStack :=
        (tokenType v, p) # m_binaryOperatorStack (p_context w)\<rparr>\<rparr>)) E u"
  proof (rule wp_reduceHigher_follows [OF u(2,5), of "Operand x" es os])
    show "\<not> m_error u \<longrightarrow> complete (Operand x # es) os \<and> length os = k \<and>
      represents (p_context s) (p_context v) (Operand x # es) os \<and> operators (Operand x) = []"
      using * u(4) by simp
  next
    fix k' w
    assume w: "run s 0 (Suc k') k' 0 w" "prem w = prem u" "m_error w = m_error u"
      and f: "\<not> m_error u \<longrightarrow> (\<exists>e' es' os' c. w = u\<lparr>p_context := c\<rparr> \<and> length os' = k' \<and>
        represents (p_context s) c (e' # es') os' \<and> complete (e' # es') os' \<and> opers_ge p e' \<and>
        (case os' of [] \<Rightarrow> True | q # _ \<Rightarrow> snd q < p) \<and>
        all_operands (e' # es') = all_operands (Operand x # es) \<and>
        all_operators (e' # es') os' = all_operators (Operand x # es) os)"
    let ?w = "w\<lparr>p_context := (p_context w)\<lparr>m_binaryOperatorStack :=
      (tokenType v, p) # m_binaryOperatorStack (p_context w)\<rparr>\<rparr>"
    have "Q (Inl (int (Suc k'), Suc k')) ?w"
    proof (rule assms(5))
      show "run s 0 (Suc k') (Suc k') 0 ?w"
        using run_push(3) [OF w(1) refl, of "(tokenType v, p)"] conv by simp
      show "prem ?w \<le> prem v" using w(2) u(3) by simp
      show "\<not> m_error ?w \<longrightarrow> follows pu s (Suc k') ?w"
      proof
        assume "\<not> m_error ?w"
        then have ne: "\<not> m_error u" "\<not> m_error v" using w(3) u(4) by simp_all
        obtain e' es' os' c where f': "w = u\<lparr>p_context := c\<rparr>" "length os' = k'"
          "represents (p_context s) c (e' # es') os'" "complete (e' # es') os'" "opers_ge p e'"
          "case os' of [] \<Rightarrow> True | q # _ \<Rightarrow> snd q < p"
          "all_operands (e' # es') = all_operands (Operand x # es)"
          "all_operators (e' # es') os' = all_operators (Operand x # es) os"
          using f ne(1) by blast
        have r: "reads pu s (all_operands es @ [x])
            (all_operators (Operand x # es) os @ [(tokenType u0, current_precedence u0)]) ?w"
          by (rule reads.more [OF _ _ _ _ u(1)])
             (use * ne(2) same_input_sel [of u0 v] assms(2,3) f'(1) in auto)
        have tok: "(tokenType u0, current_precedence u0) = (tokenType v, p)"
          using * ne(2) same_input_sel [of u0 v] assms(2) by simp
        have x: "all_operands (e' # es') = all_operands es @ [x]"
          "waiting_operators (e' # es') ((tokenType v, p) # os') =
            all_operators (Operand x # es) os @ [(tokenType v, p)]"
          using f'(7,8) by (simp_all add: all_operands_def)
        have "waiting (e' # es') ((tokenType v, p) # os')"
          using f'(4-6) by (cases os') simp_all
        moreover have "represents (p_context s) (p_context ?w) (e' # es') ((tokenType v, p) # os')"
          using f'(1,3) conv by (simp add: represents_def)
        moreover have "reads pu s (all_operands (e' # es'))
            (waiting_operators (e' # es') ((tokenType v, p) # os')) ?w"
          unfolding x using r tok by simp
        ultimately show "follows pu s (Suc k') ?w"
          unfolding follows_def
          by (intro exI [of _ "e' # es'"] exI [of _ "(tokenType v, p) # os'"])
             (simp add: f'(2) del: waiting.simps waiting_operators.simps)
      qed
    qed
    then show "(case (k', int (Suc k')) of (k', d) \<Rightarrow> \<lambda>w. Q (Inl (d, Suc k')) (w\<lparr>p_context := (p_context w)\<lparr>m_binaryOperatorStack :=
        (tokenType v, p) # m_binaryOperatorStack (p_context w)\<rparr>\<rparr>)) w" by simp
  qed
qed
then show ?thesis
    unfolding wp_then wp_bind wp_context wp_ret operatorStackAppend_def case_prod_unfold
    by (simp add: wp_simps)
qed

lemma wp_binary_step_follows:
  assumes "tree_ok b pu" and "run s 0 k k 0 t" and "prem t \<le> prem s" and "prem s < b"
    and "\<not> m_error t \<longrightarrow> follows pu s k t"
  shows "wp (parseBinaryExpression_step pu (int k, k))
    (\<lambda>r v. case r of
        Inl (d, k') \<Rightarrow> d = int k' \<and> run s 0 k' k' 0 v \<and> prem v < prem s \<and> prem v < prem t \<and>
          (\<not> m_error v \<longrightarrow> follows pu s k' v)
      | Inr (d, k') \<Rightarrow> d = int (Suc k') \<and> run s 0 (Suc k') k' 0 v \<and> prem v < prem s \<and>
          (\<not> m_error v \<longrightarrow> followed pu s k' v))
    (\<lambda>v. run s 0 0 0 0 v \<and> m_error v) t"
proof -
  let ?Q = "\<lambda>r v. case r of
        Inl (d, k') \<Rightarrow> d = int k' \<and> run s 0 k' k' 0 v \<and> prem v < prem s \<and> prem v < prem t \<and>
          (\<not> m_error v \<longrightarrow> follows pu s k' v)
      | Inr (d, k') \<Rightarrow> d = int (Suc k') \<and> run s 0 (Suc k') k' 0 v \<and> prem v < prem s \<and>
          (\<not> m_error v \<longrightarrow> followed pu s k' v)"
  let ?E = "\<lambda>v. run s 0 0 0 0 v \<and> m_error v"
  have b: "prem t < b" using assms(3,4) by simp
  show ?thesis
    unfolding parseBinaryExpression_step_def prod.case wp_bind wp_get
  proof (rule wp_need_operand [OF assms(1,2) b], goal_cases)
    case u: (1 x u)
    define info where "info = \<lparr>bi_start = tokenStart t, bi_divot = m_lastTokenEnd u,
      bi_end = m_lastTokenEnd u, bi_hasAssignment = (m_assignmentCount t \<noteq> m_assignmentCount u)\<rparr>"
    define c where "c = (p_context u)\<lparr>m_binaryOperandStack := (x, info) # m_binaryOperandStack (p_context u)\<rparr>"
    define v where "v = u\<lparr>p_context := c\<rparr>"
    have r1: "run s 0 (Suc k) k 0 v"
      using run_push(2) [OF u(2) refl, of "(x, info)"] u(3) by (simp add: v_def c_def)
    have r2: "run s 0 (Suc k) k 0 (v\<lparr>m_nonLHSCount := n\<rparr>)" for n using r1 by simp
    have lt: "prem v < prem t" "prem v < prem s" using u(4) assms(3) by (simp_all add: v_def)
    have same: "same_input u v" "same_input u (v\<lparr>m_nonLHSCount := n\<rparr>)" for n
      by (simp_all add: v_def)
    have pushed: "\<not> m_error v \<longrightarrow> operand_pushed pu s k t v"
    proof
      assume "\<not> m_error v"
      then have ne: "\<not> m_error u" "\<not> m_error t" using u(5) by (auto simp: v_def)
      have st: "m_binaryOperandStack (p_context u) = m_binaryOperandStack (p_context t)"
        "m_binaryOperatorStack (p_context u) = m_binaryOperatorStack (p_context t)"
        using u(6) ne(1) by simp_all
      have fol: "follows pu s k t" using assms(5) ne(2) by simp
      show "operand_pushed pu s k t v"
        by (rule follows_operand [OF fol u(1) st, of info])
           (use u(1) same(1) in \<open>auto simp: operand_pushed_def v_def c_def\<close>)
    qed
    have ends: "followed pu s k v" if ne: "\<not> m_error v" and last: "current_precedence v = 0"
    proof -
      obtain x u es os where *: "pu t = Ret (Some x) u" "same_input u v" "length os = k"
        "complete (Operand x # es) os" "represents (p_context s) (p_context v) (Operand x # es) os"
        "reads pu s (all_operands es) (all_operators (Operand x # es) os) t"
        using mp [OF pushed ne] unfolding operand_pushed_def by blast
      have "reads_expression pu s (all_operands (Operand x # es)) (all_operators (Operand x # es) os) v"
        unfolding reads_expression_def
        by (rule exI [of _ "all_operands es"], rule exI [of _ x])
           (use * last same_input_sel [of u v] in \<open>auto simp: all_operands_def\<close>)
      then show ?thesis using * unfolding followed_def by blast
    qed
    have v2: "operand_pushed pu s k t (v\<lparr>m_nonLHSCount := n\<rparr>)" if "\<not> m_error v" for n
      by (rule operand_pushed_counter [OF mp [OF pushed that]])
    have oper: "wp (thenP nextP
     (bindP (reduceHigher p k (int (Suc k))) (\<lambda>(operatorStackDepth, operandStackDepth).
      bindP (contextP (\<lambda>b. Some (operatorStackAppend operatorStackDepth (tokenType (v\<lparr>m_nonLHSCount := n\<rparr>)) p b))) (\<lambda>operatorStackDepth.
      retP (Inl (operandStackDepth, operatorStackDepth)))))) ?Q ?E (v\<lparr>m_nonLHSCount := n\<rparr>)"
      if "p = current_precedence v" "p \<noteq> 0" for p n
      by (rule wp_operator_follows [OF r2])
         (use that lt v2 in \<open>auto simp: current_precedence_def\<close>)
    show ?case
    proof (cases "current_precedence v = 0")
      case True
      then show ?thesis
        using r1 lt ends
        by (simp add: wp_simps appendBinaryExpressionInfo_def current_precedence_def info_def c_def v_def)
    next
      case False
      have "wp (thenP incNonLHSCount (bindP (getP tokenType) (\<lambda>operatorToken. thenP nextP
     (bindP (reduceHigher (current_precedence v) k (int (Suc k))) (\<lambda>(operatorStackDepth, operandStackDepth).
      bindP (contextP (\<lambda>b. Some (operatorStackAppend operatorStackDepth operatorToken (current_precedence v) b))) (\<lambda>operatorStackDepth.
      retP (Inl (operandStackDepth, operatorStackDepth)))))))) ?Q ?E v"
        unfolding wp_then [of incNonLHSCount] wp_counters wp_bind [of "getP tokenType"] wp_get
        using oper [OF refl False] by simp
      then show ?thesis
        using False
        by (simp add: wp_bind wp_context wp_get appendBinaryExpressionInfo_def current_precedence_def
            info_def c_def v_def add.commute)
    qed
  qed (use run_lower in auto)
qed

text \<open>The whole function: the loop, the reductions at its end, and the one tree that is left.\<close>

lemma wp_binary_loop_follows:
  assumes "tree_ok b pu" and "b \<le> n" and "pinv s" and "prem s < b"
  shows "wp (loopP n (parseBinaryExpression_step pu) (0, 0))
    (\<lambda>(d, k) v. d = int (Suc k) \<and> run s 0 (Suc k) k 0 v \<and> (\<not> m_error v \<longrightarrow> followed pu s k v))
    (\<lambda>v. m_error v) s"
proof -
  let ?I = "\<lambda>(d, k) t. d = int k \<and> run s 0 k k 0 t \<and> prem t \<le> prem s \<and> (\<not> m_error t \<longrightarrow> follows pu s k t)"
  let ?Q = "\<lambda>(d, k) v. d = int (Suc k) \<and> run s 0 (Suc k) k 0 v \<and> (\<not> m_error v \<longrightarrow> followed pu s k v)"
  have "follows pu s 0 s"
    unfolding follows_def
    by (intro exI [of _ "[]"]) (simp add: represents_def all_operands_def reads.start)
  then have "?I (0, 0) s" using run_refl [OF assms(3)] by simp
  moreover have "wp (parseBinaryExpression_step pu a)
      (\<lambda>r v. case r of Inl a' \<Rightarrow> ?I a' v \<and> prem v < prem t | Inr q \<Rightarrow> ?Q q v) (\<lambda>v. m_error v) t"
    if inv: "?I a t" for a t
  proof -
    obtain k where a: "a = (int k, k)" "run s 0 k k 0 t" "prem t \<le> prem s" "\<not> m_error t \<longrightarrow> follows pu s k t"
      using inv by (cases a) auto
    show ?thesis
      unfolding a(1)
      by (rule wp_mono [OF wp_binary_step_follows [OF assms(1) a(2,3) assms(4) a(4)]])
         (auto split: sum.splits)
  qed
  ultimately show ?thesis
    by (intro wp_loop [where I = ?I]) (use assms(2,4) in auto)
qed

lemma reads_expression_context:
  "reads_expression pu s xs os t \<Longrightarrow> reads_expression pu s xs os (t\<lparr>p_context := c\<rparr>)"
  unfolding reads_expression_def using same_input_context by blast

lemma wp_reduceAll_follows:
  assumes "run s 0 (Suc k) k 0 v" and "\<not> m_error v \<longrightarrow> followed pu s k v"
    and "\<And>x t. \<not> m_error t \<longrightarrow> (\<exists>e. x = etree_node e \<and> respects_precedence e \<and>
      reads_expression pu s (operands e) (operators e) t) \<Longrightarrow> Q x t"
  shows "wp (reduceAll k (int (Suc k))) (\<lambda>_. wp (contextP popOperandStack) Q E) E v"
proof (rule wp_strengthen)
  show "wp (reduceAll k (int (Suc k))) (\<lambda>d t. run s 0 1 0 0 t \<and> m_error t = m_error v) E v"
    by (rule wp_reduceAll [OF assms(1) refl]) simp
next
  fix d t
  assume t: "reduceAll k (int (Suc k)) v = Ret d t" "run s 0 1 0 0 t \<and> m_error t = m_error v"
  obtain x xs where x: "m_binaryOperandStack (p_context t) = x # xs"
    using run_pop(2) [of s 0 0 0 0 t] t(2) by auto
  let ?t = "t\<lparr>p_context := (p_context t)\<lparr>m_binaryOperandStack := xs\<rparr>\<rparr>"
  have "Q (fst x) ?t"
  proof (rule assms(3), rule impI)
    assume "\<not> m_error ?t"
    then have "\<not> m_error v" using t(2) by simp
    then obtain e es os where f: "length os = k" "complete (e # es) os"
      "represents (p_context s) (p_context v) (e # es) os"
      "reads_expression pu s (all_operands (e # es)) (all_operators (e # es) os) v"
      using assms(2) unfolding followed_def by blast
    then have "length es = k" using waiting_length by fastforce
    then obtain e' c where e': "t = v\<lparr>p_context := c\<rparr>" "represents (p_context s) c [e'] []"
      "respects_precedence e'" "operands e' = all_operands (e # es)"
      "operators e' = all_operators (e # es) os"
      using reduceAll_represents [OF f(3,2)] f(1) t(1) by auto
    have "fst x = etree_node e'" using e'(1,2) x by (simp add: represents_def)
    moreover have "reads_expression pu s (operands e') (operators e') ?t"
      using f(4) e'(1,4,5) by (simp add: reads_expression_context)
    ultimately show "\<exists>e. fst x = etree_node e \<and> respects_precedence e \<and>
        reads_expression pu s (operands e) (operators e) ?t"
      using e'(3) by blast
  qed
  then show "wp (contextP popOperandStack) Q E t"
    using x by (cases x) (simp add: wp_simps popOperandStack_def)
qed

lemma parseBinaryExpression_tree:
  assumes "tree_ok b pu" and "b \<le> n" and "pinv s" and "prem s < b"
    and "parseBinaryExpression n pu s = Ret r t" and "\<not> m_error t"
  shows "\<exists>e. r = Some (etree_node e) \<and> respects_precedence e \<and>
    reads_expression pu s (operands e) (operators e) t \<and>
    (\<forall>e'. respects_precedence e' \<and> operands e' = operands e \<and> operators e' = operators e \<longrightarrow> e' = e)"
proof -
  let ?Q = "\<lambda>r t. \<not> m_error t \<longrightarrow> (\<exists>e. r = Some (etree_node e) \<and> respects_precedence e \<and>
    reads_expression pu s (operands e) (operators e) t)"
  have "wp (parseBinaryExpression n pu) ?Q (\<lambda>_. False) s"
    unfolding parseBinaryExpression_def wp_function wp_bind
  proof (rule wp_mono [OF wp_binary_loop_follows [OF assms(1-4)]])
    fix q v
    assume "(case q of (d, k) \<Rightarrow> \<lambda>v. d = int (Suc k) \<and> run s 0 (Suc k) k 0 v \<and>
      (\<not> m_error v \<longrightarrow> followed pu s k v)) v"
    then obtain k where q: "q = (int (Suc k), k)" "run s 0 (Suc k) k 0 v" "\<not> m_error v \<longrightarrow> followed pu s k v"
      by (cases q) auto
    show "wp (case q of (d, k) \<Rightarrow> thenP (reduceAll k d)
        (bindP (contextP popOperandStack) (\<lambda>result. retP (Some result)))) ?Q (?Q None) v"
      unfolding q(1) prod.case wp_then wp_bind wp_ret
      by (rule wp_reduceAll_follows [OF q(2,3)]) simp
  qed auto
  then obtain e where e: "r = Some (etree_node e)" "respects_precedence e"
    "reads_expression pu s (operands e) (operators e) t"
    using assms(5,6) by (auto simp: wp_def)
  then show ?thesis using etree_unique by blast
qed

subsection \<open>The expressions of the program\<close>

lemma pinv_parser_at:
  assumes "list_all uchar_ok (map of_char text)"
    and "case parser_start text of Ret _ _ \<Rightarrow> True | _ \<Rightarrow> False"
  shows "pinv (parser_at text)"
proof -
  let ?lx = "setCode (map of_char text) blank_lexer"
  let ?s = "JSParser_init ?lx False blank_token (replicate 10 0) (\<lambda>_. [])"
  have "linv ?lx" "lclean ?lx"
    using setCode_ok [of "map of_char text" blank_lexer] assms(1) by (simp_all add: blank_lexer_def)
  then have "pinv ?s" by (simp add: pinv_def JSParser_init_def ctx_ok_def Builder_def)
  then have "wp (JSParser_ctor) (\<lambda>_ t. pinv t) (\<lambda>_. True) ?s"
    by (auto simp: JSParser_ctor_def nextP_def wp_simps pinv_def setLastLineNumber_def intro!: wp_next_pinv)
  then show ?thesis
    using assms(2) by (auto simp: parser_at_def parser_start_def wp_def split: outcome.splits)
qed

text \<open>The operands of binary expressions, as \<open>parseAssignmentExpression (Suc n)\<close> parses them.\<close>

definition operandParser :: "nat \<Rightarrow> treeP" where
  "operandParser n = parseUnaryExpression n
     (parseMemberExpression n (parseStatement n) (parseAssignmentExpression n))"

text \<open>
  C4. A binary expression that is parsed without an error is the tree of its operands and operators
  in which every operator has operators of its own or higher precedence on the left and of higher
  precedence on the right; there is only one such tree. The operands are what the parser of unary
  expressions returns one after the other, the operators are the tokens between them.
\<close>

theorem parseBinaryExpression_precedence:
  assumes "pinv s" and "2 * prem s < n"
    and "parseBinaryExpression n (operandParser n) s = Ret r t" and "\<not> m_error t"
  shows "\<exists>e. r = Some (etree_node e) \<and> respects_precedence e \<and>
    reads_expression (operandParser n) s (operands e) (operators e) t \<and>
    (\<forall>e'. respects_precedence e' \<and> operands e' = operands e \<and> operators e' = operators e \<longrightarrow> e' = e)"
proof -
  have "tree_ok (Suc (prem s)) (parseMemberExpression n (parseStatement n) (parseAssignmentExpression n))"
    using assms(2) by (intro parseMemberExpression_ok [where c = "prem s"] parse_ok) simp_all
  then have "tree_ok (Suc (prem s)) (operandParser n)"
    unfolding operandParser_def using assms(2) by (intro parseUnaryExpression_ok) simp_all
  from parseBinaryExpression_tree [OF this _ assms(1) _ assms(3,4)] assms(2) show ?thesis by simp
qed

theorem parseBinaryExpression_precedence_witness:
  "\<exists>r t e. parseBinaryExpression 30 (operandParser 30) (parser_at ''a-b*c-d'') = Ret r t \<and>
     r = Some (etree_node e) \<and> respects_precedence e"
proof -
  have "pinv (parser_at ''a-b*c-d'')" by (rule pinv_parser_at) code_simp+
  moreover have "2 * prem (parser_at ''a-b*c-d'') < 30" by code_simp
  moreover have "case parseBinaryExpression 30 (operandParser 30) (parser_at ''a-b*c-d'') of
      Ret r t \<Rightarrow> \<not> m_error t | _ \<Rightarrow> False"
    by code_simp
  then obtain r t where "parseBinaryExpression 30 (operandParser 30) (parser_at ''a-b*c-d'') = Ret r t"
    "\<not> m_error t"
    by (auto split: outcome.splits)
  ultimately show ?thesis using parseBinaryExpression_precedence by blast
qed

text \<open>The levels of the grammar, from the loosest operators to the tightest.\<close>

definition binary_levels :: "JSTokenType list list" where
  "binary_levels =
    [[OROR], [ANDAND], [BITOR], [BITXOR], [BITAND], [EQEQ, NE, STREQ, STRNEQ],
     [LT, GT, LE, GE, INSTANCEOF, INTOKEN], [LSHIFT, RSHIFT, URSHIFT], [PLUS, MINUS],
     [TIMES, DIVIDE, MOD]]"

text \<open>
  C19. The precedence the parser finds in the bits of a token is the level of the operator in the
  grammar, 0 for any other token, and 0 for \<open>in\<close> where that operator is not allowed.
\<close>

theorem isBinaryOperator_level:
  "isBinaryOperator allowsIn t =
    (if t = INTOKEN \<and> \<not> allowsIn then 0
     else 2 ^ (if allowsIn then 12 else 8) * sum_list (map (\<lambda>i. if t \<in> set (binary_levels ! i) then int i + 1 else 0) [0..<10]))"
  by (cases allowsIn; cases t; simp only: simp_thms if_True if_False; code_simp)

end
