(* ===== verification/ParserReturns.thy ===== *)
theory ParserReturns
  imports BinaryExpression
begin

text \<open>
  A calculus for runs of the parser that succeed: \<open>returns m Q s\<close> says that \<open>m\<close>, run from \<open>s\<close>,
  returns, with \<open>Q\<close> of the result and the state. The input is the list of tokens that the scanner
  delivers from a state on, \<open>coming s ts\<close>; the builder and the counters of the parser have no
  influence on it.
\<close>

named_theorems returns_simps \<open>the parser combinators under returns\<close>

definition returns :: "'a parser \<Rightarrow> ('a \<Rightarrow> pstate \<Rightarrow> bool) \<Rightarrow> pstate \<Rightarrow> bool" where
  "returns m Q s \<longleftrightarrow> (case m s of Ret a t \<Rightarrow> Q a t | _ \<Rightarrow> False)"

lemma returns_mono: "returns m Q s \<Longrightarrow> (\<And>a t. Q a t \<Longrightarrow> Q' a t) \<Longrightarrow> returns m Q' s"
  by (auto simp: returns_def split: outcome.splits)

lemma returns_Ret: "m s = Ret a t \<Longrightarrow> Q a t \<Longrightarrow> returns m Q s"
  by (simp add: returns_def)

text \<open>The combinators, as functions of the state: the rules apply below a \<open>\<lambda>\<close> as well.\<close>

lemma returns_ret [returns_simps]: "returns (retP a) Q = Q a"
  by (simp add: fun_eq_iff returns_def retP_def)

lemma returns_get [returns_simps]: "returns (getP f) Q = (\<lambda>s. Q (f s) s)"
  by (simp add: fun_eq_iff returns_def getP_def)

lemma returns_mod [returns_simps]: "returns (modP g) Q = (\<lambda>s. Q () (g s))"
  by (simp add: fun_eq_iff returns_def modP_def)

lemma returns_bind [returns_simps]: "returns (bindP m f) Q = returns m (\<lambda>a. returns (f a) Q)"
  by (simp add: fun_eq_iff returns_def bindP_def split: outcome.splits)

lemma returns_then [returns_simps]: "returns (thenP m m') Q = returns m (\<lambda>_. returns m' Q)"
  by (simp add: thenP_def returns_simps)

lemma returns_failIfFalse [returns_simps]: "returns (failIfFalse b) Q = (\<lambda>s. b \<and> Q () s)"
  by (simp add: fun_eq_iff returns_def failIfFalse_def failP_def retP_def)

lemma returns_failIfError [returns_simps]: "returns failIfError Q = (\<lambda>s. \<not> m_error s \<and> Q () s)"
  by (simp add: failIfError_def returns_simps)

lemma returns_match [returns_simps]: "returns (matchP x) Q = (\<lambda>s. Q (tokenType s = x) s)"
  by (simp add: matchP_def returns_simps)

lemma returns_matchOrFail [returns_simps]: "returns (matchOrFail x) Q = (\<lambda>s. tokenType s = x \<and> Q () s)"
  by (simp add: matchOrFail_def returns_simps)

lemma returns_counters [returns_simps]:
  "returns incNonLHSCount Q = (\<lambda>s. Q () (s\<lparr>m_nonLHSCount := m_nonLHSCount s + 1\<rparr>))"
  "returns incAssignmentCount Q = (\<lambda>s. Q () (s\<lparr>m_assignmentCount := m_assignmentCount s + 1\<rparr>))"
  by (simp_all add: incNonLHSCount_def incAssignmentCount_def returns_simps)

lemma returns_context [returns_simps]:
  "returns (contextP f) Q =
     (\<lambda>s. case f (p_context s) of None \<Rightarrow> False | Some (a, b) \<Rightarrow> Q a (s\<lparr>p_context := b\<rparr>))"
  by (simp add: fun_eq_iff returns_def contextP_def split: option.splits prod.splits)

lemma returns_readContext [returns_simps]:
  "returns (readContextP g) Q = (\<lambda>s. case g (p_context s) of None \<Rightarrow> False | Some a \<Rightarrow> Q a s)"
  by (simp add: fun_eq_iff returns_def readContextP_def split: option.splits)

lemma returns_need [returns_simps]:
  "returns (needP m) Q = returns m (\<lambda>r t. \<exists>x. r = Some x \<and> Q x t)"
proof -
  have "(\<lambda>r. returns (case r of None \<Rightarrow> failP | Some x \<Rightarrow> retP x) Q) = (\<lambda>r t. \<exists>x. r = Some x \<and> Q x t)"
    by (intro ext) (simp add: returns_def failP_def retP_def split: option.splits)
  then show ?thesis by (simp add: needP_def returns_bind)
qed

lemmas returns_flow = returns_ret returns_get returns_mod returns_bind returns_then returns_failIfFalse
  returns_failIfError returns_match returns_matchOrFail returns_counters

lemma returns_assert [returns_simps]: "returns (assertP b) Q = (\<lambda>s. b \<and> Q () s)"
  by (simp add: fun_eq_iff returns_def assertP_def retP_def crashP_def)

lemma returns_function: "returns m Q s \<Longrightarrow> returns (functionP z m) Q s"
  by (simp add: returns_def functionP_def split: outcome.splits)

lemma returns_loop:
  "returns (loopP (Suc n) body a) Q =
     returns (body a) (\<lambda>r t. case r of Inl a' \<Rightarrow> returns (loopP n body a') Q t | Inr b \<Rightarrow> Q b t)"
proof -
  have "(\<lambda>r. returns (case r of Inl a' \<Rightarrow> loopP n body a' | Inr b \<Rightarrow> retP b) Q) =
      (\<lambda>r t. case r of Inl a' \<Rightarrow> returns (loopP n body a') Q t | Inr b \<Rightarrow> Q b t)"
    by (intro ext) (simp add: returns_ret split: sum.splits)
  then show ?thesis by (simp add: returns_bind)
qed

lemma returns_allowIn:
  assumes "m_allowsIn s" and "returns m (\<lambda>a t. m_allowsIn t \<and> Q a t) s"
  shows "returns (allowInOverrideP m) Q s"
proof -
  have same: "t\<lparr>m_allowsIn := True\<rparr> = t" if "m_allowsIn t" for t :: pstate
    using that by (cases t) simp
  obtain a t where "m s = Ret a t" "m_allowsIn t" "Q a t"
    using assms(2) by (auto simp: returns_def split: outcome.splits)
  moreover from this have "allowInOverrideP m s = Ret a t"
    using assms(1) unfolding allowInOverrideP_def same [OF assms(1)] by (simp add: same)
  ultimately show ?thesis by (simp add: returns_def)
qed

subsection \<open>The tokens to come\<close>

text \<open>A token with the characters of its identifier or string.\<close>

type_synonym terminal = "JSTokenType \<times> uchars"

abbreviation sym :: "JSTokenType \<Rightarrow> terminal" where
  "sym t \<equiv> (t, [])"

definition word_chars :: "uchars \<Rightarrow> bool" where
  "word_chars x \<longleftrightarrow> x \<noteq> [] \<and> isIdentStart (hd x) \<and> list_all isIdentPart x"

text \<open>
  The parser is at the token, behind no line terminator, and no error has happened.
\<close>

definition shows_terminal :: "pstate \<Rightarrow> terminal \<Rightarrow> bool" where
  "shows_terminal s k \<longleftrightarrow>
     tokenType s = fst k \<and> (fst k = IDENT \<or> fst k = STRING \<longrightarrow> tokenIdent s = snd k) \<and>
     m_allowsIn s \<and> \<not> m_error s \<and> \<not> m_lexError (m_lexer s) \<and>
     \<not> m_terminator (m_lexer s)"

text \<open>After a dot the parser asks the scanner not to recognise reserved words.\<close>

definition mode_after :: "terminal \<Rightarrow> LexType" where
  "mode_after k = (if fst k = DOT then IgnoreReservedWords else IdentifyReservedWords)"

fun coming :: "pstate \<Rightarrow> terminal list \<Rightarrow> bool" where
  "coming s [] \<longleftrightarrow> True"
| "coming s [k] \<longleftrightarrow> shows_terminal s k"
| "coming s (k # k' # ks) \<longleftrightarrow>
     shows_terminal s k \<and>
     (case nextP_type (mode_after k) s of Ret _ t \<Rightarrow> coming t (k' # ks) | _ \<Rightarrow> False)"

declare coming.simps(3) [simp del]

lemma nextP_type_frame:
  "nextP_type lt (s\<lparr>p_context := c\<rparr>) =
     (case nextP_type lt s of Ret a t \<Rightarrow> Ret a (t\<lparr>p_context := c\<rparr>) | r \<Rightarrow> r)"
  "nextP_type lt (s\<lparr>m_nonLHSCount := k\<rparr>) =
     (case nextP_type lt s of Ret a t \<Rightarrow> Ret a (t\<lparr>m_nonLHSCount := k\<rparr>) | r \<Rightarrow> r)"
  "nextP_type lt (s\<lparr>m_assignmentCount := k\<rparr>) =
     (case nextP_type lt s of Ret a t \<Rightarrow> Ret a (t\<lparr>m_assignmentCount := k\<rparr>) | r \<Rightarrow> r)"
  by (simp_all add: nextP_type_def Let_def split: prod.splits)

lemma nextP_type_keeps:
  assumes "nextP_type lt s = Ret a t"
  shows "p_context t = p_context s" and "m_nonLHSCount t = m_nonLHSCount s"
  using assms by (auto simp: nextP_type_def Let_def split: prod.splits if_splits)

lemma coming_frame [simp]:
  "coming (s\<lparr>p_context := c\<rparr>) ts = coming s ts"
  "coming (s\<lparr>m_nonLHSCount := k\<rparr>) ts = coming s ts"
  "coming (s\<lparr>m_assignmentCount := k\<rparr>) ts = coming s ts"
proof -
  have token: "shows_terminal (s\<lparr>p_context := c\<rparr>) k' = shows_terminal s k'"
    "shows_terminal (s\<lparr>m_nonLHSCount := k\<rparr>) k' = shows_terminal s k'"
    "shows_terminal (s\<lparr>m_assignmentCount := k\<rparr>) k' = shows_terminal s k'" for s c k k'
    by (simp_all add: shows_terminal_def tokenType_def tokenIdent_def)
  show "coming (s\<lparr>p_context := c\<rparr>) ts = coming s ts"
    by (induction s ts rule: coming.induct) (auto simp: token nextP_type_frame coming.simps(3) split: outcome.splits)
  show "coming (s\<lparr>m_nonLHSCount := k\<rparr>) ts = coming s ts"
    by (induction s ts rule: coming.induct) (auto simp: token nextP_type_frame coming.simps(3) split: outcome.splits)
  show "coming (s\<lparr>m_assignmentCount := k\<rparr>) ts = coming s ts"
    by (induction s ts rule: coming.induct) (auto simp: token nextP_type_frame coming.simps(3) split: outcome.splits)
qed

lemma coming_token:
  assumes "coming s (k # ks)"
  shows "tokenType s = fst k" and "m_allowsIn s" and "\<not> m_error s" and "\<not> m_lexError (m_lexer s)"
    and "\<not> m_terminator (m_lexer s)"
    and "fst k = IDENT \<or> fst k = STRING \<Longrightarrow> tokenIdent s = snd k"
  using assms by (cases ks; simp add: shows_terminal_def coming.simps(3))+

subsection \<open>Parsing a list of tokens\<close>

text \<open>
  What a parser function leaves: the tokens after its own, the stacks of the builder as they were,
  and the counter of \<open>m_nonLHSCount\<close>, which stays for an expression that can be assigned to and
  grows for another.
\<close>

definition shape :: "builder \<Rightarrow> AssignmentInfo list \<times> Node list \<times> binaryOperator list \<times> (JSTokenType \<times> nat) list" where
  "shape c = (m_assignmentInfoStack c, map fst (m_binaryOperandStack c), m_binaryOperatorStack c,
     m_unaryTokenStack c)"

definition counted :: "bool \<Rightarrow> int \<Rightarrow> int \<Rightarrow> bool" where
  "counted lhs i j \<longleftrightarrow> (if lhs then j = i else i < j)"

definition leaves :: "pstate \<Rightarrow> bool \<Rightarrow> terminal list \<Rightarrow> pstate \<Rightarrow> bool" where
  "leaves s lhs ks t \<longleftrightarrow>
     coming t ks \<and> shape (p_context t) = shape (p_context s) \<and>
     counted lhs (m_nonLHSCount s) (m_nonLHSCount t)"

text \<open>As \<open>leaves\<close>, where the counter only may not shrink.\<close>

definition passes :: "pstate \<Rightarrow> terminal list \<Rightarrow> pstate \<Rightarrow> bool" where
  "passes s ks t \<longleftrightarrow>
     coming t ks \<and> shape (p_context t) = shape (p_context s) \<and> m_nonLHSCount s \<le> m_nonLHSCount t"

lemma leaves_passes: "leaves s lhs ks t \<Longrightarrow> passes s ks t"
  by (auto simp: leaves_def passes_def counted_def split: if_splits)

lemma leaves_coming: "leaves s lhs ks t \<Longrightarrow> coming t ks"
  by (simp add: leaves_def)

lemma leaves_trans:
  "leaves s True ks t \<Longrightarrow> leaves t lhs ks' u \<Longrightarrow> leaves s lhs ks' u"
  "leaves s lhs ks t \<Longrightarrow> leaves t True ks' u \<Longrightarrow> leaves s lhs ks' u"
  "leaves s False ks t \<Longrightarrow> passes t ks' u \<Longrightarrow> leaves s False ks' u"
  "passes s ks t \<Longrightarrow> leaves t False ks' u \<Longrightarrow> leaves s False ks' u"
  by (auto simp: leaves_def passes_def counted_def split: if_splits)

lemma passes_trans: "passes s ks t \<Longrightarrow> passes t ks' u \<Longrightarrow> passes s ks' u"
  by (auto simp: passes_def)

lemma leaves_frame [simp]:
  "leaves s lhs ks (t\<lparr>m_assignmentCount := k\<rparr>) = leaves s lhs ks t"
  "passes s ks (t\<lparr>m_assignmentCount := k\<rparr>) = passes s ks t"
  by (simp_all add: leaves_def passes_def)

lemma leaves_reset: "passes s ks t \<Longrightarrow> leaves s True ks (t\<lparr>m_nonLHSCount := m_nonLHSCount s\<rparr>)"
  by (simp add: leaves_def passes_def counted_def)

lemma leaves_count: "passes s ks t \<Longrightarrow> leaves s False ks (t\<lparr>m_nonLHSCount := m_nonLHSCount t + 1\<rparr>)"
  by (simp add: leaves_def passes_def counted_def)

lemma passes_refl: "coming s ks \<Longrightarrow> passes s ks s" "coming s ks \<Longrightarrow> leaves s True ks s"
  by (simp_all add: passes_def leaves_def counted_def)

text \<open>The step from one token to the next.\<close>

lemma returns_next_type:
  assumes "coming s (k # ks)" and "ks \<noteq> []" and "lt = mode_after k"
    and "\<And>t. leaves s True ks t \<Longrightarrow> Q () t"
  shows "returns (nextP_type lt) Q s"
proof -
  obtain k' ks' where ks: "ks = k' # ks'" using assms(2) by (cases ks) auto
  then obtain a t where "nextP_type lt s = Ret a t" "coming t ks"
    using assms(1,3) by (auto simp: coming.simps(3) split: outcome.splits)
  then show ?thesis using assms(4) nextP_type_keeps by (simp add: returns_def leaves_def counted_def)
qed

lemma returns_next:
  assumes "coming s (k # ks)" and "ks \<noteq> []" and "fst k \<noteq> DOT"
    and "\<And>t. leaves s True ks t \<Longrightarrow> Q () t"
  shows "returns nextP Q s"
  unfolding nextP_def using assms by (intro returns_next_type [of s k ks]) (simp_all add: mode_after_def)

lemma returns_consume:
  assumes "coming s (k # ks)" and "ks \<noteq> []" and "fst k = x" and "x \<noteq> DOT"
    and "\<And>t. leaves s True ks t \<Longrightarrow> Q True t"
  shows "returns (consumeP x) Q s"
  unfolding consumeP_def using assms coming_token(1) [OF assms(1)]
  by (intro returns_function) (auto simp: returns_simps intro!: returns_next [OF assms(1,2)])

lemma returns_consumeOrFail:
  assumes "coming s (k # ks)" and "ks \<noteq> []" and "fst k = x" and "x \<noteq> DOT"
    and "\<And>t. leaves s True ks t \<Longrightarrow> Q () t"
  shows "returns (consumeOrFail x) Q s"
  unfolding consumeOrFail_def returns_bind returns_failIfFalse
  by (rule returns_consume [OF assms(1-4)]) (use assms(5) in simp)

text \<open>The parser returns \<open>x\<close> for \<open>ts\<close> wherever a token follows that \<open>stop\<close> holds of.\<close>

definition yields :: "treeP \<Rightarrow> bool \<Rightarrow> Node \<Rightarrow> terminal list \<Rightarrow> (JSTokenType \<Rightarrow> bool) \<Rightarrow> bool" where
  "yields p lhs x ts stop \<longleftrightarrow>
     (\<forall>s k ks. coming s (ts @ k # ks) \<longrightarrow> stop (fst k) \<longrightarrow>
        returns p (\<lambda>r t. r = Some x \<and> leaves s lhs (k # ks) t) s)"

lemma yieldsI:
  "(\<And>s k ks. coming s (ts @ k # ks) \<Longrightarrow> stop (fst k) \<Longrightarrow>
      returns p (\<lambda>r t. r = Some x \<and> leaves s lhs (k # ks) t) s) \<Longrightarrow> yields p lhs x ts stop"
  by (simp add: yields_def)

lemma yieldsD:
  assumes "yields p lhs x ts stop" and "coming s (ts @ k # ks)" and "stop (fst k)"
    and "\<And>t. leaves s lhs (k # ks) t \<Longrightarrow> Q (Some x) t"
  shows "returns p Q s"
  using assms unfolding yields_def by (blast intro: returns_mono)

lemma yields_need:
  assumes "yields p lhs x ts stop" and "coming s (ts @ k # ks)" and "stop (fst k)"
    and "\<And>t. leaves s lhs (k # ks) t \<Longrightarrow> Q x t"
  shows "returns (needP p) Q s"
  unfolding returns_need by (rule yieldsD [OF assms(1-3)]) (use assms(4) in simp)

lemma yields_stop: "yields p lhs x ts stop \<Longrightarrow> (\<And>t. stop' t \<Longrightarrow> stop t) \<Longrightarrow> yields p lhs x ts stop'"
  by (simp add: yields_def)

end
