(* ===== verification/TokenText.thy ===== *)
theory TokenText
  imports ParserReturns Literals
begin

text \<open>
  Token lists as text. A token is written with a space in front of it; the scanner, driven by the
  parser, delivers the tokens that a text was written from and \<open>EOFTOK\<close> behind them.
\<close>

subsection \<open>Spelling\<close>

definition word_tokens :: "(string \<times> JSTokenType) list" where
  "word_tokens =
    [(''this'', THISTOKEN), (''null'', NULLTOKEN), (''true'', TRUETOKEN), (''false'', FALSETOKEN),
     (''typeof'', TYPEOF), (''void'', VOIDTOKEN), (''delete'', DELETETOKEN), (''in'', INTOKEN),
     (''instanceof'', INSTANCEOF), (''break'', BREAK), (''continue'', CONTINUE), (''debugger'', DEBUGGER),
     (''do'', DO), (''else'', ELSE), (''if'', IF), (''return'', RETURN), (''throw'', THROW),
     (''var'', VAR), (''while'', WHILE), (''with'', WITH), (''try'', TRY), (''catch'', CATCH),
     (''finally'', FINALLY)]"

definition fixed_tokens :: "(string \<times> JSTokenType) list" where
  "fixed_tokens = word_tokens @ punctuators"

definition spelling :: "JSTokenType \<Rightarrow> string" where
  "spelling t = (case find (\<lambda>(p, t'). t' = t) fixed_tokens of Some (p, _) \<Rightarrow> p | None \<Rightarrow> [])"

fun spell :: "terminal \<Rightarrow> uchars" where
  "spell (t, x) = (if t = IDENT then x else if t = STRING then print_string 34 x else uchars_of (spelling t))"

definition spell_all :: "terminal list \<Rightarrow> uchars" where
  "spell_all ks = concat (map (\<lambda>k. 32 # spell k) ks)"

text \<open>The token is read back where the parser calls the scanner with \<open>lt\<close>.\<close>

fun readable :: "LexType \<Rightarrow> terminal \<Rightarrow> bool" where
  "readable lt (t, x) \<longleftrightarrow>
    (if t = IDENT then word_chars x \<and> (lt = IdentifyReservedWords \<longrightarrow> HashTable_entry x = IDENT)
     else if t = STRING then list_all uchar_ok x
     else lt = IdentifyReservedWords \<and> t \<in> snd ` set fixed_tokens)"

fun readable_all :: "LexType \<Rightarrow> terminal list \<Rightarrow> bool" where
  "readable_all lt [] \<longleftrightarrow> True"
| "readable_all lt (k # ks) \<longleftrightarrow> readable lt k \<and> readable_all (mode_after k) ks"

lemma fixed_tokens_spelled:
  "t \<in> snd ` set fixed_tokens \<Longrightarrow> (spelling t, t) \<in> set fixed_tokens"
proof -
  have "list_all (\<lambda>(p, t). (spelling t, t) \<in> set fixed_tokens) fixed_tokens" by code_simp
  then show "t \<in> snd ` set fixed_tokens \<Longrightarrow> ?thesis" by (auto simp: list_all_iff)
qed

lemma word_tokens_entry:
  "(p, t) \<in> set word_tokens \<Longrightarrow> word_chars (uchars_of p) \<and> HashTable_entry (uchars_of p) = t"
proof -
  have "list_all (\<lambda>(p, t). uchars_of p \<noteq> [] \<and> isIdentStart (hd (uchars_of p)) \<and> list_all isIdentPart (uchars_of p) \<and>
      HashTable_entry (uchars_of p) = t) word_tokens" by code_simp
  then show "(p, t) \<in> set word_tokens \<Longrightarrow> ?thesis" by (auto simp: list_all_iff word_chars_def)
qed

subsection \<open>Reading one token\<close>

text \<open>A text that goes on with a space, or ends, has the punctuators of its first part only.\<close>

lemma prefix_space:
  assumes "32 \<notin> set q" and "rest = [] \<or> hd rest = (32 :: int)"
  shows "prefix q (p @ rest) \<longleftrightarrow> prefix q p"
proof
  assume "prefix q (p @ rest)"
  then show "prefix q p"
  proof (auto simp: prefix_append)
    fix us assume "q = p @ us" "prefix us rest"
    then show "us = []" using assms by (cases us; cases rest) auto
  qed
qed simp

lemma starts_with_space:
  assumes "rest = [] \<or> hd rest = (32 :: int)" and "32 \<notin> set (uchars_of q)"
  shows "starts_with q (p @ rest) \<longleftrightarrow> starts_with q p"
  using prefix_space [OF assms(2,1)] by (simp add: starts_with_def)

lemma punctuators_spelled:
  assumes "(p, t) \<in> set punctuators" and "rest = [] \<or> hd rest = (32 :: int)"
  shows "punctuator_at (uchars_of p @ rest) = Some (p, t)" and "\<not> no_punctuator b (uchars_of p @ rest)"
    and "p \<noteq> []" and "t \<notin> {IDENT, STRING, AUTOPLUSPLUS, AUTOMINUSMINUS}"
proof -
  have table: "list_all (\<lambda>(q, t). 32 \<notin> set (uchars_of q)) punctuators" by code_simp
  have "find (\<lambda>(q, _). starts_with q (uchars_of p @ rest)) qs = find (\<lambda>(q, _). starts_with q (uchars_of p)) qs"
    if "list_all (\<lambda>(q, t). 32 \<notin> set (uchars_of q)) qs" for qs :: "(string \<times> JSTokenType) list"
    using that by (induction qs) (auto simp: starts_with_space [OF assms(2)])
  then have "punctuator_at (uchars_of p @ rest) = punctuator_at (uchars_of p)"
    using table by (simp add: punctuator_at_def)
  moreover have "list_all (\<lambda>(p, t). punctuator_at (uchars_of p) = Some (p, t) \<and> \<not> starts_with ''//'' (uchars_of p) \<and>
      \<not> starts_with ''/*'' (uchars_of p) \<and> \<not> starts_with ''<!--'' (uchars_of p) \<and> \<not> starts_with ''-->'' (uchars_of p) \<and>
      (starts_with ''.'' (uchars_of p) \<longrightarrow> p = ''.'') \<and> p \<noteq> [] \<and>
      t \<notin> {IDENT, STRING, AUTOPLUSPLUS, AUTOMINUSMINUS}) punctuators"
    by code_simp
  ultimately have *: "punctuator_at (uchars_of p @ rest) = Some (p, t)" "\<not> starts_with ''//'' (uchars_of p)"
    "\<not> starts_with ''/*'' (uchars_of p)" "\<not> starts_with ''<!--'' (uchars_of p)" "\<not> starts_with ''-->'' (uchars_of p)"
    "starts_with ''.'' (uchars_of p) \<longrightarrow> p = ''.''" "p \<noteq> []" "t \<notin> {IDENT, STRING, AUTOPLUSPLUS, AUTOMINUSMINUS}"
    using assms(1) by (auto simp: list_all_iff)
  show "punctuator_at (uchars_of p @ rest) = Some (p, t)" "p \<noteq> []" "t \<notin> {IDENT, STRING, AUTOPLUSPLUS, AUTOMINUSMINUS}"
    by (fact *)+
  have "isASCIIDigit 32 = False" by code_simp
  then show "\<not> no_punctuator b (uchars_of p @ rest)"
    using * assms(2) unfolding no_punctuator_def
    by (auto simp: starts_with_space [OF assms(2)] uchars_of_def)
qed

lemma lex_terminal:
  assumes "linv s" and "lclean s" and "unread s = 32 # spell k @ rest" and "rest = [] \<or> hd rest = 32"
    and "readable lt k"
  shows "\<exists>lv ll t. lex ds lt lvalp llocp s = (fst k, lv, ll, t) \<and> linv t \<and> lclean t \<and> \<not> m_terminator t \<and> unread t = rest \<and>
    (fst k = IDENT \<or> fst k = STRING \<longrightarrow> identValue lv = snd k)"
proof -
  obtain ty x where k: "k = (ty, x)" by fastforce
  define u where "u = advance 1 s"
  have u: "linv u" "lclean u" "unread u = spell k @ rest"
    using assms(1-3) by (simp_all add: u_def linv_advance)
  have "isWhiteSpace 32" by code_simp
  then have skip: "lex ds lt lvalp llocp s = lex ds lt lvalp llocp u"
    using lex_white_space_prefix [OF assms(1,2), of "[32]" "spell k @ rest"] assms(3) by (simp add: u_def)
  have part: "\<not> isIdentPart 32" by code_simp
  have word: "\<exists>lv ll t. lex ds lt lvalp llocp u =
      (if lt = IdentifyReservedWords then HashTable_entry w else IDENT, lv, ll, t) \<and>
      linv t \<and> lclean t \<and> \<not> m_terminator t \<and> unread t = rest \<and> identValue lv = w"
    if w: "unread u = w @ rest" "word_chars w" for w
  proof -
    have v: "linv (advance (length w) u)" "lclean (advance (length w) u)" "unread (advance (length w) u) = rest"
      using u(1,2) w(1) by (simp_all add: linv_advance)
    have "rest = [] \<or> (\<not> isIdentPart (hd rest) \<and> hd rest \<noteq> 92)" using assms(4) part by auto
    from lex_word_token [OF u(1,2) w(1) _ _ _ this] w(2) v show ?thesis by (simp add: word_chars_def)
  qed
  consider (ident) "ty = IDENT" | (string) "ty = STRING"
    | (fixed) "ty \<noteq> IDENT" "ty \<noteq> STRING" "lt = IdentifyReservedWords" "(spelling ty, ty) \<in> set fixed_tokens"
    using assms(5) fixed_tokens_spelled [of ty] k by (auto split: if_splits)
  then show ?thesis
  proof cases
    case ident
    then show ?thesis using word [of x] u(3) assms(5) skip by (auto simp: k split: if_splits)
  next
    case string
    let ?n = "length (print_string 34 x)"
    have v: "linv (advance ?n u)" "lclean (advance ?n u)" "unread (advance ?n u) = rest"
      using u string by (simp_all add: k linv_advance)
    then show ?thesis
      using lex_string_token [OF u(1,2), of 34 x rest ds lt lvalp llocp] u(3) assms(5) skip string by (simp add: k)
  next
    case fixed
    show ?thesis
    proof (cases "(spelling ty, ty) \<in> set word_tokens")
      case True
      then show ?thesis
        using word [of "uchars_of (spelling ty)"] word_tokens_entry [OF True] u(3) skip fixed by (auto simp: k)
    next
      case False
      then have p: "(spelling ty, ty) \<in> set punctuators" using fixed(4) by (simp add: fixed_tokens_def)
      let ?p = "spelling ty" and ?u = "u\<lparr>m_terminator := False\<rparr>"
      have r: "unread ?u = uchars_of ?p @ rest" using u(3) fixed by (simp add: k)
      have v: "linv (advance (length ?p) u)" "lclean (advance (length ?p) u)" "unread (advance (length ?p) u) = rest"
        using u r by (simp_all add: linv_advance uchars_of_def)
      have "lex ds lt lvalp llocp u = lex_start ds lt lvalp llocp ?u" using u(2) by (simp add: lex_def lclean_def)
      moreover have "punctuator_at (unread ?u) = Some (?p, ty)" "\<not> no_punctuator (m_atLineStart ?u) (unread ?u)"
        using punctuators_spelled [OF p assms(4)] r by simp_all
      ultimately show ?thesis
        using lex_punctuator_token [of ?u ?p ty ds lt lvalp llocp] u(1) v skip fixed
        by (simp add: k after_line_def)
    qed
  qed
qed

lemma lex_end:
  assumes "linv s" and "lclean s" and "unread s = []"
  shows "lex ds lt lvalp llocp s = (EOFTOK, lvalp, llocp, s\<lparr>m_terminator := False\<rparr>)"
proof -
  have "m_current s = - 1" using unread_Nil [OF assms(1)] assms(3) by simp
  moreover have "\<not> isWhiteSpace (- 1)" by code_simp
  ultimately show ?thesis
    using assms(1,2) skipWhiteSpace_none [of "s\<lparr>m_terminator := False\<rparr>"]
    by (simp add: lex_def lclean_def lex_start.simps [of ds lt lvalp llocp])
qed

subsection \<open>Reading all tokens\<close>

definition reading :: "pstate \<Rightarrow> uchars \<Rightarrow> bool" where
  "reading s txt \<longleftrightarrow> linv (m_lexer s) \<and> lclean (m_lexer s) \<and> unread (m_lexer s) = txt \<and> m_allowsIn s \<and> \<not> m_error s"

lemma setLastLineNumber_keeps [simp]:
  "linv (setLastLineNumber n lx) = linv lx" "lclean (setLastLineNumber n lx) = lclean lx"
  "unread (setLastLineNumber n lx) = unread lx" "m_lexError (setLastLineNumber n lx) = m_lexError lx"
  "m_terminator (setLastLineNumber n lx) = m_terminator lx"
  "setLastLineNumber m (setLastLineNumber n lx) = setLastLineNumber m lx"
  by (simp_all add: setLastLineNumber_def linv_def lclean_def unread_def)

lemma next_terminal:
  assumes "reading s (32 # spell k @ rest)" and "rest = [] \<or> hd rest = 32" and "readable lt k"
  shows "\<exists>t. nextP_type lt s = Ret () t \<and> reading t rest \<and> shows_terminal t k"
proof -
  let ?lx = "setLastLineNumber (tline (m_info (m_token s))) (m_lexer s)"
  obtain lv ll lx where lx: "lex (p_arrays s) lt (m_data (m_token s)) (m_info (m_token s)) ?lx = (fst k, lv, ll, lx)"
    "linv lx" "lclean lx" "\<not> m_terminator lx" "unread lx = rest" "fst k = IDENT \<or> fst k = STRING \<longrightarrow> identValue lv = snd k"
    using lex_terminal [of ?lx k rest lt "p_arrays s" "m_data (m_token s)" "m_info (m_token s)"] assms
    unfolding reading_def by (metis setLastLineNumber_keeps(1-3))
  have "assertsOK lx" "\<not> m_lexError lx" using lx(2,3) by (simp_all add: linv_def lclean_def)
  then show ?thesis
    using assms(1) lx by (auto simp: nextP_type_def Let_def reading_def shows_terminal_def tokenType_def tokenIdent_def)
qed

lemma next_end:
  assumes "reading s []"
  shows "\<exists>t. nextP_type lt s = Ret () t \<and> reading t [] \<and> shows_terminal t (sym EOFTOK)"
proof -
  let ?lx = "setLastLineNumber (tline (m_info (m_token s))) (m_lexer s)"
  have "lex (p_arrays s) lt (m_data (m_token s)) (m_info (m_token s)) ?lx =
      (EOFTOK, m_data (m_token s), m_info (m_token s), ?lx\<lparr>m_terminator := False\<rparr>)"
    using assms by (intro lex_end) (simp_all add: reading_def)
  moreover have "assertsOK ?lx" "\<not> m_lexError ?lx"
    using assms by (simp_all add: reading_def linv_def lclean_def setLastLineNumber_def)
  ultimately show ?thesis
    using assms by (auto simp: nextP_type_def Let_def reading_def shows_terminal_def tokenType_def)
qed

lemma spell_all_start: "spell_all ks = [] \<or> hd (spell_all ks) = 32"
  by (cases ks) (simp_all add: spell_all_def)

lemma text_coming:
  "reading s (spell_all ks) \<Longrightarrow> shows_terminal s k \<Longrightarrow> readable_all (mode_after k) ks \<Longrightarrow>
     coming s (k # ks @ [sym EOFTOK])"
proof (induction ks arbitrary: s k)
  case Nil
  then show ?case using next_end [of s "mode_after k"] by (auto simp: spell_all_def coming.simps(3))
next
  case (Cons k' ks)
  have "reading s (32 # spell k' @ spell_all ks)" using Cons.prems(1) by (simp add: spell_all_def)
  then obtain t where t: "nextP_type (mode_after k) s = Ret () t" "reading t (spell_all ks)" "shows_terminal t k'"
    using next_terminal [of s k' "spell_all ks" "mode_after k"] spell_all_start Cons.prems(3) by auto
  then show ?case using Cons.IH [of t k'] Cons.prems(2,3) by (simp add: coming.simps(3))
qed

lemma coming_setLastLineNumber [simp]:
  "coming (s\<lparr>m_lexer := setLastLineNumber n (m_lexer s)\<rparr>) ts = coming s ts"
proof -
  have token: "shows_terminal (s\<lparr>m_lexer := setLastLineNumber n (m_lexer s)\<rparr>) k = shows_terminal s k" for k
    by (simp add: shows_terminal_def tokenType_def tokenIdent_def)
  have nx: "nextP_type lt (s\<lparr>m_lexer := setLastLineNumber n (m_lexer s)\<rparr>) = nextP_type lt s" for lt
    by (simp add: nextP_type_def Let_def split: prod.splits)
  show ?thesis by (cases "(s, ts)" rule: coming.cases) (simp_all add: token nx coming.simps(3))
qed

text \<open>The constructor of the parser reads the first token.\<close>

definition start_state :: "uchars \<Rightarrow> lexer \<Rightarrow> bool \<Rightarrow> JSToken \<Rightarrow> int list \<Rightarrow> (dbl \<Rightarrow> uchars) \<Rightarrow> pstate" where
  "start_state source lx isValid token0 arrays numberToString =
     JSParser_init (setCode source (lx\<lparr>assertsOK := True\<rparr>)) isValid token0 arrays numberToString"

lemma returns_constructor:
  assumes "list_all uchar_ok (spell_all ks)" and "m_buffer8 lx = []" and "m_buffer16 lx = []"
    and "readable_all IdentifyReservedWords ks"
    and "\<And>t. coming t (ks @ [sym EOFTOK]) \<Longrightarrow> Q () t"
  shows "returns JSParser_ctor Q (start_state (spell_all ks) lx isValid token0 arrays numberToString)"
proof -
  let ?s = "start_state (spell_all ks) lx isValid token0 arrays numberToString"
  have r: "reading ?s (spell_all ks)"
    using setCode_ok [of "spell_all ks" "lx\<lparr>assertsOK := True\<rparr>"] assms(1-3)
    by (simp add: reading_def start_state_def JSParser_init_def setCode_def unread_def)
  have "\<exists>t. nextP_type IdentifyReservedWords ?s = Ret () t \<and> coming t (ks @ [sym EOFTOK])"
  proof (cases ks)
    case Nil
    then show ?thesis using next_end [of ?s IdentifyReservedWords] r by (auto simp: spell_all_def)
  next
    case (Cons k ks')
    then have "reading ?s (32 # spell k @ spell_all ks')" using r by (simp add: spell_all_def)
    from next_terminal [OF this spell_all_start, of IdentifyReservedWords] assms(4) Cons text_coming show ?thesis
      by fastforce
  qed
  then show ?thesis
    using assms(5) by (auto simp: JSParser_ctor_def returns_simps nextP_def intro!: returns_Ret)
qed

end
