(* ===== verification/ExpressionGrammar.thy ===== *)
theory ExpressionGrammar
  imports ParserReturns
begin

text \<open>
  The expressions of the language with the tokens they are written as: parentheses stand exactly
  where the levels of the grammar ask for them. The parser of expressions returns the tree of the
  expression that its tokens were written from.
\<close>

subsection \<open>Expressions\<close>

datatype expr =
    Name uchars
  | Keyword JSTokenType
  | Text uchars
  | Group expr
  | Dot expr uchars
  | Index expr expr
  | Call expr "expr list"
  | Postfix expr JSTokenType
  | Prefix JSTokenType expr
  | Binary expr JSTokenType expr
  | Conditional expr expr expr
  | Assign expr JSTokenType expr
  | Comma expr expr "expr list"

fun binary_level :: "JSTokenType \<Rightarrow> nat" where
  "binary_level OROR = 1"
| "binary_level ANDAND = 2"
| "binary_level BITOR = 3"
| "binary_level BITXOR = 4"
| "binary_level BITAND = 5"
| "binary_level EQEQ = 6"
| "binary_level NE = 6"
| "binary_level STREQ = 6"
| "binary_level STRNEQ = 6"
| "binary_level LT = 7"
| "binary_level GT = 7"
| "binary_level LE = 7"
| "binary_level GE = 7"
| "binary_level INSTANCEOF = 7"
| "binary_level INTOKEN = 7"
| "binary_level LSHIFT = 8"
| "binary_level RSHIFT = 8"
| "binary_level URSHIFT = 8"
| "binary_level PLUS = 9"
| "binary_level MINUS = 9"
| "binary_level TIMES = 10"
| "binary_level DIVIDE = 10"
| "binary_level MOD = 10"
| "binary_level _ = 0"

text \<open>The level of an expression: 0 for the comma, 15 for what needs no parentheses anywhere.\<close>

fun level :: "expr \<Rightarrow> nat" where
  "level (Comma a b cs) = 0"
| "level (Assign l t r) = 1"
| "level (Conditional c a b) = 2"
| "level (Binary l t r) = 2 + binary_level t"
| "level (Prefix t e) = 13"
| "level (Postfix e t) = 14"
| "level _ = 15"

definition paren :: "bool \<Rightarrow> terminal list \<Rightarrow> terminal list" where
  "paren b ts = (if b then sym OPENPAREN # ts @ [sym CLOSEPAREN] else ts)"

fun commas :: "terminal list list \<Rightarrow> terminal list" where
  "commas [] = []"
| "commas (x # xs) = x @ concat (map (\<lambda>y. sym COMMA # y) xs)"

text \<open>The tokens of an expression; an operand below the level of its place is put in parentheses.\<close>

fun body :: "expr \<Rightarrow> terminal list" where
  "body (Name x) = [(IDENT, x)]"
| "body (Keyword t) = [sym t]"
| "body (Text cs) = [(STRING, cs)]"
| "body (Group e) = paren True (body e)"
| "body (Dot b x) = paren (level b < 15) (body b) @ [sym DOT, (IDENT, x)]"
| "body (Index b i) = paren (level b < 15) (body b) @ sym OPENBRACKET # body i @ [sym CLOSEBRACKET]"
| "body (Call f as) = paren (level f < 15) (body f) @
     sym OPENPAREN # commas (map (\<lambda>a. paren (level a < 1) (body a)) as) @ [sym CLOSEPAREN]"
| "body (Postfix e t) = paren (level e < 15) (body e) @ [sym t]"
| "body (Prefix t e) = sym t # paren (level e < 13) (body e)"
| "body (Binary l t r) = paren (level l < 2 + binary_level t) (body l) @
     sym t # paren (level r < 3 + binary_level t) (body r)"
| "body (Conditional c a b) = paren (level c < 3) (body c) @
     sym QUESTION # paren (level a < 1) (body a) @ sym COLON # paren (level b < 1) (body b)"
| "body (Assign l t r) = paren (level l < 15) (body l) @ sym t # paren (level r < 1) (body r)"
| "body (Comma a b cs) = commas (paren (level a < 1) (body a) # paren (level b < 1) (body b) #
     map (\<lambda>c. paren (level c < 1) (body c)) cs)"

definition wrap :: "nat \<Rightarrow> expr \<Rightarrow> terminal list" where
  "wrap p e = paren (level e < p) (body e)"

lemma body_wrap:
  "body (Group e) = sym OPENPAREN # body e @ [sym CLOSEPAREN]"
  "body (Dot b x) = wrap 15 b @ [sym DOT, (IDENT, x)]"
  "body (Index b i) = wrap 15 b @ sym OPENBRACKET # body i @ [sym CLOSEBRACKET]"
  "body (Call f as) = wrap 15 f @ sym OPENPAREN # commas (map (wrap 1) as) @ [sym CLOSEPAREN]"
  "body (Postfix e t) = wrap 15 e @ [sym t]"
  "body (Prefix t e) = sym t # wrap 13 e"
  "body (Binary l t r) = wrap (2 + binary_level t) l @ sym t # wrap (3 + binary_level t) r"
  "body (Conditional c a b) = wrap 3 c @ sym QUESTION # wrap 1 a @ sym COLON # wrap 1 b"
  "body (Assign l t r) = wrap 15 l @ sym t # wrap 1 r"
  "body (Comma a b cs) = commas (wrap 1 a # wrap 1 b # map (wrap 1) cs)"
  by (simp_all add: wrap_def [abs_def] paren_def [of True])

declare body.simps(4-13) [simp del]

text \<open>The tree of an expression, in terms of the functions that create nodes.\<close>

definition keyword_node :: "JSTokenType \<Rightarrow> Node" where
  "keyword_node t =
    (if t = THISTOKEN then thisExpr else if t = NULLTOKEN then createNull else createBoolean (t = TRUETOKEN))"

definition prefix_node :: "JSTokenType \<Rightarrow> Node \<Rightarrow> Node" where
  "prefix_node t x =
    (case t of
       EXCLAMATION \<Rightarrow> createLogicalNot x
     | TILDE \<Rightarrow> makeBitwiseNotNode x
     | MINUS \<Rightarrow> makeNegateNode x
     | PLUS \<Rightarrow> createUnaryPlus x
     | PLUSPLUS \<Rightarrow> makePrefixNode x OpPlusPlus
     | MINUSMINUS \<Rightarrow> makePrefixNode x OpMinusMinus
     | TYPEOF \<Rightarrow> makeTypeOfNode x
     | VOIDTOKEN \<Rightarrow> createVoid x
     | _ \<Rightarrow> makeDeleteNode x)"

definition binary_node :: "JSTokenType \<Rightarrow> Node \<Rightarrow> Node \<Rightarrow> Node" where
  "binary_node t l r =
    append_child (append_child (Node_op BinaryExpressionType (the (convertOperator_token t))) (Some l)) (Some r)"

definition assign_node :: "Operator \<Rightarrow> Node \<Rightarrow> Node \<Rightarrow> Node" where
  "assign_node op l r =
    append_child (append_child (Node_op AssignmentExpressionType (convertOperator op)) (Some l)) (Some r)"

fun arguments_node :: "Node list \<Rightarrow> Node" where
  "arguments_node [] = createArguments None"
| "arguments_node (x # xs) = createArguments (Some (foldl createArgumentsList2 (createArgumentsList x) xs))"

fun node :: "expr \<Rightarrow> Node" where
  "node (Name x) = createResolve x"
| "node (Keyword t) = keyword_node t"
| "node (Text cs) = createString cs"
| "node (Group e) = node e"
| "node (Dot b x) = createDotAccess (node b) x"
| "node (Index b i) = createBracketAccess (node b) (node i)"
| "node (Call f as) = makeFunctionCallNode (node f) (arguments_node (map node as))"
| "node (Postfix e t) = makePostfixNode (node e) (if t = PLUSPLUS then OpPlusPlus else OpMinusMinus)"
| "node (Prefix t e) = prefix_node t (node e)"
| "node (Binary l t r) = binary_node t (node l) (node r)"
| "node (Conditional c a b) = createConditionalExpr (node c) (Some (node a)) (node b)"
| "node (Assign l t r) = assign_node (the (assignmentOperator t)) (node l) (node r)"
| "node (Comma a b cs) = foldl appendToComma (createCommaExpr (node a) (node b)) (map node cs)"

definition prefix_operators :: "JSTokenType list" where
  "prefix_operators =
    [EXCLAMATION, TILDE, MINUS, PLUS, PLUSPLUS, MINUSMINUS, TYPEOF, VOIDTOKEN, DELETETOKEN]"

text \<open>
  The tokens are those of their places; names are words of the language without escapes, and only
  behind a dot may they be reserved.
\<close>

fun well_formed :: "expr \<Rightarrow> bool" where
  "well_formed (Name x) \<longleftrightarrow> word_chars x \<and> HashTable_entry x = IDENT"
| "well_formed (Keyword t) \<longleftrightarrow> t \<in> {THISTOKEN, NULLTOKEN, TRUETOKEN, FALSETOKEN}"
| "well_formed (Text cs) \<longleftrightarrow> list_all uchar_ok cs"
| "well_formed (Group e) \<longleftrightarrow> well_formed e"
| "well_formed (Dot b x) \<longleftrightarrow> well_formed b \<and> word_chars x"
| "well_formed (Index b i) \<longleftrightarrow> well_formed b \<and> well_formed i"
| "well_formed (Call f as) \<longleftrightarrow> well_formed f \<and> list_all well_formed as"
| "well_formed (Postfix e t) \<longleftrightarrow> well_formed e \<and> t \<in> {PLUSPLUS, MINUSMINUS}"
| "well_formed (Prefix t e) \<longleftrightarrow> t \<in> set prefix_operators \<and> well_formed e"
| "well_formed (Binary l t r) \<longleftrightarrow> binary_level t \<noteq> 0 \<and> well_formed l \<and> well_formed r"
| "well_formed (Conditional c a b) \<longleftrightarrow> well_formed c \<and> well_formed a \<and> well_formed b"
| "well_formed (Assign l t r) \<longleftrightarrow> assignmentOperator t \<noteq> None \<and> well_formed l \<and> well_formed r"
| "well_formed (Comma a b cs) \<longleftrightarrow> well_formed a \<and> well_formed b \<and> list_all well_formed cs"

text \<open>What the tokens of a place can be assigned to: the code only looks at its counter.\<close>

definition assignable :: "nat \<Rightarrow> expr \<Rightarrow> bool" where
  "assignable p e \<longleftrightarrow> level e < p \<or> level e = 15"

subsection \<open>First and following tokens\<close>

lemma binary_level_le: "binary_level t \<le> 10"
  by (cases t) simp_all

lemma binary_level_bounds [simp]:
  "binary_level t < 11" "binary_level t < 12" "binary_level t < 13" "binary_level t \<noteq> 11" "binary_level t \<noteq> 12" "binary_level t \<noteq> 13"
  using binary_level_le [of t] by simp_all

lemma binary_precedence: "isBinaryOperator True t = 4096 * int (binary_level t)"
  by (induction t; code_simp)

abbreviation ends_member :: "JSTokenType \<Rightarrow> bool" where
  "ends_member t \<equiv> t \<notin> {OPENBRACKET, OPENPAREN, DOT}"

abbreviation ends_unary :: "JSTokenType \<Rightarrow> bool" where
  "ends_unary t \<equiv> ends_member t \<and> t \<notin> {PLUSPLUS, MINUSMINUS}"

abbreviation ends_binary :: "JSTokenType \<Rightarrow> bool" where
  "ends_binary t \<equiv> ends_unary t \<and> binary_level t = 0"

abbreviation ends_conditional :: "JSTokenType \<Rightarrow> bool" where
  "ends_conditional t \<equiv> ends_binary t \<and> t \<noteq> QUESTION"

abbreviation ends_assignment :: "JSTokenType \<Rightarrow> bool" where
  "ends_assignment t \<equiv> ends_conditional t \<and> assignmentOperator t = None"

abbreviation ends_expression :: "JSTokenType \<Rightarrow> bool" where
  "ends_expression t \<equiv> ends_assignment t \<and> t \<noteq> COMMA"

lemma binary_operator_ends: "binary_level t \<noteq> 0 \<Longrightarrow> ends_unary t"
  by (cases t) simp_all

lemma assignment_operator_ends: "assignmentOperator t \<noteq> None \<Longrightarrow> ends_conditional t"
  by (cases t) (simp_all add: assignmentOperator_def)

lemma assignmentOperator_None [simp]:
  "assignmentOperator COMMA = None" "assignmentOperator CLOSEPAREN = None" "assignmentOperator CLOSEBRACKET = None"
  "assignmentOperator COLON = None" "assignmentOperator SEMICOLON = None"
  by (simp_all add: assignmentOperator_def)

definition primary_start :: "JSTokenType list" where
  "primary_start = [IDENT, STRING, THISTOKEN, NULLTOKEN, TRUETOKEN, FALSETOKEN, OPENPAREN]"

lemma wrap_cases:
  obtains "level e < p" "wrap p e = sym OPENPAREN # body e @ [sym CLOSEPAREN]" | "p \<le> level e" "wrap p e = body e"
  by (cases "level e < p") (auto simp: wrap_def paren_def)

lemma paren_start: "\<exists>k ks. ts = k # ks \<and> fst k \<in> set primary_start \<Longrightarrow>
    \<exists>k ks. paren b ts @ us = k # ks \<and> fst k \<in> set primary_start"
  by (auto simp: paren_def primary_start_def)

lemma wrap_member_start:
  "well_formed e \<Longrightarrow> \<exists>k ks. wrap 15 e = k # ks \<and> fst k \<in> set primary_start"
proof (induction e)
  case (Dot b x)
  then show ?case by (auto simp: wrap_def [of _ "Dot b x"] paren_def body_wrap)
next
  case (Index b i)
  then show ?case by (auto simp: wrap_def [of _ "Index b i"] paren_def body_wrap)
next
  case (Call f as)
  then show ?case by (auto simp: wrap_def [of _ "Call f as"] paren_def body_wrap)
next
  case (Binary l t r)
  then show ?case using binary_level_le [of t] by (simp add: wrap_def paren_def primary_start_def)
qed (auto simp: wrap_def paren_def primary_start_def body_wrap)

subsection \<open>Primary expressions\<close>

text \<open>
  What is known of the function one call deeper: it parses what is shorter than the fuel \<open>n\<close>.
\<close>

definition assignments_ok :: "nat \<Rightarrow> treeP \<Rightarrow> bool" where
  "assignments_ok n pa \<longleftrightarrow>
     (\<forall>e. well_formed e \<longrightarrow> length (wrap 1 e) < n \<longrightarrow>
        yields pa (assignable 1 e) (node e) (wrap 1 e) ends_assignment)"

definition expressions_ok :: "nat \<Rightarrow> treeP \<Rightarrow> bool" where
  "expressions_ok n pe \<longleftrightarrow>
     (\<forall>e. well_formed e \<longrightarrow> length (body e) < n \<longrightarrow>
        yields pe (assignable 0 e) (node e) (body e) ends_expression)"

lemma primary_name: "yields (parsePrimaryExpression n ps pa) True (createResolve x) [(IDENT, x)] (\<lambda>_. True)"
proof (rule yieldsI)
  fix s k ks assume c: "coming s ([(IDENT, x)] @ k # ks)"
  then show "returns (parsePrimaryExpression n ps pa) (\<lambda>r t. r = Some (createResolve x) \<and> leaves s True (k # ks) t) s"
    unfolding parsePrimaryExpression_def
    by (intro returns_function) (auto simp: returns_simps coming_token intro!: returns_next)
qed

lemma primary_text: "yields (parsePrimaryExpression n ps pa) True (createString cs) [(STRING, cs)] (\<lambda>_. True)"
proof (rule yieldsI)
  fix s k ks assume c: "coming s ([(STRING, cs)] @ k # ks)"
  then show "returns (parsePrimaryExpression n ps pa) (\<lambda>r t. r = Some (createString cs) \<and> leaves s True (k # ks) t) s"
    unfolding parsePrimaryExpression_def
    by (intro returns_function) (auto simp: returns_simps coming_token intro!: returns_next)
qed

lemma primary_keyword:
  assumes "t \<in> {THISTOKEN, NULLTOKEN, TRUETOKEN, FALSETOKEN}"
  shows "yields (parsePrimaryExpression n ps pa) True (keyword_node t) [sym t] (\<lambda>_. True)"
proof (rule yieldsI)
  fix s k ks assume c: "coming s ([sym t] @ k # ks)"
  then show "returns (parsePrimaryExpression n ps pa) (\<lambda>r t'. r = Some (keyword_node t) \<and> leaves s True (k # ks) t') s"
    unfolding parsePrimaryExpression_def using assms
    by (intro returns_function) (auto simp: returns_simps coming_token keyword_node_def intro!: returns_next)
qed

lemma primary_group:
  assumes "yields (parseExpression n pa) lhs x ts ends_expression"
  shows "yields (parsePrimaryExpression n ps pa) True x (sym OPENPAREN # ts @ [sym CLOSEPAREN]) (\<lambda>_. True)"
proof (rule yieldsI)
  fix s k ks
  assume "coming s ((sym OPENPAREN # ts @ [sym CLOSEPAREN]) @ k # ks)"
  then have c: "coming s (sym OPENPAREN # ts @ sym CLOSEPAREN # k # ks)" by simp
  have "returns (consumeOrFail CLOSEPAREN) (\<lambda>_ v. leaves s True (k # ks) v) (u\<lparr>m_nonLHSCount := m_nonLHSCount t\<rparr>)"
    if t: "leaves s True (ts @ sym CLOSEPAREN # k # ks) t" and u: "leaves t lhs (sym CLOSEPAREN # k # ks) u" for t u
  proof -
    have "leaves t True (sym CLOSEPAREN # k # ks) (u\<lparr>m_nonLHSCount := m_nonLHSCount t\<rparr>)"
      using u by (intro leaves_reset leaves_passes)
    then show ?thesis
      by (intro returns_consumeOrFail [OF leaves_coming]) (auto intro: leaves_trans(1) t)
  qed
  then show "returns (parsePrimaryExpression n ps pa) (\<lambda>r t. r = Some x \<and> leaves s True (k # ks) t) s"
    unfolding parsePrimaryExpression_def
    apply (intro returns_function)
    apply (simp add: returns_simps coming_token(1) [OF c])
    apply (rule returns_next [OF c], simp, simp)
    apply (rule yieldsD [OF assms leaves_coming], assumption)
     apply simp_all
    done
qed


subsection \<open>Lists of expressions\<close>

text \<open>
  The loops of \<open>parseExpression\<close> and \<open>parseArguments\<close>: \<open>f\<close> puts one more expression on the result
  \<open>acc\<close>, \<open>g\<close> ends it.
\<close>

abbreviation comma_loop :: "treeP \<Rightarrow> (Node \<Rightarrow> Node \<Rightarrow> Node) \<Rightarrow> (Node \<Rightarrow> 'a) \<Rightarrow> Node \<Rightarrow> (Node + 'a) parser" where
  "comma_loop pa f g acc \<equiv>
     bindP (matchP COMMA) (\<lambda>comma.
     if comma then thenP nextP (bindP (needP pa) (\<lambda>x. retP (Inl (f acc x))))
     else retP (Inr (g acc)))"

lemma commas_append: "commas (x # xs) = x @ concat (map (\<lambda>y. sym COMMA # y) xs)"
  by simp

lemma returns_comma_loop:
  assumes "list_all (\<lambda>e. yields pa (assignable 1 e) (node e) (wrap 1 e) ends_assignment) es"
    and "coming s (concat (map (\<lambda>y. sym COMMA # y) (map (wrap 1) es)) @ k # ks)"
    and "ends_expression (fst k)" and "length es < n"
    and "\<And>t. passes s (k # ks) t \<Longrightarrow> Q (g (foldl f acc (map node es))) t"
  shows "returns (loopP n (comma_loop pa f g) acc) Q s"
  using assms
proof (induction es arbitrary: s acc n)
  case Nil
  obtain m where n: "n = Suc m" using Nil.prems(4) by (cases n) auto
  have "coming s (k # ks)" using Nil.prems(2) by simp
  then show ?case
    using Nil.prems(3) Nil.prems(5) [of s] passes_refl
    by (simp add: n returns_loop returns_simps coming_token)
next
  case (Cons e es)
  obtain m where n: "n = Suc m" using Cons.prems(4) by (cases n) auto
  let ?rest = "concat (map (\<lambda>y. sym COMMA # y) (map (wrap 1) es)) @ k # ks"
  have c: "coming s (sym COMMA # wrap 1 e @ ?rest)" using Cons.prems(2) by simp
  obtain k' ks' where r: "?rest = k' # ks'" "ends_assignment (fst k')"
    using Cons.prems(3) by (cases es) (auto simp: assignmentOperator_def)
  have e: "yields pa (assignable 1 e) (node e) (wrap 1 e) ends_assignment" using Cons.prems(1) by simp
  have loop: "returns (loopP m (comma_loop pa f g) (f acc (node e))) Q u"
    if t: "leaves s True (wrap 1 e @ ?rest) t" and u: "leaves t (assignable 1 e) (k' # ks') u" for t u
  proof (rule Cons.IH)
    have su: "passes s ?rest u"
      using passes_trans [OF leaves_passes [OF t] leaves_passes [OF u]] r(1) by simp
    then show "coming u ?rest" by (simp add: passes_def)
    show "Q (g (foldl f (f acc (node e)) (map node es))) v" if "passes u (k # ks) v" for v
      using Cons.prems(5) [OF passes_trans [OF su that]] by simp
  qed (use Cons.prems n in simp_all)
  have need: "returns (needP pa) (\<lambda>x. returns (loopP m (comma_loop pa f g) (f acc x)) Q) t"
    if t: "leaves s True (wrap 1 e @ ?rest) t" for t
    by (rule yields_need [OF e]) (use leaves_coming [OF t] r loop [OF t] in simp_all)
  have "returns nextP (\<lambda>_. returns (needP pa) (\<lambda>x. returns (loopP m (comma_loop pa f g) (f acc x)) Q)) s"
    by (rule returns_next [OF c]) (use need in simp_all)
  then show ?case
    using coming_token(1) [OF c] by (simp add: n returns_loop returns_simps)
qed

lemma wrap_nonempty: "wrap p e \<noteq> []"
  by (cases e) (auto simp: wrap_def paren_def body_wrap)

lemma length_commas: "length xs \<le> length (commas (map (wrap p) xs))" 
proof (cases xs)
  case (Cons y ys)
  have "length ys \<le> length (concat (map (\<lambda>z. sym COMMA # z) (map (wrap p) ys)))" by (induction ys) auto
  then show ?thesis using wrap_nonempty [of p y] Cons by (cases "wrap p y") auto
qed simp

lemma length_in_commas: "x \<in> set xs \<Longrightarrow> length x \<le> length (commas xs)"
proof (cases xs)
  case (Cons y ys)
  have "z \<in> set ys \<Longrightarrow> length z \<le> length (concat (map (\<lambda>z. sym COMMA # z) ys))" for z
    by (induction ys) auto
  then show "x \<in> set xs \<Longrightarrow> ?thesis" using Cons by fastforce
qed simp

lemma assignments_in_commas:
  assumes "assignments_ok n pa" and "list_all well_formed es" and "length (commas (map (wrap 1) es)) < n"
  shows "list_all (\<lambda>e. yields pa (assignable 1 e) (node e) (wrap 1 e) ends_assignment) es"
proof -
  have "length (wrap 1 e) < n" if "e \<in> set es" for e
    using length_in_commas [of "wrap 1 e" "map (wrap 1) es"] assms(3) that by simp
  then show ?thesis using assms(1,2) by (auto simp: assignments_ok_def list_all_iff)
qed

text \<open>\<open>parseExpression\<close>, from the function for the parts.\<close>

lemma expressions_from_assignments:
  assumes "assignments_ok n pa"
  shows "expressions_ok n (parseExpression n pa)"
  unfolding expressions_ok_def
proof (intro allI impI)
  fix e assume e: "well_formed e" "length (body e) < n"
  show "yields (parseExpression n pa) (assignable 0 e) (node e) (body e) ends_expression"
  proof (cases "level e = 0")
    case False
    then have b: "body e = wrap 1 e" "assignable 0 e = assignable 1 e"
      by (auto simp: wrap_def paren_def assignable_def)
    have y: "yields pa (assignable 0 e) (node e) (body e) ends_assignment"
      using assms e unfolding assignments_ok_def b by simp
    show ?thesis
    proof (rule yieldsI)
      fix s k ks assume c: "coming s (body e @ k # ks)" "ends_expression (fst k)"
      show "returns (parseExpression n pa) (\<lambda>r t. r = Some (node e) \<and> leaves s (assignable 0 e) (k # ks) t) s"
        unfolding parseExpression_def returns_bind
        by (intro returns_function, unfold returns_bind, rule yields_need [OF y c(1)])
           (use c(2) in \<open>auto simp: returns_simps coming_token [OF leaves_coming]\<close>)
    qed
  next
    case True
    then obtain a b cs where abc: "e = Comma a b cs" by (cases e) auto
    let ?rest = "concat (map (\<lambda>y. sym COMMA # y) (map (wrap 1) cs))"
    have len: "length (wrap 1 a) < n" "length (wrap 1 b) < n" "length (commas (map (wrap 1) cs)) < n" "length cs < n"
    proof -
      have "length (commas (map (wrap 1) cs)) \<le> length ?rest" by (cases cs) simp_all
      moreover have "length cs \<le> length (commas (map (wrap 1) cs))" by (rule length_commas)
      ultimately show "length (wrap 1 a) < n" "length (wrap 1 b) < n" "length (commas (map (wrap 1) cs)) < n"
        "length cs < n"
        using e(2) by (simp_all add: abc body_wrap)
    qed
    have y: "yields pa (assignable 1 a) (node a) (wrap 1 a) ends_assignment"
      "yields pa (assignable 1 b) (node b) (wrap 1 b) ends_assignment"
      "list_all (\<lambda>e. yields pa (assignable 1 e) (node e) (wrap 1 e) ends_assignment) cs"
      using assms e(1) len assignments_in_commas [OF assms] by (simp_all add: abc assignments_ok_def)
    show ?thesis
    proof (rule yieldsI)
      fix s k ks assume c: "coming s (body e @ k # ks)" "ends_expression (fst k)"
      then have ca: "coming s (wrap 1 a @ sym COMMA # wrap 1 b @ ?rest @ k # ks)" 
        by (simp add: abc body_wrap)
      obtain k' ks' where r: "?rest @ k # ks = k' # ks'" "ends_assignment (fst k')"
        using c(2) by (cases cs) (auto simp: assignmentOperator_def)
      have loop: "returns (loopP n (comma_loop pa appendToComma Some) (createCommaExpr (node a) (node b)))
          (\<lambda>r v. r = Some (node e) \<and> leaves s (assignable 0 e) (k # ks) v) v"
        if v: "leaves s False (?rest @ k # ks) v" for v
        by (rule returns_comma_loop [OF y(3) leaves_coming [OF v] c(2) len(4)])
           (use leaves_trans(3) [OF v] in \<open>simp add: abc assignable_def\<close>)
      show "returns (parseExpression n pa) (\<lambda>r t. r = Some (node e) \<and> leaves s (assignable 0 e) (k # ks) t) s"
        unfolding parseExpression_def
      proof (intro returns_function, simp only: returns_simps, rule yieldsD [OF y(1) ca], goal_cases)
        case (2 t)
        note t = 2
        have ct: "coming t (sym COMMA # wrap 1 b @ ?rest @ k # ks)" by (rule leaves_coming [OF t])
        have step: "returns nextP (\<lambda>_ u. returns (needP pa)
            (\<lambda>x. returns (loopP n (comma_loop pa appendToComma Some) (createCommaExpr (node a) x))
              (\<lambda>r v. r = Some (node e) \<and> leaves s (assignable 0 e) (k # ks) v))
            (u\<lparr>m_nonLHSCount := m_nonLHSCount u + 1\<rparr>)) t"
        proof (rule returns_next [OF ct])
          fix u assume u: "leaves t True (wrap 1 b @ ?rest @ k # ks) u"
          let ?u = "u\<lparr>m_nonLHSCount := m_nonLHSCount u + 1\<rparr>"
          have su: "leaves s False (wrap 1 b @ ?rest @ k # ks) ?u"
            by (rule leaves_trans(4) [OF leaves_passes [OF t] leaves_count])
              (use u in \<open>simp add: leaves_def passes_def counted_def\<close>)
          show "returns (needP pa) (\<lambda>x. returns (loopP n (comma_loop pa appendToComma Some) (createCommaExpr (node a) x))
              (\<lambda>r v. r = Some (node e) \<and> leaves s (assignable 0 e) (k # ks) v)) ?u"
          proof (rule yields_need [OF y(2)])
            show "coming ?u (wrap 1 b @ k' # ks')" using leaves_coming [OF su] r(1) by simp
            show "returns (loopP n (comma_loop pa appendToComma Some) (createCommaExpr (node a) (node b)))
                (\<lambda>r v. r = Some (node e) \<and> leaves s (assignable 0 e) (k # ks) v) v"
              if "leaves ?u (assignable 1 b) (k' # ks') v" for v
              by (rule loop) (use leaves_trans(3) [OF su leaves_passes [OF that]] r(1) in simp)
          qed (rule r(2))
        qed simp_all
        then show ?case
          using coming_token(1) [OF ct] by (simp add: returns_simps)
      qed simp
    qed
  qed
qed

subsection \<open>Arguments\<close>

abbreviation expression_start :: "JSTokenType list" where
  "expression_start \<equiv> primary_start @ prefix_operators"

lemma wrap_start: "well_formed e \<Longrightarrow> \<exists>k ks. wrap p e = k # ks \<and> fst k \<in> set expression_start"
proof (induction e arbitrary: p)
  case (Call f as)
  from Call.prems Call.IH(1) [of 15] show ?case
    by (auto simp: wrap_def [of _ "Call f as"] paren_def body_wrap primary_start_def)
next
  case (Comma a b cs)
  from Comma.prems Comma.IH(1) [of 1] show ?case
    by (auto simp: wrap_def [of _ "Comma a b cs"] paren_def body_wrap primary_start_def)
next
  case (Dot b x)
  from Dot.prems Dot.IH [of 15] show ?case
    by (auto simp: wrap_def [of _ "Dot b x"] paren_def body_wrap primary_start_def)
next
  case (Index b i)
  from Index.prems Index.IH(1) [of 15] show ?case
    by (auto simp: wrap_def [of _ "Index b i"] paren_def body_wrap primary_start_def)
next
  case (Postfix e t)
  from Postfix.prems Postfix.IH [of 15] show ?case
    by (auto simp: wrap_def [of _ "Postfix e t"] paren_def body_wrap primary_start_def)
next
  case (Binary l t r)
  from Binary.prems Binary.IH(1) [of "2 + binary_level t"] show ?case
    by (auto simp: wrap_def [of _ "Binary l t r"] paren_def body_wrap primary_start_def)
next
  case (Conditional c a b)
  from Conditional.prems Conditional.IH(1) [of 3] show ?case
    by (auto simp: wrap_def [of _ "Conditional c a b"] paren_def body_wrap primary_start_def)
next
  case (Assign l t r)
  from Assign.prems Assign.IH(1) [of 15] show ?case
    by (auto simp: wrap_def [of _ "Assign l t r"] paren_def body_wrap primary_start_def)
qed (auto simp: wrap_def paren_def primary_start_def body_wrap)

lemma returns_arguments:
  assumes "assignments_ok n pa" and "list_all well_formed as" and "length (commas (map (wrap 1) as)) < n"
    and "coming s (sym OPENPAREN # commas (map (wrap 1) as) @ sym CLOSEPAREN # k # ks)"
    and "\<And>t. passes s (k # ks) t \<Longrightarrow> Q (arguments_node (map node as)) t"
  shows "returns (needP (parseArguments n pa)) Q s"
proof (cases as)
  case Nil
  then have c: "coming s (sym OPENPAREN # sym CLOSEPAREN # k # ks)" using assms(4) by simp
  have q: "Q (createArguments None) u" if "leaves s True (k # ks) u" for u
    using assms(5) [OF leaves_passes [OF that]] Nil by simp
  have "returns nextP (\<lambda>_. Q (createArguments None)) t" if t: "leaves s True (sym CLOSEPAREN # k # ks) t" for t
    using q leaves_trans(1) [OF t] by (intro returns_next [OF leaves_coming [OF t]]) simp_all
  then show ?thesis
    unfolding parseArguments_def returns_need
    by (intro returns_function) (auto simp: returns_simps coming_token [OF leaves_coming] intro!: returns_consumeOrFail [OF c])
next
  case (Cons a bs)
  let ?rest = "concat (map (\<lambda>y. sym COMMA # y) (map (wrap 1) bs)) @ sym CLOSEPAREN # k # ks"
  have c: "coming s (sym OPENPAREN # wrap 1 a @ ?rest)" using assms(4) Cons by simp
  obtain k' ks' where r: "?rest = k' # ks'" "ends_assignment (fst k')"
    by (cases bs) (auto simp: assignmentOperator_def)
  obtain k0 ks0 where start: "wrap 1 a = k0 # ks0" "fst k0 \<noteq> CLOSEPAREN"
    using wrap_start [of a 1] assms(2) Cons by (auto simp: primary_start_def prefix_operators_def)
  have ys: "list_all (\<lambda>e. yields pa (assignable 1 e) (node e) (wrap 1 e) ends_assignment) as"
    by (rule assignments_in_commas [OF assms(1-3)])
  have "length as < n" using assms(3) length_commas [of as 1] by linarith
  have ending: "returns (consumeOrFail CLOSEPAREN) (\<lambda>_. Q (arguments_node (map node as))) u"
    if u: "passes s (sym CLOSEPAREN # k # ks) u" for u
    using assms(5) passes_trans [OF u leaves_passes] u
    by (intro returns_consumeOrFail [where k = "sym CLOSEPAREN" and ks = "k # ks"]) (simp_all add: passes_def)
  have loop: "returns (loopP n (comma_loop pa createArgumentsList2 (\<lambda>x. x)) (createArgumentsList (node a)))
      (\<lambda>l. returns (consumeOrFail CLOSEPAREN) (\<lambda>_. Q (createArguments (Some l)))) u"
    if u: "passes s ?rest u" for u
    by (rule returns_comma_loop [where es = bs and k = "sym CLOSEPAREN" and ks = "k # ks"])
       (use ys Cons u ending [OF passes_trans [OF u]] \<open>length as < n\<close> in \<open>simp_all add: passes_def\<close>)
  have first: "returns pa (\<lambda>r u. \<exists>x. r = Some x \<and>
      returns (loopP n (comma_loop pa createArgumentsList2 (\<lambda>x. x)) (createArgumentsList x))
      (\<lambda>l. returns (consumeOrFail CLOSEPAREN) (\<lambda>_. Q (createArguments (Some l)))) u) t"
    if t: "leaves s True (wrap 1 a @ ?rest) t" for t
  proof (rule yieldsD)
    show "yields pa (assignable 1 a) (node a) (wrap 1 a) ends_assignment" using ys Cons by simp
    show "coming t (wrap 1 a @ k' # ks')" using leaves_coming [OF t] r(1) by simp
    show "ends_assignment (fst k')" by (rule r(2))
    show "\<exists>x. Some (node a) = Some x \<and>
      returns (loopP n (comma_loop pa createArgumentsList2 (\<lambda>x. x)) (createArgumentsList x))
      (\<lambda>l. returns (consumeOrFail CLOSEPAREN) (\<lambda>_. Q (createArguments (Some l)))) u"
      if "leaves t (assignable 1 a) (k' # ks') u" for u
      using loop passes_trans [OF leaves_passes [OF t] leaves_passes [OF that]] r(1) by simp
  qed
  show ?thesis
    unfolding parseArguments_def returns_need
  proof (intro returns_function, simp only: returns_simps, rule returns_consumeOrFail [OF c], goal_cases)
    case (4 t)
    then have "tokenType t \<noteq> CLOSEPAREN" using start coming_token(1) leaves_coming by fastforce
    then show ?case using first [OF 4] by (simp add: returns_simps)
  qed (use start in simp_all)
qed

subsection \<open>Member expressions\<close>

fun suffixes :: "expr \<Rightarrow> nat" where
  "suffixes (Dot b x) = Suc (suffixes b)"
| "suffixes (Index b i) = Suc (suffixes b)"
| "suffixes (Call f as) = Suc (suffixes f)"
| "suffixes e = 0"

lemma member_dot:
  assumes "coming s (sym DOT # (IDENT, x) # k # ks)"
    and "\<And>t. leaves s True (k # ks) t \<Longrightarrow>
      returns (loopP j (parseMemberExpression_step n pa) (createDotAccess b x, 0)) Q t"
  shows "returns (loopP (Suc j) (parseMemberExpression_step n pa) (b, 0)) Q s"
proof -
  have "returns nextP (\<lambda>_. returns (loopP j (parseMemberExpression_step n pa) (createDotAccess b x, 0)) Q) t"
    if t: "leaves s True ((IDENT, x) # k # ks) t" for t
    using assms(2) leaves_trans(1) [OF t] by (intro returns_next [OF leaves_coming [OF t]]) simp_all
  then have "returns (nextP_type IgnoreReservedWords) (\<lambda>_ t. tokenType t = IDENT \<and>
      returns nextP (\<lambda>_. returns (loopP j (parseMemberExpression_step n pa) (createDotAccess b (tokenIdent t), 0)) Q) t) s"
    by (intro returns_next_type [OF assms(1)]) (auto simp: mode_after_def coming_token [OF leaves_coming])
  then show ?thesis
    using coming_token(1) [OF assms(1)]
    by (simp add: returns_loop parseMemberExpression_step_def returns_simps)
qed

lemma member_index:
  assumes "coming s (sym OPENBRACKET # body i @ sym CLOSEBRACKET # k # ks)"
    and "yields (parseExpression n pa) lhs (node i) (body i) ends_expression"
    and "\<And>t. leaves s True (k # ks) t \<Longrightarrow>
      returns (loopP j (parseMemberExpression_step n pa) (createBracketAccess b (node i), 0)) Q t"
  shows "returns (loopP (Suc j) (parseMemberExpression_step n pa) (b, 0)) Q s"
proof -
  let ?L = "returns (loopP j (parseMemberExpression_step n pa) (createBracketAccess b (node i), 0)) Q"
  have closing: "returns (consumeP CLOSEBRACKET) (\<lambda>closed v. closed \<and> ?L (v\<lparr>m_nonLHSCount := m_nonLHSCount t\<rparr>)) u"
    if t: "leaves s True (body i @ sym CLOSEBRACKET # k # ks) t" and u: "passes t (sym CLOSEBRACKET # k # ks) u" for t u
  proof (rule returns_consume)
    show "coming u (sym CLOSEBRACKET # k # ks)" using u by (simp add: passes_def)
    show "True \<and> ?L (v\<lparr>m_nonLHSCount := m_nonLHSCount t\<rparr>)" if "leaves u True (k # ks) v" for v
      using assms(3) leaves_trans(1) [OF t leaves_reset [OF passes_trans [OF u leaves_passes [OF that]]]] by simp
  qed simp_all
  have inner: "returns (parseExpression n pa) (\<lambda>r u. \<exists>x. r = Some x \<and> returns (consumeP CLOSEBRACKET)
      (\<lambda>closed v. closed \<and> returns (loopP j (parseMemberExpression_step n pa) (createBracketAccess b x, 0)) Q
        (v\<lparr>m_nonLHSCount := m_nonLHSCount t\<rparr>)) u) t"
    if t: "leaves s True (body i @ sym CLOSEBRACKET # k # ks) t" for t
    by (rule yieldsD [OF assms(2) leaves_coming [OF t]]) (use closing [OF t] leaves_passes in auto)
  have "returns nextP (\<lambda>_ t. returns (parseExpression n pa) (\<lambda>r u. \<exists>x. r = Some x \<and> returns (consumeP CLOSEBRACKET)
      (\<lambda>closed v. closed \<and> returns (loopP j (parseMemberExpression_step n pa) (createBracketAccess b x, 0)) Q
        (v\<lparr>m_nonLHSCount := m_nonLHSCount t\<rparr>)) u) t) s"
    by (rule returns_next [OF assms(1)]) (simp_all add: inner)
  then show ?thesis
    using coming_token(1) [OF assms(1)]
    by (simp add: returns_loop parseMemberExpression_step_def returns_simps)
qed

lemma member_call:
  assumes "assignments_ok n pa" and "list_all well_formed as" and "length (commas (map (wrap 1) as)) < n"
    and "coming s (sym OPENPAREN # commas (map (wrap 1) as) @ sym CLOSEPAREN # k # ks)"
    and "\<And>t. leaves s True (k # ks) t \<Longrightarrow>
      returns (loopP j (parseMemberExpression_step n pa) (makeFunctionCallNode b (arguments_node (map node as)), 0)) Q t"
  shows "returns (loopP (Suc j) (parseMemberExpression_step n pa) (b, 0)) Q s"
proof -
  have "returns (needP (parseArguments n pa)) (\<lambda>x t. returns
      (loopP j (parseMemberExpression_step n pa) (makeFunctionCallNode b x, 0)) Q
      (t\<lparr>m_nonLHSCount := m_nonLHSCount s\<rparr>)) s"
    by (rule returns_arguments [OF assms(1-4)]) (use assms(5) leaves_reset in blast)
  then show ?thesis
    using coming_token(1) [OF assms(4)]
    by (simp add: returns_loop parseMemberExpression_step_def returns_simps)
qed

text \<open>The base of a member expression, and then one round of the loop for every suffix.\<close>

lemma returns_primary:
  assumes "assignments_ok n pa" and "well_formed e" and "length (wrap 15 e) \<le> n" and "suffixes e = 0"
  shows "yields (parsePrimaryExpression n ps pa) True (node e) (wrap 15 e) (\<lambda>_. True)"
proof (cases "level e < 15")
  case True
  then have w: "wrap 15 e = sym OPENPAREN # body e @ [sym CLOSEPAREN]" by (simp add: wrap_def paren_def)
  then have "yields (parseExpression n pa) (assignable 0 e) (node e) (body e) ends_expression"
    using expressions_from_assignments [OF assms(1)] assms(2,3) by (simp add: expressions_ok_def)
  then show ?thesis unfolding w by (rule primary_group)
next
  case False
  have "yields (parseExpression n pa) (assignable 0 e') (node e') (body e') ends_expression" if "e = Group e'" for e'
    using expressions_from_assignments [OF assms(1)] assms(2,3) that
    by (simp add: expressions_ok_def wrap_def paren_def body_wrap)
  then show ?thesis
    using assms(2,4) False primary_name primary_text primary_keyword primary_group
    by (cases e) (auto simp: wrap_def paren_def body_wrap)
qed

lemma returns_member_loop:
  assumes "assignments_ok n pa" and "well_formed e" and "length (wrap 15 e) \<le> n"
    and "coming s (wrap 15 e @ k # ks)"
    and "\<And>t. leaves s True (k # ks) t \<Longrightarrow> returns (loopP j (parseMemberExpression_step n pa) (node e, 0)) Q t"
  shows "returns (needP (parsePrimaryExpression n ps pa))
    (\<lambda>x. returns (loopP (suffixes e + j) (parseMemberExpression_step n pa) (x, 0)) Q) s"
proof -
  have base: "returns (needP (parsePrimaryExpression n ps pa))
      (\<lambda>x. returns (loopP (suffixes e + j) (parseMemberExpression_step n pa) (x, 0)) Q) s"
    if "suffixes e = 0" "well_formed e" "length (wrap 15 e) \<le> n" "coming s (wrap 15 e @ k # ks)"
      "\<And>t. leaves s True (k # ks) t \<Longrightarrow> returns (loopP j (parseMemberExpression_step n pa) (node e, 0)) Q t"
    for e j k ks
    by (rule yields_need [OF returns_primary [OF assms(1) that(2,3,1)] that(4)]) (use that in simp_all)
  show ?thesis
    using assms(2-5)
proof (induction e arbitrary: j k ks)
  case (Dot b x)
  have w: "wrap 15 (Dot b x) = wrap 15 b @ [sym DOT, (IDENT, x)]" by (simp add: wrap_def paren_def body_wrap)
  have "returns (loopP (Suc j) (parseMemberExpression_step n pa) (node b, 0)) Q t"
    if t: "leaves s True (sym DOT # (IDENT, x) # k # ks) t" for t
    by (rule member_dot [OF leaves_coming [OF t]]) (use Dot.prems(4) leaves_trans(1) [OF t] in simp)
  from Dot.IH [OF _ _ _ this] Dot.prems(1-3) w show ?case by simp
next
  case (Index b i)
  have w: "wrap 15 (Index b i) = wrap 15 b @ sym OPENBRACKET # body i @ [sym CLOSEBRACKET]"
    by (simp add: wrap_def paren_def body_wrap)
  have y: "yields (parseExpression n pa) (assignable 0 i) (node i) (body i) ends_expression"
    using expressions_from_assignments [OF assms(1)] Index.prems(1,2) w by (simp add: expressions_ok_def)
  have "returns (loopP (Suc j) (parseMemberExpression_step n pa) (node b, 0)) Q t"
    if t: "leaves s True (sym OPENBRACKET # body i @ sym CLOSEBRACKET # k # ks) t" for t
    by (rule member_index [OF leaves_coming [OF t] y]) (use Index.prems(4) leaves_trans(1) [OF t] in simp)
  from Index.IH(1) [OF _ _ _ this] Index.prems(1-3) w show ?case by simp
next
  case (Call f as)
  have w: "wrap 15 (Call f as) = wrap 15 f @ sym OPENPAREN # commas (map (wrap 1) as) @ [sym CLOSEPAREN]"
    by (simp add: wrap_def paren_def body_wrap)
  have "returns (loopP (Suc j) (parseMemberExpression_step n pa) (node f, 0)) Q t"
    if t: "leaves s True (sym OPENPAREN # commas (map (wrap 1) as) @ sym CLOSEPAREN # k # ks) t" for t
    by (rule member_call [OF assms(1) _ _ leaves_coming [OF t]])
      (use Call.prems w leaves_trans(1) [OF t] in simp_all)
  from Call.IH(1) [OF _ _ _ this] Call.prems(1-3) w show ?case by simp
qed (rule base; (assumption | simp))+
qed

lemma member_ok:
  assumes "assignments_ok n pa" and "well_formed e" and "length (wrap 15 e) \<le> n"
  shows "yields (parseMemberExpression n ps pa) True (node e) (wrap 15 e) ends_member"
proof (rule yieldsI)
  fix s k ks assume c: "coming s (wrap 15 e @ k # ks)" "ends_member (fst k)"
  obtain k0 ks0 where start: "wrap 15 e = k0 # ks0" "fst k0 \<in> set primary_start"
    using wrap_member_start [OF assms(2)] by blast
  then have first: "tokenType s \<in> set primary_start" using coming_token(1) [of s k0] c(1) by simp
  have len: "suffixes e < length (wrap 15 e)"
    by (induction e) (auto simp: wrap_def paren_def body_wrap)
  obtain m where m: "n = Suc m" using len assms(3) by (cases n) auto
  obtain j where j: "n = suffixes e + Suc j" using len assms(3) less_iff_Suc_add [of "suffixes e" n] by auto
  have "returns (needP (parsePrimaryExpression n ps pa))
      (\<lambda>x. returns (loopP (suffixes e + Suc j) (parseMemberExpression_step n pa) (x, 0))
        (\<lambda>r t. (case r of (x, c) \<Rightarrow> \<lambda>t. createNewExprs c x = node e \<and> leaves s True (k # ks) t) t)) s"
    by (rule returns_member_loop [OF assms c(1)])
      (use c(2) in \<open>auto simp: returns_loop parseMemberExpression_step_def returns_simps coming_token [OF leaves_coming]\<close>)
  then show "returns (parseMemberExpression n ps pa) (\<lambda>r t. r = Some (node e) \<and> leaves s True (k # ks) t) s"
    unfolding parseMemberExpression_def countNew_def
    using first unfolding j [symmetric]
    by (intro returns_function) (auto simp: m returns_loop returns_simps primary_start_def split_def)
qed

subsection \<open>Unary expressions\<close>

fun prefixes :: "expr \<Rightarrow> JSTokenType list" where
  "prefixes (Prefix t e) = t # prefixes e"
| "prefixes e = []"

fun prefixed :: "expr \<Rightarrow> expr" where
  "prefixed (Prefix t e) = prefixed e"
| "prefixed e = e"

lemma prefixes_tokens:
  assumes "well_formed e"
  shows "wrap 13 e = map sym (prefixes e) @ wrap 14 (prefixed e)"
    and "node e = fold prefix_node (rev (prefixes e)) (node (prefixed e))"
    and "set (prefixes e) \<subseteq> set prefix_operators" and "well_formed (prefixed e)"
    and "level (prefixed e) \<noteq> 13"
    and "prefixes e = [] \<Longrightarrow> prefixed e = e"
proof -
  have "wrap 13 e = map sym (prefixes e) @ wrap 14 (prefixed e) \<and>
    node e = fold prefix_node (rev (prefixes e)) (node (prefixed e)) \<and>
    set (prefixes e) \<subseteq> set prefix_operators \<and> well_formed (prefixed e) \<and> level (prefixed e) \<noteq> 13 \<and>
    (prefixes e = [] \<longrightarrow> prefixed e = e)"
    using assms by (induction e rule: prefixes.induct) (auto simp: wrap_def paren_def body_wrap)
  then show "wrap 13 e = map sym (prefixes e) @ wrap 14 (prefixed e)"
    and "node e = fold prefix_node (rev (prefixes e)) (node (prefixed e))"
    and "set (prefixes e) \<subseteq> set prefix_operators" and "well_formed (prefixed e)"
    and "level (prefixed e) \<noteq> 13"
    and "prefixes e = [] \<Longrightarrow> prefixed e = e"
    by simp_all
qed

lemma prefix_operators_unary: "t \<in> set prefix_operators \<Longrightarrow> isUnaryOp t \<and> t \<noteq> DOT"
  by (auto simp: prefix_operators_def isUnaryOp_iff)

lemma primary_start_not_unary: "t \<in> set primary_start \<Longrightarrow> \<not> isUnaryOp t"
  by (auto simp: primary_start_def isUnaryOp_iff)

text \<open>The unary operators in front are pushed, and taken off from the innermost outwards.\<close>

definition with_unary :: "(JSTokenType \<times> nat) list \<Rightarrow> builder \<Rightarrow> builder" where
  "with_unary us c = c\<lparr>m_unaryTokenStack := us @ m_unaryTokenStack c\<rparr>"

lemma with_unary_simps [simp]:
  "m_unaryTokenStack (with_unary us c) = us @ m_unaryTokenStack c"
  "with_unary us (with_unary us' c) = with_unary (us @ us') c" "with_unary [] c = c"
  by (simp_all add: with_unary_def)

lemma shape_with_unary: "shape c = shape c' \<Longrightarrow> shape (with_unary us c) = shape (with_unary us c')"
  by (simp add: with_unary_def shape_def)

lemma returns_unary_operators:
  assumes "coming s (map sym ts @ k # ks)" and "set ts \<subseteq> set prefix_operators" and "\<not> isUnaryOp (fst k)"
    and "length ts < n"
    and "\<And>t us. coming t (k # ks) \<Longrightarrow> map fst us = rev ts \<Longrightarrow>
      shape (p_context t) = shape (with_unary us (p_context s)) \<Longrightarrow>
      counted (ts = []) (m_nonLHSCount s) (m_nonLHSCount t) \<Longrightarrow> Q (d + length ts) t"
  shows "returns (loopP n (\<lambda>tokenStackDepth.
      bindP (getP tokenType) (\<lambda>type.
      if isUnaryOp type then
        thenP incNonLHSCount
       (bindP (getP tokenStart) (\<lambda>start.
        bindP (contextP (\<lambda>b. Some (appendUnaryToken tokenStackDepth type start b))) (\<lambda>tokenStackDepth.
        thenP nextP
       (retP (Inl tokenStackDepth)))))
      else retP (Inr tokenStackDepth))) d) Q s"
    (is "returns (loopP n ?step d) Q s")
  using assms
proof (induction ts arbitrary: s n d Q)
  case Nil
  obtain m where n: "n = Suc m" using Nil.prems(4) by (cases n) auto
  have "Q d s"
    using Nil.prems(5) [of s "[]"] Nil.prems(1) by (simp add: counted_def)
  then show ?case
    using Nil.prems(1,3) by (simp add: n returns_loop returns_simps coming_token)
next
  case (Cons t ts)
  obtain m where n: "n = Suc m" using Cons.prems(4) by (cases n) auto
  have c: "coming s (sym t # map sym ts @ k # ks)" using Cons.prems(1) by simp
  have t: "isUnaryOp t" "t \<noteq> DOT" using Cons.prems(2) prefix_operators_unary by auto
  let ?s = "s\<lparr>m_nonLHSCount := m_nonLHSCount s + 1, p_context := with_unary [(t, tokenStart s)] (p_context s)\<rparr>"
  have c': "coming ?s (sym t # map sym ts @ k # ks)" using c by simp
  have "returns (loopP m ?step (Suc d)) Q u" if u: "leaves ?s True (map sym ts @ k # ks) u" for u
  proof (rule Cons.IH)
    show "coming u (map sym ts @ k # ks)" by (rule leaves_coming [OF u])
    show "Q (Suc d + length ts) v"
      if v: "coming v (k # ks)" "map fst us = rev ts" "shape (p_context v) = shape (with_unary us (p_context u))"
        "counted (ts = []) (m_nonLHSCount u) (m_nonLHSCount v)" for v us
    proof -
      have "shape (with_unary us (p_context u)) = shape (with_unary us (p_context ?s))"
        using u by (intro shape_with_unary) (simp add: leaves_def)
      then show ?thesis
        using Cons.prems(5) [of v "us @ [(t, tokenStart s)]"] v u
        by (simp add: leaves_def counted_def split: if_splits)
    qed
  qed (use Cons.prems n in simp_all)
  then have "returns nextP (\<lambda>_. returns (loopP m ?step (Suc d)) Q) ?s"
    by (intro returns_next [OF c']) (simp_all add: t)
  then show ?case
    using coming_token(1) [OF c] t(1)
    by (simp add: n returns_loop returns_simps appendUnaryToken_def with_unary_def tokenStart_def)
qed

lemma returns_applyUnaryToken:
  assumes "t \<in> set prefix_operators" and "\<And>j. Q (prefix_node t x) (s\<lparr>m_assignmentCount := j\<rparr>)"
  shows "returns (applyUnaryToken t x) Q s"
proof -
  have "s\<lparr>m_assignmentCount := m_assignmentCount s\<rparr> = s" by simp
  then have "Q (prefix_node t x) s" using assms(2) by metis
  then show ?thesis
    using assms by (auto simp: prefix_operators_def applyUnaryToken_def prefix_node_def returns_simps)
qed

lemma returns_applyUnaryTokens:
  assumes "coming s ks" and "m_unaryTokenStack (p_context s) = us @ rest" and "map fst us = ts"
    and "set ts \<subseteq> set prefix_operators"
    and "\<And>t. coming t ks \<Longrightarrow> shape (p_context t) = shape ((p_context s)\<lparr>m_unaryTokenStack := rest\<rparr>) \<Longrightarrow>
      m_nonLHSCount t = m_nonLHSCount s \<Longrightarrow> Q (fold prefix_node ts x) t"
  shows "returns (applyUnaryTokens (length ts) x) Q s"
  using assms
proof (induction ts arbitrary: s us x)
  case Nil
  then have "(p_context s)\<lparr>m_unaryTokenStack := rest\<rparr> = p_context s" by simp
  then show ?case using Nil by (simp add: returns_simps)
next
  case (Cons t ts)
  then obtain p us' where us: "us = (t, p) # us'" "map fst us' = ts" by (cases us) auto
  let ?t = "\<lambda>j. s\<lparr>m_assignmentCount := j, p_context := (p_context s)\<lparr>m_unaryTokenStack := us' @ rest\<rparr>\<rparr>"
  have "returns (applyUnaryTokens (length ts) (prefix_node t x)) Q (?t j)" for j
    by (rule Cons.IH) (use Cons.prems us in \<open>simp_all\<close>)
  then have "returns (applyUnaryToken t x) (\<lambda>x'. returns (thenP (contextP (\<lambda>b. map_option (\<lambda>b'. ((), b'))
      (unaryTokenStackRemoveLast b))) (applyUnaryTokens (length ts) x')) Q) s"
    using Cons.prems us
    by (intro returns_applyUnaryToken) (simp_all add: returns_simps unaryTokenStackRemoveLast_def)
  then show ?case
    using Cons.prems us by (simp add: returns_simps unaryTokenStackLast_def)
qed

lemma returns_parsePostfix:
  assumes "assignments_ok n pa" and "well_formed e" and "length (wrap 14 e) \<le> n" and "level e \<noteq> 13"
    and "coming s (wrap 14 e @ k # ks)" and "ends_unary (fst k)"
    and "\<And>t. leaves s (level e \<noteq> 14) (k # ks) t \<Longrightarrow> Q (node e) t"
  shows "returns (needP (parseMemberExpression n ps pa)) (\<lambda>x. returns (parsePostfix x) Q) s"
proof (cases "level e = 14")
  case False
  then have "wrap 14 e = wrap 15 e" using assms(4) 
    by (cases e) (auto simp: wrap_def paren_def)
  then show ?thesis
    using assms False
    by (intro yields_need [OF member_ok [OF assms(1,2)]])
      (auto simp: parsePostfix_def returns_simps coming_token [OF leaves_coming] split: JSTokenType.splits)
next
  case True
  obtain e' t where e: "e = Postfix e' t" using True by (cases e) auto
  have w: "wrap 14 e = wrap 15 e' @ [sym t]" by (simp add: e wrap_def paren_def body_wrap)
  have t: "t = PLUSPLUS \<or> t = MINUSMINUS" using assms(2) e by simp
  have "returns (parsePostfix (node e')) Q u" if u: "leaves s True (sym t # k # ks) u" for u
  proof -
    let ?u = "u\<lparr>m_nonLHSCount := m_nonLHSCount u + 1, m_assignmentCount := m_assignmentCount u + 1\<rparr>"
    have su: "leaves s False (sym t # k # ks) ?u"
      using leaves_trans(1) [OF u leaves_count [OF passes_refl(1) [OF leaves_coming [OF u]]]] by simp
    have "Q (node e) v" if "leaves ?u True (k # ks) v" for v
      using assms(7) leaves_trans(2) [OF su that] True by simp
    then have "returns nextP (\<lambda>_. Q (node e)) ?u"
      using t by (intro returns_next [OF leaves_coming [OF su]]) auto
    then show ?thesis
      using t by (auto simp: parsePostfix_def returns_simps coming_token [OF leaves_coming [OF u]] e)
  qed
  then show ?thesis
    using assms w t by (intro yields_need [OF member_ok [OF assms(1)]]) (auto simp: e)
qed

lemma unary_ok:
  assumes "assignments_ok n pa" and "well_formed e" and "length (wrap 13 e) \<le> n"
  shows "yields (parseUnaryExpression n (parseMemberExpression n ps pa)) (assignable 13 e) (node e) (wrap 13 e) ends_unary"
proof (rule yieldsI)
  fix s k ks assume c: "coming s (wrap 13 e @ k # ks)" "ends_unary (fst k)"
  let ?ts = "prefixes e" and ?e = "prefixed e"
  note p = prefixes_tokens [OF assms(2)]
  have c1: "coming s (map sym ?ts @ wrap 14 ?e @ k # ks)" using c(1) p(1) by simp
  have "\<exists>k' ks'. wrap 14 ?e = k' # ks' \<and> fst k' \<in> set primary_start"
  proof (cases "level ?e = 14")
    case True
    then obtain e' t where e': "?e = Postfix e' t" by (cases ?e) auto
    then show ?thesis
      using p(4) wrap_member_start [of e'] by (auto simp: wrap_def [of _ "Postfix e' t"] paren_def body_wrap)
  next
    case False
    then have "wrap 14 ?e = wrap 15 ?e" using p(5) by (cases ?e) (auto simp: wrap_def paren_def)
    then show ?thesis using wrap_member_start [OF p(4)] by simp
  qed
  then obtain k' ks' where start: "wrap 14 ?e = k' # ks'" "\<not> isUnaryOp (fst k')"
    using primary_start_not_unary by blast
  have len: "length ?ts < n" "length (wrap 14 ?e) \<le> n" using assms(3) p(1) start(1) by simp_all
  have lhs: "assignable 13 e \<longleftrightarrow> ?ts = [] \<and> level ?e \<noteq> 14"
    using p(5,6) by (cases e) (auto simp: assignable_def)
  have final: "returns (applyUnaryTokens (length ?ts) (node ?e)) (\<lambda>x v. m_allowsIn v \<and>
      x = node e \<and> leaves s (assignable 13 e) (k # ks) v) u"
    if t: "map fst us = rev ?ts" "shape (p_context t) = shape (with_unary us (p_context s))"
      "counted (?ts = []) (m_nonLHSCount s) (m_nonLHSCount t)"
      and u: "leaves t (level ?e \<noteq> 14) (k # ks) u" for us t u
  proof -
    have sh: "shape (p_context u) = shape (with_unary us (p_context s))" using t(2) u by (simp add: leaves_def)
    then have st: "m_unaryTokenStack (p_context u) = us @ m_unaryTokenStack (p_context s)"
      by (simp add: shape_def)
    have "returns (applyUnaryTokens (length (rev ?ts)) (node ?e)) (\<lambda>x v. m_allowsIn v \<and>
        x = node e \<and> leaves s (assignable 13 e) (k # ks) v) u"
    proof (rule returns_applyUnaryTokens [OF leaves_coming [OF u] st t(1)])
      fix v assume v: "coming v (k # ks)"
        "shape (p_context v) = shape ((p_context u)\<lparr>m_unaryTokenStack := m_unaryTokenStack (p_context s)\<rparr>)"
        "m_nonLHSCount v = m_nonLHSCount u"
      have "shape (p_context v) = shape (p_context s)" using v(2) sh by (simp add: shape_def with_unary_def)
      moreover have "counted (assignable 13 e) (m_nonLHSCount s) (m_nonLHSCount v)"
        using t(3) u v(3) by (auto simp: lhs counted_def leaves_def split: if_splits)
      ultimately show "m_allowsIn v \<and> fold prefix_node (rev ?ts) (node ?e) = node e \<and>
          leaves s (assignable 13 e) (k # ks) v"
        using v(1) p(2) by (simp add: leaves_def coming_token)
    qed (use p(3) in simp)
    then show ?thesis by simp
  qed
  have main: "returns (needP (parseMemberExpression n ps pa)) (\<lambda>x. returns (parsePostfix x)
      (\<lambda>x. returns (applyUnaryTokens (length ?ts) x) (\<lambda>x v. m_allowsIn v \<and>
        x = node e \<and> leaves s (assignable 13 e) (k # ks) v))) t"
    if t: "coming t (wrap 14 ?e @ k # ks)" "map fst us = rev ?ts"
      "shape (p_context t) = shape (with_unary us (p_context s))"
      "counted (?ts = []) (m_nonLHSCount s) (m_nonLHSCount t)" for us t
    by (rule returns_parsePostfix [OF assms(1) p(4) len(2) p(5) t(1) c(2)]) (use final t in blast)
  have "returns (parseUnaryOperators n) (\<lambda>d. returns (needP (parseMemberExpression n ps pa)) (\<lambda>x. returns (parsePostfix x)
      (\<lambda>x. returns (applyUnaryTokens d x) (\<lambda>x v. m_allowsIn v \<and>
        x = node e \<and> leaves s (assignable 13 e) (k # ks) v)))) s"
    unfolding parseUnaryOperators_def
  proof (rule returns_unary_operators [where ts = ?ts and k = k' and ks = "ks' @ k # ks"])
    show "coming s (map sym ?ts @ k' # ks' @ k # ks)" using c1 start(1) by simp
    fix t us assume t: "coming t (k' # ks' @ k # ks)" "map fst us = rev ?ts"
      "shape (p_context t) = shape (with_unary us (p_context s))"
      "counted (?ts = []) (m_nonLHSCount s) (m_nonLHSCount t)"
    show "returns (needP (parseMemberExpression n ps pa)) (\<lambda>x. returns (parsePostfix x)
      (\<lambda>x. returns (applyUnaryTokens (0 + length ?ts) x) (\<lambda>x v. m_allowsIn v \<and>
        x = node e \<and> leaves s (assignable 13 e) (k # ks) v))) t"
      using main [OF _ t(2-4)] t(1) start(1) by simp
  qed (use p(3) start(2) len in simp_all)
  moreover have "m_allowsIn s" using c1 start(1) by (cases ?ts) (auto simp: coming_token)
  ultimately show "returns (parseUnaryExpression n (parseMemberExpression n ps pa))
      (\<lambda>r t. r = Some (node e) \<and> leaves s (assignable 13 e) (k # ks) t) s"
    unfolding parseUnaryExpression_def
    by (intro returns_function returns_allowIn) (simp_all add: returns_simps)
qed

end
