(* ===== verification/ExpressionParsing.thy ===== *)
theory ExpressionParsing
  imports ExpressionGrammar
begin

text \<open>
  The parser of expressions returns the tree of the expression that its tokens were written from:
  binary, conditional and assignment expressions, and the recursion through
  \<open>parseAssignmentExpression\<close>.
\<close>

subsection \<open>Binary expressions\<close>

text \<open>
  The operands and operators of the binary expression that the tokens \<open>wrap p e\<close> are, from left to
  right, and its tree.
\<close>

fun factors :: "nat \<Rightarrow> expr \<Rightarrow> expr list" where
  "factors p (Binary l t r) =
    (if p \<le> 2 + binary_level t then factors (2 + binary_level t) l @ factors (3 + binary_level t) r
     else [Binary l t r])"
| "factors p e = [e]"

fun signs :: "nat \<Rightarrow> expr \<Rightarrow> JSTokenType list" where
  "signs p (Binary l t r) =
    (if p \<le> 2 + binary_level t then signs (2 + binary_level t) l @ t # signs (3 + binary_level t) r
     else [])"
| "signs p e = []"

abbreviation operator_of :: "JSTokenType \<Rightarrow> binaryOperator" where
  "operator_of t \<equiv> (t, isBinaryOperator True t)"

fun etree_of :: "nat \<Rightarrow> expr \<Rightarrow> etree" where
  "etree_of p (Binary l t r) =
    (if p \<le> 2 + binary_level t
     then Bin (etree_of (2 + binary_level t) l) (operator_of t) (etree_of (3 + binary_level t) r)
     else Operand (node (Binary l t r)))"
| "etree_of p e = Operand (node e)"

fun weave :: "terminal list list \<Rightarrow> JSTokenType list \<Rightarrow> terminal list" where
  "weave [] ts = []"
| "weave (x # xs) ts = x @ concat (map2 (\<lambda>t y. sym t # y) ts xs)"

lemma weave_append:
  "length xs = Suc (length ts) \<Longrightarrow> ys \<noteq> [] \<Longrightarrow> weave (xs @ ys) (ts @ t # us) = weave xs ts @ sym t # weave ys us"
  by (cases xs; cases ys) auto

lemma factors_signs: "length (factors p e) = Suc (length (signs p e))"
  by (induction p e rule: signs.induct) auto

lemma factors_proper: "well_formed e \<Longrightarrow> list_all well_formed (factors p e)"
  by (induction p e rule: factors.induct) auto

lemma signs_level: "well_formed e \<Longrightarrow> list_all (\<lambda>t. binary_level t \<noteq> 0 \<and> p \<le> 2 + binary_level t) (signs p e)"
proof (induction p e rule: signs.induct)
  case (1 p l t r)
  show ?case
  proof (cases "p \<le> 2 + binary_level t")
    case True
    have "list_all (\<lambda>t'. binary_level t' \<noteq> 0 \<and> 2 + binary_level t \<le> 2 + binary_level t') (signs (2 + binary_level t) l)"
      "list_all (\<lambda>t'. binary_level t' \<noteq> 0 \<and> 3 + binary_level t \<le> 2 + binary_level t') (signs (3 + binary_level t) r)"
      using 1 True by simp_all
    then have "list_all (\<lambda>t'. binary_level t' \<noteq> 0 \<and> p \<le> 2 + binary_level t') (signs (2 + binary_level t) l)"
      "list_all (\<lambda>t'. binary_level t' \<noteq> 0 \<and> p \<le> 2 + binary_level t') (signs (3 + binary_level t) r)"
      using True by (auto elim!: list.pred_mono_strong)
    then show ?thesis using 1(3) True by simp
  qed simp
qed simp_all

lemma wrap_weave: "3 \<le> p \<Longrightarrow> p \<le> 13 \<Longrightarrow> well_formed e \<Longrightarrow> wrap p e = weave (map (wrap 13) (factors p e)) (signs p e)"
proof (induction p e rule: factors.induct)
  case (1 p l t r)
  have b: "Suc 0 \<le> binary_level t" using "1.prems" by simp
  have "binary_level t \<le> 10" by (rule binary_level_le)
  moreover have "factors q r \<noteq> []" for q using factors_signs [of q r] by auto
  ultimately show ?case
    using 1 b by (auto simp: weave_append factors_signs wrap_def [of _ "Binary l t r"] paren_def body_wrap)
qed (auto simp: wrap_def paren_def)

lemma etree_of:
  "operands (etree_of p e) = map node (factors p e)"
  "operators (etree_of p e) = map operator_of (signs p e)"
  "etree_node (etree_of p e) = node e"
  by (induction p e rule: etree_of.induct) (auto simp: binary_node_def)

lemma etree_of_precedence: "well_formed e \<Longrightarrow> respects_precedence (etree_of p e)"
proof (induction p e rule: etree_of.induct)
  case (1 p l t r)
  have "list_all (\<lambda>q. binary_level t \<le> binary_level q) (signs (2 + binary_level t) l)"
    "list_all (\<lambda>q. binary_level t < binary_level q) (signs (3 + binary_level t) r)"
    using signs_level [of l "2 + binary_level t"] signs_level [of r "3 + binary_level t"] 1(3)
    by (auto simp: list_all_iff)
  then show ?case
    using 1 by (auto simp: etree_of(2) list_all_iff binary_precedence)
qed auto

text \<open>The stacks of the builder, as in \<open>represents\<close>; the other two are those of \<open>c0\<close>.\<close>

definition stacks :: "builder \<Rightarrow> builder \<Rightarrow> etree list \<Rightarrow> binaryOperator list \<Rightarrow> bool" where
  "stacks c0 c es os \<longleftrightarrow> represents c0 c es os \<and>
     m_assignmentInfoStack c = m_assignmentInfoStack c0 \<and> m_unaryTokenStack c = m_unaryTokenStack c0"

lemma stacks_simps:
  "stacks c c [] []"
  "stacks c0 c es os \<Longrightarrow> shape c' = shape c \<Longrightarrow> stacks c0 c' es os"
  "stacks c0 c es os \<Longrightarrow>
     stacks c0 (c\<lparr>m_binaryOperandStack := (x, info) # m_binaryOperandStack c\<rparr>) (Operand x # es) os"
  "stacks c0 c es os \<Longrightarrow> convertOperator_token t \<noteq> None \<Longrightarrow>
     stacks c0 (c\<lparr>m_binaryOperatorStack := (t, p) # m_binaryOperatorStack c\<rparr>) es ((t, p) # os)"
  by (auto simp: stacks_def represents_def shape_def)

lemma reduceBinary_keeps:
  assumes "reduceBinary d s = Ret r t"
  shows "m_assignmentInfoStack (p_context t) = m_assignmentInfoStack (p_context s) \<and>
    m_unaryTokenStack (p_context t) = m_unaryTokenStack (p_context s)"
  using assms
  by (auto simp: reduceBinary_def bindP_def thenP_def assertP_def retP_def crashP_def readContextP_def contextP_def
      shrinkOperandStackBy_def appendBinaryOperation_def operatorStackPop_def Let_def
      split: option.splits outcome.splits if_splits list.splits prod.splits)

lemma reduceHigher_keeps:
  "reduceHigher p k d s = Ret r t \<Longrightarrow>
    m_assignmentInfoStack (p_context t) = m_assignmentInfoStack (p_context s) \<and>
    m_unaryTokenStack (p_context t) = m_unaryTokenStack (p_context s)"
proof (induction k arbitrary: d s)
  case (Suc k)
  then show ?case
    by (auto simp: bindP_def readContextP_def retP_def split: option.splits outcome.splits if_splits
        dest: reduceBinary_keeps)
qed (simp add: retP_def)

lemma reduceAll_keeps:
  "reduceAll k d s = Ret r t \<Longrightarrow>
    m_assignmentInfoStack (p_context t) = m_assignmentInfoStack (p_context s) \<and>
    m_unaryTokenStack (p_context t) = m_unaryTokenStack (p_context s)"
proof (induction k arbitrary: d s)
  case (Suc k)
  then show ?case
    by (auto simp: bindP_def split: outcome.splits dest: reduceBinary_keeps)
qed (simp add: retP_def)

lemma returns_reduceHigher:
  assumes "stacks c0 (p_context s) (Operand x # es) os" and "waiting es os" and "k = length os"
    and "\<And>e' es' os' c. stacks c0 c (e' # es') os' \<Longrightarrow> waiting (e' # es') ((t, p) # os') \<Longrightarrow>
      all_operands (e' # es') = all_operands es @ [x] \<Longrightarrow>
      waiting_operators (e' # es') ((t, p) # os') = waiting_operators es os @ [(t, p)] \<Longrightarrow>
      Q (length os', int (Suc (length os'))) (s\<lparr>p_context := c\<rparr>)"
  shows "returns (reduceHigher p k (int (Suc k))) Q s"
proof -
  have len: "length es = length os" using assms(2) by (rule waiting_length)
  have cm: "complete (Operand x # es) os" using assms(2) by (simp split: list.splits)
  obtain e' es' os' c where *:
    "reduceHigher p (length os) (int (Suc (length es))) s = Ret (length os', int (Suc (length os'))) (s\<lparr>p_context := c\<rparr>)"
    "represents c0 c (e' # es') os'" "complete (e' # es') os'" "opers_ge p e'"
    "case os' of [] \<Rightarrow> True | q # _ \<Rightarrow> snd q < p"
    "all_operands (e' # es') = all_operands (Operand x # es)"
    "all_operators (e' # es') os' = all_operators (Operand x # es) os"
    using reduceHigher_represents [of c0 s "Operand x" es os p] assms(1) cm unfolding stacks_def by auto
  have "stacks c0 c (e' # es') os'"
    using *(2) reduceHigher_keeps [OF *(1)] assms(1) by (simp add: stacks_def)
  moreover have "waiting (e' # es') ((t, p) # os')" using *(3-5) by (auto split: list.splits)
  moreover have "waiting_operators (e' # es') ((t, p) # os') = waiting_operators es os @ [(t, p)]"
    using *(7) by simp
  ultimately have "Q (length os', int (Suc (length os'))) (s\<lparr>p_context := c\<rparr>)"
    using *(6) by (intro assms(4)) (simp_all add: all_operands_def)
  then show ?thesis using *(1) assms(3) len by (simp add: returns_def)
qed

lemma returns_operand:
  assumes "yields pu lhs x ts ends_unary" and "coming s (ts @ k # ks)" and "ends_unary (fst k)"
    and "stacks c0 (p_context s) es os"
    and "\<And>t. coming t (k # ks) \<Longrightarrow> stacks c0 (p_context t) (Operand x # es) os \<Longrightarrow>
      counted lhs (m_nonLHSCount s) (m_nonLHSCount t) \<Longrightarrow> Q (d + 1) t"
  shows "returns (needP pu) (\<lambda>current. returns
    (bindP (getP m_lastTokenEnd) (\<lambda>end.
     bindP (getP m_assignmentCount) (\<lambda>assignments.
     contextP (\<lambda>b. Some (appendBinaryExpressionInfo d current exprStart end end
                                  (initialAssignments \<noteq> assignments) b))))) Q) s"
proof (rule yields_need [OF assms(1-3)])
  fix u assume u: "leaves s lhs (k # ks) u"
  have "shape (p_context u) = shape (p_context s)" using u by (simp add: leaves_def)
  from stacks_simps(3) [OF stacks_simps(2) [OF assms(4) this]]
  show "returns (bindP (getP m_lastTokenEnd) (\<lambda>end. bindP (getP m_assignmentCount) (\<lambda>assignments.
     contextP (\<lambda>b. Some (appendBinaryExpressionInfo d x exprStart end end
                                  (initialAssignments \<noteq> assignments) b))))) Q u"
    using u by (simp add: returns_simps appendBinaryExpressionInfo_def assms(5) leaves_def)
qed

lemma returns_binary_step:
  assumes "yields pu lhs x ts ends_unary" and "coming s (ts @ k # ks)" and "ends_unary (fst k)"
    and "stacks c0 (p_context s) es os" and "waiting es os"
    and "\<And>t. binary_level (fst k) = 0 \<Longrightarrow> coming t (k # ks) \<Longrightarrow> stacks c0 (p_context t) (Operand x # es) os \<Longrightarrow>
      counted lhs (m_nonLHSCount s) (m_nonLHSCount t) \<Longrightarrow> Q (Inr (int (Suc (length os)), length os)) t"
    and "\<And>t es' os'. binary_level (fst k) \<noteq> 0 \<Longrightarrow> coming t ks \<Longrightarrow> m_nonLHSCount s < m_nonLHSCount t \<Longrightarrow>
      stacks c0 (p_context t) es' os' \<Longrightarrow> waiting es' os' \<Longrightarrow>
      all_operands es' = all_operands es @ [x] \<Longrightarrow>
      waiting_operators es' os' = waiting_operators es os @ [operator_of (fst k)] \<Longrightarrow>
      Q (Inl (int (length os'), length os')) t"
    and "binary_level (fst k) \<noteq> 0 \<Longrightarrow> ks \<noteq> []"
  shows "returns (parseBinaryExpression_step pu (int (length os), length os)) Q s"
proof -
  define p where "p = isBinaryOperator True (fst k)"
  have p0: "p = 0 \<longleftrightarrow> binary_level (fst k) = 0" by (simp add: p_def binary_precedence)
  let ?push = "\<lambda>(j, d). bindP (contextP (\<lambda>b. Some (operatorStackAppend j (fst k) p b)))
      (\<lambda>j'. retP (Inl (d, j')))"
  have oper: "returns nextP (\<lambda>_. returns (bindP (reduceHigher p (length os) (int (length os) + 1)) ?push) Q)
      (t\<lparr>m_nonLHSCount := m_nonLHSCount t + 1\<rparr>)"
    if t: "coming t (k # ks)" "stacks c0 (p_context t) (Operand x # es) os"
      "counted lhs (m_nonLHSCount s) (m_nonLHSCount t)" and k: "binary_level (fst k) \<noteq> 0" for t
  proof (rule returns_next)
    let ?t = "t\<lparr>m_nonLHSCount := m_nonLHSCount t + 1\<rparr>"
    show "coming ?t (k # ks)" using t(1) by simp
    show "ks \<noteq> []" "fst k \<noteq> DOT" using assms(8) k binary_operator_ends [OF k] by simp_all
    fix v assume v: "leaves ?t True ks v"
    have st: "stacks c0 (p_context v) (Operand x # es) os"
      using v by (intro stacks_simps(2) [OF t(2)]) (simp add: leaves_def)
    have count: "m_nonLHSCount s < m_nonLHSCount v"
      using v t(3) by (auto simp: leaves_def counted_def split: if_splits)
    have conv: "convertOperator_token (fst k) \<noteq> None"
      using p0 k isBinaryOperator_convert by (auto simp: p_def)
    have "returns (reduceHigher p (length os) (int (Suc (length os)))) (\<lambda>r. returns (?push r) Q) v"
    proof (rule returns_reduceHigher [OF st assms(5) refl])
      fix e' es' os' c
      assume *: "stacks c0 c (e' # es') os'" "waiting (e' # es') ((fst k, p) # os')"
        "all_operands (e' # es') = all_operands es @ [x]"
        "waiting_operators (e' # es') ((fst k, p) # os') = waiting_operators es os @ [(fst k, p)]"
      have "Q (Inl (int (length ((fst k, p) # os')), length ((fst k, p) # os')))
          (v\<lparr>p_context := c\<lparr>m_binaryOperatorStack := (fst k, p) # m_binaryOperatorStack c\<rparr>\<rparr>)"
        by (rule assms(7) [OF k, where es' = "e' # es'"])
           (use * v count stacks_simps(4) [OF *(1) conv] in \<open>simp_all add: leaves_coming p_def\<close>)
      then show "returns (?push (length os', int (Suc (length os')))) Q (v\<lparr>p_context := c\<rparr>)"
        by (simp add: returns_simps operatorStackAppend_def)
    qed
    then show "returns (bindP (reduceHigher p (length os) (int (length os) + 1)) ?push) Q v"
      by (simp add: returns_simps add.commute)
  qed
  have "returns (needP pu) (\<lambda>current. returns
    (bindP (getP m_lastTokenEnd) (\<lambda>end.
     bindP (getP m_assignmentCount) (\<lambda>assignments.
     contextP (\<lambda>b. Some (appendBinaryExpressionInfo (int (length os)) current (tokenStart s) end end
                                  (m_assignmentCount s \<noteq> assignments) b)))))
     (\<lambda>d. returns (bindP (getP (\<lambda>s. isBinaryOperator (m_allowsIn s) (tokenType s))) (\<lambda>precedence.
      if precedence = 0 then retP (Inr (d, length os))
      else
        thenP incNonLHSCount
       (bindP (getP tokenType) (\<lambda>operatorToken.
        thenP nextP
       (bindP (reduceHigher precedence (length os) d)
          (\<lambda>(operatorStackDepth, operandStackDepth).
        bindP (contextP (\<lambda>b. Some (operatorStackAppend operatorStackDepth operatorToken precedence b)))
          (\<lambda>operatorStackDepth.
        retP (Inl (operandStackDepth, operatorStackDepth))))))))) Q)) s"
  proof (rule returns_operand [OF assms(1-4)])
    fix t assume t: "coming t (k # ks)" "stacks c0 (p_context t) (Operand x # es) os"
      "counted lhs (m_nonLHSCount s) (m_nonLHSCount t)"
    have "isBinaryOperator (m_allowsIn t) (tokenType t) = p" "tokenType t = fst k"
      using coming_token [OF t(1)] by (simp_all add: p_def)
    then show "returns (bindP (getP (\<lambda>s. isBinaryOperator (m_allowsIn s) (tokenType s))) (\<lambda>precedence.
      if precedence = 0 then retP (Inr (int (length os) + 1, length os))
      else
        thenP incNonLHSCount
       (bindP (getP tokenType) (\<lambda>operatorToken.
        thenP nextP
       (bindP (reduceHigher precedence (length os) (int (length os) + 1))
          (\<lambda>(operatorStackDepth, operandStackDepth).
        bindP (contextP (\<lambda>b. Some (operatorStackAppend operatorStackDepth operatorToken precedence b)))
          (\<lambda>operatorStackDepth.
        retP (Inl (operandStackDepth, operatorStackDepth))))))))) Q t"
      using assms(6) [OF _ t] oper [OF t] p0
      by (cases "p = 0") (simp_all add: returns_get returns_ret returns_bind returns_then returns_counters add.commute tokenType_def)
  qed
  then show ?thesis
    unfolding parseBinaryExpression_step_def by (simp add: returns_simps)
qed

lemma returns_binary_loop:
  assumes "list_all (\<lambda>f. yields pu (assignable 13 f) (node f) (wrap 13 f) ends_unary) fs"
    and "length fs = Suc (length ts)" and "list_all (\<lambda>t. binary_level t \<noteq> 0) ts"
    and "coming s (weave (map (wrap 13) fs) ts @ k # ks)" and "ends_binary (fst k)" and "length ts < n"
    and "stacks c0 (p_context s) es os" and "waiting es os"
    and "\<And>t e es' os'. coming t (k # ks) \<Longrightarrow>
      counted (ts = [] \<and> assignable 13 (hd fs)) (m_nonLHSCount s) (m_nonLHSCount t) \<Longrightarrow>
      stacks c0 (p_context t) (e # es') os' \<Longrightarrow> complete (e # es') os' \<Longrightarrow>
      all_operands (e # es') = all_operands es @ map node fs \<Longrightarrow>
      all_operators (e # es') os' = waiting_operators es os @ map operator_of ts \<Longrightarrow>
      Q (int (Suc (length os')), length os') t"
  shows "returns (loopP n (parseBinaryExpression_step pu) (int (length os), length os)) Q s"
  using assms
proof (induction ts arbitrary: s fs n es os)
  case Nil
  obtain m where n: "n = Suc m" using Nil.prems(6) by (cases n) auto
  obtain f where f: "fs = [f]" using Nil.prems(2) by (cases fs) auto
  have cm: "complete (Operand (node f) # es) os" using Nil.prems(8) by (simp split: list.splits)
  show ?case
    unfolding n returns_loop
  proof (rule returns_binary_step [where x = "node f" and ts = "wrap 13 f" and lhs = "assignable 13 f"
        and k = k and ks = ks and es = es and ?c0.0 = c0])
    show "case Inr (int (Suc (length os)), length os) of
        Inl a' \<Rightarrow> returns (loopP m (parseBinaryExpression_step pu) a') Q t | Inr b \<Rightarrow> Q b t"
      if "coming t (k # ks)" "stacks c0 (p_context t) (Operand (node f) # es) os"
        "counted (assignable 13 f) (m_nonLHSCount s) (m_nonLHSCount t)" for t
      using Nil.prems(9) [OF that(1) _ that(2) cm] that(3) by (simp add: f all_operands_def)
  qed (use Nil.prems f in simp_all)
next
  case (Cons t ts)
  obtain m where n: "n = Suc m" using Cons.prems(6) by (cases n) auto
  obtain f g gs where f: "fs = f # g # gs" using Cons.prems(2) by (cases fs; cases "tl fs") auto
  have w: "weave (map (wrap 13) fs) (t # ts) @ k # ks =
      wrap 13 f @ sym t # weave (map (wrap 13) (g # gs)) ts @ k # ks"
    by (simp add: f)
  have t: "binary_level t \<noteq> 0" "ends_unary t" using Cons.prems(3) binary_operator_ends by simp_all
  show ?case
    unfolding n returns_loop
  proof (rule returns_binary_step [where x = "node f" and ts = "wrap 13 f" and lhs = "assignable 13 f"
        and k = "sym t" and ks = "weave (map (wrap 13) (g # gs)) ts @ k # ks" and es = es and ?c0.0 = c0])
    show "coming s (wrap 13 f @ sym t # weave (map (wrap 13) (g # gs)) ts @ k # ks)"
      using Cons.prems(4) w by simp
    fix u es' os'
    assume u: "coming u (weave (map (wrap 13) (g # gs)) ts @ k # ks)" "m_nonLHSCount s < m_nonLHSCount u"
      "stacks c0 (p_context u) es' os'" "waiting es' os'" "all_operands es' = all_operands es @ [node f]"
      "waiting_operators es' os' = waiting_operators es os @ [operator_of (fst (sym t))]"
    have "returns (loopP m (parseBinaryExpression_step pu) (int (length os'), length os')) Q u"
    proof (rule Cons.IH [OF _ _ _ u(1) _ _ u(3,4)])
      fix v e es2 os2
      assume v: "coming v (k # ks)"
        "counted (ts = [] \<and> assignable 13 (hd (g # gs))) (m_nonLHSCount u) (m_nonLHSCount v)"
        "stacks c0 (p_context v) (e # es2) os2" "complete (e # es2) os2"
        "all_operands (e # es2) = all_operands es' @ map node (g # gs)"
        "all_operators (e # es2) os2 = waiting_operators es' os' @ map operator_of ts"
      show "Q (int (Suc (length os2)), length os2) v"
        by (rule Cons.prems(9) [OF v(1) _ v(3,4)])
           (use u v(2,5,6) f in \<open>auto simp: counted_def split: if_splits\<close>)
    qed (use Cons.prems f n in simp_all)
    then show "case Inl (int (length os'), length os') of
        Inl a' \<Rightarrow> returns (loopP m (parseBinaryExpression_step pu) a') Q u | Inr b \<Rightarrow> Q b u"
      by simp
  qed (use Cons.prems f t in simp_all)
qed

lemma returns_reduceAll:
  assumes "stacks c0 (p_context s) (e # es) os" and "complete (e # es) os"
    and "\<And>e' info rest c. respects_precedence e' \<Longrightarrow> operands e' = all_operands (e # es) \<Longrightarrow>
      operators e' = all_operators (e # es) os \<Longrightarrow>
      m_binaryOperandStack c = (etree_node e', info) # rest \<Longrightarrow>
      shape (c\<lparr>m_binaryOperandStack := rest\<rparr>) = shape c0 \<Longrightarrow> Q (s\<lparr>p_context := c\<rparr>)"
  shows "returns (reduceAll (length os) (int (Suc (length os)))) (\<lambda>_. Q) s"
proof -
  have len: "length es = length os" using assms(2) waiting_length by auto
  obtain e' c d where *: "reduceAll (length os) (int (Suc (length es))) s = Ret d (s\<lparr>p_context := c\<rparr>)"
    "represents c0 c [e'] []" "respects_precedence e'" "operands e' = all_operands (e # es)"
    "operators e' = all_operators (e # es) os"
    using reduceAll_represents [of c0 s e es os] assms(1,2) by (auto simp: stacks_def)
  have keeps: "m_assignmentInfoStack c = m_assignmentInfoStack c0" "m_unaryTokenStack c = m_unaryTokenStack c0"
    using reduceAll_keeps [OF *(1)] assms(1) by (simp_all add: stacks_def)
  obtain info rest where st: "m_binaryOperandStack c = (etree_node e', info) # rest"
    "map fst rest = map fst (m_binaryOperandStack c0)" "m_binaryOperatorStack c = m_binaryOperatorStack c0"
    using *(2) by (auto simp: represents_def map_eq_Cons_conv)
  have "Q (s\<lparr>p_context := c\<rparr>)"
    using keeps st by (intro assms(3) [OF *(3-5) st(1)]) (simp add: shape_def)
  then show ?thesis using *(1) len by (simp add: returns_def)
qed

lemma binary_ok:
  assumes "assignments_ok n pa" and "well_formed e" and "length (wrap 3 e) \<le> n"
  shows "yields (parseBinaryExpression n (parseUnaryExpression n (parseMemberExpression n ps pa)))
    (assignable 3 e) (node e) (wrap 3 e) ends_binary"
proof (rule yieldsI)
  let ?pu = "parseUnaryExpression n (parseMemberExpression n ps pa)"
  let ?fs = "factors 3 e" and ?ts = "signs 3 e"
  fix s k ks assume c: "coming s (wrap 3 e @ k # ks)" "ends_binary (fst k)"
  have w: "wrap 3 e = weave (map (wrap 13) ?fs) ?ts" using wrap_weave [of 3 e] assms(2) by simp
  have len: "length (wrap 13 f) \<le> n \<and> length ?ts < n" if f: "f \<in> set ?fs" for f
  proof -
    have weave_length: "length xs = Suc (length ts) \<Longrightarrow> x \<in> set xs \<Longrightarrow> length x + length ts \<le> length (weave xs ts)"
      for x xs and ts :: "JSTokenType list"
    proof (induction ts arbitrary: xs x)
      case (Cons t ts)
      then obtain y z zs where xs: "xs = y # z # zs" by (cases xs; cases "tl xs") auto
      have "length v + length ts \<le> length (weave (z # zs) ts)" if "v \<in> set (z # zs)" for v
        using Cons.IH [of "z # zs" v] Cons.prems xs that by simp
      then show ?case using Cons.prems(2) xs by fastforce
    qed (auto simp: length_Suc_conv)
    have "length (wrap 13 f) + length ?ts \<le> length (wrap 3 e)"
      using weave_length [of "map (wrap 13) ?fs" ?ts "wrap 13 f"] f w by (simp add: factors_signs)
    moreover have "wrap 13 f \<noteq> []" by (rule wrap_nonempty)
    ultimately show ?thesis using assms(3) by (cases "wrap 13 f") auto
  qed
  have "?fs \<noteq> []" using factors_signs [of 3 e] by auto
  then have "length ?ts < n" using len [of "hd ?fs"] by simp
  have ys: "list_all (\<lambda>f. yields ?pu (assignable 13 f) (node f) (wrap 13 f) ends_unary) ?fs"
    using factors_proper [OF assms(2), of 3] len unary_ok [OF assms(1)] by (auto simp: list_all_iff)
  have lhs: "?ts = [] \<and> assignable 13 (hd ?fs) \<longleftrightarrow> assignable 3 e"
    using assms(2) by (cases e) (auto simp: assignable_def)
  let ?Q = "\<lambda>x t. x = node e \<and> leaves s (assignable 3 e) (k # ks) t"
  have "returns (loopP n (parseBinaryExpression_step ?pu) (int (length ([] :: binaryOperator list)), length ([] :: binaryOperator list)))
      (\<lambda>(d, j). returns (thenP (reduceAll j d) (contextP popOperandStack)) ?Q) s"
  proof (rule returns_binary_loop [OF ys factors_signs _ _ c(2) \<open>length ?ts < n\<close> stacks_simps(1)])
    fix t e1 es os
    assume t: "coming t (k # ks)" "counted (?ts = [] \<and> assignable 13 (hd ?fs)) (m_nonLHSCount s) (m_nonLHSCount t)"
      "stacks (p_context s) (p_context t) (e1 # es) os" "complete (e1 # es) os"
      "all_operands (e1 # es) = all_operands [] @ map node ?fs"
      "all_operators (e1 # es) os = waiting_operators [] [] @ map operator_of ?ts"
    have "returns (reduceAll (length os) (int (Suc (length os)))) (\<lambda>_. returns (contextP popOperandStack) ?Q) t"
    proof (rule returns_reduceAll [OF t(3,4)])
      fix e' info rest c
      assume e': "respects_precedence e'" "operands e' = all_operands (e1 # es)"
        "operators e' = all_operators (e1 # es) os" and
        st: "m_binaryOperandStack c = (etree_node e', info) # rest"
        "shape (c\<lparr>m_binaryOperandStack := rest\<rparr>) = shape (p_context s)"
      have "e' = etree_of 3 e"
        using etree_unique [OF e'(1) etree_of_precedence [OF assms(2)]] e'(2,3) t(5,6)
        by (simp add: etree_of all_operands_def)
      then show "returns (contextP popOperandStack) ?Q (t\<lparr>p_context := c\<rparr>)"
        using st t(1,2) lhs by (simp add: returns_simps popOperandStack_def etree_of(3) leaves_def)
    qed
    then show "(case (int (Suc (length os)), length os) of (d, j) \<Rightarrow>
        returns (thenP (reduceAll j d) (contextP popOperandStack)) ?Q) t"
      by (simp add: returns_simps)
  qed (use signs_level [OF assms(2), of 3] c(1) w in \<open>auto simp: list_all_iff\<close>)
  then show "returns (parseBinaryExpression n ?pu) (\<lambda>r t. r = Some (node e) \<and> leaves s (assignable 3 e) (k # ks) t) s"
    unfolding parseBinaryExpression_def
    by (intro returns_function) (simp add: returns_simps split_def)
qed

subsection \<open>Conditional expressions\<close>

lemma conditional_operand:
  assumes "assignments_ok n pa" and "well_formed e" and "length (wrap 3 e) \<le> n"
  shows "yields (conditionalExpression n ps pa) (assignable 3 e) (node e) (wrap 3 e) ends_conditional"
proof (rule yieldsI)
  fix s k ks assume c: "coming s (wrap 3 e @ k # ks)" "ends_conditional (fst k)"
  show "returns (conditionalExpression n ps pa)
      (\<lambda>r t. r = Some (node e) \<and> leaves s (assignable 3 e) (k # ks) t) s"
    unfolding conditionalExpression_def parseConditionalExpression_def
    by (intro returns_function, simp only: returns_simps, rule yieldsD [OF binary_ok [OF assms] c(1)])
       (use c(2) in \<open>auto simp: returns_simps coming_token [OF leaves_coming]\<close>)
qed

lemma conditional_ok:
  assumes "assignments_ok n pa" and "well_formed (Conditional c a b)" and "length (body (Conditional c a b)) \<le> n"
  shows "yields (conditionalExpression n ps pa) False (node (Conditional c a b)) (body (Conditional c a b)) ends_assignment"
proof (rule yieldsI)
  fix s k ks assume "coming s (body (Conditional c a b) @ k # ks)" and k: "ends_assignment (fst k)"
  then have cs: "coming s (wrap 3 c @ sym QUESTION # wrap 1 a @ sym COLON # wrap 1 b @ k # ks)" by (simp add: body_wrap)
  have len: "length (wrap 3 c) \<le> n" "length (wrap 1 a) < n" "length (wrap 1 b) < n"
    using assms(3) by (simp_all add: body_wrap)
  have ya: "yields pa (assignable 1 a) (node a) (wrap 1 a) ends_assignment"
    and yb: "yields pa (assignable 1 b) (node b) (wrap 1 b) ends_assignment"
    using assms(1,2) len by (simp_all add: assignments_ok_def)
  let ?Q = "\<lambda>r t. r = Some (node (Conditional c a b)) \<and> leaves s False (k # ks) t"
  have right: "returns (needP pa) (\<lambda>rhs. returns (retP (Some (createConditionalExpr (node c) (Some (node a)) rhs))) ?Q) v"
    if v: "leaves s False (wrap 1 b @ k # ks) v" for v
    by (rule yields_need [OF yb leaves_coming [OF v] k])
       (use leaves_trans(3) [OF v leaves_passes] in \<open>simp add: returns_simps\<close>)
  have colon: "returns (consumeOrFail COLON) (\<lambda>_. returns (needP pa)
      (\<lambda>rhs. returns (retP (Some (createConditionalExpr (node c) (Some (node a)) rhs))) ?Q)) u"
    if u: "leaves s False (sym COLON # wrap 1 b @ k # ks) u" for u
    by (rule returns_consumeOrFail [OF leaves_coming [OF u]]) (use right leaves_trans(2) [OF u] in simp_all)
  have middle: "returns pa (\<lambda>lhs. returns (consumeOrFail COLON) (\<lambda>_. returns (needP pa)
      (\<lambda>rhs. returns (retP (Some (createConditionalExpr (node c) lhs rhs))) ?Q))) t"
    if t: "leaves s False (wrap 1 a @ sym COLON # wrap 1 b @ k # ks) t" for t
    by (rule yieldsD [OF ya leaves_coming [OF t]]) (use colon leaves_trans(3) [OF t leaves_passes] in simp_all)
  have question: "returns nextP (\<lambda>_. returns pa (\<lambda>lhs. returns (consumeOrFail COLON) (\<lambda>_. returns (needP pa)
      (\<lambda>rhs. returns (retP (Some (createConditionalExpr (node c) lhs rhs))) ?Q))))
      (t\<lparr>m_nonLHSCount := m_nonLHSCount t + 1\<rparr>)"
    if t: "leaves s (assignable 3 c) (sym QUESTION # wrap 1 a @ sym COLON # wrap 1 b @ k # ks) t" for t
  proof -
    have st: "leaves s False (sym QUESTION # wrap 1 a @ sym COLON # wrap 1 b @ k # ks)
        (t\<lparr>m_nonLHSCount := m_nonLHSCount t + 1\<rparr>)"
      by (rule leaves_trans(4) [OF leaves_passes [OF t] leaves_count [OF passes_refl(1) [OF leaves_coming [OF t]]]])
    show ?thesis
      by (rule returns_next [OF leaves_coming [OF st]]) (use middle leaves_trans(2) [OF st] in simp_all)
  qed
  show "returns (conditionalExpression n ps pa) ?Q s"
    unfolding conditionalExpression_def parseConditionalExpression_def
  proof (intro returns_function, simp only: returns_bind, rule yields_need [OF binary_ok [OF assms(1) _ len(1)] cs])
    fix t assume t: "leaves s (assignable 3 c) (sym QUESTION # wrap 1 a @ sym COLON # wrap 1 b @ k # ks) t"
    then show "returns (matchP QUESTION) (\<lambda>question. returns (if \<not> question then retP (Some (node c))
       else thenP incNonLHSCount (thenP nextP (bindP pa (\<lambda>lhs. thenP (consumeOrFail COLON)
         (bindP (needP pa) (\<lambda>rhs. retP (Some (createConditionalExpr (node c) lhs rhs)))))))) ?Q) t"
      using question [OF t] coming_token(1) [OF leaves_coming [OF t]]
      by (simp add: returns_match returns_then returns_counters returns_bind)
  qed (use assms(2) in simp_all)
qed

subsection \<open>Assignments\<close>

fun assignments_of :: "expr \<Rightarrow> nat" where
  "assignments_of (Assign l t r) = Suc (assignments_of r)"
| "assignments_of e = 0"

text \<open>The entries of the stack of assignments, the last one first, around the last right side.\<close>

definition close_assignments :: "AssignmentInfo list \<Rightarrow> Node \<Rightarrow> Node" where
  "close_assignments infos x = fold (\<lambda>i. assign_node (ai_op i) (ai_node i)) infos x"

definition with_assignments :: "AssignmentInfo list \<Rightarrow> builder \<Rightarrow> builder" where
  "with_assignments infos c = c\<lparr>m_assignmentInfoStack := infos @ m_assignmentInfoStack c\<rparr>"

lemma with_assignments_simps [simp]:
  "m_assignmentInfoStack (with_assignments infos c) = infos @ m_assignmentInfoStack c"
  "with_assignments infos (with_assignments infos' c) = with_assignments (infos @ infos') c"
  "with_assignments [] c = c"
  by (simp_all add: with_assignments_def)

lemma shape_with_assignments:
  "shape c = shape c' \<Longrightarrow> shape (with_assignments infos c) = shape (with_assignments infos c')"
  by (simp add: with_assignments_def shape_def)

lemma returns_createAssignments:
  assumes "coming s ks" and "shape (p_context s) = shape (with_assignments infos c0)"
    and "\<And>t. coming t ks \<Longrightarrow> shape (p_context t) = shape c0 \<Longrightarrow> m_nonLHSCount t = m_nonLHSCount s \<Longrightarrow>
      Q (close_assignments infos x) t"
  shows "returns (createAssignments (length infos) x) Q s"
  using assms
proof (induction infos arbitrary: s x)
  case Nil
  then show ?case by (simp add: returns_simps close_assignments_def)
next
  case (Cons i infos)
  have st: "m_assignmentInfoStack (p_context s) = i # infos @ m_assignmentInfoStack c0"
    using Cons.prems(2) by (simp add: shape_def with_assignments_def)
  let ?s = "s\<lparr>p_context := (p_context s)\<lparr>m_assignmentInfoStack := infos @ m_assignmentInfoStack c0\<rparr>\<rparr>"
  have "returns (createAssignments (length infos) (assign_node (ai_op i) (ai_node i) x)) Q ?s"
    by (rule Cons.IH) (use Cons.prems in \<open>simp_all add: shape_def with_assignments_def close_assignments_def\<close>)
  then show ?case
    using st by (simp add: returns_simps createAssignment_def assign_node_def)
qed

lemma returns_assignment_step:
  assumes "assignmentOperator (tokenType u) = Some op"
    and "returns nextP (\<lambda>_. returns (needP pc) (\<lambda>x v.
      R (if initial \<noteq> m_nonLHSCount v then Inr (x, Suc d, True) else Inl (x, tokenStart u, Suc d, True)) v))
      (u\<lparr>p_context := with_assignments [\<lparr>ai_node = lhs, ai_start = start, ai_divot = tokenStart u,
        ai_initAssignments = m_assignmentCount u, ai_op = op\<rparr>] (p_context u),
        m_assignmentCount := m_assignmentCount u + 1\<rparr>)"
  shows "returns (parseAssignmentExpression_step pc initial (lhs, start, d, had)) R u"
  using assms by (simp add: parseAssignmentExpression_step_def returns_simps assignmentStackAppend_def with_assignments_def)

lemma returns_assignment_round:
  assumes "assignmentOperator (tokenType u) = Some op"
    and "info = \<lparr>ai_node = lhs, ai_start = start, ai_divot = tokenStart u,
      ai_initAssignments = m_assignmentCount u, ai_op = op\<rparr>"
    and "returns nextP (\<lambda>_. returns (needP pc) (\<lambda>x v. if initial \<noteq> m_nonLHSCount v then Q (x, Suc d, True) v
      else returns (loopP m (parseAssignmentExpression_step pc initial) (x, tokenStart u, Suc d, True)) Q v))
      (u\<lparr>p_context := with_assignments [info] (p_context u), m_assignmentCount := m_assignmentCount u + 1\<rparr>)"
  shows "returns (loopP (Suc m) (parseAssignmentExpression_step pc initial) (lhs, start, d, had)) Q u"
  unfolding returns_loop
proof (rule returns_assignment_step [OF assms(1)])
  show "returns nextP (\<lambda>_. returns (needP pc) (\<lambda>x v. case if initial \<noteq> m_nonLHSCount v
      then Inr (x, Suc d, True) else Inl (x, tokenStart u, Suc d, True) of
        Inl a \<Rightarrow> returns (loopP m (parseAssignmentExpression_step pc initial) a) Q v | Inr b \<Rightarrow> Q b v))
      (u\<lparr>p_context := with_assignments [\<lparr>ai_node = lhs, ai_start = start, ai_divot = tokenStart u,
        ai_initAssignments = m_assignmentCount u, ai_op = op\<rparr>] (p_context u),
        m_assignmentCount := m_assignmentCount u + 1\<rparr>)"
    unfolding assms(2) [symmetric]
    by (rule returns_mono [OF assms(3)], erule returns_mono) (simp split: if_splits)
qed

text \<open>
  A chain of assignments. The function parses its left sides one after the other, puts them on the
  stack, and leaves the loop when the count of other expressions has changed or no operator follows.
\<close>

lemma returns_assignment_chain:
  assumes "assignments_ok n pa" and "well_formed e" and "length (wrap 1 e) \<le> n"
    and "coming s (wrap 1 e @ k # ks)" and "ends_assignment (fst k)" and "initial = m_nonLHSCount s"
    and "\<And>t x infos. coming t (k # ks) \<Longrightarrow>
      shape (p_context t) = shape (with_assignments infos (p_context s)) \<Longrightarrow>
      length infos = assignments_of e \<Longrightarrow> close_assignments infos x = node e \<Longrightarrow>
      m_nonLHSCount s \<le> m_nonLHSCount t \<Longrightarrow>
      (assignments_of e = 0 \<Longrightarrow> counted (assignable 1 e) (m_nonLHSCount s) (m_nonLHSCount t)) \<Longrightarrow>
      Q (x, d + assignments_of e, had \<or> assignments_of e \<noteq> 0) t"
  shows "returns (needP (conditionalExpression n ps pa)) (\<lambda>x t.
    if initial \<noteq> m_nonLHSCount t then Q (x, d, had) t
    else returns (loopP (Suc (assignments_of e + j))
      (parseAssignmentExpression_step (conditionalExpression n ps pa) initial) (x, start, d, had)) Q t) s"
proof -
  let ?pc = "conditionalExpression n ps pa"
  have leaf: "returns (needP ?pc) (\<lambda>x t. if initial \<noteq> m_nonLHSCount t then Q (x, d, had) t
      else returns (loopP (Suc i) (parseAssignmentExpression_step ?pc initial) (x, start, d, had)) Q t) s"
    if "yields ?pc lhs (node e) ts ends_assignment" "coming s (ts @ k # ks)"
      "\<And>t. leaves s lhs (k # ks) t \<Longrightarrow> Q (node e, d, had) t" for ts e s d had i start lhs
    by (rule yields_need [OF that(1,2) assms(5)])
       (use that(3) assms(5) in \<open>simp add: returns_loop parseAssignmentExpression_step_def returns_simps
          coming_token [OF leaves_coming]\<close>)
  have other: "yields ?pc (assignable 1 e) (node e) (wrap 1 e) ends_assignment"
    if e0: "assignments_of e = 0" and pe: "well_formed e" and le: "length (wrap 1 e) \<le> n" for e
  proof (cases "level e = 2")
    case True
    then obtain c a b where e: "e = Conditional c a b" using pe by (cases e) auto
    then show ?thesis
      using conditional_ok [OF assms(1)] pe le by (simp add: wrap_def paren_def assignable_def)
  next
    case False
    then have w: "wrap 3 e = wrap 1 e" "assignable 3 e = assignable 1 e"
      using e0 pe by (cases e; simp add: wrap_def paren_def assignable_def; linarith)+
    have "yields ?pc (assignable 1 e) (node e) (wrap 1 e) ends_conditional"
      using conditional_operand [OF assms(1) pe, of ps] le unfolding w by blast
    then show ?thesis by (rule yields_stop) simp
  qed
  have base: "returns (needP ?pc) (\<lambda>x t. if initial \<noteq> m_nonLHSCount t then Q (x, d, had) t
      else returns (loopP (Suc (assignments_of e + j)) (parseAssignmentExpression_step ?pc initial) (x, start, d, had)) Q t) s"
    if e: "assignments_of e = 0" "well_formed e" "length (wrap 1 e) \<le> n" "coming s (wrap 1 e @ k # ks)"
      "initial = m_nonLHSCount s" and final: "\<And>t x infos. coming t (k # ks) \<Longrightarrow>
      shape (p_context t) = shape (with_assignments infos (p_context s)) \<Longrightarrow>
      length infos = assignments_of e \<Longrightarrow> close_assignments infos x = node e \<Longrightarrow>
      m_nonLHSCount s \<le> m_nonLHSCount t \<Longrightarrow>
      (assignments_of e = 0 \<Longrightarrow> counted (assignable 1 e) (m_nonLHSCount s) (m_nonLHSCount t)) \<Longrightarrow>
      Q (x, d + assignments_of e, had \<or> assignments_of e \<noteq> 0) t" for e s d had j start
  proof (rule leaf [OF other [OF e(1-3)] e(4)])
    fix t assume t: "leaves s (assignable 1 e) (k # ks) t"
    then have "m_nonLHSCount s \<le> m_nonLHSCount t" using leaves_passes by (auto simp: passes_def)
    then show "Q (node e, d, had) t"
      using final [of t "[]" "node e"] t e(1) by (simp add: leaves_def close_assignments_def)
  qed
  show ?thesis
    using assms(2-4,6,7)
  proof (induction e arbitrary: s d had j start)
    case (Assign l t r)
    have w: "wrap 1 (Assign l t r) = wrap 15 l @ sym t # wrap 1 r" by (simp add: wrap_def paren_def body_wrap)
    obtain op where op: "assignmentOperator t = Some op" using Assign.prems(1) by auto
    have yl: "yields ?pc True (node l) (wrap 15 l) ends_conditional"
    proof (cases "level l = 15")
      case True
      then show ?thesis
        using conditional_operand [OF assms(1), of l ps] Assign.prems(1,2) w
        by (simp add: wrap_def paren_def assignable_def)
    next
      case False
      then have "level l < 15" by (cases l) auto
      then show ?thesis
        using conditional_operand [OF assms(1), of "Group l" ps] Assign.prems(1,2) w
        by (simp add: wrap_def paren_def assignable_def body_wrap)
    qed
    have rest: "returns (loopP (Suc (Suc (assignments_of r + j))) (parseAssignmentExpression_step ?pc initial)
        (node l, start, d, had)) Q u" if u: "leaves s True (sym t # wrap 1 r @ k # ks) u" for u
    proof -
      define info where "info = \<lparr>ai_node = node l, ai_start = start, ai_divot = tokenStart u,
        ai_initAssignments = m_assignmentCount u, ai_op = op\<rparr>"
      let ?u = "u\<lparr>p_context := with_assignments [info] (p_context u),
        m_assignmentCount := m_assignmentCount u + 1\<rparr>"
      have cu: "coming ?u (sym t # wrap 1 r @ k # ks)" using leaves_coming [OF u] by simp
      have nl: "m_nonLHSCount u = initial" using u Assign.prems(4) by (simp add: leaves_def counted_def)
      have "returns (needP ?pc) (\<lambda>x v. if initial \<noteq> m_nonLHSCount v then Q (x, Suc d, True) v
          else returns (loopP (Suc (assignments_of r + j)) (parseAssignmentExpression_step ?pc initial)
            (x, tokenStart u, Suc d, True)) Q v) v"
        if v: "leaves ?u True (wrap 1 r @ k # ks) v" for v
      proof (rule Assign.IH(2))
        show "initial = m_nonLHSCount v" using v nl by (simp add: leaves_def counted_def)
        show "coming v (wrap 1 r @ k # ks)" by (rule leaves_coming [OF v])
        fix t' x infos
        assume *: "coming t' (k # ks)" "shape (p_context t') = shape (with_assignments infos (p_context v))"
          "length infos = assignments_of r" "close_assignments infos x = node r" "m_nonLHSCount v \<le> m_nonLHSCount t'"
        have "shape (p_context v) = shape (with_assignments [info] (p_context s))"
          using v u by (simp add: leaves_def shape_def with_assignments_def)
        from shape_with_assignments [OF this, of infos]
        have "shape (p_context t') = shape (with_assignments (infos @ [info]) (p_context s))" using *(2) by simp
        moreover have "close_assignments (infos @ [info]) x = node (Assign l t r)"
          using *(4) op by (simp add: close_assignments_def info_def)
        moreover have "m_nonLHSCount s \<le> m_nonLHSCount t'"
          using *(5) v nl Assign.prems(4) by (simp add: leaves_def counted_def)
        ultimately show "Q (x, Suc d + assignments_of r, True \<or> assignments_of r \<noteq> 0) t'"
          using Assign.prems(5) [of t' "infos @ [info]" x] *(1,3) by simp
      qed (use Assign.prems w in simp_all)
      then have "returns nextP (\<lambda>_. returns (needP ?pc) (\<lambda>x v. if initial \<noteq> m_nonLHSCount v then Q (x, Suc d, True) v
          else returns (loopP (Suc (assignments_of r + j)) (parseAssignmentExpression_step ?pc initial)
            (x, tokenStart u, Suc d, True)) Q v)) ?u"
        using op by (intro returns_next [OF cu]) (auto simp: assignmentOperator_def)
      then show ?thesis
        using coming_token(1) [OF leaves_coming [OF u]] op
        by (intro returns_assignment_round [OF _ info_def]) simp_all
    qed
    obtain k' ks' where k': "sym t # wrap 1 r @ k # ks = k' # ks'" "ends_conditional (fst k')"
      using assignment_operator_ends [of t] op by auto
    have "returns (needP ?pc) (\<lambda>x t. if initial \<noteq> m_nonLHSCount t then Q (x, d, had) t
      else returns (loopP (Suc (Suc (assignments_of r + j))) (parseAssignmentExpression_step ?pc initial)
        (x, start, d, had)) Q t) s"
    proof (rule yields_need [OF yl])
      show "coming s (wrap 15 l @ k' # ks')" using Assign.prems(3) w k'(1) by simp
      fix u assume "leaves s True (k' # ks') u"
      then show "if initial \<noteq> m_nonLHSCount u then Q (node l, d, had) u
        else returns (loopP (Suc (Suc (assignments_of r + j))) (parseAssignmentExpression_step ?pc initial)
          (node l, start, d, had)) Q u"
        using rest Assign.prems(4) k'(1) by (simp add: leaves_def counted_def)
    qed (rule k'(2))
    then show ?case unfolding assignments_of.simps add_Suc .
  qed (rule base; (assumption | simp))+
qed

lemma parseAssignmentExpression_body_yields:
  assumes "assignments_ok n pa" and "well_formed e" and "length (wrap 1 e) \<le> n"
  shows "yields (parseAssignmentExpression_body n ps pa) (assignable 1 e) (node e) (wrap 1 e) ends_assignment"
proof (rule yieldsI)
  let ?pc = "conditionalExpression n ps pa"
  fix s k ks assume c: "coming s (wrap 1 e @ k # ks)" "ends_assignment (fst k)"
  let ?R = "\<lambda>r t. r = Some (node e) \<and> leaves s (assignable 1 e) (k # ks) t"
  let ?close = "\<lambda>(lhs, depth, had). thenP (if had then incNonLHSCount else retP ())
      (bindP (createAssignments depth lhs) (\<lambda>lhs. retP (Some lhs)))"
  have "assignments_of e < length (wrap 1 e)"
    by (induction e) (auto simp: wrap_def paren_def body_wrap)
  then obtain j where j: "n = Suc (assignments_of e + j)"
    using assms(3) less_iff_Suc_add [of "assignments_of e" n] by auto
  have lhs: "assignments_of e \<noteq> 0 \<Longrightarrow> \<not> assignable 1 e" by (cases e) (auto simp: assignable_def)
  have final: "returns (?close (x, 0 + assignments_of e, False \<or> assignments_of e \<noteq> 0)) ?R t"
    if t: "coming t (k # ks)" "shape (p_context t) = shape (with_assignments infos (p_context s))"
      "length infos = assignments_of e" "close_assignments infos x = node e" "m_nonLHSCount s \<le> m_nonLHSCount t"
      "assignments_of e = 0 \<Longrightarrow> counted (assignable 1 e) (m_nonLHSCount s) (m_nonLHSCount t)" for t x infos
  proof -
    let ?t = "if assignments_of e \<noteq> 0 then t\<lparr>m_nonLHSCount := m_nonLHSCount t + 1\<rparr> else t"
    have count: "counted (assignable 1 e) (m_nonLHSCount s) (m_nonLHSCount ?t)"
      using t(5,6) lhs by (simp add: counted_def)
    have "returns (createAssignments (length infos) x) (\<lambda>x. ?R (Some x)) ?t"
      by (rule returns_createAssignments [where ?c0.0 = "p_context s" and ks = "k # ks"])
        (use t(1,2,4) count in \<open>simp_all add: leaves_def\<close>)
    then show ?thesis using t(3) by (cases "assignments_of e = 0") (simp_all add: returns_simps)
  qed
  have "returns (needP ?pc) (\<lambda>x t. if m_nonLHSCount s \<noteq> m_nonLHSCount t then returns (?close (x, 0, False)) ?R t
      else returns (loopP (Suc (assignments_of e + j)) (parseAssignmentExpression_step ?pc (m_nonLHSCount s))
        (x, tokenStart s, 0, False)) (\<lambda>r. returns (?close r) ?R) t) s"
    by (rule returns_assignment_chain [OF assms c refl, where d = 0 and had = False]) (rule final)
  then show "returns (parseAssignmentExpression_body n ps pa) ?R s"
    unfolding parseAssignmentExpression_body_def j [symmetric]
    by (intro returns_function)
       (simp add: returns_simps split_def if_distrib [of "\<lambda>m. returns m _ _"] cong: if_cong)
qed

text \<open>The recursion: the fuel exceeds the number of tokens.\<close>

lemma parseAssignmentExpression_yields: "assignments_ok n (parseAssignmentExpression n)"
proof (induction n)
  case 0
  show ?case by (simp add: assignments_ok_def)
next
  case (Suc n)
  have "parseAssignmentExpression (Suc n) =
      parseAssignmentExpression_body n (parseStatement n) (parseAssignmentExpression n)"
    by (simp add: fun_eq_iff)
  then show ?case
    using parseAssignmentExpression_body_yields [OF Suc] by (simp add: assignments_ok_def)
qed

lemma parseExpression_yields:
  "well_formed e \<Longrightarrow> length (body e) < n \<Longrightarrow>
     yields (parseExpression n (parseAssignmentExpression n)) (assignable 0 e) (node e) (body e) ends_expression"
  using expressions_from_assignments [OF parseAssignmentExpression_yields] by (simp add: expressions_ok_def)

end
