(* ===== verification/StatementGrammar.thy ===== *)
theory StatementGrammar
  imports ExpressionParsing
begin

text \<open>
  Statements with the tokens they are written as, and the functions that parse them: loops,
  conditions, blocks, jumps, declarations and \<open>try\<close>, each around the expressions of
  \<open>ExpressionGrammar\<close>.
\<close>

subsection \<open>Statements\<close>

datatype stmt =
    ExprStmt expr
  | EmptyStmt
  | BlockStmt "stmt list"
  | IfStmt expr stmt
  | IfElseStmt expr stmt stmt
  | WhileStmt expr stmt
  | DoStmt stmt expr
  | WithStmt expr stmt
  | ReturnStmt "expr option"
  | ThrowStmt expr
  | BreakStmt "uchars option"
  | ContinueStmt "uchars option"
  | VarStmt "(uchars \<times> expr option) list"
  | TryCatch "stmt list" uchars "stmt list"
  | TryFinally "stmt list" "stmt list"
  | TryCatchFinally "stmt list" uchars "stmt list" "stmt list"
  | DebuggerStmt

fun declarator_tokens :: "uchars \<times> expr option \<Rightarrow> terminal list" where
  "declarator_tokens (x, None) = [(IDENT, x)]"
| "declarator_tokens (x, Some e) = (IDENT, x) # sym EQUAL # wrap 1 e"

definition braces :: "terminal list \<Rightarrow> terminal list" where
  "braces ts = sym OPENBRACE # ts @ [sym CLOSEBRACE]"

fun stmt_tokens :: "stmt \<Rightarrow> terminal list" where
  "stmt_tokens (ExprStmt e) = body e @ [sym SEMICOLON]"
| "stmt_tokens EmptyStmt = [sym SEMICOLON]"
| "stmt_tokens (BlockStmt ss) = braces (concat (map stmt_tokens ss))"
| "stmt_tokens (IfStmt c s) = sym IF # sym OPENPAREN # body c @ sym CLOSEPAREN # stmt_tokens s"
| "stmt_tokens (IfElseStmt c a b) =
     sym IF # sym OPENPAREN # body c @ sym CLOSEPAREN # stmt_tokens a @ sym ELSE # stmt_tokens b"
| "stmt_tokens (WhileStmt c s) = sym WHILE # sym OPENPAREN # body c @ sym CLOSEPAREN # stmt_tokens s"
| "stmt_tokens (DoStmt s c) =
     sym DO # stmt_tokens s @ sym WHILE # sym OPENPAREN # body c @ [sym CLOSEPAREN, sym SEMICOLON]"
| "stmt_tokens (WithStmt c s) = sym WITH # sym OPENPAREN # body c @ sym CLOSEPAREN # stmt_tokens s"
| "stmt_tokens (ReturnStmt e) = sym RETURN # (case e of None \<Rightarrow> [] | Some e \<Rightarrow> body e) @ [sym SEMICOLON]"
| "stmt_tokens (ThrowStmt e) = sym THROW # body e @ [sym SEMICOLON]"
| "stmt_tokens (BreakStmt x) = sym BREAK # (case x of None \<Rightarrow> [] | Some x \<Rightarrow> [(IDENT, x)]) @ [sym SEMICOLON]"
| "stmt_tokens (ContinueStmt x) = sym CONTINUE # (case x of None \<Rightarrow> [] | Some x \<Rightarrow> [(IDENT, x)]) @ [sym SEMICOLON]"
| "stmt_tokens (VarStmt ds) = sym VAR # commas (map declarator_tokens ds) @ [sym SEMICOLON]"
| "stmt_tokens (TryCatch ss x cs) = sym TRY # braces (concat (map stmt_tokens ss)) @
     sym CATCH # sym OPENPAREN # (IDENT, x) # sym CLOSEPAREN # braces (concat (map stmt_tokens cs))"
| "stmt_tokens (TryFinally ss fs) = sym TRY # braces (concat (map stmt_tokens ss)) @
     sym FINALLY # braces (concat (map stmt_tokens fs))"
| "stmt_tokens (TryCatchFinally ss x cs fs) = sym TRY # braces (concat (map stmt_tokens ss)) @
     sym CATCH # sym OPENPAREN # (IDENT, x) # sym CLOSEPAREN # braces (concat (map stmt_tokens cs)) @
     sym FINALLY # braces (concat (map stmt_tokens fs))"
| "stmt_tokens DebuggerStmt = [sym DEBUGGER, sym SEMICOLON]"

text \<open>The tree of a statement.\<close>

fun declarator_node :: "uchars \<times> expr option \<Rightarrow> Node" where
  "declarator_node (x, None) = createVarIdentifier x"
| "declarator_node (x, Some e) = createAssignResolve x (node e)"

definition statements_node :: "Node list \<Rightarrow> Node" where
  "statements_node xs = foldl appendStatement createSourceElements xs"

definition block_node :: "Node list \<Rightarrow> Node" where
  "block_node xs = createBlockStatement (if xs = [] then None else Some (statements_node xs))"

fun declarations_node :: "Node list \<Rightarrow> Node option" where
  "declarations_node [] = None"
| "declarations_node (x # xs) = Some (foldl combineCommaNodes x xs)"

fun stmt_node :: "stmt \<Rightarrow> Node" where
  "stmt_node (ExprStmt e) = createExprStatement (node e)"
| "stmt_node EmptyStmt = createEmptyStatement"
| "stmt_node (BlockStmt ss) = block_node (map stmt_node ss)"
| "stmt_node (IfStmt c s) = createIfStatement (node c) (stmt_node s)"
| "stmt_node (IfElseStmt c a b) = createIfElseStatement (node c) (stmt_node a) (stmt_node b)"
| "stmt_node (WhileStmt c s) = createWhileStatement (node c) (stmt_node s)"
| "stmt_node (DoStmt s c) = createDoWhileStatement (stmt_node s) (node c)"
| "stmt_node (WithStmt c s) = createWithStatement (node c) (stmt_node s)"
| "stmt_node (ReturnStmt e) = createReturnStatement (map_option node e)"
| "stmt_node (ThrowStmt e) = createThrowStatement (node e)"
| "stmt_node (BreakStmt x) = createBreakStatement x"
| "stmt_node (ContinueStmt x) = createContinueStatement x"
| "stmt_node (VarStmt ds) = createVarStatement (declarations_node (map declarator_node ds))"
| "stmt_node (TryCatch ss x cs) =
     createTryStatement (block_node (map stmt_node ss)) x (Some (block_node (map stmt_node cs))) None"
| "stmt_node (TryFinally ss fs) =
     createTryStatement (block_node (map stmt_node ss)) nullIdentifier None (Some (block_node (map stmt_node fs)))"
| "stmt_node (TryCatchFinally ss x cs fs) =
     createTryStatement (block_node (map stmt_node ss)) x (Some (block_node (map stmt_node cs)))
       (Some (block_node (map stmt_node fs)))"
| "stmt_node DebuggerStmt = createDebugger"

text \<open>
  The tokens a statement would go on with: an \<open>else\<close> behind it would belong to an \<open>if\<close> inside
  it, a \<open>finally\<close> to a \<open>try\<close>.
\<close>

fun takes :: "stmt \<Rightarrow> JSTokenType \<Rightarrow> bool" where
  "takes (IfStmt c s) t \<longleftrightarrow> t = ELSE \<or> takes s t"
| "takes (IfElseStmt c a b) t \<longleftrightarrow> takes b t"
| "takes (WhileStmt c s) t \<longleftrightarrow> takes s t"
| "takes (WithStmt c s) t \<longleftrightarrow> takes s t"
| "takes (TryCatch ss x cs) t \<longleftrightarrow> t = FINALLY"
| "takes s t \<longleftrightarrow> False"

lemma takes_only: "takes s t \<Longrightarrow> t = ELSE \<or> t = FINALLY"
  by (induction s t rule: takes.induct) auto

abbreviation opt_all :: "('a \<Rightarrow> bool) \<Rightarrow> 'a option \<Rightarrow> bool" where
  "opt_all P x \<equiv> (case x of None \<Rightarrow> True | Some y \<Rightarrow> P y)"

abbreviation identifier_ok :: "uchars \<Rightarrow> bool" where
  "identifier_ok x \<equiv> well_formed (Name x)"

fun stmt_wf :: "stmt \<Rightarrow> bool" where
  "stmt_wf (ExprStmt e) \<longleftrightarrow> well_formed e"
| "stmt_wf EmptyStmt \<longleftrightarrow> True"
| "stmt_wf (BlockStmt ss) \<longleftrightarrow> list_all stmt_wf ss"
| "stmt_wf (IfStmt c s) \<longleftrightarrow> well_formed c \<and> stmt_wf s"
| "stmt_wf (IfElseStmt c a b) \<longleftrightarrow> well_formed c \<and> stmt_wf a \<and> \<not> takes a ELSE \<and> stmt_wf b"
| "stmt_wf (WhileStmt c s) \<longleftrightarrow> well_formed c \<and> stmt_wf s"
| "stmt_wf (DoStmt s c) \<longleftrightarrow> stmt_wf s \<and> well_formed c"
| "stmt_wf (WithStmt c s) \<longleftrightarrow> well_formed c \<and> stmt_wf s"
| "stmt_wf (ReturnStmt e) \<longleftrightarrow> opt_all well_formed e"
| "stmt_wf (ThrowStmt e) \<longleftrightarrow> well_formed e"
| "stmt_wf (BreakStmt x) \<longleftrightarrow> opt_all identifier_ok x"
| "stmt_wf (ContinueStmt x) \<longleftrightarrow> opt_all identifier_ok x"
| "stmt_wf (VarStmt ds) \<longleftrightarrow> ds \<noteq> [] \<and> list_all (\<lambda>(x, e). identifier_ok x \<and> opt_all well_formed e) ds"
| "stmt_wf (TryCatch ss x cs) \<longleftrightarrow> list_all stmt_wf ss \<and> identifier_ok x \<and> list_all stmt_wf cs"
| "stmt_wf (TryFinally ss fs) \<longleftrightarrow> list_all stmt_wf ss \<and> list_all stmt_wf fs"
| "stmt_wf (TryCatchFinally ss x cs fs) \<longleftrightarrow>
     list_all stmt_wf ss \<and> identifier_ok x \<and> list_all stmt_wf cs \<and> list_all stmt_wf fs"
| "stmt_wf DebuggerStmt \<longleftrightarrow> True"

subsection \<open>Expressions in statements\<close>

text \<open>At this level only the tokens to come matter.\<close>

lemma returns_expression:
  assumes "assignments_ok n pa" and "well_formed e" and "length (body e) < n"
    and "coming s (body e @ k # ks)" and "ends_expression (fst k)"
    and "\<And>t. coming t (k # ks) \<Longrightarrow> Q (node e) t"
  shows "returns (needP (parseExpression n pa)) Q s"
proof -
  have "yields (parseExpression n pa) (assignable 0 e) (node e) (body e) ends_expression"
    using expressions_from_assignments [OF assms(1)] assms(2,3) by (simp add: expressions_ok_def)
  then show ?thesis
    using assms(4-6) leaves_coming by (blast intro: yields_need)
qed

lemma returns_parenthesized:
  assumes "assignments_ok n pa" and "well_formed e" and "length (body e) < n"
    and "coming s (sym OPENPAREN # body e @ sym CLOSEPAREN # k # ks)"
    and "\<And>t. coming t (k # ks) \<Longrightarrow> Q (node e) t"
  shows "returns (consumeOrFail OPENPAREN) (\<lambda>_. returns (needP (parseExpression n pa))
    (\<lambda>x. returns (consumeOrFail CLOSEPAREN) (\<lambda>_. Q x))) s"
proof (rule returns_consumeOrFail [OF assms(4)])
  fix t assume "leaves s True (body e @ sym CLOSEPAREN # k # ks) t"
  then have t: "coming t (body e @ sym CLOSEPAREN # k # ks)" by (rule leaves_coming)
  have "returns (consumeOrFail CLOSEPAREN) (\<lambda>_. Q (node e)) u" if "coming u (sym CLOSEPAREN # k # ks)" for u
    by (rule returns_consumeOrFail [OF that]) (use assms(5) leaves_coming in auto)
  then show "returns (needP (parseExpression n pa)) (\<lambda>x. returns (consumeOrFail CLOSEPAREN) (\<lambda>_. Q x)) t"
    by (intro returns_expression [OF assms(1-3) t]) simp_all
qed simp_all

lemma returns_step:
  assumes "coming s (k # k' # ks)" and "fst k \<noteq> DOT" and "\<And>t. coming t (k' # ks) \<Longrightarrow> Q () t"
  shows "returns nextP Q s"
  by (rule returns_next [OF assms(1) _ assms(2)]) (use assms(3) leaves_coming in auto)

lemma returns_semicolon:
  assumes "coming s (sym SEMICOLON # k # ks)" and "\<And>t. coming t (k # ks) \<Longrightarrow> Q True t"
  shows "returns autoSemiColon Q s"
  using returns_step [OF assms(1), of "\<lambda>_. Q True"] assms(2) coming_token(1) [OF assms(1)]
  by (simp add: autoSemiColon_def returns_simps)

lemma returns_no_semicolon:
  assumes "coming s ((IDENT, x) # ks)" and "Q False s"
  shows "returns autoSemiColon Q s"
  using assms(2) coming_token [OF assms(1)]
  by (simp add: autoSemiColon_def allowAutomaticSemicolon_def returns_simps)

subsection \<open>Lists of statements\<close>

definition statement_yields :: "treeP \<Rightarrow> stmt \<Rightarrow> bool" where
  "statement_yields ps s \<longleftrightarrow>
     (\<forall>st k ks. coming st (stmt_tokens s @ k # ks) \<longrightarrow> \<not> takes s (fst k) \<longrightarrow>
        returns ps (\<lambda>r t. r = Some (stmt_node s) \<and> coming t (k # ks)) st)"

text \<open>What is known of \<open>parseStatement\<close> one call deeper.\<close>

abbreviation ends_statements :: "JSTokenType \<Rightarrow> bool" where
  "ends_statements t \<equiv> t = CLOSEBRACE \<or> t = EOFTOK"

definition statements_ok :: "nat \<Rightarrow> treeP \<Rightarrow> bool" where
  "statements_ok n ps \<longleftrightarrow>
     (\<forall>s. stmt_wf s \<longrightarrow> length (stmt_tokens s) < n \<longrightarrow> statement_yields ps s) \<and>
     (\<forall>st k ks. 0 < n \<longrightarrow> coming st (k # ks) \<longrightarrow> ends_statements (fst k) \<longrightarrow>
        returns ps (\<lambda>r t. r = None \<and> coming t (k # ks)) st)"

lemma returns_statement:
  assumes "statements_ok n ps" and "stmt_wf s" and "length (stmt_tokens s) < n"
    and "coming st (stmt_tokens s @ k # ks)" and "\<not> takes s (fst k)"
    and "\<And>t. coming t (k # ks) \<Longrightarrow> Q (Some (stmt_node s)) t"
  shows "returns ps Q st"
proof -
  have "statement_yields ps s" using assms(1-3) by (simp add: statements_ok_def)
  then have "returns ps (\<lambda>r t. r = Some (stmt_node s) \<and> coming t (k # ks)) st"
    using assms(4,5) unfolding statement_yields_def by blast
  then show ?thesis by (rule returns_mono) (use assms(6) in auto)
qed

lemma returns_need_statement:
  assumes "statements_ok n ps" and "stmt_wf s" and "length (stmt_tokens s) < n"
    and "coming st (stmt_tokens s @ k # ks)" and "\<not> takes s (fst k)"
    and "\<And>t. coming t (k # ks) \<Longrightarrow> Q (stmt_node s) t"
  shows "returns (needP ps) Q st"
  unfolding returns_need by (rule returns_statement [OF assms(1-5)]) (use assms(6) in simp_all)

text \<open>The tokens a statement may start with.\<close>

definition statement_start :: "JSTokenType list" where
  "statement_start = expression_start @ [SEMICOLON, OPENBRACE, IF, WHILE, DO, WITH, RETURN, THROW, BREAK, CONTINUE,
     VAR, TRY, DEBUGGER]"

lemma stmt_start: "stmt_wf s \<Longrightarrow> \<exists>k ks. stmt_tokens s = k # ks \<and> fst k \<in> set statement_start"
proof (cases s)
  case (ExprStmt e)
  assume "stmt_wf s"
  then obtain k ks where "wrap 0 e = k # ks" "fst k \<in> set expression_start"
    using wrap_start [of e 0] ExprStmt by auto
  then show ?thesis using ExprStmt by (simp add: wrap_def paren_def statement_start_def)
qed (auto simp: statement_start_def braces_def)

lemma statement_start_not: "t \<in> set statement_start \<Longrightarrow> t \<noteq> ELSE \<and> t \<noteq> FINALLY \<and> \<not> ends_statements t"
  by (auto simp: statement_start_def primary_start_def prefix_operators_def)

lemma length_statements: "list_all stmt_wf ss \<Longrightarrow> length ss \<le> length (concat (map stmt_tokens ss))"
proof (induction ss)
  case (Cons s ss)
  then show ?case using stmt_start [of s] by auto
qed simp

lemma returns_statements_loop:
  assumes "statements_ok n ps" and "list_all stmt_wf ss" and "length (concat (map stmt_tokens ss)) < n"
    and "coming st (concat (map stmt_tokens ss) @ k # ks)" and "ends_statements (fst k)" and "length ss < m"
    and "\<And>t. coming t (k # ks) \<Longrightarrow> Q (foldl appendStatement acc (map stmt_node ss)) t"
  shows "returns (loopP m (\<lambda>sourceElements.
        bindP ps (\<lambda>statement.
        case statement of
          None \<Rightarrow> retP (Inr sourceElements)
        | Some st \<Rightarrow> retP (Inl (appendStatement sourceElements st)))) acc) Q st"
    (is "returns (loopP m ?body acc) Q st")
  using assms(2-7)
proof (induction ss arbitrary: st m acc)
  case Nil
  obtain m' where m: "m = Suc m'" using Nil.prems(5) by (cases m) auto
  have "returns ps (\<lambda>r t. r = None \<and> coming t (k # ks)) st"
    using assms(1) Nil.prems(2-4) unfolding statements_ok_def by fastforce
  then have "returns ps (\<lambda>r t. r = None \<and> Q acc t) st"
    by (rule returns_mono) (use Nil.prems(6) in auto)
  then show ?case
    unfolding m returns_loop returns_bind by (rule returns_mono) (auto simp: returns_simps)
next
  case (Cons s ss)
  obtain m' where m: "m = Suc m'" using Cons.prems(5) by (cases m) auto
  let ?rest = "concat (map stmt_tokens ss) @ k # ks"
  have "\<exists>k' ks'. ?rest = k' # ks' \<and> \<not> takes s (fst k')"
  proof (cases ss)
    case Nil
    then show ?thesis using Cons.prems(4) takes_only [of s "fst k"] by auto
  next
    case (Cons s' ss')
    then obtain k' ks' where "stmt_tokens s' = k' # ks'" "fst k' \<in> set statement_start"
      using stmt_start [of s'] Cons.prems(1) by auto
    then show ?thesis using statement_start_not takes_only [of s "fst k'"] Cons by auto
  qed
  then obtain k' ks' where r: "?rest = k' # ks'" "\<not> takes s (fst k')" by blast
  have "returns (loopP m' ?body (appendStatement acc (stmt_node s))) Q t" if "coming t (k' # ks')" for t
    by (rule Cons.IH) (use that r Cons.prems m in auto)
  then have "returns ps (\<lambda>r t. \<exists>x. r = Some x \<and> returns (loopP m' ?body (appendStatement acc x)) Q t) st"
    using Cons.prems r by (intro returns_statement [OF assms(1), of s st k' ks']) auto
  then show ?case
    unfolding m returns_loop returns_bind by (rule returns_mono) (auto simp: returns_simps)
qed

lemma returns_source_elements:
  assumes "statements_ok n ps" and "list_all stmt_wf ss" and "length (concat (map stmt_tokens ss)) < n"
    and "coming st (concat (map stmt_tokens ss) @ k # ks)" and "ends_statements (fst k)"
    and "\<And>t. coming t (k # ks) \<Longrightarrow> Q (Some (statements_node (map stmt_node ss))) t"
  shows "returns (parseSourceElements n ps) Q st"
  unfolding parseSourceElements_def returns_bind returns_then returns_failIfError returns_ret
  by (intro returns_function, unfold returns_flow, rule returns_statements_loop [OF assms(1-5)])
     (use length_statements [OF assms(2)] assms(3,6) in \<open>auto simp: statements_node_def coming_token\<close>)

lemma returns_block:
  assumes "statements_ok n ps" and "list_all stmt_wf ss" and "length (concat (map stmt_tokens ss)) < n"
    and "coming st (braces (concat (map stmt_tokens ss)) @ k # ks)"
    and "\<And>t. coming t (k # ks) \<Longrightarrow> Q (Some (block_node (map stmt_node ss))) t"
  shows "returns (parseBlockStatement n ps) Q st"
proof -
  let ?ts = "concat (map stmt_tokens ss)"
  have c: "coming st (sym OPENBRACE # ?ts @ sym CLOSEBRACE # k # ks)" using assms(4) by (simp add: braces_def)
  have closing: "returns nextP (\<lambda>_. Q (Some (block_node (map stmt_node ss)))) u" if "coming u (sym CLOSEBRACE # k # ks)" for u
    by (rule returns_step [OF that]) (use assms(5) in simp_all)
  have inner: "returns (bindP (matchP CLOSEBRACE) (\<lambda>empty.
     if empty then thenP nextP (retP (Some (createBlockStatement None)))
     else
       bindP (needP (parseSourceElements n ps)) (\<lambda>subtree.
       thenP (matchOrFail CLOSEBRACE)
      (thenP nextP
      (retP (Some (createBlockStatement (Some subtree)))))))) Q t" if t: "coming t (?ts @ sym CLOSEBRACE # k # ks)" for t
  proof (cases ss)
    case Nil
    then show ?thesis
      using closing [of t] t coming_token(1) [of t "sym CLOSEBRACE"] by (simp add: returns_simps block_node_def)
  next
    case (Cons s ss')
    then have "tokenType t \<noteq> CLOSEBRACE"
      using stmt_start [of s] assms(2) t coming_token(1) [of t] statement_start_not by fastforce
    moreover have "returns (parseSourceElements n ps) (\<lambda>r u. \<exists>x. r = Some x \<and> tokenType u = CLOSEBRACE \<and>
        returns nextP (\<lambda>_. Q (Some (createBlockStatement (Some x)))) u) t"
      by (rule returns_source_elements [OF assms(1-3) t])
         (use closing Cons in \<open>auto simp: block_node_def coming_token\<close>)
    ultimately show ?thesis by (simp add: returns_simps)
  qed
  have "returns nextP (\<lambda>_. returns (bindP (matchP CLOSEBRACE) (\<lambda>empty.
     if empty then thenP nextP (retP (Some (createBlockStatement None)))
     else
       bindP (needP (parseSourceElements n ps)) (\<lambda>subtree.
       thenP (matchOrFail CLOSEBRACE)
      (thenP nextP
      (retP (Some (createBlockStatement (Some subtree)))))))) Q) st"
    by (rule returns_next [OF c]) (use inner leaves_coming in auto)
  then show ?thesis
    unfolding parseBlockStatement_def
    by (intro returns_function) (simp add: returns_bind returns_match returns_then returns_assert coming_token(1) [OF c])
qed

subsection \<open>Loops, conditions and jumps\<close>

text \<open>A keyword and a condition in parentheses, before what \<open>R\<close> stands for.\<close>

lemma returns_head:
  assumes "assignments_ok n pa" and "well_formed c" and "length (body c) < n" and "x \<noteq> DOT"
    and "coming st (sym x # sym OPENPAREN # body c @ sym CLOSEPAREN # k # ks)"
    and "\<And>t. coming t (k # ks) \<Longrightarrow> R (node c) t"
  shows "returns nextP (\<lambda>_. returns (consumeOrFail OPENPAREN) (\<lambda>_. returns (needP (parseExpression n pa))
    (\<lambda>e. returns (consumeOrFail CLOSEPAREN) (\<lambda>_. R e)))) st"
  by (rule returns_step [OF assms(5)]) (use returns_parenthesized [OF assms(1-3)] assms(4,6) in simp_all)

lemma returns_head_statement:
  assumes "assignments_ok n pa" and "statements_ok n ps" and "well_formed c" and "stmt_wf s" and "x \<noteq> DOT"
    and "length (body c) < n" and "length (stmt_tokens s) < n"
    and "coming st (sym x # sym OPENPAREN # body c @ sym CLOSEPAREN # stmt_tokens s @ k # ks)"
    and "\<not> takes s (fst k)" and "\<And>t. coming t (k # ks) \<Longrightarrow> R (node c) (stmt_node s) t"
  shows "returns nextP (\<lambda>_. returns (consumeOrFail OPENPAREN) (\<lambda>_. returns (needP (parseExpression n pa))
    (\<lambda>e. returns (consumeOrFail CLOSEPAREN) (\<lambda>_. returns (needP ps) (\<lambda>y. R e y))))) st"
proof -
  obtain k' ks' where r: "stmt_tokens s @ k # ks = k' # ks'" by (cases "stmt_tokens s") auto
  have "returns (needP ps) (\<lambda>y. R (node c) y) t" if "coming t (k' # ks')" for t
    by (rule returns_need_statement [OF assms(2,4,7) _ assms(9)]) (use that r assms(10) in auto)
  then show ?thesis
    using assms(8) r by (intro returns_head [OF assms(1,3,6,5)]) simp_all
qed

lemma returns_while:
  assumes "assignments_ok n pa" and "statements_ok n ps" and "stmt_wf (WhileStmt c s)"
    and "length (stmt_tokens (WhileStmt c s)) \<le> n"
    and "coming st (stmt_tokens (WhileStmt c s) @ k # ks)" and "\<not> takes s (fst k)"
    and "\<And>t. coming t (k # ks) \<Longrightarrow> Q (Some (stmt_node (WhileStmt c s))) t"
  shows "returns (parseWhileStatement n ps pa) Q st"
proof -
  have "returns nextP (\<lambda>_. returns (consumeOrFail OPENPAREN) (\<lambda>_. returns (needP (parseExpression n pa))
      (\<lambda>x. returns (consumeOrFail CLOSEPAREN) (\<lambda>_. returns (needP ps) (\<lambda>y. Q (Some (createWhileStatement x y))))))) st"
    by (rule returns_head_statement [OF assms(1,2), where c = c and s = s]) (use assms(3-7) in simp_all)
  then show ?thesis
    unfolding parseWhileStatement_def using assms(5)
    by (intro returns_function) (simp add: returns_flow returns_assert coming_token(1))
qed

lemma returns_with:
  assumes "assignments_ok n pa" and "statements_ok n ps" and "stmt_wf (WithStmt c s)"
    and "length (stmt_tokens (WithStmt c s)) \<le> n"
    and "coming st (stmt_tokens (WithStmt c s) @ k # ks)" and "\<not> takes s (fst k)"
    and "\<And>t. coming t (k # ks) \<Longrightarrow> Q (Some (stmt_node (WithStmt c s))) t"
  shows "returns (parseWithStatement n ps pa) Q st"
proof -
  have "returns nextP (\<lambda>_. returns (consumeOrFail OPENPAREN) (\<lambda>_. returns (needP (parseExpression n pa))
      (\<lambda>x. returns (consumeOrFail CLOSEPAREN) (\<lambda>_. returns (needP ps) (\<lambda>y. Q (Some (createWithStatement x y))))))) st"
    by (rule returns_head_statement [OF assms(1,2), where c = c and s = s]) (use assms(3-7) in simp_all)
  then show ?thesis
    unfolding parseWithStatement_def using assms(5)
    by (intro returns_function) (simp add: returns_flow returns_assert coming_token(1))
qed

lemma returns_do:
  assumes "assignments_ok n pa" and "statements_ok n ps" and "stmt_wf (DoStmt s c)"
    and "length (stmt_tokens (DoStmt s c)) \<le> n"
    and "coming st (stmt_tokens (DoStmt s c) @ k # ks)"
    and "\<And>t. coming t (k # ks) \<Longrightarrow> Q (Some (stmt_node (DoStmt s c))) t"
  shows "returns (parseDoWhileStatement n ps pa) Q st"
proof -
  have c: "coming st (sym DO # stmt_tokens s @ sym WHILE # sym OPENPAREN # body c @ sym CLOSEPAREN # sym SEMICOLON # k # ks)"
    using assms(5) by simp
  obtain k' ks' where r: "stmt_tokens s = k' # ks'" using stmt_start [of s] assms(3) by auto
  let ?close = "\<lambda>x y. returns (thenP (if y then nextP else retP ()) (retP (Some (createDoWhileStatement (stmt_node s) x)))) Q"
  have ending: "?close (node c) (tokenType t = SEMICOLON) t" if t: "coming t (sym SEMICOLON # k # ks)" for t
    using returns_step [OF t, of "\<lambda>_. Q (Some (stmt_node (DoStmt s c)))"] assms(6) coming_token(1) [OF t]
    by (simp add: returns_flow)
  have paren: "returns (consumeOrFail OPENPAREN) (\<lambda>_. returns (needP (parseExpression n pa))
      (\<lambda>x. returns (consumeOrFail CLOSEPAREN) (\<lambda>_ t. ?close x (tokenType t = SEMICOLON) t))) t"
    if "coming t (sym OPENPAREN # body c @ sym CLOSEPAREN # sym SEMICOLON # k # ks)" for t
    by (rule returns_parenthesized [OF assms(1) _ _ that]) (use ending assms(3,4) in auto)
  have while: "returns (consumeOrFail WHILE) (\<lambda>_. returns (consumeOrFail OPENPAREN) (\<lambda>_. returns (needP (parseExpression n pa))
      (\<lambda>x. returns (consumeOrFail CLOSEPAREN) (\<lambda>_ t. ?close x (tokenType t = SEMICOLON) t)))) t"
    if "coming t (sym WHILE # sym OPENPAREN # body c @ sym CLOSEPAREN # sym SEMICOLON # k # ks)" for t
    by (rule returns_consumeOrFail [OF that]) (use paren leaves_coming in auto)
  have "returns (needP ps) (\<lambda>y. returns (consumeOrFail WHILE) (\<lambda>_. returns (consumeOrFail OPENPAREN) (\<lambda>_. returns (needP (parseExpression n pa))
      (\<lambda>x. returns (consumeOrFail CLOSEPAREN) (\<lambda>_ t. returns (thenP (if tokenType t = SEMICOLON then nextP else retP ())
        (retP (Some (createDoWhileStatement y x)))) Q t))))) t"
    if "coming t (stmt_tokens s @ sym WHILE # sym OPENPAREN # body c @ sym CLOSEPAREN # sym SEMICOLON # k # ks)" for t
    by (rule returns_need_statement [OF assms(2) _ _ that]) (use while assms(3,4) takes_only [of s WHILE] in auto)
  then have "returns nextP (\<lambda>_. returns (needP ps) (\<lambda>y. returns (consumeOrFail WHILE) (\<lambda>_. returns (consumeOrFail OPENPAREN) (\<lambda>_. returns (needP (parseExpression n pa))
      (\<lambda>x. returns (consumeOrFail CLOSEPAREN) (\<lambda>_ t. returns (thenP (if tokenType t = SEMICOLON then nextP else retP ())
        (retP (Some (createDoWhileStatement y x)))) Q t)))))) st"
    by (intro returns_next [OF c]) (use leaves_coming in auto)
  then show ?thesis
    unfolding parseDoWhileStatement_def
    by (intro returns_function) (simp add: returns_flow returns_assert coming_token(1) [OF c])
qed

text \<open>
  The chain of \<open>else if\<close>: with the conditions \<open>es\<close> and the blocks \<open>ss\<close> on the stacks, a last
  branch \<open>x\<close> gives \<open>else_result es ss x\<close>.
\<close>

definition else_result :: "Node list \<Rightarrow> Node list \<Rightarrow> Node \<Rightarrow> Node option" where
  "else_result es ss x = (case foldElseIf es (x # ss) of Some (y # _) \<Rightarrow> Some y | _ \<Rightarrow> None)"

lemma elseChain_result:
  "elseChain es (x # ss) True = else_result es ss x"
  "elseChain (c # es) (a # ss) False = else_result es ss (createIfStatement c a)"
  "else_result (c # es) (a # ss) x = else_result es ss (createIfElseStatement c a x)"
  "else_result [] [] x = Some x"
  by (simp_all add: elseChain_def closeElseIf_def else_result_def)

lemma not_if_start:
  assumes "stmt_wf s" and "\<And>c a. s \<noteq> IfStmt c a" and "\<And>c a b. s \<noteq> IfElseStmt c a b"
  shows "\<exists>k ks. stmt_tokens s = k # ks \<and> fst k \<noteq> IF"
proof (cases s)
  case (ExprStmt e)
  then obtain k ks where "wrap 0 e = k # ks" "fst k \<in> set expression_start"
    using wrap_start [of e 0] assms(1) by auto
  then show ?thesis using ExprStmt by (auto simp: wrap_def paren_def primary_start_def prefix_operators_def)
qed (use assms in \<open>auto simp: braces_def\<close>)

lemma returns_else_chain:
  assumes "assignments_ok n pa" and "statements_ok n ps" and "stmt_wf b" and "length (stmt_tokens b) < n"
    and "coming st (sym ELSE # stmt_tokens b @ k # ks)" and "\<not> takes b (fst k)"
    and "length (stmt_tokens b) < m"
    and "\<And>t es' ss' trailing. coming t (k # ks) \<Longrightarrow> elseChain es' ss' trailing = else_result es ss (stmt_node b) \<Longrightarrow>
      Q (es', ss', trailing) t"
  shows "returns (loopP m (parseElseBranch n ps pa) (es, ss)) Q st"
proof -
  have base: "returns (loopP m (parseElseBranch n ps pa) (es, ss)) Q st"
    if b: "\<And>c a. b \<noteq> IfStmt c a" "\<And>c a b'. b \<noteq> IfElseStmt c a b'" "stmt_wf b" "length (stmt_tokens b) < n"
      "coming st (sym ELSE # stmt_tokens b @ k # ks)" "\<not> takes b (fst k)" "length (stmt_tokens b) < m"
      and final: "\<And>t es' ss' trailing. coming t (k # ks) \<Longrightarrow> elseChain es' ss' trailing = else_result es ss (stmt_node b) \<Longrightarrow>
        Q (es', ss', trailing) t" for b st m es ss
  proof -
    obtain m' where m: "m = Suc m'" using b(7) by (cases m) auto
    obtain k' ks' where start: "stmt_tokens b = k' # ks'" "fst k' \<noteq> IF" using not_if_start [OF b(3,1,2)] by auto
    have "returns (needP ps) (\<lambda>x t. Q (es, x # ss, True) t) t" if "coming t (stmt_tokens b @ k # ks)" for t
      by (rule returns_need_statement [OF assms(2) b(3,4) that b(6)]) (use final elseChain_result(1) in auto)
    moreover have "tokenType t \<noteq> IF" if "coming t (stmt_tokens b @ k # ks)" for t
      using that start coming_token(1) [of t k'] by simp
    ultimately have "returns nextP (\<lambda>_ t. tokenType t \<noteq> IF \<and> returns (needP ps) (\<lambda>x t. Q (es, x # ss, True) t) t) st"
      by (intro returns_next [OF b(5)]) (auto simp: leaves_coming)
    then have "returns nextP (\<lambda>_ t. returns (bindP (matchP IF) (\<lambda>elseIf.
      if \<not> elseIf then bindP (needP ps) (\<lambda>block. retP (Inr (es, block # ss, True)))
      else thenP nextP (thenP (consumeOrFail OPENPAREN) (bindP (needP (parseExpression n pa)) (\<lambda>innerCondition.
        thenP (consumeOrFail CLOSEPAREN) (bindP (needP ps) (\<lambda>innerTrueBlock. bindP (matchP ELSE) (\<lambda>more.
        let stacks' = (innerCondition # es, innerTrueBlock # ss)
        in retP (if more then Inl stacks' else Inr (fst stacks', snd stacks', False)))))))))) 
        (\<lambda>r t. case r of Inl a' \<Rightarrow> returns (loopP m' (parseElseBranch n ps pa) a') Q t | Inr b \<Rightarrow> Q b t) t) st"
      by (rule returns_mono) (simp add: returns_flow)
    then show ?thesis unfolding m returns_loop by (simp add: parseElseBranch_def returns_then)
  qed
  have round: "returns (loopP m (parseElseBranch n ps pa) (es, ss)) Q st"
    if b: "well_formed c" "stmt_wf a" "length (body c) < n" "length (stmt_tokens a) < n" "m = Suc m'"
      "coming st (sym ELSE # sym IF # sym OPENPAREN # body c @ sym CLOSEPAREN # stmt_tokens a @ k' # ks')"
      "\<not> takes a (fst k')"
      and rest: "\<And>t. coming t (k' # ks') \<Longrightarrow> if fst k' = ELSE
        then returns (loopP m' (parseElseBranch n ps pa) (node c # es, stmt_node a # ss)) Q t
        else Q (node c # es, stmt_node a # ss, False) t" for c a st m m' es ss k' ks'
  proof -
    let ?R = "\<lambda>e y t. if tokenType t = ELSE then returns (loopP m' (parseElseBranch n ps pa) (e # es, y # ss)) Q t
      else Q (e # es, y # ss, False) t"
    have "returns nextP (\<lambda>_. returns (consumeOrFail OPENPAREN) (\<lambda>_. returns (needP (parseExpression n pa))
      (\<lambda>e. returns (consumeOrFail CLOSEPAREN) (\<lambda>_. returns (needP ps) (\<lambda>y t. ?R e y t))))) t"
      if "coming t (sym IF # sym OPENPAREN # body c @ sym CLOSEPAREN # stmt_tokens a @ k' # ks')" for t
      by (rule returns_head_statement [OF assms(1,2) b(1,2) _ b(3,4) that b(7)]) (use rest coming_token(1) in auto)
    then have "returns nextP (\<lambda>_ t. tokenType t = IF \<and> returns nextP (\<lambda>_. returns (consumeOrFail OPENPAREN) (\<lambda>_. returns (needP (parseExpression n pa))
      (\<lambda>e. returns (consumeOrFail CLOSEPAREN) (\<lambda>_. returns (needP ps) (\<lambda>y t. ?R e y t))))) t) st"
      by (intro returns_step [OF b(6)]) (auto simp: coming_token)
    then have "returns nextP (\<lambda>_ t. returns (bindP (matchP IF) (\<lambda>elseIf.
      if \<not> elseIf then bindP (needP ps) (\<lambda>block. retP (Inr (es, block # ss, True)))
      else thenP nextP (thenP (consumeOrFail OPENPAREN) (bindP (needP (parseExpression n pa)) (\<lambda>innerCondition.
        thenP (consumeOrFail CLOSEPAREN) (bindP (needP ps) (\<lambda>innerTrueBlock. bindP (matchP ELSE) (\<lambda>more.
        let stacks' = (innerCondition # es, innerTrueBlock # ss)
        in retP (if more then Inl stacks' else Inr (fst stacks', snd stacks', False)))))))))) 
        (\<lambda>r t. case r of Inl a' \<Rightarrow> returns (loopP m' (parseElseBranch n ps pa) a') Q t | Inr b \<Rightarrow> Q b t) t) st"
      by (rule returns_mono) (auto simp: returns_flow Let_def elim!: returns_mono split: if_splits)
    then show ?thesis unfolding b(5) returns_loop by (simp add: parseElseBranch_def returns_then)
  qed
  show ?thesis
    using assms(3-8)
  proof (induction b arbitrary: st es ss m)
    case (IfStmt c s)
    obtain m' where m: "m = Suc m'" using IfStmt.prems(5) by (cases m) auto
    show ?case
      by (rule round [of c s m m' _ k ks]) (use IfStmt.prems m in \<open>auto simp: elseChain_result\<close>)
  next
    case (IfElseStmt c a b)
    obtain m' where m: "m = Suc m'" using IfElseStmt.prems(5) by (cases m) auto
    have "returns (loopP m' (parseElseBranch n ps pa) (node c # es, stmt_node a # ss)) Q t"
      if "coming t (sym ELSE # stmt_tokens b @ k # ks)" for t
      by (rule IfElseStmt.IH(2)) (use IfElseStmt.prems m that in \<open>auto simp: elseChain_result\<close>)
    then show ?case
      by (intro round [of c a m m' _ "sym ELSE" "stmt_tokens b @ k # ks"]) (use IfElseStmt.prems m in auto)
  qed (rule base; (assumption | simp))+
qed

end
