(* ===== verification/StatementParsing.thy ===== *)
theory StatementParsing
  imports StatementGrammar
begin

text \<open>
  The statements of \<open>StatementGrammar\<close> one by one: \<open>if\<close>, the jumps, declarations, \<open>try\<close> and
  expressions; then the choice that \<open>parseStatement\<close> makes by the first token, and the recursion.
\<close>

subsection \<open>if\<close>

definition if_tail :: "nat \<Rightarrow> treeP \<Rightarrow> treeP \<Rightarrow> Node \<Rightarrow> Node \<Rightarrow> bool \<Rightarrow> treeP" where
  "if_tail n ps pa condition trueBlock hasElse =
    (if \<not> hasElse then retP (Some (createIfStatement condition trueBlock))
     else
       bindP (loopP n (parseElseBranch n ps pa) ([], []))
         (\<lambda>(exprStack, statementStack, trailingElse).
       case elseChain exprStack statementStack trailingElse of
         None \<Rightarrow> crashP VectorAssertion
       | Some falseBlock \<Rightarrow> retP (Some (createIfElseStatement condition trueBlock falseBlock))))"

lemma returns_if_head:
  assumes "assignments_ok n pa" and "statements_ok n ps" and "well_formed c" and "stmt_wf s"
    and "length (body c) < n" and "length (stmt_tokens s) < n"
    and "coming st (sym IF # sym OPENPAREN # body c @ sym CLOSEPAREN # stmt_tokens s @ k # ks)"
    and "\<not> takes s (fst k)"
    and "\<And>t. coming t (k # ks) \<Longrightarrow> returns (if_tail n ps pa (node c) (stmt_node s) (fst k = ELSE)) Q t"
  shows "returns (parseIfStatement n ps pa) Q st"
proof -
  have "returns nextP (\<lambda>_. returns (consumeOrFail OPENPAREN) (\<lambda>_. returns (needP (parseExpression n pa))
      (\<lambda>x. returns (consumeOrFail CLOSEPAREN) (\<lambda>_. returns (needP ps)
        (\<lambda>y t. returns (if_tail n ps pa x y (tokenType t = ELSE)) Q t))))) st"
    by (rule returns_head_statement [OF assms(1-4) _ assms(5-8)]) (use assms(9) coming_token(1) in auto)
  then show ?thesis
    unfolding parseIfStatement_def if_tail_def [symmetric]
    by (intro returns_function) (simp add: returns_flow returns_assert coming_token(1) [OF assms(7)])
qed

lemma returns_if:
  assumes "assignments_ok n pa" and "statements_ok n ps" and "stmt_wf (IfStmt c s)"
    and "length (stmt_tokens (IfStmt c s)) \<le> n"
    and "coming st (stmt_tokens (IfStmt c s) @ k # ks)" and "\<not> takes (IfStmt c s) (fst k)"
    and "\<And>t. coming t (k # ks) \<Longrightarrow> Q (Some (stmt_node (IfStmt c s))) t"
  shows "returns (parseIfStatement n ps pa) Q st"
  by (rule returns_if_head [OF assms(1,2), where c = c and s = s])
     (use assms(3-7) in \<open>auto simp: if_tail_def returns_ret\<close>)

lemma returns_if_else:
  assumes "assignments_ok n pa" and "statements_ok n ps" and "stmt_wf (IfElseStmt c a b)"
    and "length (stmt_tokens (IfElseStmt c a b)) \<le> n"
    and "coming st (stmt_tokens (IfElseStmt c a b) @ k # ks)" and "\<not> takes b (fst k)"
    and "\<And>t. coming t (k # ks) \<Longrightarrow> Q (Some (stmt_node (IfElseStmt c a b))) t"
  shows "returns (parseIfStatement n ps pa) Q st"
proof (rule returns_if_head [OF assms(1,2), where c = c and s = a and k = "sym ELSE"])
  fix t assume t: "coming t (sym ELSE # stmt_tokens b @ k # ks)"
  have "returns (loopP n (parseElseBranch n ps pa) ([], []))
      (\<lambda>r. returns (case r of (es, ss, trailing) \<Rightarrow> case elseChain es ss trailing of
         None \<Rightarrow> crashP VectorAssertion
       | Some y \<Rightarrow> retP (Some (createIfElseStatement (node c) (stmt_node a) y))) Q) t"
    by (rule returns_else_chain [OF assms(1,2) _ _ t assms(6)])
       (use assms(3,4,7) in \<open>auto simp: elseChain_result returns_ret\<close>)
  then show "returns (if_tail n ps pa (node c) (stmt_node a) (fst (sym ELSE) = ELSE)) Q t"
    by (simp add: if_tail_def returns_bind)
qed (use assms(3-5) in simp_all)

subsection \<open>Jumps\<close>

lemma returns_jump:
  assumes "coming st (k0 # (case x of None \<Rightarrow> [] | Some x \<Rightarrow> [(IDENT, x)]) @ sym SEMICOLON # k # ks)"
    and "fst k0 \<noteq> DOT" and "\<And>t. coming t (k # ks) \<Longrightarrow> Q (Some (create x)) t"
  shows "returns (parseJump create) Q st"
proof (cases x)
  case None
  have "returns autoSemiColon (\<lambda>ended. returns (if ended then retP (Some (create None)) else
      thenP (matchOrFail IDENT) (bindP (getP tokenIdent) (\<lambda>ident. thenP nextP
        (bindP autoSemiColon (\<lambda>ok. thenP (failIfFalse ok) (retP (Some (create (Some ident)))))))))  Q) t"
    if "coming t (sym SEMICOLON # k # ks)" for t
    by (rule returns_semicolon [OF that]) (use assms(3) None in \<open>simp add: returns_ret\<close>)
  then show ?thesis
    unfolding parseJump_def returns_then returns_bind
    by (intro returns_step [of st k0 "sym SEMICOLON" "k # ks"]) (use assms(1,2) None in simp_all)
next
  case (Some y)
  have semi: "returns autoSemiColon (\<lambda>ok t. ok \<and> Q (Some (create (Some y))) t) t" if "coming t (sym SEMICOLON # k # ks)" for t
    by (rule returns_semicolon [OF that]) (use assms(3) Some in simp)
  have "returns nextP (\<lambda>_. returns autoSemiColon (\<lambda>ok t. ok \<and> Q (Some (create (Some y))) t)) t"
    if "coming t ((IDENT, y) # sym SEMICOLON # k # ks)" for t
    by (rule returns_step [OF that]) (use semi in simp_all)
  then have "returns autoSemiColon (\<lambda>ended. returns (if ended then retP (Some (create None)) else
      thenP (matchOrFail IDENT) (bindP (getP tokenIdent) (\<lambda>ident. thenP nextP
        (bindP autoSemiColon (\<lambda>ok. thenP (failIfFalse ok) (retP (Some (create (Some ident)))))))))  Q) t"
    if "coming t ((IDENT, y) # sym SEMICOLON # k # ks)" for t
    by (intro returns_no_semicolon [OF that]) (use that coming_token [OF that] in \<open>simp add: returns_flow\<close>)
  then show ?thesis
    unfolding parseJump_def returns_then returns_bind
    by (intro returns_step [of st k0 "(IDENT, y)" "sym SEMICOLON # k # ks"]) (use assms(1,2) Some in simp_all)
qed

lemma returns_break:
  assumes "coming st (stmt_tokens (BreakStmt x) @ k # ks)"
    and "\<And>t. coming t (k # ks) \<Longrightarrow> Q (Some (stmt_node (BreakStmt x))) t"
  shows "returns parseBreakStatement Q st"
  unfolding parseBreakStatement_def using assms
  by (intro returns_function)
     (auto simp: returns_bind returns_then returns_match returns_assert coming_token(1) intro!: returns_jump)

lemma returns_continue:
  assumes "coming st (stmt_tokens (ContinueStmt x) @ k # ks)"
    and "\<And>t. coming t (k # ks) \<Longrightarrow> Q (Some (stmt_node (ContinueStmt x))) t"
  shows "returns parseContinueStatement Q st"
  unfolding parseContinueStatement_def using assms
  by (intro returns_function)
     (auto simp: returns_bind returns_then returns_match returns_assert coming_token(1) intro!: returns_jump)

text \<open>An expression and its semicolon.\<close>

lemma returns_expression_semicolon:
  assumes "assignments_ok n pa" and "well_formed e" and "length (body e) < n"
    and "coming st (body e @ sym SEMICOLON # k # ks)" and "\<And>t. coming t (k # ks) \<Longrightarrow> Q (node e) True t"
  shows "returns (needP (parseExpression n pa)) (\<lambda>x. returns autoSemiColon (Q x)) st"
proof (rule returns_expression [OF assms(1-4)])
  fix t assume "coming t (sym SEMICOLON # k # ks)"
  then show "returns autoSemiColon (Q (node e)) t" by (rule returns_semicolon) (rule assms(5))
qed simp

lemma not_semicolon:
  assumes "well_formed e" and "coming t (body e @ k # ks)"
  shows "tokenType t \<in> set expression_start"
proof -
  obtain k' ks' where "wrap 0 e = k' # ks'" "fst k' \<in> set expression_start"
    using wrap_start [of e 0] assms(1) by auto
  then show ?thesis using coming_token(1) [of t k'] assms(2) by (simp add: wrap_def paren_def)
qed

lemma returns_throw:
  assumes "assignments_ok n pa" and "stmt_wf (ThrowStmt e)" and "length (stmt_tokens (ThrowStmt e)) \<le> n"
    and "coming st (stmt_tokens (ThrowStmt e) @ k # ks)"
    and "\<And>t. coming t (k # ks) \<Longrightarrow> Q (Some (stmt_node (ThrowStmt e))) t"
  shows "returns (parseThrowStatement n pa) Q st"
proof -
  obtain k' ks' where r: "body e @ sym SEMICOLON # k # ks = k' # ks'" by (cases "body e") auto
  have "returns (needP (parseExpression n pa)) (\<lambda>x. returns autoSemiColon (\<lambda>ok t. ok \<and> Q (Some (createThrowStatement x)) t)) t"
    if "coming t (body e @ sym SEMICOLON # k # ks)" for t
    by (rule returns_expression_semicolon [OF assms(1) _ _ that]) (use assms(2,3,5) in simp_all)
  then have "returns nextP (\<lambda>_. returns (needP (parseExpression n pa))
      (\<lambda>x. returns autoSemiColon (\<lambda>ok t. ok \<and> Q (Some (createThrowStatement x)) t))) st"
    by (intro returns_step [of st "sym THROW" k' ks']) (use assms(4) r in simp_all)
  then show ?thesis
    unfolding parseThrowStatement_def using assms(4)
    by (intro returns_function) (simp add: returns_flow returns_assert coming_token(1))
qed

lemma returns_return:
  assumes "assignments_ok n pa" and "stmt_wf (ReturnStmt x)" and "length (stmt_tokens (ReturnStmt x)) \<le> n"
    and "coming st (stmt_tokens (ReturnStmt x) @ k # ks)"
    and "\<And>t. coming t (k # ks) \<Longrightarrow> Q (Some (stmt_node (ReturnStmt x))) t"
  shows "returns (parseReturnStatement n pa) Q st"
proof -
  let ?tail = "\<lambda>ended. if ended then retP (Some (createReturnStatement None))
     else bindP (needP (parseExpression n pa)) (\<lambda>expr. bindP autoSemiColon (\<lambda>ok. thenP (failIfFalse ok)
      (retP (Some (createReturnStatement (Some expr))))))"
  have "returns nextP (\<lambda>_. returns autoSemiColon (\<lambda>ended. returns (?tail ended) Q)) st"
  proof (cases x)
    case None
    have "returns autoSemiColon (\<lambda>ended. returns (?tail ended) Q) t" if "coming t (sym SEMICOLON # k # ks)" for t
      by (rule returns_semicolon [OF that]) (use assms(5) None in \<open>simp add: returns_ret\<close>)
    then show ?thesis
      by (intro returns_step [of st "sym RETURN" "sym SEMICOLON" "k # ks"]) (use assms(4) None in simp_all)
  next
    case (Some e)
    obtain k' ks' where r: "body e @ sym SEMICOLON # k # ks = k' # ks'" by (cases "body e") auto
    have operand: "returns (needP (parseExpression n pa)) (\<lambda>y. returns autoSemiColon (\<lambda>ok t. ok \<and> Q (Some (createReturnStatement (Some y))) t)) t"
      if "coming t (body e @ sym SEMICOLON # k # ks)" for t
      by (rule returns_expression_semicolon [OF assms(1) _ _ that]) (use assms(2,3,5) Some in simp_all)
    have "returns autoSemiColon (\<lambda>ended. returns (?tail ended) Q) t" if t: "coming t (body e @ sym SEMICOLON # k # ks)" for t
    proof -
      have "tokenType t \<in> set expression_start" using not_semicolon [OF _ t] assms(2) Some by simp
      then have "tokenType t \<noteq> SEMICOLON" "tokenType t \<noteq> CLOSEBRACE" "tokenType t \<noteq> EOFTOK"
        using statement_start_not by (auto simp: primary_start_def prefix_operators_def)
      moreover have "\<not> m_terminator (m_lexer t)" using coming_token(5) t r by simp
      ultimately show ?thesis
        using operand [OF t] by (simp add: autoSemiColon_def allowAutomaticSemicolon_def returns_flow)
    qed
    then show ?thesis
      by (intro returns_step [of st "sym RETURN" k' ks']) (use assms(4) r Some in simp_all)
  qed
  then show ?thesis
    unfolding parseReturnStatement_def using assms(4)
    by (intro returns_function) (simp add: returns_then returns_bind returns_match returns_assert coming_token(1))
qed

lemma returns_debugger:
  assumes "coming st (stmt_tokens DebuggerStmt @ k # ks)"
    and "\<And>t. coming t (k # ks) \<Longrightarrow> Q (Some (stmt_node DebuggerStmt)) t"
  shows "returns parseDebuggerStatement Q st"
proof -
  have "returns autoSemiColon (\<lambda>ok t. ok \<and> Q (Some createDebugger) t) t" if "coming t (sym SEMICOLON # k # ks)" for t
    by (rule returns_semicolon [OF that]) (use assms(2) in simp)
  then have "returns nextP (\<lambda>_. returns autoSemiColon (\<lambda>ok t. ok \<and> Q (Some createDebugger) t)) st"
    by (intro returns_step [of st "sym DEBUGGER" "sym SEMICOLON" "k # ks"]) (use assms(1) in simp_all)
  then show ?thesis
    unfolding parseDebuggerStatement_def using assms(1)
    by (intro returns_function) (simp add: returns_flow returns_assert coming_token(1))
qed

lemma returns_empty:
  assumes "coming st (stmt_tokens EmptyStmt @ k # ks)"
    and "\<And>t. coming t (k # ks) \<Longrightarrow> Q (Some (stmt_node EmptyStmt)) t"
  shows "returns (thenP nextP (retP (Some createEmptyStatement))) Q st"
  unfolding returns_then returns_ret
  by (rule returns_step [of st "sym SEMICOLON" k ks]) (use assms in simp_all)

subsection \<open>Expression statements\<close>

lemma returns_expression_statement:
  assumes "assignments_ok n pa" and "stmt_wf (ExprStmt e)" and "length (stmt_tokens (ExprStmt e)) \<le> n"
    and "coming st (stmt_tokens (ExprStmt e) @ k # ks)"
    and "\<And>t. coming t (k # ks) \<Longrightarrow> Q (Some (stmt_node (ExprStmt e))) t"
  shows "returns (parseExpressionStatement n pa) Q st" and "returns (parseExpressionOrLabelStatement n ps pa) Q st"
proof -
  have run: "returns (needP (parseExpression n pa)) (\<lambda>x. returns autoSemiColon (R x)) st"
    if "\<And>t. coming t (k # ks) \<Longrightarrow> R (node e) True t" for R
    by (rule returns_expression_semicolon [OF assms(1)]) (use assms(2-4) that in simp_all)
  show "returns (parseExpressionStatement n pa) Q st"
    unfolding parseExpressionStatement_def returns_bind
    by (intro returns_function, unfold returns_bind, rule run) (use assms(5) in \<open>simp add: returns_flow\<close>)
  show "returns (parseExpressionOrLabelStatement n ps pa) Q st"
    unfolding parseExpressionOrLabelStatement_def
    by (intro returns_function, unfold returns_bind returns_get, rule run) (use assms(5) in \<open>simp add: returns_flow\<close>)
qed

subsection \<open>var\<close>

definition add_declaration :: "varDecls \<Rightarrow> uchars \<times> expr option \<Rightarrow> varDecls" where
  "add_declaration decls d =
    (case decls of (v, i, lastIdent, init) \<Rightarrow>
      (Some (case v of None \<Rightarrow> declarator_node d | Some v \<Rightarrow> combineCommaNodes v (declarator_node d)),
       i + 1, fst d, case snd d of None \<Rightarrow> init | Some e \<Rightarrow> Some (node e)))"

abbreviation declarator_ok :: "uchars \<times> expr option \<Rightarrow> bool" where
  "declarator_ok d \<equiv> identifier_ok (fst d) \<and> opt_all well_formed (snd d)"

lemma returns_declarator:
  assumes "assignments_ok n pa" and "declarator_ok d" and "length (declarator_tokens d) < n"
    and "coming st (k0 # declarator_tokens d @ k # ks)" and "fst k0 \<noteq> DOT" and "fst k \<in> {COMMA, SEMICOLON}"
    and "\<And>t. coming t (k # ks) \<Longrightarrow> Q (add_declaration decls d) t"
  shows "returns (parseVarDeclarator pa decls) Q st"
proof -
  obtain v i lastIdent init where decls: "decls = (v, i, lastIdent, init)" by (cases decls) auto
  obtain x r where d: "d = (x, r)" by fastforce
  let ?list = "\<lambda>y. Some (case v of None \<Rightarrow> y | Some v \<Rightarrow> combineCommaNodes v y)"
  let ?tail = "\<lambda>name hasInitializer.
      if hasInitializer then
        thenP nextP
       (bindP (needP pa) (\<lambda>initializer.
        let node = createAssignResolve name initializer
        in retP (?list node, i + 1, name, Some initializer)))
      else
        let node = createVarIdentifier name
        in retP (?list node, i + 1, name, init)"
  have "returns nextP (\<lambda>_ t. returns (?tail x (tokenType t = EQUAL)) Q t) t"
    if t: "coming t (declarator_tokens d @ k # ks)" for t
  proof (cases r)
    case None
    have "returns (?tail x (tokenType u = EQUAL)) Q u" if "coming u (k # ks)" for u
      using assms(6) assms(7) [OF that] coming_token(1) [OF that] d None by (cases v) (auto simp: decls add_declaration_def returns_ret Let_def)
    then show ?thesis
      by (intro returns_step [of t "(IDENT, x)" k ks]) (use t d None in simp_all)
  next
    case (Some e)
    have y: "yields pa (assignable 1 e) (node e) (wrap 1 e) ends_assignment"
      using assms(1-3) d Some by (simp add: assignments_ok_def)
    have q: "Q (?list (createAssignResolve x (node e)), i + 1, x, Some (node e)) u" if "coming u (k # ks)" for u
      using assms(7) [OF that] d Some by (cases v) (simp_all add: decls add_declaration_def)
    have e: "returns (needP pa) (\<lambda>y. Q (?list (createAssignResolve x y), i + 1, x, Some y)) u"
      if "coming u (wrap 1 e @ k # ks)" for u
      by (rule yields_need [OF y that])
         (use assms(6) q leaves_coming in \<open>auto simp: assignmentOperator_def\<close>)
    obtain k' ks' where r: "wrap 1 e @ k # ks = k' # ks'" by (cases "wrap 1 e") auto
    have "returns nextP (\<lambda>_. returns (needP pa) (\<lambda>y. Q (?list (createAssignResolve x y), i + 1, x, Some y))) u"
      if "coming u (sym EQUAL # wrap 1 e @ k # ks)" for u
      by (intro returns_step [of u "sym EQUAL" k' ks']) (use that e r in simp_all)
    then have "returns (?tail x (tokenType u = EQUAL)) Q u"
      if "coming u (sym EQUAL # wrap 1 e @ k # ks)" for u
      using that coming_token(1) [OF that] by (simp add: returns_flow Let_def)
    then show ?thesis
      by (intro returns_step [of t "(IDENT, x)" "sym EQUAL" "wrap 1 e @ k # ks"]) (use t d Some in simp_all)
  qed
  note parts = this
  obtain us where us: "declarator_tokens d = (IDENT, x) # us" by (cases r) (simp_all add: d)
  have "returns nextP (\<lambda>_ t. tokenType t = IDENT \<and>
      returns nextP (\<lambda>_ u. returns (?tail (tokenIdent t) (tokenType u = EQUAL)) Q u) t) st"
  proof (rule returns_step [of st k0 "(IDENT, x)" "us @ k # ks"])
    fix t assume t: "coming t ((IDENT, x) # us @ k # ks)"
    then have ident: "tokenType t = IDENT" "tokenIdent t = x" using coming_token(1,6) by auto
    show "tokenType t = IDENT \<and>
        returns nextP (\<lambda>_ u. returns (?tail (tokenIdent t) (tokenType u = EQUAL)) Q u) t"
      unfolding ident using parts [of t] t us by simp
  qed (use assms(4,5) us in simp_all)
  then show ?thesis
    by (simp add: parseVarDeclarator_def decls returns_then returns_bind returns_get returns_match returns_matchOrFail)
qed

lemma returns_declarations_loop:
  assumes "assignments_ok n pa" and "list_all declarator_ok (d # ds)"
    and "list_all (\<lambda>d. length (declarator_tokens d) < n) (d # ds)"
    and "coming st (k0 # commas (map declarator_tokens (d # ds)) @ sym SEMICOLON # k # ks)" and "fst k0 \<noteq> DOT"
    and "length ds < m"
    and "\<And>t. coming t (sym SEMICOLON # k # ks) \<Longrightarrow> Q (foldl add_declaration decls (d # ds)) t"
  shows "returns (loopP m (\<lambda>decls. bindP (parseVarDeclarator pa decls) (\<lambda>decls'.
       bindP (matchP COMMA) (\<lambda>comma. retP (if comma then Inl decls' else Inr decls')))) decls) Q st"
    (is "returns (loopP m ?body decls) Q st")
  using assms(2-7)
proof (induction ds arbitrary: d st k0 m decls)
  case Nil
  obtain m' where m: "m = Suc m'" using Nil.prems(5) by (cases m) auto
  have "returns (parseVarDeclarator pa decls) (\<lambda>r t. tokenType t \<noteq> COMMA \<and> Q r t) st"
    by (rule returns_declarator [OF assms(1), where d = d and ?k0.0 = k0 and k = "sym SEMICOLON" and ks = "k # ks"]) (use Nil.prems coming_token(1) in auto)
  then show ?case
    unfolding m returns_loop returns_bind by (rule returns_mono) (auto simp: returns_simps)
next
  case (Cons d' ds)
  obtain m' where m: "m = Suc m'" using Cons.prems(5) by (cases m) auto
  have "returns (loopP m' ?body (add_declaration decls d)) Q t"
    if "coming t (sym COMMA # commas (map declarator_tokens (d' # ds)) @ sym SEMICOLON # k # ks)" for t
    by (rule Cons.IH [where ?k0.0 = "sym COMMA"]) (use Cons.prems m that in auto)
  then have "returns (parseVarDeclarator pa decls) (\<lambda>r t. tokenType t = COMMA \<and> returns (loopP m' ?body r) Q t) st"
    using Cons.prems coming_token(1)
    by (intro returns_declarator [OF assms(1), where d = d and ?k0.0 = k0 and k = "sym COMMA"
      and ks = "commas (map declarator_tokens (d' # ds)) @ sym SEMICOLON # k # ks"]) auto
  then show ?case
    unfolding m returns_loop returns_bind by (rule returns_mono) (auto simp: returns_simps)
qed

lemma fold_declarations:
  "fst (foldl add_declaration (Some x, i, y, z) ds) = Some (foldl combineCommaNodes x (map declarator_node ds))"
proof (induction ds arbitrary: x i y z)
  case (Cons d ds)
  then show ?case by (simp add: add_declaration_def split: option.splits)
qed simp

lemma declarations_first:
  "ds \<noteq> [] \<Longrightarrow> fst (foldl add_declaration (None, i, y, z) ds) = declarations_node (map declarator_node ds)"
  by (cases ds) (auto simp: add_declaration_def fold_declarations)

lemma length_in_declarators:
  "d \<in> set ds \<Longrightarrow> length (declarator_tokens d) \<le> length (commas (map declarator_tokens ds))"
  by (rule length_in_commas) simp

lemma length_declarators: "length ds \<le> length (commas (map declarator_tokens ds))"
proof -
  have pos: "0 < length (declarator_tokens d)" for d by (cases d rule: declarator_tokens.cases) simp_all
  have "length ds \<le> length (concat (map (\<lambda>y. sym COMMA # y) (map declarator_tokens ds)))" for ds
    by (induction ds) auto
  from this [of "tl ds"] show ?thesis using pos [of "hd ds"]
    by (cases ds; cases "declarator_tokens (hd ds)") simp_all
qed

lemma returns_var:
  assumes "assignments_ok n pa" and "stmt_wf (VarStmt ds)" and "length (stmt_tokens (VarStmt ds)) \<le> n"
    and "coming st (stmt_tokens (VarStmt ds) @ k # ks)"
    and "\<And>t. coming t (k # ks) \<Longrightarrow> Q (Some (stmt_node (VarStmt ds))) t"
  shows "returns (parseVarDeclaration n pa) Q st"
proof -
  obtain d ds' where ds: "ds = d # ds'" using assms(2) by (cases ds) auto
  have ok: "list_all declarator_ok (d # ds')" using assms(2) ds by (auto simp: list_all_iff)
  have short: "list_all (\<lambda>d. length (declarator_tokens d) < n) (d # ds')"
    using length_in_declarators [of _ ds] assms(3) ds by (fastforce simp: list_all_iff)
  have semi: "returns autoSemiColon (\<lambda>ok t. ok \<and> Q (Some (stmt_node (VarStmt ds))) t) t" if "coming t (sym SEMICOLON # k # ks)" for t
    by (rule returns_semicolon [OF that]) (use assms(5) in simp)
  have "returns (parseVarDeclarationList n pa)
      (\<lambda>r t. \<not> m_error t \<and> returns autoSemiColon (\<lambda>ok t. ok \<and> Q (Some (createVarStatement (fst r))) t) t) st"
    unfolding parseVarDeclarationList_def
  proof (intro returns_function returns_declarations_loop [OF assms(1) ok short, where ?k0.0 = "sym VAR" and k = k and ks = ks])
    fix t assume t: "coming t (sym SEMICOLON # k # ks)"
    then show "\<not> m_error t \<and> returns autoSemiColon (\<lambda>ok t. ok \<and> Q (Some (createVarStatement
        (fst (foldl add_declaration (None, 0, nullIdentifier, None) (d # ds'))))) t) t"
      using semi [OF t] coming_token(3) [OF t] declarations_first [of ds 0 nullIdentifier None] ds
      by simp
  next
    show "length ds' < n" using length_declarators [of ds] assms(3) ds by simp
  qed (use assms(4) ds in simp_all)
  then show ?thesis
    unfolding parseVarDeclaration_def using assms(4)
    by (intro returns_function) (simp add: returns_flow returns_assert coming_token(1) case_prod_beta)
qed

subsection \<open>try\<close>

text \<open>A block behind the token \<open>k0\<close>, and what is made of it.\<close>

lemma returns_block_after:
  assumes "statements_ok n ps" and "list_all stmt_wf ss" and "length (concat (map stmt_tokens ss)) < n"
    and "coming st (k0 # braces (concat (map stmt_tokens ss)) @ k # ks)" and "fst k0 \<noteq> DOT"
    and "\<And>t. coming t (k # ks) \<Longrightarrow> R (block_node (map stmt_node ss)) t"
  shows "returns nextP (\<lambda>_ t. tokenType t = OPENBRACE \<and> returns (needP (parseBlockStatement n ps)) R t) st"
proof -
  let ?ts = "concat (map stmt_tokens ss)"
  have "coming st (k0 # sym OPENBRACE # ?ts @ sym CLOSEBRACE # k # ks)" using assms(4) by (simp add: braces_def)
  then show ?thesis
  proof (rule returns_step [OF _ assms(5)])
    fix t assume t: "coming t (sym OPENBRACE # ?ts @ sym CLOSEBRACE # k # ks)"
    then have "returns (needP (parseBlockStatement n ps)) R t"
      unfolding returns_need by (intro returns_block [OF assms(1-3)]) (use assms(6) in \<open>auto simp: braces_def\<close>)
    then show "tokenType t = OPENBRACE \<and> returns (needP (parseBlockStatement n ps)) R t"
      using coming_token(1) [OF t] by simp
  qed
qed

definition catch_part :: "nat \<Rightarrow> treeP \<Rightarrow> bool \<Rightarrow> (uchars \<times> Node option) parser" where
  "catch_part n ps hasCatch =
    (if hasCatch then
       thenP nextP
      (thenP (consumeOrFail OPENPAREN)
      (thenP (matchOrFail IDENT)
      (bindP (getP tokenIdent) (\<lambda>ident.
       thenP nextP
      (thenP (consumeOrFail CLOSEPAREN)
      (thenP (matchOrFail OPENBRACE)
      (bindP (needP (parseBlockStatement n ps)) (\<lambda>catchBlock.
       retP (ident, Some catchBlock)))))))))
     else retP (nullIdentifier, None))"

definition finally_part :: "nat \<Rightarrow> treeP \<Rightarrow> bool \<Rightarrow> treeP" where
  "finally_part n ps hasFinally =
    (if hasFinally then
       thenP nextP
      (thenP (matchOrFail OPENBRACE)
      (bindP (needP (parseBlockStatement n ps)) (\<lambda>finallyBlock.
       retP (Some finallyBlock))))
     else retP None)"

lemma returns_catch:
  assumes "statements_ok n ps" and "list_all stmt_wf cs" and "length (concat (map stmt_tokens cs)) < n"
    and "coming st (sym CATCH # sym OPENPAREN # (IDENT, x) # sym CLOSEPAREN # braces (concat (map stmt_tokens cs)) @ k # ks)"
    and "\<And>t. coming t (k # ks) \<Longrightarrow> R (x, Some (block_node (map stmt_node cs))) t"
  shows "returns (catch_part n ps True) R st"
proof -
  let ?block = "braces (concat (map stmt_tokens cs))"
  obtain b bs where b: "?block @ k # ks = b # bs" by (cases ?block) auto
  have close: "returns (consumeOrFail CLOSEPAREN) (\<lambda>_ t. tokenType t = OPENBRACE \<and>
      returns (needP (parseBlockStatement n ps)) (\<lambda>y. R (x, Some y)) t) t"
    if t: "coming t (sym CLOSEPAREN # ?block @ k # ks)" for t
  proof -
    have "returns nextP (\<lambda>_ t. tokenType t = OPENBRACE \<and> returns (needP (parseBlockStatement n ps)) (\<lambda>y. R (x, Some y)) t) t"
      by (rule returns_block_after [OF assms(1-3) t]) (use assms(5) in simp_all)
    then show ?thesis
      unfolding consumeOrFail_def consumeP_def returns_bind
      by (intro returns_function) (simp add: returns_flow coming_token(1) [OF t])
  qed
  have name: "returns nextP (\<lambda>_. returns (consumeOrFail CLOSEPAREN) (\<lambda>_ t. tokenType t = OPENBRACE \<and>
      returns (needP (parseBlockStatement n ps)) (\<lambda>y. R (x, Some y)) t)) t"
    if "coming t ((IDENT, x) # sym CLOSEPAREN # ?block @ k # ks)" for t
    by (rule returns_step [OF that]) (use close in simp_all)
  have "returns (consumeOrFail OPENPAREN) (\<lambda>_ t. tokenType t = IDENT \<and> returns nextP (\<lambda>_. returns (consumeOrFail CLOSEPAREN)
      (\<lambda>_ u. tokenType u = OPENBRACE \<and> returns (needP (parseBlockStatement n ps)) (\<lambda>y. R (tokenIdent t, Some y)) u)) t) t"
    if "coming t (sym OPENPAREN # (IDENT, x) # sym CLOSEPAREN # ?block @ k # ks)" for t
    by (rule returns_consumeOrFail [OF that]) (use name leaves_coming coming_token(1,6) in fastforce)+
  then have "returns nextP (\<lambda>_. returns (consumeOrFail OPENPAREN) (\<lambda>_ t. tokenType t = IDENT \<and> returns nextP (\<lambda>_. returns (consumeOrFail CLOSEPAREN)
      (\<lambda>_ u. tokenType u = OPENBRACE \<and> returns (needP (parseBlockStatement n ps)) (\<lambda>y. R (tokenIdent t, Some y)) u)) t)) st"
    by (intro returns_step [OF assms(4)]) simp_all
  then show ?thesis by (simp add: catch_part_def returns_flow)
qed

lemma returns_finally:
  assumes "statements_ok n ps" and "list_all stmt_wf fs" and "length (concat (map stmt_tokens fs)) < n"
    and "coming st (sym FINALLY # braces (concat (map stmt_tokens fs)) @ k # ks)"
    and "\<And>t. coming t (k # ks) \<Longrightarrow> R (Some (block_node (map stmt_node fs))) t"
  shows "returns (finally_part n ps True) R st"
proof -
  have "returns nextP (\<lambda>_ t. tokenType t = OPENBRACE \<and> returns (needP (parseBlockStatement n ps)) (\<lambda>y. R (Some y)) t) st"
    by (rule returns_block_after [OF assms(1-4)]) (use assms(5) in simp_all)
  then show ?thesis by (simp add: finally_part_def returns_flow)
qed

lemma returns_try_head:
  assumes "statements_ok n ps" and "list_all stmt_wf ss" and "length (concat (map stmt_tokens ss)) < n"
    and "coming st (sym TRY # braces (concat (map stmt_tokens ss)) @ k # ks)"
    and "\<And>t. coming t (k # ks) \<Longrightarrow> returns (catch_part n ps (fst k = CATCH)) (\<lambda>r t.
      returns (finally_part n ps (tokenType t = FINALLY)) (\<lambda>f t. (snd r \<noteq> None \<or> f \<noteq> None) \<and>
        Q (Some (createTryStatement (block_node (map stmt_node ss)) (fst r) (snd r) f)) t) t) t"
  shows "returns (parseTryStatement n ps) Q st"
proof -
  have "returns nextP (\<lambda>_ t. tokenType t = OPENBRACE \<and> returns (needP (parseBlockStatement n ps))
      (\<lambda>x t. returns (catch_part n ps (tokenType t = CATCH)) (\<lambda>r t.
        returns (finally_part n ps (tokenType t = FINALLY)) (\<lambda>f t. (snd r \<noteq> None \<or> f \<noteq> None) \<and>
          Q (Some (createTryStatement x (fst r) (snd r) f)) t) t) t) t) st"
    by (rule returns_block_after [OF assms(1-4)]) (use assms(5) coming_token(1) in auto)
  then show ?thesis
    unfolding parseTryStatement_def catch_part_def [symmetric] finally_part_def [symmetric]
    by (intro returns_function) (simp add: returns_flow returns_assert coming_token(1) [OF assms(4)] case_prod_beta)
qed

lemma no_parts:
  "returns (catch_part n ps False) R = R (nullIdentifier, None)"
  "returns (finally_part n ps False) R' = R' None"
  by (simp_all add: catch_part_def finally_part_def returns_ret)

lemma returns_try_catch:
  assumes "statements_ok n ps" and "stmt_wf (TryCatch ss x cs)" and "length (stmt_tokens (TryCatch ss x cs)) \<le> n"
    and "coming st (stmt_tokens (TryCatch ss x cs) @ k # ks)" and "\<not> takes (TryCatch ss x cs) (fst k)"
    and "\<And>t. coming t (k # ks) \<Longrightarrow> Q (Some (stmt_node (TryCatch ss x cs))) t"
  shows "returns (parseTryStatement n ps) Q st"
proof (rule returns_try_head [OF assms(1)])
  have other: "tokenType u \<noteq> FINALLY" if "coming u (k # ks)" for u
    using coming_token(1) [OF that] assms(5) by simp
  fix t assume "coming t (sym CATCH # sym OPENPAREN # (IDENT, x) # sym CLOSEPAREN # braces (concat (map stmt_tokens cs)) @ k # ks)"
  then show "returns (catch_part n ps (fst (sym CATCH) = CATCH)) (\<lambda>r t.
      returns (finally_part n ps (tokenType t = FINALLY)) (\<lambda>f t. (snd r \<noteq> None \<or> f \<noteq> None) \<and>
        Q (Some (createTryStatement (block_node (map stmt_node ss)) (fst r) (snd r) f)) t) t) t"
    unfolding fst_conv refl simp_thms
    by (intro returns_catch [OF assms(1)]) (use assms(2,3,6) other in \<open>auto simp: no_parts braces_def\<close>)
qed (use assms(2-4) in \<open>simp_all add: braces_def\<close>)

lemma returns_try_finally:
  assumes "statements_ok n ps" and "stmt_wf (TryFinally ss fs)" and "length (stmt_tokens (TryFinally ss fs)) \<le> n"
    and "coming st (stmt_tokens (TryFinally ss fs) @ k # ks)"
    and "\<And>t. coming t (k # ks) \<Longrightarrow> Q (Some (stmt_node (TryFinally ss fs))) t"
  shows "returns (parseTryStatement n ps) Q st"
proof (rule returns_try_head [OF assms(1)])
  fix t assume t: "coming t (sym FINALLY # braces (concat (map stmt_tokens fs)) @ k # ks)"
  have "returns (finally_part n ps True) (\<lambda>f t. f \<noteq> None \<and>
      Q (Some (createTryStatement (block_node (map stmt_node ss)) nullIdentifier None f)) t) t"
    by (rule returns_finally [OF assms(1) _ _ t]) (use assms(2,3,5) in \<open>simp_all add: braces_def\<close>)
  then show "returns (catch_part n ps (fst (sym FINALLY) = CATCH)) (\<lambda>r t.
      returns (finally_part n ps (tokenType t = FINALLY)) (\<lambda>f t. (snd r \<noteq> None \<or> f \<noteq> None) \<and>
        Q (Some (createTryStatement (block_node (map stmt_node ss)) (fst r) (snd r) f)) t) t) t"
    using coming_token(1) [OF t] by (simp add: no_parts)
qed (use assms(2-4) in \<open>simp_all add: braces_def\<close>)

lemma returns_try_catch_finally:
  assumes "statements_ok n ps" and "stmt_wf (TryCatchFinally ss x cs fs)"
    and "length (stmt_tokens (TryCatchFinally ss x cs fs)) \<le> n"
    and "coming st (stmt_tokens (TryCatchFinally ss x cs fs) @ k # ks)"
    and "\<And>t. coming t (k # ks) \<Longrightarrow> Q (Some (stmt_node (TryCatchFinally ss x cs fs))) t"
  shows "returns (parseTryStatement n ps) Q st"
proof (rule returns_try_head [OF assms(1)])
  let ?made = "\<lambda>c f. Some (createTryStatement (block_node (map stmt_node ss)) x c f)"
  fix t assume t: "coming t (sym CATCH # sym OPENPAREN # (IDENT, x) # sym CLOSEPAREN # braces (concat (map stmt_tokens cs)) @
    sym FINALLY # braces (concat (map stmt_tokens fs)) @ k # ks)"
  have "returns (finally_part n ps True) (\<lambda>f. Q (?made (Some (block_node (map stmt_node cs))) f)) u"
    if "coming u (sym FINALLY # braces (concat (map stmt_tokens fs)) @ k # ks)" for u
    by (rule returns_finally [OF assms(1) _ _ that]) (use assms(2,3,5) in \<open>simp_all add: braces_def\<close>)
  with t show "returns (catch_part n ps (fst (sym CATCH) = CATCH)) (\<lambda>r t.
      returns (finally_part n ps (tokenType t = FINALLY)) (\<lambda>f t. (snd r \<noteq> None \<or> f \<noteq> None) \<and>
        Q (Some (createTryStatement (block_node (map stmt_node ss)) (fst r) (snd r) f)) t) t) t"
    unfolding fst_conv refl simp_thms
    by (intro returns_catch [OF assms(1), where k = "sym FINALLY"])
       (use assms(2,3) coming_token(1) in \<open>auto simp: braces_def\<close>)
qed (use assms(2-4) in \<open>simp_all add: braces_def\<close>)

subsection \<open>The choice by the first token, and the recursion\<close>

lemma returns_choice:
  assumes "tokenType st = t"
  shows "returns (parseStatement_body n ps pa) Q st = returns
    (case t of
      OPENBRACE \<Rightarrow> parseBlockStatement n ps
    | VAR \<Rightarrow> parseVarDeclaration n pa
    | CONSTTOKEN \<Rightarrow> parseConstDeclaration n pa
    | FUNCTION \<Rightarrow> parseFunctionDeclaration n ps
    | SEMICOLON \<Rightarrow> thenP nextP (retP (Some createEmptyStatement))
    | IF \<Rightarrow> parseIfStatement n ps pa
    | DO \<Rightarrow> parseDoWhileStatement n ps pa
    | WHILE \<Rightarrow> parseWhileStatement n ps pa
    | FOR \<Rightarrow> parseForStatement n ps pa
    | CONTINUE \<Rightarrow> parseContinueStatement
    | BREAK \<Rightarrow> parseBreakStatement
    | RETURN \<Rightarrow> parseReturnStatement n pa
    | WITH \<Rightarrow> parseWithStatement n ps pa
    | SWITCH \<Rightarrow> parseSwitchStatement n ps pa
    | THROW \<Rightarrow> parseThrowStatement n pa
    | TRY \<Rightarrow> parseTryStatement n ps
    | DEBUGGER \<Rightarrow> parseDebuggerStatement
    | EOFTOK \<Rightarrow> retP None
    | CASE \<Rightarrow> retP None
    | CLOSEBRACE \<Rightarrow> retP None
    | DEFAULT \<Rightarrow> retP None
    | IDENT \<Rightarrow> parseExpressionOrLabelStatement n ps pa
    | _ \<Rightarrow> parseExpressionStatement n pa) Q st"
  using assms by (simp add: parseStatement_body_def returns_bind returns_get)

lemma returns_choice_expression:
  assumes "assignments_ok n pa" and "stmt_wf (ExprStmt e)" and "length (stmt_tokens (ExprStmt e)) \<le> n"
    and "coming st (stmt_tokens (ExprStmt e) @ k # ks)"
    and "\<And>t. coming t (k # ks) \<Longrightarrow> Q (Some (stmt_node (ExprStmt e))) t"
  shows "returns (parseStatement_body n ps pa) Q st"
proof -
  have "tokenType st \<in> set expression_start" using not_semicolon [of e st "sym SEMICOLON" "k # ks"] assms(2,4) by simp
  then show ?thesis
    using returns_expression_statement [where Q = Q, OF assms]
    by (auto simp: returns_choice [OF refl] primary_start_def prefix_operators_def)
qed

lemma parseStatement_body_yields:
  assumes "assignments_ok n pa" and "statements_ok n ps" and "stmt_wf s" and "length (stmt_tokens s) \<le> n"
  shows "statement_yields (parseStatement_body n ps pa) s"
  unfolding statement_yields_def
proof (intro allI impI)
  fix st k ks
  let ?Q = "\<lambda>r t. r = Some (stmt_node s) \<and> coming t (k # ks)"
  assume c: "coming st (stmt_tokens s @ k # ks)" "\<not> takes s (fst k)"
  then have first: "stmt_tokens s = k0 # us \<Longrightarrow> tokenType st = fst k0" for k0 us
    using coming_token(1) [of st k0 "us @ k # ks"] by simp
  note here = c assms(3,4)
  show "returns (parseStatement_body n ps pa) ?Q st"
  proof (cases s)
    case (ExprStmt e)
    then show ?thesis using here by (intro returns_choice_expression [OF assms(1)]) simp_all
  next
    case EmptyStmt
    then show ?thesis using here by (simp add: returns_choice [OF first]) (intro returns_empty; simp)
  next
    case (BlockStmt ss)
    then show ?thesis using here
      by (simp add: returns_choice [OF first] braces_def) (intro returns_block [OF assms(2)]; simp add: braces_def)
  next
    case (IfStmt c s')
    then show ?thesis using here
      by (simp add: returns_choice [OF first]) (intro returns_if [OF assms(1,2)]; simp)
  next
    case (IfElseStmt c a b)
    then show ?thesis using here
      by (simp add: returns_choice [OF first]) (intro returns_if_else [OF assms(1,2)]; simp)
  next
    case (WhileStmt c s')
    then show ?thesis using here
      by (simp add: returns_choice [OF first]) (intro returns_while [OF assms(1,2)]; simp)
  next
    case (DoStmt s' c)
    then show ?thesis using here
      by (simp add: returns_choice [OF first]) (intro returns_do [OF assms(1,2)]; simp)
  next
    case (WithStmt c s')
    then show ?thesis using here
      by (simp add: returns_choice [OF first]) (intro returns_with [OF assms(1,2)]; simp)
  next
    case (ReturnStmt x)
    then show ?thesis using here
      by (simp add: returns_choice [OF first]) (intro returns_return [OF assms(1)]; simp)
  next
    case (ThrowStmt e)
    then show ?thesis using here
      by (simp add: returns_choice [OF first]) (intro returns_throw [OF assms(1)]; simp)
  next
    case (BreakStmt x)
    then show ?thesis using here by (simp add: returns_choice [OF first]) (intro returns_break; simp)
  next
    case (ContinueStmt x)
    then show ?thesis using here by (simp add: returns_choice [OF first]) (intro returns_continue; simp)
  next
    case (VarStmt ds)
    then show ?thesis using here
      by (simp add: returns_choice [OF first]) (intro returns_var [OF assms(1)]; simp)
  next
    case (TryCatch ss x cs)
    then show ?thesis using here
      by (simp add: returns_choice [OF first]) (intro returns_try_catch [OF assms(2)]; simp)
  next
    case (TryFinally ss fs)
    then show ?thesis using here
      by (simp add: returns_choice [OF first]) (intro returns_try_finally [OF assms(2)]; simp)
  next
    case (TryCatchFinally ss x cs fs)
    then show ?thesis using here
      by (simp add: returns_choice [OF first]) (intro returns_try_catch_finally [OF assms(2)]; simp)
  next
    case DebuggerStmt
    then show ?thesis using here by (simp add: returns_choice [OF first]) (intro returns_debugger; simp)
  qed
qed

lemma parseStatement_yields: "statements_ok n (parseStatement n)"
proof (induction n)
  case 0
  show ?case by (simp add: statements_ok_def)
next
  case (Suc n)
  have body: "parseStatement (Suc n) = parseStatement_body n (parseStatement n) (parseAssignmentExpression n)"
    by (simp add: fun_eq_iff)
  have "returns (parseStatement (Suc n)) (\<lambda>r t. r = None \<and> coming t (k # ks)) st"
    if "coming st (k # ks)" "ends_statements (fst k)" for st k ks
    using that coming_token(1) [OF that(1)] by (auto simp: body returns_choice [OF refl] returns_ret)
  then show ?case
    using parseStatement_body_yields [OF parseAssignmentExpression_yields Suc]
    by (simp add: statements_ok_def body)
qed

lemma parseSourceElements_yields:
  assumes "list_all stmt_wf ss" and "length (concat (map stmt_tokens ss)) < n"
    and "coming st (concat (map stmt_tokens ss) @ [sym EOFTOK])"
    and "\<And>t. coming t [sym EOFTOK] \<Longrightarrow> Q (Some (statements_node (map stmt_node ss))) t"
  shows "returns (parseSourceElements n (parseStatement n)) Q st"
  by (rule returns_source_elements [OF parseStatement_yields assms(1-3)]) (use assms(4) in simp_all)

end
