(* ===== verification/ProgramRoundtrip.thy ===== *)
theory ProgramRoundtrip
  imports TokenText StatementParsing CreateSyntaxTree
begin

text \<open>
  Programs as text: the tokens of a program, written with a space before each, are parsed to the
  tree of the program by \<open>Parser::createSyntaxTree\<close>.
\<close>

subsection \<open>The tokens of a program are read back\<close>

text \<open>
  A piece of the token list between the points where the parser recognises reserved words.
\<close>

definition legible :: "terminal list \<Rightarrow> bool" where
  "legible ks \<longleftrightarrow> readable_all IdentifyReservedWords ks \<and> (ks = [] \<or> fst (last ks) \<noteq> DOT)"

lemma readable_append:
  "readable_all lt (xs @ ys) \<longleftrightarrow>
     readable_all lt xs \<and> readable_all (if xs = [] then lt else mode_after (last xs)) ys"
  by (induction lt xs rule: readable_all.induct) auto

lemma legible_Nil [simp]: "legible []"
  by (simp add: legible_def)

lemma legible_append [simp]: "legible xs \<Longrightarrow> legible (xs @ ys) \<longleftrightarrow> legible ys"
  by (auto simp: legible_def readable_append mode_after_def last_append)

lemma legible_Cons [simp]:
  "fst k \<noteq> DOT \<Longrightarrow> legible (k # ks) \<longleftrightarrow> readable IdentifyReservedWords k \<and> legible ks"
  by (auto simp: legible_def mode_after_def)

lemma legible_Dot [simp]: "legible (sym DOT # (IDENT, x) # ks) \<longleftrightarrow> word_chars x \<and> legible ks"
  by (auto simp: legible_def mode_after_def fixed_tokens_def punctuators_def)

lemma legible_concat: "list_all legible xs \<Longrightarrow> legible (concat xs)"
  by (induction xs) simp_all

lemma legible_paren [simp]: "legible xs \<Longrightarrow> legible (paren b xs)"
  by (simp add: paren_def fixed_tokens_def punctuators_def)

lemma legible_commas: "list_all legible xs \<Longrightarrow> legible (commas xs)"
  by (cases xs) (auto simp: fixed_tokens_def punctuators_def list_all_iff intro!: legible_concat)

text \<open>Operators and keywords are spelled in one way.\<close>

definition operator_tokens :: "JSTokenType list" where
  "operator_tokens = prefix_operators @ [THISTOKEN, NULLTOKEN, TRUETOKEN, FALSETOKEN, OROR, ANDAND, BITOR, BITXOR,
     BITAND, EQEQ, NE, STREQ, STRNEQ, LT, GT, LE, GE, INSTANCEOF, INTOKEN, LSHIFT, RSHIFT, URSHIFT, TIMES,
     DIVIDE, MOD, EQUAL, PLUSEQUAL, MINUSEQUAL, MULTEQUAL, DIVEQUAL, MODEQUAL, ANDEQUAL, OREQUAL, XOREQUAL,
     LSHIFTEQUAL, RSHIFTEQUAL, URSHIFTEQUAL]"

lemma operator_tokens:
  "t \<in> set prefix_operators \<or> binary_level t \<noteq> 0 \<or> assignmentOperator t \<noteq> None \<or>
     t \<in> {THISTOKEN, NULLTOKEN, TRUETOKEN, FALSETOKEN, PLUSPLUS, MINUSMINUS} \<Longrightarrow> t \<in> set operator_tokens"
proof -
  have "binary_level t \<noteq> 0 \<Longrightarrow> t \<in> set operator_tokens"
    by (cases t) (simp_all add: operator_tokens_def prefix_operators_def)
  moreover have "assignmentOperator t \<noteq> None \<Longrightarrow> t \<in> set operator_tokens"
    by (auto simp: assignmentOperator_def operator_tokens_def split: JSTokenType.splits if_splits)
  ultimately show "t \<in> set prefix_operators \<or> binary_level t \<noteq> 0 \<or> assignmentOperator t \<noteq> None \<or>
     t \<in> {THISTOKEN, NULLTOKEN, TRUETOKEN, FALSETOKEN, PLUSPLUS, MINUSMINUS} \<Longrightarrow> ?thesis"
    by (auto simp: operator_tokens_def prefix_operators_def)
qed

lemma operator_tokens_fixed: "t \<in> set operator_tokens \<Longrightarrow> t \<in> snd ` set fixed_tokens \<and> t \<notin> {IDENT, STRING, DOT}"
proof -
  have "list_all (\<lambda>t. t \<in> snd ` set fixed_tokens \<and> t \<notin> {IDENT, STRING, DOT}) operator_tokens" by code_simp
  then show "t \<in> set operator_tokens \<Longrightarrow> ?thesis" by (auto simp: list_all_iff)
qed

lemma legible_operator:
  assumes "t \<in> set prefix_operators \<or> binary_level t \<noteq> 0 \<or> assignmentOperator t \<noteq> None \<or>
     t \<in> {THISTOKEN, NULLTOKEN, TRUETOKEN, FALSETOKEN, PLUSPLUS, MINUSMINUS}"
  shows "legible (sym t # ks) \<longleftrightarrow> legible ks"
  using operator_tokens_fixed [OF operator_tokens [OF assms]] by auto

lemma legible_body: "well_formed e \<Longrightarrow> legible (body e)"
proof (induction e)
  case (Call f as)
  then have "list_all legible (map (wrap 1) as)" by (auto simp: list_all_iff wrap_def)
  then show ?case using Call by (simp add: body_wrap wrap_def legible_commas fixed_tokens_def punctuators_def)
next
  case (Comma a b cs)
  then have "list_all legible (map (wrap 1) (a # b # cs))" by (auto simp: list_all_iff wrap_def)
  then show ?case using legible_commas [of "map (wrap 1) (a # b # cs)"] by (simp add: body_wrap del: commas.simps)
next
  case (Keyword t)
  then show ?case using legible_operator [of t "[]"] by auto
qed (simp_all add: body_wrap wrap_def legible_operator fixed_tokens_def punctuators_def)

lemma fixed_statement_tokens:
  "t \<in> {SEMICOLON, OPENBRACE, CLOSEBRACE, OPENPAREN, CLOSEPAREN, EQUAL, IF, ELSE, WHILE, DO, WITH, RETURN, THROW,
     BREAK, CONTINUE, VAR, TRY, CATCH, FINALLY, DEBUGGER} \<Longrightarrow> t \<in> snd ` set fixed_tokens"
proof -
  have "list_all (\<lambda>t. t \<in> snd ` set fixed_tokens) [SEMICOLON, OPENBRACE, CLOSEBRACE, OPENPAREN, CLOSEPAREN, EQUAL,
     IF, ELSE, WHILE, DO, WITH, RETURN, THROW, BREAK, CONTINUE, VAR, TRY, CATCH, FINALLY, DEBUGGER]" by code_simp
  then show "t \<in> {SEMICOLON, OPENBRACE, CLOSEBRACE, OPENPAREN, CLOSEPAREN, EQUAL, IF, ELSE, WHILE, DO, WITH, RETURN, THROW,
     BREAK, CONTINUE, VAR, TRY, CATCH, FINALLY, DEBUGGER} \<Longrightarrow> ?thesis" by (auto simp: list_all_iff)
qed

lemma legible_declarator: "declarator_ok d \<Longrightarrow> legible (declarator_tokens d)"
  by (cases d rule: declarator_tokens.cases) (auto simp: wrap_def legible_body fixed_statement_tokens)

lemma legible_braces: "legible xs \<Longrightarrow> legible (braces xs)"
  by (simp add: braces_def fixed_statement_tokens)

lemma legible_block [simp]:
  "(\<And>s. s \<in> set ss \<Longrightarrow> legible (stmt_tokens s)) \<Longrightarrow> legible (braces (concat (map stmt_tokens ss)))"
  by (auto simp: list_all_iff intro!: legible_concat legible_braces)

lemma legible_stmt: "stmt_wf s \<Longrightarrow> legible (stmt_tokens s)"
proof (induction s)
  case (VarStmt ds)
  then have "list_all legible (map declarator_tokens ds)"
    by (auto simp: list_all_iff intro!: legible_declarator)
  from legible_commas [OF this] show ?case by (simp add: fixed_statement_tokens)
qed (auto simp: legible_body fixed_statement_tokens list_all_iff split: option.splits)

lemma legible_program: "list_all stmt_wf ss \<Longrightarrow> legible (concat (map stmt_tokens ss))"
  by (auto simp: list_all_iff intro!: legible_concat legible_stmt)

text \<open>Their characters are UTF-16 units, and no token is empty.\<close>

lemma isIdentPart_uchar: "isIdentPart c \<Longrightarrow> uchar_ok c"
  by (auto simp: isIdentPart_iff isASCIIDigit_def uchar_ok_def)

lemma print_char_ok: "uchar_ok c \<Longrightarrow> list_all uchar_ok (print_char c)"
proof -
  assume c: "uchar_ok c"
  have "uchar_ok (hex_digit v)" if "0 \<le> v" "v < 16" for v
    using that by (auto simp: hex_digit_def uchar_ok_def)
  moreover have "uchar_ok l" if "escape_letter c = Some l" for l
    using that by (auto simp: escape_letter_def uchar_ok_def split: if_split_asm)
  moreover have "0 \<le> c div 4096" "c div 4096 < 16" using c by (auto simp: uchar_ok_def)
  ultimately show ?thesis
    using c by (auto simp: print_char_def unicode_escape_def uchar_ok_def [of 92] uchar_ok_def [of 117] split: option.splits)
qed

lemma spell_ok: "readable lt k \<Longrightarrow> list_all uchar_ok (spell k) \<and> spell k \<noteq> []"
proof (cases k)
  case (Pair t x)
  assume r: "readable lt k"
  have table: "list_all (\<lambda>(p, t). list_all uchar_ok (uchars_of p) \<and> p \<noteq> []) fixed_tokens" by code_simp
  consider "t = IDENT" | "t = STRING" | "t \<noteq> IDENT" "t \<noteq> STRING" "(spelling t, t) \<in> set fixed_tokens"
    using fixed_tokens_spelled [of t] r Pair by (auto split: if_splits)
  then show ?thesis
  proof cases
    case 1
    then show ?thesis using r Pair isIdentPart_uchar by (auto simp: word_chars_def list_all_iff)
  next
    case 2
    then show ?thesis
      using r Pair print_char_ok by (auto simp: print_string_def list_all_iff uchar_ok_def [of 34])
  next
    case 3
    then show ?thesis using table Pair by (auto simp: list_all_iff uchars_of_def)
  qed
qed

lemma spell_all_ok:
  "readable_all lt ks \<Longrightarrow> list_all uchar_ok (spell_all ks) \<and> 2 * length ks \<le> length (spell_all ks)"
proof (induction lt ks rule: readable_all.induct)
  case (2 lt k ks)
  then show ?case
    using spell_ok [of lt k] by (cases "spell k") (auto simp: spell_all_def uchar_ok_def [of 32])
qed (simp add: spell_all_def)

subsection \<open>The round trip\<close>

definition program_text :: "stmt list \<Rightarrow> uchars" where
  "program_text ss = spell_all (concat (map stmt_tokens ss))"

definition program_node :: "stmt list \<Rightarrow> Node" where
  "program_node ss = statements_node (map stmt_node ss)"

text \<open>
  C3. Printing and parsing: the text that a program is printed as is parsed to the tree of the program,
  with no error line, whatever the statements, the nesting and the levels of the operators.
\<close>

theorem createSyntaxTree_print:
  assumes "list_all stmt_wf program" and "fresh_lexer lx" and "parserFuel (program_text program) \<le> n"
  shows "\<exists>t. createSyntaxTree n lx isValid token0 arrays numberToString (program_text program) =
    Ret (Some (program_node program), - 1) t"
proof -
  let ?ks = "concat (map stmt_tokens program)"
  have r: "readable_all IdentifyReservedWords ?ks"
    using legible_program [OF assms(1)] by (simp add: legible_def)
  have ok: "list_all uchar_ok (spell_all ?ks)" "length ?ks < n"
    using spell_all_ok [OF r] assms(3) by (simp_all add: parserFuel_def program_text_def)
  have elements: "returns (parseSourceElements n (parseStatement n))
      (\<lambda>tree t. tree = Some (program_node program) \<and> \<not> m_lexError (m_lexer t)) t"
    if "coming t (?ks @ [sym EOFTOK])" for t
    by (rule parseSourceElements_yields [OF assms(1) ok(2) that])
       (simp add: program_node_def shows_terminal_def)
  have "returns JSParser_ctor (\<lambda>_ t. returns (parseSourceElements n (parseStatement n))
      (\<lambda>tree t. tree = Some (program_node program) \<and> \<not> m_lexError (m_lexer t)) (t\<lparr>p_context := Builder\<rparr>))
      (start_state (spell_all ?ks) lx isValid token0 arrays numberToString)"
    by (rule returns_constructor [OF ok(1) _ _ r]) (use assms(2) elements in \<open>simp_all add: fresh_lexer_def\<close>)
  then have "returns (jsCreateSyntaxTree n) (\<lambda>tree t. tree = Some (program_node program) \<and> \<not> m_lexError (m_lexer t))
      (start_state (spell_all ?ks) lx isValid token0 arrays numberToString)"
    by (simp add: jsCreateSyntaxTree_def JSParser_createSyntaxTree_def returns_flow)
  then show ?thesis
    by (auto simp: createSyntaxTree_def program_text_def start_state_def returns_def bindP_def getP_def thenP_def
        modP_def retP_def split: outcome.splits)
qed

text \<open>A program with nested statements, operators of several levels and a string.\<close>

definition sample_program :: "stmt list" where
  "sample_program =
    [VarStmt [(uchars_of ''i'', Some (Prefix MINUS (Name (uchars_of ''n'')))), (uchars_of ''s'', None)],
     WhileStmt (Binary (Postfix (Name (uchars_of ''i'')) PLUSPLUS) LT (Dot (Name (uchars_of ''a'')) (uchars_of ''in'')))
       (IfElseStmt (Name (uchars_of ''s''))
         (ExprStmt (Assign (Name (uchars_of ''s'')) PLUSEQUAL (Binary (Binary (Name (uchars_of ''x'')) PLUS (Text [34, 10])) TIMES
           (Call (Name (uchars_of ''f'')) [Name (uchars_of ''i''), Keyword NULLTOKEN]))))
         (TryFinally [BreakStmt None] [ReturnStmt (Some (Keyword THISTOKEN))]))]"

lemma sample_program_text:
  "program_text sample_program = uchars_of ('' var i = - n , s ; while ( i ++ < a . in ) if ( s ) s += '' @
     ''( x + '' @ [CHR 0x22, CHR 0x5C, CHR 0x22, CHR 0x5C] @ ''n'' @ [CHR 0x22] @
     '' ) * f ( i , null ) ; else try { break ; } finally { return this ; }'')"
  by code_simp

theorem createSyntaxTree_print_witness:
  "\<exists>t. createSyntaxTree (parserFuel (program_text sample_program)) blank_lexer False blank_token (replicate 10 0)
      (\<lambda>_. []) (program_text sample_program) =
    Ret (Some (program_node sample_program), - 1) t"
proof -
  have "list_all stmt_wf sample_program" by code_simp
  then show ?thesis
    by (rule createSyntaxTree_print) (simp_all add: fresh_lexer_def blank_lexer_def)
qed

end
