(* ===== verification/Vectors.thy ===== *)
theory Vectors
  imports Main
begin

text \<open>
  \<open>wtf/Vector.h\<close>: the growable array behind the buffers of the scanner, the stacks of the syntax
  tree builder, the pools of the arena and the segments of \<open>SegmentedVector\<close>.

  A buffer is a list of cells; \<open>None\<close> is raw memory, where no object lives. It is the inline buffer of
  the vector or a block of the heap, numbered by the calls of \<open>malloc\<close>; a pointer into a vector is a
  block and an index, and is only good as long as that block is the buffer. \<open>vec_live\<close> holds the
  blocks that are allocated and not yet freed. Failed assertions, \<open>CRASH()\<close> and undefined accesses
  are values of \<open>fault\<close>.
\<close>

datatype fault = AssertionFailed | CrashCalled | NullDereference | RawMemory | BadFree

text \<open>Sequencing of operations that can fail.\<close>

definition bindE :: "'e + 'a \<Rightarrow> ('a \<Rightarrow> 'e + 'b) \<Rightarrow> 'e + 'b" where
  "bindE r f = (case r of Inl e \<Rightarrow> Inl e | Inr x \<Rightarrow> f x)"

definition assertE :: "bool \<Rightarrow> fault + unit" where
  "assertE b = (if b then Inr () else Inl AssertionFailed)"

lemma bindE_simps [simp]: "bindE (Inr x) f = f x" "bindE (Inl e) f = Inl e"
  by (simp_all add: bindE_def)

lemma bindE_Inr_iff: "bindE r f = Inr y \<longleftrightarrow> (\<exists>x. r = Inr x \<and> f x = Inr y)"
  by (cases r) simp_all

lemma assertE_simps [simp]: "b \<Longrightarrow> assertE b = Inr ()" "\<not> b \<Longrightarrow> assertE b = Inl AssertionFailed"
  by (simp_all add: assertE_def)

subsection \<open>The state\<close>

text \<open>
  What a vector knows of its element type and of its environment: the template argument
  \<open>inlineCapacity\<close>, \<open>sizeof(T)\<close>, the row of \<open>VectorTraits\<close> (\<open>podT\<close> is the row of \<open>IsPod\<close>: no
  constructor and destructor is run and elements are copied as bytes), the value \<open>T()\<close>, and which
  calls of \<open>malloc\<close> return null.
\<close>

record 'a vec_type =
  inlineCapacity :: nat
  sizeofT :: nat
  podT :: bool
  initialT :: 'a
  mallocFails :: "nat \<Rightarrow> bool"

datatype block = NullBlock | InlineBlock | HeapBlock nat

record 'a vec =
  vec_size :: nat
  vec_capacity :: nat
  vec_block :: block
  vec_cells :: "'a option list"
  vec_mallocs :: nat
  vec_live :: "nat list"

text \<open>The reference argument of \<open>append\<close>: an object elsewhere, or one in a buffer of a vector.\<close>

datatype 'a source = Outside 'a | Inside block nat

definition size_t_max :: nat where
  "size_t_max = 2 ^ 64 - 1"

subsection \<open>Buffers\<close>

definition inlineBuffer :: "'a vec_type \<Rightarrow> 'a vec \<Rightarrow> 'a vec" where
  "inlineBuffer T v =
    v\<lparr>vec_block := InlineBlock, vec_capacity := inlineCapacity T,
      vec_cells := (if vec_block v = InlineBlock then vec_cells v else replicate (inlineCapacity T) None)\<rparr>"

definition allocateBuffer :: "'a vec_type \<Rightarrow> nat \<Rightarrow> 'a vec \<Rightarrow> fault + 'a vec" where
  "allocateBuffer T newCapacity v =
    (if 0 < inlineCapacity T \<and> newCapacity \<le> inlineCapacity T then Inr (inlineBuffer T v)
     else if newCapacity > size_t_max div sizeofT T then Inl CrashCalled
     else if mallocFails T (vec_mallocs v) then
       Inr (v\<lparr>vec_capacity := newCapacity, vec_block := NullBlock, vec_cells := [],
         vec_mallocs := Suc (vec_mallocs v)\<rparr>)
     else
       Inr (v\<lparr>vec_capacity := newCapacity, vec_block := HeapBlock (vec_mallocs v),
         vec_cells := replicate newCapacity None, vec_mallocs := Suc (vec_mallocs v),
         vec_live := vec_mallocs v # vec_live v\<rparr>))"

definition freeBlock :: "block \<Rightarrow> 'a vec \<Rightarrow> fault + 'a vec" where
  "freeBlock b v =
    (case b of
       NullBlock \<Rightarrow> Inr v
     | InlineBlock \<Rightarrow> Inl BadFree
     | HeapBlock k \<Rightarrow> if k \<in> set (vec_live v) then Inr (v\<lparr>vec_live := remove1 k (vec_live v)\<rparr>) else Inl BadFree)"

definition deallocateBuffer :: "'a vec_type \<Rightarrow> block \<Rightarrow> 'a vec \<Rightarrow> fault + 'a vec" where
  "deallocateBuffer T bufferToDeallocate v =
    (if 0 < inlineCapacity T \<and> bufferToDeallocate = InlineBlock then Inr v
     else freeBlock bufferToDeallocate
       (if vec_block v = bufferToDeallocate then v\<lparr>vec_block := NullBlock, vec_capacity := 0, vec_cells := []\<rparr>
        else v))"

definition restoreInlineBufferIfNeeded :: "'a vec_type \<Rightarrow> 'a vec \<Rightarrow> 'a vec" where
  "restoreInlineBufferIfNeeded T v =
    (if inlineCapacity T = 0 \<or> vec_block v \<noteq> NullBlock then v else inlineBuffer T v)"

subsection \<open>Ranges of elements\<close>

definition destruct :: "'a vec_type \<Rightarrow> nat \<Rightarrow> nat \<Rightarrow> 'a option list \<Rightarrow> 'a option list" where
  "destruct T from to cells =
    (if podT T then cells else fold (\<lambda>i cs. cs[i := None]) [from..<to] cells)"

definition initialize :: "'a vec_type \<Rightarrow> nat \<Rightarrow> nat \<Rightarrow> 'a option list \<Rightarrow> 'a option list" where
  "initialize T from to cells =
    (if podT T then cells else fold (\<lambda>i cs. cs[i := Some (initialT T)]) [from..<to] cells)"

text \<open>The loop of \<open>VectorMover<false>::move\<close>, and \<open>memcpy\<close>, from the start of one buffer to another.\<close>

function moveLoop :: "nat \<Rightarrow> nat \<Rightarrow> 'a option list \<Rightarrow> 'a option list \<Rightarrow> fault + 'a option list" where
  "moveLoop src srcEnd from to =
    (if src < srcEnd then
       case from ! src of
         None \<Rightarrow> Inl RawMemory
       | Some x \<Rightarrow> moveLoop (Suc src) srcEnd (from[src := None]) (to[src := Some x])
     else Inr to)"
  by pat_completeness auto
termination
  by (relation "measure (\<lambda>(src, srcEnd, _). srcEnd - src)") auto

declare moveLoop.simps [simp del]

definition moveElements :: "'a vec_type \<Rightarrow> nat \<Rightarrow> 'a option list \<Rightarrow> 'a option list \<Rightarrow> fault + 'a option list" where
  "moveElements T n from to =
    (if n > length from \<or> n > length to then Inl NullDereference
     else if podT T then Inr (take n from @ drop n to)
     else moveLoop 0 n from to)"

subsection \<open>Operations\<close>

definition Vector_ctor :: "'a vec_type \<Rightarrow> 'a vec" where
  "Vector_ctor T =
    \<lparr>vec_size = 0, vec_capacity = inlineCapacity T,
     vec_block = (if inlineCapacity T = 0 then NullBlock else InlineBlock),
     vec_cells = replicate (inlineCapacity T) None, vec_mallocs = 0, vec_live = []\<rparr>"

text \<open>A read or a construction through \<open>m_buffer.buffer() + i\<close>.\<close>

definition readCell :: "nat \<Rightarrow> 'a vec \<Rightarrow> fault + 'a" where
  "readCell i v =
    (if vec_block v = NullBlock then Inl NullDereference
     else if i < length (vec_cells v) then
       (case vec_cells v ! i of None \<Rightarrow> Inl RawMemory | Some x \<Rightarrow> Inr x)
     else Inl RawMemory)"

definition writeCell :: "nat \<Rightarrow> 'a \<Rightarrow> 'a vec \<Rightarrow> fault + 'a vec" where
  "writeCell i x v =
    (if vec_block v = NullBlock then Inl NullDereference
     else if i < length (vec_cells v) then Inr (v\<lparr>vec_cells := (vec_cells v)[i := Some x]\<rparr>)
     else Inl RawMemory)"

definition at :: "nat \<Rightarrow> 'a vec \<Rightarrow> fault + 'a" where
  "at i v = bindE (assertE (i < vec_size v)) (\<lambda>_. readCell i v)"

definition vec_last :: "'a vec \<Rightarrow> fault + 'a" where
  "vec_last v = at ((vec_size v + size_t_max) mod (size_t_max + 1)) v"

definition shrink :: "'a vec_type \<Rightarrow> nat \<Rightarrow> 'a vec \<Rightarrow> fault + 'a vec" where
  "shrink T newSize v =
    bindE (assertE (newSize \<le> vec_size v)) (\<lambda>_.
    Inr (v\<lparr>vec_cells := destruct T newSize (vec_size v) (vec_cells v), vec_size := newSize\<rparr>))"

definition reserveCapacity :: "'a vec_type \<Rightarrow> nat \<Rightarrow> 'a vec \<Rightarrow> fault + 'a vec" where
  "reserveCapacity T newCapacity v =
    (if newCapacity \<le> vec_capacity v then Inr v
     else
       bindE (allocateBuffer T newCapacity v) (\<lambda>w.
       bindE (if vec_block w = NullBlock then Inr w
              else bindE (moveElements T (vec_size v) (vec_cells v) (vec_cells w)) (\<lambda>cells.
                Inr (w\<lparr>vec_cells := cells\<rparr>))) (\<lambda>w.
       deallocateBuffer T (vec_block v) w)))"

definition reserveInitialCapacity :: "'a vec_type \<Rightarrow> nat \<Rightarrow> 'a vec \<Rightarrow> fault + 'a vec" where
  "reserveInitialCapacity T initialCapacity v =
    bindE (assertE (vec_size v = 0)) (\<lambda>_.
    bindE (assertE (vec_capacity v = inlineCapacity T)) (\<lambda>_.
    if initialCapacity > inlineCapacity T then allocateBuffer T initialCapacity v else Inr v))"

definition expandCapacity :: "'a vec_type \<Rightarrow> nat \<Rightarrow> 'a vec \<Rightarrow> fault + 'a vec" where
  "expandCapacity T newMinCapacity v =
    reserveCapacity T (max newMinCapacity (max 16 (vec_capacity v + vec_capacity v div 4 + 1))) v"

text \<open>The pointer is moved along when it points to an element of the vector.\<close>

definition expandCapacityPtr ::
  "'a vec_type \<Rightarrow> nat \<Rightarrow> 'a source \<Rightarrow> 'a vec \<Rightarrow> fault + 'a source \<times> 'a vec" where
  "expandCapacityPtr T newMinCapacity ptr v =
    bindE (expandCapacity T newMinCapacity v) (\<lambda>w.
    Inr (case ptr of
           Outside x \<Rightarrow> Outside x
         | Inside b i \<Rightarrow> if b \<noteq> vec_block v \<or> i \<ge> vec_size v then Inside b i else Inside (vec_block w) i, w))"

definition readSource :: "'a source \<Rightarrow> 'a vec \<Rightarrow> fault + 'a" where
  "readSource ptr v =
    (case ptr of
       Outside x \<Rightarrow> Inr x
     | Inside b i \<Rightarrow> if b = vec_block v then readCell i v else Inl RawMemory)"

definition append :: "'a vec_type \<Rightarrow> 'a source \<Rightarrow> 'a vec \<Rightarrow> fault + 'a vec" where
  "append T ptr v =
    bindE (if vec_size v = vec_capacity v then expandCapacityPtr T (vec_size v + 1) ptr v else Inr (ptr, v))
      (\<lambda>(ptr, w).
    if vec_size v = vec_capacity v \<and> vec_block w = NullBlock then Inr w
    else
      bindE (readSource ptr w) (\<lambda>x.
      bindE (writeCell (vec_size w) x w) (\<lambda>w.
      Inr (w\<lparr>vec_size := vec_size w + 1\<rparr>))))"

definition uncheckedAppend :: "'a source \<Rightarrow> 'a vec \<Rightarrow> fault + 'a vec" where
  "uncheckedAppend ptr v =
    bindE (assertE (vec_size v < vec_capacity v)) (\<lambda>_.
    bindE (readSource ptr v) (\<lambda>x.
    bindE (writeCell (vec_size v) x v) (\<lambda>v.
    Inr (v\<lparr>vec_size := vec_size v + 1\<rparr>))))"

definition resize :: "'a vec_type \<Rightarrow> nat \<Rightarrow> 'a vec \<Rightarrow> fault + 'a vec" where
  "resize T newSize v =
    bindE
      (if newSize \<le> vec_size v then Inr (v\<lparr>vec_cells := destruct T newSize (vec_size v) (vec_cells v)\<rparr>)
       else
         bindE (if newSize > vec_capacity v then expandCapacity T newSize v else Inr v) (\<lambda>v.
         Inr (if vec_block v = NullBlock then v
              else v\<lparr>vec_cells := initialize T (vec_size v) newSize (vec_cells v)\<rparr>)))
      (\<lambda>v. Inr (v\<lparr>vec_size := newSize\<rparr>))"

definition grow :: "'a vec_type \<Rightarrow> nat \<Rightarrow> 'a vec \<Rightarrow> fault + 'a vec" where
  "grow T newSize v =
    bindE (assertE (newSize \<ge> vec_size v)) (\<lambda>_.
    bindE (if newSize > vec_capacity v then expandCapacity T newSize v else Inr v) (\<lambda>v.
    Inr ((if vec_block v = NullBlock then v
          else v\<lparr>vec_cells := initialize T (vec_size v) newSize (vec_cells v)\<rparr>)\<lparr>vec_size := newSize\<rparr>)))"

definition shrinkCapacity :: "'a vec_type \<Rightarrow> nat \<Rightarrow> 'a vec \<Rightarrow> fault + 'a vec" where
  "shrinkCapacity T newCapacity v =
    (if newCapacity \<ge> vec_capacity v then Inr v
     else
       bindE (if newCapacity < vec_size v then shrink T newCapacity v else Inr v) (\<lambda>v.
       bindE
         (if newCapacity > 0 then
            bindE (allocateBuffer T newCapacity v) (\<lambda>w.
            if vec_block w \<noteq> vec_block v then
              bindE (moveElements T (vec_size v) (vec_cells v) (vec_cells w)) (\<lambda>cells.
              Inr (w\<lparr>vec_cells := cells\<rparr>))
            else Inr w)
          else Inr v) (\<lambda>w.
       bindE (deallocateBuffer T (vec_block v) w) (\<lambda>w.
       Inr (restoreInlineBufferIfNeeded T w)))))"

definition clear :: "'a vec_type \<Rightarrow> 'a vec \<Rightarrow> fault + 'a vec" where
  "clear T v = shrinkCapacity T 0 v"

definition removeLast :: "'a vec_type \<Rightarrow> 'a vec \<Rightarrow> fault + 'a vec" where
  "removeLast T v =
    bindE (assertE (vec_size v \<noteq> 0)) (\<lambda>_. shrink T (vec_size v - 1) v)"

text \<open>\<open>~Vector\<close>, with the destructor of its buffer.\<close>

definition Vector_dtor :: "'a vec_type \<Rightarrow> 'a vec \<Rightarrow> fault + 'a vec" where
  "Vector_dtor T v =
    bindE (if vec_size v \<noteq> 0 then shrink T 0 v else Inr v) (\<lambda>v. deallocateBuffer T (vec_block v) v)"

subsection \<open>Loops over ranges\<close>

lemma fold_update:
  "length (fold (\<lambda>i cs. cs[i := x]) [a..<b] cs) = length cs"
  "i < length cs \<Longrightarrow> fold (\<lambda>i cs. cs[i := x]) [a..<b] cs ! i = (if a \<le> i \<and> i < b then x else cs ! i)"
proof (induction b)
  case (Suc b)
  { case 1 show ?case using Suc by simp }
  { case 2 show ?case using Suc 2 by (auto simp: nth_list_update less_Suc_eq) }
qed simp_all

lemma destruct_simps [simp]:
  "length (destruct T a b cs) = length cs"
  "i < length cs \<Longrightarrow> destruct T a b cs ! i = (if \<not> podT T \<and> a \<le> i \<and> i < b then None else cs ! i)"
  by (simp_all add: destruct_def fold_update)

lemma initialize_simps [simp]:
  "length (initialize T a b cs) = length cs"
  "i < length cs \<Longrightarrow>
     initialize T a b cs ! i = (if \<not> podT T \<and> a \<le> i \<and> i < b then Some (initialT T) else cs ! i)"
  by (simp_all add: initialize_def fold_update)

lemma moveLoop_eq:
  "i \<le> n \<Longrightarrow> n \<le> length from \<Longrightarrow> n \<le> length to \<Longrightarrow> \<forall>k. i \<le> k \<and> k < n \<longrightarrow> from ! k \<noteq> None \<Longrightarrow>
     moveLoop i n from to = Inr (take i to @ take (n - i) (drop i from) @ drop n to)"
proof (induction i n "from" to rule: moveLoop.induct)
  case (1 i n "from" to)
  show ?case
  proof (cases "i < n")
    case True
    with 1 obtain x where x: "from ! i = Some x" by (metis order.refl option.exhaust)
    let ?from = "from[i := None]" and ?to = "to[i := Some x]"
    have "moveLoop i n from to = moveLoop (Suc i) n ?from ?to"
      using True x by (subst moveLoop.simps) simp
    also have "\<dots> = Inr (take (Suc i) ?to @ take (n - Suc i) (drop (Suc i) ?from) @ drop n ?to)"
      using 1 True x by simp
    also have "take (Suc i) ?to = take i to @ [Some x]"
      using True 1(4) by (simp add: take_Suc_conv_app_nth)
    also have "take (n - i) (drop i from) = Some x # take (n - Suc i) (drop (Suc i) from)"
      using True 1(3) x by (metis Cons_nth_drop_Suc Suc_diff_Suc order_less_le_trans take_Suc_Cons)
    ultimately show ?thesis using True by simp
  next
    case False
    then show ?thesis using 1 by (subst moveLoop.simps) simp
  qed
qed

lemma moveElements_eq:
  "n \<le> length from \<Longrightarrow> n \<le> length to \<Longrightarrow> \<not> podT T \<longrightarrow> (\<forall>k < n. from ! k \<noteq> None) \<Longrightarrow>
     moveElements T n from to = Inr (take n from @ drop n to)"
  using moveLoop_eq [of 0 n "from" to] by (auto simp: moveElements_def)

subsection \<open>The invariant and the list of elements\<close>

definition vec_list :: "'a vec \<Rightarrow> 'a option list" where
  "vec_list v = take (vec_size v) (vec_cells v)"

text \<open>
  The capacity is the number of cells; a heap buffer is the one live block and larger than the inline
  buffer; unless the element type is plain data, objects live in the cells below the size and nowhere else.
\<close>

definition vec_inv :: "'a vec_type \<Rightarrow> 'a vec \<Rightarrow> bool" where
  "vec_inv T v \<longleftrightarrow>
    length (vec_cells v) = vec_capacity v \<and> vec_size v \<le> vec_capacity v \<and>
    (case vec_block v of
       NullBlock \<Rightarrow> inlineCapacity T = 0 \<and> vec_capacity v = 0 \<and> vec_live v = []
     | InlineBlock \<Rightarrow> 0 < inlineCapacity T \<and> vec_capacity v = inlineCapacity T \<and> vec_live v = []
     | HeapBlock k \<Rightarrow> inlineCapacity T < vec_capacity v \<and> vec_live v = [k] \<and> k < vec_mallocs v) \<and>
    (\<not> podT T \<longrightarrow> (\<forall>i < vec_capacity v. vec_cells v ! i \<noteq> None \<longleftrightarrow> i < vec_size v))"

lemma length_vec_list [simp]: "vec_inv T v \<Longrightarrow> length (vec_list v) = vec_size v"
  by (simp add: vec_list_def vec_inv_def)

lemma vec_list_nth: "i < vec_size v \<Longrightarrow> vec_list v ! i = vec_cells v ! i"
  by (simp add: vec_list_def)

lemma vec_inv_ctor [simp]: "vec_inv T (Vector_ctor T)" "vec_list (Vector_ctor T) = []"
  by (simp_all add: vec_inv_def Vector_ctor_def vec_list_def)

text \<open>Allocation succeeds.\<close>

definition roomy :: "'a vec_type \<Rightarrow> nat \<Rightarrow> bool" where
  "roomy T n \<longleftrightarrow> (\<forall>k. \<not> mallocFails T k) \<and> n \<le> size_t_max div sizeofT T"

lemma roomy_mono: "roomy T n \<Longrightarrow> m \<le> n \<Longrightarrow> roomy T m"
  by (simp add: roomy_def)

lemma reserveCapacity_ok:
  assumes "vec_inv T v" and "roomy T n"
  shows "\<exists>w. reserveCapacity T n v = Inr w \<and> vec_inv T w \<and> vec_list w = vec_list v \<and>
    vec_size w = vec_size v \<and> vec_capacity w = max n (vec_capacity v) \<and>
    (vec_capacity v < n \<longrightarrow> vec_block w \<noteq> NullBlock \<and> vec_mallocs w = Suc (vec_mallocs v))"
proof (cases "n \<le> vec_capacity v")
  case True
  then show ?thesis using assms(1) by (simp add: reserveCapacity_def)
next
  case False
  let ?w = "v\<lparr>vec_capacity := n, vec_block := HeapBlock (vec_mallocs v),
      vec_cells := replicate n None, vec_mallocs := Suc (vec_mallocs v),
      vec_live := vec_mallocs v # vec_live v\<rparr>"
  have ic: "inlineCapacity T \<le> vec_capacity v" using assms(1) by (auto simp: vec_inv_def split: block.splits)
  have a: "allocateBuffer T n v = Inr ?w"
    using assms(2) False ic by (simp add: allocateBuffer_def roomy_def)
  have m: "moveElements T (vec_size v) (vec_cells v) (replicate n None) =
      Inr (vec_list v @ replicate (n - vec_size v) None)"
    using assms(1) False by (subst moveElements_eq) (auto simp: vec_inv_def vec_list_def)
  have "vec_size v \<le> n" "length (vec_list v) = vec_size v"
    using assms(1) False length_vec_list [OF assms(1)] by (auto simp: vec_inv_def)
  then show ?thesis
    using a m assms(1) False ic
    by (cases "vec_block v")
       (auto simp: reserveCapacity_def deallocateBuffer_def freeBlock_def vec_inv_def vec_list_nth nth_append
          vec_list_def split: if_splits)
qed

subsection \<open>Every operation implements its operation on lists\<close>

definition capacity_bound :: "'a vec_type \<Rightarrow> nat \<Rightarrow> nat" where
  "capacity_bound T L = max (max 16 (inlineCapacity T)) (L + L div 4 + 1)"

lemma has_buffer: "vec_inv T v \<Longrightarrow> 0 < vec_capacity v \<Longrightarrow> vec_block v \<noteq> NullBlock"
  by (auto simp: vec_inv_def)

text \<open>Every reallocation multiplies the capacity by at least five quarters.\<close>

definition geometric :: "'a vec \<Rightarrow> bool" where
  "geometric v \<longleftrightarrow> (0 < vec_mallocs v \<longrightarrow>
    16 * 5 ^ (vec_mallocs v - 1) \<le> (4 :: nat) ^ (vec_mallocs v - 1) * vec_capacity v)"

lemma quarter_more: "5 * c \<le> 4 * (c + c div 4 + 1 :: nat)"
proof -
  define q where "q = c div 4"
  have "c < 4 * q + 4" unfolding q_def by (simp add: dividend_less_times_div)
  then show ?thesis unfolding q_def [symmetric] by simp
qed

lemma geometric_step:
  assumes "geometric v" and "vec_mallocs w = Suc (vec_mallocs v)"
    and "5 * vec_capacity v \<le> 4 * vec_capacity w" and "16 \<le> vec_capacity w"
  shows "geometric w"
proof (cases "vec_mallocs v")
  case 0
  then show ?thesis using assms(2,4) by (simp add: geometric_def)
next
  case (Suc m)
  have "16 * 5 ^ Suc m = 5 * (16 * 5 ^ m :: nat)" by simp
  also have "\<dots> \<le> 5 * (4 ^ m * vec_capacity v)"
    using assms(1) Suc by (intro mult_le_mono2) (simp add: geometric_def)
  also have "\<dots> = 4 ^ m * (5 * vec_capacity v)" by simp
  also have "\<dots> \<le> 4 ^ m * (4 * vec_capacity w)" using assms(3) by (rule mult_le_mono2)
  finally show ?thesis using assms(2) Suc by (simp add: geometric_def)
qed

lemma expandCapacity_ok:
  assumes "vec_inv T v" and "vec_capacity v < n" and "n \<le> L" and "roomy T (capacity_bound T L)"
  shows "\<exists>w. expandCapacity T n v = Inr w \<and> vec_inv T w \<and> vec_list w = vec_list v \<and>
    vec_size w = vec_size v \<and> n \<le> vec_capacity w \<and> vec_capacity w \<le> capacity_bound T L \<and>
    vec_block w \<noteq> NullBlock \<and> (geometric v \<longrightarrow> geometric w)"
proof -
  let ?n = "max n (max 16 (vec_capacity v + vec_capacity v div 4 + 1))"
  have "vec_capacity v + vec_capacity v div 4 \<le> L + L div 4"
    using assms(2,3) by (intro add_mono div_le_mono) simp_all
  then have b: "?n \<le> capacity_bound T L"
    using assms(3) unfolding capacity_bound_def by (intro max.boundedI) (simp_all add: le_max_iff_disj)
  from reserveCapacity_ok [OF assms(1) roomy_mono [OF assms(4) b]] assms(2)
  obtain w where w: "expandCapacity T n v = Inr w" "vec_inv T w" "vec_list w = vec_list v"
    "vec_size w = vec_size v" "vec_capacity w = ?n" "vec_block w \<noteq> NullBlock"
    "vec_mallocs w = Suc (vec_mallocs v)"
    unfolding expandCapacity_def by fastforce
  have "5 * vec_capacity v \<le> 4 * vec_capacity w"
    unfolding w(5) by (rule order_trans [OF quarter_more]) (intro mult_le_mono2, simp)
  moreover have "16 \<le> vec_capacity w" and "n \<le> vec_capacity w" unfolding w(5) by (simp_all only: max.cobounded1 le_max_iff_disj) simp_all
  moreover have "vec_capacity w \<le> capacity_bound T L" using b w(5) by (simp only:)
  ultimately show ?thesis using w geometric_step [of v w] by blast
qed

lemma push_ok:
  assumes "vec_inv T v" and "vec_size v < vec_capacity v"
  shows "writeCell (vec_size v) x v = Inr (v\<lparr>vec_cells := (vec_cells v)[vec_size v := Some x]\<rparr>)"
    and "vec_inv T (v\<lparr>vec_cells := (vec_cells v)[vec_size v := Some x], vec_size := Suc (vec_size v)\<rparr>)"
    and "vec_list (v\<lparr>vec_cells := (vec_cells v)[vec_size v := Some x], vec_size := Suc (vec_size v)\<rparr>) =
      vec_list v @ [Some x]"
  using assms has_buffer [OF assms(1)]
  by (auto simp: writeCell_def vec_inv_def vec_list_def take_Suc_conv_app_nth nth_list_update
      less_Suc_eq split: block.splits)

lemma readSource_ok:
  assumes "vec_inv T v" and "i < vec_size v" and "vec_list v ! i = Some x"
  shows "readSource (Inside (vec_block v) i) v = Inr x"
  using assms has_buffer [OF assms(1)]
  by (auto simp: readSource_def readCell_def vec_inv_def vec_list_nth)

text \<open>What the argument of \<open>append\<close> denotes.\<close>

definition denotes :: "'a source \<Rightarrow> 'a vec \<Rightarrow> 'a \<Rightarrow> bool" where
  "denotes ptr v x \<longleftrightarrow> ptr = Outside x \<or>
    (\<exists>i < vec_size v. ptr = Inside (vec_block v) i \<and> vec_list v ! i = Some x)"

lemma readSource_denotes: "vec_inv T v \<Longrightarrow> denotes ptr v x \<Longrightarrow> readSource ptr v = Inr x"
  using readSource_ok by (fastforce simp: denotes_def readSource_def)

lemma append_ok:
  assumes "vec_inv T v" and "denotes ptr v x" and "vec_size v < L" and "roomy T (capacity_bound T L)"
    and "vec_capacity v \<le> capacity_bound T L"
  shows "\<exists>w. append T ptr v = Inr w \<and> vec_inv T w \<and> vec_list w = vec_list v @ [Some x] \<and>
    vec_capacity w \<le> capacity_bound T L \<and> (geometric v \<longrightarrow> geometric w)"
proof (cases "vec_size v = vec_capacity v")
  case True
  from expandCapacity_ok [OF assms(1) _ _ assms(4), of "Suc (vec_size v)"] assms(3) True
  obtain w where w: "expandCapacity T (Suc (vec_size v)) v = Inr w" "vec_inv T w" "vec_list w = vec_list v"
    "vec_size w = vec_size v" "Suc (vec_size v) \<le> vec_capacity w" "vec_capacity w \<le> capacity_bound T L"
    "vec_block w \<noteq> NullBlock" "geometric v \<longrightarrow> geometric w"
    by auto
  let ?ptr = "case ptr of Outside x \<Rightarrow> Outside x
      | Inside b i \<Rightarrow> if b \<noteq> vec_block v \<or> i \<ge> vec_size v then Inside b i else Inside (vec_block w) i"
  have "denotes ?ptr w x" using assms(2) w(3,4) by (auto simp: denotes_def)
  then show ?thesis
    using w True readSource_denotes [OF w(2)] push_ok [OF w(2), of x]
    by (auto simp: append_def expandCapacityPtr_def geometric_def)
next
  case False
  then have "vec_size v < vec_capacity v" using assms(1) by (simp add: vec_inv_def)
  then show ?thesis
    using assms readSource_denotes [OF assms(1,2)] push_ok [OF assms(1), of x] False
    by (auto simp: append_def geometric_def)
qed

lemma shrink_ok:
  assumes "vec_inv T v" and "n \<le> vec_size v"
  shows "shrink T n v = Inr (v\<lparr>vec_cells := destruct T n (vec_size v) (vec_cells v), vec_size := n\<rparr>)"
    and "vec_inv T (v\<lparr>vec_cells := destruct T n (vec_size v) (vec_cells v), vec_size := n\<rparr>)"
    and "vec_list (v\<lparr>vec_cells := destruct T n (vec_size v) (vec_cells v), vec_size := n\<rparr>) =
      take n (vec_list v)"
  using assms
  by (auto simp: shrink_def vec_inv_def vec_list_def intro!: nth_equalityI split: block.splits)

lemma initialize_ok:
  assumes "vec_inv T v" and "vec_size v \<le> n" and "n \<le> vec_capacity v" and "\<not> podT T"
  shows "vec_inv T (v\<lparr>vec_cells := initialize T (vec_size v) n (vec_cells v), vec_size := n\<rparr>)"
    and "vec_list (v\<lparr>vec_cells := initialize T (vec_size v) n (vec_cells v), vec_size := n\<rparr>) =
      vec_list v @ replicate (n - vec_size v) (Some (initialT T))"
  using assms
  by (auto simp: vec_inv_def vec_list_def nth_append intro!: nth_equalityI split: block.splits)

lemma resize_shrinks:
  "vec_inv T v \<Longrightarrow> n \<le> vec_size v \<Longrightarrow> resize T n v = shrink T n v"
  by (simp add: resize_def shrink_def)

lemma resize_grows:
  assumes "vec_inv T v" and "vec_size v < n" and "n \<le> L" and "roomy T (capacity_bound T L)"
    and "vec_capacity v \<le> capacity_bound T L" and "\<not> podT T"
  shows "\<exists>w. resize T n v = Inr w \<and> vec_inv T w \<and>
    vec_list w = vec_list v @ replicate (n - vec_size v) (Some (initialT T)) \<and>
    vec_capacity w \<le> capacity_bound T L"
proof (cases "vec_capacity v < n")
  case True
  from expandCapacity_ok [OF assms(1) True assms(3,4)] obtain w where
    "expandCapacity T n v = Inr w" "vec_inv T w" "vec_list w = vec_list v"
    "vec_size w = vec_size v" "n \<le> vec_capacity w" "vec_capacity w \<le> capacity_bound T L"
    "vec_block w \<noteq> NullBlock"
    by blast
  then show ?thesis using initialize_ok [of T w n] True assms(2,6) by (auto simp: resize_def)
next
  case False
  then show ?thesis
    using initialize_ok [OF assms(1), of n] has_buffer [OF assms(1)] assms(2,5,6) by (auto simp: resize_def)
qed

lemma clear_inline:
  assumes "vec_inv T v" and "vec_size v = 0" and "0 < vec_capacity v"
  shows "\<exists>w. deallocateBuffer T (vec_block v) v = Inr w \<and> vec_inv T (restoreInlineBufferIfNeeded T w) \<and>
    vec_list (restoreInlineBufferIfNeeded T w) = [] \<and>
    vec_capacity (restoreInlineBufferIfNeeded T w) = inlineCapacity T"
  using assms
  by (cases "vec_block v")
     (auto simp: deallocateBuffer_def freeBlock_def restoreInlineBufferIfNeeded_def inlineBuffer_def
        vec_inv_def vec_list_def)

lemma inlineBuffer_same:
  "vec_inv T v \<Longrightarrow> vec_block v = InlineBlock \<Longrightarrow> inlineBuffer T v = v"
  by (simp add: inlineBuffer_def vec_inv_def)

lemma shrinkCapacity_fits:
  assumes "vec_inv T v" and "vec_size v \<le> n" and "n < vec_capacity v" and "roomy T (vec_capacity v)"
  shows "\<exists>w. shrinkCapacity T n v = Inr w \<and> vec_inv T w \<and> vec_list w = vec_list v \<and>
    vec_capacity w \<le> vec_capacity v"
proof (cases "n = 0")
  case True
  with assms(2,3) have z: "vec_size v = 0" "0 < vec_capacity v" by simp_all
  have "inlineCapacity T \<le> vec_capacity v" using assms(1) by (auto simp: vec_inv_def split: block.splits)
  moreover have "shrinkCapacity T n v =
      bindE (deallocateBuffer T (vec_block v) v) (\<lambda>w. Inr (restoreInlineBufferIfNeeded T w))"
    using True z by (simp add: shrinkCapacity_def)
  moreover have "vec_list v = []" using z by (simp add: vec_list_def)
  ultimately show ?thesis using clear_inline [OF assms(1) z] by auto
next
  case n: False
  have move: "moveElements T (vec_size v) (vec_cells v) (replicate k None) =
      Inr (vec_list v @ replicate (k - vec_size v) None)" if "n \<le> k" for k
    using assms(1,2) that by (subst moveElements_eq) (auto simp: vec_inv_def vec_list_def)
  have len: "length (vec_list v) = vec_size v" using assms(1) by simp
  have room: "n \<le> size_t_max div sizeofT T" "\<not> mallocFails T (vec_mallocs v)"
    using assms(3,4) by (auto simp: roomy_def)
  consider "vec_block v = InlineBlock" | k where "vec_block v = HeapBlock k" "n \<le> inlineCapacity T"
    | k where "vec_block v = HeapBlock k" "inlineCapacity T < n"
  proof (cases "vec_block v")
    case NullBlock
    then show ?thesis using assms(1,3) by (simp add: vec_inv_def)
  next
    case InlineBlock
    then show ?thesis using that(1) by simp
  next
    case (HeapBlock k)
    then show ?thesis using that(2,3) [of k] by linarith
  qed
  then show ?thesis
  proof cases
    case 1
    then show ?thesis
      using assms n by (auto simp: shrinkCapacity_def allocateBuffer_def inlineBuffer_same
          deallocateBuffer_def restoreInlineBufferIfNeeded_def vec_inv_def)
  next
    case 2
    then show ?thesis
      using assms(1-3) n move [of "inlineCapacity T"] len
      by (auto simp: shrinkCapacity_def allocateBuffer_def inlineBuffer_def deallocateBuffer_def
          freeBlock_def restoreInlineBufferIfNeeded_def vec_inv_def vec_list_def nth_append)
  next
    case 3
    then show ?thesis
      using assms(1-3) n move [of n] len room
      by (auto simp: shrinkCapacity_def allocateBuffer_def deallocateBuffer_def
          freeBlock_def restoreInlineBufferIfNeeded_def vec_inv_def vec_list_def nth_append)
  qed
qed

lemma shrinkCapacity_ok:
  assumes "vec_inv T v" and "roomy T (vec_capacity v)"
  shows "\<exists>w. shrinkCapacity T n v = Inr w \<and> vec_inv T w \<and> vec_list w = take n (vec_list v) \<and>
    vec_capacity w \<le> vec_capacity v"
proof -
  consider "vec_capacity v \<le> n" | "vec_size v \<le> n" "n < vec_capacity v" | "n < vec_size v" "n < vec_capacity v"
    by linarith
  then show ?thesis
  proof cases
    case 1
    then show ?thesis using assms(1) by (auto simp: shrinkCapacity_def vec_inv_def vec_list_def)
  next
    case 2
    then show ?thesis using shrinkCapacity_fits [OF assms(1) 2 assms(2)] assms(1) by simp
  next
    case 3
    let ?v = "v\<lparr>vec_cells := destruct T n (vec_size v) (vec_cells v), vec_size := n\<rparr>"
    have "shrinkCapacity T n v = shrinkCapacity T n ?v"
      using 3 shrink_ok(1) [OF assms(1), of n] by (simp add: shrinkCapacity_def)
    then show ?thesis
      using shrinkCapacity_fits [of T ?v n] shrink_ok(2,3) [OF assms(1), of n] 3 assms(2) by simp
  qed
qed

lemma removeLast_ok:
  assumes "vec_inv T v" and "vec_list v \<noteq> []"
  shows "\<exists>w. removeLast T v = Inr w \<and> vec_inv T w \<and> vec_list w = butlast (vec_list v) \<and>
    vec_capacity w = vec_capacity v"
proof -
  have "vec_size v \<noteq> 0" using assms(2) by (auto simp: vec_list_def)
  then show ?thesis
    using shrink_ok [OF assms(1), of "vec_size v - 1"] length_vec_list [OF assms(1)]
    by (simp add: removeLast_def butlast_conv_take)
qed

lemma at_ok:
  assumes "vec_inv T v" and "i < vec_size v" and "vec_list v ! i = Some x"
  shows "at i v = Inr x"
  using readSource_ok [OF assms] assms(2) by (simp add: at_def readSource_def)

lemma at_outside: "vec_size v \<le> i \<Longrightarrow> at i v = Inl AssertionFailed"
  by (simp add: at_def)

lemma Vector_dtor_ok:
  assumes "vec_inv T v"
  shows "\<exists>w. Vector_dtor T v = Inr w \<and> vec_live w = []"
proof -
  let ?v = "v\<lparr>vec_cells := destruct T 0 (vec_size v) (vec_cells v), vec_size := 0\<rparr>"
  have free: "\<exists>w. deallocateBuffer T (vec_block u) u = Inr w \<and> vec_live w = []" if "vec_inv T u" for u
    using that by (cases "vec_block u") (auto simp: vec_inv_def deallocateBuffer_def freeBlock_def)
  show ?thesis
  proof (cases "vec_size v = 0")
    case True
    then show ?thesis using free [OF assms] by (simp add: Vector_dtor_def)
  next
    case False
    have "vec_inv T ?v" using shrink_ok(2) [OF assms, of 0] by simp
    from free [OF this] show ?thesis using False shrink_ok(1) [OF assms, of 0] by (simp add: Vector_dtor_def)
  qed
qed

subsection \<open>Sequences of operations\<close>

datatype 'a vop =
    Append 'a
  | AppendElement nat
  | RemoveLast
  | Resize nat
  | Reserve nat
  | ShrinkTo nat
  | Clear

definition vec_step :: "'a vec_type \<Rightarrow> 'a vop \<Rightarrow> 'a vec \<Rightarrow> fault + 'a vec" where
  "vec_step T op v =
    (case op of
       Append x \<Rightarrow> append T (Outside x) v
     | AppendElement i \<Rightarrow> append T (Inside (vec_block v) i) v
     | RemoveLast \<Rightarrow> removeLast T v
     | Resize n \<Rightarrow> resize T n v
     | Reserve n \<Rightarrow> reserveCapacity T n v
     | ShrinkTo n \<Rightarrow> shrinkCapacity T n v
     | Clear \<Rightarrow> clear T v)"

primrec vec_run :: "'a vec_type \<Rightarrow> 'a vop list \<Rightarrow> 'a vec \<Rightarrow> fault + 'a vec" where
  "vec_run T [] v = Inr v"
| "vec_run T (op # ops) v = bindE (vec_step T op v) (vec_run T ops)"

text \<open>The same operations on lists; \<open>None\<close> where the caller may not use the operation.\<close>

definition list_step :: "'a vec_type \<Rightarrow> 'a vop \<Rightarrow> 'a option list \<Rightarrow> 'a option list option" where
  "list_step T op xs =
    (case op of
       Append x \<Rightarrow> Some (xs @ [Some x])
     | AppendElement i \<Rightarrow> if i < length xs \<and> xs ! i \<noteq> None then Some (xs @ [xs ! i]) else None
     | RemoveLast \<Rightarrow> if xs = [] then None else Some (butlast xs)
     | Resize n \<Rightarrow>
         if n \<le> length xs then Some (take n xs)
         else if podT T then None else Some (xs @ replicate (n - length xs) (Some (initialT T)))
     | Reserve n \<Rightarrow> Some xs
     | ShrinkTo n \<Rightarrow> Some (take n xs)
     | Clear \<Rightarrow> Some [])"

fun reserved :: "'a vop \<Rightarrow> nat" where
  "reserved (Reserve n) = n"
| "reserved _ = 0"

text \<open>No list on the way and no reserved capacity is longer than \<open>L\<close>.\<close>

primrec list_run :: "'a vec_type \<Rightarrow> nat \<Rightarrow> 'a vop list \<Rightarrow> 'a option list \<Rightarrow> 'a option list option" where
  "list_run T L [] xs = Some xs"
| "list_run T L (op # ops) xs =
    (case list_step T op xs of
       None \<Rightarrow> None
     | Some ys \<Rightarrow> if length ys \<le> L \<and> reserved op \<le> L then list_run T L ops ys else None)"

lemma vec_step_ok:
  assumes "vec_inv T v" and "vec_capacity v \<le> capacity_bound T L" and "roomy T (capacity_bound T L)"
    and "list_step T op (vec_list v) = Some ys" and "length ys \<le> L" and "reserved op \<le> L"
  shows "\<exists>w. vec_step T op v = Inr w \<and> vec_inv T w \<and> vec_list w = ys \<and> vec_capacity w \<le> capacity_bound T L"
proof (cases op)
  case (Append x)
  then show ?thesis
    using append_ok [of T v "Outside x" x L] assms by (auto simp: vec_step_def list_step_def denotes_def)
next
  case (AppendElement i)
  then obtain x where "i < vec_size v" "vec_list v ! i = Some x" "ys = vec_list v @ [Some x]"
    using assms(1,4) by (auto simp: list_step_def split: if_splits)
  then show ?thesis
    using append_ok [of T v "Inside (vec_block v) i" x L] assms AppendElement
    by (auto simp: vec_step_def denotes_def)
next
  case RemoveLast
  then show ?thesis
    using removeLast_ok [OF assms(1)] assms(2,4) by (auto simp: vec_step_def list_step_def split: if_splits)
next
  case (Resize n)
  show ?thesis
  proof (cases "n \<le> vec_size v")
    case True
    then show ?thesis
      using Resize assms shrink_ok [OF assms(1) True]
      by (auto simp: vec_step_def list_step_def resize_shrinks)
  next
    case False
    then show ?thesis
      using Resize assms resize_grows [of T v n L] by (auto simp: vec_step_def list_step_def split: if_splits)
  qed
next
  case (Reserve n)
  have n: "n \<le> capacity_bound T L" using assms(6) Reserve by (simp add: capacity_bound_def)
  from reserveCapacity_ok [OF assms(1) roomy_mono [OF assms(3) n]] show ?thesis
    using Reserve assms(2,4) n by (auto simp: vec_step_def list_step_def)
next
  case (ShrinkTo n)
  then show ?thesis
    using shrinkCapacity_ok [OF assms(1) roomy_mono [OF assms(3,2)], of n] assms(2,4)
    by (auto simp: vec_step_def list_step_def)
next
  case Clear
  then show ?thesis
    using shrinkCapacity_ok [OF assms(1) roomy_mono [OF assms(3,2)], of 0] assms(2,4)
    by (auto simp: vec_step_def list_step_def clear_def)
qed

lemma vec_run_ok:
  "vec_inv T v \<Longrightarrow> vec_capacity v \<le> capacity_bound T L \<Longrightarrow> roomy T (capacity_bound T L) \<Longrightarrow>
     list_run T L ops (vec_list v) = Some ys \<Longrightarrow>
     \<exists>w. vec_run T ops v = Inr w \<and> vec_inv T w \<and> vec_list w = ys \<and> vec_capacity w \<le> capacity_bound T L"
proof (induction ops arbitrary: v)
  case (Cons op ops)
  then obtain zs where "list_step T op (vec_list v) = Some zs" "length zs \<le> L" "reserved op \<le> L"
    "list_run T L ops zs = Some ys"
    by (auto split: option.splits if_splits)
  with vec_step_ok [of T v L op zs] Cons show ?case by fastforce
qed simp

text \<open>
  C8. A vector implements a list: a sequence of operations that is defined on lists runs without a failed
  assertion or a bad access, appending an element of the vector itself included; its elements are
  those of the list, its capacity stays within a quarter of the longest length, and its destructor
  frees every block. Memory is taken to suffice.
\<close>

theorem vec_run_refines_list:
  assumes "list_run T L ops [] = Some ys" and "roomy T (capacity_bound T L)"
  shows "\<exists>v w. vec_run T ops (Vector_ctor T) = Inr v \<and> vec_list v = ys \<and>
    vec_capacity v \<le> capacity_bound T L \<and> (\<forall>i x. i < length ys \<and> ys ! i = Some x \<longrightarrow> at i v = Inr x) \<and>
    Vector_dtor T v = Inr w \<and> vec_live w = []"
proof -
  have "vec_capacity (Vector_ctor T) \<le> capacity_bound T L"
    by (simp add: Vector_ctor_def capacity_bound_def)
  from vec_run_ok [OF _ this assms(2), of ops ys] assms(1) obtain v where
    "vec_run T ops (Vector_ctor T) = Inr v" "vec_inv T v" "vec_list v = ys"
    "vec_capacity v \<le> capacity_bound T L"
    by auto
  with Vector_dtor_ok [OF \<open>vec_inv T v\<close>] at_ok [OF \<open>vec_inv T v\<close>] show ?thesis by fastforce
qed

text \<open>A vector as the program has it: operators of the syntax tree builder, with ten inline elements.\<close>

definition operator_stack_type :: "(nat \<times> nat) vec_type" where
  "operator_stack_type =
    \<lparr>inlineCapacity = 10, sizeofT = 8, podT = True, initialT = (0, 0), mallocFails = (\<lambda>_. False)\<rparr>"

theorem vec_run_refines_list_witness:
  "\<exists>v w. vec_run operator_stack_type
       (map (\<lambda>i. Append (i, i)) [0..<10] @ [AppendElement 3, RemoveLast, AppendElement 4, Clear])
       (Vector_ctor operator_stack_type) = Inr v \<and> vec_list v = [] \<and>
     Vector_dtor operator_stack_type v = Inr w \<and> vec_live w = []"
proof -
  have "list_run operator_stack_type 20
      (map (\<lambda>i. Append (i, i)) [0..<10] @ [AppendElement 3, RemoveLast, AppendElement 4, Clear]) [] = Some []"
    by code_simp
  moreover have "roomy operator_stack_type (capacity_bound operator_stack_type 20)"
    by (simp add: roomy_def operator_stack_type_def capacity_bound_def size_t_max_def)
  ultimately show ?thesis using vec_run_refines_list by blast
qed

subsection \<open>Cost of growing\<close>

lemma append_run_geometric:
  assumes "vec_inv T v" and "vec_size v + length xs \<le> L" and "roomy T (capacity_bound T L)"
    and "vec_capacity v \<le> capacity_bound T L" and "geometric v"
  shows "\<exists>w. vec_run T (map Append xs) v = Inr w \<and> vec_list w = vec_list v @ map Some xs \<and> geometric w \<and>
    vec_capacity w \<le> capacity_bound T L"
  using assms
proof (induction xs arbitrary: v)
  case (Cons x xs)
  from append_ok [of T v "Outside x" x L] Cons.prems obtain w where w: "append T (Outside x) v = Inr w"
    "vec_inv T w" "vec_list w = vec_list v @ [Some x]" "vec_capacity w \<le> capacity_bound T L" "geometric w"
    by (auto simp: denotes_def)
  moreover have "vec_size w = Suc (vec_size v)"
    using length_vec_list [OF w(2)] length_vec_list [OF Cons.prems(1)] w(3) by simp
  ultimately show ?case using Cons.IH [of w] Cons.prems by (auto simp: vec_step_def)
qed simp

text \<open>
  C25. Appending elements one by one reallocates the buffer rarely: the number of calls of \<open>malloc\<close> is
  logarithmic in the number of elements, since every one multiplies the capacity by five quarters at
  least; and the capacity in the end is at most a quarter above the number of elements, or 16, or
  the inline capacity.
\<close>

theorem append_reallocates_rarely:
  assumes "roomy T (capacity_bound T (length xs))"
  shows "\<exists>v. vec_run T (map Append xs) (Vector_ctor T) = Inr v \<and> vec_list v = map Some xs \<and>
    vec_capacity v \<le> max (max 16 (inlineCapacity T)) (length xs + length xs div 4 + 1) \<and>
    (0 < vec_mallocs v \<longrightarrow> 16 * 5 ^ (vec_mallocs v - 1) \<le>
       4 ^ (vec_mallocs v - 1) * max (max 16 (inlineCapacity T)) (length xs + length xs div 4 + 1))"
proof -
  have c: "vec_capacity (Vector_ctor T) \<le> capacity_bound T (length xs)" "geometric (Vector_ctor T)"
    by (simp_all add: Vector_ctor_def capacity_bound_def geometric_def)
  have "vec_size (Vector_ctor T) + length xs \<le> length xs" by (simp add: Vector_ctor_def)
  from append_run_geometric [OF vec_inv_ctor(1) this assms c] obtain v where
    v: "vec_run T (map Append xs) (Vector_ctor T) = Inr v" "vec_list v = map Some xs" "geometric v"
    "vec_capacity v \<le> capacity_bound T (length xs)"
    by auto
  from v(4) have "4 ^ (vec_mallocs v - 1) * vec_capacity v \<le>
      4 ^ (vec_mallocs v - 1) * capacity_bound T (length xs)"
    by (rule mult_le_mono2)
  moreover have "0 < vec_mallocs v \<longrightarrow>
      16 * 5 ^ (vec_mallocs v - 1) \<le> 4 ^ (vec_mallocs v - 1) * vec_capacity v"
    using v(3) unfolding geometric_def .
  ultimately have "0 < vec_mallocs v \<longrightarrow>
      16 * 5 ^ (vec_mallocs v - 1) \<le> 4 ^ (vec_mallocs v - 1) * capacity_bound T (length xs)"
    by (intro impI) (erule order_trans [rotated], erule mp)
  with v(1,2,4) show ?thesis unfolding capacity_bound_def by (intro exI [of _ v] conjI)
qed

theorem append_reallocates_rarely_witness:
  "\<exists>v. vec_run operator_stack_type (map Append (replicate 30 (1, 2))) (Vector_ctor operator_stack_type) = Inr v \<and>
     vec_list v = replicate 30 (Some (1, 2)) \<and> vec_capacity v \<le> 38"
proof -
  have "roomy operator_stack_type (capacity_bound operator_stack_type 30)"
    by (simp add: roomy_def operator_stack_type_def capacity_bound_def size_t_max_def)
  then show ?thesis
    using append_reallocates_rarely [of operator_stack_type "replicate 30 (1, 2)"]
    by (auto simp: operator_stack_type_def)
qed

subsection \<open>Memory runs out\<close>

text \<open>
  C31. When \<open>malloc\<close> returns null, \<open>append\<close> returns to its caller as if it had worked: the element is not
  there, the block that held all others is freed, the size is as before. Reading any element and the
  next \<open>append\<close> access the null pointer.
\<close>

theorem append_after_failed_malloc:
  assumes "vec_inv T v" and "0 < vec_size v" and "vec_size v = vec_capacity v"
    and "mallocFails T (vec_mallocs v)" and "capacity_bound T (Suc (vec_size v)) \<le> size_t_max div sizeofT T"
  shows "\<exists>w. append T ptr v = Inr w \<and> vec_size w = vec_size v \<and> vec_live w = [] \<and> vec_cells w = [] \<and>
    (\<forall>i < vec_size w. at i w = Inl NullDereference) \<and>
    (\<forall>x. append T (Outside x) w = Inl NullDereference)"
proof -
  let ?n = "max (vec_size v + 1) (max 16 (vec_capacity v + vec_capacity v div 4 + 1))"
  let ?w = "v\<lparr>vec_capacity := ?n, vec_block := NullBlock, vec_cells := [], vec_mallocs := Suc (vec_mallocs v),
      vec_live := []\<rparr>"
  have n: "\<not> ?n \<le> vec_capacity v" "vec_capacity v < ?n" "inlineCapacity T < ?n"
    using assms(1,3) by (auto simp: vec_inv_def split: block.splits)
  have "vec_capacity v + vec_capacity v div 4 \<le> Suc (vec_size v) + Suc (vec_size v) div 4"
    using assms(3) by (intro add_mono div_le_mono) simp_all
  then have "?n \<le> capacity_bound T (Suc (vec_size v))"
    unfolding capacity_bound_def by (intro max.boundedI) (simp_all add: le_max_iff_disj)
  then have "\<not> ?n > size_t_max div sizeofT T" using assms(5) by simp
  then have "expandCapacity T (vec_size v + 1) v = Inr ?w"
    using assms(1-4) n
    by (cases "vec_block v")
       (simp_all add: expandCapacity_def reserveCapacity_def allocateBuffer_def deallocateBuffer_def
          freeBlock_def vec_inv_def del: max.bounded_iff)
  moreover have "vec_size v \<noteq> ?n" using n(2) assms(3) by simp
  ultimately show ?thesis
    using assms(3) n(2)
    by (simp add: append_def expandCapacityPtr_def at_def readCell_def readSource_def writeCell_def)
qed

definition failing_type :: "nat vec_type" where
  "failing_type =
    \<lparr>inlineCapacity = 1, sizeofT = 4, podT = True, initialT = 0, mallocFails = (\<lambda>_. True)\<rparr>"

theorem append_after_failed_malloc_witness:
  "\<exists>v w. append failing_type (Outside 7) (Vector_ctor failing_type) = Inr v \<and> vec_list v = [Some 7] \<and>
     append failing_type (Outside 8) v = Inr w \<and> vec_size w = 1 \<and> at 0 w = Inl NullDereference"
proof -
  let ?v = "\<lparr>vec_size = 1, vec_capacity = 1, vec_block = InlineBlock, vec_cells = [Some 7],
      vec_mallocs = 0, vec_live = []\<rparr> :: nat vec"
  have "append failing_type (Outside 7) (Vector_ctor failing_type) = Inr ?v"
    by (simp add: append_def failing_type_def Vector_ctor_def readSource_def writeCell_def)
  moreover have "vec_inv failing_type ?v" "vec_list ?v = [Some 7]"
    by (simp_all add: vec_inv_def failing_type_def vec_list_def)
  moreover have "mallocFails failing_type 0"
    "capacity_bound failing_type 2 \<le> size_t_max div sizeofT failing_type"
    by (simp_all add: failing_type_def capacity_bound_def size_t_max_def)
  ultimately show ?thesis
    using append_after_failed_malloc [of failing_type ?v "Outside 8"] by (auto simp: numeral_2_eq_2)
qed

end
