(* ===== verification/Sequences.thy ===== *)
theory Sequences
  imports Vectors
begin

text \<open>
  The interface that \<open>Vector\<close> and \<open>SegmentedVector\<close> share for the code that uses them as stacks:
  \<open>append\<close>, \<open>removeLast\<close> and \<open>last\<close>. A run of these operations is compared with the same run on a list,
  failed assertions included.
\<close>

datatype 'a seqop = Push 'a | Pop | Top

primrec seq_run ::
  "('a \<Rightarrow> 'c \<Rightarrow> fault + 'c) \<Rightarrow> ('c \<Rightarrow> fault + 'c) \<Rightarrow> ('c \<Rightarrow> fault + 'a) \<Rightarrow> 'a seqop list \<Rightarrow> 'c \<Rightarrow>
    fault + 'a list \<times> 'c" where
  "seq_run push pop latest [] c = Inr ([], c)"
| "seq_run push pop latest (op # ops) c =
    (case op of
       Push x \<Rightarrow> bindE (push x c) (seq_run push pop latest ops)
     | Pop \<Rightarrow> bindE (pop c) (seq_run push pop latest ops)
     | Top \<Rightarrow> bindE (latest c) (\<lambda>x. bindE (seq_run push pop latest ops c) (\<lambda>(ys, d). Inr (x # ys, d))))"

primrec list_seq_run :: "'a seqop list \<Rightarrow> 'a list \<Rightarrow> fault + 'a list \<times> 'a list" where
  "list_seq_run [] xs = Inr ([], xs)"
| "list_seq_run (op # ops) xs =
    (case op of
       Push x \<Rightarrow> list_seq_run ops (xs @ [x])
     | Pop \<Rightarrow> if xs = [] then Inl AssertionFailed else list_seq_run ops (butlast xs)
     | Top \<Rightarrow> if xs = [] then Inl AssertionFailed
              else bindE (list_seq_run ops xs) (\<lambda>(ys, zs). Inr (last xs # ys, zs)))"

fun pushes :: "'a seqop list \<Rightarrow> nat" where
  "pushes [] = 0"
| "pushes (Push x # ops) = Suc (pushes ops)"
| "pushes (_ # ops) = pushes ops"

text \<open>The result of a run with its state seen as a list.\<close>

definition seen :: "('c \<Rightarrow> 'a list) \<Rightarrow> fault + 'a list \<times> 'c \<Rightarrow> fault + 'a list \<times> 'a list" where
  "seen elements r = bindE r (\<lambda>(ys, c). Inr (ys, elements c))"

lemma seen_simps [simp]:
  "seen e (Inl f) = Inl f" "seen e (Inr (ys, c)) = Inr (ys, e c)"
  "seen e (bindE r g) = bindE r (\<lambda>x. seen e (g x))"
  by (simp_all add: seen_def bindE_def split: sum.splits)

lemma seen_cons:
  "seen e (bindE r (\<lambda>(ys, d). Inr (x # ys, d))) = bindE (seen e r) (\<lambda>(ys, d). Inr (x # ys, d))"
  by (auto simp: seen_def bindE_def split: sum.splits)

locale sequence =
  fixes invar :: "'c \<Rightarrow> bool"
    and elements :: "'c \<Rightarrow> 'a list"
    and limit :: nat
    and push :: "'a \<Rightarrow> 'c \<Rightarrow> fault + 'c"
    and pop :: "'c \<Rightarrow> fault + 'c"
    and latest :: "'c \<Rightarrow> fault + 'a"
  assumes push: "invar c \<Longrightarrow> length (elements c) < limit \<Longrightarrow>
      \<exists>d. push x c = Inr d \<and> invar d \<and> elements d = elements c @ [x]"
    and pop: "invar c \<Longrightarrow> elements c \<noteq> [] \<Longrightarrow>
      \<exists>d. pop c = Inr d \<and> invar d \<and> elements d = butlast (elements c)"
    and latest: "invar c \<Longrightarrow> elements c \<noteq> [] \<Longrightarrow> latest c = Inr (last (elements c))"
    and underflow: "invar c \<Longrightarrow> elements c = [] \<Longrightarrow> pop c = Inl AssertionFailed \<and> latest c = Inl AssertionFailed"
begin

lemma run_eq:
  "invar c \<Longrightarrow> length (elements c) + pushes ops \<le> limit \<Longrightarrow>
     seen elements (seq_run push pop latest ops c) = list_seq_run ops (elements c)"
proof (induction ops arbitrary: c)
  case (Cons op ops)
  show ?case
  proof (cases op)
    case (Push x)
    with push [of c x] Cons.prems obtain d where
      "push x c = Inr d" "invar d" "elements d = elements c @ [x]" by auto
    with Cons.IH [of d] Cons.prems(2) Push show ?thesis by simp
  next
    case Pop
    show ?thesis
    proof (cases "elements c = []")
      case False
      with pop [OF Cons.prems(1)] obtain d where
        "pop c = Inr d" "invar d" "elements d = butlast (elements c)" by auto
      with Cons.IH [of d] Cons.prems(2) Pop False show ?thesis by simp
    qed (use underflow [OF Cons.prems(1)] Pop in simp)
  next
    case Top
    show ?thesis
    proof (cases "elements c = []")
      case False
      then show ?thesis using Cons.IH [of c] Cons.prems Top latest [OF Cons.prems(1)] by (simp add: seen_cons del: seen_simps(3))
    qed (use underflow [OF Cons.prems(1)] Top in simp)
  qed
qed simp

lemma reachable:
  "invar c \<Longrightarrow> length (elements c) + pushes ops \<le> limit \<Longrightarrow> seq_run push pop latest ops c = Inr (ys, d) \<Longrightarrow>
     invar d"
proof (induction ops arbitrary: c ys)
  case (Cons op ops)
  show ?case
  proof (cases op)
    case (Push x)
    with push [of c x] Cons show ?thesis by fastforce
  next
    case Pop
    with pop [of c] underflow [of c] Cons show ?thesis by (cases "elements c = []") fastforce+
  next
    case Top
    with Cons show ?thesis by (auto simp: bindE_Inr_iff)
  qed
qed simp

end

subsection \<open>Vectors\<close>

definition vec_ok :: "'a vec_type \<Rightarrow> nat \<Rightarrow> 'a vec \<Rightarrow> bool" where
  "vec_ok T L v \<longleftrightarrow> vec_inv T v \<and> vec_capacity v \<le> capacity_bound T L \<and> roomy T (capacity_bound T L) \<and>
    None \<notin> set (vec_list v) \<and> vec_size v \<le> L \<and> L \<le> size_t_max"

definition vec_elements :: "'a vec \<Rightarrow> 'a list" where
  "vec_elements v = map the (vec_list v)"

lemma vec_last_ok:
  assumes "vec_inv T v" and "vec_list v = xs @ [Some x]" and "vec_size v \<le> size_t_max"
  shows "vec_last v = Inr x"
proof -
  have n: "vec_size v = Suc (length xs)" using length_vec_list [OF assms(1)] assms(2) by simp
  then have "vec_size v + size_t_max = length xs + (size_t_max + 1)" "length xs < size_t_max + 1"
    using assms(3) by simp_all
  then have "(vec_size v + size_t_max) mod (size_t_max + 1) = length xs"
    by (simp only: mod_add_self2 mod_less)
  then show ?thesis using at_ok [OF assms(1), of "length xs" x] n assms(2) by (simp add: vec_last_def)
qed

lemma snoc_Some: "xs \<noteq> [] \<Longrightarrow> None \<notin> set xs \<Longrightarrow> xs = butlast xs @ [Some (last (map the xs))]"
  by (cases xs rule: rev_cases) auto

interpretation vec: sequence "vec_ok T L" vec_elements L "\<lambda>x. append T (Outside x)" "removeLast T" vec_last
  for T :: "'a vec_type" and L
proof
  fix c :: "'a vec" and x
  assume c: "vec_ok T L c"
  then have v: "vec_inv T c" "vec_size c \<le> L" "L \<le> size_t_max" "None \<notin> set (vec_list c)"
    by (simp_all add: vec_ok_def)
  note len = length_vec_list [OF v(1)]
  show "\<exists>d. append T (Outside x) c = Inr d \<and> vec_ok T L d \<and> vec_elements d = vec_elements c @ [x]"
    if "length (vec_elements c) < L"
  proof -
    have "vec_size c < L" using that len by (simp add: vec_elements_def)
    with append_ok [of T c "Outside x" x L] c obtain d where
      "append T (Outside x) c = Inr d" "vec_inv T d" "vec_list d = vec_list c @ [Some x]"
      "vec_capacity d \<le> capacity_bound T L"
      by (auto simp: vec_ok_def denotes_def)
    moreover from this have "vec_size d = Suc (vec_size c)" using len length_vec_list [of T d] by simp
    ultimately show ?thesis using c \<open>vec_size c < L\<close> by (simp add: vec_ok_def vec_elements_def)
  qed
  show "\<exists>d. removeLast T c = Inr d \<and> vec_ok T L d \<and> vec_elements d = butlast (vec_elements c)"
    if "vec_elements c \<noteq> []"
  proof -
    from removeLast_ok [OF v(1)] that obtain d where
      d: "removeLast T c = Inr d" "vec_inv T d" "vec_list d = butlast (vec_list c)"
      "vec_capacity d = vec_capacity c"
      by (auto simp: vec_elements_def)
    moreover have "vec_size d \<le> vec_size c" using len length_vec_list [OF d(2)] d(3) by simp
    ultimately show ?thesis
      using c in_set_butlastD [of None "vec_list c"] by (auto simp: vec_ok_def vec_elements_def map_butlast)
  qed
  show "vec_last c = Inr (last (vec_elements c))" if "vec_elements c \<noteq> []"
    using vec_last_ok [OF v(1) snoc_Some] that v by (simp add: vec_elements_def)
  show "removeLast T c = Inl AssertionFailed \<and> vec_last c = Inl AssertionFailed" if "vec_elements c = []"
    using that len by (simp add: vec_elements_def removeLast_def vec_last_def at_outside)
qed

end
