(* ===== verification/SegmentedVector.thy ===== *)
theory SegmentedVector
  imports Sequences
begin

text \<open>
  \<open>wtf/SegmentedVector.h\<close>: a sequence in segments of fixed size that never move. A segment is a
  \<open>Vector<T, SegmentSize>\<close> (see \<open>Vectors\<close>), the first of them is a member of the object, the others
  are allocated by \<open>new\<close>. The pointers of \<open>m_segments\<close> are the positions of the segments in a list.
  The address of an element is its segment and its place there.
\<close>

record 'a segvec =
  sv_size :: nat
  sv_segments :: "'a vec list"

text \<open>\<open>SegmentSize\<close> is the inline capacity of the segments.\<close>

definition segmentFor :: "'a vec_type \<Rightarrow> nat \<Rightarrow> 'a segvec \<Rightarrow> fault + nat" where
  "segmentFor T index sv =
    bindE (assertE (index div inlineCapacity T < length (sv_segments sv))) (\<lambda>_.
    Inr (index div inlineCapacity T))"

definition segmentExistsFor :: "'a vec_type \<Rightarrow> nat \<Rightarrow> 'a segvec \<Rightarrow> bool" where
  "segmentExistsFor T index sv \<longleftrightarrow> index div inlineCapacity T < length (sv_segments sv)"

definition subscriptFor :: "'a vec_type \<Rightarrow> nat \<Rightarrow> nat" where
  "subscriptFor T index = index mod inlineCapacity T"

text \<open>A call of an operation of the segment \<open>k\<close>.\<close>

definition onSegment :: "nat \<Rightarrow> ('a vec \<Rightarrow> fault + 'a vec) \<Rightarrow> 'a segvec \<Rightarrow> fault + 'a segvec" where
  "onSegment k f sv =
    bindE (f (sv_segments sv ! k)) (\<lambda>v. Inr (sv\<lparr>sv_segments := (sv_segments sv)[k := v]\<rparr>))"

definition newSegment :: "'a vec_type \<Rightarrow> 'a segvec \<Rightarrow> 'a segvec" where
  "newSegment T sv = sv\<lparr>sv_segments := sv_segments sv @ [Vector_ctor T]\<rparr>"

definition SegmentedVector_ctor :: "'a vec_type \<Rightarrow> 'a segvec" where
  "SegmentedVector_ctor T = \<lparr>sv_size = 0, sv_segments = [Vector_ctor T]\<rparr>"

definition sv_at :: "'a vec_type \<Rightarrow> nat \<Rightarrow> 'a segvec \<Rightarrow> fault + 'a" where
  "sv_at T index sv =
    (if index < inlineCapacity T then at index (sv_segments sv ! 0)
     else bindE (segmentFor T index sv) (\<lambda>k. at (subscriptFor T index) (sv_segments sv ! k)))"

definition sv_last :: "'a vec_type \<Rightarrow> 'a segvec \<Rightarrow> fault + 'a" where
  "sv_last T sv = sv_at T ((sv_size sv + size_t_max) mod (size_t_max + 1)) sv"

definition sv_append :: "'a vec_type \<Rightarrow> 'a \<Rightarrow> 'a segvec \<Rightarrow> fault + 'a segvec" where
  "sv_append T value sv =
    (let sv = sv\<lparr>sv_size := sv_size sv + 1\<rparr> in
     if sv_size sv \<le> inlineCapacity T then onSegment 0 (uncheckedAppend (Outside value)) sv
     else
       let sv = (if \<not> segmentExistsFor T (sv_size sv - 1) sv then newSegment T sv else sv) in
       bindE (segmentFor T (sv_size sv - 1) sv) (\<lambda>k. onSegment k (uncheckedAppend (Outside value)) sv))"

definition sv_alloc :: "'a vec_type \<Rightarrow> 'a segvec \<Rightarrow> fault + 'a \<times> 'a segvec" where
  "sv_alloc T sv =
    bindE (sv_append T (initialT T) sv) (\<lambda>sv. bindE (sv_last T sv) (\<lambda>x. Inr (x, sv)))"

definition sv_removeLast :: "'a vec_type \<Rightarrow> 'a segvec \<Rightarrow> fault + 'a segvec" where
  "sv_removeLast T sv =
    bindE
      (if sv_size sv \<le> inlineCapacity T then onSegment 0 (removeLast T) sv
       else bindE (segmentFor T (sv_size sv - 1) sv) (\<lambda>k. onSegment k (removeLast T) sv))
      (\<lambda>sv. Inr (sv\<lparr>sv_size := sv_size sv - 1\<rparr>))"

definition ensureSegment :: "'a vec_type \<Rightarrow> nat \<Rightarrow> nat \<Rightarrow> 'a segvec \<Rightarrow> fault + 'a segvec" where
  "ensureSegment T segmentIndex newSize sv =
    bindE (assertE (segmentIndex \<le> length (sv_segments sv))) (\<lambda>_.
    onSegment segmentIndex (grow T newSize)
      (if segmentIndex = length (sv_segments sv) then newSegment T sv else sv))"

text \<open>The loop fills the segments from \<open>i\<close> up to \<open>last\<close>.\<close>

primrec ensureFull :: "'a vec_type \<Rightarrow> nat list \<Rightarrow> 'a segvec \<Rightarrow> fault + 'a segvec" where
  "ensureFull T [] sv = Inr sv"
| "ensureFull T (i # is) sv = bindE (ensureSegment T i (inlineCapacity T) sv) (ensureFull T is)"

definition segmentCount :: "'a vec_type \<Rightarrow> nat \<Rightarrow> nat" where
  "segmentCount T n = n div inlineCapacity T + (if n mod inlineCapacity T \<noteq> 0 then 1 else 0)"

definition ensureSegmentsFor :: "'a vec_type \<Rightarrow> nat \<Rightarrow> 'a segvec \<Rightarrow> fault + 'a segvec" where
  "ensureSegmentsFor T newSize sv =
    (let count = max (segmentCount T (sv_size sv)) 1;
         end = segmentCount T newSize - 1
     in bindE (ensureFull T [count - 1..<end] sv) (\<lambda>sv.
        ensureSegment T end (subscriptFor T (newSize - 1) + 1) sv))"

definition sv_grow :: "'a vec_type \<Rightarrow> nat \<Rightarrow> 'a segvec \<Rightarrow> fault + 'a segvec" where
  "sv_grow T newSize sv =
    bindE (assertE (newSize > sv_size sv)) (\<lambda>_.
    bindE (ensureSegmentsFor T newSize sv) (\<lambda>sv.
    Inr (sv\<lparr>sv_size := newSize\<rparr>)))"

text \<open>\<open>delete\<close> runs the destructor of a segment; the first one is left alone.\<close>

primrec deleteSegments :: "'a vec_type \<Rightarrow> 'a vec list \<Rightarrow> fault + unit" where
  "deleteSegments T [] = Inr ()"
| "deleteSegments T (v # vs) = bindE (Vector_dtor T v) (\<lambda>_. deleteSegments T vs)"

definition deleteAllSegments :: "'a vec_type \<Rightarrow> 'a segvec \<Rightarrow> fault + unit" where
  "deleteAllSegments T sv = deleteSegments T (tl (sv_segments sv))"

definition sv_clear :: "'a vec_type \<Rightarrow> 'a segvec \<Rightarrow> fault + 'a segvec" where
  "sv_clear T sv =
    bindE (deleteAllSegments T sv) (\<lambda>_.
    bindE (onSegment 0 (clear T) (sv\<lparr>sv_segments := take 1 (sv_segments sv)\<rparr>)) (\<lambda>sv.
    Inr (sv\<lparr>sv_size := 0\<rparr>)))"

subsection \<open>Iterators\<close>

text \<open>An iterator is a segment and a place there; \<open>(0, SegmentSize)\<close> is the end.\<close>

definition sv_begin :: "'a vec_type \<Rightarrow> 'a segvec \<Rightarrow> nat \<times> nat" where
  "sv_begin T sv = (0, if sv_size sv \<noteq> 0 then 0 else inlineCapacity T)"

definition sv_end :: "'a vec_type \<Rightarrow> nat \<times> nat" where
  "sv_end T = (0, inlineCapacity T)"

definition iterator_read :: "'a segvec \<Rightarrow> nat \<times> nat \<Rightarrow> fault + 'a" where
  "iterator_read sv it =
    (case it of (segment, index) \<Rightarrow>
      bindE (assertE (segment < length (sv_segments sv))) (\<lambda>_. at index (sv_segments sv ! segment)))"

definition iterator_next :: "'a vec_type \<Rightarrow> 'a segvec \<Rightarrow> nat \<times> nat \<Rightarrow> fault + nat \<times> nat" where
  "iterator_next T sv it =
    (case it of (segment, index) \<Rightarrow>
      bindE (assertE (index \<noteq> inlineCapacity T)) (\<lambda>_.
      bindE (assertE (segment < length (sv_segments sv))) (\<lambda>_.
      if index + 1 \<ge> vec_size (sv_segments sv ! segment) then
        if segment + 1 < length (sv_segments sv) then
          bindE (assertE (vec_size (sv_segments sv ! segment) > 0)) (\<lambda>_. Inr (segment + 1, 0))
        else Inr (0, inlineCapacity T)
      else Inr (segment, index + 1))))"

text \<open>
  \<open>for (it = begin(); it != end(); ++it)\<close> over the elements; every step reads one, so with fuel above
  their number only a loop that does not end runs out.
\<close>

fun sv_visit :: "'a vec_type \<Rightarrow> 'a segvec \<Rightarrow> nat \<Rightarrow> nat \<times> nat \<Rightarrow> (fault + 'a list) option" where
  "sv_visit T sv 0 it = None"
| "sv_visit T sv (Suc fuel) it =
    (if it = sv_end T then Some (Inr [])
     else
       case bindE (iterator_read sv it) (\<lambda>x. bindE (iterator_next T sv it) (\<lambda>it. Inr (x, it))) of
         Inl e \<Rightarrow> Some (Inl e)
       | Inr (x, it) \<Rightarrow> map_option (\<lambda>r. bindE r (\<lambda>xs. Inr (x # xs))) (sv_visit T sv fuel it))"

subsection \<open>The invariant and the list of elements\<close>

definition segment_ok :: "'a vec_type \<Rightarrow> nat \<Rightarrow> 'a vec \<Rightarrow> bool" where
  "segment_ok T n v \<longleftrightarrow> vec_inv T v \<and> vec_block v = InlineBlock \<and> vec_size v = n"

definition sv_inv :: "'a vec_type \<Rightarrow> 'a segvec \<Rightarrow> bool" where
  "sv_inv T sv \<longleftrightarrow> 0 < inlineCapacity T \<and> sv_segments sv \<noteq> [] \<and>
    sv_size sv \<le> inlineCapacity T * length (sv_segments sv) \<and>
    (\<forall>k < length (sv_segments sv).
      segment_ok T (min (inlineCapacity T) (sv_size sv - inlineCapacity T * k)) (sv_segments sv ! k))"

lemma sv_inv_segment:
  "sv_inv T sv \<Longrightarrow> k < length (sv_segments sv) \<Longrightarrow>
     segment_ok T (min (inlineCapacity T) (sv_size sv - inlineCapacity T * k)) (sv_segments sv ! k)"
  by (simp add: sv_inv_def)

definition sv_list :: "'a segvec \<Rightarrow> 'a option list" where
  "sv_list sv = concat (map vec_list (sv_segments sv))"

text \<open>Lists in blocks of \<open>S\<close> elements, of which only the last ones may be shorter.\<close>

lemma concat_blocks:
  assumes "0 < (S :: nat)" and "\<forall>k < length xss. length (xss ! k) = min S (n - S * k)"
    and "n \<le> S * length xss"
  shows "length (concat xss) = n \<and> (\<forall>i < n. concat xss ! i = xss ! (i div S) ! (i mod S))"
  using assms(2,3)
proof (induction xss arbitrary: n)
  case (Cons xs xss)
  have "length (xss ! k) = min S (n - S - S * k)" if "k < length xss" for k
    using Cons.prems(1) that by (auto dest: spec [of _ "Suc k"])
  moreover have "n - S \<le> S * length xss" using Cons.prems(2) by simp
  ultimately have IH: "length (concat xss) = n - S"
    "\<And>i. i < n - S \<Longrightarrow> concat xss ! i = xss ! (i div S) ! (i mod S)"
    using Cons.IH [of "n - S"] by blast+
  have len: "length xs = min S n" using Cons.prems(1) by (auto dest: spec [of _ 0])
  have "concat (xs # xss) ! i = (xs # xss) ! (i div S) ! (i mod S)" if "i < n" for i
  proof (cases "i < S")
    case False
    then have "concat (xs # xss) ! i = xss ! ((i - S) div S) ! ((i - S) mod S)"
      using that len IH(2) [of "i - S"] by (simp add: nth_append)
    then show ?thesis using False assms(1) by (simp add: le_div_geq le_mod_geq)
  qed (use that len in \<open>simp add: nth_append\<close>)
  then show ?case using len IH(1) by (auto simp: min_def)
qed simp

lemma sv_list_blocks:
  assumes "sv_inv T sv"
  shows "length (sv_list sv) = sv_size sv"
    and "i < sv_size sv \<Longrightarrow>
      sv_list sv ! i = vec_list (sv_segments sv ! (i div inlineCapacity T)) ! (i mod inlineCapacity T)"
    and "i < sv_size sv \<Longrightarrow> i div inlineCapacity T < length (sv_segments sv)"
proof -
  let ?S = "inlineCapacity T"
  have S: "0 < ?S" and n: "sv_size sv \<le> ?S * length (sv_segments sv)"
    using assms by (simp_all add: sv_inv_def)
  have "\<forall>k < length (map vec_list (sv_segments sv)).
      length (map vec_list (sv_segments sv) ! k) = min ?S (sv_size sv - ?S * k)"
    using assms by (auto simp: sv_inv_def segment_ok_def)
  from concat_blocks [OF S this] n have c: "length (sv_list sv) = sv_size sv"
    "\<And>i. i < sv_size sv \<Longrightarrow>
      sv_list sv ! i = map vec_list (sv_segments sv) ! (i div ?S) ! (i mod ?S)"
    by (simp_all add: sv_list_def)
  have d: "i div ?S < length (sv_segments sv)" if "i < sv_size sv" for i
    using that n S by (simp add: div_less_iff_less_mult mult.commute)
  show "length (sv_list sv) = sv_size sv" by (rule c)
  show "i < sv_size sv \<Longrightarrow> i div ?S < length (sv_segments sv)" by (rule d)
  show "i < sv_size sv \<Longrightarrow> sv_list sv ! i = vec_list (sv_segments sv ! (i div ?S)) ! (i mod ?S)"
    using c(2) d by simp
qed

lemma uncheckedAppend_ok:
  assumes "segment_ok T n v" and "n < inlineCapacity T"
  shows "\<exists>w. uncheckedAppend (Outside x) v = Inr w \<and> segment_ok T (Suc n) w \<and>
    vec_list w = vec_list v @ [Some x] \<and> (\<forall>j < n. vec_cells w ! j = vec_cells v ! j)"
proof -
  have v: "vec_inv T v" "vec_size v = n" "vec_capacity v = inlineCapacity T" "vec_block v = InlineBlock"
    using assms(1) by (auto simp: segment_ok_def vec_inv_def)
  have n: "vec_size v < vec_capacity v" using v(2,3) assms(2) by simp
  show ?thesis
    using push_ok [OF v(1) n, of x] v(2,4) n by (simp add: uncheckedAppend_def readSource_def segment_ok_def)
qed

lemma removeLast_segment:
  assumes "segment_ok T (Suc n) v"
  shows "\<exists>w. removeLast T v = Inr w \<and> segment_ok T n w \<and> vec_list w = butlast (vec_list v)"
proof -
  have "vec_inv T v" "vec_size v = Suc n" "vec_block v = InlineBlock" using assms by (simp_all add: segment_ok_def)
  then show ?thesis
    using shrink_ok [of T v n] by (simp add: removeLast_def segment_ok_def butlast_conv_take)
qed

text \<open>The sizes of the segments when one element comes or goes.\<close>

lemma block_sizes:
  assumes "0 < (S :: nat)"
  shows "k = n div S \<Longrightarrow> min S (Suc n - S * k) = Suc (min S (n - S * k))"
    and "k = n div S \<Longrightarrow> min S (n - S * k) = n mod S"
    and "k \<noteq> n div S \<Longrightarrow> min S (Suc n - S * k) = min S (n - S * k)"
proof -
  define q r where "q = n div S" and "r = n mod S"
  have n: "n = S * q + r" and r: "r < S" using assms by (simp_all add: q_def r_def)
  show "k = n div S \<Longrightarrow> min S (Suc n - S * k) = Suc (min S (n - S * k))"
    "k = n div S \<Longrightarrow> min S (n - S * k) = n mod S"
    using r by (simp_all add: q_def [symmetric] r_def [symmetric] n)
  show "min S (Suc n - S * k) = min S (n - S * k)" if "k \<noteq> n div S"
  proof -
    consider "Suc k \<le> q" | "Suc q \<le> k" using \<open>k \<noteq> n div S\<close> q_def by linarith
    then show ?thesis
    proof cases
      case 1
      then have "S * Suc k \<le> S * q" by (rule mult_le_mono2)
      then show ?thesis using n by simp
    next
      case 2
      then have "S * Suc q \<le> S * k" by (rule mult_le_mono2)
      then show ?thesis using n r by simp
    qed
  qed
qed

lemma segment_of_ctor: "0 < inlineCapacity T \<Longrightarrow> segment_ok T 0 (Vector_ctor T)"
  using vec_inv_ctor(1) [of T] by (simp add: segment_ok_def Vector_ctor_def)

lemma sv_inv_ctor [simp]:
  "0 < inlineCapacity T \<Longrightarrow> sv_inv T (SegmentedVector_ctor T)"
  "sv_list (SegmentedVector_ctor T) = []"
  using segment_of_ctor [of T] by (simp_all add: sv_inv_def SegmentedVector_ctor_def sv_list_def)

text \<open>The state in which \<open>append\<close> constructs the element.\<close>

definition sv_room :: "'a vec_type \<Rightarrow> 'a segvec \<Rightarrow> 'a segvec" where
  "sv_room T sv =
    (if sv_size sv div inlineCapacity T < length (sv_segments sv) then sv else newSegment T sv)"

lemma sv_room_ok:
  assumes "sv_inv T sv"
  shows "sv_inv T (sv_room T sv)" and "sv_size (sv_room T sv) = sv_size sv"
    and "sv_list (sv_room T sv) = sv_list sv"
    and "sv_size sv div inlineCapacity T < length (sv_segments (sv_room T sv))"
    and "k < length (sv_segments sv) \<Longrightarrow> sv_segments (sv_room T sv) ! k = sv_segments sv ! k"
    and "length (sv_segments sv) \<le> length (sv_segments (sv_room T sv))"
proof -
  let ?S = "inlineCapacity T" and ?l = "length (sv_segments sv)"
  have S: "0 < ?S" and n: "sv_size sv \<le> ?S * ?l" using assms by (simp_all add: sv_inv_def)
  then have "sv_size sv div ?S \<le> ?l" using div_le_mono [OF n, of ?S] by simp
  then show "sv_size sv div ?S < length (sv_segments (sv_room T sv))"
    by (simp add: sv_room_def newSegment_def)
  show "sv_inv T (sv_room T sv)"
    using assms segment_of_ctor [OF S] n
    by (auto simp: sv_room_def newSegment_def sv_inv_def nth_append less_Suc_eq)
  show "sv_list (sv_room T sv) = sv_list sv"
    using vec_inv_ctor(2) [of T] by (simp add: sv_room_def newSegment_def sv_list_def)
qed (auto simp: sv_room_def newSegment_def nth_append)

lemma sv_append_eq:
  assumes "sv_inv T sv"
  shows "sv_append T x sv = onSegment (sv_size sv div inlineCapacity T) (uncheckedAppend (Outside x))
    ((sv_room T sv)\<lparr>sv_size := Suc (sv_size sv)\<rparr>)"
proof (cases "sv_size sv < inlineCapacity T")
  case True
  then show ?thesis
    using assms by (auto simp: sv_append_def sv_room_def sv_inv_def onSegment_def bindE_def split: sum.splits)
next
  case False
  then show ?thesis
    using sv_room_ok(4) [OF assms]
    by (cases sv) (auto simp: sv_append_def sv_room_def segmentExistsFor_def segmentFor_def newSegment_def Let_def)
qed

lemma sv_append_ok:
  assumes "sv_inv T sv"
  shows "\<exists>sv'. sv_append T x sv = Inr sv' \<and> sv_inv T sv' \<and> sv_list sv' = sv_list sv @ [Some x] \<and>
    sv_size sv' = Suc (sv_size sv) \<and>
    (\<forall>k < length (sv_segments sv). \<forall>j < vec_size (sv_segments sv ! k).
      vec_cells (sv_segments sv' ! k) ! j = vec_cells (sv_segments sv ! k) ! j)"
proof -
  let ?S = "inlineCapacity T" and ?r = "sv_room T sv" and ?k = "sv_size sv div inlineCapacity T"
  note r = sv_room_ok [OF assms]
  have S: "0 < ?S" using assms by (simp add: sv_inv_def)
  note sizes = block_sizes [OF S]
  have v: "segment_ok T (sv_size sv mod ?S) (sv_segments ?r ! ?k)"
    using sv_inv_segment [OF r(1,4)] sizes(2) [OF refl, of "sv_size sv"] r(2) by simp
  from uncheckedAppend_ok [OF v, of x] S obtain w where
    w: "uncheckedAppend (Outside x) (sv_segments ?r ! ?k) = Inr w" "segment_ok T (Suc (sv_size sv mod ?S)) w"
    "vec_list w = vec_list (sv_segments ?r ! ?k) @ [Some x]"
    "\<forall>j < sv_size sv mod ?S. vec_cells w ! j = vec_cells (sv_segments ?r ! ?k) ! j"
    by auto
  let ?sv = "?r\<lparr>sv_size := Suc (sv_size sv), sv_segments := (sv_segments ?r)[?k := w]\<rparr>"
  have eq: "sv_append T x sv = Inr ?sv" using w(1) by (simp add: sv_append_eq [OF assms] onSegment_def)
  have "sv_size sv < ?S * length (sv_segments ?r)"
    using r(4) S by (simp add: div_less_iff_less_mult mult.commute)
  moreover have "segment_ok T (min ?S (Suc (sv_size sv) - ?S * k)) (sv_segments ?sv ! k)"
    if "k < length (sv_segments ?r)" for k
    using r(1,2) that w(2) sizes(1,3) [of k "sv_size sv"] sizes(2) [of k "sv_size sv"]
    by (cases "k = ?k") (auto simp: sv_inv_def)
  ultimately have inv: "sv_inv T ?sv" using r(1) by (simp add: sv_inv_def)
  have len: "length (vec_list (sv_segments ?r ! ?k)) = sv_size sv mod ?S"
    using v length_vec_list by (auto simp: segment_ok_def)
  have "sv_list ?sv ! i = (sv_list sv @ [Some x]) ! i" if "i < Suc (sv_size sv)" for i
  proof (cases "i = sv_size sv")
    case True
    then show ?thesis
      using sv_list_blocks(2) [OF inv, of i] sv_list_blocks(1) [OF assms] r(4) w(3) len
      by (simp add: nth_append)
  next
    case False
    with that have i: "i < sv_size sv" by simp
    have "i mod ?S < sv_size sv mod ?S" if "i div ?S = ?k"
      using i that by (metis add_less_cancel_left div_mult_mod_eq)
    then show ?thesis
      using sv_list_blocks(2) [OF inv, of i] sv_list_blocks(2) [OF r(1), of i] r(2,3,4) w(3) i len
        sv_list_blocks(1) [OF assms]
      by (cases "i div ?S = ?k") (simp_all add: nth_append)
  qed
  then have list: "sv_list ?sv = sv_list sv @ [Some x]"
    using sv_list_blocks(1) [OF inv] sv_list_blocks(1) [OF assms] by (intro nth_equalityI) simp_all
  have cells: "vec_cells (sv_segments ?sv ! k) ! j = vec_cells (sv_segments sv ! k) ! j"
    if "k < length (sv_segments sv)" "j < vec_size (sv_segments sv ! k)" for k j
    using that r(5) [of k] r(6) v w(4) by (cases "k = ?k") (auto simp: segment_ok_def)
  show ?thesis using eq inv list cells by (intro exI [of _ ?sv]) simp
qed

lemma sv_removeLast_ok:
  assumes "sv_inv T sv" and "sv_list sv \<noteq> []"
  shows "\<exists>sv'. sv_removeLast T sv = Inr sv' \<and> sv_inv T sv' \<and> sv_list sv' = butlast (sv_list sv) \<and>
    length (sv_segments sv') = length (sv_segments sv)"
proof -
  let ?S = "inlineCapacity T" and ?n = "sv_size sv - 1"
  let ?k = "?n div ?S"
  have S: "0 < ?S" using assms(1) by (simp add: sv_inv_def)
  note sizes = block_sizes [OF S]
  have n: "sv_size sv = Suc ?n" using assms(2) sv_list_blocks(1) [OF assms(1)] by (cases "sv_size sv") auto
  have k: "?k < length (sv_segments sv)" using sv_list_blocks(3) [OF assms(1), of ?n] n by simp
  have "segment_ok T (Suc (?n mod ?S)) (sv_segments sv ! ?k)"
    using sv_inv_segment [OF assms(1) k] sizes(1,2) [OF refl, of ?n] n by simp
  then obtain w where w: "removeLast T (sv_segments sv ! ?k) = Inr w" "segment_ok T (?n mod ?S) w"
    "vec_list w = butlast (vec_list (sv_segments sv ! ?k))"
    using removeLast_segment by blast
  let ?sv = "sv\<lparr>sv_size := ?n, sv_segments := (sv_segments sv)[?k := w]\<rparr>"
  have eq: "sv_removeLast T sv = Inr ?sv"
  proof (cases "sv_size sv \<le> ?S")
    case True
    then have "?k = 0" using n by simp
    then show ?thesis using True w(1) by (cases sv) (simp add: sv_removeLast_def onSegment_def)
  next
    case False
    then show ?thesis using w(1) k by (cases sv) (simp add: sv_removeLast_def segmentFor_def onSegment_def)
  qed
  have "segment_ok T (min ?S (?n - ?S * k)) (sv_segments ?sv ! k)" if "k < length (sv_segments sv)" for k
    using sv_inv_segment [OF assms(1) that] that w(2) sizes(3) [of k ?n] sizes(2) [of k ?n] n
    by (cases "k = ?k") auto
  moreover have "?n \<le> ?S * length (sv_segments sv)"
    using assms(1) unfolding sv_inv_def by linarith
  ultimately have inv: "sv_inv T ?sv" using assms(1) by (simp add: sv_inv_def del: One_nat_def)
  have "sv_list ?sv ! i = butlast (sv_list sv) ! i" if "i < ?n" for i
  proof -
    have m: "i < sv_size sv" using that by simp
    have "i mod ?S < ?n mod ?S" if "i div ?S = ?k"
      using \<open>i < ?n\<close> that by (metis add_less_cancel_left div_mult_mod_eq)
    moreover have "length (vec_list (sv_segments sv ! ?k)) = Suc (?n mod ?S)"
      using \<open>segment_ok T (Suc (?n mod ?S)) (sv_segments sv ! ?k)\<close> length_vec_list
      by (auto simp: segment_ok_def)
    ultimately show ?thesis
      using sv_list_blocks(2) [OF inv, of i] sv_list_blocks(1,2) [OF assms(1)] that m w(3) k
      by (cases "i div ?S = ?k") (simp_all add: nth_butlast)
  qed
  then have "sv_list ?sv = butlast (sv_list sv)"
    using sv_list_blocks(1) [OF inv] sv_list_blocks(1) [OF assms(1)] by (intro nth_equalityI) simp_all
  then show ?thesis using eq inv by simp
qed

lemma sv_at_ok:
  assumes "sv_inv T sv" and "i < sv_size sv" and "sv_list sv ! i = Some x"
  shows "sv_at T i sv = Inr x"
    and "iterator_read sv (i div inlineCapacity T, i mod inlineCapacity T) = Inr x"
proof -
  let ?S = "inlineCapacity T"
  let ?v = "sv_segments sv ! (i div ?S)"
  have S: "0 < ?S" using assms(1) by (simp add: sv_inv_def)
  note b = sv_list_blocks [OF assms(1)]
  have k: "i div ?S < length (sv_segments sv)" using b(3) assms(2) .
  have v: "segment_ok T (min ?S (sv_size sv - ?S * (i div ?S))) ?v" by (rule sv_inv_segment [OF assms(1) k])
  have "i mod ?S < sv_size sv - ?S * (i div ?S)"
    using assms(2) mult_div_mod_eq [of ?S i] by linarith
  then have "i mod ?S < vec_size ?v" using v S by (simp add: segment_ok_def)
  then have "at (i mod ?S) ?v = Inr x"
    using at_ok [of T ?v "i mod ?S" x] v b(2) [OF assms(2)] assms(3) by (simp add: segment_ok_def)
  then show "sv_at T i sv = Inr x" "iterator_read sv (i div ?S, i mod ?S) = Inr x"
    using k by (auto simp: sv_at_def segmentFor_def subscriptFor_def iterator_read_def)
qed

lemma sv_last_ok:
  assumes "sv_inv T sv" and "sv_list sv = xs @ [Some x]" and "sv_size sv \<le> size_t_max"
  shows "sv_last T sv = Inr x"
proof -
  have n: "sv_size sv = Suc (length xs)" using sv_list_blocks(1) [OF assms(1)] assms(2) by simp
  then have "sv_size sv + size_t_max = length xs + (size_t_max + 1)" "length xs < size_t_max + 1"
    using assms(3) by simp_all
  then have "(sv_size sv + size_t_max) mod (size_t_max + 1) = length xs"
    by (simp only: mod_add_self2 mod_less)
  then show ?thesis using sv_at_ok(1) [OF assms(1), of "length xs" x] n assms(2) by (simp add: sv_last_def)
qed

subsection \<open>References into the vector\<close>

primrec sv_append_all :: "'a vec_type \<Rightarrow> 'a list \<Rightarrow> 'a segvec \<Rightarrow> fault + 'a segvec" where
  "sv_append_all T [] sv = Inr sv"
| "sv_append_all T (x # xs) sv = bindE (sv_append T x sv) (sv_append_all T xs)"

text \<open>Reading through the address of an element, its segment and its place there.\<close>

definition sv_deref :: "'a segvec \<Rightarrow> nat \<times> nat \<Rightarrow> fault + 'a" where
  "sv_deref sv it = iterator_read sv it"

lemma sv_append_deref:
  assumes "sv_inv T sv" and "sv_deref sv p = Inr x" and "sv_append T y sv = Inr sv'"
  shows "sv_deref sv' p = Inr x"
proof -
  obtain k j where p: "p = (k, j)" by (cases p)
  have k: "k < length (sv_segments sv)" and a: "at j (sv_segments sv ! k) = Inr x"
    using assms(2) p by (auto simp: sv_deref_def iterator_read_def assertE_def bindE_def split: if_splits)
  have j: "j < vec_size (sv_segments sv ! k)" and c: "readCell j (sv_segments sv ! k) = Inr x"
    using a by (auto simp: at_def assertE_def bindE_def split: if_splits)
  from sv_append_ok [OF assms(1), of y] assms(3) k j
  have sv': "sv_inv T sv'" "sv_size sv' = Suc (sv_size sv)"
    "vec_cells (sv_segments sv' ! k) ! j = vec_cells (sv_segments sv ! k) ! j"
    by auto
  have "length (sv_segments sv) \<le> length (sv_segments sv')"
    using assms(3) sv_room_ok(6) [OF assms(1)]
    by (auto simp: sv_append_eq [OF assms(1)] onSegment_def bindE_Inr_iff)
  then have k': "k < length (sv_segments sv')" using k by simp
  note s = sv_inv_segment [OF assms(1) k] sv_inv_segment [OF sv'(1) k']
  have "vec_size (sv_segments sv ! k) \<le> vec_size (sv_segments sv' ! k)"
    using s sv'(2) by (simp add: segment_ok_def)
  moreover have "readCell j (sv_segments sv' ! k) = Inr x"
    using c sv'(3) s j by (auto simp: readCell_def segment_ok_def vec_inv_def split: if_splits)
  ultimately show ?thesis using k' j p by (simp add: sv_deref_def iterator_read_def at_def)
qed

lemma sv_append_all_ok:
  "sv_inv T sv \<Longrightarrow> \<exists>sv'. sv_append_all T ys sv = Inr sv' \<and> sv_inv T sv' \<and>
     sv_list sv' = sv_list sv @ map Some ys \<and>
     (\<forall>p x. sv_deref sv p = Inr x \<longrightarrow> sv_deref sv' p = Inr x)"
proof (induction ys arbitrary: sv)
  case (Cons y ys)
  from sv_append_ok [OF Cons.prems, of y] obtain sv1 where sv1:
    "sv_append T y sv = Inr sv1" "sv_inv T sv1" "sv_list sv1 = sv_list sv @ [Some y]"
    by blast
  from Cons.IH [OF sv1(2)] obtain sv2 where sv2:
    "sv_append_all T ys sv1 = Inr sv2" "sv_inv T sv2" "sv_list sv2 = sv_list sv1 @ map Some ys"
    "\<forall>p x. sv_deref sv1 p = Inr x \<longrightarrow> sv_deref sv2 p = Inr x"
    by blast
  have "sv_deref sv2 p = Inr x" if "sv_deref sv p = Inr x" for p x
    using sv_append_deref [OF Cons.prems that sv1(1)] sv2(4) by blast
  with sv1 sv2(1-3) show ?case by (intro exI [of _ sv2] conjI) simp_all
qed simp

subsection \<open>Iteration\<close>

definition position :: "'a vec_type \<Rightarrow> nat \<Rightarrow> nat \<times> nat" where
  "position T i = (i div inlineCapacity T, i mod inlineCapacity T)"

text \<open>The last segment is left over from elements that were removed.\<close>

definition trailing :: "'a vec_type \<Rightarrow> 'a segvec \<Rightarrow> bool" where
  "trailing T sv \<longleftrightarrow> sv_size sv \<le> inlineCapacity T * (length (sv_segments sv) - 1)"

lemma iterator_next_position:
  assumes "sv_inv T sv" and "i < sv_size sv"
  shows "iterator_next T sv (position T i) = Inr
    (if Suc i < sv_size sv then position T (Suc i)
     else if trailing T sv then (Suc (i div inlineCapacity T), 0) else sv_end T)"
proof -
  let ?S = "inlineCapacity T" and ?n = "sv_size sv" and ?l = "length (sv_segments sv)"
  define k r where "k = i div ?S" and "r = i mod ?S"
  have S: "0 < ?S" and n: "?n \<le> ?S * ?l" using assms(1) by (simp_all add: sv_inv_def)
  have i: "i = ?S * k + r" "r < ?S" using S by (simp_all add: k_def r_def)
  have kl: "k < ?l" using sv_list_blocks(3) [OF assms] by (simp add: k_def)
  have v: "vec_size (sv_segments sv ! k) = min ?S (?n - ?S * k)"
    using sv_inv_segment [OF assms(1) kl] by (simp add: segment_ok_def)
  have step: "iterator_next T sv (position T i) =
      (if r + 1 \<ge> min ?S (?n - ?S * k) then if k + 1 < ?l then Inr (k + 1, 0) else Inr (sv_end T)
       else Inr (k, r + 1))"
    using kl v i S assms(2)
    by (simp add: iterator_next_def position_def sv_end_def k_def [symmetric] r_def [symmetric])
  show ?thesis
  proof (cases "Suc i < ?n")
    case more: True
    show ?thesis
    proof (cases "Suc r = ?S")
      case True
      have "?S * Suc k < ?S * ?l" using more n i(1) True by simp
      then have "Suc k < ?l" by (simp only: nat_mult_less_cancel_disj)
      moreover have "position T (Suc i) = (Suc k, 0)"
        using True by (simp add: position_def div_Suc mod_Suc k_def r_def)
      ultimately show ?thesis using step more True by simp
    next
      case False
      then have "position T (Suc i) = (k, Suc r)"
        by (simp add: position_def div_Suc mod_Suc k_def r_def)
      moreover have "\<not> Suc r \<ge> min ?S (?n - ?S * k)" using more False i by simp
      ultimately show ?thesis using step more by simp
    qed
  next
    case False
    then have last: "?n = ?S * k + Suc r" using assms(2) i(1) by simp
    have "trailing T sv \<longleftrightarrow> k + 1 < ?l"
    proof
      assume "trailing T sv"
      then have "?n \<le> ?S * (?l - 1)" by (simp add: trailing_def)
      then have "?S * k < ?S * (?l - 1)" using last by linarith
      then have "k < ?l - 1" by (simp only: nat_mult_less_cancel_disj)
      then show "k + 1 < ?l" by simp
    next
      assume "k + 1 < ?l"
      then have "?S * Suc k \<le> ?S * (?l - 1)" by (intro mult_le_mono2) simp
      then show "trailing T sv" using last i(2) by (simp add: trailing_def)
    qed
    moreover have "r + 1 \<ge> min ?S (?n - ?S * k)" using last by simp
    ultimately show ?thesis using step False k_def by simp
  qed
qed

lemma sv_visit_position:
  assumes "sv_inv T sv" and "None \<notin> set (sv_list sv)"
  shows "i < sv_size sv \<Longrightarrow> sv_size sv - i < fuel \<Longrightarrow>
    sv_visit T sv fuel (position T i) =
      Some (if trailing T sv then Inl AssertionFailed else Inr (map the (drop i (sv_list sv))))"
proof (induction "sv_size sv - i" arbitrary: i fuel)
  case (Suc d)
  let ?S = "inlineCapacity T"
  have S: "0 < ?S" using assms(1) by (simp add: sv_inv_def)
  note b = sv_list_blocks [OF assms(1)]
  obtain x where x: "sv_list sv ! i = Some x"
    using assms(2) b(1) Suc.prems(1) by (metis nth_mem not_None_eq)
  have rd: "iterator_read sv (position T i) = Inr x"
    using sv_at_ok(2) [OF assms(1) Suc.prems(1) x] by (simp add: position_def)
  obtain f where f: "fuel = Suc f" using Suc.prems(2) by (cases fuel) auto
  have ne: "position T i \<noteq> sv_end T" using mod_less_divisor [OF S, of i] by (auto simp: position_def sv_end_def)
  have step: "sv_visit T sv fuel (position T i) =
      map_option (\<lambda>r. bindE r (\<lambda>xs. Inr (x # xs)))
        (sv_visit T sv f (if Suc i < sv_size sv then position T (Suc i)
           else if trailing T sv then (Suc (i div ?S), 0) else sv_end T))"
    using f ne rd iterator_next_position [OF assms(1) Suc.prems(1)] by simp
  have drop: "drop i (sv_list sv) = Some x # drop (Suc i) (sv_list sv)"
    using x b(1) Suc.prems(1) by (metis Cons_nth_drop_Suc)
  obtain f' where f': "f = Suc f'" using Suc.prems f by (cases f) auto
  consider "Suc i < sv_size sv" | "sv_size sv = Suc i" "trailing T sv" | "sv_size sv = Suc i" "\<not> trailing T sv"
    using Suc.prems(1) by linarith
  then show ?case
  proof cases
    case 1
    then show ?thesis using step Suc.hyps(1) [of "Suc i" f] Suc.hyps(2) Suc.prems(2) f drop by simp
  next
    case 2
    let ?k = "Suc (i div ?S)"
    have "?S * (i div ?S) \<le> i" by simp
    also have "i < ?S * (length (sv_segments sv) - 1)" using 2 by (simp add: trailing_def)
    finally have "i div ?S < length (sv_segments sv) - 1" by (simp only: nat_mult_less_cancel_disj)
    then have kl: "?k < length (sv_segments sv)" by simp
    have "vec_size (sv_segments sv ! ?k) = min ?S (sv_size sv - ?S * ?k)"
      using sv_inv_segment [OF assms(1) kl] by (simp add: segment_ok_def)
    moreover have "i < ?S * ?k" using dividend_less_times_div [OF S, of i] by simp
    ultimately have "vec_size (sv_segments sv ! ?k) = 0" using 2(1) by simp
    then have "iterator_read sv (?k, 0) = Inl AssertionFailed"
      using kl by (simp add: iterator_read_def at_outside)
    then show ?thesis using step 2 f' by (simp add: sv_end_def)
  next
    case 3
    then show ?thesis using step f' drop b(1) by simp
  qed
qed simp

text \<open>
  C23. A loop over the iterators of a segmented vector ends. It visits exactly the elements, in order,
  unless the last segment is left over from elements that were removed: then the iterator moves on
  into that empty segment, and reading it fails an assertion.
\<close>

theorem sv_visit_elements:
  assumes "sv_inv T sv" and "None \<notin> set (sv_list sv)"
  shows "sv_visit T sv (Suc (sv_size sv)) (sv_begin T sv) =
    Some (if sv_size sv \<noteq> 0 \<and> sv_size sv \<le> inlineCapacity T * (length (sv_segments sv) - 1)
          then Inl AssertionFailed else Inr (map the (sv_list sv)))"
proof (cases "sv_size sv = 0")
  case True
  then show ?thesis using sv_list_blocks(1) [OF assms(1)] by (simp add: sv_begin_def sv_end_def)
next
  case False
  moreover have "sv_begin T sv = position T 0" using False by (simp add: sv_begin_def position_def)
  ultimately show ?thesis
    using sv_visit_position [OF assms, of 0 "Suc (sv_size sv)"] by (simp add: trailing_def del: sv_visit.simps)
qed

definition pair_type :: "nat vec_type" where
  "pair_type =
    \<lparr>inlineCapacity = 2, sizeofT = 4, podT = False, initialT = 0, mallocFails = (\<lambda>_. False)\<rparr>"

theorem sv_visit_elements_witness:
  "\<exists>sv sv'. sv_append_all pair_type [7, 8, 9] (SegmentedVector_ctor pair_type) = Inr sv \<and>
     sv_visit pair_type sv (Suc (sv_size sv)) (sv_begin pair_type sv) = Some (Inr [7, 8, 9]) \<and>
     sv_removeLast pair_type sv = Inr sv' \<and>
     sv_visit pair_type sv' (Suc (sv_size sv')) (sv_begin pair_type sv') = Some (Inl AssertionFailed)"
proof -
  have S: "0 < inlineCapacity pair_type" by (simp add: pair_type_def)
  from sv_append_all_ok [OF sv_inv_ctor(1) [OF S], of "[7, 8, 9]"] obtain sv where
    sv: "sv_append_all pair_type [7, 8, 9] (SegmentedVector_ctor pair_type) = Inr sv" "sv_inv pair_type sv"
    "sv_list sv = [Some 7, Some 8, Some 9]"
    by auto
  have size: "sv_size sv = 3" using sv_list_blocks(1) [OF sv(2)] sv(3) by simp
  have "case sv_append_all pair_type [7, 8, 9] (SegmentedVector_ctor pair_type) of
      Inr sv \<Rightarrow> length (sv_segments sv) = 2 | Inl _ \<Rightarrow> False"
    by code_simp
  then have segs: "length (sv_segments sv) = 2" using sv(1) by simp
  from sv_removeLast_ok [OF sv(2)] sv(3) segs obtain sv' where
    sv': "sv_removeLast pair_type sv = Inr sv'" "sv_inv pair_type sv'" "sv_list sv' = [Some 7, Some 8]"
    "length (sv_segments sv') = 2"
    by auto
  have size': "sv_size sv' = 2" using sv_list_blocks(1) [OF sv'(2)] sv'(3) by simp
  show ?thesis
    using sv_visit_elements [OF sv(2)] sv_visit_elements [OF sv'(2)] sv sv' segs size size'
    by (intro exI [of _ sv] exI [of _ sv'])
       (simp add: pair_type_def del: sv_visit.simps)
qed

subsection \<open>Clearing\<close>

lemma clear_segment:
  assumes "segment_ok T n v" and "0 < inlineCapacity T"
  shows "\<exists>w. clear T v = Inr w \<and> segment_ok T 0 w"
proof -
  have v: "vec_inv T v" "vec_block v = InlineBlock" "0 < vec_capacity v"
    using assms by (auto simp: segment_ok_def vec_inv_def)
  let ?v = "if 0 < vec_size v then v\<lparr>vec_cells := destruct T 0 (vec_size v) (vec_cells v), vec_size := 0\<rparr> else v"
  have "vec_inv T ?v" "vec_size ?v = 0" "vec_block ?v = InlineBlock"
    using v shrink_ok(2) [OF v(1), of 0] by simp_all
  moreover have "clear T v = Inr ?v"
    using v assms(2) shrink_ok(1) [OF v(1), of 0]
    by (simp add: clear_def shrinkCapacity_def deallocateBuffer_def restoreInlineBufferIfNeeded_def)
  ultimately show ?thesis by (simp add: segment_ok_def)
qed

lemma delete_ok: "\<forall>v \<in> set vs. vec_inv T v \<Longrightarrow> deleteSegments T vs = Inr ()"
  using Vector_dtor_ok by (induction vs) fastforce+

lemma sv_clear_ok:
  assumes "sv_inv T sv"
  shows "\<exists>sv'. sv_clear T sv = Inr sv' \<and> sv_inv T sv' \<and> sv_list sv' = [] \<and> length (sv_segments sv') = 1"
proof -
  obtain v vs where s: "sv_segments sv = v # vs" using assms by (cases "sv_segments sv") (auto simp: sv_inv_def)
  have S: "0 < inlineCapacity T" using assms by (simp add: sv_inv_def)
  have "\<forall>v \<in> set vs. vec_inv T v"
    using sv_inv_segment [OF assms, of "Suc k" for k] s by (auto simp: in_set_conv_nth segment_ok_def)
  then have "deleteAllSegments T sv = Inr ()" using s by (simp add: deleteAllSegments_def delete_ok)
  moreover obtain w where w: "clear T v = Inr w" "segment_ok T 0 w"
    using clear_segment [OF _ S, of _ v] sv_inv_segment [OF assms, of 0] s by auto
  ultimately have "sv_clear T sv = Inr (sv\<lparr>sv_segments := [w], sv_size := 0\<rparr>)"
    using s by (simp add: sv_clear_def onSegment_def)
  moreover have "vec_list w = []" using w(2) by (simp add: segment_ok_def vec_list_def)
  ultimately show ?thesis using w(2) S by (simp add: sv_inv_def sv_list_def)
qed

subsection \<open>The interface of a stack\<close>

definition sv_ok :: "'a vec_type \<Rightarrow> 'a segvec \<Rightarrow> bool" where
  "sv_ok T sv \<longleftrightarrow> sv_inv T sv \<and> None \<notin> set (sv_list sv) \<and> sv_size sv \<le> size_t_max"

definition sv_elements :: "'a segvec \<Rightarrow> 'a list" where
  "sv_elements sv = map the (sv_list sv)"

interpretation sv: sequence "sv_ok T" sv_elements size_t_max "sv_append T" "sv_removeLast T" "sv_last T"
  for T :: "'a vec_type"
proof
  fix c :: "'a segvec" and x
  assume c: "sv_ok T c"
  then have v: "sv_inv T c" "sv_size c \<le> size_t_max" "None \<notin> set (sv_list c)" by (simp_all add: sv_ok_def)
  note len = sv_list_blocks(1) [OF v(1)]
  show "\<exists>d. sv_append T x c = Inr d \<and> sv_ok T d \<and> sv_elements d = sv_elements c @ [x]"
    if "length (sv_elements c) < size_t_max"
  proof -
    have "sv_size c < size_t_max" using that len by (simp add: sv_elements_def)
    with sv_append_ok [OF v(1), of x] v(3) show ?thesis by (auto simp: sv_ok_def sv_elements_def)
  qed
  show "\<exists>d. sv_removeLast T c = Inr d \<and> sv_ok T d \<and> sv_elements d = butlast (sv_elements c)"
    if "sv_elements c \<noteq> []"
  proof -
    from sv_removeLast_ok [OF v(1)] that obtain d where
      d: "sv_removeLast T c = Inr d" "sv_inv T d" "sv_list d = butlast (sv_list c)"
      by (auto simp: sv_elements_def)
    moreover have "sv_size d \<le> sv_size c" using len sv_list_blocks(1) [OF d(2)] d(3) by simp
    ultimately show ?thesis
      using v in_set_butlastD [of None "sv_list c"] by (auto simp: sv_ok_def sv_elements_def map_butlast)
  qed
  show "sv_last T c = Inr (last (sv_elements c))" if "sv_elements c \<noteq> []"
    using sv_last_ok [OF v(1) snoc_Some] that v by (simp add: sv_elements_def)
  show "sv_removeLast T c = Inl AssertionFailed \<and> sv_last T c = Inl AssertionFailed" if "sv_elements c = []"
  proof -
    have n: "sv_size c = 0" using that len by (simp add: sv_elements_def)
    have "segment_ok T 0 (sv_segments c ! 0)" "sv_segments c \<noteq> []" "0 < inlineCapacity T"
      using sv_inv_segment [OF v(1), of 0] v(1) n by (simp_all add: sv_inv_def)
    moreover have "at i (sv_segments c ! k) = Inl AssertionFailed" if "k < length (sv_segments c)" for i k
      using sv_inv_segment [OF v(1) that] n by (simp add: segment_ok_def at_outside)
    ultimately show ?thesis
      using n by (auto simp: sv_removeLast_def onSegment_def removeLast_def segment_ok_def sv_last_def
          sv_at_def segmentFor_def assertE_def)
  qed
qed

text \<open>
  C22. Used as a stack, a segmented vector behaves as a list: the same elements are read, and
  \<open>removeLast\<close> and \<open>last\<close> of an empty vector fail an assertion, at the same operation.
\<close>

theorem sv_runs_as_list:
  assumes "0 < inlineCapacity T" and "pushes ops \<le> size_t_max"
  shows "seen sv_elements (seq_run (sv_append T) (sv_removeLast T) (sv_last T) ops (SegmentedVector_ctor T)) =
    list_seq_run ops []"
proof -
  have "sv_ok T (SegmentedVector_ctor T)" "sv_elements (SegmentedVector_ctor T) = []"
    using assms(1) by (simp_all add: sv_ok_def sv_elements_def SegmentedVector_ctor_def sv_list_def
        sv_inv_ctor(1) [unfolded SegmentedVector_ctor_def])
  with sv.run_eq [of T "SegmentedVector_ctor T" ops] assms(2) show ?thesis by simp
qed

theorem sv_runs_as_list_witness:
  "seen sv_elements (seq_run (sv_append pair_type) (sv_removeLast pair_type) (sv_last pair_type)
     [Push 1, Push 2, Push 3, Top, Pop, Top] (SegmentedVector_ctor pair_type)) = Inr ([3, 2], [1, 2])"
proof -
  have "0 < inlineCapacity pair_type" "pushes [Push 1, Push 2, Push (3 :: nat), Top, Pop, Top] \<le> size_t_max"
    by (simp_all add: pair_type_def size_t_max_def)
  then show ?thesis using sv_runs_as_list [of pair_type "[Push 1, Push 2, Push 3, Top, Pop, Top]"] by simp
qed

end
