(* ===== verification/ParserArena.thy ===== *)
theory ParserArena
  imports SegmentedVector Source "HOL-Library.Multiset"
begin

text \<open>
  \<open>parser/ParserArena.h\<close> and \<open>ParserArena.cpp\<close>: the memory of the nodes and the identifiers of one parse.
  Addresses are numbers below \<open>2 ^ 64\<close>; \<open>pa_live\<close> lists the pools that \<open>malloc\<close> has returned and
  that are not yet freed. The address that the next \<open>malloc\<close> would return is an argument of the
  operations, \<open>0\<close> when it fails. \<open>m_freeablePools\<close> is the list its vector implements.
\<close>

subsection \<open>Identifiers\<close>

definition identifier_type :: "ustring vec_type" where
  "identifier_type =
    \<lparr>inlineCapacity = 64, sizeofT = 16, podT = False, initialT = UString_null, mallocFails = (\<lambda>_. False)\<rparr>"

text \<open>
  The identifier is built from the characters, its length cut to 32 bits by the constructor of
  \<open>UString\<close>, and copied into the vector; the result is the address of the copy.
\<close>

definition addIdentifier :: "ustring \<Rightarrow> ustring segvec \<Rightarrow> fault + (nat \<times> nat) \<times> ustring segvec" where
  "addIdentifier s ids =
    bindE (sv_append identifier_type (UString_copy s) ids) (\<lambda>ids.
    bindE (sv_last identifier_type ids) (\<lambda>_.
    Inr (position identifier_type (sv_size ids - 1), ids)))"

definition makeIdentifier :: "uchars \<Rightarrow> nat \<Rightarrow> ustring segvec \<Rightarrow> fault + (nat \<times> nat) \<times> ustring segvec" where
  "makeIdentifier characters len ids = addIdentifier (UString_utf16 (Some characters) (len mod 2 ^ 32)) ids"

text \<open>\<open>Identifier(globalData, UString::number(number))\<close>; the text of the number is an argument.\<close>

definition makeNumericIdentifier :: "8 word list \<Rightarrow> ustring segvec \<Rightarrow> fault + (nat \<times> nat) \<times> ustring segvec" where
  "makeNumericIdentifier buffer ids =
    addIdentifier (UString_copy (UString_latin1 (Some buffer) (length buffer))) ids"

definition ids_clear :: "ustring segvec \<Rightarrow> fault + ustring segvec" where
  "ids_clear ids = sv_clear identifier_type ids"

definition ids_isEmpty :: "ustring segvec \<Rightarrow> bool" where
  "ids_isEmpty ids \<longleftrightarrow> sv_size ids = 0"

subsection \<open>The arena\<close>

record parser_arena =
  m_freeableMemory :: nat
  m_freeablePoolEnd :: nat
  m_identifierArena :: "ustring segvec"
  m_freeablePools :: "nat list"
  pa_live :: "nat list"

definition freeablePoolSize :: nat where
  "freeablePoolSize = 8000"

definition alignSize :: "64 word \<Rightarrow> 64 word" where
  "alignSize n = (n + 8 - 1) AND NOT (8 - 1)"

definition ParserArena_ctor :: parser_arena where
  "ParserArena_ctor =
    \<lparr>m_freeableMemory = 0, m_freeablePoolEnd = 0, m_identifierArena = SegmentedVector_ctor identifier_type,
     m_freeablePools = [], pa_live = []\<rparr>"

definition freeablePool :: "parser_arena \<Rightarrow> fault + nat" where
  "freeablePool a =
    bindE (assertE (m_freeablePoolEnd a \<noteq> 0)) (\<lambda>_. Inr (m_freeablePoolEnd a - freeablePoolSize))"

definition freePool :: "nat \<Rightarrow> parser_arena \<Rightarrow> fault + parser_arena" where
  "freePool p a =
    (if p = 0 then Inr a
     else if p \<in> set (pa_live a) then Inr (a\<lparr>pa_live := remove1 p (pa_live a)\<rparr>)
     else Inl BadFree)"

primrec freePools :: "nat list \<Rightarrow> parser_arena \<Rightarrow> fault + parser_arena" where
  "freePools [] a = Inr a"
| "freePools (p # ps) a = bindE (freePool p a) (freePools ps)"

definition deallocateObjects :: "parser_arena \<Rightarrow> fault + parser_arena" where
  "deallocateObjects a =
    bindE (if m_freeablePoolEnd a \<noteq> 0 then bindE (freeablePool a) (\<lambda>p. freePool p a) else Inr a) (\<lambda>a.
    freePools (m_freeablePools a) a)"

definition allocateFreeablePool :: "nat \<Rightarrow> parser_arena \<Rightarrow> fault + parser_arena" where
  "allocateFreeablePool pool a =
    bindE
      (if m_freeablePoolEnd a \<noteq> 0 then
         bindE (freeablePool a) (\<lambda>p. Inr (a\<lparr>m_freeablePools := m_freeablePools a @ [p]\<rparr>))
       else Inr a)
      (\<lambda>a.
    let a = a\<lparr>m_freeableMemory := pool, m_freeablePoolEnd := pool + freeablePoolSize,
              pa_live := (if pool = 0 then pa_live a else pool # pa_live a)\<rparr>
    in bindE (freeablePool a) (\<lambda>p. bindE (assertE (p = pool)) (\<lambda>_. Inr a)))"

text \<open>The space that is left in the pool, \<open>static_cast<size_t>\<close> of a difference of pointers.\<close>

definition poolSpace :: "parser_arena \<Rightarrow> 64 word" where
  "poolSpace a = word_of_nat (m_freeablePoolEnd a) - word_of_nat (m_freeableMemory a)"

definition allocateFreeable :: "nat \<Rightarrow> 64 word \<Rightarrow> parser_arena \<Rightarrow> fault + nat \<times> parser_arena" where
  "allocateFreeable pool n a =
    bindE (assertE (n \<noteq> 0)) (\<lambda>_.
    bindE (assertE (unat n \<le> freeablePoolSize)) (\<lambda>_.
    let alignedSize = alignSize n in
    bindE (assertE (unat alignedSize \<le> freeablePoolSize)) (\<lambda>_.
    bindE (if poolSpace a < alignedSize then allocateFreeablePool pool a else Inr a) (\<lambda>a.
    Inr (m_freeableMemory a, a\<lparr>m_freeableMemory := m_freeableMemory a + unat alignedSize\<rparr>)))))"

definition arena_reset :: "parser_arena \<Rightarrow> fault + parser_arena" where
  "arena_reset a =
    bindE (deallocateObjects a) (\<lambda>a.
    bindE (ids_clear (m_identifierArena a)) (\<lambda>ids.
    Inr (a\<lparr>m_freeableMemory := 0, m_freeablePoolEnd := 0, m_identifierArena := ids, m_freeablePools := []\<rparr>)))"

text \<open>\<open>~ParserArena\<close>, with the destructors of the identifier arena.\<close>

definition ParserArena_dtor :: "parser_arena \<Rightarrow> fault + parser_arena" where
  "ParserArena_dtor a =
    bindE (deallocateObjects a) (\<lambda>a.
    bindE (deleteAllSegments identifier_type (m_identifierArena a)) (\<lambda>_.
    bindE (Vector_dtor identifier_type (sv_segments (m_identifierArena a) ! 0)) (\<lambda>_. Inr a)))"

subsection \<open>Alignment\<close>

lemma alignSize_eq: "alignSize n = push_bit 3 (drop_bit 3 (n + 7))"
proof -
  have "(n + 7) AND NOT (mask 3) = push_bit 3 (drop_bit 3 (n + 7))"
    by (rule bit_word_eqI) (auto simp: bit_simps)
  moreover have "mask 3 = (8 - 1 :: 64 word)" by (simp add: mask_eq_exp_minus_1)
  ultimately show ?thesis by (simp add: alignSize_def add.commute [of n])
qed

lemma unat_alignSize: "unat (alignSize n) = unat (n + 7) div 8 * 8"
proof -
  have "unat (drop_bit 3 (n + 7)) = unat (n + 7) div 8" by (simp add: unat_drop_bit_eq drop_bit_eq_div [where 'a = nat])
  moreover have "unat (n + 7) < 2 ^ 64" using unsigned_less [of "n + 7"] by simp
  then have "unat (n + 7) div 8 * 8 < 2 ^ 64" using div_times_less_eq_dividend le_less_trans by blast
  ultimately show ?thesis
    by (simp add: alignSize_eq push_bit_eq_mult unat_word_ariths take_bit_eq_mod)
qed

text \<open>
  \<open>alignSize\<close> rounds a size up to the next multiple of eight, in 64-bit arithmetic: exactly when the
  size is above \<open>2 ^ 64 - 8\<close> the sum wraps and the result is 0.
\<close>

theorem alignSize_rounds_up:
  "unat (alignSize n) = (if unat n > 2 ^ 64 - 8 then 0 else (unat n + 7) div 8 * 8) \<and>
   8 dvd unat (alignSize n)"
proof (cases "unat n > 2 ^ 64 - 8")
  have less: "unat n < 2 ^ 64" using unsigned_less [of n] by simp
  case True
  have "unat (n + 7) = (unat n + 7) mod 2 ^ 64" by (simp add: unat_word_ariths)
  also have "\<dots> = unat n + 7 - 2 ^ 64" using True less by (simp add: le_mod_geq)
  finally have "unat (n + 7) < 8" using less by simp
  then show ?thesis using True by (simp add: unat_alignSize)
next
  case False
  then have "unat (n + 7) = unat n + 7" by (simp add: unat_word_ariths)
  then show ?thesis using False by (simp add: unat_alignSize)
qed

lemma alignSize_small:
  assumes "unat n \<le> freeablePoolSize"
  shows "unat n \<le> unat (alignSize n)" and "unat (alignSize n) \<le> freeablePoolSize"
    and "8 dvd unat (alignSize n)"
proof -
  have n: "unat n \<le> 8000" using assms by (simp add: freeablePoolSize_def)
  then have "unat (n + 7) = unat n + 7" by (simp add: unat_word_ariths)
  then have a: "unat (alignSize n) = (unat n + 7) div 8 * 8" by (simp add: unat_alignSize)
  define q where "q = (unat n + 7) div 8"
  have "unat n + 7 < 8 * q + 8" "8 * q \<le> unat n + 7"
    unfolding q_def by (simp_all add: dividend_less_times_div)
  then show "unat n \<le> unat (alignSize n)" "unat (alignSize n) \<le> freeablePoolSize" "8 dvd unat (alignSize n)"
    using n unfolding a q_def [symmetric] freeablePoolSize_def by simp_all
qed

subsection \<open>The invariant\<close>

text \<open>Two regions of memory, given by address and size, that do not overlap.\<close>

definition apart :: "nat \<times> nat \<Rightarrow> nat \<times> nat \<Rightarrow> bool" where
  "apart b c \<longleftrightarrow> fst b + snd b \<le> fst c \<or> fst c + snd c \<le> fst b"

definition within :: "nat \<times> nat \<Rightarrow> nat \<Rightarrow> bool" where
  "within b p \<longleftrightarrow> p \<le> fst b \<and> fst b + snd b \<le> p + freeablePoolSize"

definition pools :: "parser_arena \<Rightarrow> nat list" where
  "pools a = (if m_freeablePoolEnd a = 0 then [] else [m_freeablePoolEnd a - freeablePoolSize]) @ m_freeablePools a"

definition pools_ok :: "nat list \<Rightarrow> bool" where
  "pools_ok ps \<longleftrightarrow> sorted_wrt (\<lambda>p q. apart (p, freeablePoolSize) (q, freeablePoolSize)) ps \<and>
    (\<forall>p \<in> set ps. p \<noteq> 0 \<and> 8 dvd p \<and> p + freeablePoolSize < 2 ^ 64)"

text \<open>
  What \<open>malloc\<close> promises: an aligned region inside the address space, apart from those it has returned
  before and that are not freed.
\<close>

definition fresh_pool :: "parser_arena \<Rightarrow> nat \<Rightarrow> bool" where
  "fresh_pool a p \<longleftrightarrow> p \<noteq> 0 \<and> 8 dvd p \<and> p + freeablePoolSize < 2 ^ 64 \<and>
    (\<forall>q \<in> set (pa_live a). apart (p, freeablePoolSize) (q, freeablePoolSize))"

definition arena_inv :: "parser_arena \<Rightarrow> (nat \<times> nat) list \<Rightarrow> bool" where
  "arena_inv a blocks \<longleftrightarrow>
    mset (pa_live a) = mset (pools a) \<and> pools_ok (pools a) \<and>
    (if m_freeablePoolEnd a = 0 then m_freeableMemory a = 0 \<and> m_freeablePools a = []
     else freeablePoolSize \<le> m_freeablePoolEnd a \<and> 8 dvd m_freeableMemory a \<and>
       m_freeablePoolEnd a - freeablePoolSize \<le> m_freeableMemory a \<and> m_freeableMemory a \<le> m_freeablePoolEnd a) \<and>
    (\<forall>b \<in> set blocks. 8 dvd fst b \<and> (\<exists>p \<in> set (pools a). within b p) \<and>
      apart b (m_freeableMemory a, m_freeablePoolEnd a - m_freeableMemory a)) \<and>
    sorted_wrt apart blocks \<and> sv_inv identifier_type (m_identifierArena a) \<and>
    None \<notin> set (sv_list (m_identifierArena a))"

lemma identifiers_ctor:
  "sv_inv identifier_type (SegmentedVector_ctor identifier_type)"
  by (rule sv_inv_ctor) (simp add: identifier_type_def)

lemma arena_inv_ctor [simp]: "arena_inv ParserArena_ctor []"
  using identifiers_ctor
  by (simp add: arena_inv_def ParserArena_ctor_def pools_def pools_ok_def)

lemma pools_apart:
  "pools_ok ps \<Longrightarrow> p \<in> set ps \<Longrightarrow> q \<in> set ps \<Longrightarrow> p \<noteq> q \<Longrightarrow> apart (p, freeablePoolSize) (q, freeablePoolSize)"
  by (induction ps) (auto simp: pools_ok_def apart_def)

lemma apart_sym: "apart b c \<Longrightarrow> apart c b"
  by (auto simp: apart_def)

lemma pools_ok_rotate: "pools_ok (p # ps) \<Longrightarrow> pools_ok (ps @ [p])"
  unfolding pools_ok_def sorted_wrt_append by (simp add: apart_sym)

text \<open>A block in one pool is apart from every region in another.\<close>

lemma apart_within:
  "apart (p, freeablePoolSize) (q, freeablePoolSize) \<Longrightarrow> within b p \<Longrightarrow> within c q \<Longrightarrow> apart b c"
  by (auto simp: apart_def within_def)

lemma freePool_ok: "p \<in> set (pa_live a) \<Longrightarrow> p \<noteq> 0 \<Longrightarrow> freePool p a = Inr (a\<lparr>pa_live := remove1 p (pa_live a)\<rparr>)"
  by (simp add: freePool_def)

lemma freePools_ok:
  "mset (pa_live a) = mset ps \<Longrightarrow> 0 \<notin> set ps \<Longrightarrow> freePools ps a = Inr (a\<lparr>pa_live := []\<rparr>)"
proof (induction ps arbitrary: a)
  case Nil
  then show ?case by simp
next
  case (Cons p ps)
  then have "p \<in> set (pa_live a)" by (metis list.set_intros(1) set_mset_mset)
  then have "freePool p a = Inr (a\<lparr>pa_live := remove1 p (pa_live a)\<rparr>)" using Cons.prems(2) by (simp add: freePool_ok)
  moreover have "mset (remove1 p (pa_live a)) = mset ps" using Cons.prems(1) by simp
  ultimately show ?case using Cons.IH [of "a\<lparr>pa_live := remove1 p (pa_live a)\<rparr>"] Cons.prems(2) by simp
qed

lemma deallocateObjects_ok:
  assumes "arena_inv a blocks"
  shows "deallocateObjects a = Inr (a\<lparr>pa_live := []\<rparr>)"
proof -
  have "deallocateObjects a = freePools (pools a) a"
    by (simp add: deallocateObjects_def pools_def freeablePool_def)
      (auto simp: freePool_def)
  moreover have "0 \<notin> set (pools a)" using assms by (auto simp: arena_inv_def pools_ok_def)
  ultimately show ?thesis using freePools_ok [of a "pools a"] assms by (simp add: arena_inv_def)
qed

lemma reset_ok:
  assumes "arena_inv a blocks"
  shows "\<exists>a'. arena_reset a = Inr a' \<and> arena_inv a' [] \<and> pa_live a' = [] \<and> pools a' = [] \<and>
    ids_isEmpty (m_identifierArena a')"
proof -
  have i: "sv_inv identifier_type (m_identifierArena a)" using assms by (simp add: arena_inv_def)
  from sv_clear_ok [OF i] obtain ids where ids: "sv_clear identifier_type (m_identifierArena a) = Inr ids"
    "sv_inv identifier_type ids" "sv_list ids = []"
    by blast
  moreover from this have "sv_size ids = 0" using sv_list_blocks(1) [OF ids(2)] by simp
  ultimately show ?thesis
    using deallocateObjects_ok [OF assms]
    by (simp add: arena_reset_def ids_clear_def arena_inv_def pools_def pools_ok_def ids_isEmpty_def)
qed

lemma dtor_ok:
  assumes "arena_inv a blocks"
  shows "\<exists>a'. ParserArena_dtor a = Inr a' \<and> pa_live a' = []"
proof -
  let ?ids = "m_identifierArena a"
  have i: "sv_inv identifier_type ?ids" using assms by (simp add: arena_inv_def)
  obtain v vs where s: "sv_segments ?ids = v # vs"
    using i by (cases "sv_segments ?ids") (auto simp: sv_inv_def)
  have inv: "vec_inv identifier_type (sv_segments ?ids ! k)" if "k < length (sv_segments ?ids)" for k
    using sv_inv_segment [OF i that] by (simp add: segment_ok_def)
  have "\<forall>w \<in> set vs. vec_inv identifier_type w" using inv [of "Suc k" for k] s by (auto simp: in_set_conv_nth)
  then have "deleteAllSegments identifier_type ?ids = Inr ()" using s by (simp add: deleteAllSegments_def delete_ok)
  moreover obtain w where "Vector_dtor identifier_type (sv_segments ?ids ! 0) = Inr w"
    using Vector_dtor_ok [OF inv [of 0]] s by auto
  ultimately show ?thesis using deallocateObjects_ok [OF assms] by (simp add: ParserArena_dtor_def)
qed

lemma poolSpace_eq:
  assumes "arena_inv a blocks"
  shows "unat (poolSpace a) = m_freeablePoolEnd a - m_freeableMemory a"
proof (cases "m_freeablePoolEnd a = 0")
  case True
  then show ?thesis using assms by (simp add: poolSpace_def arena_inv_def)
next
  case False
  then have "m_freeableMemory a \<le> m_freeablePoolEnd a" "m_freeablePoolEnd a < 2 ^ 64"
    using assms by (auto simp: arena_inv_def pools_ok_def pools_def split: if_splits)
  then have u: "unat (word_of_nat (m_freeablePoolEnd a) :: 64 word) = m_freeablePoolEnd a"
      "unat (word_of_nat (m_freeableMemory a) :: 64 word) = m_freeableMemory a"
    and "m_freeableMemory a \<le> m_freeablePoolEnd a"
    by (simp_all add: unat_of_nat)
  then show ?thesis by (simp add: poolSpace_def unat_sub word_le_nat_alt)
qed

lemma newPool_ok:
  assumes "arena_inv a blocks" and "fresh_pool a p"
  shows "\<exists>a'. allocateFreeablePool p a = Inr a' \<and> arena_inv a' blocks \<and>
    m_freeableMemory a' = p \<and> m_freeablePoolEnd a' = p + freeablePoolSize"
proof -
  let ?ps = "m_freeablePools a @ (if m_freeablePoolEnd a = 0 then [] else [m_freeablePoolEnd a - freeablePoolSize])"
  let ?a = "a\<lparr>m_freeablePools := ?ps, m_freeableMemory := p, m_freeablePoolEnd := p + freeablePoolSize,
      pa_live := p # pa_live a\<rparr>"
  have p: "p \<noteq> 0" "8 dvd p" "p + freeablePoolSize < 2 ^ 64"
    "\<forall>q \<in> set (pools a). apart (p, freeablePoolSize) (q, freeablePoolSize)"
    using assms mset_eq_setD [of "pa_live a" "pools a"] by (auto simp: fresh_pool_def arena_inv_def)
  have eq: "allocateFreeablePool p a = Inr ?a"
    using p(1) by (cases a) (simp add: allocateFreeablePool_def freeablePool_def freeablePoolSize_def)
  have pools: "pools ?a = p # ?ps" using p(1) by (simp add: pools_def)
  have "set ?ps = set (pools a)" "mset ?ps = mset (pools a)" by (auto simp: pools_def)
  moreover have "pools_ok ?ps"
    using assms(1) pools_ok_rotate by (auto simp: arena_inv_def pools_def)
  moreover have "apart b (p, freeablePoolSize)" if "b \<in> set blocks" for b
  proof -
    from assms(1) that obtain q where "q \<in> set (pools a)" "within b q" by (auto simp: arena_inv_def)
    moreover have "within (p, freeablePoolSize) p" by (simp add: within_def)
    ultimately show ?thesis using apart_within [of q p] p(4) apart_sym by blast
  qed
  ultimately have "arena_inv ?a blocks"
    using assms(1) p unfolding arena_inv_def pools by (auto simp: pools_ok_def)
  then show ?thesis using eq by simp
qed

lemma bump_ok:
  assumes "arena_inv a blocks" and "unat n \<noteq> 0" and "unat n \<le> k" and "8 dvd k"
    and "k \<le> m_freeablePoolEnd a - m_freeableMemory a"
  shows "arena_inv (a\<lparr>m_freeableMemory := m_freeableMemory a + k\<rparr>) ((m_freeableMemory a, unat n) # blocks)"
proof -
  let ?m = "m_freeableMemory a" and ?e = "m_freeablePoolEnd a"
  have e: "?e \<noteq> 0" using assms(2,3,5) by auto
  then have m: "8 dvd ?m" "?e - freeablePoolSize \<le> ?m" "?m + k \<le> ?e" "freeablePoolSize \<le> ?e"
    using assms(1,2,3,5) by (auto simp: arena_inv_def)
  have pools: "pools (a\<lparr>m_freeableMemory := ?m + k\<rparr>) = pools a" by (simp add: pools_def)
  have "within (?m, unat n) (?e - freeablePoolSize)" "?e - freeablePoolSize \<in> set (pools a)"
    using m assms(3) e by (auto simp: within_def pools_def)
  moreover have "apart b (?m + k, ?e - (?m + k))" "apart (?m, unat n) b" if "b \<in> set blocks" for b
    using assms(1,3) that m(3) by (auto simp: arena_inv_def apart_def)
  ultimately show ?thesis
    using assms(1,3,4) m e unfolding arena_inv_def pools by (auto simp: apart_def)
qed

lemma allocate_ok:
  assumes "arena_inv a blocks" and "n \<noteq> 0" and "unat n \<le> freeablePoolSize" and "fresh_pool a p"
  shows "\<exists>b a'. allocateFreeable p n a = Inr (b, a') \<and> arena_inv a' ((b, unat n) # blocks) \<and>
    m_identifierArena a' = m_identifierArena a"
proof -
  note k = alignSize_small [OF assms(3)]
  have n: "unat n \<noteq> 0" using assms(2) by (simp add: unat_eq_0)
  let ?k = "unat (alignSize n)"
  have eq: "allocateFreeable p n a =
      bindE (if unat (poolSpace a) < ?k then allocateFreeablePool p a else Inr a) (\<lambda>a.
      Inr (m_freeableMemory a, a\<lparr>m_freeableMemory := m_freeableMemory a + ?k\<rparr>))"
    using assms(2,3) k(2) by (simp add: allocateFreeable_def word_less_nat_alt)
  show ?thesis
  proof (cases "unat (poolSpace a) < ?k")
    case True
    from newPool_ok [OF assms(1,4)] obtain a' where a':
      "allocateFreeablePool p a = Inr a'" "arena_inv a' blocks"
      "m_freeableMemory a' = p" "m_freeablePoolEnd a' = p + freeablePoolSize"
      by blast
    have "m_identifierArena a' = m_identifierArena a"
      using a'(1) by (auto simp: allocateFreeablePool_def bindE_Inr_iff Let_def split: if_splits)
    then show ?thesis using bump_ok [OF a'(2) n k(1,3)] k(2) a' eq True by simp
  next
    case False
    then show ?thesis
      using bump_ok [OF assms(1) n k(1,3)] eq poolSpace_eq [OF assms(1)] by simp
  qed
qed

subsection \<open>Identifiers stay where they are\<close>

lemma addIdentifier_ok:
  assumes "sv_inv identifier_type ids" and "None \<notin> set (sv_list ids)" and "sv_size ids < size_t_max"
  shows "\<exists>ids'. addIdentifier s ids = Inr (position identifier_type (sv_size ids), ids') \<and>
    sv_inv identifier_type ids' \<and> None \<notin> set (sv_list ids') \<and> sv_size ids' = Suc (sv_size ids) \<and>
    sv_deref ids' (position identifier_type (sv_size ids)) = Inr (UString_copy s) \<and>
    (\<forall>p x. sv_deref ids p = Inr x \<longrightarrow> sv_deref ids' p = Inr x)"
proof -
  from sv_append_ok [OF assms(1), of "UString_copy s"] obtain ids' where i:
    "sv_append identifier_type (UString_copy s) ids = Inr ids'" "sv_inv identifier_type ids'"
    "sv_list ids' = sv_list ids @ [Some (UString_copy s)]" "sv_size ids' = Suc (sv_size ids)"
    by blast
  have "sv_last identifier_type ids' = Inr (UString_copy s)"
    using sv_last_ok [OF i(2,3)] i(4) assms(3) by simp
  moreover have "(sv_list ids @ [Some (UString_copy s)]) ! sv_size ids = Some (UString_copy s)"
    using sv_list_blocks(1) [OF assms(1)] by (metis nth_append_length)
  then have "sv_deref ids' (position identifier_type (sv_size ids)) = Inr (UString_copy s)"
    using sv_at_ok(2) [OF i(2), of "sv_size ids" "UString_copy s"] i(3,4) sv_list_blocks(1) [OF assms(1)]
    by (simp add: sv_deref_def position_def)
  moreover have "\<forall>p x. sv_deref ids p = Inr x \<longrightarrow> sv_deref ids' p = Inr x"
    using sv_append_deref [OF assms(1) _ i(1)] by blast
  ultimately show ?thesis using i assms(2) by (simp add: addIdentifier_def)
qed

text \<open>A run of \<open>makeIdentifier\<close> over several texts.\<close>

primrec makeIdentifiers :: "uchars list \<Rightarrow> ustring segvec \<Rightarrow> fault + ustring segvec" where
  "makeIdentifiers [] ids = Inr ids"
| "makeIdentifiers (cs # css) ids =
    bindE (makeIdentifier cs (length cs) ids) (\<lambda>(_, ids). makeIdentifiers css ids)"

lemma makeIdentifiers_ok:
  "sv_inv identifier_type ids \<Longrightarrow> None \<notin> set (sv_list ids) \<Longrightarrow> sv_size ids + length css \<le> size_t_max \<Longrightarrow>
     \<exists>ids'. makeIdentifiers css ids = Inr ids' \<and> (\<forall>p x. sv_deref ids p = Inr x \<longrightarrow> sv_deref ids' p = Inr x)"
proof (induction css arbitrary: ids)
  case (Cons cs css)
  let ?s = "UString_utf16 (Some cs) (length cs mod 2 ^ 32)"
  from addIdentifier_ok [OF Cons.prems(1,2), of ?s] Cons.prems(3) obtain ids1 where i:
    "addIdentifier ?s ids = Inr (position identifier_type (sv_size ids), ids1)"
    "sv_inv identifier_type ids1" "None \<notin> set (sv_list ids1)" "sv_size ids1 = Suc (sv_size ids)"
    "\<forall>p x. sv_deref ids p = Inr x \<longrightarrow> sv_deref ids1 p = Inr x"
    by auto
  from Cons.IH [OF i(2,3)] i(4) Cons.prems(3) obtain ids2 where
    "makeIdentifiers css ids1 = Inr ids2" "\<forall>p x. sv_deref ids1 p = Inr x \<longrightarrow> sv_deref ids2 p = Inr x"
    by auto
  with i(1,5) show ?case by (simp add: makeIdentifier_def)
qed simp

text \<open>
  C21. The reference that \<open>makeIdentifier\<close> returns refers to an identifier with the given characters, and
  still does after any number of further calls, as the scanner and the parser rely on: they keep
  these references in tokens and nodes.
\<close>

theorem makeIdentifier_reference:
  assumes "sv_inv identifier_type ids" and "None \<notin> set (sv_list ids)"
    and "sv_size ids + length css < size_t_max" and "length cs < 2 ^ 32"
  shows "\<exists>ref ids1 ids2 s. makeIdentifier cs (length cs) ids = Inr (ref, ids1) \<and>
    makeIdentifiers css ids1 = Inr ids2 \<and> sv_deref ids2 ref = Inr s \<and> ustring_chars s = cs"
proof -
  let ?s = "UString_utf16 (Some cs) (length cs mod 2 ^ 32)"
  from addIdentifier_ok [OF assms(1,2), of ?s] assms(3) obtain ids1 where i:
    "addIdentifier ?s ids = Inr (position identifier_type (sv_size ids), ids1)"
    "sv_inv identifier_type ids1" "None \<notin> set (sv_list ids1)" "sv_size ids1 = Suc (sv_size ids)"
    "sv_deref ids1 (position identifier_type (sv_size ids)) = Inr (UString_copy ?s)"
    by auto
  from makeIdentifiers_ok [OF i(2,3), of css] i(4) assms(3) obtain ids2 where
    "makeIdentifiers css ids1 = Inr ids2" "\<forall>p x. sv_deref ids1 p = Inr x \<longrightarrow> sv_deref ids2 p = Inr x"
    by auto
  moreover have "ustring_chars (UString_copy ?s) = cs" using assms(4) by simp
  ultimately show ?thesis using i(1,5) unfolding makeIdentifier_def by blast
qed

theorem makeIdentifier_reference_witness:
  "\<exists>ref ids1 ids2 s. makeIdentifier [97, 98] 2 (SegmentedVector_ctor identifier_type) = Inr (ref, ids1) \<and>
     makeIdentifiers (replicate 100 [99]) ids1 = Inr ids2 \<and> sv_deref ids2 ref = Inr s \<and> ustring_chars s = [97, 98]"
proof -
  have "sv_size (SegmentedVector_ctor identifier_type) + length (replicate 100 [99 :: int]) < size_t_max"
    by (simp add: SegmentedVector_ctor_def size_t_max_def)
  moreover have "None \<notin> set (sv_list (SegmentedVector_ctor identifier_type))" by simp
  moreover have "length [97 :: int, 98] < 2 ^ 32" and two: "length [97 :: int, 98] = 2" by simp_all
  ultimately show ?thesis using makeIdentifier_reference [OF identifiers_ctor] unfolding two [symmetric] by blast
qed

subsection \<open>Runs\<close>

text \<open>
  What the parser can do with its arena, with the blocks that it was given since the last \<open>reset\<close>.
\<close>

inductive arena_run :: "parser_arena \<Rightarrow> (nat \<times> nat) list \<Rightarrow> bool" where
  start: "arena_run ParserArena_ctor []"
| allocate: "arena_run a blocks \<Longrightarrow> fresh_pool a p \<Longrightarrow> allocateFreeable p n a = Inr (b, a') \<Longrightarrow>
    arena_run a' ((b, unat n) # blocks)"
| intern: "arena_run a blocks \<Longrightarrow> sv_size (m_identifierArena a) < size_t_max \<Longrightarrow>
    addIdentifier s (m_identifierArena a) = Inr (ref, ids) \<Longrightarrow>
    arena_run (a\<lparr>m_identifierArena := ids\<rparr>) blocks"
| reset: "arena_run a blocks \<Longrightarrow> arena_reset a = Inr a' \<Longrightarrow> arena_run a' []"

lemma allocate_pre:
  "allocateFreeable p n a = Inr r \<Longrightarrow> n \<noteq> 0 \<and> unat n \<le> freeablePoolSize"
  by (auto simp: allocateFreeable_def assertE_def split: if_splits)

lemma arena_run_inv: "arena_run a blocks \<Longrightarrow> arena_inv a blocks"
proof (induction rule: arena_run.induct)
  case (allocate a blocks p n b a')
  then show ?case using allocate_ok [of a blocks n p] allocate_pre [of p n a] by fastforce
next
  case (intern a blocks s ref ids)
  then have "sv_inv identifier_type (m_identifierArena a)" "None \<notin> set (sv_list (m_identifierArena a))"
    by (simp_all add: arena_inv_def)
  with addIdentifier_ok [OF this intern.hyps(2), of s] intern
  show ?case by (auto simp: arena_inv_def pools_def)
next
  case (reset a blocks a')
  then show ?case using reset_ok by fastforce
qed simp

text \<open>
  C7. The blocks an arena hands out are usable memory: each is aligned to eight bytes, lies with all its
  bytes in one pool that is allocated and not freed, and overlaps no other block; this holds after every
  run of allocations, identifiers and resets, and every request of 1 to 8000 bytes is served.
\<close>

theorem arena_blocks_disjoint:
  assumes "arena_run a blocks"
  shows "sorted_wrt apart blocks \<and>
    (\<forall>(b, size) \<in> set blocks. 8 dvd b \<and> (\<exists>p \<in> set (pa_live a). within (b, size) p)) \<and>
    (\<forall>p n. fresh_pool a p \<and> n \<noteq> 0 \<and> unat n \<le> 8000 \<longrightarrow> (\<exists>b a'. allocateFreeable p n a = Inr (b, a')))"
proof -
  have inv: "arena_inv a blocks" using assms by (rule arena_run_inv)
  then have "set (pa_live a) = set (pools a)" by (auto simp: arena_inv_def dest: mset_eq_setD)
  moreover have "\<exists>b a'. allocateFreeable p n a = Inr (b, a')"
    if "fresh_pool a p" "n \<noteq> 0" "unat n \<le> 8000" for p n
    using allocate_ok [OF inv that(2) _ that(1)] that(3) by (auto simp: freeablePoolSize_def)
  ultimately show ?thesis using inv by (auto simp: arena_inv_def)
qed

theorem arena_blocks_disjoint_witness:
  "\<exists>a b c. arena_run a [(b, 5000), (c, 4000)] \<and> apart (b, 5000) (c, 4000)"
proof -
  define a1 where "a1 = ParserArena_ctor\<lparr>m_freeableMemory := 12000, m_freeablePoolEnd := 16000, pa_live := [8000]\<rparr>"
  define a2 where "a2 = ParserArena_ctor\<lparr>m_freeableMemory := 85000, m_freeablePoolEnd := 88000,
      m_freeablePools := [8000], pa_live := [80000, 8000]\<rparr>"
  note defs = allocateFreeable_def allocateFreeablePool_def freeablePool_def freeablePoolSize_def
    ParserArena_ctor_def alignSize_def poolSpace_def a1_def a2_def fresh_pool_def apart_def
  have "allocateFreeable 8000 4000 ParserArena_ctor = Inr (8000, a1)" "fresh_pool ParserArena_ctor 8000"
    "allocateFreeable 80000 5000 a1 = Inr (80000, a2)" "fresh_pool a1 80000"
    by (simp_all add: defs)
  then have "arena_run a2 [(80000, unat (5000 :: 64 word)), (8000, unat (4000 :: 64 word))]"
    by (blast intro: arena_run.intros)
  then have "arena_run a2 [(80000, 5000), (8000, 4000)]" by simp
  from this arena_blocks_disjoint [OF this] show ?thesis by auto
qed

text \<open>
  C20. Every pool is freed exactly once: in every state that a run reaches, \<open>reset\<close> and the destructor free
  all pools that are allocated and nothing else, and \<open>reset\<close> leaves an arena with no pool and no
  identifier.
\<close>

theorem arena_frees_every_pool:
  assumes "arena_run a blocks"
  shows "(\<exists>a'. arena_reset a = Inr a' \<and> pa_live a' = [] \<and> m_freeablePools a' = [] \<and>
      m_freeablePoolEnd a' = 0 \<and> ids_isEmpty (m_identifierArena a')) \<and>
    (\<exists>a'. ParserArena_dtor a = Inr a' \<and> pa_live a' = [])"
proof -
  have inv: "arena_inv a blocks" using assms by (rule arena_run_inv)
  have "m_freeablePools a' = [] \<and> m_freeablePoolEnd a' = 0" if "pools a' = []" for a'
    using that by (auto simp: pools_def split: if_splits)
  with reset_ok [OF inv] dtor_ok [OF inv] show ?thesis by fast
qed

theorem arena_frees_every_pool_witness:
  "\<exists>a. arena_run a [(8000, 24)] \<and> pa_live a = [8000] \<and> (\<exists>a'. arena_reset a = Inr a' \<and> pa_live a' = [])"
proof -
  define a1 where "a1 = ParserArena_ctor\<lparr>m_freeableMemory := 8024, m_freeablePoolEnd := 16000, pa_live := [8000]\<rparr>"
  note defs = allocateFreeable_def allocateFreeablePool_def freeablePool_def freeablePoolSize_def
    ParserArena_ctor_def alignSize_def poolSpace_def a1_def fresh_pool_def apart_def
  have "allocateFreeable 8000 24 ParserArena_ctor = Inr (8000, a1)" "fresh_pool ParserArena_ctor 8000"
    by (simp_all add: defs)
  then have "arena_run a1 [(8000, unat (24 :: 64 word))]" by (blast intro: arena_run.intros)
  then have "arena_run a1 [(8000, 24)]" by simp
  moreover have "pa_live a1 = [8000]" by (simp add: a1_def)
  ultimately show ?thesis using arena_frees_every_pool by blast
qed

text \<open>
  When \<open>malloc\<close> returns null the arena does not notice: the assertion in \<open>allocateFreeablePool\<close> holds,
  and the block that is returned is at address 0, the next ones at small addresses after it.
\<close>

lemma arena_after_failed_malloc:
  assumes "n \<noteq> 0" and "unat n \<le> 4000" and "arena_inv a blocks" and "unat (poolSpace a) < unat n"
  shows "\<exists>a'. allocateFreeable 0 n a = Inr (0, a') \<and> pa_live a' = pa_live a \<and>
    (\<exists>a''. allocateFreeable 0 n a' = Inr (unat (alignSize n), a''))"
proof -
  have n: "unat n \<le> freeablePoolSize" using assms(2) by (simp add: freeablePoolSize_def)
  note k = alignSize_small [OF n]
  have k8: "unat (alignSize n) \<le> 4000"
  proof -
    have "unat (n + 7) = unat n + 7" using assms(2) by (simp add: unat_word_ariths)
    moreover have "(unat n + 7) div 8 \<le> 4007 div 8" using assms(2) by (intro div_le_mono) simp
    ultimately show ?thesis by (simp add: unat_alignSize)
  qed
  have lt: "poolSpace a < alignSize n" using assms(4) k(1) by (simp add: word_less_nat_alt)
  obtain a1 where a1: "allocateFreeablePool 0 a = Inr a1" "m_freeableMemory a1 = 0"
    "m_freeablePoolEnd a1 = freeablePoolSize" "pa_live a1 = pa_live a"
    by (cases "m_freeablePoolEnd a = 0")
       (auto simp: allocateFreeablePool_def freeablePool_def freeablePoolSize_def)
  let ?a1 = "a1\<lparr>m_freeableMemory := unat (alignSize n)\<rparr>"
  have first: "allocateFreeable 0 n a = Inr (0, ?a1)"
    using assms(1) n k(2) lt a1 by (simp add: allocateFreeable_def)
  have "unat (poolSpace ?a1) = 8000 - unat (alignSize n)"
    using k8 a1(3) by (simp add: poolSpace_def freeablePoolSize_def unat_sub word_le_nat_alt)
  then have "\<not> poolSpace ?a1 < alignSize n" using k8 by (simp add: word_less_nat_alt)
  then have "allocateFreeable 0 n ?a1 =
      Inr (unat (alignSize n), ?a1\<lparr>m_freeableMemory := unat (alignSize n) + unat (alignSize n)\<rparr>)"
    using assms(1) n k(2) by (simp add: allocateFreeable_def Let_def)
  then show ?thesis using first a1(4) by auto
qed

end
