(* ===== verification/Streams.thy ===== *)
theory Streams
  imports Main
begin

text \<open>
  The class \<open>Stream\<close> of \<open>modules/fs/fs.cpp\<close>: files opened through \<open>std::fstream\<close>. The file system is a
  map from names to contents; a stream has the position and the state bits of \<open>std::fstream\<close>, and
  what is written stays in its buffer until it is flushed or closed (the library may write it
  earlier, which no property here depends on). JavaScript strings are the bytes that
  \<open>String::Utf8Value\<close> yields and \<open>String::New\<close> takes, up to the first null byte. The result of a
  function is \<open>Inl\<close> with the text of the exception it throws or \<open>Inr\<close> with its value.
\<close>

type_synonym disk = "string \<Rightarrow> string option"

record stream =
  st_name :: string
  st_in :: bool
  st_out :: bool
  st_open :: bool
  st_pos :: nat
  st_pending :: string
  st_eof :: bool
  st_fail :: bool

abbreviation newline :: char where
  "newline \<equiv> CHR 0x0A"

definition c_str :: "string \<Rightarrow> string" where
  "c_str s = takeWhile (\<lambda>c. c \<noteq> CHR 0x00) s"

subsection \<open>The stream of the standard library\<close>

text \<open>\<open>open\<close>: a file that is only written is created or emptied; reading needs an existing one.\<close>

definition std_open :: "(string \<Rightarrow> bool) \<Rightarrow> bool \<Rightarrow> bool \<Rightarrow> string \<Rightarrow> disk \<Rightarrow> (disk \<times> stream) option" where
  "std_open permitted reads writes name disk =
    (if \<not> permitted name \<or> (reads \<and> disk name = None) then None
     else
       Some (if reads then disk else disk(name := Some ''''),
         \<lparr>st_name = name, st_in = reads, st_out = writes, st_open = True, st_pos = 0, st_pending = '''',
          st_eof = False, st_fail = False\<rparr>))"

definition std_content :: "disk \<Rightarrow> stream \<Rightarrow> string" where
  "std_content disk st = (case disk (st_name st) of None \<Rightarrow> '''' | Some c \<Rightarrow> c)"

definition std_good :: "stream \<Rightarrow> bool" where
  "std_good st \<longleftrightarrow> \<not> st_eof st \<and> \<not> st_fail st"

text \<open>The buffer is written at the position of the stream.\<close>

definition std_flush :: "disk \<Rightarrow> stream \<Rightarrow> disk \<times> stream" where
  "std_flush disk st =
    (if st_pending st = '''' then (disk, st)
     else
       let c = std_content disk st; n = length (st_pending st) in
       (disk(st_name st \<mapsto> take (st_pos st) c @ st_pending st @ drop (st_pos st + n) c),
        st\<lparr>st_pos := st_pos st + n, st_pending := ''''\<rparr>))"

definition std_write :: "string \<Rightarrow> stream \<Rightarrow> stream" where
  "std_write s st =
    (if std_good st \<and> st_open st \<and> st_out st then st\<lparr>st_pending := st_pending st @ s\<rparr>
     else st\<lparr>st_fail := True\<rparr>)"

definition std_getline :: "disk \<Rightarrow> stream \<Rightarrow> string \<times> disk \<times> stream" where
  "std_getline disk st =
    (if \<not> std_good st then ('''', disk, st\<lparr>st_fail := True\<rparr>)
     else if \<not> st_open st \<or> \<not> st_in st then ('''', disk, st\<lparr>st_eof := True, st_fail := True\<rparr>)
     else
       let (disk, st) = std_flush disk st;
           rest = drop (st_pos st) (std_content disk st);
           line = takeWhile (\<lambda>c. c \<noteq> newline) rest
       in if newline \<in> set rest then (line, disk, st\<lparr>st_pos := st_pos st + length line + 1\<rparr>)
          else (rest, disk, st\<lparr>st_pos := st_pos st + length rest, st_eof := True, st_fail := (rest = '''')\<rparr>))"

definition std_close :: "disk \<Rightarrow> stream \<Rightarrow> disk \<times> stream" where
  "std_close disk st =
    (if st_open st then let (disk, st) = std_flush disk st in (disk, st\<lparr>st_open := False\<rparr>)
     else (disk, st\<lparr>st_fail := True\<rparr>))"

subsection \<open>The functions of the class\<close>

text \<open>The mode: \<open>in\<close> without an argument, else by the letters of the argument; \<open>None\<close> is an invalid one.\<close>

definition open_mode :: "string list \<Rightarrow> (bool \<times> bool) option" where
  "open_mode args =
    (if length args = 2 then
       let options = c_str (args ! 1);
           reads = (CHR ''r'' \<in> set options);
           writes = (CHR ''w'' \<in> set options)
       in if \<not> reads \<and> \<not> writes then None
          else Some (reads, writes \<or> \<not> reads)
     else Some (True, False))"

definition stream_constructor ::
  "(string \<Rightarrow> bool) \<Rightarrow> string list \<Rightarrow> disk \<Rightarrow> (string + stream) \<times> disk" where
  "stream_constructor permitted args disk =
    (if length args \<noteq> 1 \<and> length args \<noteq> 2 then
       (Inl ''Exception: Stream constructor accepts 1 or 2 arguments'', disk)
     else
       case open_mode args of
         None \<Rightarrow> (Inl ''Exception: Invalid open mode for Stream'', disk)
       | Some (reads, writes) \<Rightarrow>
           (case std_open permitted reads writes (c_str (args ! 0)) disk of
              None \<Rightarrow> (Inl (''Exception: Can'' @ [CHR 0x27] @ ''t open the file''), disk)
            | Some (disk, st) \<Rightarrow> (Inr st, disk)))"

definition fs_open :: "(string \<Rightarrow> bool) \<Rightarrow> string list \<Rightarrow> disk \<Rightarrow> (string + stream) \<times> disk" where
  "fs_open permitted args disk =
    (if length args \<noteq> 1 \<and> length args \<noteq> 2 then
       (Inl ''Exception: function fs.open() accepts 1 or 2 arguments'', disk)
     else stream_constructor permitted args disk)"

text \<open>The functions that yield no text return \<open>undefined\<close> or the stream itself, for chaining.\<close>

datatype returned = Undefined | This

definition stream_close :: "string list \<Rightarrow> disk \<Rightarrow> stream \<Rightarrow> (string + returned) \<times> disk \<times> stream" where
  "stream_close args disk st =
    (if args \<noteq> [] then (Inl ''Exception: Stream.close() accepts no argument'', disk, st)
     else (Inr Undefined, std_close disk st))"

definition stream_flush :: "string list \<Rightarrow> disk \<Rightarrow> stream \<Rightarrow> (string + returned) \<times> disk \<times> stream" where
  "stream_flush args disk st =
    (if args \<noteq> [] then (Inl ''Exception: Stream.flush() accepts no argument'', disk, st)
     else (Inr This, std_flush disk st))"

definition stream_next :: "string list \<Rightarrow> disk \<Rightarrow> stream \<Rightarrow> (string + string) \<times> disk \<times> stream" where
  "stream_next args disk st =
    (if args \<noteq> [] then (Inl ''Exception: Stream.next() accepts no argument'', disk, st)
     else
       let (buffer, disk, st) = std_getline disk st in
       (if st_eof st then Inl ''Exception: Stream.next() reaches end of file'' else Inr (c_str buffer), disk, st))"

definition stream_readLine :: "string list \<Rightarrow> disk \<Rightarrow> stream \<Rightarrow> (string + string) \<times> disk \<times> stream" where
  "stream_readLine args disk st =
    (if args \<noteq> [] then (Inl ''Exception: Stream.readLine() accepts no argument'', disk, st)
     else if st_eof st then (Inr '''', disk, st)
     else
       let (buffer, disk, st) = std_getline disk st in (Inr (c_str (buffer @ [newline])), disk, st))"

definition stream_writeLine :: "string list \<Rightarrow> disk \<Rightarrow> stream \<Rightarrow> (string + returned) \<times> disk \<times> stream" where
  "stream_writeLine args disk st =
    (if length args \<noteq> 1 then (Inl ''Exception: Stream.writeLine() accepts 1 argument'', disk, st)
     else (Inr This, disk, std_write [newline] (std_write (args ! 0) st)))"

subsection \<open>Lines\<close>

lemma takeWhile_line:
  "newline \<notin> set l \<Longrightarrow> takeWhile (\<lambda>c. c \<noteq> newline) l = l"
  "newline \<notin> set l \<Longrightarrow> takeWhile (\<lambda>c. c \<noteq> newline) (l @ newline # s) = l"
proof -
  show "takeWhile (\<lambda>c. c \<noteq> newline) l = l" if "newline \<notin> set l"
    using that by (intro takeWhile_eq_all_conv [THEN iffD2]) auto
  then show "takeWhile (\<lambda>c. c \<noteq> newline) (l @ newline # s) = l" if "newline \<notin> set l"
    using that by (subst takeWhile_append2) auto
qed

text \<open>The lines of a text that end with a line terminator, without it.\<close>

function complete_lines :: "string \<Rightarrow> string list" where
  "complete_lines s =
    (if newline \<in> set s then
       takeWhile (\<lambda>c. c \<noteq> newline) s #
         complete_lines (drop (Suc (length (takeWhile (\<lambda>c. c \<noteq> newline) s))) s)
     else [])"
  by pat_completeness auto
termination
proof (relation "measure length")
  fix s :: string
  assume "newline \<in> set s"
  then have "s \<noteq> []" by auto
  then show "(drop (Suc (length (takeWhile (\<lambda>c. c \<noteq> newline) s))) s, s) \<in> measure length" by simp
qed simp

declare complete_lines.simps [simp del]

definition terminated :: "string list \<Rightarrow> string" where
  "terminated ls = concat (map (\<lambda>l. l @ [newline]) ls)"

lemma terminated_simps [simp]: "terminated [] = []" "terminated (l # ls) = l @ newline # terminated ls"
  by (simp_all add: terminated_def)

lemma complete_lines_Cons:
  "newline \<notin> set l \<Longrightarrow> complete_lines (l @ newline # s) = l # complete_lines s"
  by (subst complete_lines.simps) (simp add: takeWhile_line)

lemma complete_lines_none: "newline \<notin> set s \<Longrightarrow> complete_lines s = []"
  by (subst complete_lines.simps) simp

text \<open>Every text is a sequence of terminated lines and a rest.\<close>

lemma text_lines:
  obtains ls r where "s = terminated ls @ r" "newline \<notin> set r" "\<forall>l \<in> set ls. newline \<notin> set l"
proof (induction s arbitrary: thesis rule: length_induct)
  case (1 s)
  show ?case
  proof (cases "newline \<in> set s")
    case False
    then show ?thesis using "1.prems" [of "[]" s] by simp
  next
    case True
    then obtain l t where s: "s = l @ newline # t" "newline \<notin> set l" by (metis split_list_first)
    then have "length t < length s" by simp
    with "1.IH" obtain ls r where "t = terminated ls @ r" "newline \<notin> set r" "\<forall>l \<in> set ls. newline \<notin> set l"
      by blast
    with s show ?thesis using "1.prems" [of "l # ls" r] by simp
  qed
qed

lemma complete_lines_text:
  "\<forall>l \<in> set ls. newline \<notin> set l \<Longrightarrow> newline \<notin> set r \<Longrightarrow> complete_lines (terminated ls @ r) = ls"
  by (induction ls) (simp_all add: complete_lines_Cons complete_lines_none)

lemma c_str_id: "CHR 0x00 \<notin> set s \<Longrightarrow> c_str s = s"
  unfolding c_str_def by (rule takeWhile_eq_all_conv [THEN iffD2]) auto

subsection \<open>Reading\<close>

text \<open>A stream that is being read, with the text that is left.\<close>

definition reading :: "disk \<Rightarrow> stream \<Rightarrow> string \<Rightarrow> bool" where
  "reading disk st rest \<longleftrightarrow> std_good st \<and> st_open st \<and> st_in st \<and> st_pending st = [] \<and>
    drop (st_pos st) (std_content disk st) = rest"

lemma getline_line:
  assumes "reading disk st (l @ newline # rest)" and "newline \<notin> set l"
  shows "\<exists>st'. std_getline disk st = (l, disk, st') \<and> reading disk st' rest \<and> \<not> st_eof st'"
proof -
  let ?st = "st\<lparr>st_pos := st_pos st + length l + 1\<rparr>"
  have d: "drop (st_pos st) (std_content disk st) = l @ newline # rest" using assms(1) by (simp add: reading_def)
  have "drop (st_pos ?st) (std_content disk ?st) = drop (length l + 1) (drop (st_pos st) (std_content disk st))"
    by (simp add: std_content_def add.commute add.left_commute)
  then have "reading disk ?st rest" using assms(1) by (simp add: reading_def std_good_def d)
  moreover have "std_getline disk st = (l, disk, ?st)"
    using assms d by (simp add: std_getline_def reading_def std_flush_def takeWhile_line Let_def)
  ultimately show ?thesis by (auto simp: reading_def std_good_def)
qed

lemma getline_rest:
  assumes "reading disk st rest" and "newline \<notin> set rest"
  shows "\<exists>st'. std_getline disk st = (rest, disk, st') \<and> st_eof st'"
  using assms by (simp add: std_getline_def reading_def std_flush_def)

text \<open>
  The loops of a script: \<open>next\<close> until it throws, and \<open>readLine\<close> until it returns the empty string, as the
  example in the README has it. Only a loop that has not ended after \<open>n\<close> calls is \<open>None\<close>: the second
  component of the result of \<open>readLine_all\<close> is the exception that has ended the loop, if one has.
\<close>

fun next_all :: "nat \<Rightarrow> disk \<Rightarrow> stream \<Rightarrow> (string list \<times> string) option" where
  "next_all 0 disk st = None"
| "next_all (Suc n) disk st =
    (case stream_next [] disk st of
       (Inl e, _) \<Rightarrow> Some ([], e)
     | (Inr line, disk, st) \<Rightarrow> map_option (\<lambda>(ls, e). (line # ls, e)) (next_all n disk st))"

fun readLine_all :: "nat \<Rightarrow> disk \<Rightarrow> stream \<Rightarrow> (string list \<times> string option) option" where
  "readLine_all 0 disk st = None"
| "readLine_all (Suc n) disk st =
    (case stream_readLine [] disk st of
       (Inl e, _) \<Rightarrow> Some ([], Some e)
     | (Inr line, disk, st) \<Rightarrow>
         if line = [] then Some ([], None)
         else map_option (\<lambda>(ls, e). (line # ls, e)) (readLine_all n disk st))"

text \<open>What the first \<open>n\<close> calls of a function yield, whatever they yield.\<close>

fun repeat_call ::
  "(disk \<Rightarrow> stream \<Rightarrow> 'a \<times> disk \<times> stream) \<Rightarrow> nat \<Rightarrow> disk \<Rightarrow> stream \<Rightarrow> 'a list" where
  "repeat_call f 0 disk st = []"
| "repeat_call f (Suc n) disk st = (let (r, disk, st) = f disk st in r # repeat_call f n disk st)"

lemma next_all_lines:
  "reading disk st (terminated ls @ r) \<Longrightarrow> newline \<notin> set r \<Longrightarrow> \<forall>l \<in> set ls. newline \<notin> set l \<Longrightarrow>
     length ls < n \<Longrightarrow>
     next_all n disk st = Some (map c_str ls, ''Exception: Stream.next() reaches end of file'')"
proof (induction ls arbitrary: n st)
  case Nil
  then obtain m where "n = Suc m" by (cases n) auto
  with getline_rest [of disk st r] Nil show ?case by (auto simp: stream_next_def)
next
  case (Cons l ls)
  then obtain m where m: "n = Suc m" "length ls < m" by (cases n) auto
  from getline_line [of disk st l "terminated ls @ r"] Cons.prems obtain st' where
    "std_getline disk st = (l, disk, st')" "reading disk st' (terminated ls @ r)" "\<not> st_eof st'"
    by auto
  with Cons.IH [of st' m] Cons.prems m show ?case by (simp add: stream_next_def)
qed

lemma c_str_Cons [simp]: "c \<noteq> CHR 0x00 \<Longrightarrow> c_str (c # s) = c # c_str s"
  by (simp add: c_str_def)

lemma readLine_all_lines:
  "reading disk st (terminated ls @ r) \<Longrightarrow> newline \<notin> set r \<Longrightarrow> \<forall>l \<in> set ls. newline \<notin> set l \<Longrightarrow>
     Suc (length ls) < n \<Longrightarrow>
     readLine_all n disk st = Some (takeWhile (\<lambda>l. l \<noteq> []) (map (\<lambda>l. c_str (l @ [newline])) (ls @ [r])), None)"
proof (induction ls arbitrary: n st)
  case Nil
  then obtain m where n: "n = Suc (Suc m)" by (cases n; cases "n - 1") auto
  with getline_rest [of disk st r] Nil show ?case
    by (auto simp: stream_readLine_def reading_def std_good_def)
next
  case (Cons l ls)
  then obtain m where n: "n = Suc m" "Suc (length ls) < m" by (cases n) auto
  from getline_line [of disk st l "terminated ls @ r"] Cons.prems obtain st' where
    "std_getline disk st = (l, disk, st')" "reading disk st' (terminated ls @ r)"
    by auto
  moreover have "\<not> st_eof st" using Cons.prems(1) by (simp add: reading_def std_good_def)
  ultimately show ?case using Cons.IH [of st' m] Cons.prems n by (simp add: stream_readLine_def)
qed

text \<open>What follows the last line terminator of a text.\<close>

definition unterminated :: "string \<Rightarrow> string" where
  "unterminated s = rev (takeWhile (\<lambda>c. c \<noteq> newline) (rev s))"

lemma unterminated_text:
  assumes "newline \<notin> set r"
  shows "unterminated (terminated ls @ r) = r"
proof -
  have r: "newline \<notin> set (rev r)" using assms by simp
  show ?thesis
  proof (cases ls rule: rev_cases)
    case Nil
    then show ?thesis unfolding unterminated_def by (simp only: terminated_simps append_Nil takeWhile_line(1) [OF r] rev_rev_ident)
  next
    case (snoc ls' l)
    then show ?thesis using takeWhile_line(2) [OF r] by (simp add: unterminated_def terminated_def)
  qed
qed

text \<open>
  C28. \<open>next\<close> yields the lines of a file that end with a line terminator and then throws; a last line
  without one is never returned.
\<close>

theorem next_yields_complete_lines:
  assumes "reading disk st rest" and "length rest < n"
  shows "next_all n disk st =
    Some (map c_str (complete_lines rest), ''Exception: Stream.next() reaches end of file'')"
proof -
  obtain ls r where s: "rest = terminated ls @ r" "newline \<notin> set r" "\<forall>l \<in> set ls. newline \<notin> set l"
    by (rule text_lines)
  have "length ls \<le> length (terminated ls)" by (induction ls) simp_all
  then have "length ls < n" using s(1) assms(2) by simp
  with next_all_lines [of disk st ls r n] assms(1) s show ?thesis by (simp add: complete_lines_text)
qed

text \<open>
  C27. Reading a file with \<open>readLine\<close> until the empty string comes ends, for every file, and yields its lines, each
  with a line terminator and cut off at a null byte; the part after the last line terminator counts as
  a line even when it is empty, and a line that begins with a null byte ends the loop. So without
  null bytes the lines put together are the text with one line terminator more: at the end of the file
  \<open>readLine\<close> first returns a line terminator, where the README promises the empty string.
\<close>

theorem readLine_adds_terminator:
  assumes "reading disk st rest" and "length rest + 1 < n"
  shows "\<exists>ls. readLine_all n disk st = Some (ls, None) \<and>
    ls = takeWhile (\<lambda>l. l \<noteq> []) (map (\<lambda>l. c_str (l @ [newline])) (complete_lines rest @ [unterminated rest])) \<and>
    (CHR 0x00 \<notin> set rest \<longrightarrow> concat ls = rest @ [newline])"
proof -
  obtain ls r where s: "rest = terminated ls @ r" "newline \<notin> set r" "\<forall>l \<in> set ls. newline \<notin> set l"
    by (rule text_lines)
  have "length ls \<le> length (terminated ls)" by (induction ls) simp_all
  then have "Suc (length ls) < n" using s(1) assms(2) by simp
  then have run: "readLine_all n disk st =
      Some (takeWhile (\<lambda>l. l \<noteq> []) (map (\<lambda>l. c_str (l @ [newline])) (ls @ [r])), None)"
    using readLine_all_lines [of disk st ls r n] assms(1) s by simp
  have parts: "complete_lines rest = ls" "unterminated rest = r"
    using s complete_lines_text [OF s(3,2)] unterminated_text [OF s(2), of ls] by simp_all
  have whole: "takeWhile (\<lambda>l. l \<noteq> []) (map (\<lambda>l. c_str (l @ [newline])) (ls @ [r])) = map (\<lambda>l. l @ [newline]) (ls @ [r])"
    if "CHR 0x00 \<notin> set rest"
  proof -
    have "c_str (l @ [newline]) = l @ [newline]" if "l \<in> set (ls @ [r])" for l
      using that \<open>CHR 0x00 \<notin> set rest\<close> s(1) by (intro c_str_id) (auto simp: terminated_def split: if_splits)
    then have "map (\<lambda>l. c_str (l @ [newline])) (ls @ [r]) = map (\<lambda>l. l @ [newline]) (ls @ [r])" by (intro map_cong) simp_all
    then show ?thesis by (simp only:) (auto simp: takeWhile_eq_all_conv)
  qed
  show ?thesis unfolding parts
  proof (intro exI conjI impI)
    assume "CHR 0x00 \<notin> set rest"
    from whole [OF this] s(1)
    show "concat (takeWhile (\<lambda>l. l \<noteq> []) (map (\<lambda>l. c_str (l @ [newline])) (ls @ [r]))) = rest @ [newline]"
      by (simp add: terminated_def)
  qed (rule run refl)+
qed

definition open_reader :: stream where
  "open_reader =
    \<lparr>st_name = ''f'', st_in = True, st_out = False, st_open = True, st_pos = 0, st_pending = [],
      st_eof = False, st_fail = False\<rparr>"

theorem next_yields_complete_lines_witness:
  "next_all 10 (\<lambda>_. Some (''ab'' @ newline # ''cd'')) open_reader =
   Some ([''ab''], ''Exception: Stream.next() reaches end of file'')"
proof -
  have "reading (\<lambda>_. Some (''ab'' @ newline # ''cd'')) open_reader (''ab'' @ newline # ''cd'')"
    by (simp add: reading_def std_good_def std_content_def open_reader_def)
  moreover have "complete_lines (''ab'' @ newline # ''cd'') = [''ab'']"
    using complete_lines_text [of "[''ab'']" "''cd''"] by simp
  ultimately show ?thesis
    using next_yields_complete_lines [of "\<lambda>_. Some (''ab'' @ newline # ''cd'')" open_reader] by (simp add: c_str_id)
qed

theorem readLine_adds_terminator_witness:
  "\<exists>ls. readLine_all 9 (\<lambda>_. Some (''ab'' @ [newline])) open_reader = Some (ls, None) \<and>
     concat ls = ''ab'' @ [newline, newline]"
proof -
  have "reading (\<lambda>_. Some (''ab'' @ [newline])) open_reader (''ab'' @ [newline])"
    by (simp add: reading_def std_good_def std_content_def open_reader_def)
  from readLine_adds_terminator [OF this, of 9] show ?thesis by auto
qed

subsection \<open>Writing\<close>

primrec write_lines :: "string list \<Rightarrow> disk \<Rightarrow> stream \<Rightarrow> disk \<times> stream" where
  "write_lines [] disk st = (disk, st)"
| "write_lines (l # ls) disk st =
    (let (_, disk, st) = stream_writeLine [l] disk st in write_lines ls disk st)"

lemma write_lines_eq:
  "std_good st \<Longrightarrow> st_open st \<Longrightarrow> st_out st \<Longrightarrow>
     write_lines ls disk st = (disk, st\<lparr>st_pending := st_pending st @ terminated ls\<rparr>)"
  by (induction ls arbitrary: st) (simp_all add: stream_writeLine_def std_write_def std_good_def)

definition open_writer :: "string \<Rightarrow> stream" where
  "open_writer name =
    \<lparr>st_name = name, st_in = False, st_out = True, st_open = True, st_pos = 0, st_pending = [],
      st_eof = False, st_fail = False\<rparr>"

text \<open>
  C24. Lines that are written to a new stream and closed are the lines that \<open>next\<close> reads back from the
  file, in order and no others; the file held before is replaced. The lines have no line terminator
  and no null byte in them.
\<close>

theorem written_lines_are_read:
  assumes "permitted name" and "CHR 0x00 \<notin> set name"
    and "\<forall>l \<in> set ls. newline \<notin> set l \<and> CHR 0x00 \<notin> set l"
  shows "\<exists>w disk1 disk2 w2 disk3 w3 r.
    fs_open permitted [name, ''w''] disk = (Inr w, disk1) \<and> write_lines ls disk1 w = (disk2, w2) \<and>
    stream_close [] disk2 w2 = (Inr Undefined, disk3, w3) \<and>
    fs_open permitted [name, ''r''] disk3 = (Inr r, disk3) \<and>
    next_all (Suc (length ls)) disk3 r = Some (ls, ''Exception: Stream.next() reaches end of file'')"
proof -
  let ?w = "open_writer name" and ?d1 = "disk(name := Some [])"
  let ?d3 = "disk(name \<mapsto> terminated ls)"
  let ?r = "\<lparr>st_name = name, st_in = True, st_out = False, st_open = True, st_pos = 0, st_pending = [],
      st_eof = False, st_fail = False\<rparr>"
  have names: "c_str name = name" "c_str ''w'' = ''w''" "c_str ''r'' = ''r''"
    using assms(2) by (simp_all add: c_str_id)
  have w: "fs_open permitted [name, ''w''] disk = (Inr ?w, ?d1)"
    using assms(1) names
    by (simp add: fs_open_def stream_constructor_def open_mode_def std_open_def open_writer_def)
  have l: "write_lines ls ?d1 ?w = (?d1, ?w\<lparr>st_pending := terminated ls\<rparr>)"
    using write_lines_eq [of ?w ls ?d1] by (simp add: open_writer_def std_good_def)
  obtain w3 where c: "stream_close [] ?d1 (?w\<lparr>st_pending := terminated ls\<rparr>) = (Inr Undefined, ?d3, w3)"
    by (cases ls) (auto simp: stream_close_def std_close_def std_flush_def std_content_def open_writer_def Let_def)
  have r: "fs_open permitted [name, ''r''] ?d3 = (Inr ?r, ?d3)"
    using assms(1) names by (simp add: fs_open_def stream_constructor_def open_mode_def std_open_def)
  have "reading ?d3 ?r (terminated ls @ [])" by (simp add: reading_def std_good_def std_content_def)
  moreover have "map c_str ls = ls" using assms(3) by (intro map_idI c_str_id) simp
  ultimately have "next_all (Suc (length ls)) ?d3 ?r = Some (ls, ''Exception: Stream.next() reaches end of file'')"
    using next_all_lines [of ?d3 ?r ls "[]" "Suc (length ls)"] assms(3) by simp
  then show ?thesis using w l c r by blast
qed

theorem written_lines_are_read_witness:
  "\<exists>w disk1 disk2 w2 disk3 w3 r.
    fs_open (\<lambda>_. True) [''f'', ''w''] Map.empty = (Inr w, disk1) \<and> write_lines [''one'', ''two''] disk1 w = (disk2, w2) \<and>
    stream_close [] disk2 w2 = (Inr Undefined, disk3, w3) \<and>
    fs_open (\<lambda>_. True) [''f'', ''r''] disk3 = (Inr r, disk3) \<and>
    next_all (Suc (length [''one'', ''two''])) disk3 r =
      Some ([''one'', ''two''], ''Exception: Stream.next() reaches end of file'')"
  by (rule written_lines_are_read) simp_all

subsection \<open>Streams that cannot be used\<close>



text \<open>
  C29. One \<open>writeLine\<close> to a stream that was opened for reading returns as if it had worked and makes the
  reading loops run for ever: every further call of \<open>readLine\<close> returns a line terminator, never the empty
  string and never an exception, and every call of \<open>next\<close> returns the empty string, so that neither loop
  ends after any number \<open>n\<close> of calls.
\<close>

theorem reading_after_failed_write_never_ends:
  assumes "reading disk st rest" and "\<not> st_out st" and "stream_writeLine [l] disk st = (r, disk1, st1)"
  shows "r = Inr This \<and>
    repeat_call (stream_readLine []) n disk1 st1 = replicate n (Inr [newline]) \<and>
    repeat_call (stream_next []) n disk1 st1 = replicate n (Inr []) \<and>
    readLine_all n disk1 st1 = None \<and> next_all n disk1 st1 = None"
proof -
  have st1: "r = Inr This" "st_fail st1" "\<not> st_eof st1"
    using assms by (auto simp: stream_writeLine_def std_write_def reading_def std_good_def)
  have step: "stream_readLine [] d t = (Inr [newline], d, t\<lparr>st_fail := True\<rparr>)" "stream_next [] d t = (Inr [], d, t\<lparr>st_fail := True\<rparr>)"
    if "st_fail t" "\<not> st_eof t" for d t
    using that by (simp_all add: stream_readLine_def stream_next_def std_getline_def std_good_def c_str_def)
  have "repeat_call (stream_readLine []) n disk1 t = replicate n (Inr [newline]) \<and>
    repeat_call (stream_next []) n disk1 t = replicate n (Inr []) \<and>
    readLine_all n disk1 t = None \<and> next_all n disk1 t = None" if "st_fail t" "\<not> st_eof t" for t
    using that by (induction n arbitrary: t) (simp_all add: step)
  with st1 show ?thesis by blast
qed

theorem reading_after_failed_write_never_ends_witness:
  "\<exists>r st1. stream_writeLine [''x''] (\<lambda>_. Some ''ab'') open_reader = (r, \<lambda>_. Some ''ab'', st1) \<and>
     readLine_all 1000 (\<lambda>_. Some ''ab'') st1 = None"
proof -
  have "reading (\<lambda>_. Some ''ab'') open_reader ''ab''" "\<not> st_out open_reader"
    by (simp_all add: reading_def std_good_def std_content_def open_reader_def)
  moreover have "\<exists>r st1. stream_writeLine [''x''] (\<lambda>_. Some ''ab'') open_reader = (r, \<lambda>_. Some ''ab'', st1)"
    by (simp add: stream_writeLine_def)
  ultimately show ?thesis using reading_after_failed_write_never_ends by blast
qed

end
