(* ===== verification/Shell.thy ===== *)
theory Shell
  imports Streams
begin

text \<open>
  The program \<open>hammerjs\<close> around its engine: \<open>main\<close> in \<open>hammerjs.cpp\<close>, the functions of
  \<open>modules/system/system.cpp\<close> and the queries of \<open>modules/fs/fs.cpp\<close>. What the operating system and
  the engine answer (files, kinds of directory entries, whether a script compiles) is an argument.
\<close>

subsection \<open>main\<close>

record command_line =
  inputFile :: "string option"
  debug_flag :: bool
  syntax_flag :: bool
  script_args :: "string list"

text \<open>The loop over \<open>argv\<close>; \<open>Inl\<close> is the option that ends the program.\<close>

primrec parse_args :: "string list \<Rightarrow> command_line \<Rightarrow> string + command_line" where
  "parse_args [] c = Inr c"
| "parse_args (arg # argv) c =
    (if arg \<noteq> [] \<and> hd arg = CHR ''-'' then
       if arg = ''--debug'' then parse_args argv (c\<lparr>debug_flag := True\<rparr>)
       else if arg = ''--syntax'' then parse_args argv (c\<lparr>syntax_flag := True\<rparr>)
       else Inl arg
     else
       parse_args argv
         (c\<lparr>inputFile := (case inputFile c of None \<Rightarrow> Some arg | Some f \<Rightarrow> Some f),
            script_args := script_args c @ [arg]\<rparr>))"

text \<open>
  What the program does: the messages and exits, or the script that is compiled with the value of
  \<open>system.args\<close>, whether the debugger listens and whether the script is only printed as a tree.
\<close>

datatype outcome =
    UnknownOption string
  | Usage
  | UnableToOpen string
  | UnableToRun string
  | RunScript string "string list" bool
  | PrintTree string "string list"

definition main ::
  "(string \<Rightarrow> string option) \<Rightarrow> (string \<Rightarrow> bool) \<Rightarrow> string list \<Rightarrow> outcome" where
  "main files compiles argv =
    (case parse_args argv \<lparr>inputFile = None, debug_flag = False, syntax_flag = False, script_args = []\<rparr> of
       Inl arg \<Rightarrow> UnknownOption arg
     | Inr c \<Rightarrow>
         (case inputFile c of
            None \<Rightarrow> Usage
          | Some input \<Rightarrow>
              (case files input of
                 None \<Rightarrow> UnableToOpen (argv ! 0)
               | Some content \<Rightarrow>
                   let code = c_str content in
                   if syntax_flag c then PrintTree code (script_args c)
                   else if \<not> compiles code then UnableToRun input
                   else RunScript code (script_args c) (debug_flag c))))"

text \<open>What is an option, and which options the program knows.\<close>

definition is_option :: "string \<Rightarrow> bool" where
  "is_option arg \<longleftrightarrow> take 1 arg = ''-''"

definition unknown_option :: "string \<Rightarrow> bool" where
  "unknown_option arg \<longleftrightarrow> is_option arg \<and> arg \<notin> {''--debug'', ''--syntax''}"

lemma is_option_hd: "is_option arg \<longleftrightarrow> arg \<noteq> [] \<and> hd arg = CHR ''-''"
  by (cases arg) (simp_all add: is_option_def)

lemma parse_args_eq:
  "parse_args argv c =
    (case find unknown_option argv of
       Some arg \<Rightarrow> Inl arg
     | None \<Rightarrow>
         Inr (c\<lparr>inputFile := (case inputFile c of
                  None \<Rightarrow> (case filter (\<lambda>a. \<not> is_option a) argv of [] \<Rightarrow> None | a # _ \<Rightarrow> Some a) | Some f \<Rightarrow> Some f),
                debug_flag := (debug_flag c \<or> ''--debug'' \<in> set argv),
                syntax_flag := (syntax_flag c \<or> ''--syntax'' \<in> set argv),
                script_args := script_args c @ filter (\<lambda>a. \<not> is_option a) argv\<rparr>))"
proof (induction argv arbitrary: c)
  case Nil
  then show ?case by (cases c) (simp split: option.split)
next
  case (Cons a argv)
  have o: "is_option ''--debug''" "is_option ''--syntax''" by (simp_all add: is_option_def)
  consider "\<not> is_option a" | "a = ''--debug''" | "a = ''--syntax''" | "unknown_option a"
    by (auto simp: unknown_option_def)
  then show ?case
  proof cases
    case 1
    then have "a \<noteq> ''--debug''" "a \<noteq> ''--syntax''" "\<not> unknown_option a" using o by (auto simp: unknown_option_def)
    then show ?thesis using 1 Cons by (auto simp: is_option_hd split: option.split list.split)
  next
    case 4
    then show ?thesis by (auto simp: unknown_option_def is_option_hd)
  qed (use Cons o in \<open>auto simp: unknown_option_def is_option_hd split: option.split\<close>)
qed

text \<open>
  C26. The command line is read as a whole: an argument with a leading \<open>-\<close> that is not one of the two
  options ends the program wherever it stands, also after the script whose argument it is meant to be,
  and the two options are taken from the script's arguments; \<open>system.args\<close> is the rest in order, with
  the script first. When the script cannot be opened the message names the first argument, be it an
  option.
\<close>

theorem main_command_line:
  "main files compiles argv =
    (case find unknown_option argv of
       Some arg \<Rightarrow> UnknownOption arg
     | None \<Rightarrow>
         (case filter (\<lambda>a. \<not> is_option a) argv of
            [] \<Rightarrow> Usage
          | input # rest \<Rightarrow>
              (case files input of
                 None \<Rightarrow> UnableToOpen (hd argv)
               | Some content \<Rightarrow>
                   if ''--syntax'' \<in> set argv then PrintTree (c_str content) (input # rest)
                   else if \<not> compiles (c_str content) then UnableToRun input
                   else RunScript (c_str content) (input # rest) (''--debug'' \<in> set argv))))"
proof -
  have "argv ! 0 = hd argv" if "filter (\<lambda>a. \<not> is_option a) argv \<noteq> []"
    using that by (cases argv) auto
  then show ?thesis by (auto simp: main_def parse_args_eq Let_def split: option.split list.split)
qed

subsection \<open>The object system\<close>

text \<open>\<open>system.print\<close>: the text it writes.\<close>

primrec print_loop :: "string list \<Rightarrow> string" where
  "print_loop [] = []"
| "print_loop (v # vs) = c_str v @ (if vs = [] then [] else '' '') @ print_loop vs"

definition system_print :: "string list \<Rightarrow> string" where
  "system_print args = print_loop args @ [newline]"

text \<open>\<open>system.exit\<close>: the exit status, of which the operating system keeps eight bits.\<close>

definition system_exit :: "int list \<Rightarrow> string + int" where
  "system_exit args =
    (if length args \<noteq> 0 \<and> length args \<noteq> 1 then Inl ''Exception: function system.exit() accepts 1 argument''
     else Inr (if length args = 1 then args ! 0 else 0))"

definition system_execute :: "string list \<Rightarrow> string + string" where
  "system_execute args =
    (if length args \<noteq> 1 then Inl ''Exception: function system.execute() accepts 1 argument''
     else Inr (c_str (args ! 0)))"

text \<open>\<open>system.sleep\<close>: the microseconds of the call of \<open>usleep\<close>; the argument is in milliseconds, cut to \<open>long\<close>.\<close>

definition system_sleep :: "int list \<Rightarrow> string + int option" where
  "system_sleep args =
    (if length args \<noteq> 1 then Inl ''Exception: function system.sleep() accepts 1 argument''
     else Inr (if args ! 0 > 0 then Some (1000 * args ! 0) else None))"

subsection \<open>Queries of the file system\<close>

text \<open>What \<open>stat\<close> and \<open>opendir\<close> report of a path.\<close>

datatype file_kind = Directory "string list" | RegularFile | OtherFile

definition fs_exists :: "(string \<Rightarrow> file_kind option) \<Rightarrow> string list \<Rightarrow> string + bool" where
  "fs_exists files args =
    (if length args \<noteq> 1 then Inl ''Exception: function fs.exists() accepts 1 argument''
     else Inr (files (c_str (args ! 0)) \<noteq> None))"

definition fs_isDirectory :: "(string \<Rightarrow> file_kind option) \<Rightarrow> string list \<Rightarrow> string + bool" where
  "fs_isDirectory files args =
    (if length args \<noteq> 1 then Inl ''Exception: fs.isDirectory() accepts 1 argument''
     else
       case files (c_str (args ! 0)) of
         None \<Rightarrow> Inl (''Exception: fs.isDirectory() can'' @ [CHR 0x27] @ ''t access the directory'')
       | Some k \<Rightarrow> Inr (case k of Directory _ \<Rightarrow> True | _ \<Rightarrow> False))"

definition fs_isFile :: "(string \<Rightarrow> file_kind option) \<Rightarrow> string list \<Rightarrow> string + bool" where
  "fs_isFile files args =
    (if length args \<noteq> 1 then Inl ''Exception: fs.isFile() accepts 1 argument''
     else
       case files (c_str (args ! 0)) of
         None \<Rightarrow> Inl (''Exception: fs.isFile() can'' @ [CHR 0x27] @ ''t access the file'')
       | Some k \<Rightarrow> Inr (k = RegularFile))"

text \<open>\<open>mkdir\<close> succeeds where the operating system allows it and nothing is there yet.\<close>

definition fs_makeDirectory ::
  "(string \<Rightarrow> bool) \<Rightarrow> string list \<Rightarrow> (string \<Rightarrow> file_kind option) \<Rightarrow>
    (string + unit) \<times> (string \<Rightarrow> file_kind option)" where
  "fs_makeDirectory permitted args files =
    (if length args \<noteq> 1 then (Inl ''Exception: function fs.makeDirectory() accepts 1 argument'', files)
     else
       let name = c_str (args ! 0) in
       if permitted name \<and> files name = None then (Inr (), files(name \<mapsto> Directory [''.'', ''..'']))
       else (Inl (''Exception: fs.makeDirectory() can'' @ [CHR 0x27] @ ''t create the directory''), files))"

text \<open>The loop over \<open>readdir_r\<close>.\<close>

primrec list_loop :: "string list \<Rightarrow> string list" where
  "list_loop [] = []"
| "list_loop (e # es) = (if e \<noteq> ''.'' \<and> e \<noteq> ''..'' then e # list_loop es else list_loop es)"

definition fs_list :: "(string \<Rightarrow> file_kind option) \<Rightarrow> string list \<Rightarrow> string + string list" where
  "fs_list files args =
    (if length args \<noteq> 1 then Inl ''Exception: fs.list() accepts 1 argument''
     else
       case files (c_str (args ! 0)) of
         Some (Directory entries) \<Rightarrow> Inr (list_loop entries)
       | _ \<Rightarrow> Inl (''Exception: fs.list() can'' @ [CHR 0x27] @ ''t access the directory''))"

text \<open>
  The queries agree with each other: a path that exists is a directory, a file or neither, never both,
  and one that does not exist makes the other queries throw; a directory that was made exists, is a
  directory, lists no entry and cannot be made again.
\<close>

lemma fs_queries_agree:
  "(fs_exists files [p] = Inr True \<longleftrightarrow> (\<exists>b. fs_isDirectory files [p] = Inr b)) \<and>
   (fs_exists files [p] = Inr True \<longleftrightarrow> (\<exists>b. fs_isFile files [p] = Inr b)) \<and>
   \<not> (fs_isDirectory files [p] = Inr True \<and> fs_isFile files [p] = Inr True) \<and>
   (fst (fs_makeDirectory permitted [p] files) = Inr () \<longrightarrow>
     fs_exists files [p] = Inr False \<and>
     fs_isDirectory (snd (fs_makeDirectory permitted [p] files)) [p] = Inr True \<and>
     fs_list (snd (fs_makeDirectory permitted [p] files)) [p] = Inr [] \<and>
     (\<exists>e. fst (fs_makeDirectory permitted [p] (snd (fs_makeDirectory permitted [p] files))) = Inl e))"
  by (auto simp: fs_exists_def fs_isDirectory_def fs_isFile_def fs_makeDirectory_def fs_list_def Let_def
      split: option.splits file_kind.splits)

end
