(* ===== verification/BigInt.thy ===== *)
theory BigInt
  imports Prelude
begin

text \<open>
  The integers of arbitrary size in \<open>wtf/dtoa.cpp\<close>, behind the conversions between decimal text
  and doubles. A number is a sequence of 32-bit words, the lowest first; carries and borrows are
  kept in 64 bits (\<open>USE_LONG_LONG\<close>). A loop over an array is a recursive function over its words.
  \<open>None\<close> is a failed assertion, an access outside the words or a division by zero.
\<close>

type_synonym u64 = "64 word"

record bigint =
  big_sign :: int
  words :: "u32 list"

text \<open>The constructor.\<close>

definition BigInt_ctor :: bigint where
  "BigInt_ctor = \<lparr>big_sign = 0, words = []\<rparr>"

subsection \<open>Multiplication by a small number, and decimal digits\<close>

fun multadd_loop :: "u64 \<Rightarrow> u64 \<Rightarrow> u32 list \<Rightarrow> u32 list \<times> u64" where
  "multadd_loop m carry [] = ([], carry)"
| "multadd_loop m carry (x # xs) =
    (let y = ucast x * m + carry; (ys, carry') = multadd_loop m (drop_bit 32 y) xs
     in (ucast y # ys, carry'))"

definition multadd :: "int \<Rightarrow> int \<Rightarrow> bigint \<Rightarrow> bigint option" where
  "multadd m a b =
    (if words b = [] then None
     else
       let (ys, carry) = multadd_loop (word_of_int m) (word_of_int a) (words b)
       in Some (b\<lparr>words := (if carry \<noteq> 0 then ys @ [ucast carry] else ys)\<rparr>))"

text \<open>
  \<open>n\<close> characters of \<open>s\<close> from position \<open>i\<close> on; reading behind the end of the string is \<open>None\<close>.
\<close>

definition chars_from :: "int list \<Rightarrow> nat \<Rightarrow> nat \<Rightarrow> int list option" where
  "chars_from s i n = (if n = 0 \<or> i + n \<le> length s then Some (take n (drop i s)) else None)"

fun multadd_digits :: "int list \<Rightarrow> bigint \<Rightarrow> bigint option" where
  "multadd_digits [] b = Some b"
| "multadd_digits (c # cs) b = Option.bind (multadd 10 (c - 48) b) (multadd_digits cs)"

text \<open>
  The digits of \<open>s\<close> after the first nine, whose value is \<open>y9\<close>; \<open>nd0\<close> of the \<open>nd\<close> digits stand
  before the decimal point. The variables \<open>k\<close>, \<open>x\<close> and \<open>y\<close> of the code are not used.
\<close>

definition s2b :: "int list \<Rightarrow> nat \<Rightarrow> nat \<Rightarrow> u32 \<Rightarrow> bigint option" where
  "s2b s nd0 nd y9 =
    (let b = \<lparr>big_sign = 0, words = [y9]\<rparr> in
     if 9 < nd0 then
       Option.bind (chars_from s 9 (nd0 - 9)) (\<lambda>cs.
       Option.bind (multadd_digits cs b) (\<lambda>b.
       Option.bind (chars_from s (nd0 + 1) (nd - nd0)) (\<lambda>ds. multadd_digits ds b)))
     else Option.bind (chars_from s 10 (nd - 9)) (\<lambda>ds. multadd_digits ds b))"

definition i2b :: "int \<Rightarrow> bigint" where
  "i2b i = \<lparr>big_sign = 0, words = [word_of_int i]\<rparr>"

subsection \<open>Leading and trailing zero bits\<close>

definition hi0bits :: "u32 \<Rightarrow> int" where
  "hi0bits x =
    (let (k, x) = (if x AND 0xffff0000 = 0 then (16, push_bit 16 x) else (0, x));
         (k, x) = (if x AND 0xff000000 = 0 then (k + 8, push_bit 8 x) else (k, x));
         (k, x) = (if x AND 0xf0000000 = 0 then (k + 4, push_bit 4 x) else (k, x));
         (k, x) = (if x AND 0xc0000000 = 0 then (k + 2, push_bit 2 x) else (k, x))
     in if x AND 0x80000000 = 0 then (if x AND 0x40000000 = 0 then 32 else k + 1) else k)"

text \<open>The result, and the word that \<open>y\<close> points to afterwards.\<close>

definition lo0bits :: "u32 \<Rightarrow> int \<times> u32" where
  "lo0bits x =
    (if x AND 7 \<noteq> 0 then
       if x AND 1 \<noteq> 0 then (0, x)
       else if x AND 2 \<noteq> 0 then (1, drop_bit 1 x)
       else (2, drop_bit 2 x)
     else
       let (k, y) = (if x AND 0xffff = 0 then (16, drop_bit 16 x) else (0, x));
           (k, y) = (if y AND 0xff = 0 then (k + 8, drop_bit 8 y) else (k, y));
           (k, y) = (if y AND 0xf = 0 then (k + 4, drop_bit 4 y) else (k, y));
           (k, y) = (if y AND 0x3 = 0 then (k + 2, drop_bit 2 y) else (k, y))
       in if y AND 1 = 0 then
            (let y = drop_bit 1 y in if y = 0 then (32, x) else (k + 1, y))
          else (k, y))"

subsection \<open>Multiplication\<close>

text \<open>One row: the words of \<open>a\<close> times \<open>y\<close> are added to those of \<open>c\<close>; the last carry is stored.\<close>

fun mult_row :: "u32 list \<Rightarrow> u32 \<Rightarrow> u64 \<Rightarrow> u32 list \<Rightarrow> u32 list" where
  "mult_row [] y carry (c # cs) = ucast carry # cs"
| "mult_row (x # xs) y carry (c # cs) =
    (let z = ucast x * ucast y + ucast c + carry
     in ucast z # mult_row xs y (drop_bit 32 z) cs)"
| "mult_row xs y carry [] = []"

fun mult_rows :: "u32 list \<Rightarrow> u32 list \<Rightarrow> u32 list \<Rightarrow> u32 list" where
  "mult_rows xa [] cs = cs"
| "mult_rows xa (y # ys) cs =
    (case (if y \<noteq> 0 then mult_row xa y 0 cs else cs) of
       [] \<Rightarrow> []
     | c # cs' \<Rightarrow> c # mult_rows xa ys cs')"

text \<open>The loop that drops leading zero words.\<close>

definition strip_words :: "u32 list \<Rightarrow> u32 list" where
  "strip_words ws = rev (dropWhile (\<lambda>w. w = 0) (rev ws))"

definition mult :: "bigint \<Rightarrow> bigint \<Rightarrow> bigint" where
  "mult aRef bRef =
    (let (a, b) = (if length (words aRef) < length (words bRef) then (bRef, aRef) else (aRef, bRef));
         wc = length (words a) + length (words b)
     in BigInt_ctor\<lparr>words := strip_words (mult_rows (words a) (words b) (replicate wc 0))\<rparr>)"

text \<open>
  Multiplication by a power of five. The list \<open>p5s\<close> holds what has been computed of \<open>5 ^ 4\<close>,
  \<open>5 ^ 8\<close>, \<open>5 ^ 16\<close> and so on; it is kept between the calls. \<open>p5sCount\<close> is its length. The round
  with \<open>p5\<close> at position \<open>i\<close>:
\<close>

function pow5_loop :: "nat \<Rightarrow> nat \<Rightarrow> bigint list \<Rightarrow> bigint \<Rightarrow> (bigint \<times> bigint list) option" where
  "pow5_loop k i p5s b =
    (case drop i p5s of
       [] \<Rightarrow> None
     | p5 # _ \<Rightarrow>
         let b = (if odd k then mult b p5 else b); k = k div 2 in
         if k = 0 then Some (b, p5s)
         else
           pow5_loop k (i + 1) (if i + 1 = length p5s then p5s @ [mult p5 p5] else p5s) b)"
  by auto

termination by (relation "measure fst") auto

definition pow5mult :: "nat \<Rightarrow> bigint list \<Rightarrow> bigint \<Rightarrow> (bigint \<times> bigint list) option" where
  "pow5mult k p5s b =
    Option.bind (if k mod 4 \<noteq> 0 then multadd ([5, 25, 125] ! (k mod 4 - 1)) 0 b else Some b) (\<lambda>b.
    if k div 4 = 0 then Some (b, p5s)
    else pow5_loop (k div 4) 0 (if p5s = [] then [i2b 625] else p5s) b)"

subsection \<open>Shifts and comparison\<close>

text \<open>
  The loop goes down from the highest word; each word takes the high bits of its upper neighbour's
  remainder. The words are given with the highest first.
\<close>

fun shift_loop :: "nat \<Rightarrow> u32 \<Rightarrow> u32 list \<Rightarrow> u32 list" where
  "shift_loop k hiSubword [] = [hiSubword]"
| "shift_loop k hiSubword (x # xs) =
    (hiSubword OR drop_bit (32 - k) x) # shift_loop k (push_bit k x) xs"

text \<open>A shift by less than a word; the result has one more word unless that would be 0.\<close>

definition shift_words :: "nat \<Rightarrow> u32 list \<Rightarrow> u32 list" where
  "shift_words k ws =
    (if k \<noteq> 0 then
       let vs = rev (shift_loop k 0 (rev ws)) in if last vs = 0 then butlast vs else vs
     else ws)"

definition proper_size :: "bigint \<Rightarrow> bool" where
  "proper_size b \<longleftrightarrow> length (words b) \<le> 1 \<or> last (words b) \<noteq> 0"

definition lshift :: "nat \<Rightarrow> bigint \<Rightarrow> bigint option" where
  "lshift k b =
    (if k mod 32 = 0 \<and> words b = [] then None
     else
       let c = b\<lparr>words := replicate (k div 32) 0 @ shift_words (k mod 32) (words b)\<rparr>
       in if proper_size c then Some c else None)"

text \<open>The loop of \<open>cmp\<close>, over words given with the highest first.\<close>

fun cmp_words :: "u32 list \<Rightarrow> u32 list \<Rightarrow> int" where
  "cmp_words (x # xs) (y # ys) = (if x \<noteq> y then (if x < y then - 1 else 1) else cmp_words xs ys)"
| "cmp_words xs ys = 0"

definition cmp :: "bigint \<Rightarrow> bigint \<Rightarrow> int option" where
  "cmp a b =
    (if \<not> proper_size a \<or> \<not> proper_size b then None
     else
       let i = int (length (words a)) - int (length (words b)) in
       if i \<noteq> 0 then Some i
       else if words a = [] then None
       else Some (cmp_words (rev (words a)) (rev (words b))))"

subsection \<open>Subtraction\<close>

fun diff_loop :: "u64 \<Rightarrow> u32 list \<Rightarrow> u32 list \<Rightarrow> u32 list" where
  "diff_loop borrow (x # xs) (y # ys) =
    (let z = ucast x - ucast y - borrow in ucast z # diff_loop (drop_bit 32 z AND 1) xs ys)"
| "diff_loop borrow (x # xs) [] =
    (let z = ucast x - borrow in ucast z # diff_loop (drop_bit 32 z AND 1) xs [])"
| "diff_loop borrow [] ys = []"

definition diff :: "bigint \<Rightarrow> bigint \<Rightarrow> bigint option" where
  "diff aRef bRef =
    Option.bind (cmp aRef bRef) (\<lambda>i.
    if i = 0 then Some \<lparr>big_sign = 0, words = [0]\<rparr>
    else
      let (a, b, i) = (if i < 0 then (bRef, aRef, 1) else (aRef, bRef, 0));
          ws = diff_loop 0 (words a) (words b)
      in if words b = [] \<or> strip_words ws = [] then None
         else Some \<lparr>big_sign = i, words = strip_words ws\<rparr>)"

subsection \<open>One digit of a division\<close>

text \<open>Subtracts \<open>q\<close> times the words of \<open>S\<close> from those of \<open>b\<close>.\<close>

fun quorem_loop :: "u64 \<Rightarrow> u64 \<Rightarrow> u64 \<Rightarrow> u32 list \<Rightarrow> u32 list \<Rightarrow> u32 list" where
  "quorem_loop q carry borrow (s # ss) (x # xs) =
    (let ys = ucast s * q + carry; y = ucast x - (ys AND 0xffffffff) - borrow
     in ucast y # quorem_loop q (drop_bit 32 ys) (drop_bit 32 y AND 1) ss xs)"
| "quorem_loop q carry borrow ss xs = xs"

text \<open>The second loop subtracts \<open>S\<close> itself.\<close>

fun quorem_loop1 :: "u64 \<Rightarrow> u64 \<Rightarrow> u32 list \<Rightarrow> u32 list \<Rightarrow> u32 list" where
  "quorem_loop1 carry borrow (s # ss) (x # xs) =
    (let ys = ucast s + carry; y = ucast x - (ys AND 0xffffffff) - borrow
     in ucast y # quorem_loop1 (drop_bit 32 ys) (drop_bit 32 y AND 1) ss xs)"
| "quorem_loop1 carry borrow ss xs = xs"

text \<open>
  When the highest word has become zero it is dropped, with the zero words below it, but the
  lowest word is not looked at. The words are given with the highest first.
\<close>

fun trim_loop :: "u32 list \<Rightarrow> u32 list" where
  "trim_loop (x # y # xs) = (if x = 0 then trim_loop (y # xs) else x # y # xs)"
| "trim_loop xs = xs"

definition trim_words :: "u32 list \<Rightarrow> u32 list" where
  "trim_words ws = (if last ws = 0 then rev (trim_loop (tl (rev ws))) else ws)"

definition quorem :: "bigint \<Rightarrow> bigint \<Rightarrow> (int \<times> bigint) option" where
  "quorem b S =
    (if \<not> proper_size b \<or> \<not> proper_size S \<or> length (words S) < length (words b) then None
     else if length (words b) < length (words S) then Some (0, b)
     else if words S = [] \<or> last (words S) + 1 = 0 then None
     else
       let q = last (words b) div (last (words S) + 1) in
       if 9 < q then None
       else
         let b = (if q \<noteq> 0
                  then b\<lparr>words := trim_words (quorem_loop (ucast q) 0 0 (words S) (words b))\<rparr>
                  else b)
         in Option.bind (cmp b S) (\<lambda>i.
            if 0 \<le> i then
              Some (uint q + 1, b\<lparr>words := trim_words (quorem_loop1 0 0 (words S) (words b))\<rparr>)
            else Some (uint q, b)))"

subsection \<open>Doubles\<close>

text \<open>
  A double is its two halves, \<open>word0\<close> with sign, exponent and the high bits of the fraction, and
  \<open>word1\<close>. \<open>b2d\<close> gives a double between 1 and 2 with the leading bits of \<open>a\<close>, and the number of bits of
  the highest word of \<open>a\<close>. The words below the array read as 0.
\<close>

type_synonym dbits = "u32 \<times> u32"

definition next_word :: "u32 list \<Rightarrow> u32" where
  "next_word ws = (case ws of [] \<Rightarrow> 0 | w # _ \<Rightarrow> w)"

definition b2d :: "bigint \<Rightarrow> (dbits \<times> int) option" where
  "b2d a =
    (case rev (words a) of
       [] \<Rightarrow> None
     | y # xa \<Rightarrow>
         if y = 0 then None
         else
           let k = hi0bits y; e = 32 - k; z = next_word xa; k' = nat (k - 11); w = next_word (tl xa) in
           if k < 11 then
             Some ((0x3ff00000 OR drop_bit (nat (11 - k)) y,
                    push_bit (nat (32 - 11 + k)) y OR drop_bit (nat (11 - k)) z), e)
           else if k \<noteq> 11 then
             Some ((0x3ff00000 OR push_bit k' y OR drop_bit (32 - k') z,
                    push_bit k' z OR drop_bit (32 - k') w), e)
           else Some ((0x3ff00000 OR y, z), e))"

text \<open>
  \<open>d2b\<close> gives an odd integer and the exponent \<open>e\<close> with which it is the absolute value of \<open>d\<close>, and
  the number of its bits. It also clears the sign of \<open>d\<close> in place, the first component of the result.
\<close>

definition d2b :: "dbits \<Rightarrow> dbits \<times> bigint \<times> int \<times> int" where
  "d2b d =
    (case d of (d0, d1) \<Rightarrow>
       let z = d0 AND 0xfffff;
           d0 = d0 AND 0x7fffffff;
           de = uint (drop_bit 20 d0);
           z = (if de \<noteq> 0 then z OR 0x100000 else z);
           (k, ws) =
             (if d1 \<noteq> 0 then
                (case lo0bits d1 of (k, y) \<Rightarrow>
                   let x0 = (if k \<noteq> 0 then y OR push_bit (nat (32 - k)) z else y);
                       z = (if k \<noteq> 0 then drop_bit (nat k) z else z)
                   in (k, if z \<noteq> 0 then [x0, z] else [x0]))
              else (case lo0bits z of (k, z) \<Rightarrow> (k + 32, [z])))
       in if de \<noteq> 0 then ((d0, d1), \<lparr>big_sign = 0, words = ws\<rparr>, de - 1023 - 52 + k, 53 - k)
          else ((d0, d1), \<lparr>big_sign = 0, words = ws\<rparr>, de - 1023 - 52 + 1 + k,
                int (32 * length ws) - hi0bits (last ws)))"

end
