(* ===== verification/BigIntProps.thy ===== *)
theory BigIntProps
  imports BigInt
begin

text \<open>
  The operations of \<open>BigInt\<close> compute with the numbers that the words stand for. The loops keep an
  equation between what they have read, what they have written and the carry or borrow.
\<close>

fun words_value :: "u32 list \<Rightarrow> nat" where
  "words_value [] = 0"
| "words_value (w # ws) = unat w + 2 ^ 32 * words_value ws"

abbreviation big_value :: "bigint \<Rightarrow> nat" where
  "big_value b \<equiv> words_value (words b)"

lemma words_value_append:
  "words_value (xs @ ys) = words_value xs + 2 ^ (32 * length xs) * words_value ys"
  by (induction xs) (simp_all add: power_add algebra_simps)

lemma words_value_replicate [simp]: "words_value (replicate n 0) = 0"
  by (induction n) simp_all

lemma words_value_bound: "words_value ws < 2 ^ (32 * length ws)"
proof (induction ws)
  case (Cons w ws)
  have "unat w < 2 ^ 32" using unsigned_less [of w] by simp
  moreover have "Suc (words_value ws) \<le> 2 ^ (32 * length ws)" using Cons by simp
  then have "2 ^ 32 * Suc (words_value ws) \<le> 2 ^ 32 * 2 ^ (32 * length ws)" by (rule mult_le_mono2)
  ultimately show ?case by (simp add: power_add)
qed simp

text \<open>The two halves of a 64-bit word.\<close>

lemma word_halves: "unat (ucast y :: u32) + 2 ^ 32 * unat (drop_bit 32 y) = unat (y :: u64)"
  by (simp add: unsigned_ucast_eq take_bit_eq_mod drop_bit_eq_div unat_div)

lemma high_half_bound: "unat (drop_bit 32 (y :: u64)) < 2 ^ 32"
proof -
  have "unat y < 2 ^ 64" using unsigned_less [of y] by simp
  then show ?thesis by (simp add: drop_bit_eq_div unat_div less_mult_imp_div_less)
qed

lemma unat_extend [simp]: "unat (ucast (x :: u32) :: u64) = unat x"
  by (simp add: unsigned_ucast_eq take_bit_nat_eq_self_iff less_trans [OF unsigned_less])

lemma unat_narrow: "unat (y :: u64) < 2 ^ 32 \<Longrightarrow> unat (ucast y :: u32) = unat y"
  by (simp add: unsigned_ucast_eq take_bit_nat_eq_self)

lemma u32_bound: "unat (x :: u32) < 2 ^ 32"
  using unsigned_less [of x] by simp

lemma product_bound:
  assumes "a < 2 ^ 32" and "b < 2 ^ 32" and "c < 2 ^ 32" and "d < (2 ^ 32 :: nat)"
  shows "a * b + c + d < 2 ^ 64"
proof -
  have "a * b \<le> (2 ^ 32 - 1) * (2 ^ 32 - 1)" using assms(1,2) by (intro mult_le_mono) simp_all
  then show ?thesis using assms(3,4) by simp
qed

text \<open>Multiply and add in 64 bits do not overflow.\<close>

lemma unat_mult_add:
  assumes "unat (m :: u64) < 2 ^ 32" and "unat (c :: u64) < 2 ^ 32"
  shows "unat (ucast (x :: u32) * m + ucast (d :: u32) + c) = unat x * unat m + unat d + unat c"
proof -
  have b: "unat x * unat m + unat d + unat c < 2 ^ 64"
    using product_bound [OF u32_bound assms(1) u32_bound assms(2)] .
  then have "unat (ucast x * m) = unat x * unat m"
    by (simp add: unat_mult_lem [THEN iffD1])
  moreover from this b have "unat (ucast x * m + ucast d) = unat x * unat m + unat d"
    by (simp add: unat_add_lem [THEN iffD1])
  ultimately show ?thesis using b by (simp add: unat_add_lem [THEN iffD1])
qed

subsection \<open>Multiplication by a small number\<close>

lemma multadd_loop_value:
  assumes "unat m < 2 ^ 32"
  shows "unat c < 2 ^ 32 \<Longrightarrow> multadd_loop m c xs = (ys, c') \<Longrightarrow>
    words_value ys + 2 ^ (32 * length xs) * unat c' = words_value xs * unat m + unat c \<and>
    length ys = length xs \<and> unat c' < 2 ^ 32"
proof (induction xs arbitrary: c ys c')
  case (Cons x xs)
  let ?y = "ucast x * m + c"
  obtain zs where zs: "multadd_loop m (drop_bit 32 ?y) xs = (zs, c')" "ys = ucast ?y # zs"
    using Cons.prems(2) by (auto simp: Let_def split: prod.splits)
  note IH = Cons.IH [OF high_half_bound zs(1)]
  have "unat ?y = unat x * unat m + unat c"
    using unat_mult_add [OF assms Cons.prems(1), of x 0] by simp
  then have "unat (ucast ?y :: u32) + 2 ^ 32 * unat (drop_bit 32 ?y) = unat x * unat m + unat c"
    by (simp only: word_halves)
  then have "unat (ucast ?y :: u32) + 2 ^ 32 * (words_value zs + 2 ^ (32 * length xs) * unat c') =
      (unat x + 2 ^ 32 * words_value xs) * unat m + unat c"
    using IH by (simp only: add_mult_distrib add_mult_distrib2 mult.assoc)
  then show ?case using IH zs(2) by (simp add: power_add algebra_simps)
qed simp

text \<open>The highest word is not zero exactly when the number needs all words.\<close>

lemma words_value_snoc: "words_value (xs @ [w]) = words_value xs + 2 ^ (32 * length xs) * unat w"
  by (simp add: words_value_append)

lemma last_nonzero_iff:
  assumes "ws \<noteq> []"
  shows "last ws \<noteq> 0 \<longleftrightarrow> 2 ^ (32 * (length ws - 1)) \<le> words_value ws"
proof -
  obtain xs w where ws: "ws = xs @ [w]" using assms by (cases ws rule: rev_exhaust) auto
  have "words_value xs < 2 ^ (32 * length xs)" by (rule words_value_bound)
  moreover have "2 ^ (32 * length xs) \<le> 2 ^ (32 * length xs) * unat w" if "w \<noteq> 0"
    using mult_le_mono2 [of 1 "unat w" "2 ^ (32 * length xs)"] that by (simp add: Suc_le_eq unat_gt_0)
  ultimately show ?thesis unfolding ws words_value_snoc by (auto intro: trans_le_add2)
qed

text \<open>A number as the code keeps it: at least one word, and a highest word that is not zero but for 0.\<close>

definition big_ok :: "bigint \<Rightarrow> bool" where
  "big_ok b \<longleftrightarrow> words b \<noteq> [] \<and> proper_size b"

lemma proper_size_iff:
  "proper_size b \<longleftrightarrow> length (words b) \<le> 1 \<or> 2 ^ (32 * (length (words b) - 1)) \<le> big_value b"
  using last_nonzero_iff [of "words b"] by (cases "words b = []") (auto simp: proper_size_def)

lemma multadd_value:
  assumes "words b \<noteq> []" and "0 \<le> m" and "m < 2 ^ 32" and "0 \<le> a" and "a < 2 ^ 32"
  shows "\<exists>c. multadd m a b = Some c \<and> big_value c = big_value b * nat m + nat a \<and>
    words c \<noteq> [] \<and> big_sign c = big_sign b \<and> (proper_size b \<longrightarrow> m \<noteq> 0 \<longrightarrow> proper_size c)"
proof -
  let ?m = "word_of_int m :: u64" and ?a = "word_of_int a :: u64"
  have m: "unat ?m = nat m" "unat ?a = nat a" "unat ?m < 2 ^ 32" "unat ?a < 2 ^ 32"
    using assms(2-5) by (simp_all add: unsigned_of_int take_bit_int_eq_self nat_less_iff unat_eq_nat_uint)
  obtain ys c where r: "multadd_loop ?m ?a (words b) = (ys, c)" by fastforce
  from multadd_loop_value [OF m(3,4) this] m(1,2)
  have v: "words_value ys + 2 ^ (32 * length (words b)) * unat c = big_value b * nat m + nat a"
    and l: "length ys = length (words b)" "unat c < 2 ^ 32" by simp_all
  let ?ws = "if c \<noteq> 0 then ys @ [ucast c] else ys"
  have total: "words_value ?ws = big_value b * nat m + nat a"
    using v l by (auto simp: words_value_append unat_narrow)
  have "proper_size \<lparr>big_sign = 0, words = ?ws\<rparr>" if "proper_size b" "m \<noteq> 0"
  proof (cases "c = 0")
    case True
    have "1 \<le> nat m" using that(2) assms(2) by simp
    then have "big_value b * 1 \<le> big_value b * nat m" by (rule mult_le_mono2)
    then have "big_value b \<le> big_value b * nat m + nat a" by (simp only: mult_1_right trans_le_add1)
    then show ?thesis using that(1) total l True by (auto simp: proper_size_iff)
  next
    case False
    have "(ucast c :: u32) \<noteq> 0" using False l(2) unat_narrow [of c] by (metis unat_eq_zero)
    then show ?thesis using False by (simp add: proper_size_def)
  qed
  then show ?thesis
    using r assms(1) total l by (auto simp: multadd_def proper_size_def)
qed

subsection \<open>Multiplication\<close>

lemma mult_row_value:
  "unat carry < 2 ^ 32 \<Longrightarrow> length xs < length cs \<Longrightarrow> cs ! length xs = 0 \<Longrightarrow>
     words_value (mult_row xs y carry cs) = words_value cs + words_value xs * unat y + unat carry"
proof (induction xs arbitrary: carry cs)
  case Nil
  then show ?case by (cases cs) (simp_all add: unat_narrow)
next
  case (Cons x xs)
  obtain c cs' where cs: "cs = c # cs'" using Cons.prems(2) by (cases cs) auto
  let ?z = "ucast x * ucast y + ucast c + carry"
  have "unat ?z = unat x * unat y + unat c + unat carry"
    using unat_mult_add [of "ucast y" carry x c] Cons.prems(1) u32_bound [of y] by simp
  then have "unat (ucast ?z :: u32) + 2 ^ 32 * unat (drop_bit 32 ?z) = unat x * unat y + unat c + unat carry"
    by (simp only: word_halves)
  moreover have "words_value (mult_row xs y (drop_bit 32 ?z) cs') =
      words_value cs' + words_value xs * unat y + unat (drop_bit 32 ?z)"
    by (rule Cons.IH [OF high_half_bound]) (use Cons.prems cs in simp_all)
  ultimately show ?case by (simp add: cs Let_def algebra_simps)
qed

lemma mult_row_length: "length (mult_row xs y carry cs) = length cs"
  by (induction xs y carry cs rule: mult_row.induct) (simp_all add: Let_def)

lemma mult_row_rest: "drop (Suc (length xs)) (mult_row xs y carry cs) = drop (Suc (length xs)) cs"
  by (induction xs y carry cs rule: mult_row.induct) (simp_all add: Let_def)

lemma mult_rows_value:
  "length cs = length xa + length ys \<Longrightarrow> \<forall>w \<in> set (drop (length xa) cs). w = 0 \<Longrightarrow>
     words_value (mult_rows xa ys cs) = words_value cs + words_value xa * words_value ys \<and>
     length (mult_rows xa ys cs) = length cs"
proof (induction ys arbitrary: cs)
  case (Cons y ys)
  let ?row = "if y \<noteq> 0 then mult_row xa y 0 cs else cs"
  have zero: "cs ! length xa = 0"
    using Cons.prems by (metis Cons_nth_drop_Suc length_Cons less_add_Suc1 list.set_intros(1) add_Suc_right)
  have row: "words_value ?row = words_value cs + words_value xa * unat y" "length ?row = length cs"
    "drop (Suc (length xa)) ?row = drop (Suc (length xa)) cs"
    using mult_row_value [of 0 xa cs y] Cons.prems(1) zero by (simp_all add: mult_row_length mult_row_rest)
  obtain c cs' where c: "?row = c # cs'" using row(2) Cons.prems(1) by (cases ?row) auto
  have "drop (length xa) cs' = drop (Suc (length xa)) cs" using row(3) c by simp
  then have "\<forall>w \<in> set (drop (length xa) cs'). w = 0"
    using Cons.prems(2) set_drop_subset_set_drop [of "length xa" "Suc (length xa)" cs] by auto
  moreover have "length cs' = length xa + length ys" using row(2) c Cons.prems(1) by simp
  ultimately have "words_value (mult_rows xa ys cs') = words_value cs' + words_value xa * words_value ys"
    "length (mult_rows xa ys cs') = length cs'"
    using Cons.IH by simp_all
  then show ?case using row(1,2) c by (simp add: algebra_simps)
qed simp

lemma strip_words_snoc: "strip_words (xs @ [w]) = (if w = 0 then strip_words xs else xs @ [w])"
  by (simp add: strip_words_def)

lemma strip_words_value: "words_value (strip_words ws) = words_value ws"
proof (induction ws rule: rev_induct)
  case Nil
  show ?case by (simp add: strip_words_def)
qed (simp add: strip_words_snoc words_value_append)

lemma strip_words_last: "strip_words ws = [] \<or> last (strip_words ws) \<noteq> 0"
  by (induction ws rule: rev_induct) (simp_all add: strip_words_snoc, simp add: strip_words_def)

lemma mult_value: "big_value (mult a b) = big_value a * big_value b"
proof -
  have "words_value (mult_rows xs ys (replicate (length xs + length ys) 0)) = words_value xs * words_value ys" for xs ys
    using mult_rows_value [of "replicate (length xs + length ys) 0" xs ys] by simp
  then show ?thesis by (simp add: mult_def Let_def strip_words_value BigInt_ctor_def)
qed

lemma mult_ok:
  assumes "big_value a \<noteq> 0" and "big_value b \<noteq> 0"
  shows "big_ok (mult a b)" and "big_sign (mult a b) = 0"
proof -
  have "words (mult a b) \<noteq> []" using mult_value [of a b] assms by auto
  moreover have "words (mult a b) = [] \<or> last (words (mult a b)) \<noteq> 0"
    by (simp add: mult_def Let_def strip_words_last BigInt_ctor_def)
  ultimately show "big_ok (mult a b)" by (auto simp: big_ok_def proper_size_def)
  show "big_sign (mult a b) = 0" by (simp add: mult_def Let_def BigInt_ctor_def)
qed

subsection \<open>Decimal digits\<close>

definition digits_value :: "nat \<Rightarrow> int list \<Rightarrow> nat" where
  "digits_value n cs = foldl (\<lambda>v c. 10 * v + nat (c - 48)) n cs"

lemma multadd_digits_value:
  "words b \<noteq> [] \<Longrightarrow> list_all (\<lambda>c. 48 \<le> c \<and> c < 58) cs \<Longrightarrow>
     \<exists>c. multadd_digits cs b = Some c \<and> big_value c = digits_value (big_value b) cs \<and>
       words c \<noteq> [] \<and> big_sign c = big_sign b \<and> (proper_size b \<longrightarrow> proper_size c)"
proof (induction cs arbitrary: b)
  case (Cons d cs)
  obtain b' where b: "multadd 10 (d - 48) b = Some b'" "big_value b' = 10 * big_value b + nat (d - 48)"
    "words b' \<noteq> []" "big_sign b' = big_sign b" "proper_size b \<longrightarrow> proper_size b'"
    using multadd_value [of b 10 "d - 48"] Cons.prems by (auto simp: mult.commute)
  then show ?case using Cons.IH [of b'] Cons.prems(2) by (auto simp: digits_value_def)
qed (simp add: digits_value_def)

lemma multadd_digits_append:
  "multadd_digits (cs @ ds) b = Option.bind (multadd_digits cs b) (multadd_digits ds)"
  by (induction cs arbitrary: b) (simp_all split: bind_split)

lemma digits_value_append: "digits_value (digits_value n xs) ys = digits_value n (xs @ ys)"
  by (simp add: digits_value_def)

lemma digits_value_bound:
  "list_all (\<lambda>c. 48 \<le> c \<and> c < 58) xs \<Longrightarrow> digits_value 0 xs < 10 ^ length xs"
proof (induction xs rule: rev_induct)
  case (snoc x xs)
  have "nat (x - 48) \<le> 9" using snoc.prems by auto
  then show ?case using snoc by (simp add: digits_value_def)
qed (simp add: digits_value_def)

text \<open>
  The characters that \<open>s2b\<close> reads are the digits from the tenth on, wherever the point stands; the
  point may be missing when no digits follow.
\<close>

lemma s2b_value:
  assumes digits: "list_all (\<lambda>c. 48 \<le> c \<and> c < 58) (ds @ es)"
    and s: "s = ds @ point @ es @ rest" "length point = 1 \<or> es = []"
    and "y9 = of_nat (digits_value 0 (take 9 (ds @ es)))"
  shows "\<exists>b. s2b s (length ds) (length ds + length es) y9 = Some b \<and>
    big_value b = digits_value 0 (ds @ es) \<and> big_ok b \<and> big_sign b = 0"
proof -
  let ?b = "\<lparr>big_sign = 0, words = [y9]\<rparr>"
  have "list_all (\<lambda>c. 48 \<le> c \<and> c < 58) (take 9 (ds @ es))" using digits by (auto simp: list_all_iff dest: in_set_takeD)
  then have "digits_value 0 (take 9 (ds @ es)) < 10 ^ length (take 9 (ds @ es))" by (rule digits_value_bound)
  also have "\<dots> \<le> 10 ^ 9" by (intro power_increasing) simp_all
  finally have y9: "unat y9 = digits_value 0 (take 9 (ds @ es))"
    using assms(4) by (simp add: unsigned_of_nat take_bit_nat_eq_self)
  have "list_all (\<lambda>c. 48 \<le> c \<and> c < 58) (drop 9 (ds @ es))" using digits by (auto simp: list_all_iff dest: in_set_dropD)
  from multadd_digits_value [OF _ this, of ?b] y9 obtain c where c:
    "multadd_digits (drop 9 (ds @ es)) ?b = Some c" "big_value c = digits_value 0 (ds @ es)" "words c \<noteq> []"
    "big_sign c = 0" "proper_size c"
    by (auto simp: digits_value_append proper_size_def simp del: drop_append take_append)
  have "s2b s (length ds) (length ds + length es) y9 = multadd_digits (drop 9 (ds @ es)) ?b"
  proof (cases "9 < length ds")
    case True
    have "chars_from s 9 (length ds - 9) = Some (drop 9 ds)" using s(1) True by (simp add: chars_from_def)
    moreover have "chars_from s (length ds + 1) (length es) = Some es" using s by (auto simp: chars_from_def)
    ultimately show ?thesis using True by (simp add: s2b_def multadd_digits_append)
  next
    case False
    have "chars_from s 10 (length ds + length es - 9) = Some (drop 9 (ds @ es))"
      using s False by (cases "es = []") (auto simp: chars_from_def Suc_diff_le)
    then show ?thesis using False by (simp add: s2b_def del: drop_append)
  qed
  then show ?thesis using c by (auto simp: big_ok_def)
qed

subsection \<open>Powers of five\<close>

lemma power_split: "x ^ (k mod m) * (x ^ m) ^ (k div m) = (x :: nat) ^ k"
  by (simp add: power_mult [symmetric] power_add [symmetric])

definition p5s_ok :: "bigint list \<Rightarrow> bool" where
  "p5s_ok p5s \<longleftrightarrow> (\<forall>i < length p5s. big_value (p5s ! i) = 625 ^ 2 ^ i)"

lemma pow5_loop_value:
  "p5s_ok p5s \<Longrightarrow> i < length p5s \<Longrightarrow> big_ok b \<Longrightarrow> big_value b \<noteq> 0 \<Longrightarrow>
     \<exists>c p5s'. pow5_loop k i p5s b = Some (c, p5s') \<and> p5s_ok p5s' \<and> big_ok c \<and>
       big_value c = big_value b * (625 ^ 2 ^ i) ^ k"
proof (induction k i p5s b rule: pow5_loop.induct)
  case (1 k i p5s b)
  let ?p5 = "p5s ! i" and ?b = "if odd k then mult b (p5s ! i) else b"
  let ?p5s = "if i + 1 = length p5s then p5s @ [mult ?p5 ?p5] else p5s"
  have p5: "big_value ?p5 = 625 ^ 2 ^ i" using "1.prems"(1,2) by (simp add: p5s_ok_def)
  have b: "big_ok ?b" "big_value ?b = big_value b * (625 ^ 2 ^ i) ^ (k mod 2)" "big_value ?b \<noteq> 0"
    using "1.prems"(3,4) p5 mult_value [of b ?p5] mult_ok [of b ?p5]
    by (auto simp: odd_iff_mod_2_eq_one even_iff_mod_2_eq_zero)
  have cut: "drop i p5s = ?p5 # drop (Suc i) p5s" using "1.prems"(2) by (simp add: Cons_nth_drop_Suc)
  have parts: "(625 ^ 2 ^ i) ^ (k mod 2) * (625 ^ 2 ^ Suc i) ^ (k div 2) = (625 ^ 2 ^ i :: nat) ^ k"
    using power_split [of "625 ^ 2 ^ i" k 2] by (simp add: power_mult [symmetric] mult.commute)
  show ?case
  proof (cases "k div 2 = 0")
    case True
    then have "k mod 2 = k" by simp
    then show ?thesis using True cut b "1.prems"(1) by (subst pow5_loop.simps) (auto simp: Let_def)
  next
    case False
    have "big_value (mult ?p5 ?p5) = 625 ^ 2 ^ Suc i"
      using p5 mult_value [of ?p5 ?p5] by (simp add: power_add [symmetric] mult_2)
    then have "p5s_ok ?p5s"
      using "1.prems"(1) by (auto simp: p5s_ok_def nth_append less_Suc_eq simp del: power_Suc)
    moreover have "i + 1 < length ?p5s" using "1.prems"(2) by simp
    ultimately obtain c p5s' where c: "pow5_loop (k div 2) (i + 1) ?p5s ?b = Some (c, p5s')" "p5s_ok p5s'" "big_ok c"
      "big_value c = big_value ?b * (625 ^ 2 ^ (i + 1)) ^ (k div 2)"
      using "1.IH" [OF cut refl refl _ _ _ b(1,3)] False by blast
    then have "pow5_loop k i p5s b = Some (c, p5s')"
      using cut False by (subst pow5_loop.simps) (simp add: Let_def)
    moreover have "big_value c = big_value b * (625 ^ 2 ^ i) ^ k"
      unfolding c(4) b(2) parts [symmetric] by simp
    ultimately show ?thesis using c(2,3) by blast
  qed
qed

lemma pow5mult_value:
  assumes "p5s_ok p5s" and "big_ok b" and "big_value b \<noteq> 0"
  shows "\<exists>c p5s'. pow5mult k p5s b = Some (c, p5s') \<and> p5s_ok p5s' \<and> big_ok c \<and> big_value c = big_value b * 5 ^ k"
proof -
  obtain c where c: "(if k mod 4 \<noteq> 0 then multadd ([5, 25, 125] ! (k mod 4 - 1)) 0 b else Some b) = Some c"
    "big_ok c" "big_value c = big_value b * 5 ^ (k mod 4)"
  proof -
    have "k mod 4 = 0 \<or> k mod 4 = 1 \<or> k mod 4 = 2 \<or> k mod 4 = 3" by arith
    then show ?thesis
      using that multadd_value [of b 5 0] multadd_value [of b 25 0] multadd_value [of b 125 0] assms(2)
      by (auto simp: big_ok_def)
  qed
  have parts: "5 ^ (k mod 4) * (625 ^ 2 ^ 0) ^ (k div 4) = (5 :: nat) ^ k"
    using power_split [of 5 k 4] by simp
  show ?thesis
  proof (cases "k div 4 = 0")
    case True
    then have "k mod 4 = k" by simp
    then show ?thesis using True c assms(1) by (auto simp: pow5mult_def)
  next
    case False
    let ?p5s = "if p5s = [] then [i2b 625] else p5s"
    have "p5s_ok ?p5s" "0 < length ?p5s" using assms(1) by (auto simp: p5s_ok_def i2b_def)
    moreover have "big_value c \<noteq> 0" using c(3) assms(3) by simp
    ultimately obtain d p5s' where "pow5_loop (k div 4) 0 ?p5s c = Some (d, p5s')" "p5s_ok p5s'" "big_ok d"
      "big_value d = big_value c * (625 ^ 2 ^ 0) ^ (k div 4)"
      using pow5_loop_value c(2) by blast
    then show ?thesis
      using c(1,3) False parts by (auto simp: pow5mult_def mult.assoc)
  qed
qed

subsection \<open>Shifts\<close>

text \<open>OR of words without common bits is addition.\<close>

lemma unat_or_disjoint:
  fixes a b :: "'a::len word"
  assumes "a AND b = 0"
  shows "unat (a OR b) = unat a + unat b"
proof -
  have "uint a AND uint b = 0" using assms by (metis unsigned_and_eq unsigned_0)
  then have "uint (a OR b) = uint a + uint b"
    using plus_and_or [of "uint a" "uint b"] by (simp add: unsigned_or_eq)
  then have "int (unat (a OR b)) = int (unat a + unat b)" by simp
  then show ?thesis by (simp only: of_nat_eq_iff)
qed

lemma unat_shift_right: "unat (drop_bit k (x :: u32)) = unat x div 2 ^ k"
  by (subst unat_drop_bit_eq) (rule drop_bit_eq_div)

lemma unat_shift_left: "unat (push_bit k (x :: u32)) = unat x * 2 ^ k mod 2 ^ 32"
  by (subst unsigned_push_bit_eq) (simp add: take_bit_eq_mod push_bit_eq_mult)

lemma shift_halves:
  assumes "k \<le> 32"
  shows "unat (push_bit k (x :: u32)) + 2 ^ 32 * unat (drop_bit (32 - k) x) = 2 ^ k * unat x"
proof -
  have "unat x * 2 ^ k div (2 ^ (32 - k) * 2 ^ k) = unat x div 2 ^ (32 - k)"
    by (rule div_mult_mult2) simp
  moreover have "2 ^ (32 - k) * 2 ^ k = (2 ^ 32 :: nat)" using assms by (simp add: power_add [symmetric])
  ultimately show ?thesis
    unfolding unat_shift_left unat_shift_right by (metis mod_mult_div_eq mult.commute)
qed

lemma shift_disjoint: "k \<le> 32 \<Longrightarrow> push_bit k (h :: u32) AND drop_bit (32 - k) x = 0"
  by (rule bit_word_eqI) (auto simp: bit_simps dest: bit_imp_le_length)

lemma words_value_butlast: "ws \<noteq> [] \<Longrightarrow> last ws = 0 \<Longrightarrow> words_value (butlast ws) = words_value ws"
  by (cases ws rule: rev_exhaust) (simp_all add: words_value_append)

lemma shift_loop_value:
  assumes "k \<le> 32"
  shows "words_value (rev (shift_loop k (push_bit k h) xs)) =
    2 ^ k * words_value (rev xs) + 2 ^ (32 * length xs) * unat (push_bit k h) \<and>
    length (shift_loop k (push_bit k h) xs) = Suc (length xs)"
proof (induction xs arbitrary: h)
  case (Cons x xs)
  have "unat (push_bit k h OR drop_bit (32 - k) x) = unat (push_bit k h) + unat (drop_bit (32 - k) x)"
    by (rule unat_or_disjoint) (rule shift_disjoint [OF assms])
  then have "words_value (rev (shift_loop k (push_bit k h) (x # xs))) =
      2 ^ k * words_value (rev xs) + 2 ^ (32 * length xs) *
        (unat (push_bit k x) + 2 ^ 32 * unat (drop_bit (32 - k) x) + 2 ^ 32 * unat (push_bit k h))"
    using Cons.IH [of x] by (simp add: words_value_append power_add algebra_simps)
  then show ?case
    unfolding shift_halves [OF assms] using Cons.IH [of x]
    by (simp add: words_value_append power_add algebra_simps)
qed simp

lemma shift_words_value:
  assumes "k \<le> 32"
  shows "words_value (shift_words k ws) = 2 ^ k * words_value ws \<and>
    (length (shift_words k ws) = length ws \<or>
     length (shift_words k ws) = Suc (length ws) \<and> last (shift_words k ws) \<noteq> 0)"
proof (cases "k = 0")
  case False
  define vs where "vs = rev (shift_loop k 0 (rev ws))"
  have vs: "words_value vs = 2 ^ k * words_value ws" "length vs = Suc (length ws)"
    using shift_loop_value [OF assms, of 0 "rev ws"] by (simp_all add: vs_def)
  then have "vs \<noteq> []" by auto
  then show ?thesis
    using False vs words_value_butlast [of vs] by (simp add: shift_words_def flip: vs_def)
qed (simp add: shift_words_def)

lemma lshift_value:
  assumes "big_ok b" and "big_value b \<noteq> 0 \<or> k < 32"
  shows "\<exists>c. lshift k b = Some c \<and> big_ok c \<and> big_value c = big_value b * 2 ^ k \<and> big_sign c = big_sign b"
proof -
  let ?n = "k div 32" and ?k = "k mod 32" and ?ws = "words b"
  let ?us = "shift_words ?k ?ws"
  let ?c = "b\<lparr>words := replicate ?n 0 @ ?us\<rparr>"
  have us: "words_value ?us = 2 ^ ?k * words_value ?ws"
    "length ?us = length ?ws \<or> length ?us = Suc (length ?ws) \<and> last ?us \<noteq> 0"
    using shift_words_value [of ?k ?ws] by simp_all
  have ne: "?us \<noteq> []" using us(2) assms(1) by (auto simp: big_ok_def)
  have "2 ^ (32 * ?n) * 2 ^ ?k = (2 ^ k :: nat)" by (simp add: power_add [symmetric])
  then have total: "big_value ?c = big_value b * 2 ^ k"
    by (simp add: words_value_append us(1) flip: mult.assoc)
  have "length ?us = 1 \<and> ?n = 0 \<or> last ?us \<noteq> 0"
  proof (cases "big_value b = 0")
    case True
    then have "last ?us = 0" using us(1) last_nonzero_iff [OF ne] by simp
    moreover have "length ?ws = 1" using True assms(1) proper_size_iff [of b] by (auto simp: big_ok_def le_Suc_eq)
    ultimately show ?thesis using us(2) assms(2) True by auto
  next
    case False
    then have "2 ^ (32 * (length ?ws - 1)) \<le> words_value ?ws"
      using assms(1) proper_size_iff [of b] by (auto simp: big_ok_def Suc_le_eq)
    also have "\<dots> \<le> words_value ?us" unfolding us(1) by simp
    finally show ?thesis using us(2) last_nonzero_iff [OF ne] by auto
  qed
  then have "proper_size ?c" using ne by (auto simp: proper_size_def)
  moreover from this have "lshift k b = Some ?c"
    using assms(1) by (simp add: lshift_def Let_def big_ok_def)
  ultimately show ?thesis using total ne by (auto simp: big_ok_def)
qed

subsection \<open>Comparison\<close>

lemma words_value_rev_Cons:
  "words_value (rev (x # xs)) = words_value (rev xs) + 2 ^ (32 * length xs) * unat x"
  by (simp add: words_value_append)

lemma high_word_decides:
  assumes "l < M" and "l' < M" and "h < (h' :: nat)"
  shows "l + M * h < l' + M * h'"
proof -
  have "M * Suc h \<le> M * h'" using assms(3) by (intro mult_le_mono2) simp
  then show ?thesis using assms(1) by simp
qed

lemma cmp_words_value:
  "length xs = length ys \<Longrightarrow>
     (cmp_words xs ys < 0 \<longleftrightarrow> words_value (rev xs) < words_value (rev ys)) \<and>
     (cmp_words xs ys = 0 \<longleftrightarrow> words_value (rev xs) = words_value (rev ys))"
proof (induction xs ys rule: list_induct2)
  case (Cons x xs y ys)
  note bound = words_value_bound [of "rev xs"] words_value_bound [of "rev ys"]
  consider "x = y" | "x < y" | "y < x" by fastforce
  then show ?case
  proof cases
    case 1
    then show ?thesis using Cons by (simp add: words_value_append)
  next
    case 2
    then show ?thesis
      using high_word_decides [of _ "2 ^ (32 * length ys)" _ "unat x" "unat y"] bound Cons.hyps
      by (simp add: words_value_append word_less_nat_alt less_imp_neq)
  next
    case 3
    then have "words_value (rev (y # ys)) < words_value (rev (x # xs))"
      using high_word_decides [of _ "2 ^ (32 * length ys)" _ "unat y" "unat x"] bound Cons.hyps
      by (simp add: words_value_append word_less_nat_alt)
    then show ?thesis using 3 by auto
  qed
qed simp

lemma longer_is_greater:
  assumes "big_ok b" and "length (words a) < length (words b)" and "big_value b \<noteq> 0"
  shows "big_value a < big_value b"
proof -
  have "big_value a < 2 ^ (32 * length (words a))" by (rule words_value_bound)
  also have "\<dots> \<le> 2 ^ (32 * (length (words b) - 1))" using assms(2) by (intro power_increasing) simp_all
  also have "\<dots> \<le> big_value b"
    using assms proper_size_iff [of b] by (auto simp: big_ok_def le_Suc_eq Suc_le_eq)
  finally show ?thesis .
qed

lemma longer_is_not_zero: "big_ok b \<Longrightarrow> 1 < length (words b) \<Longrightarrow> big_value b \<noteq> 0"
proof -
  assume "big_ok b" "1 < length (words b)"
  then have "2 ^ (32 * (length (words b) - 1)) \<le> big_value b" by (auto simp: big_ok_def proper_size_iff)
  then show "big_value b \<noteq> 0" using zero_less_power [of "2 :: nat"] by (metis le_zero_eq less_irrefl zero_less_numeral)
qed

lemma cmp_value:
  assumes "big_ok a" and "big_ok b"
  shows "\<exists>i. cmp a b = Some i \<and> (i < 0 \<longleftrightarrow> big_value a < big_value b) \<and> (i = 0 \<longleftrightarrow> big_value a = big_value b)"
proof (cases "length (words a) = length (words b)")
  case True
  then show ?thesis
    using cmp_words_value [of "rev (words a)" "rev (words b)"] assms by (auto simp: cmp_def big_ok_def)
next
  case False
  then have "big_value a < big_value b \<longleftrightarrow> length (words a) < length (words b)" "big_value a \<noteq> big_value b"
  proof -
    have "0 < length (words a)" "0 < length (words b)" using assms by (auto simp: big_ok_def)
    then have "length (words a) < length (words b) \<and> big_value a < big_value b \<or>
        length (words b) < length (words a) \<and> big_value b < big_value a"
      using False longer_is_greater [of b a] longer_is_greater [of a b] longer_is_not_zero [of a]
        longer_is_not_zero [of b] assms by linarith
    then show "big_value a < big_value b \<longleftrightarrow> length (words a) < length (words b)" "big_value a \<noteq> big_value b"
      by auto
  qed
  then show ?thesis using False assms by (auto simp: cmp_def Let_def big_ok_def)
qed

subsection \<open>Subtraction\<close>

text \<open>One step of a subtraction in 64 bits; bit 32 of the difference is the borrow.\<close>

lemma subtract_step:
  fixes x y :: u32 and b :: u64
  assumes "unat b \<le> 1" and "z = ucast x - ucast y - b"
  shows "uint (ucast z :: u32) - 2 ^ 32 * uint (drop_bit 32 z AND 1) = uint x - uint y - uint b"
    and "unat (drop_bit 32 z AND 1) \<le> 1"
proof -
  let ?t = "uint x - uint y - uint b"
  have ext: "uint (ucast w :: u64) = uint w" for w :: u32
    by (simp add: unsigned_ucast_eq take_bit_int_eq_self_iff less_trans [OF unsigned_less])
  have z: "uint z = ?t mod 2 ^ 64"
    unfolding assms(2) by (simp add: uint_word_ariths ext mod_simps)
  have "int (unat b) \<le> int 1" using assms(1) by (simp only: of_nat_le_iff)
  then have "uint b \<le> 1" by simp
  then have "uint b \<le> 1 \<and> 0 \<le> uint b \<and> uint x < 2 ^ 32 \<and> uint y < 2 ^ 32 \<and> 0 \<le> uint x \<and> 0 \<le> uint y"
    using uint_lt2p [of x] uint_lt2p [of y] by simp
  then have t: "- (2 ^ 32) \<le> ?t" "?t < 2 ^ 32" by linarith+
  have low: "uint (ucast z :: u32) = ?t mod 2 ^ 32"
    using z by (simp add: unsigned_ucast_eq take_bit_eq_mod mod_mod_cancel)
  have high: "uint (drop_bit 32 z AND 1) = uint z div 2 ^ 32 mod 2"
    by (simp add: and_one_eq drop_bit_eq_div uint_div uint_mod)
  show "uint (ucast z :: u32) - 2 ^ 32 * uint (drop_bit 32 z AND 1) = ?t"
  proof (cases "0 \<le> ?t")
    case True
    then show ?thesis using t z low high by simp
  next
    case False
    have "?t mod 2 ^ 64 = ?t + 2 ^ 64" "?t mod 2 ^ 32 = ?t + 2 ^ 32"
      using False t mod_pos_pos_trivial [of "?t + 2 ^ 64" "2 ^ 64"] mod_pos_pos_trivial [of "?t + 2 ^ 32" "2 ^ 32"]
      by simp_all
    moreover have "(?t + 2 ^ 64) div 2 ^ 32 = 2 ^ 32 - 1"
      using False t by (intro int_div_pos_eq [of _ _ _ "?t + 2 ^ 32"]) simp_all
    ultimately show ?thesis using z low high by simp
  qed
  have "drop_bit 32 z AND 1 \<le> 1" by (rule word_and_le1)
  then show "unat (drop_bit 32 z AND 1) \<le> 1" by (simp add: word_le_nat_alt)
qed

text \<open>The words of a difference are those of the difference modulo the size of the array.\<close>

lemma mod_next_word:
  assumes "0 \<le> l" and "l < (B :: int)" and "0 \<le> M"
  shows "(l + B * t) mod (B * M) = l + B * (t mod M)"
  using assms by (simp add: zmod_zmult2_eq)

lemma subtracted_word:
  fixes x y :: u32 and b z :: u64
  assumes "unat b \<le> 1" and "z = ucast x - ucast y - b"
    and "int (words_value ws) = (t - uint (drop_bit 32 z AND 1)) mod 2 ^ (32 * n)"
  shows "int (words_value (ucast z # ws)) = (uint x - uint y - uint b + 2 ^ 32 * t) mod 2 ^ (32 * Suc n)"
proof -
  let ?l = "uint (ucast z :: u32)"
  let ?u = "t - uint (drop_bit 32 z AND 1)"
  have total: "uint x - uint y - uint b + 2 ^ 32 * t = ?l + 2 ^ 32 * ?u"
    using subtract_step(1) [OF assms(1,2)] by (simp add: algebra_simps)
  have "0 \<le> ?l" "?l < 2 ^ 32" using uint_lt2p [of "ucast z :: u32"] by simp_all
  then have "(?l + 2 ^ 32 * ?u) mod (2 ^ 32 * 2 ^ (32 * n)) = ?l + 2 ^ 32 * (?u mod 2 ^ (32 * n))"
    by (rule mod_next_word) simp
  moreover have "int (words_value (ucast z # ws)) = ?l + 2 ^ 32 * (?u mod 2 ^ (32 * n))"
    using assms(3) by simp
  moreover have "2 ^ (32 * Suc n) = (2 ^ 32 * 2 ^ (32 * n) :: int)" by (simp add: power_add)
  ultimately show ?thesis by (simp only: total)
qed

lemma diff_loop_value:
  "unat b \<le> 1 \<Longrightarrow> length ys \<le> length xs \<Longrightarrow>
     int (words_value (diff_loop b xs ys)) =
       (int (words_value xs) - int (words_value ys) - uint b) mod 2 ^ (32 * length xs) \<and>
     length (diff_loop b xs ys) = length xs"
proof (induction b xs ys rule: diff_loop.induct)
  case (1 b x xs y ys)
  let ?z = "ucast x - ucast y - b :: u64"
  note IH = "1.IH" [OF refl subtract_step(2) [OF "1.prems"(1) refl]]
  have "int (words_value (ucast ?z # diff_loop (drop_bit 32 ?z AND 1) xs ys)) =
      (uint x - uint y - uint b + 2 ^ 32 * (int (words_value xs) - int (words_value ys))) mod 2 ^ (32 * Suc (length xs))"
    using IH "1.prems" by (intro subtracted_word [OF _ refl]) simp_all
  then show ?case using IH "1.prems" by (simp add: Let_def algebra_simps)
next
  case (2 b x xs)
  let ?z = "ucast x - b :: u64"
  have z: "?z = ucast x - ucast (0 :: u32) - b" by simp
  note IH = "2.IH" [OF refl subtract_step(2) [OF "2.prems"(1) z]]
  have "int (words_value (ucast ?z # diff_loop (drop_bit 32 ?z AND 1) xs [])) =
      (uint x - uint (0 :: u32) - uint b + 2 ^ 32 * int (words_value xs)) mod 2 ^ (32 * Suc (length xs))"
    using IH "2.prems" by (intro subtracted_word [OF _ z]) simp_all
  then show ?case using IH "2.prems" by (simp add: Let_def algebra_simps)
next
  case (3 b ys)
  then show ?case by simp
qed

text \<open>Where the minuend is not smaller, that is the difference itself.\<close>

lemma exact_difference:
  assumes "int v = (int a - int b) mod 2 ^ n" and "b \<le> a" and "a < 2 ^ n"
  shows "v = a - b"
proof -
  have "a - b < 2 ^ n" using assms(3) by simp
  then have "int (a - b) < int (2 ^ n)" by (simp only: of_nat_less_iff)
  then have "int (a - b) mod 2 ^ n = int (a - b)" by simp
  moreover have "int a - int b = int (a - b)" using assms(2) by simp
  ultimately have "int v = int (a - b)" using assms(1) by metis
  then show ?thesis by (simp only: of_nat_eq_iff)
qed

lemma shorter_if_less:
  assumes "big_ok b" and "big_value a < big_value b" and "big_ok a"
  shows "length (words a) \<le> length (words b)"
proof (rule ccontr)
  assume longer: "\<not> length (words a) \<le> length (words b)"
  moreover have "words b \<noteq> []" using assms(1) by (simp add: big_ok_def)
  ultimately have "1 < length (words a)" by (cases "words b") simp_all
  then have "big_value b < big_value a"
    using longer_is_greater [OF assms(3)] longer_is_not_zero [OF assms(3)] longer by simp
  then show False using assms(2) by simp
qed

lemma diff_value:
  assumes "big_ok a" and "big_ok b"
  shows "\<exists>c. diff a b = Some c \<and> big_ok c \<and>
    big_value c = (if big_value a < big_value b then big_value b - big_value a else big_value a - big_value b) \<and>
    big_sign c = (if big_value a < big_value b then 1 else 0)"
proof -
  obtain i where i: "cmp a b = Some i" "i < 0 \<longleftrightarrow> big_value a < big_value b" "i = 0 \<longleftrightarrow> big_value a = big_value b"
    using cmp_value [OF assms] by blast
  have sub: "words_value (strip_words (diff_loop 0 (words x) (words y))) = big_value x - big_value y"
    if "big_ok x" "big_ok y" "big_value y < big_value x" for x y
  proof -
    have "length (words y) \<le> length (words x)" using shorter_if_less that by blast
    then have "int (words_value (diff_loop 0 (words x) (words y))) =
        (int (big_value x) - int (big_value y)) mod 2 ^ (32 * length (words x))"
      using diff_loop_value [of 0 "words y" "words x"] by simp
    then show ?thesis
      using exact_difference words_value_bound that(3) by (simp add: strip_words_value)
  qed
  have ok: "big_ok \<lparr>big_sign = s, words = strip_words ws\<rparr> \<and> strip_words ws \<noteq> []" if "words_value (strip_words ws) \<noteq> 0" for ws s
    using that strip_words_last [of ws] by (auto simp: big_ok_def proper_size_def)
  show ?thesis
  proof (cases "i = 0")
    case True
    then show ?thesis using i by (auto simp: diff_def big_ok_def proper_size_def)
  next
    case False
    have ne: "words a \<noteq> []" "words b \<noteq> []" using assms by (auto simp: big_ok_def)
    show ?thesis
    proof (cases "i < 0")
      case True
      then have "words_value (strip_words (diff_loop 0 (words b) (words a))) = big_value b - big_value a"
        using sub assms i(2) by blast
      then show ?thesis
        using True False i ne ok [of "diff_loop 0 (words b) (words a)" 1] by (auto simp: diff_def Let_def)
    next
      case ge: False
      then have "words_value (strip_words (diff_loop 0 (words a) (words b))) = big_value a - big_value b"
        using sub assms i False by (meson linorder_neqE_nat)
      moreover have "big_value b < big_value a" using ge False i by linarith
      ultimately show ?thesis
        using ge False i ne ok [of "diff_loop 0 (words a) (words b)" 0] by (auto simp: diff_def Let_def)
    qed
  qed
qed

subsection \<open>One digit of a division\<close>

lemma quorem_loop_one: "quorem_loop1 c b ss xs = quorem_loop 1 c b ss xs"
  by (induction c b ss xs rule: quorem_loop1.induct) (simp_all add: Let_def)

lemma low_half: "(y :: u64) AND 0xffffffff = ucast (ucast y :: u32)"
proof -
  have "y AND mask 32 = ucast (ucast y :: u32)"
    by (rule bit_word_eqI) (auto simp: bit_simps)
  then show ?thesis by (simp add: mask_eq_exp_minus_1)
qed

lemma quorem_loop_value:
  assumes "unat q < 2 ^ 32"
  shows "length ss = length xs \<Longrightarrow> unat c < 2 ^ 32 \<Longrightarrow> unat b \<le> 1 \<Longrightarrow>
    int (words_value (quorem_loop q c b ss xs)) =
      (int (words_value xs) - uint q * int (words_value ss) - uint c - uint b) mod 2 ^ (32 * length xs) \<and>
    length (quorem_loop q c b ss xs) = length xs"
proof (induction ss xs arbitrary: c b rule: list_induct2)
  case Nil
  then show ?case by simp
next
  case (Cons s ss x xs)
  let ?ys = "ucast s * q + c"
  let ?y = "ucast x - ucast (ucast ?ys :: u32) - b"
  note borrow = subtract_step(2) [OF Cons.prems(2) refl, of x "ucast ?ys"]
  note IH = Cons.IH [OF high_half_bound borrow, of ?ys]
  have "unat ?ys = unat s * unat q + unat c"
    using unat_mult_add [OF assms Cons.prems(1), of s 0] by simp
  then have "unat (ucast ?ys :: u32) + 2 ^ 32 * unat (drop_bit 32 ?ys) = unat s * unat q + unat c"
    by (simp only: word_halves)
  then have "int (unat (ucast ?ys :: u32) + 2 ^ 32 * unat (drop_bit 32 ?ys)) = int (unat s * unat q + unat c)"
    by (simp only: of_nat_eq_iff)
  then have halves: "uint (ucast ?ys :: u32) + 2 ^ 32 * uint (drop_bit 32 ?ys) = uint s * uint q + uint c"
    by simp
  let ?t = "int (words_value xs) - uint q * int (words_value ss) - uint (drop_bit 32 ?ys)"
  have "int (words_value (ucast ?y # quorem_loop q (drop_bit 32 ?ys) (drop_bit 32 ?y AND 1) ss xs)) =
      (uint x - uint (ucast ?ys :: u32) - uint b + 2 ^ 32 * ?t) mod 2 ^ (32 * Suc (length xs))"
    using IH by (intro subtracted_word [OF Cons.prems(2) refl]) simp
  moreover have "uint x - uint (ucast ?ys :: u32) - uint b + 2 ^ 32 * ?t =
      int (words_value (x # xs)) - uint q * int (words_value (s # ss)) - uint c - uint b"
    using halves by (simp add: algebra_simps)
  ultimately show ?case using IH by (simp only: quorem_loop.simps Let_def low_half length_Cons)
qed

lemma trim_loop_value:
  "words_value (rev (trim_loop ws)) = words_value (rev ws) \<and>
   (length (trim_loop ws) \<le> 1 \<or> hd (trim_loop ws) \<noteq> 0) \<and> length (trim_loop ws) \<le> length ws"
  by (induction ws rule: trim_loop.induct) (auto simp: words_value_append)

lemma trim_words_value:
  assumes "ws \<noteq> []"
  shows "words_value (trim_words ws) = words_value ws"
    and "length (trim_words ws) \<le> 1 \<or> last (trim_words ws) \<noteq> 0"
    and "last ws = 0 \<Longrightarrow> length (trim_words ws) < length ws"
    and "last ws \<noteq> 0 \<Longrightarrow> trim_words ws = ws"
proof -
  obtain vs w where ws: "ws = vs @ [w]" using assms by (cases ws rule: rev_exhaust) auto
  have t: "trim_words ws = (if w = 0 then rev (trim_loop (rev vs)) else vs @ [w])" by (simp add: trim_words_def ws)
  note v = trim_loop_value [of "rev vs"]
  show "words_value (trim_words ws) = words_value ws" using v by (simp add: t) (simp add: ws words_value_append)
  show "length (trim_words ws) \<le> 1 \<or> last (trim_words ws) \<noteq> 0"
    using v by (cases "trim_loop (rev vs)") (auto simp: t)
  show "last ws = 0 \<Longrightarrow> length (trim_words ws) < length ws" using v by (simp add: t) (simp add: ws)
  show "last ws \<noteq> 0 \<Longrightarrow> trim_words ws = ws" by (simp add: t) (simp add: ws)
qed

text \<open>The digit is guessed from the highest words; it is at most one too small.\<close>

lemma quotient_guess:
  assumes "h = q * (t + 1) + r" and "r < t + 1" and "b = b' + B * h" and "b' < B"
    and "S = s' + B * t" and "s' < (B :: nat)"
  shows "q * S \<le> b" and "q + 1 \<le> t \<Longrightarrow> b < (q + 2) * S"
proof -
  have "S \<le> (t + 1) * B" using assms(5,6) by (simp add: algebra_simps)
  then have "q * S \<le> q * ((t + 1) * B)" by (rule mult_le_mono2)
  also have "\<dots> \<le> b" unfolding assms(1,3) by (simp add: algebra_simps)
  finally show "q * S \<le> b" .
  assume "q + 1 \<le> t"
  then have "(q + 1) * (t + 1) \<le> (q + 2) * t" by (simp add: algebra_simps)
  moreover have "h + 1 \<le> (q + 1) * (t + 1)" using assms(1,2) by (simp add: algebra_simps)
  ultimately have "(h + 1) * B \<le> (q + 2) * t * B" by (intro mult_le_mono1) (rule order_trans)
  moreover have "b < (h + 1) * B" using assms(3,4) by (simp add: algebra_simps)
  moreover have "(q + 2) * t * B \<le> (q + 2) * S" unfolding assms(5) by (simp add: algebra_simps)
  ultimately show "b < (q + 2) * S" by linarith
qed

text \<open>
  The words after a subtraction of \<open>q\<close> times \<open>S\<close>, where \<open>b\<close> and \<open>S\<close> have the same number of words.
\<close>

lemma subtract_multiple:
  assumes "length (words S) = length (words b)" and "words b \<noteq> []" and "unat q < 2 ^ 32"
    and "unat q * big_value S \<le> big_value b"
    and "ws = trim_words (quorem_loop q 0 0 (words S) (words b))"
  shows "words_value ws = big_value b - unat q * big_value S" and "proper_size (b\<lparr>words := ws\<rparr>)"
    and "length ws \<le> length (words b)"
proof -
  let ?vs = "quorem_loop q 0 0 (words S) (words b)"
  have v: "int (words_value ?vs) = (int (big_value b) - int (unat q * big_value S)) mod 2 ^ (32 * length (words b))"
    "length ?vs = length (words b)"
    using quorem_loop_value [OF assms(3,1), of 0 0] by simp_all
  then have ne: "?vs \<noteq> []" using assms(2) by auto
  show "words_value ws = big_value b - unat q * big_value S"
    using exact_difference [OF v(1) assms(4) words_value_bound] trim_words_value(1) [OF ne] assms(5) by simp
  show "proper_size (b\<lparr>words := ws\<rparr>)" using trim_words_value(2) [OF ne] assms(5) by (simp add: proper_size_def)
  show "length ws \<le> length (words b)"
    using trim_words_value(3,4) [OF ne] v(2) assms(5) by (cases "last ?vs = 0") simp_all
qed

lemma cmp_divisor:
  assumes "proper_size b" and "big_ok S" and "big_value S \<noteq> 0"
  shows "\<exists>i. cmp b S = Some i \<and> (0 \<le> i \<longleftrightarrow> big_value S \<le> big_value b)"
proof (cases "words b = []")
  case True
  then show ?thesis using assms by (auto simp: cmp_def big_ok_def Let_def)
next
  case False
  then have "big_ok b" using assms(1) by (simp add: big_ok_def)
  then show ?thesis using cmp_value [OF _ assms(2)] by (metis not_less)
qed

lemma quorem_value:
  assumes "big_ok b" and "big_ok S" and "big_value b < 10 * big_value S"
    and "length (words b) \<le> length (words S)"
    and "10 \<le> unat (last (words S))" and "last (words S) + 1 \<noteq> 0"
  shows "\<exists>c. quorem b S = Some (int (big_value b div big_value S), c) \<and>
    big_value c = big_value b mod big_value S \<and> proper_size c \<and> big_sign c = big_sign b"
proof -
  have S: "words S \<noteq> []" "words b \<noteq> []" "proper_size S" "proper_size b" using assms(1,2) by (simp_all add: big_ok_def)
  have Sval: "big_value S \<noteq> 0" using assms(3) by auto
  show ?thesis
  proof (cases "length (words b) < length (words S)")
    case True
    then have "big_value b < big_value S" using longer_is_greater [OF assms(2)] Sval by blast
    then show ?thesis using True S by (simp add: quorem_def)
  next
    case False
    then have len: "length (words S) = length (words b)" using assms(4) by simp
    obtain bs bt ss st where ends: "words b = bs @ [bt]" "words S = ss @ [st]"
      using S(1,2) by (metis append_butlast_last_id)
    let ?B = "2 ^ (32 * length bs) :: nat" and ?q = "bt div (st + 1)"
    have same: "length ss = length bs" using len ends by simp
    have st: "unat (st + 1) = unat st + 1" using assms(6) ends by (simp add: unatSuc add.commute)
    have q: "unat ?q = unat bt div (unat st + 1)" by (simp add: unat_div st)
    have h: "unat bt = unat ?q * (unat st + 1) + unat bt mod (unat st + 1)" "unat bt mod (unat st + 1) < unat st + 1"
      unfolding q by (simp_all only: div_mult_mod_eq, simp)
    have split: "big_value b = words_value bs + ?B * unat bt" "words_value bs < ?B"
      "big_value S = words_value ss + ?B * unat st" "words_value ss < ?B"
      using ends same words_value_bound [of bs] words_value_bound [of ss] by (simp_all add: words_value_append)
    note guess = quotient_guess [OF h split]
    have "unat ?q * big_value S < 10 * big_value S" using guess(1) assms(3) by (rule le_less_trans)
    then have nine: "unat ?q \<le> 9" by simp
    then have upper: "big_value b < (unat ?q + 2) * big_value S" using guess(2) assms(5) ends by simp
    have q64: "unat (ucast ?q :: u64) = unat ?q" "unat (ucast ?q :: u64) < 2 ^ 32" using nine by simp_all
    define b' where "b' = (if ?q \<noteq> 0
      then b\<lparr>words := trim_words (quorem_loop (ucast ?q) 0 0 (words S) (words b))\<rparr> else b)"
    have b': "big_value b' = big_value b - unat ?q * big_value S" "proper_size b'" "length (words b') \<le> length (words b)"
      "big_sign b' = big_sign b"
      using subtract_multiple [OF len S(2) q64(2) _ refl] guess(1) S(4) q64(1) by (auto simp: b'_def)
    obtain i where i: "cmp b' S = Some i" "0 \<le> i \<longleftrightarrow> big_value S \<le> big_value b'"
      using cmp_divisor [OF b'(2) assms(2) Sval] by blast
    have "\<not> 9 < ?q" using nine by (simp add: word_less_nat_alt)
    then have run: "quorem b S = (if 0 \<le> i
      then Some (uint ?q + 1, b'\<lparr>words := trim_words (quorem_loop1 0 0 (words S) (words b'))\<rparr>)
      else Some (uint ?q, b'))"
      using S len assms(6) i(1) ends by (simp add: quorem_def Let_def b'_def)
    have quotient: "big_value b div big_value S = k \<and> big_value b mod big_value S = big_value b - k * big_value S"
      if "k * big_value S \<le> big_value b" "big_value b < (k + 1) * big_value S" for k
    proof -
      have "big_value b div big_value S = k" using that by (intro div_nat_eqI) (simp_all add: mult.commute)
      then show ?thesis by (metis minus_div_mult_eq_mod)
    qed
    show ?thesis
    proof (cases "0 \<le> i")
      case True
      then have le: "big_value S \<le> big_value b'" using i(2) by simp
      then have len': "length (words S) = length (words b')"
        using longer_is_greater [OF assms(2), of b'] Sval b'(3) len by (cases "length (words b') < length (words S)") auto
      let ?ws = "trim_words (quorem_loop1 0 0 (words S) (words b'))"
      have "words b' \<noteq> []" using len' S(1) by auto
      then have "words_value ?ws = big_value b' - big_value S" "proper_size (b'\<lparr>words := ?ws\<rparr>)"
        using subtract_multiple [OF len', of 1] le by (simp_all add: quorem_loop_one)
      moreover have "big_value b div big_value S = unat ?q + 1 \<and>
          big_value b mod big_value S = big_value b - (unat ?q + 1) * big_value S"
        using quotient [of "unat ?q + 1"] upper guess(1) le b'(1) by (simp add: algebra_simps)
      ultimately show ?thesis using run True b'(1,4) by simp
    next
      case False
      then have "big_value b' < big_value S" using i(2) by simp
      then have "big_value b div big_value S = unat ?q \<and> big_value b mod big_value S = big_value b - unat ?q * big_value S"
        using quotient [of "unat ?q"] guess(1) b'(1) by simp
      then show ?thesis using run False b' by simp
    qed
  qed
qed

text \<open>A divisor whose highest word has been shifted into the range of one digit.\<close>

lemma divisor_words:
  assumes "big_ok S" and "unat (last (words S)) < 2 ^ 28" and "big_value b < 10 * big_value S" and "big_ok b"
    and "big_value b \<noteq> 0"
  shows "length (words b) \<le> length (words S)"
proof (rule ccontr)
  assume long: "\<not> ?thesis"
  obtain ss st where S: "words S = ss @ [st]" using assms(1) by (metis append_butlast_last_id big_ok_def)
  let ?B = "2 ^ (32 * length ss) :: nat"
  have "big_value S < ?B * 2 ^ 28"
    using S assms(2) words_value_bound [of ss] high_word_decides [of "words_value ss" ?B 0 "unat st" "2 ^ 28"]
    by (simp add: words_value_append)
  then have "big_value b < ?B * 2 ^ 32" using assms(3) by simp
  also have "\<dots> = 2 ^ (32 * length (words S))" using S by (simp add: power_add)
  also have "\<dots> \<le> 2 ^ (32 * (length (words b) - 1))" using long by (intro power_increasing) simp_all
  also have "\<dots> \<le> big_value b"
    using assms(4,5) proper_size_iff [of b] by (auto simp: big_ok_def le_Suc_eq Suc_le_eq)
  finally show False by simp
qed

lemma quorem_normalized:
  assumes "big_ok b" and "big_ok S" and "big_value b \<noteq> 0" and "big_value b < 10 * big_value S"
    and "10 \<le> unat (last (words S))" and "unat (last (words S)) < 2 ^ 28"
  shows "\<exists>c. quorem b S = Some (int (big_value b div big_value S), c) \<and>
    big_value c = big_value b mod big_value S \<and> proper_size c \<and> big_sign c = big_sign b"
proof -
  have "last (words S) + 1 \<noteq> 0"
  proof
    assume "last (words S) + 1 = 0"
    then have "last (words S) = - 1" by (simp add: eq_neg_iff_add_eq_0)
    then show False using assms(6) by (simp add: unsigned_minus_1_eq_mask mask_eq_exp_minus_1)
  qed
  then show ?thesis
    using quorem_value [OF assms(1,2,4)] divisor_words [OF assms(2,6,4,1,3)] assms(5) by blast
qed

end
