(* ===== verification/BigIntPrograms.thy ===== *)
theory BigIntPrograms
  imports BigIntProps
begin

text \<open>
  The contract of \<open>BigInt\<close> as a refinement: a sequence of operations on variables that hold big
  integers does what the same sequence does on natural numbers. \<open>strtod\<close> and \<open>dtoa\<close> are such
  sequences.
\<close>

subsection \<open>Sequences of operations\<close>

datatype bigop =
    FromInt nat int
  | FromDigits nat "int list" "int list"
  | MulAdd nat int int
  | Mul nat nat
  | MulPow5 nat nat
  | ShiftLeft nat nat
  | Subtract nat nat nat
  | Compare nat nat
  | Digit nat nat

text \<open>
  On the code: the variables and the list of computed powers of five. The results that the callers
  look at are the sign of a comparison, the sign of a difference and the digit of a division.
\<close>

type_synonym big_state = "(nat \<Rightarrow> bigint) \<times> bigint list"

definition nine_digits :: "int list \<Rightarrow> u32" where
  "nine_digits cs = of_nat (digits_value 0 (take 9 cs))"

fun big_op :: "bigop \<Rightarrow> big_state \<Rightarrow> (big_state \<times> int list) option" where
  "big_op (FromInt r i) (v, p) = Some ((v(r := i2b i), p), [])"
| "big_op (FromDigits r ds es) (v, p) =
    map_option (\<lambda>b. ((v(r := b), p), []))
      (s2b (ds @ [46] @ es) (length ds) (length ds + length es) (nine_digits (ds @ es)))"
| "big_op (MulAdd r m a) (v, p) = map_option (\<lambda>b. ((v(r := b), p), [])) (multadd m a (v r))"
| "big_op (Mul r s) (v, p) = Some ((v(r := mult (v r) (v s)), p), [])"
| "big_op (MulPow5 r k) (v, p) = map_option (\<lambda>(b, q). ((v(r := b), q), [])) (pow5mult k p (v r))"
| "big_op (ShiftLeft r k) (v, p) = map_option (\<lambda>b. ((v(r := b), p), [])) (lshift k (v r))"
| "big_op (Subtract r s t) (v, p) =
    map_option (\<lambda>b. ((v(r := b), p), [big_sign b])) (diff (v s) (v t))"
| "big_op (Compare r s) (v, p) = map_option (\<lambda>i. ((v, p), [sgn i])) (cmp (v r) (v s))"
| "big_op (Digit r s) (v, p) = map_option (\<lambda>(q, b). ((v(r := b), p), [q])) (quorem (v r) (v s))"

fun big_run :: "bigop list \<Rightarrow> big_state \<Rightarrow> (big_state \<times> int list) option" where
  "big_run [] s = Some (s, [])"
| "big_run (op # ops) s =
    Option.bind (big_op op s) (\<lambda>(s', out). map_option (\<lambda>(t, outs). (t, out @ outs)) (big_run ops s'))"

text \<open>On natural numbers.\<close>

fun nat_op :: "bigop \<Rightarrow> (nat \<Rightarrow> nat) \<Rightarrow> (nat \<Rightarrow> nat) \<times> int list" where
  "nat_op (FromInt r i) v = (v(r := nat i), [])"
| "nat_op (FromDigits r ds es) v = (v(r := digits_value 0 (ds @ es)), [])"
| "nat_op (MulAdd r m a) v = (v(r := v r * nat m + nat a), [])"
| "nat_op (Mul r s) v = (v(r := v r * v s), [])"
| "nat_op (MulPow5 r k) v = (v(r := v r * 5 ^ k), [])"
| "nat_op (ShiftLeft r k) v = (v(r := v r * 2 ^ k), [])"
| "nat_op (Subtract r s t) v =
    (v(r := (if v s < v t then v t - v s else v s - v t)), [if v s < v t then 1 else 0])"
| "nat_op (Compare r s) v = (v, [if v r < v s then - 1 else if v r = v s then 0 else 1])"
| "nat_op (Digit r s) v = (v(r := v r mod v s), [int (v r div v s)])"

fun nat_run :: "bigop list \<Rightarrow> (nat \<Rightarrow> nat) \<Rightarrow> (nat \<Rightarrow> nat) \<times> int list" where
  "nat_run [] v = (v, [])"
| "nat_run (op # ops) v =
    (let (v', out) = nat_op op v; (w, outs) = nat_run ops v' in (w, out @ outs))"

text \<open>
  What a caller has to respect. The factors fit into an \<open>int\<close>, numbers that are operands are not 0,
  a quotient has one digit and the divisor has been shifted so that its highest word is neither
  small nor close to overflow.
\<close>

fun high_word :: "nat \<Rightarrow> nat" where
  "high_word v = (if v < 2 ^ 32 then v else high_word (v div 2 ^ 32))"

declare high_word.simps [simp del]

fun op_allowed :: "bigop \<Rightarrow> (nat \<Rightarrow> nat) \<Rightarrow> bool" where
  "op_allowed (FromInt r i) v \<longleftrightarrow> 0 \<le> i \<and> i < 2 ^ 31"
| "op_allowed (FromDigits r ds es) v \<longleftrightarrow> list_all (\<lambda>c. 48 \<le> c \<and> c < 58) (ds @ es)"
| "op_allowed (MulAdd r m a) v \<longleftrightarrow> v r \<noteq> 0 \<and> 0 < m \<and> m < 2 ^ 31 \<and> 0 \<le> a \<and> a < 2 ^ 31"
| "op_allowed (Mul r s) v \<longleftrightarrow> v r \<noteq> 0 \<and> v s \<noteq> 0"
| "op_allowed (MulPow5 r k) v \<longleftrightarrow> v r \<noteq> 0"
| "op_allowed (ShiftLeft r k) v \<longleftrightarrow> v r \<noteq> 0"
| "op_allowed (Subtract r s t) v \<longleftrightarrow> v s \<noteq> 0 \<and> v t \<noteq> 0"
| "op_allowed (Compare r s) v \<longleftrightarrow> v s \<noteq> 0"
| "op_allowed (Digit r s) v \<longleftrightarrow>
     v r \<noteq> 0 \<and> v r < 10 * v s \<and> 10 \<le> high_word (v s) \<and> high_word (v s) < 2 ^ 28"

fun run_allowed :: "bigop list \<Rightarrow> (nat \<Rightarrow> nat) \<Rightarrow> bool" where
  "run_allowed [] v \<longleftrightarrow> True"
| "run_allowed (op # ops) v \<longleftrightarrow> op_allowed op v \<and> run_allowed ops (fst (nat_op op v))"

subsection \<open>Refinement\<close>

definition represents :: "big_state \<Rightarrow> (nat \<Rightarrow> nat) \<Rightarrow> bool" where
  "represents s v \<longleftrightarrow>
     (\<forall>r. big_value (fst s r) = v r \<and> proper_size (fst s r)) \<and> p5s_ok (snd s)"

lemma represents_update:
  assumes "represents (v, p) w" and "big_value b = n" and "proper_size b" and "p5s_ok q"
  shows "represents (v(r := b), q) (w(r := n))"
  using assms by (simp add: represents_def)

lemma big_ok_not_zero: "proper_size b \<Longrightarrow> big_value b \<noteq> 0 \<Longrightarrow> big_ok b"
  by (auto simp: big_ok_def)

lemma high_word_last:
  assumes "big_ok b" and "big_value b \<noteq> 0"
  shows "high_word (big_value b) = unat (last (words b))"
proof -
  have "last ws \<noteq> 0 \<Longrightarrow> ws \<noteq> [] \<Longrightarrow> high_word (words_value ws) = unat (last ws)" for ws
  proof (induction ws)
    case (Cons w ws)
    show ?case
    proof (cases "ws = []")
      case True
      then show ?thesis using u32_bound [of w] by (simp add: high_word.simps)
    next
      case False
      then have "1 \<le> words_value ws" using Cons.prems last_nonzero_iff [OF False] by (simp add: Suc_le_eq) (metis less_le_trans zero_less_numeral zero_less_power)
      then have "2 ^ 32 \<le> words_value (w # ws)" by simp
      moreover have "words_value (w # ws) div 2 ^ 32 = words_value ws" using u32_bound [of w] by simp
      ultimately have "high_word (words_value (w # ws)) = high_word (words_value ws)"
        by (subst high_word.simps) (simp only: not_less [symmetric] if_False)
      then show ?thesis using Cons False by simp
    qed
  qed simp
  moreover have "last (words b) \<noteq> 0"
    using assms by (cases "words b" rule: rev_cases) (auto simp: big_ok_def proper_size_def le_Suc_eq)
  ultimately show ?thesis using assms(1) by (simp add: big_ok_def)
qed

lemma big_op_refines:
  assumes "represents (v, p) w" and "op_allowed op w"
  shows "\<exists>s'. big_op op (v, p) = Some (s', snd (nat_op op w)) \<and> represents s' (fst (nat_op op w))"
proof -
  have val: "big_value (v r) = w r" "proper_size (v r)" "p5s_ok p" for r using assms(1) by (simp_all add: represents_def)
  have ok: "big_ok (v r)" if "w r \<noteq> 0" for r using big_ok_not_zero [of "v r"] val that by simp
  note update = represents_update [OF assms(1)]
  show ?thesis
  proof (cases op)
    case (FromInt r i)
    then have "big_value (i2b i) = nat i" using assms(2) by (simp add: i2b_def unsigned_of_int take_bit_int_eq_self)
    then show ?thesis using update FromInt val(3) by (simp add: i2b_def proper_size_def)
  next
    case (FromDigits r ds es)
    then obtain b where "s2b (ds @ [46] @ es) (length ds) (length ds + length es) (nine_digits (ds @ es)) = Some b"
      "big_value b = digits_value 0 (ds @ es)" "big_ok b"
      using s2b_value [of ds es _ "[46]" "[]", OF _ _ _ nine_digits_def] assms(2) by auto
    then show ?thesis using update FromDigits val(3) by (simp add: big_ok_def)
  next
    case (MulAdd r m a)
    then obtain b where "multadd m a (v r) = Some b" "big_value b = w r * nat m + nat a" "proper_size b"
      using multadd_value [of "v r" m a] assms(2) val(1,2) [of r] ok [of r] by (auto simp: big_ok_def)
    then show ?thesis using update MulAdd val(3) by simp
  next
    case (Mul r s)
    then have "big_value (mult (v r) (v s)) = w r * w s" "proper_size (mult (v r) (v s))"
      using mult_value [of "v r" "v s"] mult_ok [of "v r" "v s"] assms(2) val(1) by (simp_all add: big_ok_def)
    then show ?thesis using update Mul val(3) by simp
  next
    case (MulPow5 r k)
    then obtain b q where "pow5mult k p (v r) = Some (b, q)" "p5s_ok q" "big_ok b" "big_value b = w r * 5 ^ k"
      using pow5mult_value [OF val(3) ok [of r], of k] assms(2) val(1) [of r] by auto
    then show ?thesis using update MulPow5 by (simp add: big_ok_def)
  next
    case (ShiftLeft r k)
    then obtain b where "lshift k (v r) = Some b" "big_ok b" "big_value b = w r * 2 ^ k"
      using lshift_value [OF ok [of r], of k] assms(2) val(1) [of r] by auto
    then show ?thesis using update ShiftLeft val(3) by (simp add: big_ok_def)
  next
    case (Subtract r s t)
    then obtain b where "diff (v s) (v t) = Some b" "big_ok b" "big_value b = (if w s < w t then w t - w s else w s - w t)"
      "big_sign b = (if w s < w t then 1 else 0)"
      using diff_value [OF ok [of s] ok [of t]] assms(2) val(1) Subtract by auto
    then show ?thesis using update Subtract val(3) by (simp add: big_ok_def nat_diff_distrib')
  next
    case (Compare r s)
    show ?thesis
    proof (cases "w r = 0")
      case True
      then obtain i where "cmp (v r) (v s) = Some i" "0 \<le> i \<longleftrightarrow> w s \<le> w r"
        using cmp_divisor [OF val(2) [of r] ok [of s]] Compare assms(2) val(1) by auto
      then show ?thesis using Compare True assms by (auto simp: sgn_if)
    next
      case False
      then obtain i where "cmp (v r) (v s) = Some i" "i < 0 \<longleftrightarrow> w r < w s" "i = 0 \<longleftrightarrow> w r = w s"
        using cmp_value [OF ok [of r] ok [of s]] Compare assms(2) val(1) by auto
      then show ?thesis using Compare assms(1) by (auto simp: sgn_if)
    qed
  next
    case (Digit r s)
    have s: "w s \<noteq> 0" "w r \<noteq> 0" "w r < 10 * w s" using Digit assms(2) by (auto intro: Nat.gr0I)
    then have high: "unat (last (words (v s))) = high_word (w s)"
      using high_word_last [OF ok [of s]] val(1) by simp
    then have bounds: "10 \<le> unat (last (words (v s)))" "unat (last (words (v s))) < 2 ^ 28"
      using Digit assms(2) by simp_all
    obtain b where "quorem (v r) (v s) = Some (int (w r div w s), b)" "big_value b = w r mod w s" "proper_size b"
      using quorem_normalized [OF ok [of r] ok [of s] _ _ bounds] s val(1) by auto
    then show ?thesis using update Digit val(3) by simp
  qed
qed

lemma big_run_refines:
  "represents s w \<Longrightarrow> run_allowed ops w \<Longrightarrow>
     \<exists>s'. big_run ops s = Some (s', snd (nat_run ops w)) \<and> represents s' (fst (nat_run ops w))"
proof (induction ops arbitrary: s w)
  case (Cons op ops)
  obtain s' where s': "big_op op s = Some (s', snd (nat_op op w))" "represents s' (fst (nat_op op w))"
    using big_op_refines [of "fst s" "snd s" w op] Cons.prems by auto
  then obtain t where "big_run ops s' = Some (t, snd (nat_run ops (fst (nat_op op w))))"
    "represents t (fst (nat_run ops (fst (nat_op op w))))"
    using Cons.IH Cons.prems(2) by (metis run_allowed.simps(2))
  then show ?case using s' by (simp add: case_prod_beta)
qed simp

text \<open>
  C9. Big integers compute with natural numbers: every sequence of operations that respects the
  conditions runs without a failed assertion or an access outside the words, each variable holds
  the number it should, without leading zero words, and the digits and signs are those of the numbers.
\<close>

theorem big_run_computes:
  assumes "run_allowed ops (\<lambda>_. 0)"
  shows "\<exists>v p5s. big_run ops (\<lambda>_. BigInt_ctor, []) = Some ((v, p5s), snd (nat_run ops (\<lambda>_. 0))) \<and>
    (\<forall>r. big_value (v r) = fst (nat_run ops (\<lambda>_. 0)) r \<and> proper_size (v r))"
proof -
  have "represents (\<lambda>_. BigInt_ctor, []) (\<lambda>_. 0)"
    by (simp add: represents_def BigInt_ctor_def proper_size_def p5s_ok_def)
  from big_run_refines [OF this assms] show ?thesis by (fastforce simp: represents_def)
qed

text \<open>The first digits of \<open>10 ^ 30 / 7\<close>, scaled by powers of two as \<open>dtoa\<close> does.\<close>

definition sample_division :: "bigop list" where
  "sample_division =
    [FromInt 0 1, MulPow5 0 30, ShiftLeft 0 34, FromInt 1 7, MulPow5 1 29, ShiftLeft 1 33] @
    [Compare 0 1, Digit 0 1, MulAdd 0 10 0, Digit 0 1, MulAdd 0 10 0, Digit 0 1]"

lemma nat_run_append:
  "nat_run (xs @ ys) v =
    (let (w, out) = nat_run xs v; (u, outs) = nat_run ys w in (u, out @ outs))"
  by (induction xs arbitrary: v) (simp_all add: case_prod_beta Let_def)

lemma sample_numbers:
  "nat_run [FromInt 0 1, MulPow5 0 30, ShiftLeft 0 34, FromInt 1 7, MulPow5 1 29, ShiftLeft 1 33] (\<lambda>_. 0)
    = ((\<lambda>_. 0)(0 := 5 ^ 30 * 2 ^ 34, 1 := 7 * (5 ^ 29 * 2 ^ 33)), [])"
  by (simp add: fun_upd_twist)

theorem big_run_computes_witness:
  "run_allowed sample_division (\<lambda>_. 0) \<and>
   (\<exists>v p5s. big_run sample_division (\<lambda>_. BigInt_ctor, []) = Some ((v, p5s), [1, 1, 4, 2]) \<and>
     big_value (v 0) = 6 * (5 ^ 29 * 2 ^ 33))"
proof -
  have high: "high_word (7 * 5 ^ 29 * 2 ^ 33) = 141"
    by (subst high_word.simps, simp, subst high_word.simps, simp, subst high_word.simps, simp, subst high_word.simps, simp)
  have ok: "run_allowed sample_division (\<lambda>_. 0)"
    using high by (simp add: sample_division_def)
  have "snd (nat_run sample_division (\<lambda>_. 0)) = [1, 1, 4, 2]"
    unfolding sample_division_def nat_run_append sample_numbers by simp
  moreover have "fst (nat_run sample_division (\<lambda>_. 0)) 0 = 6 * (5 ^ 29 * 2 ^ 33)"
    unfolding sample_division_def nat_run_append sample_numbers by simp
  ultimately show ?thesis using big_run_computes [OF ok] ok by metis
qed

end
