(* ===== verification/Dtoa.thy ===== *)
theory Dtoa
  imports BigInt "HOL-Library.Log_Nat"
begin

text \<open>
  The conversion of a double to decimal digits, \<open>dtoa\<close> in \<open>wtf/dtoa.cpp\<close>, and to the text that
  JavaScript shows, \<open>doubleToStringInJavaScriptFormat\<close>. \<open>dtoa\<close> sets \<open>ndigits\<close> to 0 and \<open>ilim\<close> to -1 itself,
  so that it always looks for the shortest digits; the code for other modes is never reached.
\<close>

subsection \<open>Doubles\<close>

abbreviation (input) word0 :: "dbits \<Rightarrow> u32" where "word0 \<equiv> fst"
abbreviation (input) word1 :: "dbits \<Rightarrow> u32" where "word1 \<equiv> snd"

text \<open>The number that a finite double without its sign stands for: \<open>significand * 2 powi exponent\<close>.\<close>

definition biased :: "dbits \<Rightarrow> nat" where
  "biased d = unat (drop_bit 20 (word0 d AND 0x7ff00000))"

definition fraction :: "dbits \<Rightarrow> nat" where
  "fraction d = unat (word0 d AND 0xfffff) * 2 ^ 32 + unat (word1 d)"

definition significand :: "dbits \<Rightarrow> nat" where
  "significand d = (if biased d = 0 then fraction d else 2 ^ 52 + fraction d)"

definition exponent :: "dbits \<Rightarrow> int" where
  "exponent d = int (max 1 (biased d)) - 1075"

definition double_value :: "dbits \<Rightarrow> rat" where
  "double_value d = of_nat (significand d) * 2 powi exponent d"

text \<open>
  Double arithmetic: the exact result, rounded to 53 bits. A tie goes to the even neighbour.
\<close>

definition ilog2 :: "rat \<Rightarrow> int" where
  "ilog2 x =
    (let (p, q) = quotient_of x; t = bitlen p - bitlen q in if 2 powi t \<le> x then t else t - 1)"

definition round_even :: "rat \<Rightarrow> int" where
  "round_even x =
    (let n = \<lfloor>x\<rfloor>; r = x - of_int n in
     if r < 1 / 2 then n else if 1 / 2 < r then n + 1 else if even n then n else n + 1)"

definition rounded :: "rat \<Rightarrow> rat" where
  "rounded x =
    (if x = 0 then 0
     else let u = 2 powi (ilog2 \<bar>x\<bar> - 52) in of_int (round_even (x / u)) * u)"

subsection \<open>The estimate of the decimal exponent\<close>

text \<open>
  The double \<open>d2\<close> between 1 and 2 and the exponent \<open>i\<close> of a double. \<open>d\<close> has no sign, \<open>be\<close> and \<open>bbits\<close>
  come from \<open>d2b\<close>. The third component is \<open>denorm\<close>.
\<close>

definition split_double :: "dbits \<Rightarrow> int \<Rightarrow> int \<Rightarrow> rat \<times> int \<times> bool" where
  "split_double d be bbits =
    (let i = uint (drop_bit 20 (word0 d)) in
     if i \<noteq> 0 then (double_value ((word0 d AND 0xfffff) OR 0x3ff00000, word1 d), i - 1023, False)
     else
       let i = bbits + be + 1074;
           x = (if 32 < i
                then push_bit (nat (64 - i)) (word0 d) OR drop_bit (nat (i - 32)) (word1 d)
                else push_bit (nat (32 - i)) (word1 d))
       in (of_nat (unat x) / 2 ^ 31, i - 1075, True))"

definition log10_estimate :: "rat \<Rightarrow> int \<Rightarrow> rat" where
  "log10_estimate d2 i =
    rounded (rounded (rounded (rounded (d2 - 3 / 2) * rounded (289529654602168 / 10 ^ 15)) +
        rounded (1760912590558 / 10 ^ 13)) +
      rounded (of_int i * rounded (301029995663981 / 10 ^ 15)))"

text \<open>
  The estimate of the exponent of the first digit, and whether it still has to be checked. The
  powers of ten in \<open>tens\<close>, up to \<open>10 ^ 22\<close>, are doubles.
\<close>

definition estimate_k :: "dbits \<Rightarrow> rat \<Rightarrow> int \<Rightarrow> int \<times> bool" where
  "estimate_k d d2 i =
    (let k = \<lfloor>log10_estimate d2 i\<rfloor> in
     if 0 \<le> k \<and> k \<le> 22
     then (if double_value d < 10 ^ nat k then k - 1 else k, False)
     else (k, True))"

subsection \<open>Small integers\<close>

text \<open>
  The digits of an integer below \<open>10 ^ 15\<close>, with \<open>ds\<close> the power of ten of the first digit. All values
  are integers below \<open>2 ^ 53\<close>, on which double arithmetic is exact, and so is the truncated
  quotient, whose fraction is 0 or farther from 1 than a rounding error.
\<close>

partial_function (option) small_digits :: "nat \<Rightarrow> int list \<Rightarrow> nat \<Rightarrow> int list option" where
  "small_digits ds s u =
    (let s = s @ [48 + int (u div ds)]; u = u mod ds in
     if u = 0 then Some s else small_digits ds s (u * 10))"

declare small_digits.simps [code]

subsection \<open>Digits from quotients of big integers\<close>

text \<open>
  The last digit is incremented, with a carry over nines. The second component is what is added to the
  exponent \<open>k\<close>.
\<close>

definition roundoff :: "int list \<Rightarrow> int list \<times> int" where
  "roundoff s =
    (case dropWhile (\<lambda>c. c = 57) (rev s) of
       [] \<Rightarrow> ([49], 1)
     | c # cs \<Rightarrow> (rev ((c + 1) # cs), 0))"

text \<open>
  \<open>words()[0]\<close>. Only \<open>quorem\<close> leaves a number without words, when the only word of its
  remainder is 0; that word is still in the buffer of the vector.
\<close>

definition first_word :: "bigint \<Rightarrow> u32" where
  "first_word b = (case words b of [] \<Rightarrow> 0 | w # _ \<Rightarrow> w)"

text \<open>
  The loop that looks for the shortest digits between \<open>b - mlo\<close> and \<open>b + mhi\<close>, all divided by
  \<open>S\<close>; \<open>s\<close> are the digits so far. The bounds themselves count if the significand is even.
\<close>

partial_function (option) shortest_digits ::
  "bigint \<Rightarrow> bool \<Rightarrow> int list \<Rightarrow> bigint \<Rightarrow> bigint \<Rightarrow> bigint \<Rightarrow> (int list \<times> int) option" where
  "shortest_digits S ties s b mlo mhi =
    Option.bind (quorem b S) (\<lambda>(q, b).
    Option.bind (cmp b mlo) (\<lambda>j.
    Option.bind (diff S mhi) (\<lambda>delta.
    Option.bind (if big_sign delta \<noteq> 0 then Some 1 else cmp b delta) (\<lambda>j1.
    let dig = q + 48 in
    if j1 = 0 \<and> ties then
      Some (if dig = 57 then roundoff (s @ [57]) else (s @ [if 0 < j then dig + 1 else dig], 0))
    else if j < 0 \<or> j = 0 \<and> ties then
      if first_word b = 0 \<and> length (words b) \<le> 1 then Some (s @ [dig], 0)
      else if 0 < j1 then
        Option.bind (lshift 1 b) (\<lambda>b.
        Option.bind (cmp b S) (\<lambda>j1.
          Some (if 0 < j1 \<or> j1 = 0 \<and> odd dig
                then if dig = 57 then roundoff (s @ [57]) else (s @ [dig + 1], 0)
                else (s @ [dig], 0))))
      else Some (s @ [dig], 0)
    else if 0 < j1 then
      Some (if dig = 57 then roundoff (s @ [57]) else (s @ [dig + 1], 0))
    else
      Option.bind (multadd 10 0 b) (\<lambda>b.
      Option.bind (multadd 10 0 mlo) (\<lambda>mlo.
      Option.bind (multadd 10 0 mhi) (\<lambda>mhi. shortest_digits S ties (s @ [dig]) b mlo mhi)))))))"

declare shortest_digits.simps [code]

text \<open>
  The powers of 2 and 5 of the quotient: \<open>b * 2 ^ b2 * 5 ^ b5\<close> by \<open>2 ^ s2 * 5 ^ s5\<close>, and of
  half a unit in the last place, \<open>2 ^ m2 * 5 ^ b5\<close>, with common powers of 2 removed.
\<close>

record scaling =
  b2 :: int
  b5 :: int
  m2 :: int
  s2 :: int
  s5 :: int

definition initial_scale :: "int \<Rightarrow> int \<Rightarrow> int \<Rightarrow> int \<times> int \<times> int \<times> int" where
  "initial_scale bbits i k =
    (let j = bbits - i - 1;
         (b2, s2) = (if 0 \<le> j then (0, j) else (- j, 0))
     in if 0 \<le> k then (b2, 0, s2 + k, k) else (b2 - k, - k, s2, 0))"

definition scale :: "int \<Rightarrow> int \<Rightarrow> int \<Rightarrow> int \<Rightarrow> bool \<Rightarrow> scaling" where
  "scale be bbits i k denorm =
    (let (b2, b5, s2, s5) = initial_scale bbits i k;
         m2 = b2;
         i = (if denorm then be + 1075 else 54 - bbits);
         b2 = b2 + i; s2 = s2 + i;
         i = (if 0 < m2 \<and> 0 < s2 then min m2 s2 else 0)
     in \<lparr>b2 = b2 - i, b5 = b5, m2 = m2 - i, s2 = s2 - i, s5 = s5\<rparr>)"

text \<open>A shift for all numbers after which the highest word of \<open>S\<close> has four leading zero bits.\<close>

definition alignment :: "scaling \<Rightarrow> bigint \<Rightarrow> int" where
  "alignment sc S =
    (let i = ((if s5 sc \<noteq> 0 then 32 - hi0bits (last (words S)) else 1) + s2 sc) mod 32;
         i = (if i \<noteq> 0 then 32 - i else 0)
     in if 4 < i then i - 4 else if i < 4 then i + 28 else 0)"

text \<open>\<open>d\<close> is a normalized power of 2, so that its lower neighbour is only half as far.\<close>

definition spec_case :: "dbits \<Rightarrow> bool" where
  "spec_case d \<longleftrightarrow> word1 d = 0 \<and> word0 d AND 0xfffff = 0 \<and> word0 d AND 0x7fe00000 \<noteq> 0"

definition lshift_pos :: "int \<Rightarrow> bigint \<Rightarrow> bigint option" where
  "lshift_pos k b = (if 0 < k then lshift (nat k) b else Some b)"

text \<open>
  The numbers for the loop. The result is \<open>k\<close>, \<open>b\<close>, \<open>S\<close>, \<open>mlo\<close>, \<open>mhi\<close> and the list of powers of five.
\<close>

definition prepare ::
  "scaling \<Rightarrow> int \<Rightarrow> bool \<Rightarrow> bool \<Rightarrow> bigint list \<Rightarrow> bigint \<Rightarrow>
    (int \<times> bigint \<times> bigint \<times> bigint \<times> bigint \<times> bigint list) option" where
  "prepare sc k k_check special p5s b =
    Option.bind
      (if 0 < b5 sc
       then map_option (\<lambda>(mhi, p5s). (mhi, mult b mhi, p5s)) (pow5mult (nat (b5 sc)) p5s (i2b 1))
       else Some (i2b 1, b, p5s)) (\<lambda>(mhi, b, p5s).
    Option.bind (if 0 < s5 sc then pow5mult (nat (s5 sc)) p5s (i2b 1) else Some (i2b 1, p5s)) (\<lambda>(S, p5s).
    let sc = (if special then sc\<lparr>b2 := b2 sc + 1, s2 := s2 sc + 1\<rparr> else sc); i = alignment sc S in
    Option.bind (lshift_pos (b2 sc + i) b) (\<lambda>b.
    Option.bind (lshift_pos (s2 sc + i) S) (\<lambda>S.
    Option.bind (if k_check then cmp b S else Some 0) (\<lambda>less.
    Option.bind (if less < 0 then multadd 10 0 b else Some b) (\<lambda>b.
    Option.bind (if less < 0 then multadd 10 0 mhi else Some mhi) (\<lambda>mhi.
    Option.bind (lshift_pos (m2 sc + i) mhi) (\<lambda>mlo.
    Option.bind (if special then lshift 1 mlo else Some mlo) (\<lambda>mhi.
      Some (if less < 0 then k - 1 else k, b, S, mlo, mhi, p5s))))))))))"

text \<open>The result is the text of the digits, \<open>decpt\<close> and \<open>sign\<close>, with the list of powers of five.\<close>

definition dtoa :: "dbits \<Rightarrow> bigint list \<Rightarrow> ((int list \<times> int \<times> int) \<times> bigint list) option" where
  "dtoa dd p5s =
    (let (u, sgn) = (if word0 dd AND 0x80000000 \<noteq> 0 then ((word0 dd AND 0x7fffffff, word1 dd), 1) else (dd, 0)) in
     if word0 u AND 0x7ff00000 = 0x7ff00000 then
       Some ((if word1 u = 0 \<and> word0 u AND 0xfffff = 0
              then map of_char ''Infinity'' else map of_char ''NaN'', 9999, sgn), p5s)
     else if word0 u AND 0x7fffffff = 0 \<and> word1 u = 0 then Some (([48], 1, sgn), p5s)
     else
       let (u, b, be, bbits) = d2b u;
           (d2, i, denorm) = split_double u be bbits;
           (k, k_check) = estimate_k u d2 i
       in if 0 \<le> be \<and> k \<le> 14 then
            if k < 0 then None
            else map_option (\<lambda>s. ((s, k + 1, sgn), p5s))
              (small_digits (10 ^ nat k) [] (nat \<lfloor>double_value u\<rfloor>))
          else
            Option.bind (prepare (scale be bbits i k denorm) k k_check (spec_case u) p5s b)
              (\<lambda>(k, b, S, mlo, mhi, p5s).
            map_option (\<lambda>(s, carry). ((s, k + carry + 1, sgn), p5s))
              (shortest_digits S (word1 u AND 1 = 0) [] b mlo mhi)))"

end
