(* ===== verification/DoubleBits.thy ===== *)
theory DoubleBits
  imports BigIntProps Dtoa
begin

text \<open>
  The bit operations of \<open>dtoa.cpp\<close>: \<open>hi0bits\<close> and \<open>lo0bits\<close> count zero bits, and \<open>d2b\<close> takes a double
  apart into an odd integer and a power of 2.
\<close>

subsection \<open>Leading zero bits\<close>

lemma high_bits_clear: "(x :: u32) AND NOT (mask n) = 0 \<longleftrightarrow> unat x < 2 ^ n"
proof -
  have "x AND NOT (mask n) = 0 \<longleftrightarrow> take_bit n x = x"
    by (auto simp: bit_eq_iff bit_simps)
  also have "\<dots> \<longleftrightarrow> take_bit n (unat x) = unat x" by (metis unsigned_take_bit_eq unsigned_word_eqI)
  finally show ?thesis by (simp add: take_bit_nat_eq_self_iff)
qed

definition hi_step :: "nat \<Rightarrow> int \<times> u32 \<Rightarrow> int \<times> u32" where
  "hi_step n = (\<lambda>(k, y). if y AND NOT (mask (32 - n)) = 0 then (k + int n, push_bit n y) else (k, y))"

lemma hi_step_value:
  assumes "unat y = v * 2 ^ nat k" and "0 \<le> k" and "0 < n" and "2 ^ (32 - 2 * n) \<le> unat y" and "n \<le> 16"
  obtains k' y' where "hi_step n (k, y) = (k', y')" "unat y' = v * 2 ^ nat k'" "0 \<le> k'" "2 ^ (32 - n) \<le> unat y'"
proof (cases "unat y < 2 ^ (32 - n)")
  case True
  then have "unat y * 2 ^ n < 2 ^ (32 - n) * 2 ^ n" by simp
  then have fits: "unat y * 2 ^ n < 2 ^ 32" using assms(5) by (simp flip: power_add)
  have "2 ^ (32 - 2 * n) * 2 ^ n \<le> unat y * 2 ^ n" using assms(4) by simp
  then have "2 ^ (32 - n) \<le> unat y * 2 ^ n" using assms(5) by (simp flip: power_add)
  moreover have "unat (push_bit n y) = unat y * 2 ^ n" using fits by (simp add: unat_shift_left)
  moreover have "unat y * 2 ^ n = v * 2 ^ nat (k + int n)" using assms(1,2) by (simp add: nat_add_distrib power_add)
  ultimately show ?thesis using that [of "k + int n" "push_bit n y"] True assms(2) by (simp add: hi_step_def high_bits_clear)
next
  case False
  then show ?thesis using that [of k y] assms by (simp add: hi_step_def high_bits_clear)
qed

lemma hi0bits_steps:
  "hi0bits x =
    (let (k, y) = hi_step 2 (hi_step 4 (hi_step 8 (hi_step 16 (0, x))))
     in if y AND 0x80000000 = 0 then (if y AND 0x40000000 = 0 then 32 else k + 1) else k)"
proof -
  have "NOT (mask (32 - 16)) = (0xffff0000 :: u32)" "NOT (mask (32 - 8)) = (0xff000000 :: u32)"
    "NOT (mask (32 - 4)) = (0xf0000000 :: u32)" "NOT (mask (32 - 2)) = (0xc0000000 :: u32)"
    by (simp_all add: mask_eq_exp_minus_1)
  then show ?thesis unfolding hi0bits_def hi_step_def by (simp add: Let_def split: prod.splits)
qed

lemma hi0bits_value:
  assumes "x \<noteq> 0"
  shows "0 \<le> hi0bits x \<and> 2 ^ 31 \<le> unat x * 2 ^ nat (hi0bits x) \<and> unat x * 2 ^ nat (hi0bits x) < 2 ^ 32"
proof -
  have start: "2 ^ (32 - 2 * 16) \<le> unat x" using assms by (simp add: Suc_le_eq unat_gt_0)
  obtain k1 y1 where 1: "hi_step 16 (0, x) = (k1, y1)" "unat y1 = unat x * 2 ^ nat k1" "0 \<le> k1" "2 ^ (32 - 16) \<le> unat y1"
    by (rule hi_step_value [of x "unat x" 0 16]) (use start in simp_all)
  obtain k2 y2 where 2: "hi_step 8 (k1, y1) = (k2, y2)" "unat y2 = unat x * 2 ^ nat k2" "0 \<le> k2" "2 ^ (32 - 8) \<le> unat y2"
    by (rule hi_step_value [of y1 "unat x" k1 8]) (use 1 in simp_all)
  obtain k3 y3 where 3: "hi_step 4 (k2, y2) = (k3, y3)" "unat y3 = unat x * 2 ^ nat k3" "0 \<le> k3" "2 ^ (32 - 4) \<le> unat y3"
    by (rule hi_step_value [of y2 "unat x" k2 4]) (use 2 in simp_all)
  obtain k4 y4 where 4: "hi_step 2 (k3, y3) = (k4, y4)" "unat y4 = unat x * 2 ^ nat k4" "0 \<le> k4" "2 ^ (32 - 2) \<le> unat y4"
    by (rule hi_step_value [of y3 "unat x" k3 2]) (use 3 in simp_all)
  obtain k5 y5 where 5: "hi_step 1 (k4, y4) = (k5, y5)" "unat y5 = unat x * 2 ^ nat k5" "0 \<le> k5" "2 ^ (32 - 1) \<le> unat y5"
    by (rule hi_step_value [of y4 "unat x" k4 1]) (use 4 in simp_all)
  have "hi0bits x = k5"
  proof (cases "y4 AND 0x80000000 = 0")
    case True
    have mask: "NOT (mask 30) = (0xc0000000 :: u32)" "NOT (mask 31) = (0x80000000 :: u32)"
      by (simp_all add: mask_eq_exp_minus_1)
    moreover have "y4 AND 0xc0000000 = (y4 AND 0x80000000) OR (y4 AND 0x40000000)"
      by (simp flip: bit.conj_disj_distrib)
    ultimately have masks: "y4 AND NOT (mask 30) = (y4 AND 0x80000000) OR (y4 AND 0x40000000)" by simp
    have "\<not> unat y4 < 2 ^ 30" using 4(4) by simp
    then have "y4 AND 0x40000000 \<noteq> 0"
      using True unfolding high_bits_clear [symmetric] masks by auto
    then show ?thesis using 1(1) 2(1) 3(1) 4(1) 5(1) True mask(2) by (simp add: hi0bits_steps hi_step_def)
  next
    case False
    have "NOT (mask 31) = (0x80000000 :: u32)" by (simp add: mask_eq_exp_minus_1)
    then show ?thesis using 1(1) 2(1) 3(1) 4(1) 5(1) False by (simp add: hi0bits_steps hi_step_def)
  qed
  then show ?thesis using 5 u32_bound [of y5] by simp
qed

lemma hi0bits_bound:
  assumes "x \<noteq> 0"
  shows "hi0bits x < 32"
proof -
  have "2 ^ nat (hi0bits x) \<le> unat x * 2 ^ nat (hi0bits x)" using assms by (simp add: Suc_le_eq unat_gt_0)
  then have "2 ^ nat (hi0bits x) < (2 ^ 32 :: nat)" using hi0bits_value [OF assms] by (metis le_less_trans)
  then have "nat (hi0bits x) < 32" by (simp only: power_strict_increasing_iff one_less_numeral_iff semiring_norm)
  then show ?thesis by simp
qed

subsection \<open>Trailing zero bits\<close>

lemma low_bits_clear: "(x :: u32) AND mask n = 0 \<longleftrightarrow> 2 ^ n dvd unat x"
proof -
  have "x AND mask n = 0 \<longleftrightarrow> take_bit n (unat x) = 0"
    by (metis take_bit_eq_mask unsigned_take_bit_eq unsigned_eq_0_iff)
  then show ?thesis by (simp add: take_bit_eq_0_iff)
qed

definition lo_step :: "nat \<Rightarrow> int \<times> u32 \<Rightarrow> int \<times> u32" where
  "lo_step n = (\<lambda>(k, y). if y AND mask n = 0 then (k + int n, drop_bit n y) else (k, y))"

lemma lo_step_value:
  assumes "x = unat y * 2 ^ nat k" and "0 \<le> k" and "\<not> 2 ^ (2 * n) dvd unat y"
  obtains k' y' where "lo_step n (k, y) = (k', y')" "x = unat y' * 2 ^ nat k'" "0 \<le> k'" "\<not> 2 ^ n dvd unat y'"
proof (cases "2 ^ n dvd unat y")
  case True
  then obtain c where c: "unat y = 2 ^ n * c" by blast
  then have "unat (drop_bit n y) = c" by (simp add: unat_shift_right)
  moreover have "x = c * 2 ^ nat (k + int n)" using assms(1,2) c by (simp add: nat_add_distrib power_add ac_simps)
  moreover have "\<not> 2 ^ n dvd c" using assms(3) c by (simp add: mult_2 power_add)
  ultimately show ?thesis using that [of "k + int n" "drop_bit n y"] True assms(2) by (simp add: lo_step_def low_bits_clear)
next
  case False
  then show ?thesis using that [of k y] assms by (simp add: lo_step_def low_bits_clear)
qed

lemma lo_step_cases:
  "lo_step 16 (0, y) = (if y AND 0xffff = 0 then (16, drop_bit 16 y) else (0, y))"
  "lo_step 8 (k, y) = (if y AND 0xff = 0 then (k + 8, drop_bit 8 y) else (k, y))"
  "lo_step 4 (k, y) = (if y AND 0xf = 0 then (k + 4, drop_bit 4 y) else (k, y))"
  "lo_step 2 (k, y) = (if y AND 3 = 0 then (k + 2, drop_bit 2 y) else (k, y))"
  "lo_step 1 (k, y) = (if y AND 1 = 0 then (k + 1, drop_bit 1 y) else (k, y))"
  by (simp_all add: lo_step_def mask_eq_exp_minus_1)

lemma lo0bits_steps:
  assumes "x AND 7 = 0" and "lo_step 16 (0, x) = (k1, y1)" and "lo_step 8 (k1, y1) = (k2, y2)"
    and "lo_step 4 (k2, y2) = (k3, y3)" and "lo_step 2 (k3, y3) = (k4, y4)"
  shows "lo0bits x =
    (if y4 AND 1 = 0 then (if drop_bit 1 y4 = 0 then (32, x) else (k4 + 1, drop_bit 1 y4)) else (k4, y4))"
  using assms(1) by (simp only: lo0bits_def Let_def lo_step_cases(1-4) [symmetric] assms(2-) prod.case simp_thms if_False)

lemma lo0bits_value:
  assumes "x \<noteq> 0"
  obtains k y where "lo0bits x = (k, y)" "0 \<le> k" "unat x = unat y * 2 ^ nat k" "odd (unat y)"
proof -
  have bits: "(y AND 1 = 0) = (2 ^ 1 dvd unat y)" for y :: u32
    using low_bits_clear [of y 1] by (simp add: mask_eq_exp_minus_1)
  have "\<exists>k y. lo0bits x = (k, y) \<and> 0 \<le> k \<and> unat x = unat y * 2 ^ nat k \<and> odd (unat y)"
  proof (cases "x AND 7 = 0")
    case False
    have two: "x AND 2 = 0" if "4 dvd unat x"
    proof -
      have "x AND mask 2 = 0" using low_bits_clear [of x 2] that by simp
      moreover have "x AND 2 = (x AND mask 2) AND 2" by (simp add: mask_eq_exp_minus_1 and.assoc)
      ultimately show ?thesis by simp
    qed
    have two': "4 dvd unat x" if "x AND 2 = 0" "x AND 1 = 0"
    proof -
      have "x AND mask 2 = (x AND 2) OR (x AND 1)" by (simp add: mask_eq_exp_minus_1 flip: bit.conj_disj_distrib)
      then show ?thesis using that low_bits_clear [of x 2] by simp
    qed
    have "\<not> 8 dvd unat x" using False low_bits_clear [of x 3] by (simp add: mask_eq_exp_minus_1)
    then consider "odd (unat x)" | "even (unat x)" "\<not> 4 dvd unat x" | "4 dvd unat x" "\<not> 8 dvd unat x" by blast
    then show ?thesis
    proof cases
      case 1
      then show ?thesis using False bits [of x] by (simp add: lo0bits_def)
    next
      case 2
      then obtain c where c: "unat x = 2 * c" by blast
      then have "unat (drop_bit 1 x) = c" "odd c" using 2(2) by (auto simp: unat_shift_right)
      then show ?thesis using False bits [of x] 2 two' c by (auto simp: lo0bits_def)
    next
      case 3
      then obtain c where c: "unat x = 4 * c" by blast
      then have "unat (drop_bit 2 x) = c" "odd c" using 3(2) by (auto simp: unat_shift_right)
      then show ?thesis using False bits [of x] 3 two c by (auto simp: lo0bits_def)
    qed
  next
    case True
    have start: "\<not> 2 ^ (2 * 16) dvd unat x"
      using assms u32_bound [of x] by (auto dest!: dvd_imp_le simp: unat_gt_0)
    obtain k1 y1 where 1: "lo_step 16 (0, x) = (k1, y1)" "unat x = unat y1 * 2 ^ nat k1" "0 \<le> k1" "\<not> 2 ^ 16 dvd unat y1"
      by (rule lo_step_value [of "unat x" x 0 16]) (use start in simp_all)
    obtain k2 y2 where 2: "lo_step 8 (k1, y1) = (k2, y2)" "unat x = unat y2 * 2 ^ nat k2" "0 \<le> k2" "\<not> 2 ^ 8 dvd unat y2"
      by (rule lo_step_value [of "unat x" y1 k1 8]) (use 1 in simp_all)
    obtain k3 y3 where 3: "lo_step 4 (k2, y2) = (k3, y3)" "unat x = unat y3 * 2 ^ nat k3" "0 \<le> k3" "\<not> 2 ^ 4 dvd unat y3"
      by (rule lo_step_value [of "unat x" y2 k2 4]) (use 2 in simp_all)
    obtain k4 y4 where 4: "lo_step 2 (k3, y3) = (k4, y4)" "unat x = unat y4 * 2 ^ nat k4" "0 \<le> k4" "\<not> 2 ^ 2 dvd unat y4"
      by (rule lo_step_value [of "unat x" y3 k3 2]) (use 3 in simp_all)
    obtain k5 y5 where 5: "lo_step 1 (k4, y4) = (k5, y5)" "unat x = unat y5 * 2 ^ nat k5" "0 \<le> k5" "\<not> 2 ^ 1 dvd unat y5"
      by (rule lo_step_value [of "unat x" y4 k4 1]) (use 4 in simp_all)
    have "y5 \<noteq> 0" using 5(4) by auto
    then have "lo0bits x = (k5, y5)"
      using 5(1) unfolding lo0bits_steps [OF True 1(1) 2(1) 3(1) 4(1)] lo_step_cases by (auto split: if_splits)
    then show ?thesis using 5 by simp
  qed
  then show ?thesis using that by blast
qed

subsection \<open>The parts of a double\<close>

lemma unat_low_mask: "unat ((x :: u32) AND mask n) = unat x mod 2 ^ n"
  unfolding take_bit_eq_mask [symmetric] unsigned_take_bit_eq by (rule take_bit_eq_mod)

lemma word_masks:
  "(0x7ff :: u32) = mask 11" "(0xfffff :: u32) = mask 20" "(0x7fffffff :: u32) = mask 31"
  "(0x80000000 :: u32) = NOT (mask 31)"
  by (simp_all add: mask_eq_exp_minus_1)

lemma biased_eq: "biased d = unat (word0 d) div 2 ^ 20 mod 2 ^ 11"
proof -
  have "drop_bit 20 (word0 d AND 0x7ff00000) = drop_bit 20 (word0 d) AND 0x7ff" by simp
  then show ?thesis unfolding biased_def word_masks by (simp only: unat_low_mask unat_shift_right)
qed

lemma unat_low_bits: "unat ((x :: u32) AND 0xfffff) = unat x mod 2 ^ 20"
  unfolding word_masks by (rule unat_low_mask)

lemma no_sign: "(x :: u32) AND 0x80000000 = 0 \<longleftrightarrow> unat x < 2 ^ 31"
  unfolding word_masks by (rule high_bits_clear)

lemma clear_sign: "unat ((x :: u32) AND 0x7fffffff) = unat x mod 2 ^ 31"
  unfolding word_masks by (rule unat_low_mask)

lemma implicit_bit: "unat ((x :: u32) AND 0xfffff OR 0x100000) = unat x mod 2 ^ 20 + 2 ^ 20"
proof -
  have "(x AND 0xfffff) AND 0x100000 = 0" by (simp add: and.assoc)
  then show ?thesis using unat_or_disjoint [of "x AND 0xfffff"] by (simp add: unat_low_bits)
qed

lemma fraction_bound: "fraction d < 2 ^ 52"
proof -
  have "unat (word0 d) mod 2 ^ 20 \<le> 2 ^ 20 - 1" by (simp add: mod_less_divisor Suc_leI flip: less_Suc_eq_le)
  then show ?thesis using u32_bound [of "word1 d"] by (simp add: fraction_def unat_low_bits)
qed

text \<open>The number that \<open>d2b\<close> makes of the two halves of the significand.\<close>

definition significand_words :: "u32 \<Rightarrow> u32 \<Rightarrow> int \<times> u32 list" where
  "significand_words z d1 =
    (if d1 \<noteq> 0 then
       (case lo0bits d1 of (k, y) \<Rightarrow>
          let x0 = (if k \<noteq> 0 then y OR push_bit (nat (32 - k)) z else y);
              z = (if k \<noteq> 0 then drop_bit (nat k) z else z)
          in (k, if z \<noteq> 0 then [x0, z] else [x0]))
     else (case lo0bits z of (k, z) \<Rightarrow> (k + 32, [z])))"

lemma significand_words_value:
  assumes "unat z * 2 ^ 32 + unat d1 \<noteq> 0"
  obtains k ws where "significand_words z d1 = (k, ws)" "0 \<le> k" "words_value ws * 2 ^ nat k = unat z * 2 ^ 32 + unat d1"
    "odd (words_value ws)" "ws \<noteq> []" "last ws \<noteq> 0"
proof (cases "d1 = 0")
  case True
  then have "z \<noteq> 0" using assms by auto
  then obtain k y where k: "lo0bits z = (k, y)" "0 \<le> k" "unat z = unat y * 2 ^ nat k" "odd (unat y)"
    by (rule lo0bits_value)
  have "nat (k + 32) = nat k + 32" using k(2) by simp
  then have "words_value [y] * 2 ^ nat (k + 32) = unat z * 2 ^ 32 + unat d1"
    using True k(3) by (simp add: power_add)
  moreover have "y \<noteq> 0" using k(4) by auto
  ultimately show ?thesis using True k that [of "k + 32" "[y]"] by (simp add: significand_words_def)
next
  case False
  then obtain k y where k: "lo0bits d1 = (k, y)" "0 \<le> k" "unat d1 = unat y * 2 ^ nat k" "odd (unat y)"
    by (rule lo0bits_value)
  have "unat y \<noteq> 0" using k(4) by (cases "unat y") simp_all
  then have "2 ^ nat k < (2 ^ 32 :: nat)"
    using k(3) u32_bound [of d1] by (metis One_nat_def Suc_leI le_less_trans mult_1 mult_le_mono1 not_gr_zero)
  then have k32: "nat k < 32" by (simp only: power_strict_increasing_iff one_less_numeral_iff semiring_norm)
  let ?n = "32 - nat k" and ?z = "drop_bit (nat k) z" and ?x = "y OR push_bit (32 - nat k) z"
  have "unat y * 2 ^ nat k < 2 ^ ?n * 2 ^ nat k" using k(3) k32 u32_bound [of d1] by (simp flip: power_add)
  then have "unat y < 2 ^ ?n" by simp
  then have "take_bit ?n y = y" by (metis take_bit_nat_eq_self_iff unsigned_take_bit_eq unsigned_word_eqI)
  moreover have "take_bit ?n y AND push_bit ?n z = 0" by (rule bit_word_eqI) (auto simp: bit_simps)
  ultimately have "y AND push_bit ?n z = 0" by simp
  then have "unat ?x = unat y + unat (push_bit ?n z)" by (rule unat_or_disjoint)
  moreover have "unat (push_bit ?n z) + 2 ^ 32 * unat ?z = 2 ^ ?n * unat z"
    using shift_halves [of ?n z] k32 by simp
  ultimately have words: "words_value [?x, ?z] = unat y + 2 ^ ?n * unat z" by simp
  then have val: "words_value [?x, ?z] * 2 ^ nat k = unat z * 2 ^ 32 + unat d1"
    using k(3) k32 by (simp add: algebra_simps flip: power_add)
  have "odd (words_value [?x, ?z])" unfolding words using k(4) k32 by simp
  moreover have "?x \<noteq> 0" using \<open>unat y \<noteq> 0\<close> \<open>unat ?x = unat y + unat (push_bit ?n z)\<close> by auto
  moreover let ?ws = "if ?z \<noteq> 0 then [?x, ?z] else [?x]"
  have "words_value ?ws = words_value [?x, ?z]" by simp
  moreover have "nat (32 - k) = ?n" using k(2) by simp
  then have "significand_words z d1 = (k, ?ws)"
    using False k(1) by (cases "k = 0") (simp_all add: significand_words_def)
  ultimately show ?thesis using that [of k ?ws] k(2) val by (simp split: if_splits)
qed

text \<open>The number of bits, as counted from the leading zeros of the highest word.\<close>

definition bits_of :: "int \<Rightarrow> nat \<Rightarrow> bool" where
  "bits_of n v \<longleftrightarrow> 1 \<le> n \<and> 2 ^ nat (n - 1) \<le> v \<and> v < 2 ^ nat n"

lemma bits_of_nat: "bits_of (int m) v \<longleftrightarrow> 1 \<le> m \<and> 2 ^ (m - 1) \<le> v \<and> v < 2 ^ m"
  by (auto simp: bits_of_def nat_diff_distrib')

lemma bits_of_words:
  assumes "ws \<noteq> []" and "last ws \<noteq> 0"
  shows "bits_of (int (32 * length ws) - hi0bits (last ws)) (words_value ws)"
proof -
  obtain us w where ws: "ws = us @ [w]" using assms(1) by (metis append_butlast_last_id)
  let ?h = "nat (hi0bits w)" and ?B = "2 ^ (32 * length us) :: nat"
  have h: "0 \<le> hi0bits w" "2 ^ 31 \<le> unat w * 2 ^ ?h" "unat w * 2 ^ ?h < 2 ^ 32"
    using hi0bits_value [of w] assms(2) ws by simp_all
  have "w \<noteq> 0" using assms(2) ws by simp
  then have "2 ^ ?h \<le> unat w * 2 ^ ?h" by (simp add: Suc_le_eq unat_gt_0)
  then have "2 ^ ?h < (2 ^ 32 :: nat)" using h(3) by (rule le_less_trans)
  then have h32: "?h < 32" by (simp only: power_strict_increasing_iff one_less_numeral_iff semiring_norm)
  have "2 ^ (31 - ?h) * 2 ^ ?h \<le> unat w * 2 ^ ?h" using h(2) h32 by (simp flip: power_add)
  then have low: "2 ^ (31 - ?h) \<le> unat w" by simp
  have "unat w * 2 ^ ?h < 2 ^ (32 - ?h) * 2 ^ ?h" using h(3) h32 by (simp flip: power_add)
  then have high: "unat w + 1 \<le> 2 ^ (32 - ?h)" by simp
  have v: "words_value ws = words_value us + ?B * unat w" using ws by (simp add: words_value_append)
  have "2 ^ (31 - ?h) * ?B \<le> words_value ws" using mult_le_mono1 [OF low, of ?B] v by (metis mult.commute trans_le_add2)
  moreover have "words_value ws < 2 ^ (32 - ?h) * ?B"
    using mult_le_mono1 [OF high, of ?B] v words_value_bound [of us] by (simp add: algebra_simps)
  moreover have "32 - ?h + 32 * length us - 1 = 31 - ?h + 32 * length us" using h32 by simp
  ultimately have "bits_of (int (32 - ?h + 32 * length us)) (words_value ws)"
    unfolding bits_of_nat using h32 by (simp only: power_add) simp
  moreover have "int (32 - ?h + 32 * length us) = int (32 * length ws) - hi0bits (last ws)"
    using h(1) h32 ws by (simp add: of_nat_diff)
  ultimately show ?thesis by simp
qed

lemma bits_of_pos: "bits_of n v \<Longrightarrow> 0 < v"
  unfolding bits_of_def by (metis gr0I le_zero_eq power_not_zero zero_neq_numeral)

lemma last_word_nonzero: "big_ok b \<Longrightarrow> 0 < big_value b \<Longrightarrow> last (words b) \<noteq> 0"
  by (cases "words b" rule: rev_cases) (auto simp: big_ok_def proper_size_def le_Suc_eq)

lemma bits_of_unique: "bits_of m v \<Longrightarrow> bits_of n v \<Longrightarrow> m = n"
proof -
  have "m \<le> n" if "bits_of m v" "bits_of n v" for m n
  proof -
    have "2 ^ nat (m - 1) < (2 ^ nat n :: nat)" using that unfolding bits_of_def by (metis le_less_trans)
    then have "nat (m - 1) < nat n" by simp
    then show "m \<le> n" using that by (auto simp: bits_of_def)
  qed
  then show "bits_of m v \<Longrightarrow> bits_of n v \<Longrightarrow> m = n" by (simp add: antisym)
qed

lemma bits_of_scaled:
  assumes "bits_of n (v * 2 ^ k)" and "0 < v"
  shows "bits_of (n - int k) v"
proof -
  have "2 ^ k \<le> v * 2 ^ k" using assms(2) by simp
  then have "2 ^ k < (2 ^ nat n :: nat)" using assms(1) unfolding bits_of_def by (metis le_less_trans)
  then have k: "k < nat n" by simp
  then have "nat (n - 1) = nat (n - int k - 1) + k" "nat n = nat (n - int k) + k"
    using assms(1) by (auto simp: bits_of_def)
  then show ?thesis using assms(1) k by (simp add: bits_of_def power_add)
qed

lemma bits_of_shifted: "bits_of n v \<Longrightarrow> bits_of (n + int k) (v * 2 ^ k)"
proof -
  assume n: "bits_of n v"
  then have "nat (n + int k - 1) = nat (n - 1) + k" "nat (n + int k) = nat n + k" by (auto simp: bits_of_def)
  then show ?thesis using n by (simp add: bits_of_def power_add)
qed

lemma d2b_value:
  assumes "unat (word0 u) < 2 ^ 31" and "significand u \<noteq> 0"
  obtains b k n where "d2b u = (u, b, exponent u + k, n)" "0 \<le> k" "big_value b * 2 ^ nat k = significand u"
    "odd (big_value b)" "big_ok b" "big_sign b = 0" "bits_of n (big_value b)"
proof -
  obtain d0 d1 where u: "u = (d0, d1)" by fastforce
  let ?de = "uint (drop_bit 20 d0)"
  let ?z = "if ?de \<noteq> 0 then d0 AND 0xfffff OR 0x100000 else d0 AND 0xfffff"
  have "unat d0 div 2 ^ 20 < 2 ^ 11" using assms(1) u by (simp add: less_mult_imp_div_less)
  then have "biased u = unat (drop_bit 20 d0)" using u by (simp add: biased_eq unat_shift_right)
  then have de: "?de = int (biased u)" by simp
  have "d0 AND 0x7fffffff = d0"
    using assms(1) u clear_sign [of d0] by (simp add: unsigned_word_eqI)
  have "unat ?z * 2 ^ 32 + unat d1 = significand u"
    using de u by (simp add: significand_def fraction_def implicit_bit unat_low_bits)
  then obtain k ws where k: "significand_words ?z d1 = (k, ws)" "0 \<le> k" "words_value ws * 2 ^ nat k = significand u"
    "odd (words_value ws)" "ws \<noteq> []" "last ws \<noteq> 0"
    using significand_words_value [of ?z d1] assms(2) by metis
  let ?n = "if ?de \<noteq> 0 then 53 - k else int (32 * length ws) - hi0bits (last ws)"
  have "d2b u = (u, \<lparr>big_sign = 0, words = ws\<rparr>, exponent u + k, ?n)"
  proof -
    have "d2b u =
      (case significand_words ?z d1 of (k, ws) \<Rightarrow>
         if ?de \<noteq> 0 then (u, \<lparr>big_sign = 0, words = ws\<rparr>, ?de - 1023 - 52 + k, 53 - k)
         else (u, \<lparr>big_sign = 0, words = ws\<rparr>, ?de - 1023 - 52 + 1 + k, int (32 * length ws) - hi0bits (last ws)))"
      unfolding d2b_def significand_words_def u by (simp only: Let_def prod.case \<open>d0 AND 0x7fffffff = d0\<close>)
    then show ?thesis unfolding k(1) prod.case by (simp add: exponent_def de max_def)
  qed
  moreover have "bits_of ?n (words_value ws)"
  proof (cases "?de = 0")
    case True
    then show ?thesis using bits_of_words [OF k(5,6)] by simp
  next
    case False
    then have "bits_of 53 (significand u)"
      using de fraction_bound [of u] by (simp add: bits_of_def significand_def)
    then have "bits_of 53 (words_value ws * 2 ^ nat k)" unfolding k(3) .
    then have "bits_of (53 - int (nat k)) (words_value ws)"
      by (rule bits_of_scaled) (rule odd_pos [OF k(4)])
    then show ?thesis using False k(2) by simp
  qed
  ultimately show ?thesis
    using that [of "\<lparr>big_sign = 0, words = ws\<rparr>" k ?n] k by (simp add: big_ok_def proper_size_def)
qed

end
