(* ===== verification/ShortestDigits.thy ===== *)
theory ShortestDigits
  imports BigIntProps Dtoa
begin

text \<open>
  The digits that the loop of \<open>dtoa\<close> finds: no number with fewer digits lies between the bounds, and
  none with as many is closer. A number is given as its quotient by \<open>S\<close>, scaled by a power of ten.
\<close>

subsection \<open>Numbers between the bounds\<close>

definition inside :: "bool \<Rightarrow> nat \<Rightarrow> nat \<Rightarrow> nat \<Rightarrow> nat \<Rightarrow> bool" where
  "inside ties v lo hi x \<longleftrightarrow> (if ties then v \<le> x + lo \<and> x \<le> v + hi else v < x + lo \<and> x < v + hi)"

definition closest :: "bool \<Rightarrow> nat \<Rightarrow> nat \<Rightarrow> nat \<Rightarrow> nat \<Rightarrow> nat \<Rightarrow> bool" where
  "closest ties v lo hi S x \<longleftrightarrow>
    inside ties v lo hi (x * S) \<and>
    (\<forall>y. inside ties v lo hi (y * S) \<longrightarrow> \<bar>int (x * S) - int v\<bar> \<le> \<bar>int (y * S) - int v\<bar>)"

definition below :: "bool \<Rightarrow> nat \<Rightarrow> nat \<Rightarrow> bool" where
  "below ties r lo \<longleftrightarrow> (if ties then r \<le> lo else r < lo)"

lemma inside_low: "0 < hi \<Longrightarrow> inside ties (x * S + r) lo hi (x * S) \<longleftrightarrow> below ties r lo"
  by (auto simp: inside_def below_def)

lemma inside_high:
  "0 < lo \<Longrightarrow> r < S \<Longrightarrow> inside ties (x * S + r) lo hi (Suc x * S) \<longleftrightarrow> below ties S (r + hi)"
  by (auto simp: inside_def below_def)

lemma inside_candidates:
  assumes "inside ties (x * S + r) lo hi (y * S)" and "r < S" and "0 < lo" and "0 < hi"
  shows "y \<le> x \<and> below ties r lo \<or> x < y \<and> below ties S (r + hi)"
proof (cases "y \<le> x")
  case True
  then have "y * S \<le> x * S" by simp
  then have "below ties r lo" using assms(1) unfolding inside_def below_def by (cases ties) (simp_all only: if_True if_False, linarith+)
  then show ?thesis using True by simp
next
  case False
  then have "Suc x * S \<le> y * S" by (intro mult_le_mono1) simp
  then have "below ties S (r + hi)"
    using assms(1) unfolding inside_def below_def by (cases ties) (simp_all only: if_True if_False mult_Suc, linarith+)
  then show ?thesis using False by simp
qed

lemma distance_low: "y \<le> x \<Longrightarrow> int r \<le> \<bar>int (y * S) - int (x * S + r)\<bar>"
proof -
  assume "y \<le> x"
  then have "y * S \<le> x * S" by simp
  then show ?thesis by linarith
qed

lemma distance_high: "x < y \<Longrightarrow> r < S \<Longrightarrow> int S - int r \<le> \<bar>int (y * S) - int (x * S + r)\<bar>"
proof -
  assume "x < y"
  then have "Suc x * S \<le> y * S" by (intro mult_le_mono1) simp
  then have "S + x * S \<le> y * S" by (simp only: mult_Suc)
  then show ?thesis by linarith
qed

lemma closest_low:
  assumes "below ties r lo" and "r < S" and "0 < lo" and "0 < hi" and "\<not> below ties S (r + hi) \<or> 2 * r \<le> S"
  shows "closest ties (x * S + r) lo hi S x"
  unfolding closest_def
proof (intro conjI allI impI)
  show "inside ties (x * S + r) lo hi (x * S)" using assms by (simp only: inside_low)
  fix y
  assume y: "inside ties (x * S + r) lo hi (y * S)"
  have "int r \<le> \<bar>int (y * S) - int (x * S + r)\<bar>"
    using inside_candidates [OF y assms(2-4)] distance_low [of y x r S] distance_high [of x y r S] assms(2,5) by auto
  then show "\<bar>int (x * S) - int (x * S + r)\<bar> \<le> \<bar>int (y * S) - int (x * S + r)\<bar>" by simp
qed

lemma closest_high:
  assumes "below ties S (r + hi)" and "r < S" and "0 < lo" and "0 < hi" and "\<not> below ties r lo \<or> S \<le> 2 * r"
  shows "closest ties (x * S + r) lo hi S (Suc x)"
  unfolding closest_def
proof (intro conjI allI impI)
  show "inside ties (x * S + r) lo hi (Suc x * S)" using assms by (simp only: inside_high)
  fix y
  assume y: "inside ties (x * S + r) lo hi (y * S)"
  have "int S - int r \<le> \<bar>int (y * S) - int (x * S + r)\<bar>"
    using inside_candidates [OF y assms(2-4)] distance_low [of y x r S] distance_high [of x y r S] assms(2,5) by auto
  moreover have "\<bar>int (Suc x * S) - int (x * S + r)\<bar> = int S - int r" using assms(2) by simp
  ultimately show "\<bar>int (Suc x * S) - int (x * S + r)\<bar> \<le> \<bar>int (y * S) - int (x * S + r)\<bar>" by (simp only:)
qed

subsection \<open>What the digits have to be\<close>

abbreviation digits :: "int list \<Rightarrow> bool" where
  "digits s \<equiv> list_all (\<lambda>c. 48 \<le> c \<and> c < 58) s"

definition shortest :: "bool \<Rightarrow> nat \<Rightarrow> nat \<Rightarrow> nat \<Rightarrow> nat \<Rightarrow> int list \<Rightarrow> nat \<Rightarrow> bool" where
  "shortest ties S b lo hi s carry \<longleftrightarrow>
    s \<noteq> [] \<and> digits s \<and> hd s \<noteq> 48 \<and> last s \<noteq> 48 \<and>
    (let p = 10 ^ (length s - 1) in
      closest ties (b * p) (lo * p) (hi * p) S (digits_value 0 s * 10 ^ carry)) \<and>
    (\<forall>n y. Suc n < length s \<longrightarrow> \<not> inside ties (b * 10 ^ n) (lo * 10 ^ n) (hi * 10 ^ n) (y * S)) \<and>
    (1 < length s \<longrightarrow> lo * 10 ^ (length s - 2) < S)"

text \<open>The state of the loop after the digits \<open>s\<close>.\<close>

definition digits_inv ::
  "bool \<Rightarrow> nat \<Rightarrow> nat \<Rightarrow> nat \<Rightarrow> nat \<Rightarrow> int list \<Rightarrow> nat \<Rightarrow> nat \<Rightarrow> nat \<Rightarrow> bool" where
  "digits_inv ties S b0 lo0 hi0 s b lo hi \<longleftrightarrow>
    0 < lo0 \<and> lo0 \<le> hi0 \<and> S \<le> b0 \<and> 0 < b \<and> b < 10 * S \<and> (b0 + hi0 = 10 * S \<longrightarrow> lo0 + hi0 < S) \<and>
    digits s \<and> (s \<noteq> [] \<longrightarrow> hd s \<noteq> 48) \<and>
    b0 * 10 ^ length s = 10 * digits_value 0 s * S + b \<and>
    lo = lo0 * 10 ^ length s \<and> hi = hi0 * 10 ^ length s \<and>
    (\<forall>n y. n < length s \<longrightarrow> \<not> inside ties (b0 * 10 ^ n) (lo0 * 10 ^ n) (hi0 * 10 ^ n) (y * S)) \<and>
    (s \<noteq> [] \<longrightarrow> lo0 * 10 ^ (length s - 1) < S)"

lemma digits_inv_previous:
  assumes inv: "digits_inv ties S b0 lo0 hi0 s b lo hi" and "s \<noteq> []"
  shows "\<not> below ties b lo" and "\<not> below ties (10 * S) (b + hi)"
proof -
  obtain n where n: "length s = Suc n" using assms(2) by (cases s) simp_all
  let ?D = "digits_value 0 s" and ?V = "b0 * 10 ^ n"
  have eq: "10 * ?V = 10 * (?D * S) + b" using inv n by (simp add: digits_inv_def ac_simps)
  then have "?D * S \<le> ?V" by linarith
  then obtain r where r: "?V = ?D * S + r" by (auto simp: le_iff_add)
  then have b: "b = 10 * r" using eq by simp
  have bounds: "r < S" "0 < lo0 * 10 ^ n" "0 < hi0 * 10 ^ n" "lo = 10 * (lo0 * 10 ^ n)" "hi = 10 * (hi0 * 10 ^ n)"
    using inv n b by (simp_all add: digits_inv_def)
  have out: "\<not> inside ties ?V (lo0 * 10 ^ n) (hi0 * 10 ^ n) (y * S)" for y using inv n by (simp add: digits_inv_def)
  show "\<not> below ties b lo"
    using out [of ?D] inside_low [OF bounds(3), of ties ?D S r "lo0 * 10 ^ n"] unfolding r b bounds(4) by (auto simp: below_def)
  show "\<not> below ties (10 * S) (b + hi)"
    using out [of "Suc ?D"] inside_high [OF bounds(2,1), of ties ?D "hi0 * 10 ^ n"] unfolding r b bounds(5)
    by (auto simp: below_def split: if_splits)
qed

lemma digits_value_snoc: "digits_value 0 (s @ [48 + int q]) = 10 * digits_value 0 s + q"
  by (simp add: digits_value_def)

lemma digits_inv_split:
  assumes "digits_inv ties S b0 lo0 hi0 s b lo hi"
  shows "b0 * 10 ^ length s = (10 * digits_value 0 s + b div S) * S + b mod S" and "b mod S < S" and "b div S \<le> 9"
    and "0 < lo" and "0 < hi" and "lo \<le> hi" and "s = [] \<Longrightarrow> b div S \<noteq> 0"
proof -
  have S: "0 < S" "b < 10 * S" using assms by (auto simp: digits_inv_def intro: Nat.gr0I)
  have "b0 * 10 ^ length s = 10 * digits_value 0 s * S + b" using assms by (simp add: digits_inv_def)
  then show "b0 * 10 ^ length s = (10 * digits_value 0 s + b div S) * S + b mod S" by (simp add: add_mult_distrib)
  show "b mod S < S" using S by simp
  have "b div S < 10" using S by (simp add: less_mult_imp_div_less)
  then show "b div S \<le> 9" by simp
  show "0 < lo" "0 < hi" "lo \<le> hi" using assms by (simp_all add: digits_inv_def)
  show "b div S \<noteq> 0" if "s = []" using assms that S by (auto simp: digits_inv_def digits_value_def div_eq_0_iff)
qed

text \<open>The last digit, the last digit after a carry, and a digit that is not the last.\<close>

lemma last_digit:
  assumes inv: "digits_inv ties S b0 lo0 hi0 s b lo hi"
    and x: "x = b div S \<and> below ties (b mod S) lo \<or> x = Suc (b div S)" "x \<le> 9"
    and best: "closest ties ((10 * digits_value 0 s + b div S) * S + b mod S) lo hi S (10 * digits_value 0 s + x)"
  shows "shortest ties S b0 lo0 hi0 (s @ [48 + int x]) 0"
proof -
  note split = digits_inv_split [OF inv]
  have "x \<noteq> 0"
  proof
    assume "x = 0"
    then have "b div S = 0" "below ties (b mod S) lo" using x(1) by simp_all
    moreover from this have "b mod S = b" using split(2) by (simp add: div_eq_0_iff)
    ultimately show False using split(7) digits_inv_previous(1) [OF inv] by (cases "s = []") simp_all
  qed
  then have "hd (s @ [48 + int x]) \<noteq> 48" using inv by (cases s) (simp_all add: digits_inv_def)
  moreover have "s \<noteq> [] \<Longrightarrow> lo0 * 10 ^ (length s - 1) < S" using inv by (simp add: digits_inv_def)
  ultimately show ?thesis
    using inv best x(2) \<open>x \<noteq> 0\<close> split(1) unfolding shortest_def by (auto simp: digits_inv_def digits_value_snoc)
qed

lemma carried_digit:
  assumes inv: "digits_inv ties S b0 lo0 hi0 s b lo hi" and "b div S = 9" and high: "below ties S (b mod S + hi)"
    and best: "closest ties ((10 * digits_value 0 s + b div S) * S + b mod S) lo hi S (Suc (10 * digits_value 0 s + b div S))"
  shows "s = [] \<and> shortest ties S b0 lo0 hi0 [49] 1"
proof -
  have "b = 9 * S + b mod S" using assms(2) div_mult_mod_eq [of b S] by simp
  then have "below ties (10 * S) (b + hi)" using high unfolding below_def by (auto split: if_splits)
  then have "s = []" using digits_inv_previous(2) [OF inv] by blast
  then show ?thesis
    using best assms(2) inv digits_inv_split(1) [OF inv] by (simp add: shortest_def digits_inv_def digits_value_def)
qed

lemma next_digit:
  assumes inv: "digits_inv ties S b0 lo0 hi0 s b lo hi"
    and out: "\<not> below ties (b mod S) lo" "\<not> below ties S (b mod S + hi)"
  shows "digits_inv ties S b0 lo0 hi0 (s @ [48 + int (b div S)]) (10 * (b mod S)) (10 * lo) (10 * hi)"
proof -
  note split = digits_inv_split [OF inv]
  have "hd (s @ [48 + int (b div S)]) \<noteq> 48" using inv split(7) by (cases s) (simp_all add: digits_inv_def)
  moreover have r: "lo \<le> b mod S" using out(1) by (auto simp: below_def split: if_splits)
  then have "0 < b mod S" "lo < S" using split(2,4) by linarith+
  moreover have "\<not> inside ties (b0 * 10 ^ n) (lo0 * 10 ^ n) (hi0 * 10 ^ n) (y * S)" if "n < Suc (length s)" for n y
  proof (cases "n = length s")
    case True
    have "lo = lo0 * 10 ^ length s" "hi = hi0 * 10 ^ length s" using inv by (simp_all add: digits_inv_def)
    then show ?thesis using True inside_candidates [OF _ split(2,4,5)] out split(1) by metis
  next
    case False
    then show ?thesis using inv that by (simp add: digits_inv_def)
  qed
  moreover have "b0 * 10 ^ length (s @ [48 + int (b div S)]) =
      10 * digits_value 0 (s @ [48 + int (b div S)]) * S + 10 * (b mod S)"
    unfolding digits_value_snoc using arg_cong [OF split(1), of "\<lambda>x. 10 * x"]
    by (simp only: length_append_singleton power_Suc distrib_left ac_simps)
  ultimately show ?thesis
    using inv split(2,3) \<open>0 < b mod S\<close> \<open>lo < S\<close> by (simp add: digits_inv_def)
qed

subsection \<open>The loop\<close>

lemma first_word_zero:
  assumes "proper_size b"
  shows "first_word b = 0 \<and> length (words b) \<le> 1 \<longleftrightarrow> big_value b = 0"
proof (cases "length (words b) \<le> 1")
  case True
  then show ?thesis by (cases "words b") (auto simp: first_word_def unat_eq_0)
next
  case False
  then have "words b \<noteq> []" "last (words b) \<noteq> 0" using assms by (auto simp: proper_size_def)
  then have "2 ^ (32 * (length (words b) - 1)) \<le> big_value b" using last_nonzero_iff by blast
  then have "big_value b \<noteq> 0" by (metis le_zero_eq power_not_zero zero_neq_numeral)
  then show ?thesis using False by simp
qed

lemma cmp_signs:
  assumes "proper_size b" and "big_ok m" and "big_value m \<noteq> 0 \<or> words b \<noteq> []"
  shows "\<exists>j. cmp b m = Some j \<and> (j < 0 \<longleftrightarrow> big_value b < big_value m) \<and> (j = 0 \<longleftrightarrow> big_value b = big_value m)"
proof (cases "words b = []")
  case True
  then have "proper_size m" "words m \<noteq> []" "big_value b = 0" "big_value m \<noteq> 0" using assms by (auto simp: big_ok_def)
  then show ?thesis using True assms(1) by (simp add: cmp_def Let_def)
next
  case False
  then show ?thesis using cmp_value assms(1,2) by (auto simp: big_ok_def)
qed

text \<open>The two comparisons of a round: with the lower bound and with the upper bound.\<close>

lemma upper_comparison:
  assumes "big_ok S" and "big_ok mhi" and "proper_size r"
  shows "\<exists>delta j1. diff S mhi = Some delta \<and> (if big_sign delta \<noteq> 0 then Some 1 else cmp r delta) = Some j1 \<and>
    (0 < j1 \<longleftrightarrow> big_value S < big_value r + big_value mhi) \<and>
    (j1 = 0 \<longrightarrow> big_value S = big_value r + big_value mhi) \<and>
    (big_value r \<noteq> 0 \<and> big_value S = big_value r + big_value mhi \<longrightarrow> j1 = 0)"
proof -
  obtain delta where d: "diff S mhi = Some delta" "big_ok delta"
    "big_value delta = (if big_value S < big_value mhi then big_value mhi - big_value S else big_value S - big_value mhi)"
    "big_sign delta = (if big_value S < big_value mhi then 1 else 0)"
    using diff_value [OF assms(1,2)] by auto
  show ?thesis
  proof (cases "big_value S < big_value mhi")
    case True
    then show ?thesis using d by auto
  next
    case False
    then have dv: "big_value S = big_value delta + big_value mhi" using d(3) by simp
    show ?thesis
    proof (cases "big_value delta = 0 \<and> words r = []")
      case True
      then have "cmp r delta = Some (- int (length (words delta)))" "words delta \<noteq> []" "big_value r = 0"
        using assms(3) d(2) by (auto simp: cmp_def Let_def big_ok_def)
      then show ?thesis using d(1,4) False dv by simp
    next
      case False
      then obtain j where "cmp r delta = Some j" "j < 0 \<longleftrightarrow> big_value r < big_value delta" "j = 0 \<longleftrightarrow> big_value r = big_value delta"
        using cmp_signs [OF assms(3) d(2)] by auto
      then show ?thesis using d(1,4) \<open>\<not> big_value S < big_value mhi\<close> dv by auto
    qed
  qed
qed

definition result_ok :: "bool \<Rightarrow> nat \<Rightarrow> nat \<Rightarrow> nat \<Rightarrow> nat \<Rightarrow> int list \<times> int \<Rightarrow> bool" where
  "result_ok ties S b0 lo0 hi0 = (\<lambda>(s, c). 0 \<le> c \<and> shortest ties S b0 lo0 hi0 s (nat c))"

lemma accept_digit:
  assumes inv: "digits_inv ties S b0 lo0 hi0 s b lo hi" and "below ties (b mod S) lo"
    and "\<not> below ties S (b mod S + hi) \<or> 2 * (b mod S) \<le> S"
  shows "result_ok ties S b0 lo0 hi0 (s @ [int (b div S) + 48], 0)"
proof -
  note split = digits_inv_split [OF inv]
  have "shortest ties S b0 lo0 hi0 (s @ [48 + int (b div S)]) 0"
    by (rule last_digit [OF inv _ split(3)]) (use assms(2) closest_low [OF assms(2) split(2,4,5) assms(3)] in auto)
  then show ?thesis by (simp add: result_ok_def add.commute)
qed

lemma increment_digit:
  assumes inv: "digits_inv ties S b0 lo0 hi0 s b lo hi" and "below ties S (b mod S + hi)"
    and "\<not> below ties (b mod S) lo \<or> S \<le> 2 * (b mod S)"
  shows "result_ok ties S b0 lo0 hi0
    (if int (b div S) + 48 = 57 then roundoff (s @ [57]) else (s @ [int (b div S) + 48 + 1], 0))"
proof -
  note split = digits_inv_split [OF inv]
  let ?x = "10 * digits_value 0 s + b div S"
  have best: "closest ties (?x * S + b mod S) lo hi S (Suc ?x)"
    by (rule closest_high [OF assms(2) split(2,4,5) assms(3)])
  show ?thesis
  proof (cases "b div S = 9")
    case True
    then show ?thesis using carried_digit [OF inv _ assms(2) best] by (simp add: result_ok_def roundoff_def)
  next
    case False
    then have "shortest ties S b0 lo0 hi0 (s @ [48 + int (Suc (b div S))]) 0"
      by (intro last_digit [OF inv]) (use split(3) best in auto)
    then show ?thesis using False by (simp add: result_ok_def add_ac)
  qed
qed

text \<open>The exact tie at the upper bound, where the loop does not compare the two candidates.\<close>

lemma tie_digit:
  assumes inv: "digits_inv ties S b0 lo0 hi0 s b lo hi" and "ties" and tie: "S = b mod S + hi"
  shows "result_ok ties S b0 lo0 hi0
    (if int (b div S) + 48 = 57 then roundoff (s @ [57])
     else (s @ [if lo < b mod S then int (b div S) + 48 + 1 else int (b div S) + 48], 0))"
proof (cases "lo < b mod S")
  case True
  then show ?thesis using increment_digit [OF inv] assms(2) tie by (auto simp: below_def add_ac)
next
  case False
  have "b div S \<noteq> 9"
  proof
    assume nine: "b div S = 9"
    have b: "b + hi = 10 * S" using tie div_mult_mod_eq [of b S] unfolding nine by linarith
    then have "s = []" using digits_inv_previous(2) [OF inv] assms(2) by (auto simp: below_def)
    then have "lo + hi < S" using inv b by (auto simp: digits_inv_def digits_value_def)
    then show False using False tie by linarith
  qed
  moreover have "2 * (b mod S) \<le> S" using False tie digits_inv_split(6) [OF inv] by linarith
  ultimately show ?thesis using accept_digit [OF inv] assms(2) False by (simp add: below_def)
qed

lemma times_ten: "big_ok b \<Longrightarrow> \<exists>c. multadd 10 0 b = Some c \<and> big_ok c \<and> big_value c = 10 * big_value b"
  using multadd_value [of b 10 0] by (auto simp: big_ok_def)

lemma shortest_digits_value:
  assumes S: "big_ok S" "10 \<le> unat (last (words S))" "unat (last (words S)) < 2 ^ 28"
  shows "digits_inv ties (big_value S) b0 lo0 hi0 s (big_value b) (big_value mlo) (big_value mhi) \<Longrightarrow>
    big_ok b \<Longrightarrow> big_ok mlo \<Longrightarrow> big_ok mhi \<Longrightarrow>
    \<exists>res. shortest_digits S ties s b mlo mhi = Some res \<and> result_ok ties (big_value S) b0 lo0 hi0 res"
proof (induction "big_value S - big_value mlo" arbitrary: s b mlo mhi rule: less_induct)
  case less
  note inv = less.prems(1)
  let ?S = "big_value S" and ?b = "big_value b" and ?lo = "big_value mlo" and ?hi = "big_value mhi"
  note split = digits_inv_split [OF inv]
  have "?b \<noteq> 0" "?b < 10 * ?S" using inv by (simp_all add: digits_inv_def)
  then obtain r where r: "quorem b S = Some (int (?b div ?S), r)" "big_value r = ?b mod ?S" "proper_size r"
    using quorem_normalized [OF less.prems(2) S(1) _ _ S(2,3)] by blast
  obtain j where j: "cmp r mlo = Some j" "j < 0 \<longleftrightarrow> ?b mod ?S < ?lo" "j = 0 \<longleftrightarrow> ?b mod ?S = ?lo"
    using cmp_signs [OF r(3) less.prems(3)] split(4) r(2) by auto
  have jpos: "0 < j \<longleftrightarrow> ?lo < ?b mod ?S" using j(2,3) by linarith
  obtain delta j1 where j1: "diff S mhi = Some delta" "(if big_sign delta \<noteq> 0 then Some 1 else cmp r delta) = Some j1"
    "0 < j1 \<longleftrightarrow> ?S < ?b mod ?S + ?hi" "j1 = 0 \<longrightarrow> ?S = ?b mod ?S + ?hi"
    "?b mod ?S \<noteq> 0 \<and> ?S = ?b mod ?S + ?hi \<longrightarrow> j1 = 0"
    using upper_comparison [OF S(1) less.prems(4) r(3)] r(2) by auto
  note round_eq = shortest_digits.simps [of S ties s b mlo mhi, unfolded r(1) bind.bind_lunit prod.case j(1) j1(1,2) Let_def]
  note accept = accept_digit [OF inv] and increment = increment_digit [OF inv]
  consider (tie) "j1 = 0" "ties" | (low) "\<not> (j1 = 0 \<and> ties)" "j < 0 \<or> j = 0 \<and> ties"
    | (high) "\<not> (j1 = 0 \<and> ties)" "\<not> (j < 0 \<or> j = 0 \<and> ties)" "0 < j1"
    | (more) "\<not> (j1 = 0 \<and> ties)" "\<not> (j < 0 \<or> j = 0 \<and> ties)" "\<not> 0 < j1" by blast
  then show ?case
  proof cases
    case tie
    have "result_ok ties ?S b0 lo0 hi0
      (if int (?b div ?S) + 48 = 57 then roundoff (s @ [57])
       else (s @ [if 0 < j then int (?b div ?S) + 48 + 1 else int (?b div ?S) + 48], 0))"
      unfolding jpos by (rule tie_digit [OF inv tie(2)]) (use j1(4) tie(1) in simp)
    moreover have "j1 = 0 \<and> ties" using tie by simp
    ultimately show ?thesis unfolding round_eq by (simp only: if_P) blast
  next
    case low
    then have lo: "below ties (?b mod ?S) ?lo" using j by (auto simp: below_def)
    show ?thesis
    proof (cases "?b mod ?S = 0")
      case True
      then have test: "first_word r = 0 \<and> length (words r) \<le> 1" using first_word_zero [OF r(3)] r(2) by simp
      show ?thesis
        unfolding round_eq if_not_P [OF low(1)] if_P [OF low(2)] if_P [OF test] using accept [OF lo] True by auto
    next
      case False
      then have test: "\<not> (first_word r = 0 \<and> length (words r) \<le> 1)" using first_word_zero [OF r(3)] r(2) by simp
      show ?thesis
      proof (cases "0 < j1")
        case True
        have "big_ok r" using False r(2,3) by (auto simp: big_ok_def)
        then obtain t where t: "lshift 1 r = Some t" "big_ok t" "big_value t = 2 * (?b mod ?S)"
          using lshift_value [of r 1] False r(2) by auto
        then obtain j2 where j2: "cmp t S = Some j2" "j2 < 0 \<longleftrightarrow> 2 * (?b mod ?S) < ?S" "j2 = 0 \<longleftrightarrow> 2 * (?b mod ?S) = ?S"
          using cmp_value [OF t(2) S(1)] by auto
        have hi: "below ties ?S (?b mod ?S + ?hi)" using True j1(3) by (simp add: below_def)
        let ?up = "0 < j2 \<or> j2 = 0 \<and> odd (int (?b div ?S) + 48)"
        have "?up \<Longrightarrow> ?S \<le> 2 * (?b mod ?S)" "\<not> ?up \<Longrightarrow> 2 * (?b mod ?S) \<le> ?S" using j2(2,3) by linarith+
        then have "result_ok ties ?S b0 lo0 hi0
          (if ?up then if int (?b div ?S) + 48 = 57 then roundoff (s @ [57]) else (s @ [int (?b div ?S) + 48 + 1], 0)
           else (s @ [int (?b div ?S) + 48], 0))"
          using accept [OF lo disjI2] increment [OF hi disjI2] by (cases ?up) (simp_all only: if_True if_False not_False_eq_True simp_thms)
        then show ?thesis
          unfolding round_eq if_not_P [OF low(1)] if_P [OF low(2)] if_not_P [OF test] if_P [OF True]
            t(1) bind.bind_lunit j2(1) by blast
      next
        case False
        then have "\<not> below ties ?S (?b mod ?S + ?hi)" using low(1) j1(3,5) \<open>?b mod ?S \<noteq> 0\<close> by (auto simp: below_def)
        then show ?thesis
          unfolding round_eq if_not_P [OF low(1)] if_P [OF low(2)] if_not_P [OF test] if_not_P [OF False]
          using accept [OF lo] by blast
      qed
    qed
  next
    case high
    then have "\<not> below ties (?b mod ?S) ?lo" "below ties ?S (?b mod ?S + ?hi)" using j j1(3) by (auto simp: below_def)
    then show ?thesis
      unfolding round_eq if_not_P [OF high(1)] if_not_P [OF high(2)] if_P [OF high(3)] using increment by blast
  next
    case more
    then have out: "\<not> below ties (?b mod ?S) ?lo" "\<not> below ties ?S (?b mod ?S + ?hi)"
      using j j1(3,5) split(4) by (auto simp: below_def)
    have "?b mod ?S \<noteq> 0" "?lo < ?S" using out(1) split(2,4) by (auto simp: below_def split: if_splits)
    then have "big_ok r" using r(2,3) by (auto simp: big_ok_def)
    then obtain b' lo' hi' where grown: "multadd 10 0 r = Some b'" "multadd 10 0 mlo = Some lo'" "multadd 10 0 mhi = Some hi'"
      "big_ok b'" "big_ok lo'" "big_ok hi'" "big_value b' = 10 * (?b mod ?S)" "big_value lo' = 10 * ?lo" "big_value hi' = 10 * ?hi"
      using times_ten [of r] times_ten [OF less.prems(3)] times_ten [OF less.prems(4)] r(2) by auto
    have "\<exists>res. shortest_digits S ties (s @ [48 + int (?b div ?S)]) b' lo' hi' = Some res \<and>
        result_ok ties ?S b0 lo0 hi0 res"
    proof (rule less.hyps)
      show "?S - big_value lo' < ?S - ?lo" using \<open>?lo < ?S\<close> split(4) grown by simp
      show "digits_inv ties ?S b0 lo0 hi0 (s @ [48 + int (?b div ?S)]) (big_value b') (big_value lo') (big_value hi')"
        using next_digit [OF inv out] grown by simp
    qed (rule grown)+
    then show ?thesis
      unfolding round_eq if_not_P [OF more(1)] if_not_P [OF more(2)] if_not_P [OF more(3)] grown(1-3) bind.bind_lunit
      by (simp only: add.commute)
  qed
qed

end
