(* ===== verification/DtoaScaling.thy ===== *)
theory DtoaScaling
  imports DoubleBits ShortestDigits
begin

text \<open>
  The numbers that \<open>dtoa\<close> hands to its loop: their quotients are the double and half the distances to
  its neighbours, divided by a power of ten, and the divisor has the highest word that \<open>quorem\<close> needs.
\<close>

subsection \<open>Alignment of the divisor\<close>

lemma high_word_of_bits:
  assumes "big_ok S" and "bits_of n (big_value S)" and "n mod 32 = 28"
  shows "10 \<le> unat (last (words S))" and "unat (last (words S)) < 2 ^ 28"
proof -
  have "last (words S) \<noteq> 0" using last_word_nonzero [OF assms(1) bits_of_pos [OF assms(2)]] .
  moreover from this have "n = int (32 * length (words S)) - hi0bits (last (words S))"
    using bits_of_unique [OF assms(2) bits_of_words] assms(1) by (simp add: big_ok_def)
  moreover have "hi0bits (last (words S)) < 32"
    using \<open>last (words S) \<noteq> 0\<close> by (rule hi0bits_bound)
  ultimately have "hi0bits (last (words S)) = 4" using hi0bits_value [of "last (words S)"] assms(3) by presburger
  then show "10 \<le> unat (last (words S))" "unat (last (words S)) < 2 ^ 28"
    using hi0bits_value [of "last (words S)"] \<open>last (words S) \<noteq> 0\<close> by simp_all
qed

lemma alignment_value:
  assumes "big_ok S" and "bits_of n (big_value S)" and "s5 sc = 0 \<Longrightarrow> big_value S = 1"
  shows "0 \<le> alignment sc S" and "(n + s2 sc + alignment sc S) mod 32 = 28"
proof -
  let ?h = "if s5 sc \<noteq> 0 then 32 - hi0bits (last (words S)) else 1"
  have "last (words S) \<noteq> 0" using last_word_nonzero [OF assms(1) bits_of_pos [OF assms(2)]] .
  then have n: "n = int (32 * length (words S)) - hi0bits (last (words S))"
    using bits_of_unique [OF assms(2) bits_of_words] assms(1) by (simp add: big_ok_def)
  have h: "?h mod 32 = n mod 32"
  proof (cases "s5 sc = 0")
    case True
    then have "bits_of 1 (big_value S)" using assms(3) by (simp add: bits_of_def)
    then show ?thesis using bits_of_unique [OF assms(2)] True by simp
  next
    case False
    have "n = ?h + 32 * (int (length (words S)) - 1)" using n False by simp
    then show ?thesis by (simp only: mod_mult_self2)
  qed
  define t where "t = (?h + s2 sc) mod 32"
  have t: "0 \<le> t" "t < 32" by (simp_all add: t_def)
  have "t = (?h mod 32 + s2 sc) mod 32" unfolding t_def by (rule mod_add_left_eq [symmetric])
  then have tn: "t = (n + s2 sc) mod 32" unfolding h by (simp only: mod_add_left_eq)
  have a: "alignment sc S = (let i = if t \<noteq> 0 then 32 - t else 0 in if 4 < i then i - 4 else if i < 4 then i + 28 else 0)"
    by (simp add: alignment_def t_def Let_def)
  show "0 \<le> alignment sc S" using t(1,2) by (simp add: a Let_def)
  have "(t + alignment sc S) mod 32 = 28"
  proof (cases "t = 0 \<or> 28 < t")
    case True
    then have "alignment sc S = 28 - t \<or> alignment sc S = 28 - t + 32" using t unfolding a Let_def by auto
    then show ?thesis by auto
  next
    case False
    then have "alignment sc S = 28 - t" using t unfolding a Let_def by auto
    then show ?thesis by simp
  qed
  then show "(n + s2 sc + alignment sc S) mod 32 = 28" unfolding tn by (simp only: mod_add_left_eq)
qed

subsection \<open>The numbers of the loop\<close>

lemma lshift_pos_value:
  assumes "big_ok b" and "0 < big_value b" and "0 \<le> k"
  shows "\<exists>c. lshift_pos k b = Some c \<and> big_ok c \<and> big_value c = big_value b * 2 ^ nat k"
  using lshift_value [OF assms(1), of "nat k"] assms by (auto simp: lshift_pos_def)

lemma one_value [simp]: "big_ok (i2b 1)" "big_value (i2b 1) = 1"
  by (simp_all add: i2b_def big_ok_def proper_size_def)

text \<open>The common factor \<open>5 ^ b5\<close>.\<close>

lemma numerator_value:
  assumes "p5s_ok p5s" and "big_ok b" and "0 < big_value b" and "0 \<le> f"
  shows "\<exists>mhi c q.
    (if 0 < f then map_option (\<lambda>(mhi, p5s). (mhi, mult b mhi, p5s)) (pow5mult (nat f) p5s (i2b 1))
     else Some (i2b 1, b, p5s)) = Some (mhi, c, q) \<and>
    p5s_ok q \<and> big_ok mhi \<and> big_ok c \<and> big_value mhi = 5 ^ nat f \<and> big_value c = big_value b * 5 ^ nat f"
proof (cases "0 < f")
  case True
  obtain mhi q where m: "pow5mult (nat f) p5s (i2b 1) = Some (mhi, q)" "p5s_ok q" "big_ok mhi" "big_value mhi = 5 ^ nat f"
    using pow5mult_value [OF assms(1) one_value(1), of "nat f"] by auto
  then have "big_ok (mult b mhi)" using mult_ok [of b mhi] assms(3) by simp
  then show ?thesis using m True by (simp add: mult_value)
next
  case False
  then show ?thesis using assms by simp
qed

lemma divisor_value:
  assumes "p5s_ok p5s" and "0 \<le> f"
  shows "\<exists>S q. (if 0 < f then pow5mult (nat f) p5s (i2b 1) else Some (i2b 1, p5s)) = Some (S, q) \<and>
    p5s_ok q \<and> big_ok S \<and> big_value S = 5 ^ nat f"
  using pow5mult_value [OF assms(1) one_value(1), of "nat f"] assms by auto

lemma bits_of_exists: "0 < v \<Longrightarrow> \<exists>n. bits_of n v"
proof -
  assume "0 < v"
  then have "bits_of (int (floorlog 2 v)) v"
    using floorlog_bounds [of v 2] by (simp add: bits_of_nat floorlog_ge_SucI)
  then show ?thesis by blast
qed

lemma times_ten_if:
  assumes "big_ok b"
  shows "\<exists>c. (if ten then multadd 10 0 b else Some b) = Some c \<and> big_ok c \<and>
    big_value c = big_value b * (if ten then 10 else 1)"
  using times_ten [OF assms] assms by auto

lemma check_value:
  assumes "big_ok b" and "big_ok S"
  shows "\<exists>l. (if k_check then cmp b S else Some 0) = Some l \<and> (l < 0 \<longleftrightarrow> k_check \<and> big_value b < big_value S)"
  using cmp_value [OF assms] by auto

definition scale_ok :: "scaling \<Rightarrow> bool" where
  "scale_ok sc \<longleftrightarrow> 0 \<le> b2 sc \<and> 0 \<le> b5 sc \<and> 0 \<le> m2 sc \<and> 0 \<le> s2 sc \<and> 0 \<le> s5 sc"

lemma prepare_value:
  assumes "p5s_ok p5s" and b: "big_ok b" "0 < big_value b" and sc: "scale_ok sc"
  shows "\<exists>i b' S mlo mhi q ten.
    prepare sc k k_check special p5s b = Some (if ten then k - 1 else k, b', S, mlo, mhi, q) \<and>
    p5s_ok q \<and> big_ok b' \<and> big_ok S \<and> big_ok mlo \<and> big_ok mhi \<and>
    10 \<le> unat (last (words S)) \<and> unat (last (words S)) < 2 ^ 28 \<and>
    big_value S = 5 ^ nat (s5 sc) * 2 ^ (nat (s2 sc) + of_bool special + i) \<and>
    big_value b' = big_value b * 5 ^ nat (b5 sc) * 2 ^ (nat (b2 sc) + of_bool special + i) * (if ten then 10 else 1) \<and>
    big_value mlo = 5 ^ nat (b5 sc) * 2 ^ (nat (m2 sc) + i) * (if ten then 10 else 1) \<and>
    big_value mhi = big_value mlo * 2 ^ of_bool special \<and>
    (ten \<longleftrightarrow> k_check \<and>
      big_value b * 5 ^ nat (b5 sc) * 2 ^ (nat (b2 sc) + of_bool special + i) < big_value S)"
proof -
  note nonneg = sc [unfolded scale_ok_def]
  obtain m b1 p1 where 1: "(if 0 < b5 sc then map_option (\<lambda>(mhi, p5s). (mhi, mult b mhi, p5s)) (pow5mult (nat (b5 sc)) p5s (i2b 1))
      else Some (i2b 1, b, p5s)) = Some (m, b1, p1)"
    "p5s_ok p1" "big_ok m" "big_ok b1" "big_value m = 5 ^ nat (b5 sc)" "big_value b1 = big_value b * 5 ^ nat (b5 sc)"
    using numerator_value [OF assms(1) b, of "b5 sc"] nonneg by blast
  obtain S1 p2 where 2: "(if 0 < s5 sc then pow5mult (nat (s5 sc)) p1 (i2b 1) else Some (i2b 1, p1)) = Some (S1, p2)"
    "p5s_ok p2" "big_ok S1" "big_value S1 = 5 ^ nat (s5 sc)"
    using divisor_value [OF 1(2), of "s5 sc"] nonneg by blast
  let ?sc = "if special then sc\<lparr>b2 := b2 sc + 1, s2 := s2 sc + 1\<rparr> else sc"
  let ?e = "of_bool special :: nat" and ?i = "alignment ?sc S1"
  obtain n where n: "bits_of n (big_value S1)" using bits_of_exists [of "big_value S1"] 2(4) by auto
  have fields: "b2 ?sc = b2 sc + int ?e" "s2 ?sc = s2 sc + int ?e" "m2 ?sc = m2 sc" "s5 ?sc = s5 sc" by simp_all
  have i: "0 \<le> ?i" "(n + s2 ?sc + ?i) mod 32 = 28"
    using alignment_value [OF 2(3) n, of ?sc] 2(4) fields(4) by simp_all
  obtain b2' where 3: "lshift_pos (b2 ?sc + ?i) b1 = Some b2'" "big_ok b2'" "big_value b2' = big_value b1 * 2 ^ nat (b2 ?sc + ?i)"
    using lshift_pos_value [OF 1(4), of "b2 ?sc + ?i"] 1(6) b(2) i(1) fields(1) nonneg by auto
  obtain S where S: "lshift_pos (s2 ?sc + ?i) S1 = Some S" "big_ok S" "big_value S = big_value S1 * 2 ^ nat (s2 ?sc + ?i)"
    using lshift_pos_value [OF 2(3), of "s2 ?sc + ?i"] 2(4) i(1) fields(2) nonneg by auto
  have high: "10 \<le> unat (last (words S))" "unat (last (words S)) < 2 ^ 28"
  proof -
    have "0 \<le> s2 ?sc + ?i" using i(1) nonneg by simp
    then have "bits_of (n + s2 ?sc + ?i) (big_value S)"
      using bits_of_shifted [OF n, of "nat (s2 ?sc + ?i)"] S(3) by (simp add: add.assoc)
    then show "10 \<le> unat (last (words S))" "unat (last (words S)) < 2 ^ 28"
      using high_word_of_bits [OF S(2) _ i(2)] by blast+
  qed
  obtain l where l: "(if k_check then cmp b2' S else Some 0) = Some l" "l < 0 \<longleftrightarrow> k_check \<and> big_value b2' < big_value S"
    using check_value [OF 3(2) S(2)] by blast
  obtain b' where b': "(if l < 0 then multadd 10 0 b2' else Some b2') = Some b'" "big_ok b'"
    "big_value b' = big_value b2' * (if l < 0 then 10 else 1)"
    using times_ten_if [OF 3(2)] by blast
  obtain m' where m': "(if l < 0 then multadd 10 0 m else Some m) = Some m'" "big_ok m'"
    "big_value m' = big_value m * (if l < 0 then 10 else 1)"
    using times_ten_if [OF 1(3)] by blast
  have pos: "0 < big_value m'" "0 \<le> m2 ?sc + ?i" unfolding fields m'(3) 1(5) using i(1) nonneg by simp_all
  obtain mlo where mlo: "lshift_pos (m2 ?sc + ?i) m' = Some mlo" "big_ok mlo" "big_value mlo = big_value m' * 2 ^ nat (m2 ?sc + ?i)"
    using lshift_pos_value [OF m'(2) pos] by blast
  obtain mhi where mhi: "(if special then lshift 1 mlo else Some mlo) = Some mhi" "big_ok mhi"
    "big_value mhi = big_value mlo * 2 ^ ?e"
    using lshift_value [OF mlo(2), of 1] mlo(2) by (cases special) auto
  have sums: "nat (b2 ?sc + ?i) = nat (b2 sc) + ?e + nat ?i" "nat (s2 ?sc + ?i) = nat (s2 sc) + ?e + nat ?i"
    "nat (m2 ?sc + ?i) = nat (m2 sc) + nat ?i"
    unfolding fields using i(1) nonneg by (simp_all add: nat_add_distrib)
  have "prepare sc k k_check special p5s b = Some (if l < 0 then k - 1 else k, b', S, mlo, mhi, p2)"
    unfolding prepare_def 1(1) 2(1) bind.bind_lunit prod.case Let_def 3(1) S(1) l(1) b'(1) m'(1) mlo(1) mhi(1) ..
  moreover have "big_value b2' = big_value b * 5 ^ nat (b5 sc) * 2 ^ (nat (b2 sc) + ?e + nat ?i)"
    unfolding 3(3) 1(6) sums ..
  moreover have "big_value S = 5 ^ nat (s5 sc) * 2 ^ (nat (s2 sc) + ?e + nat ?i)"
    unfolding S(3) 2(4) sums ..
  moreover have "big_value mlo = 5 ^ nat (b5 sc) * 2 ^ (nat (m2 sc) + nat ?i) * (if l < 0 then 10 else 1)"
    unfolding mlo(3) m'(3) 1(5) sums by (simp add: mult_ac)
  ultimately show ?thesis
    using 2(2) b'(2,3) S(2) mlo(2) mhi(2,3) high l(2)
    by (intro exI [of _ "nat ?i"] exI [of _ b'] exI [of _ S] exI [of _ mlo] exI [of _ mhi] exI [of _ p2] exI [of _ "l < 0"]) (simp only: simp_thms)
qed

end
