(* ===== verification/DoubleRounding.thy ===== *)
theory DoubleRounding
  imports DoubleBits
begin

text \<open>
  Which numbers are rounded to a given double: those between the midpoints to its neighbours. The
  midpoints belong to the double with the even significand.
\<close>

definition representable :: "rat \<Rightarrow> bool" where
  "representable y \<longleftrightarrow> (\<exists>f e. f < 2 ^ 53 \<and> - 1074 \<le> e \<and> y = of_nat f * 2 powi e)"

definition rounds_to :: "rat \<Rightarrow> dbits \<Rightarrow> bool" where
  "rounds_to x u \<longleftrightarrow>
    (\<forall>y. representable y \<and> y \<noteq> double_value u \<longrightarrow>
      \<bar>x - double_value u\<bar> < \<bar>x - y\<bar> \<or> \<bar>x - double_value u\<bar> = \<bar>x - y\<bar> \<and> even (significand u))"

definition lower_gap :: "dbits \<Rightarrow> rat" where
  "lower_gap u = (if spec_case u then 2 powi (exponent u - 2) else 2 powi (exponent u - 1))"

definition upper_gap :: "dbits \<Rightarrow> rat" where
  "upper_gap u = 2 powi (exponent u - 1)"

subsection \<open>The neighbours of a double\<close>

lemma powi_split: "m \<le> n \<Longrightarrow> (2 :: rat) powi n = 2 ^ nat (n - m) * 2 powi m"
  using power_int_add [of "2 :: rat" "n - m" m] by (simp add: power_int_def)

lemma powi_half: "(2 :: rat) powi n = 2 * 2 powi (n - 1)"
  using powi_split [of "n - 1" n] by simp

lemma significand_bound: "significand u < 2 ^ 53"
  using fraction_bound [of u] by (simp add: significand_def)

lemma exponent_bound: "- 1074 \<le> exponent u"
  by (simp add: exponent_def)

lemma normal_significand: "- 1074 < exponent u \<Longrightarrow> 2 ^ 52 \<le> significand u"
  by (auto simp: exponent_def significand_def max_def split: if_splits)

lemma spec_case_iff:
  assumes "unat (word0 u) < 2 ^ 31"
  shows "spec_case u \<longleftrightarrow> significand u = 2 ^ 52 \<and> - 1074 < exponent u"
proof -
  have w: "unat (word0 u) div 2 ^ 20 < 2 ^ 11" using assms by (simp add: less_mult_imp_div_less)
  have "(0x7fe00000 :: u32) = push_bit 21 (mask 10)" by (simp add: mask_eq_exp_minus_1)
  moreover have "x AND push_bit 21 (mask 10) = push_bit 21 (drop_bit 21 x AND mask 10)" for x :: u32
    by (rule bit_word_eqI) (auto simp: bit_simps)
  moreover have "push_bit 21 y = 0 \<longleftrightarrow> y = 0" if "unat y < 2 ^ 10" for y :: u32
  proof -
    have "unat y * 2 ^ 21 < 2 ^ 32" using that by simp
    then have "unat (push_bit 21 y) = unat y * 2 ^ 21" by (simp only: unat_shift_left mod_less)
    then show ?thesis by (metis mult_eq_0_iff power_not_zero unat_0 unat_eq_zero zero_neq_numeral)
  qed
  moreover have "unat (drop_bit 21 (word0 u) AND mask 10) = unat (word0 u) div 2 ^ 21 mod 2 ^ 10"
    by (simp only: unat_low_mask unat_shift_right)
  ultimately have "word0 u AND 0x7fe00000 = 0 \<longleftrightarrow> unat (word0 u) div 2 ^ 21 mod 2 ^ 10 = 0"
    by (metis mod_less_divisor unat_eq_zero zero_less_numeral zero_less_power)
  moreover have "unat (word0 u) div 2 ^ 21 = unat (word0 u) div 2 ^ 20 div 2" by (simp add: div_mult2_eq [symmetric])
  ultimately have "word0 u AND 0x7fe00000 = 0 \<longleftrightarrow> biased u < 2" using w by (simp add: biased_eq) linarith
  moreover have "fraction u = 0 \<longleftrightarrow> word1 u = 0 \<and> word0 u AND 0xfffff = 0"
    by (auto simp: fraction_def unat_eq_0)
  ultimately show ?thesis
    using fraction_bound [of u] by (auto simp: spec_case_def significand_def exponent_def max_def)
qed

lemma smaller_exponent:
  assumes "e < exponent u" and "f < 2 ^ 53" and "- 1074 \<le> e"
  shows "(of_nat f :: rat) * 2 powi e \<le> 2 ^ 52 * 2 powi exponent u - 2 powi (exponent u - 1)"
proof -
  have "of_nat f \<le> (2 ^ 53 - 1 :: rat)" using assms(2) of_nat_mono [of f "2 ^ 53 - 1", where 'a = rat] by simp
  then have "(of_nat f :: rat) * 2 powi e \<le> (2 ^ 53 - 1) * 2 powi e" by (intro mult_right_mono) simp_all
  also have "\<dots> \<le> (2 ^ 53 - 1) * 2 powi (exponent u - 1)" using assms(1) by (intro mult_left_mono power_int_increasing) simp_all
  also have "\<dots> = 2 ^ 52 * 2 powi exponent u - 2 powi (exponent u - 1)"
    unfolding powi_half [of "exponent u"] by (simp add: algebra_simps)
  finally show ?thesis .
qed

lemma larger_exponent:
  assumes "exponent u \<le> e"
  obtains g where "(of_nat f :: rat) * 2 powi e = of_nat g * 2 powi exponent u"
  using that [of "f * 2 ^ nat (e - exponent u)"] powi_split [OF assms] by simp

lemma gap_above:
  assumes "representable y" and "double_value u < y"
  shows "double_value u + 2 * upper_gap u \<le> y"
proof -
  let ?e = "exponent u" and ?f = "significand u"
  obtain f e where y: "f < 2 ^ 53" "- 1074 \<le> e" "y = of_nat f * 2 powi e" using assms(1) by (auto simp: representable_def)
  have "\<not> e < ?e"
  proof
    assume less: "e < ?e"
    then have "2 ^ 52 \<le> (of_nat ?f :: rat)"
      using normal_significand [of u] y(2) of_nat_mono [of "2 ^ 52" ?f, where 'a = rat] by simp
    then have "2 ^ 52 * 2 powi ?e \<le> double_value u" unfolding double_value_def by (intro mult_right_mono) simp_all
    moreover have "0 < (2 :: rat) powi (?e - 1)" by simp
    ultimately show False using smaller_exponent [OF less y(1,2)] assms(2) y(3) by linarith
  qed
  then obtain g where g: "y = of_nat g * 2 powi ?e" using larger_exponent [of u e f] y(3) by auto
  then have "?f < g" using assms(2) by (simp add: double_value_def)
  then have "of_nat ?f + 1 \<le> (of_nat g :: rat)" using of_nat_mono [of "Suc ?f" g, where 'a = rat] by simp
  then have "(of_nat ?f + 1) * 2 powi ?e \<le> y" unfolding g by (intro mult_right_mono) simp_all
  then show ?thesis by (simp add: double_value_def upper_gap_def algebra_simps powi_half [of ?e])
qed

lemma gap_below:
  assumes "unat (word0 u) < 2 ^ 31" and "representable y" and "y < double_value u"
  shows "y \<le> double_value u - 2 * lower_gap u"
proof -
  let ?e = "exponent u" and ?f = "significand u"
  obtain f e where y: "f < 2 ^ 53" "- 1074 \<le> e" "y = of_nat f * 2 powi e" using assms(2) by (auto simp: representable_def)
  have gap: "2 * lower_gap u = (if spec_case u then 2 powi (?e - 1) else 2 powi ?e)"
    using powi_half [of ?e] powi_half [of "?e - 1"] by (simp add: lower_gap_def)
  have le: "2 powi (?e - 1) \<le> (2 powi ?e :: rat)" by (intro power_int_increasing) simp_all
  show ?thesis
  proof (cases "e < ?e")
    case True
    then have big: "2 ^ 52 \<le> ?f" using normal_significand [of u] y(2) by simp
    show ?thesis
    proof (cases "spec_case u")
      case True
      then have "double_value u = 2 ^ 52 * 2 powi ?e"
        using spec_case_iff [OF assms(1)] by (simp add: double_value_def)
      then show ?thesis using smaller_exponent [OF \<open>e < ?e\<close> y(1,2)] y(3) True gap by simp
    next
      case False
      then have "Suc (2 ^ 52) \<le> ?f" using big spec_case_iff [OF assms(1)] \<open>e < ?e\<close> y(2) by linarith
      then have "2 ^ 52 + 1 \<le> (of_nat ?f :: rat)" using of_nat_mono [of "Suc (2 ^ 52)" ?f, where 'a = rat] by simp
      then have "(2 ^ 52 + 1) * 2 powi ?e \<le> double_value u" unfolding double_value_def by (intro mult_right_mono) simp_all
      moreover have "0 < (2 :: rat) powi (?e - 1)" by simp
      ultimately show ?thesis using smaller_exponent [OF \<open>e < ?e\<close> y(1,2)] y(3) False gap
        by (simp only: if_False distrib_right mult_1)
    qed
  next
    case False
    then obtain g where g: "y = of_nat g * 2 powi ?e" using larger_exponent [of u e f] y(3) by auto
    then have "g < ?f" using assms(3) by (simp add: double_value_def)
    then have "of_nat g + 1 \<le> (of_nat ?f :: rat)" using of_nat_mono [of "Suc g" ?f, where 'a = rat] by simp
    then have "(of_nat g + 1) * 2 powi ?e \<le> double_value u" unfolding double_value_def by (intro mult_right_mono) simp_all
    then show ?thesis using le gap unfolding g by (simp add: algebra_simps split: if_splits)
  qed
qed

lemma neighbour_above: "representable (double_value u + 2 * upper_gap u)"
proof -
  have eq: "double_value u + 2 * upper_gap u = of_nat (Suc (significand u)) * 2 powi exponent u"
    by (simp add: double_value_def upper_gap_def algebra_simps powi_half [of "exponent u"])
  show ?thesis
  proof (cases "Suc (significand u) = 2 ^ 53")
    case True
    have "(of_nat (Suc (significand u)) :: rat) = 2 ^ 53" unfolding True by simp
    then have "double_value u + 2 * upper_gap u = of_nat (2 ^ 52) * 2 powi (exponent u + 1)"
      unfolding eq by (simp add: power_int_add)
    moreover have "(2 :: nat) ^ 52 < 2 ^ 53" "- 1074 \<le> exponent u + 1" using exponent_bound [of u] by simp_all
    ultimately show ?thesis unfolding representable_def by blast
  next
    case False
    then have "Suc (significand u) < 2 ^ 53" using significand_bound [of u] by simp
    then show ?thesis using eq exponent_bound [of u] unfolding representable_def by metis
  qed
qed

lemma neighbour_below:
  assumes "unat (word0 u) < 2 ^ 31" and "0 < significand u"
  shows "representable (double_value u - 2 * lower_gap u)"
proof (cases "spec_case u")
  case True
  then have f: "significand u = 2 ^ 52" "- 1074 < exponent u" using spec_case_iff [OF assms(1)] by simp_all
  have "2 * lower_gap u = 2 powi (exponent u - 1)"
    using True powi_half [of "exponent u - 1"] by (simp add: lower_gap_def)
  moreover have "double_value u = 2 ^ 53 * 2 powi (exponent u - 1)"
    unfolding double_value_def f(1) powi_half [of "exponent u"] by simp
  ultimately have "double_value u - 2 * lower_gap u = of_nat (2 ^ 53 - 1) * 2 powi (exponent u - 1)"
    by (simp add: algebra_simps)
  moreover have "(2 :: nat) ^ 53 - 1 < 2 ^ 53" "- 1074 \<le> exponent u - 1" using f(2) by simp_all
  ultimately show ?thesis unfolding representable_def by blast
next
  case False
  have "double_value u - 2 * lower_gap u = of_nat (significand u - 1) * 2 powi exponent u"
    using False assms(2) powi_half [of "exponent u"]
    by (simp add: double_value_def lower_gap_def of_nat_diff algebra_simps)
  moreover have "significand u - 1 < 2 ^ 53" using significand_bound [of u] by simp
  ultimately show ?thesis using exponent_bound [of u] unfolding representable_def by blast
qed

subsection \<open>Rounding\<close>

definition between_midpoints :: "rat \<Rightarrow> dbits \<Rightarrow> bool" where
  "between_midpoints x u \<longleftrightarrow>
    (if even (significand u) then double_value u - lower_gap u \<le> x \<and> x \<le> double_value u + upper_gap u
     else double_value u - lower_gap u < x \<and> x < double_value u + upper_gap u)"

lemma gaps_pos: "0 < lower_gap u" "0 < upper_gap u"
  by (simp_all add: lower_gap_def upper_gap_def)

theorem rounds_to_iff:
  assumes "unat (word0 u) < 2 ^ 31" and "0 < significand u"
  shows "rounds_to x u \<longleftrightarrow> between_midpoints x u"
proof
  let ?v = "double_value u" and ?a = "double_value u + 2 * upper_gap u" and ?b = "double_value u - 2 * lower_gap u"
  assume "rounds_to x u"
  moreover have "?a \<noteq> ?v" "?b \<noteq> ?v" using gaps_pos [of u] by simp_all
  ultimately have "\<bar>x - ?v\<bar> < \<bar>x - ?a\<bar> \<or> \<bar>x - ?v\<bar> = \<bar>x - ?a\<bar> \<and> even (significand u)"
    "\<bar>x - ?v\<bar> < \<bar>x - ?b\<bar> \<or> \<bar>x - ?v\<bar> = \<bar>x - ?b\<bar> \<and> even (significand u)"
    using neighbour_above [of u] neighbour_below [OF assms] unfolding rounds_to_def by blast+
  then show "between_midpoints x u" using gaps_pos [of u] unfolding between_midpoints_def by (auto simp: abs_if split: if_splits)
next
  assume x: "between_midpoints x u"
  show "rounds_to x u"
    unfolding rounds_to_def
  proof (intro allI impI)
    fix y assume y: "representable y \<and> y \<noteq> double_value u"
    then consider "double_value u + 2 * upper_gap u \<le> y" | "y \<le> double_value u - 2 * lower_gap u"
      using gap_above [of y u] gap_below [OF assms(1), of y] by linarith
    then show "\<bar>x - double_value u\<bar> < \<bar>x - y\<bar> \<or> \<bar>x - double_value u\<bar> = \<bar>x - y\<bar> \<and> even (significand u)"
      using x gaps_pos [of u] unfolding between_midpoints_def by cases (auto simp: abs_if split: if_splits)
  qed
qed

end
