(* ===== verification/DtoaShortest.thy ===== *)
theory DtoaShortest
  imports DtoaScaling DoubleRounding
begin

text \<open>
  The digits that \<open>dtoa\<close> returns for a double: the shortest that are rounded to it, and among
  those the closest.
\<close>

subsection \<open>Scaling\<close>

lemma scale_value:
  assumes "i = bbits + be - 1" and "(if denorm then be + 1075 else 54 - bbits) = h" and "1 \<le> h"
  shows "scale_ok (scale be bbits i k denorm)"
    and "b2 (scale be bbits i k denorm) - s2 (scale be bbits i k denorm) = be - k"
    and "m2 (scale be bbits i k denorm) - s2 (scale be bbits i k denorm) = be - k - h"
    and "b5 (scale be bbits i k denorm) - s5 (scale be bbits i k denorm) = - k"
  using assms(1,3) unfolding scale_def initial_scale_def assms(2) by (auto simp: scale_ok_def Let_def)

lemma of_nat_powi: "0 \<le> n \<Longrightarrow> of_nat (m ^ nat n) = (of_nat m :: rat) powi n"
  by (simp add: power_int_def)

lemma ten_powi: "(10 :: rat) powi n = 2 powi n * 5 powi n"
  using power_int_mult_distrib [of "2 :: rat" 5 n] by simp

text \<open>A quotient of powers of 2 and 5 as a power of ten.\<close>

lemma scaled_quotient:
  assumes "0 \<le> n2" "0 \<le> n5" "0 \<le> d2" "0 \<le> d5" and "n2 - d2 = e - k" and "n5 - d5 = - k"
  shows "of_nat (c * 5 ^ nat n5 * 2 ^ (nat n2 + i)) =
    (of_nat (5 ^ nat d5 * 2 ^ (nat d2 + i)) :: rat) * (of_nat c * 2 powi e / 10 powi k)"
proof -
  have "n5 = d5 - k" "n2 = d2 + (e - k)" using assms(5,6) by simp_all
  then have "(5 :: rat) powi n5 = 5 powi d5 / 5 powi k" "(2 :: rat) powi n2 = 2 powi d2 * (2 powi e / 2 powi k)"
    by (simp_all add: power_int_add power_int_diff)
  then have "(5 :: rat) ^ nat n5 = 5 ^ nat d5 / 5 powi k" "(2 :: rat) ^ nat n2 = 2 ^ nat d2 * (2 powi e / 2 powi k)"
    using of_nat_powi [OF assms(1), of 2] of_nat_powi [OF assms(2), of 5]
      of_nat_powi [OF assms(3), of 2] of_nat_powi [OF assms(4), of 5] by simp_all
  then show ?thesis by (simp add: power_add ten_powi field_simps)
qed

text \<open>What the loop starts with, as rational numbers.\<close>

definition loop_start :: "dbits \<Rightarrow> int \<Rightarrow> nat \<Rightarrow> nat \<Rightarrow> nat \<Rightarrow> nat \<Rightarrow> bool" where
  "loop_start u k S b mlo mhi \<longleftrightarrow> 0 < S \<and>
    (of_nat b :: rat) = of_nat S * (double_value u / 10 powi k) \<and>
    (of_nat mlo :: rat) = of_nat S * (lower_gap u / 10 powi k) \<and>
    (of_nat mhi :: rat) = of_nat S * (upper_gap u / 10 powi k)"

lemma spec_gap: "lower_gap u * 2 ^ of_bool (spec_case u) = upper_gap u"
  using powi_half [of "exponent u - 1"] by (simp add: lower_gap_def upper_gap_def)

lemma prepare_start:
  assumes d: "d2b u = (u, b, exponent u + h, n)" "0 \<le> h" "big_value b * 2 ^ nat h = significand u" "big_ok b"
      "bits_of n (big_value b)"
    and "p5s_ok p5s" and "0 < significand u" and "i = n + (exponent u + h) - 1"
  shows "\<exists>k' b' S mlo mhi q.
    prepare (scale (exponent u + h) n i k (biased u = 0)) k k_check (spec_case u) p5s b = Some (k', b', S, mlo, mhi, q) \<and>
    p5s_ok q \<and> big_ok b' \<and> big_ok S \<and> big_ok mlo \<and> big_ok mhi \<and>
    10 \<le> unat (last (words S)) \<and> unat (last (words S)) < 2 ^ 28 \<and>
    loop_start u k' (big_value S) (big_value b') (big_value mlo) (big_value mhi) \<and>
    k' = (if k_check \<and> double_value u < 10 powi k then k - 1 else k)"
proof -
  let ?be = "exponent u + h" and ?sc = "scale (exponent u + h) n i k (biased u = 0)" and ?e = "of_bool (spec_case u) :: nat"
  have pos: "0 < big_value b" using bits_of_pos [OF d(5)] .
  have half: "(if biased u = 0 then ?be + 1075 else 54 - n) = 1 + h"
  proof (cases "biased u = 0")
    case False
    then have "bits_of 53 (significand u)" using fraction_bound [of u] by (simp add: bits_of_def significand_def)
    then have "bits_of (53 - int (nat h)) (big_value b)" using bits_of_scaled pos d(3) by metis
    then show ?thesis using bits_of_unique [OF d(5)] d(2) False by fastforce
  qed (simp add: exponent_def)
  have "1 \<le> 1 + h" using d(2) by simp
  note sc = scale_value [OF assms(8) half this, of k]
  note ok = sc(1)
  note fields = ok [unfolded scale_ok_def]
  obtain j b' S mlo mhi q ten where p:
    "prepare ?sc k k_check (spec_case u) p5s b = Some (if ten then k - 1 else k, b', S, mlo, mhi, q)"
    "p5s_ok q" "big_ok b'" "big_ok S" "big_ok mlo" "big_ok mhi" "10 \<le> unat (last (words S))" "unat (last (words S)) < 2 ^ 28"
    "big_value S = 5 ^ nat (s5 ?sc) * 2 ^ (nat (s2 ?sc) + ?e + j)"
    "big_value b' = big_value b * 5 ^ nat (b5 ?sc) * 2 ^ (nat (b2 ?sc) + ?e + j) * (if ten then 10 else 1)"
    "big_value mlo = 5 ^ nat (b5 ?sc) * 2 ^ (nat (m2 ?sc) + j) * (if ten then 10 else 1)"
    "big_value mhi = big_value mlo * 2 ^ ?e"
    "ten \<longleftrightarrow> k_check \<and> big_value b * 5 ^ nat (b5 ?sc) * 2 ^ (nat (b2 ?sc) + ?e + j) < big_value S"
    using prepare_value [OF assms(6) d(4) pos ok, of k k_check "spec_case u"] by blast
  have S: "0 < big_value S" unfolding p(9) by simp
  have v: "of_nat (big_value b) * 2 powi ?be = double_value u"
    unfolding double_value_def d(3) [symmetric] using of_nat_powi [OF d(2), of 2] by (simp add: power_int_add)
  have b: "(of_nat (big_value b * 5 ^ nat (b5 ?sc) * 2 ^ (nat (b2 ?sc) + ?e + j)) :: rat) =
      of_nat (big_value S) * (double_value u / 10 powi k)"
    unfolding p(9) v [symmetric] add.assoc
    by (rule scaled_quotient) (use fields sc in simp_all)
  have m: "(of_nat (5 ^ nat (b5 ?sc) * 2 ^ (nat (m2 ?sc) + j)) :: rat) = of_nat (big_value S) * (lower_gap u / 10 powi k)"
  proof -
    have "exponent u - 1 = ?be - (1 + h)" by simp
    then have gap: "upper_gap u = of_nat 1 * 2 powi (?be - (1 + h))" by (simp only: upper_gap_def of_nat_1 mult_1)
    have m: "m2 ?sc - s2 ?sc = ?be - (1 + h) - k" using sc(3) by linarith
    have "(of_nat (1 * 5 ^ nat (b5 ?sc) * 2 ^ (nat (m2 ?sc) + j)) :: rat) =
        of_nat (5 ^ nat (s5 ?sc) * 2 ^ (nat (s2 ?sc) + j)) * (upper_gap u / 10 powi k)"
      unfolding gap by (rule scaled_quotient) (use fields sc(4) m in blast)+
    moreover
    have "big_value S = 5 ^ nat (s5 ?sc) * 2 ^ (nat (s2 ?sc) + j) * 2 ^ ?e"
      unfolding p(9) by (simp add: power_add)
    ultimately show ?thesis using spec_gap [of u] by (simp add: field_simps)
  qed
  have "loop_start u (if ten then k - 1 else k) (big_value S) (big_value b') (big_value mlo) (big_value mhi)"
    unfolding loop_start_def p(12) of_nat_mult [of _ "2 ^ ?e"] p(10) p(11) of_nat_mult [of _ "if ten then 10 else 1"] b m spec_gap [symmetric]
    using S by (simp add: power_int_diff field_simps)
  moreover
  have "ten \<longleftrightarrow> k_check \<and> double_value u < 10 powi k"
  proof -
    have "big_value b * 5 ^ nat (b5 ?sc) * 2 ^ (nat (b2 ?sc) + ?e + j) < big_value S \<longleftrightarrow>
        (of_nat (big_value S) :: rat) * (double_value u / 10 powi k) < of_nat (big_value S)"
      unfolding b [symmetric] by (rule of_nat_less_iff [symmetric])
    also have "\<dots> \<longleftrightarrow> double_value u < 10 powi k"
      using S by (simp add: divide_less_eq field_simps)
    finally show ?thesis unfolding p(13) by simp
  qed
  then have "(if ten then k - 1 else k) = (if k_check \<and> double_value u < 10 powi k then k - 1 else k)" by simp
  ultimately show ?thesis
    using p(1-8)
    by (intro exI [of _ "if ten then k - 1 else k"] exI [of _ b'] exI [of _ S] exI [of _ mlo] exI [of _ mhi] exI [of _ q])
      (simp only: simp_thms)
qed

subsection \<open>From the numbers of the loop to the double\<close>

lemma inside_between:
  assumes "loop_start u k S b mlo mhi" and "ties \<longleftrightarrow> even (significand u)"
  shows "inside ties (b * 10 ^ n) (mlo * 10 ^ n) (mhi * 10 ^ n) (y * S) \<longleftrightarrow>
    between_midpoints (of_nat y * 10 powi (k - int n)) u"
proof -
  let ?q = "of_nat S / 10 powi k * 10 ^ n :: rat"
  have S: "0 < ?q" using assms(1) by (simp add: loop_start_def)
  have eqs: "(of_nat (b * 10 ^ n) :: rat) = ?q * double_value u" "(of_nat (mlo * 10 ^ n) :: rat) = ?q * lower_gap u"
    "(of_nat (mhi * 10 ^ n) :: rat) = ?q * upper_gap u"
    using assms(1) by (simp_all add: loop_start_def)
  have y: "(of_nat (y * S) :: rat) = ?q * (of_nat y * 10 powi (k - int n))" by (simp add: power_int_diff)
  have le: "b * 10 ^ n \<le> y * S + mlo * 10 ^ n \<longleftrightarrow> double_value u - lower_gap u \<le> of_nat y * 10 powi (k - int n)"
    "b * 10 ^ n < y * S + mlo * 10 ^ n \<longleftrightarrow> double_value u - lower_gap u < of_nat y * 10 powi (k - int n)"
    "y * S \<le> b * 10 ^ n + mhi * 10 ^ n \<longleftrightarrow> of_nat y * 10 powi (k - int n) \<le> double_value u + upper_gap u"
    "y * S < b * 10 ^ n + mhi * 10 ^ n \<longleftrightarrow> of_nat y * 10 powi (k - int n) < double_value u + upper_gap u"
    unfolding of_nat_le_iff [where 'a = rat, symmetric] of_nat_less_iff [where 'a = rat, symmetric] of_nat_add eqs y
      distrib_left [symmetric] mult_le_cancel_left_pos [OF S] mult_less_cancel_left_pos [OF S]
    by (simp_all add: diff_le_eq diff_less_eq)
  show ?thesis unfolding inside_def between_midpoints_def assms(2) le ..
qed

lemma five_not_dvd: "\<not> (5 :: nat) dvd 2 ^ n"
proof (induction n)
  case (Suc n)
  have "\<not> 5 dvd 2 * x" if "\<not> 5 dvd x" for x :: nat using that by presburger
  from this [OF Suc] show ?case by (simp only: power_Suc not_False_eq_True)
qed simp

lemma not_a_power_of_ten:
  assumes "exponent u = - 1074" and "double_value u + upper_gap u = 10 powi k"
  shows False
proof -
  let ?f = "significand u"
  have "double_value u + upper_gap u = (of_nat (2 * ?f + 1) :: rat) * 2 powi - 1075"
    using powi_half [of "- 1074"] assms(1) by (simp add: double_value_def upper_gap_def algebra_simps)
  then have eq: "(of_nat (2 * ?f + 1) :: rat) = 2 ^ 1075 * 10 powi k"
    using assms(2) by (simp add: power_int_minus field_simps)
  show False
  proof (cases "0 \<le> k")
    case True
    then have "of_nat (2 * ?f + 1) = (of_nat (2 ^ 1075 * 10 ^ nat k) :: rat)" using eq by (simp add: power_int_def)
    then have "2 * ?f + 1 = 2 ^ 1075 * 10 ^ nat k" by (simp only: of_nat_eq_iff)
    moreover have "even (2 ^ 1075 * 10 ^ nat k :: nat)" unfolding even_mult_iff even_power by simp
    ultimately have "even (2 * ?f + 1)" by (simp only:)
    then show False by simp
  next
    case False
    then have "(10 :: rat) powi k = inverse (10 ^ nat (- k))" by (simp add: power_int_def power_one_over inverse_eq_divide)
    then have "(of_nat ((2 * ?f + 1) * 10 ^ nat (- k)) :: rat) = of_nat (2 ^ 1075)"
      by (simp only: of_nat_mult of_nat_power of_nat_numeral eq \<open>10 powi k = _\<close>) simp
    then have eq': "(2 * ?f + 1) * 10 ^ nat (- k) = 2 ^ 1075" by (simp only: of_nat_eq_iff)
    have "0 < nat (- k)" using False by simp
    then have "(10 :: nat) dvd 10 ^ nat (- k)" by simp
    then have "(5 :: nat) dvd 10 ^ nat (- k)" by (rule dvd_trans [rotated]) simp
    then have "(5 :: nat) dvd 2 ^ 1075" using eq' by (metis dvd_mult)
    then show False using five_not_dvd by blast
  qed
qed

lemma midpoint_small:
  assumes "unat (word0 u) < 2 ^ 31" and "0 < significand u"
  shows "lower_gap u \<le> upper_gap u" and "upper_gap u < double_value u"
    and "- 1074 < exponent u \<Longrightarrow> 2 ^ 53 * upper_gap u \<le> double_value u"
    and "double_value u < 2 ^ 55 * lower_gap u"
proof -
  let ?e = "exponent u" and ?f = "significand u"
  have v: "double_value u = of_nat ?f * 2 * upper_gap u" using powi_half [of ?e] by (simp add: double_value_def upper_gap_def)
  have "lower_gap u = (if spec_case u then upper_gap u / 2 else upper_gap u)"
    using powi_half [of "?e - 1"] by (simp add: lower_gap_def upper_gap_def)
  then have low: "lower_gap u \<le> upper_gap u" "upper_gap u \<le> 2 * lower_gap u" using gaps_pos [of u] by (auto split: if_splits)
  then show "lower_gap u \<le> upper_gap u" by simp
  have f: "1 \<le> (of_nat ?f :: rat)" "(of_nat ?f :: rat) < 2 ^ 53"
    using assms(2) significand_bound [of u] of_nat_less_iff [of ?f "2 ^ 53", where 'a = rat] by simp_all
  have "of_nat ?f * 2 * upper_gap u < 2 ^ 53 * 2 * upper_gap u" using f(2) gaps_pos [of u] by simp
  then show "double_value u < 2 ^ 55 * lower_gap u" unfolding v using low(2) by simp
  have "1 * 2 * upper_gap u \<le> of_nat ?f * 2 * upper_gap u" using f(1) gaps_pos [of u] by (intro mult_right_mono) simp_all
  then show "upper_gap u < double_value u" unfolding v using gaps_pos [of u] by simp
  show "2 ^ 53 * upper_gap u \<le> double_value u" if "- 1074 < ?e"
  proof -
    have "2 ^ 52 \<le> (of_nat ?f :: rat)"
      using normal_significand [OF that] of_nat_mono [of "2 ^ 52" ?f, where 'a = rat] by simp
    then have "2 ^ 52 * 2 * upper_gap u \<le> of_nat ?f * 2 * upper_gap u" using gaps_pos [of u] by (intro mult_right_mono) simp_all
    then show ?thesis unfolding v by simp
  qed
qed

lemma start_inv:
  assumes u: "unat (word0 u) < 2 ^ 31" "0 < significand u" and start: "loop_start u k S b mlo mhi"
    and k: "10 powi k \<le> double_value u" "double_value u < 10 powi (k + 1)"
  shows "digits_inv ties S b mlo mhi [] b mlo mhi"
proof -
  have S: "0 < (of_nat S :: rat)" and ten: "0 < (10 :: rat) powi k" using start by (simp_all add: loop_start_def)
  have eqs: "(of_nat b :: rat) = of_nat S * (double_value u / 10 powi k)" "(of_nat mlo :: rat) = of_nat S * (lower_gap u / 10 powi k)"
    "(of_nat mhi :: rat) = of_nat S * (upper_gap u / 10 powi k)"
    using start by (simp_all add: loop_start_def)
  have "0 < mlo" "0 < b" using gaps_pos [of u] S ten k(1) eqs(1,2)
    by (metis divide_pos_pos mult_pos_pos of_nat_0_less_iff order.strict_trans2)+
  moreover have "mlo \<le> mhi" "S \<le> b" "b < 10 * S"
    unfolding of_nat_le_iff [where 'a = rat, symmetric] of_nat_less_iff [where 'a = rat, symmetric] of_nat_mult eqs
    using S ten k midpoint_small(1) [OF u] by (simp_all add: field_simps power_int_add)
  moreover have "mlo + mhi < S" if "b + mhi = 10 * S"
  proof -
    have "(of_nat (b + mhi) :: rat) = of_nat (10 * S)" using that by simp
    then have "of_nat S * (double_value u + upper_gap u) = of_nat S * 10 powi (k + 1)"
      using ten by (simp add: eqs field_simps power_int_add)
    then have top: "double_value u + upper_gap u = 10 powi (k + 1)" using S by simp
    then have "exponent u \<noteq> - 1074" using not_a_power_of_ten by blast
    then have "2 ^ 53 * upper_gap u \<le> double_value u" using midpoint_small(3) [OF u] exponent_bound [of u] by simp
    moreover have "20 * upper_gap u \<le> 2 ^ 53 * upper_gap u" using gaps_pos [of u] by simp
    moreover have "(10 :: rat) powi (k + 1) = 10 powi k * 10" by (simp add: power_int_add)
    ultimately have "lower_gap u + upper_gap u < 10 powi k"
      using midpoint_small(1) [OF u] k(2) ten gaps_pos [of u] by linarith
    then have "(of_nat S :: rat) * ((lower_gap u + upper_gap u) / 10 powi k) < of_nat S * 1"
      using S ten by (intro mult_strict_left_mono) simp_all
    then have "(of_nat (mlo + mhi) :: rat) < of_nat S" by (simp add: eqs add_divide_distrib distrib_left)
    then show ?thesis by (simp only: of_nat_less_iff)
  qed
  ultimately show ?thesis by (simp add: digits_inv_def digits_value_def)
qed

subsection \<open>The shortest decimal number\<close>

definition decimal :: "int list \<Rightarrow> int \<Rightarrow> rat" where
  "decimal s decpt = of_nat (digits_value 0 s) * 10 powi (decpt - int (length s))"

text \<open>
  The digits \<open>s\<close> with the point after the first \<open>decpt\<close> of them: rounded to \<open>u\<close>, no number with
  fewer digits is, and none with as many is closer.
\<close>

definition shortest_decimal :: "dbits \<Rightarrow> int list \<Rightarrow> int \<Rightarrow> bool" where
  "shortest_decimal u s decpt \<longleftrightarrow>
    s \<noteq> [] \<and> digits s \<and> hd s \<noteq> 48 \<and> last s \<noteq> 48 \<and> rounds_to (decimal s decpt) u \<and>
    (\<forall>y e. y < 10 ^ (length s - 1) \<longrightarrow> \<not> rounds_to (of_nat y * 10 powi e) u) \<and>
    (\<forall>y. rounds_to (of_nat y * 10 powi (decpt - int (length s))) u \<longrightarrow>
      \<bar>decimal s decpt - double_value u\<bar> \<le> \<bar>of_nat y * 10 powi (decpt - int (length s)) - double_value u\<bar>)"

text \<open>Numbers with fewer digits, at any exponent.\<close>

lemma fewer_digits:
  assumes k: "10 powi k \<le> double_value u" and none: "\<And>y. \<not> between_midpoints (of_nat y * 10 powi (k - int n)) u"
    and y: "y < 10 ^ Suc n"
  shows "\<not> between_midpoints (of_nat y * 10 powi e) u"
proof (cases "k - int n \<le> e")
  case True
  have "(10 :: rat) powi e = of_nat (10 ^ nat (e - (k - int n))) * 10 powi (k - int n)"
    using power_int_add [of "10 :: rat" "e - (k - int n)" "k - int n"] True by (simp add: power_int_def)
  then show ?thesis using none [of "y * 10 ^ nat (e - (k - int n))"] by (simp add: mult.assoc)
next
  case False
  have "(of_nat y :: rat) \<le> 10 ^ Suc n" using y of_nat_mono [of y "10 ^ Suc n", where 'a = rat] by simp
  then have "of_nat y * 10 powi e \<le> (10 ^ Suc n :: rat) * 10 powi e" by (intro mult_right_mono) simp_all
  also have "\<dots> = 10 powi (int (Suc n) + e)" by (simp add: power_int_add)
  also have "\<dots> \<le> 10 powi k" using False by (intro power_int_increasing) simp_all
  finally have "of_nat y * 10 powi e \<le> (10 powi k :: rat)" .
  moreover have "(10 powi k :: rat) = of_nat (10 ^ n) * 10 powi (k - int n)" by (simp add: power_int_diff)
  then have "\<not> between_midpoints (10 powi k) u" using none [of "10 ^ n"] by simp
  ultimately show ?thesis using k gaps_pos [of u] by (auto simp: between_midpoints_def split: if_splits)
qed

lemma closer_rational:
  assumes "loop_start u k S b mlo mhi" and "\<bar>int (x * S) - int (b * 10 ^ n)\<bar> \<le> \<bar>int (y * S) - int (b * 10 ^ n)\<bar>"
  shows "\<bar>of_nat x * 10 powi (k - int n) - double_value u\<bar> \<le> \<bar>of_nat y * 10 powi (k - int n) - double_value u\<bar>"
proof -
  let ?q = "of_nat S / 10 powi k * 10 ^ n :: rat"
  have q: "0 < ?q" using assms(1) by (simp add: loop_start_def)
  have b: "(of_nat (b * 10 ^ n) :: rat) = ?q * double_value u" using assms(1) by (simp add: loop_start_def)
  have distance: "of_int \<bar>int (z * S) - int (b * 10 ^ n)\<bar> = ?q * \<bar>of_nat z * 10 powi (k - int n) - double_value u\<bar>" for z
  proof -
    have "(of_nat (z * S) :: rat) = ?q * (of_nat z * 10 powi (k - int n))" by (simp add: power_int_diff)
    then have "of_int \<bar>int (z * S) - int (b * 10 ^ n)\<bar> = \<bar>?q * (of_nat z * 10 powi (k - int n)) - ?q * double_value u\<bar>"
      unfolding b [symmetric] by (simp only: of_int_abs of_int_diff of_int_of_nat_eq)
    then show ?thesis unfolding right_diff_distrib [symmetric] abs_mult [of ?q] abs_of_pos [OF q] .
  qed
  have "(of_int \<bar>int (x * S) - int (b * 10 ^ n)\<bar> :: rat) \<le> of_int \<bar>int (y * S) - int (b * 10 ^ n)\<bar>"
    using assms(2) by (simp only: of_int_le_iff)
  then show ?thesis unfolding distance using q by (simp only: mult_le_cancel_left_pos)
qed

lemma shortest_to_decimal:
  assumes u: "unat (word0 u) < 2 ^ 31" "0 < significand u" and start: "loop_start u k S b mlo mhi"
    and ties: "ties \<longleftrightarrow> even (significand u)" and k: "10 powi k \<le> double_value u"
    and s: "shortest ties S b mlo mhi s c"
  shows "shortest_decimal u s (k + int c + 1)" and "length s \<le> 18"
proof -
  note inside = inside_between [OF start ties]
  let ?n = "length s - 1" and ?e = "k + int c + 1 - int (length s)"
  have ne: "s \<noteq> []" using s by (simp add: shortest_def)
  then have n: "int (length s) = int ?n + 1" by (cases s) simp_all
  have e: "(10 :: rat) powi ?e = 10 ^ c * 10 powi (k - int ?n)" unfolding n using power_int_add [of "10 :: rat" "int c" "k - int ?n"] by (simp add: algebra_simps)
  have best: "closest ties (b * 10 ^ ?n) (mlo * 10 ^ ?n) (mhi * 10 ^ ?n) S (digits_value 0 s * 10 ^ c)"
    using s by (simp add: shortest_def Let_def)
  have dec: "decimal s (k + int c + 1) = of_nat (digits_value 0 s * 10 ^ c) * 10 powi (k - int ?n)"
    unfolding decimal_def e by simp
  have rounds: "rounds_to (decimal s (k + int c + 1)) u"
    using best inside unfolding closest_def dec rounds_to_iff [OF u] by blast
  moreover have "\<not> rounds_to (of_nat y * 10 powi e) u" if "y < 10 ^ ?n" for y e
  proof (cases "?n")
    case 0
    then have "y = 0" using that by simp
    then show ?thesis
      unfolding rounds_to_iff [OF u] using midpoint_small(1,2) [OF u] by (simp add: between_midpoints_def)
  next
    case (Suc m)
    have "\<not> between_midpoints (of_nat z * 10 powi (k - int m)) u" for z
      using s Suc unfolding shortest_def inside [symmetric] by auto
    then show ?thesis unfolding rounds_to_iff [OF u] using fewer_digits [OF k] that Suc by metis
  qed
  moreover have "\<bar>decimal s (k + int c + 1) - double_value u\<bar> \<le> \<bar>of_nat y * 10 powi ?e - double_value u\<bar>"
    if "rounds_to (of_nat y * 10 powi ?e) u" for y
  proof -
    have y: "of_nat y * 10 powi ?e = (of_nat (y * 10 ^ c) * 10 powi (k - int ?n) :: rat)" unfolding e by simp
    then have "inside ties (b * 10 ^ ?n) (mlo * 10 ^ ?n) (mhi * 10 ^ ?n) (y * 10 ^ c * S)"
      using that unfolding inside rounds_to_iff [OF u] y by blast
    then show ?thesis using closer_rational [OF start] best unfolding closest_def y dec by blast
  qed
  ultimately show "shortest_decimal u s (k + int c + 1)" using s by (simp add: shortest_decimal_def shortest_def)
  show "length s \<le> 18"
  proof (rule ccontr)
    assume long: "\<not> length s \<le> 18"
    then have "mlo * 10 ^ 17 \<le> mlo * 10 ^ (length s - 2)" by (intro mult_le_mono2 power_increasing) simp_all
    also have "\<dots> < S" using s long by (simp add: shortest_def)
    finally have "(of_nat mlo :: rat) * 10 ^ 17 < of_nat S"
      using of_nat_less_iff [of "mlo * 10 ^ 17" S, where 'a = rat] by simp
    then have "of_nat S * (lower_gap u / 10 powi k * 10 ^ 17) < of_nat S * 1" using start by (simp add: loop_start_def mult.assoc)
    moreover have "0 < (of_nat S :: rat)" using start by (simp add: loop_start_def)
    ultimately have "lower_gap u / 10 powi k * 10 ^ 17 < 1" by (simp only: mult_less_cancel_left_pos)
    then have "lower_gap u * 10 ^ 17 < 10 powi k" by (simp add: field_simps)
    then show False using k midpoint_small(4) [OF u] gaps_pos [of u] by simp
  qed
qed

end
