(* ===== verification/SmallIntegers.thy ===== *)
theory SmallIntegers
  imports DtoaShortest
begin

text \<open>The digits of integers below \<open>10 ^ 15\<close>, without trailing zeros.\<close>

lemma small_digits_value:
  assumes "0 < u" and "u < 10 * 10 ^ k" and "n * 10 ^ length s = 10 * digits_value 0 s * 10 ^ k + u"
    and "digits s" and "s \<noteq> [] \<longrightarrow> hd s \<noteq> 48" and "s = [] \<longrightarrow> 10 ^ k \<le> u"
  shows "\<exists>t. small_digits (10 ^ k) s u = Some t \<and> t \<noteq> [] \<and> digits t \<and> hd t \<noteq> 48 \<and> last t \<noteq> 48 \<and>
    n * 10 ^ (length t - 1) = digits_value 0 t * 10 ^ k \<and> length t \<le> Suc k"
  using assms
proof (induction "Suc k - length s" arbitrary: s u rule: less_induct)
  case less
  let ?q = "u div 10 ^ k" and ?r = "u mod 10 ^ k" and ?t = "s @ [48 + int (u div 10 ^ k)]"
  have short: "length s \<le> k"
  proof (rule ccontr)
    assume "\<not> length s \<le> k"
    then have "(10 * 10 ^ k :: nat) dvd n * 10 ^ length s"
      by (metis dvd_mult le_imp_power_dvd not_less_eq_eq power_Suc)
    then have "10 * 10 ^ k dvd u"
      unfolding less.prems(3) by (metis dvd_add_right_iff dvd_triv_left mult.assoc mult.commute mult.left_commute)
    then show False using less.prems(1,2) by (auto dest: dvd_imp_le)
  qed
  have q: "?q < 10" using less.prems(2) by (simp add: less_mult_imp_div_less)
  have total: "n * 10 ^ length s = digits_value 0 ?t * 10 ^ k + ?r"
    unfolding digits_value_snoc less.prems(3) add_mult_distrib add.assoc div_mult_mod_eq ..
  have first: "hd ?t \<noteq> 48"
    using less.prems(5,6) by (cases s) (auto simp: div_eq_0_iff)
  show ?case
  proof (cases "?r = 0")
    case True
    have "?q \<noteq> 0 " using True less.prems(1) by (metis div_mult_mod_eq add_0_right mult_0 not_gr_zero)
    then show ?thesis
      using True q total first short less.prems(4) by (simp add: small_digits.simps [of "10 ^ k" s u] Let_def)
  next
    case False
    have "\<exists>t. small_digits (10 ^ k) ?t (?r * 10) = Some t \<and> t \<noteq> [] \<and> digits t \<and> hd t \<noteq> 48 \<and> last t \<noteq> 48 \<and>
      n * 10 ^ (length t - 1) = digits_value 0 t * 10 ^ k \<and> length t \<le> Suc k"
    proof (rule less.hyps)
      show "n * 10 ^ length ?t = 10 * digits_value 0 ?t * 10 ^ k + ?r * 10"
        using arg_cong [OF total, of "\<lambda>x. 10 * x"] by (simp add: algebra_simps)
      show "Suc k - length ?t < Suc k - length s" using short by simp
    qed (use False q first less.prems(4) in auto)
    then show ?thesis using False by (simp add: small_digits.simps [of "10 ^ k" s u] Let_def)
  qed
qed

lemma zero_not_between:
  assumes "unat (word0 u) < 2 ^ 31" and "0 < significand u"
  shows "\<not> between_midpoints 0 u"
  using midpoint_small(1,2) [OF assms] by (simp add: between_midpoints_def)

lemma integer_between:
  assumes u: "unat (word0 u) < 2 ^ 31" "0 < significand u" and v: "double_value u = of_nat n" "n < 10 ^ 15"
  shows "between_midpoints (of_nat m) u \<longleftrightarrow> m = n"
proof -
  have "upper_gap u < 1"
  proof (cases "exponent u = - 1074")
    case True
    then show ?thesis by (simp add: upper_gap_def power_int_def power_one_over)
  next
    case False
    then have "2 ^ 53 * upper_gap u \<le> of_nat n" using midpoint_small(3) [OF u] exponent_bound [of u] v(1) by simp
    moreover have "(of_nat n :: rat) < 10 ^ 15" using v(2) of_nat_less_iff [of n "10 ^ 15", where 'a = rat] by simp
    ultimately show ?thesis by simp
  qed
  have "m = n" if "between_midpoints (of_nat m) u"
  proof -
    have "\<bar>(of_nat m :: rat) - of_nat n\<bar> < 1"
      using that \<open>upper_gap u < 1\<close> midpoint_small(1) [OF u] unfolding between_midpoints_def v(1) by (auto simp: abs_if split: if_splits)
    then have "(of_int \<bar>int m - int n\<bar> :: rat) < of_int 1" by simp
    then show ?thesis unfolding of_int_less_iff by simp
  qed
  moreover have "between_midpoints (of_nat n) u" using gaps_pos [of u] by (simp add: between_midpoints_def v(1))
  ultimately show ?thesis by blast
qed

lemma digits_value_last: "s \<noteq> [] \<Longrightarrow> digits s \<Longrightarrow> digits_value 0 s mod 10 = nat (last s - 48)"
proof (induction s rule: rev_induct)
  case (snoc c s)
  then have "nat (c - 48) < 10" by auto
  then show ?case by (simp add: digits_value_def)
qed simp

lemma small_integer_shortest:
  assumes u: "unat (word0 u) < 2 ^ 31" "0 < significand u" and v: "double_value u = of_nat n"
    and k: "10 ^ k \<le> n" "n < 10 ^ Suc k" "k \<le> 14"
  shows "\<exists>t. small_digits (10 ^ k) [] n = Some t \<and> shortest_decimal u t (int k + 1) \<and> length t \<le> 15"
proof -
  have "0 < n" using k(1) by (metis gr0I le_zero_eq power_not_zero zero_neq_numeral)
  then obtain t where t: "small_digits (10 ^ k) [] n = Some t" "t \<noteq> []" "digits t" "hd t \<noteq> 48" "last t \<noteq> 48"
    "n * 10 ^ (length t - 1) = digits_value 0 t * 10 ^ k" "length t \<le> Suc k"
    using small_digits_value [of n k n "[]"] k by (auto simp: digits_value_def)
  have "n < 10 ^ 15" using k(2,3) power_increasing [of "Suc k" 15 "10 :: nat"] by simp
  note between = integer_between [OF u v this]
  let ?p = "length t - 1"
  have len: "Suc ?p = length t" using t(2) by (cases t) simp_all
  have n: "n = digits_value 0 t * 10 ^ (k - ?p)"
  proof -
    have "10 ^ k = 10 ^ (k - ?p) * (10 ^ ?p :: nat)" using t(7) len by (simp flip: power_add)
    then have "n * 10 ^ ?p = digits_value 0 t * 10 ^ (k - ?p) * 10 ^ ?p" using t(6) by (simp only: mult.assoc)
    then show ?thesis by simp
  qed
  have e: "int k + 1 - int (length t) = int (k - ?p)" using t(7) len by (simp add: of_nat_diff)
  have decimal: "decimal t (int k + 1) = of_nat n" unfolding decimal_def e n by simp
  have "\<not> between_midpoints (of_nat y * 10 powi e) u" if y: "y < 10 ^ ?p" for y e
  proof (cases ?p)
    case 0
    then show ?thesis using y zero_not_between [OF u] by simp
  next
    case (Suc m)
    have "\<not> between_midpoints (of_nat z * 10 powi (int k - int m)) u" for z
    proof
      have km: "int k - int m = int (Suc (k - ?p))" using t(7) len Suc by (simp add: of_nat_diff)
      then have "(of_nat z * 10 powi (int k - int m) :: rat) = of_nat (z * 10 * 10 ^ (k - ?p))"
        unfolding km power_int_of_nat by simp
      moreover assume "between_midpoints (of_nat z * 10 powi (int k - int m)) u"
      ultimately have "z * 10 * 10 ^ (k - ?p) = n" using between by metis
      then have "z * 10 = digits_value 0 t" unfolding n by simp
      then have "digits_value 0 t mod 10 = 0" by (metis mod_mult_self2_is_0)
      then have "nat (last t - 48) = 0" using digits_value_last [OF t(2,3)] by simp
      moreover have "48 \<le> last t" using t(2,3) by (simp add: list_all_iff)
      ultimately show False using t(5) by simp
    qed
    then show ?thesis using fewer_digits [of "int k" u m y e] k(1) v y Suc of_nat_mono [OF k(1), where 'a = rat] by simp
  qed
  moreover have "rounds_to (decimal t (int k + 1)) u" unfolding rounds_to_iff [OF u] decimal between ..
  ultimately have "shortest_decimal u t (int k + 1)"
    using t(2-5) decimal v unfolding shortest_decimal_def rounds_to_iff [OF u] by simp
  then show ?thesis using t(1,7) k(3) by auto
qed

end
