(* ===== verification/LogEstimate.thy ===== *)
theory LogEstimate
  imports SmallIntegers
begin

text \<open>
  The estimate of the decimal exponent is right or one too large, for every double. The estimate is
  a tangent of the logarithm, computed with rounding; it is compared with every power of ten that
  can be near a double.
\<close>

subsection \<open>Rounding errors\<close>

lemma ilog2_le:
  assumes "0 < x"
  shows "2 powi ilog2 x \<le> x"
proof -
  obtain p q where pq: "quotient_of x = (p, q)" by fastforce
  have x: "x = of_int p / of_int q" "0 < q" using quotient_of_div [OF pq] quotient_of_denom_pos [OF pq] by simp_all
  then have p: "0 < p" using assms by (simp add: zero_less_divide_iff)
  have bp: "2 ^ nat (bitlen p - 1) \<le> p" and bq: "q < 2 ^ nat (bitlen q)" using bitlen_bounds p x(2) by blast+
  have pos: "1 \<le> bitlen p" "1 \<le> bitlen q" using p x(2) by (simp_all add: bitlen_alt_def)
  have "(2 :: rat) powi (bitlen p - bitlen q - 1) = 2 powi (bitlen p - 1) / 2 powi bitlen q"
    by (simp add: power_int_diff power_int_add algebra_simps)
  also have "(2 :: rat) powi (bitlen p - 1) \<le> of_int p"
    using bp pos of_int_le_iff [of "2 ^ nat (bitlen p - 1)" p, where 'a = rat] by (simp add: power_int_def)
  also have "of_int p / 2 powi bitlen q \<le> (of_int p / of_int q :: rat)"
    using bq pos p x(2) of_int_le_iff [of q "2 ^ nat (bitlen q)", where 'a = rat]
    by (intro divide_left_mono) (simp_all add: power_int_def)
  finally have "2 powi (bitlen p - bitlen q - 1) \<le> x" using x(1) by (simp add: divide_right_mono)
  then show ?thesis by (simp add: ilog2_def pq Let_def)
qed

lemma round_even_close: "\<bar>of_int (round_even x) - x\<bar> \<le> 1 / 2"
proof -
  have "of_int \<lfloor>x\<rfloor> \<le> x" "x < of_int \<lfloor>x\<rfloor> + 1" by linarith+
  then have "\<bar>of_int \<lfloor>x\<rfloor> - x\<bar> = x - of_int \<lfloor>x\<rfloor>" "\<bar>of_int (\<lfloor>x\<rfloor> + 1) - x\<bar> = 1 - (x - of_int \<lfloor>x\<rfloor>)" by simp_all
  then show ?thesis unfolding round_even_def Let_def by (simp only: split: if_split) auto
qed

lemma rounded_close:
  assumes "\<bar>x\<bar> \<le> m"
  shows "\<bar>rounded x - x\<bar> \<le> m / 2 ^ 53"
proof (cases "x = 0")
  case True
  then show ?thesis using assms by (simp add: rounded_def)
next
  case False
  let ?u = "2 powi (ilog2 \<bar>x\<bar> - 52) :: rat"
  have u: "0 < ?u" "2 ^ 52 * ?u \<le> \<bar>x\<bar>" using ilog2_le [of "\<bar>x\<bar>"] False by (simp_all add: power_int_diff)
  have "rounded x - x = (of_int (round_even (x / ?u)) - x / ?u) * ?u"
    using False u(1) by (simp add: rounded_def Let_def field_simps)
  then have "\<bar>rounded x - x\<bar> = \<bar>of_int (round_even (x / ?u)) - x / ?u\<bar> * ?u"
    using u(1) by (simp add: abs_mult)
  also have "\<dots> \<le> 1 / 2 * ?u" using round_even_close u(1) by (intro mult_right_mono) simp_all
  also have "\<dots> \<le> m / 2 ^ 53" using u(2) assms by simp
  finally show ?thesis .
qed

lemma rounded_mult_close:
  assumes "\<bar>x' - x\<bar> \<le> a" and "\<bar>y' - y\<bar> \<le> b" and "\<bar>x\<bar> \<le> m" and "\<bar>y'\<bar> \<le> n"
  shows "\<bar>rounded (x' * y') - x * y\<bar> \<le> (m + a) * n / 2 ^ 53 + (a * n + m * b)"
proof -
  have pos: "0 \<le> a" "0 \<le> m" using assms(1,3) by linarith+
  have "\<bar>x'\<bar> \<le> m + a" using assms(1,3) by linarith
  then have "\<bar>x' * y'\<bar> \<le> (m + a) * n" unfolding abs_mult using assms(4) by (intro mult_mono) simp_all
  then have "\<bar>rounded (x' * y') - x' * y'\<bar> \<le> (m + a) * n / 2 ^ 53" by (rule rounded_close)
  moreover have "x' * y' - x * y = (x' - x) * y' + x * (y' - y)" by (simp add: algebra_simps)
  moreover have "\<bar>(x' - x) * y'\<bar> \<le> a * n" unfolding abs_mult using assms(1,4) pos by (intro mult_mono) simp_all
  moreover have "\<bar>x * (y' - y)\<bar> \<le> m * b" unfolding abs_mult using assms(2,3) pos by (intro mult_mono) simp_all
  ultimately show ?thesis by linarith
qed

lemma rounded_add_close:
  assumes "\<bar>x' - x\<bar> \<le> a" and "\<bar>y' - y\<bar> \<le> b" and "\<bar>x\<bar> + a + \<bar>y\<bar> + b \<le> m"
  shows "\<bar>rounded (x' + y') - (x + y)\<bar> \<le> m / 2 ^ 53 + a + b"
proof -
  have "\<bar>x' + y'\<bar> \<le> m" using assms by linarith
  then have "\<bar>rounded (x' + y') - (x' + y')\<bar> \<le> m / 2 ^ 53" by (rule rounded_close)
  then show ?thesis using assms(1,2) by linarith
qed

lemma rounded_constant:
  assumes "\<bar>c\<bar> \<le> 1 / 2"
  shows "\<bar>rounded c - c\<bar> \<le> 1 / 2 ^ 53" and "\<bar>rounded c\<bar> \<le> 1"
proof -
  show "\<bar>rounded c - c\<bar> \<le> 1 / 2 ^ 53" using assms by (intro rounded_close) simp
  then have "\<bar>rounded c - c\<bar> \<le> 1 / 2" by simp
  then show "\<bar>rounded c\<bar> \<le> 1" using assms by linarith
qed

subsection \<open>The tangent\<close>

definition tangent :: "rat \<Rightarrow> int \<Rightarrow> rat" where
  "tangent x i = (x - 3 / 2) * (289529654602168 / 10 ^ 15) + 1760912590558 / 10 ^ 13 + of_int i * (301029995663981 / 10 ^ 15)"

lemma estimate_close:
  assumes "1 \<le> x" and "x < 2" and "\<bar>i\<bar> \<le> 1100"
  shows "\<bar>log10_estimate x i - tangent x i\<bar> \<le> 1 / 10 ^ 11"
proof -
  let ?c = "289529654602168 / 10 ^ 15 :: rat" and ?d = "1760912590558 / 10 ^ 13 :: rat" and ?e = "301029995663981 / 10 ^ 15 :: rat"
  have "\<bar>x - 3 / 2\<bar> \<le> 1" using assms(1,2) by linarith
  then have 1: "\<bar>rounded (x - 3 / 2) - (x - 3 / 2)\<bar> \<le> 1 / 2 ^ 53" by (rule rounded_close)
  have c: "\<bar>rounded ?c - ?c\<bar> \<le> 1 / 2 ^ 53" "\<bar>rounded ?d - ?d\<bar> \<le> 1 / 2 ^ 53" "\<bar>rounded ?e - ?e\<bar> \<le> 1 / 2 ^ 53"
    "\<bar>rounded ?c\<bar> \<le> 1" "\<bar>rounded ?e\<bar> \<le> 1"
    by (intro rounded_constant; simp)+
  have 2: "\<bar>rounded (rounded (x - 3 / 2) * rounded ?c) - (x - 3 / 2) * ?c\<bar> \<le> 1 / 10 ^ 14"
    using rounded_mult_close [OF 1 c(1) \<open>\<bar>x - 3 / 2\<bar> \<le> 1\<close> c(4)] by simp
  have i: "\<bar>of_int i - of_int i :: rat\<bar> \<le> 0" "\<bar>of_int i :: rat\<bar> \<le> 1100" using assms(3) by simp_all
  have 3: "\<bar>rounded (of_int i * rounded ?e) - of_int i * ?e\<bar> \<le> 1 / 10 ^ 12"
    using rounded_mult_close [OF i(1) c(3) i(2) c(5)] by simp
  have m: "\<bar>(x - 3 / 2) * ?c\<bar> \<le> 1" unfolding abs_mult using \<open>\<bar>x - 3 / 2\<bar> \<le> 1\<close> by simp
  have 4: "\<bar>rounded (rounded (rounded (x - 3 / 2) * rounded ?c) + rounded ?d) - ((x - 3 / 2) * ?c + ?d)\<bar> \<le> 1 / 10 ^ 13"
    using rounded_add_close [OF 2 c(2), of 3] m by simp
  have "\<bar>(x - 3 / 2) * ?c + ?d\<bar> \<le> 3" using abs_triangle_ineq [of "(x - 3 / 2) * ?c" ?d] m by simp
  moreover have "\<bar>of_int i * ?e\<bar> \<le> 1100" unfolding abs_mult using i(2) by simp
  ultimately have "\<bar>(x - 3 / 2) * ?c + ?d\<bar> + 1 / 10 ^ 13 + \<bar>of_int i * ?e\<bar> + 1 / 10 ^ 12 \<le> 1200" by simp
  from rounded_add_close [OF 4 3 this] show ?thesis unfolding log10_estimate_def tangent_def by simp
qed

lemma tangent_mono:
  assumes x: "1 \<le> x" "x < 2" and y: "1 \<le> y" "y < 2" and le: "x * 2 powi i \<le> y * 2 powi j"
  shows "tangent x i \<le> tangent y j"
proof (cases i j rule: linorder_cases)
  case less
  then have "of_int i + 1 \<le> (of_int j :: rat)" by (metis add1_zle_eq of_int_1 of_int_add of_int_le_iff)
  then show ?thesis using x(2) y(1) by (simp add: tangent_def field_simps)
next
  case equal
  then show ?thesis using le by (simp add: tangent_def)
next
  case greater
  have "y * 2 powi j < 2 * 2 powi j" using y(2) by simp
  also have "\<dots> = 2 powi (j + 1)" by (simp add: power_int_add)
  also have "\<dots> \<le> 2 powi i" using greater by (intro power_int_increasing) simp_all
  also have "\<dots> \<le> x * 2 powi i" using x(1) by simp
  finally show ?thesis using le by simp
qed

subsection \<open>The powers of ten\<close>

definition tangent_at :: "int \<Rightarrow> bool" where
  "tangent_at m \<longleftrightarrow>
    (\<exists>i. 1 \<le> (10 powi m / 2 powi i :: rat) \<and> (10 powi m / 2 powi i :: rat) < 2 \<and>
      of_int m + 5 / 10 ^ 9 \<le> tangent (10 powi m / 2 powi i) i \<and>
      tangent (10 powi m / 2 powi i) i \<le> of_int m + 1 - 5 / 10 ^ 9)"

text \<open>
  \<open>10 powi m / 2 powi i\<close> lies between \<open>l\<close> and \<open>h\<close>, scaled by \<open>2 ^ 39\<close>; \<open>d\<close> is the part of the tangent that
  depends on \<open>i\<close>, less \<open>m\<close>.
\<close>

definition brackets :: "int \<Rightarrow> int \<Rightarrow> int \<Rightarrow> int \<Rightarrow> bool" where
  "brackets m d l h \<longleftrightarrow>
    (\<exists>i. d = 176091259055800 + i * 301029995663981 - m * 1000000000000000 \<and>
      of_int l \<le> (2 ^ 39 * (10 powi m / 2 powi i) :: rat) \<and> (2 ^ 39 * (10 powi m / 2 powi i) :: rat) \<le> of_int h)"

definition bracket_ok :: "int \<Rightarrow> int \<Rightarrow> int \<Rightarrow> bool" where
  "bracket_ok d l h \<longleftrightarrow> 549755813888 \<le> l \<and> h < 1099511627776 \<and>
    (let y = (l - 824633720832) * 289529654602168 + d * 549755813888 in
     2748779069440000000 \<le> y \<and> y + (h - l) * 289529654602168 \<le> 549755811139220930560000000)"

lemma brackets_tangent:
  assumes "brackets m d l h" and "bracket_ok d l h"
  shows "tangent_at m"
proof -
  obtain i where i: "d = 176091259055800 + i * 301029995663981 - m * 1000000000000000"
    "of_int l \<le> (2 ^ 39 * (10 powi m / 2 powi i) :: rat)" "(2 ^ 39 * (10 powi m / 2 powi i) :: rat) \<le> of_int h"
    using assms(1) by (auto simp: brackets_def)
  define x :: rat where "x = 10 powi m / 2 powi i"
  have ok: "549755813888 \<le> l" "h < 1099511627776"
    "2748779069440000000 \<le> (l - 824633720832) * 289529654602168 + d * 549755813888"
    "(h - 824633720832) * 289529654602168 + d * 549755813888 \<le> 549755811139220930560000000"
    using assms(2) by (simp_all add: bracket_ok_def Let_def algebra_simps)
  have r: "549755813888 \<le> (of_int l :: rat)" "(of_int h :: rat) < 1099511627776"
    "2748779069440000000 \<le> (of_int l - 824633720832 :: rat) * 289529654602168 + of_int d * 549755813888"
    "(of_int h - 824633720832 :: rat) * 289529654602168 + of_int d * 549755813888 \<le> 549755811139220930560000000"
    using ok(1,2) of_int_le_iff [THEN iffD2, OF ok(3), where 'a1 = rat] of_int_le_iff [THEN iffD2, OF ok(4), where 'a1 = rat]
    by simp_all
  have d: "(of_int d :: rat) = 176091259055800 + of_int i * 301029995663981 - of_int m * 1000000000000000" unfolding i(1) by simp
  have lx: "of_int l \<le> 2 ^ 39 * x" "2 ^ 39 * x \<le> of_int h" using i(2,3) by (simp_all only: x_def)
  have "1 \<le> x" "x < 2" "of_int m + 5 / 10 ^ 9 \<le> tangent x i" "tangent x i \<le> of_int m + 1 - 5 / 10 ^ 9"
    using r lx d by (simp_all add: tangent_def field_simps)
  then show ?thesis unfolding tangent_at_def x_def by blast
qed

text \<open>From one power of ten to the next, with a factor \<open>c / k\<close> rounded outwards.\<close>

lemma brackets_step:
  assumes "brackets m d l h" and "(10 powi m' / 2 powi (i' - i) :: rat) = of_int c / of_int k * 10 powi m"
    and "0 < k" and "0 \<le> c" and "d' = d + (i' - i) * 301029995663981 - (m' - m) * 1000000000000000"
  shows "brackets m' d' (c * l div k) (c * h div k + 1)"
proof -
  obtain j where j: "d = 176091259055800 + j * 301029995663981 - m * 1000000000000000"
    "of_int l \<le> (2 ^ 39 * (10 powi m / 2 powi j) :: rat)" "(2 ^ 39 * (10 powi m / 2 powi j) :: rat) \<le> of_int h"
    using assms(1) by (auto simp: brackets_def)
  let ?x = "2 ^ 39 * (10 powi m / 2 powi j) :: rat" and ?q = "of_int c / of_int k :: rat"
  have "(2 :: rat) powi (j + (i' - i)) = 2 powi j * 2 powi (i' - i)" by (simp only: power_int_add zero_neq_numeral [symmetric] not_False_eq_True simp_thms)
  then have x: "2 ^ 39 * (10 powi m' / 2 powi (j + (i' - i))) = ?q * ?x" using assms(2) by (simp add: field_simps)
  have q: "0 \<le> ?q" using assms(3,4) by simp
  have "(of_int (c * l div k) :: rat) \<le> of_int (c * l) / of_int k"
    using floor_correct [of "of_int (c * l) / of_int k :: rat"] by (simp only: floor_divide_of_int_eq)
  also have "\<dots> \<le> ?q * ?x" using mult_left_mono [OF j(2) q] by simp
  finally have low: "of_int (c * l div k) \<le> ?q * ?x" .
  have "?q * ?x \<le> of_int (c * h) / of_int k" using mult_left_mono [OF j(3) q] by simp
  also have "\<dots> \<le> of_int (c * h div k + 1)"
    using floor_correct [of "of_int (c * h) / of_int k :: rat"] by (simp only: floor_divide_of_int_eq less_imp_le)
  finally have "?q * ?x \<le> of_int (c * h div k + 1)" .
  then show ?thesis
    using low j(1) unfolding brackets_def assms(5) x [symmetric] by (intro exI [of _ "j + (i' - i)"]) (simp add: algebra_simps)
qed

lemma brackets_up:
  assumes "brackets m d l h"
  shows "brackets (m + 1) (d - 96910013008057) (5 * l div 4) (5 * h div 4 + 1)"
    and "brackets (m + 1) (d + 204119982655924) (5 * l div 8) (5 * h div 8 + 1)"
  by (rule brackets_step [OF assms, of _ 3 0]; simp add: power_int_add)
    (rule brackets_step [OF assms, of _ 4 0]; simp add: power_int_add)

lemma brackets_down:
  assumes "brackets m d l h"
  shows "brackets (m - 1) (d + 96910013008057) (4 * l div 5) (4 * h div 5 + 1)"
    and "brackets (m - 1) (d - 204119982655924) (8 * l div 5) (8 * h div 5 + 1)"
  by (rule brackets_step [OF assms, of _ "- 3" 0]; simp add: power_int_diff power_int_minus)
    (rule brackets_step [OF assms, of _ "- 4" 0]; simp add: power_int_diff power_int_minus)

function powers_up :: "int \<Rightarrow> int \<Rightarrow> int \<Rightarrow> int \<Rightarrow> bool" where
  "powers_up m d l h =
    (if 310 \<le> m then True
     else bracket_ok d l h \<and>
       (if h < 879609302220 then powers_up (m + 1) (d - 96910013008057) (5 * l div 4) (5 * h div 4 + 1)
        else powers_up (m + 1) (d + 204119982655924) (5 * l div 8) (5 * h div 8 + 1)))"
  by auto

termination by (relation "measure (\<lambda>(m, d, l, h). nat (310 - m))") auto

function powers_down :: "int \<Rightarrow> int \<Rightarrow> int \<Rightarrow> int \<Rightarrow> bool" where
  "powers_down m d l h =
    (if m < - 325 then True
     else bracket_ok d l h \<and>
       (if 687194767360 \<le> l then powers_down (m - 1) (d + 96910013008057) (4 * l div 5) (4 * h div 5 + 1)
        else powers_down (m - 1) (d - 204119982655924) (8 * l div 5) (8 * h div 5 + 1)))"
  by auto

termination by (relation "measure (\<lambda>(m, d, l, h). nat (326 + m))") auto

declare powers_up.simps [simp del] powers_down.simps [simp del]

lemma powers_up_tangent:
  "powers_up m d l h \<Longrightarrow> brackets m d l h \<Longrightarrow> m \<le> n \<Longrightarrow> n < 310 \<Longrightarrow> tangent_at n"
proof (induction m d l h rule: powers_up.induct)
  case (1 m d l h)
  then have ok: "bracket_ok d l h" by (simp add: powers_up.simps [of m])
  show ?case
  proof (cases "m = n")
    case True
    then show ?thesis using brackets_tangent [OF 1(4) ok] by simp
  next
    case False
    then have n: "\<not> 310 \<le> m" "m + 1 \<le> n" using 1(5,6) by simp_all
    then have "if h < 879609302220 then powers_up (m + 1) (d - 96910013008057) (5 * l div 4) (5 * h div 4 + 1)
        else powers_up (m + 1) (d + 204119982655924) (5 * l div 8) (5 * h div 8 + 1)"
      using 1(3) by (simp add: powers_up.simps [of m d l h])
    then show ?thesis using 1(1,2) n 1(6) brackets_up [OF 1(4)] by (simp split: if_splits)
  qed
qed

lemma powers_down_tangent:
  "powers_down m d l h \<Longrightarrow> brackets m d l h \<Longrightarrow> n \<le> m \<Longrightarrow> - 325 \<le> n \<Longrightarrow> tangent_at n"
proof (induction m d l h rule: powers_down.induct)
  case (1 m d l h)
  then have ok: "bracket_ok d l h" by (simp add: powers_down.simps [of m])
  show ?case
  proof (cases "m = n")
    case True
    then show ?thesis using brackets_tangent [OF 1(4) ok] by simp
  next
    case False
    then have n: "\<not> m < - 325" "n \<le> m - 1" using 1(5,6) by simp_all
    then have "if 687194767360 \<le> l then powers_down (m - 1) (d + 96910013008057) (4 * l div 5) (4 * h div 5 + 1)
        else powers_down (m - 1) (d - 204119982655924) (8 * l div 5) (8 * h div 5 + 1)"
      using 1(3) by (simp add: powers_down.simps [of m d l h])
    then show ?thesis using 1(1,2) n 1(6) brackets_down [OF 1(4)] by (simp split: if_splits)
  qed
qed

lemma all_powers_up: "powers_up 0 176091259055800 549755813888 549755813888"
  by code_simp

lemma all_powers_down: "powers_down 0 176091259055800 549755813888 549755813888"
  by code_simp

lemma power_of_ten_tangent:
  assumes "- 325 \<le> m" and "m < 310"
  shows "tangent_at m"
proof -
  have "brackets 0 176091259055800 549755813888 549755813888" unfolding brackets_def by (intro exI [of _ 0]) simp
  then show ?thesis
    using powers_up_tangent [OF all_powers_up] powers_down_tangent [OF all_powers_down] assms by (cases "0 \<le> m") simp_all
qed

subsection \<open>The estimate\<close>

lemma tangent_bounds: "1 \<le> x \<Longrightarrow> x < 2 \<Longrightarrow> - 1074 \<le> i \<Longrightarrow> i \<le> 1023 \<Longrightarrow> - 323.5 \<le> tangent x i \<and> tangent x i \<le> 308.5"
proof -
  assume x: "1 \<le> x" "x < 2" and i: "- 1074 \<le> i" "i \<le> 1023"
  have "- 1074 \<le> (of_int i :: rat)" "(of_int i :: rat) \<le> 1023" using i by simp_all
  then show ?thesis using x by (simp add: tangent_def field_simps)
qed

lemma tangent_slope: "y \<le> x \<Longrightarrow> x \<le> y + 1 / 2 ^ 31 \<Longrightarrow> tangent y i \<le> tangent x i \<and> tangent x i \<le> tangent y i + 1 / 10 ^ 9"
  by (simp add: tangent_def field_simps)

lemma estimate_value:
  assumes d: "1 \<le> d" "d < 2" and i: "- 1074 \<le> i" "i \<le> 1023"
    and v: "d * 2 powi i \<le> v" "v < (d + 1 / 2 ^ 31) * 2 powi i" "v < 2 * 2 powi i" and k: "k = \<lfloor>log10_estimate d i\<rfloor>"
  shows "10 powi (k - 1) \<le> v" and "v < 10 powi (k + 1)"
proof -
  define x where "x = v / 2 powi i"
  have p: "0 < (2 :: rat) powi i" by simp
  have x: "1 \<le> x" "x < 2" "d \<le> x" "x \<le> d + 1 / 2 ^ 31" "x * 2 powi i = v"
    using v d p unfolding x_def by (simp_all add: le_divide_eq divide_less_eq divide_le_eq) (use v d p in \<open>simp_all add: mult_left_mono order.trans [OF _ v(1)]\<close>)
  have est: "\<bar>log10_estimate d i - tangent d i\<bar> \<le> 1 / 10 ^ 11" using estimate_close [OF d] i by simp
  have floor: "of_int k \<le> log10_estimate d i" "log10_estimate d i < of_int k + 1" unfolding k by linarith+
  have slope: "tangent d i \<le> tangent x i" "tangent x i \<le> tangent d i + 1 / 10 ^ 9" using tangent_slope [OF x(3,4)] by simp_all
  have "\<bar>log10_estimate d i - tangent d i\<bar> \<le> 1 / 10" using est by simp
  then have "- 325 < (of_int k :: rat)" "(of_int k :: rat) < 309"
    using tangent_bounds [OF d i, THEN conjunct1] tangent_bounds [OF d i, THEN conjunct2] floor by linarith+
  then have range: "- 324 \<le> k" "k \<le> 308" by linarith+
  show "v < 10 powi (k + 1)"
  proof (rule ccontr)
    assume "\<not> v < 10 powi (k + 1)"
    moreover obtain j where j: "1 \<le> (10 powi (k + 1) / 2 powi j :: rat)" "(10 powi (k + 1) / 2 powi j :: rat) < 2"
      "of_int (k + 1) + 5 / 10 ^ 9 \<le> tangent (10 powi (k + 1) / 2 powi j) j"
      using power_of_ten_tangent [of "k + 1"] range by (auto simp: tangent_at_def)
    ultimately have "tangent (10 powi (k + 1) / 2 powi j) j \<le> tangent x i"
      using x by (intro tangent_mono) simp_all
    then show False using j(3) slope est floor by simp
  qed
  show "10 powi (k - 1) \<le> v"
  proof (rule ccontr)
    assume "\<not> 10 powi (k - 1) \<le> v"
    moreover obtain j where j: "1 \<le> (10 powi (k - 1) / 2 powi j :: rat)" "(10 powi (k - 1) / 2 powi j :: rat) < 2"
      "tangent (10 powi (k - 1) / 2 powi j) j \<le> of_int (k - 1) + 1 - 5 / 10 ^ 9"
      using power_of_ten_tangent [of "k - 1"] range by (auto simp: tangent_at_def)
    ultimately have "tangent x i \<le> tangent (10 powi (k - 1) / 2 powi j) j"
      using x by (intro tangent_mono) simp_all
    then show False using j(3) slope est floor by simp
  qed
qed

end
