(* ===== verification/DtoaCorrect.thy ===== *)
theory DtoaCorrect
  imports LogEstimate
begin

text \<open>\<open>dtoa\<close> as a whole: every finite double is written with the shortest digits that round to it.\<close>

subsection \<open>Mantissa and exponent for the estimate\<close>

lemma mantissa_bits: "unat (((x :: u32) AND 0xfffff) OR 0x3ff00000) = unat x mod 2 ^ 20 + 1072693248"
proof -
  have "(x AND 0xfffff) AND 0x3ff00000 = 0" by (simp add: and.assoc)
  then show ?thesis using unat_or_disjoint [of "x AND 0xfffff" "0x3ff00000 :: u32"] by (simp add: unat_low_bits)
qed

lemma mantissa_value:
  "double_value ((w AND 0xfffff) OR 0x3ff00000, l) = (2 ^ 52 + of_nat (unat w mod 2 ^ 20 * 2 ^ 32 + unat l)) / 2 ^ 52"
proof -
  have "biased ((w AND 0xfffff) OR 0x3ff00000, l) = 1023" by (simp add: biased_eq mantissa_bits)
  moreover have "fraction ((w AND 0xfffff) OR 0x3ff00000, l) = unat w mod 2 ^ 20 * 2 ^ 32 + unat l"
    using mod_mult_self1 [of "unat w mod 2 ^ 20" 1023 "2 ^ 20"] by (simp add: fraction_def unat_low_bits mantissa_bits)
  ultimately show ?thesis by (simp add: double_value_def significand_def exponent_def power_int_minus field_simps)
qed

definition mantissa_of :: "dbits \<Rightarrow> rat \<Rightarrow> int \<Rightarrow> bool" where
  "mantissa_of u d i \<longleftrightarrow> 1 \<le> d \<and> d < 2 \<and> - 1074 \<le> i \<and> i \<le> 1023 \<and>
    d * 2 powi i \<le> double_value u \<and> double_value u < (d + 1 / 2 ^ 31) * 2 powi i \<and> double_value u < 2 * 2 powi i"

lemma high_word_biased: "unat (word0 u) < 2 ^ 31 \<Longrightarrow> uint (drop_bit 20 (word0 u)) = int (biased u)"
proof -
  assume "unat (word0 u) < 2 ^ 31"
  then have "unat (word0 u) div 2 ^ 20 < 2 ^ 11" by (simp add: less_mult_imp_div_less)
  then have "biased u = unat (drop_bit 20 (word0 u))" by (simp add: biased_eq unat_shift_right)
  then show ?thesis by simp
qed

lemma split_normal:
  assumes u: "unat (word0 u) < 2 ^ 31" and b: "biased u \<noteq> 0" "biased u < 2047"
  obtains d where "split_double u be n = (d, int (biased u) - 1023, False)" "mantissa_of u d (int (biased u) - 1023)"
proof -
  let ?d = "double_value ((word0 u AND 0xfffff) OR 0x3ff00000, word1 u)" and ?i = "int (biased u) - 1023"
  have d: "?d = of_nat (significand u) / 2 ^ 52"
    using b(1) by (simp add: mantissa_value significand_def fraction_def unat_low_bits)
  have "2 ^ 52 \<le> significand u" using b(1) by (simp add: significand_def)
  then have "1 \<le> ?d" "?d < 2"
    unfolding d using significand_bound [of u] of_nat_mono [of "2 ^ 52" "significand u", where 'a = rat]
      of_nat_less_iff [of "significand u" "2 ^ 53", where 'a = rat] by simp_all
  moreover have e: "exponent u = ?i - 52" using b(1) by (simp add: exponent_def max_def)
  have "double_value u = ?d * 2 powi ?i" unfolding d double_value_def [of u] e by (simp add: power_int_diff)
  ultimately have "mantissa_of u ?d ?i" using b unfolding mantissa_of_def by simp
  moreover have "split_double u be n = (?d, ?i, False)"
    using b(1) high_word_biased [OF u] by (simp add: split_double_def Let_def)
  ultimately show ?thesis using that by blast
qed

text \<open>The 32 highest bits of a number of \<open>n\<close> bits, as \<open>dtoa\<close> takes them from the two words.\<close>

definition high_bits :: "nat \<Rightarrow> u32 \<Rightarrow> u32 \<Rightarrow> u32" where
  "high_bits n w l = (if 32 < n then push_bit (64 - n) w OR drop_bit (n - 32) l else push_bit (32 - n) l)"

lemma high_bits_value:
  assumes f: "unat w * 2 ^ 32 + unat l < 2 ^ n" and n: "1 \<le> n" "n \<le> 52"
  shows "unat (high_bits n w l) * 2 ^ n \<le> (unat w * 2 ^ 32 + unat l) * 2 ^ 32"
    and "(unat w * 2 ^ 32 + unat l) * 2 ^ 32 < (unat (high_bits n w l) + 1) * 2 ^ n"
    and "2 ^ (n - 1) \<le> unat w * 2 ^ 32 + unat l \<Longrightarrow> 2 ^ 31 \<le> unat (high_bits n w l)"
proof -
  let ?f = "unat w * 2 ^ 32 + unat l" and ?x = "unat (high_bits n w l)"
  have "?x * 2 ^ n \<le> ?f * 2 ^ 32 \<and> ?f * 2 ^ 32 < (?x + 1) * 2 ^ n \<and> (2 ^ (n - 1) \<le> ?f \<longrightarrow> 2 ^ 31 \<le> ?x)"
  proof (cases "32 < n")
    case True
    have p: "2 ^ (64 - n) * 2 ^ (n - 32) = (2 ^ 32 :: nat)" using True n by (simp flip: power_add)
    have p': "2 ^ n = (2 ^ 32 * 2 ^ (n - 32) :: nat)" using True by (simp only: le_add_diff_inverse less_imp_le flip: power_add)
    have "unat w * 2 ^ 32 < 2 ^ (n - 32) * 2 ^ 32" using f p' by (simp add: mult.commute)
    then have w: "unat w < 2 ^ (n - 32)" by simp
    then have "unat w * 2 ^ (64 - n) < 2 ^ (n - 32) * 2 ^ (64 - n)" by simp
    then have "unat w * 2 ^ (64 - n) < 2 ^ 32" unfolding mult.commute [of "2 ^ (n - 32)"] p .
    then have shifted: "unat (push_bit (64 - n) w) = unat w * 2 ^ (64 - n)" by (simp only: unat_shift_left mod_less)
    have "push_bit (64 - n) w AND drop_bit (32 - (64 - n)) l = 0" using True n by (intro shift_disjoint) simp
    then have disjoint: "push_bit (64 - n) w AND drop_bit (n - 32) l = 0" using True n by simp
    have x: "?x = unat w * 2 ^ (64 - n) + unat l div 2 ^ (n - 32)"
      using True shifted unat_or_disjoint [OF disjoint] by (simp add: high_bits_def unat_shift_right)
    have "?f = (unat w * 2 ^ (64 - n)) * 2 ^ (n - 32) + unat l" by (simp only: mult.assoc p)
    then have div: "?x = ?f div 2 ^ (n - 32)" unfolding x by (simp only: div_mult_self3 power_not_zero zero_neq_numeral not_False_eq_True simp_thms)
    have "?x * 2 ^ (n - 32) \<le> ?f" "?f < (?x + 1) * 2 ^ (n - 32)"
      unfolding div by (simp_all add: dividend_less_div_times)
    moreover have "2 ^ 31 \<le> ?x" if "2 ^ (n - 1) \<le> ?f"
    proof -
      have "31 + (n - 32) = n - 1" using True by simp
      then have "2 ^ (n - 1) = (2 ^ 31 * 2 ^ (n - 32) :: nat)" by (simp only: flip: power_add)
      then show ?thesis using that unfolding div by (simp add: less_eq_div_iff_mult_less_eq)
    qed
    ultimately show ?thesis unfolding p' by simp
  next
    case False
    have "2 ^ n \<le> (2 ^ 32 :: nat)" using False by (intro power_increasing) simp_all
    then have "?f < 2 ^ 32" using f by linarith
    then have w: "unat w = 0" by simp
    have p: "2 ^ n * 2 ^ (32 - n) = (2 ^ 32 :: nat)" using False by (simp flip: power_add)
    have "unat l * 2 ^ (32 - n) < 2 ^ n * 2 ^ (32 - n)" using f w by simp
    then have x: "?x = unat l * 2 ^ (32 - n)" using False unfolding p by (simp add: high_bits_def unat_shift_left)
    have "2 ^ 31 \<le> ?x" if "2 ^ (n - 1) \<le> ?f"
    proof -
      have "2 ^ (n - 1) * 2 ^ (32 - n) = (2 ^ 31 :: nat)" using False n(1) by (simp flip: power_add)
      moreover have "2 ^ (n - 1) * 2 ^ (32 - n) \<le> unat l * 2 ^ (32 - n)" using that w by simp
      ultimately show ?thesis unfolding x by simp
    qed
    then show ?thesis unfolding x w using p by (simp add: mult.assoc mult.commute [of "2 ^ (32 - n)"])
  qed
  then show "?x * 2 ^ n \<le> ?f * 2 ^ 32" "?f * 2 ^ 32 < (?x + 1) * 2 ^ n" "2 ^ (n - 1) \<le> ?f \<Longrightarrow> 2 ^ 31 \<le> ?x" by blast+
qed

lemma split_denormal:
  assumes u: "unat (word0 u) < 2 ^ 31" and b: "biased u = 0" and n: "bits_of n (significand u)"
    and i: "m + be + 1074 = n"
  obtains d where "split_double u be m = (d, n - 1075, True)" "mantissa_of u d (n - 1075)"
proof -
  let ?f = "unat (word0 u) * 2 ^ 32 + unat (word1 u)" and ?x = "high_bits (nat n) (word0 u) (word1 u)"
  have "unat (word0 u) div 2 ^ 20 < 2 ^ 11" using u by (simp add: less_mult_imp_div_less)
  then have "unat (word0 u) div 2 ^ 20 = 0" using b by (simp add: biased_eq)
  then have "unat (word0 u) < 2 ^ 20" by (simp add: div_eq_0_iff)
  then have f: "significand u = ?f" using b by (simp add: significand_def fraction_def unat_low_bits)
  have f52: "?f < 2 ^ 52" using b fraction_bound [of u] f by (simp add: significand_def)
  have n1: "1 \<le> n" using n by (simp add: bits_of_def)
  have low: "2 ^ nat (n - 1) \<le> ?f" and high: "?f < 2 ^ nat n" using n f by (simp_all add: bits_of_def)
  have "2 ^ nat (n - 1) < (2 ^ 52 :: nat)" using low f52 by (rule order.strict_trans1)
  then have "nat (n - 1) < 52" by (simp only: power_strict_increasing_iff one_less_numeral_iff semiring_norm)
  then have n52: "1 \<le> nat n" "nat n \<le> 52" using n1 by simp_all
  have "2 ^ (nat n - 1) \<le> ?f" using low n1 by (simp add: nat_diff_distrib')
  note x = high_bits_value(1,2) [OF high n52] high_bits_value(3) [OF high n52 this]
  let ?d = "of_nat (unat ?x) / 2 ^ 31 :: rat"
  have v: "double_value u = of_nat ?f * 2 powi - 1074" using b f by (simp add: double_value_def exponent_def)
  let ?t = "2 powi - 1074 :: rat"
  have t: "0 < ?t" by simp
  have "(2 :: rat) powi (n - 1075) = 2 powi n * 2 powi - 1075" using power_int_add [of "2 :: rat" n "- 1075"] by simp
  then have p: "(2 :: rat) powi (n - 1075) = 2 ^ nat n / 2 * ?t"
    using n1 powi_half [of "- 1074"] by (simp add: power_int_def)
  have r: "of_nat (unat ?x) * 2 ^ nat n \<le> (of_nat ?f * 2 ^ 32 :: rat)" "of_nat ?f * 2 ^ 32 < ((of_nat (unat ?x) + 1) * 2 ^ nat n :: rat)"
    "(of_nat ?f :: rat) < 2 ^ nat n"
    using of_nat_le_iff [THEN iffD2, OF x(1), where 'a1 = rat] of_nat_less_iff [THEN iffD2, OF x(2), where 'a1 = rat]
      of_nat_less_iff [THEN iffD2, OF high, where 'a1 = rat]
    by (simp_all add: distrib_right)
  have "?d * 2 powi (n - 1075) = of_nat (unat ?x) * 2 ^ nat n / 2 ^ 32 * ?t" unfolding p by simp
  also have "\<dots> \<le> of_nat ?f * ?t" using r(1) by (intro mult_right_mono) (simp_all add: field_simps)
  finally have 1: "?d * 2 powi (n - 1075) \<le> double_value u" unfolding v .
  have "of_nat ?f * ?t < (of_nat (unat ?x) + 1) * 2 ^ nat n / 2 ^ 32 * ?t" using r(2) t by (intro mult_strict_right_mono) (simp_all add: field_simps)
  also have "\<dots> = (?d + 1 / 2 ^ 31) * 2 powi (n - 1075)" unfolding p by (simp add: field_simps)
  finally have 2: "double_value u < (?d + 1 / 2 ^ 31) * 2 powi (n - 1075)" unfolding v .
  have 3: "double_value u < 2 * 2 powi (n - 1075)" unfolding v p using r(3) by simp
  have "1 \<le> ?d" "?d < 2"
    using of_nat_mono [OF x(3), where 'a = rat] u32_bound [of ?x] of_nat_less_iff [of "unat ?x" "2 ^ 32", where 'a = rat] by simp_all
  then have "mantissa_of u ?d (n - 1075)" using 1 2 3 n52 n1 unfolding mantissa_of_def by simp
  moreover have "split_double u be m = (?d, n - 1075, True)"
  proof -
    have "nat (64 - n) = 64 - nat n" "nat (n - 32) = nat n - 32" "nat (32 - n) = 32 - nat n" "32 < n \<longleftrightarrow> 32 < nat n"
      using n1 by (simp_all add: zless_nat_eq_int_zless)
    moreover have "uint (drop_bit 20 (word0 u)) = 0" using high_word_biased [OF u] b by simp
    ultimately show ?thesis unfolding split_double_def i Let_def high_bits_def by simp
  qed
  ultimately show ?thesis using that by blast
qed

lemma split_value:
  assumes u: "unat (word0 u) < 2 ^ 31" "biased u < 2047"
    and d: "big_value b * 2 ^ nat h = significand u" "0 \<le> h" "bits_of n (big_value b)"
  obtains d i where "split_double u (exponent u + h) n = (d, i, biased u = 0)" "i = n + (exponent u + h) - 1" "mantissa_of u d i"
proof -
  have bits: "bits_of (n + h) (significand u)" using bits_of_shifted [OF d(3), of "nat h"] d(1,2) by simp
  show ?thesis
  proof (cases "biased u = 0")
    case True
    then have e: "exponent u = - 1074" by (simp add: exponent_def)
    then show ?thesis
      using split_denormal [OF u(1) True bits, of n "exponent u + h"] that [of _ "n + h - 1075"] True by fastforce
  next
    case False
    then have "bits_of 53 (significand u)" using fraction_bound [of u] by (simp add: bits_of_def significand_def)
    then have "n + h = 53" using bits_of_unique [OF bits] by simp
    moreover have "exponent u = int (biased u) - 1075" using False by (simp add: exponent_def max_def)
    ultimately have i: "int (biased u) - 1023 = n + (exponent u + h) - 1" by simp
    obtain d where "split_double u (exponent u + h) n = (d, int (biased u) - 1023, False)" "mantissa_of u d (int (biased u) - 1023)"
      by (rule split_normal [OF u(1) False u(2)])
    then show ?thesis using that i False by simp
  qed
qed

lemma estimate_k_value:
  assumes "mantissa_of u d i" and "estimate_k u d i = (k, check)"
  shows "check \<Longrightarrow> 10 powi (k - 1) \<le> double_value u" and "\<not> check \<Longrightarrow> 10 powi k \<le> double_value u"
    and "double_value u < 10 powi (k + 1)"
    and "\<not> check \<Longrightarrow> k \<le> 22" and "check \<Longrightarrow> k < 0 \<or> 22 < k"
proof -
  let ?k = "\<lfloor>log10_estimate d i\<rfloor>"
  have e: "10 powi (?k - 1) \<le> double_value u" "double_value u < 10 powi (?k + 1)"
    using estimate_value [of d i "double_value u" ?k] assms(1) by (auto simp: mantissa_of_def)
  have ten: "10 ^ nat ?k = (10 powi ?k :: rat)" if "0 \<le> ?k" using that by (simp add: power_int_def)
  show "check \<Longrightarrow> 10 powi (k - 1) \<le> double_value u" "\<not> check \<Longrightarrow> 10 powi k \<le> double_value u"
    "double_value u < 10 powi (k + 1)" "\<not> check \<Longrightarrow> k \<le> 22" "check \<Longrightarrow> k < 0 \<or> 22 < k"
    using e ten assms(2) by (auto simp: estimate_k_def Let_def split: if_splits)
qed

subsection \<open>The digits of a double\<close>

lemma integral_value:
  assumes "big_value b * 2 ^ nat h = significand u" and "0 \<le> h" and "0 \<le> exponent u + h"
  shows "double_value u = of_nat (big_value b * 2 ^ nat (exponent u + h))"
proof -
  have "double_value u = of_nat (big_value b) * (2 powi h * 2 powi exponent u)"
    using assms(1,2) unfolding double_value_def by (simp add: power_int_def flip: assms(1))
  also have "\<dots> = of_nat (big_value b) * 2 powi (exponent u + h)"
    using power_int_add [of "2 :: rat" h "exponent u"] by (simp add: add.commute)
  finally show ?thesis using assms(3) by (simp add: power_int_def)
qed

lemma at_least_one: "0 < n \<Longrightarrow> of_nat n < (10 :: rat) powi (k + 1) \<Longrightarrow> 0 \<le> k"
proof (rule ccontr)
  assume n: "0 < n" "of_nat n < (10 :: rat) powi (k + 1)" and "\<not> 0 \<le> k"
  then have "(10 :: rat) powi (k + 1) \<le> 10 powi 0" by (intro power_int_increasing) simp_all
  moreover have "(1 :: rat) \<le> of_nat n" using n(1) by simp
  ultimately show False using n(2) by simp
qed

lemma small_branch:
  assumes u: "unat (word0 u) < 2 ^ 31" "0 < significand u" and v: "double_value u = of_nat n" "0 < n"
    and k: "10 powi k \<le> double_value u" "double_value u < 10 powi (k + 1)" "k \<le> 14"
  shows "0 \<le> k" and "\<exists>s. small_digits (10 ^ nat k) [] (nat \<lfloor>double_value u\<rfloor>) = Some s \<and>
    shortest_decimal u s (k + 1) \<and> length s \<le> 15"
proof -
  show k0: "0 \<le> k" using at_least_one [OF v(2), of k] v(1) k(2) by simp
  have "(of_nat (10 ^ nat k) :: rat) \<le> of_nat n" "of_nat n < (of_nat (10 ^ Suc (nat k)) :: rat)"
    using k(1,2) k0 unfolding v(1) by (simp_all add: power_int_def nat_add_distrib)
  then have "10 ^ nat k \<le> n" "n < 10 ^ Suc (nat k)" unfolding of_nat_le_iff of_nat_less_iff by blast+
  from small_integer_shortest [OF u v(1) this] k0 k(3) v(1)
  show "\<exists>s. small_digits (10 ^ nat k) [] (nat \<lfloor>double_value u\<rfloor>) = Some s \<and>
    shortest_decimal u s (k + 1) \<and> length s \<le> 15" by simp
qed

lemma low_bit_ties: "word1 u AND 1 = 0 \<longleftrightarrow> even (significand u)"
proof -
  have "word1 u AND 1 = 0 \<longleftrightarrow> even (unat (word1 u))" using low_bits_clear [of "word1 u" 1] by simp
  also have "\<dots> \<longleftrightarrow> even (fraction u)" by (simp add: fraction_def)
  finally show ?thesis by (simp add: significand_def)
qed

lemma quotient_branch:
  assumes u: "unat (word0 u) < 2 ^ 31" "0 < significand u"
    and d: "d2b u = (u, b, exponent u + h, n)" "0 \<le> h" "big_value b * 2 ^ nat h = significand u" "big_ok b"
      "bits_of n (big_value b)"
    and "p5s_ok p5s" and "i = n + (exponent u + h) - 1"
    and k: "k_check \<Longrightarrow> 10 powi (k - 1) \<le> double_value u" "\<not> k_check \<Longrightarrow> 10 powi k \<le> double_value u"
      "double_value u < 10 powi (k + 1)"
  shows "\<exists>k' b' S mlo mhi q s c.
    prepare (scale (exponent u + h) n i k (biased u = 0)) k k_check (spec_case u) p5s b = Some (k', b', S, mlo, mhi, q) \<and>
    shortest_digits S (word1 u AND 1 = 0) [] b' mlo mhi = Some (s, c) \<and>
    p5s_ok q \<and> shortest_decimal u s (k' + c + 1) \<and> length s \<le> 18"
proof -
  obtain k' b' S mlo mhi q where p:
    "prepare (scale (exponent u + h) n i k (biased u = 0)) k k_check (spec_case u) p5s b = Some (k', b', S, mlo, mhi, q)"
    "p5s_ok q" "big_ok b'" "big_ok S" "big_ok mlo" "big_ok mhi" "10 \<le> unat (last (words S))" "unat (last (words S)) < 2 ^ 28"
    "loop_start u k' (big_value S) (big_value b') (big_value mlo) (big_value mhi)"
    "k' = (if k_check \<and> double_value u < 10 powi k then k - 1 else k)"
    using prepare_start [OF d assms(8) u(2) assms(9), of k k_check] by blast
  have k': "10 powi k' \<le> double_value u" "double_value u < 10 powi (k' + 1)"
    using k unfolding p(10) by auto
  obtain s c where s: "shortest_digits S (word1 u AND 1 = 0) [] b' mlo mhi = Some (s, c)"
    "result_ok (word1 u AND 1 = 0) (big_value S) (big_value b') (big_value mlo) (big_value mhi) (s, c)"
    using shortest_digits_value [OF p(4,7,8) start_inv [OF u p(9) k'] p(3,5,6), of "word1 u AND 1 = 0"] by auto
  then have "0 \<le> c" "shortest (word1 u AND 1 = 0) (big_value S) (big_value b') (big_value mlo) (big_value mhi) s (nat c)"
    by (simp_all add: result_ok_def)
  with shortest_to_decimal [OF u p(9) low_bit_ties k'(1) this(2)] p(1,2) s(1) show ?thesis by auto
qed

text \<open>Only the sign bit tells a double from its absolute value.\<close>

lemma without_sign:
  fixes d :: dbits
  defines "u \<equiv> (word0 d AND 0x7fffffff, word1 d)"
  shows "biased u = biased d" and "significand u = significand d" and "shortest_decimal u s p \<longleftrightarrow> shortest_decimal d s p"
    and "unat (word0 u) < 2 ^ 31"
proof -
  have masks: "(0x7fffffff :: u32) AND 0x7ff00000 = 0x7ff00000" "(0x7fffffff :: u32) AND 0xfffff = 0xfffff" by simp_all
  show b: "biased u = biased d" by (simp add: u_def biased_def and.assoc masks)
  have "fraction u = fraction d" by (simp add: u_def fraction_def and.assoc masks)
  then show f: "significand u = significand d" using b by (simp add: significand_def)
  have "double_value u = double_value d" using b f by (simp add: double_value_def exponent_def)
  then show "shortest_decimal u s p \<longleftrightarrow> shortest_decimal d s p" using f by (simp add: shortest_decimal_def rounds_to_def)
  show "unat (word0 u) < 2 ^ 31" by (simp add: u_def clear_sign)
qed

lemma finite_double:
  assumes "biased u < 2047" and "significand u \<noteq> 0" and "unat (word0 u) < 2 ^ 31"
  shows "\<not> (word0 u AND 0x7ff00000 = 0x7ff00000)" and "\<not> (word0 u AND 0x7fffffff = 0 \<and> word1 u = 0)"
proof -
  have "biased u = 2047" if "word0 u AND 0x7ff00000 = 0x7ff00000" unfolding biased_def that by simp
  then show "\<not> (word0 u AND 0x7ff00000 = 0x7ff00000)" using assms(1) by auto
  have "word0 u = 0" if "word0 u AND 0x7fffffff = 0" using clear_sign [of "word0 u"] assms(3) that by (simp add: unat_eq_0)
  then show "\<not> (word0 u AND 0x7fffffff = 0 \<and> word1 u = 0)"
    using assms(2) by (auto simp: significand_def fraction_def biased_def)
qed

lemma sign_cleared:
  "(if word0 d AND 0x80000000 \<noteq> 0 then ((word0 d AND 0x7fffffff, word1 d), 1) else (d, 0)) =
    ((word0 d AND 0x7fffffff, word1 d), if word0 d AND 0x80000000 \<noteq> 0 then 1 else 0 :: int)" for d :: dbits
proof (cases "word0 d AND 0x80000000 = 0")
  case True
  then have "unat (word0 d AND 0x7fffffff) = unat (word0 d)" by (simp add: clear_sign no_sign)
  then have "word0 d AND 0x7fffffff = word0 d" by (rule unsigned_word_eqI)
  then show ?thesis using True by (cases d) simp
qed simp

lemma dtoa_correct:
  assumes "biased d < 2047" and "significand d \<noteq> 0" and "p5s_ok p5s"
  shows "\<exists>s decpt q. dtoa d p5s = Some ((s, decpt, if word0 d AND 0x80000000 \<noteq> 0 then 1 else 0), q) \<and>
    shortest_decimal d s decpt \<and> length s \<le> 18 \<and> p5s_ok q"
proof -
  define u where "u = (word0 d AND 0x7fffffff, word1 d)"
  note sign = without_sign [of d, folded u_def]
  have u: "unat (word0 u) < 2 ^ 31" "0 < significand u" "biased u < 2047" "significand u \<noteq> 0"
    using sign(4) assms(1,2) sign(1,2) by simp_all
  have same: "(if word0 d AND 0x80000000 \<noteq> 0 then ((word0 d AND 0x7fffffff, word1 d), 1) else (d, 0)) =
    (u, if word0 d AND 0x80000000 \<noteq> 0 then 1 else 0 :: int)"
    unfolding u_def by (rule sign_cleared)
  obtain b h n where d: "d2b u = (u, b, exponent u + h, n)" "0 \<le> h" "big_value b * 2 ^ nat h = significand u" "odd (big_value b)"
    "big_ok b" "big_sign b = 0" "bits_of n (big_value b)"
    by (rule d2b_value [OF u(1,4)])
  obtain m i where m: "split_double u (exponent u + h) n = (m, i, biased u = 0)" "i = n + (exponent u + h) - 1" "mantissa_of u m i"
    by (rule split_value [OF u(1,3) d(3,2,7)])
  obtain k k_check where k: "estimate_k u m i = (k, k_check)" by fastforce
  note bounds = estimate_k_value [OF m(3) k]
  note run = dtoa_def same Let_def prod.case if_False finite_double [OF u(3,4,1), THEN eq_False [THEN iffD2]] d(1) m(1) k
  let ?goal = "\<lambda>s decpt q. dtoa d p5s = Some ((s, decpt, if word0 d AND 0x80000000 \<noteq> 0 then 1 else 0), q) \<and>
    shortest_decimal u s decpt \<and> length s \<le> 18 \<and> p5s_ok q"
  have "\<exists>s decpt q. ?goal s decpt q"
  proof (cases "0 \<le> exponent u + h \<and> k \<le> 14")
    case True
    have v: "double_value u = of_nat (big_value b * 2 ^ nat (exponent u + h))" "0 < big_value b * 2 ^ nat (exponent u + h)"
      using integral_value [OF d(3,2)] True odd_pos [OF d(4)] by simp_all
    have "0 \<le> k" using at_least_one [OF v(2), of k] bounds(3) v(1) by simp
    then have "\<not> k_check" using bounds(5) True by auto
    from small_branch(2) [OF u(1,2) v bounds(2) [OF this] bounds(3)] True obtain s where
      "small_digits (10 ^ nat k) [] (nat \<lfloor>double_value u\<rfloor>) = Some s" "shortest_decimal u s (k + 1)" "length s \<le> 15"
      by blast
    then have "?goal s (k + 1) p5s" using True \<open>0 \<le> k\<close> assms(3) unfolding run by simp
    then show ?thesis by blast
  next
    case False
    obtain k' b' S mlo mhi q s c where
      "prepare (scale (exponent u + h) n i k (biased u = 0)) k k_check (spec_case u) p5s b = Some (k', b', S, mlo, mhi, q)"
      "shortest_digits S (word1 u AND 1 = 0) [] b' mlo mhi = Some (s, c)"
      "p5s_ok q" "shortest_decimal u s (k' + c + 1)" "length s \<le> 18"
      using quotient_branch [OF u(1,2) d(1,2,3,5,7) assms(3) m(2) bounds(1,2,3)] by blast
    then have "?goal s (k' + c + 1) q" unfolding run if_not_P [OF False] by simp
    then show ?thesis by blast
  qed
  then show ?thesis unfolding sign(3) .
qed

text \<open>
  C5. The digits that \<open>dtoa\<close> gives for a finite double other than zero: together with the position of the
  point they are a decimal number that is rounded to that double, no decimal number with fewer
  digits is rounded to it, and none with as many digits is closer to it. There are at most 18 digits, none
  of them a leading or trailing zero, and \<open>dtoa\<close> always returns; the sign is that of the double, and the
  list of powers of five stays correct for the next call.
\<close>

theorem dtoa_shortest:
  assumes "biased d < 2047" and "significand d \<noteq> 0" and "p5s_ok p5s"
  shows "\<exists>s decpt q. dtoa d p5s = Some ((s, decpt, if word0 d AND 0x80000000 \<noteq> 0 then 1 else 0), q) \<and>
    shortest_decimal d s decpt \<and> length s \<le> 18 \<and> p5s_ok q"
  by (rule dtoa_correct [OF assms])

text \<open>The double 0.1, with the list of powers of five still empty.\<close>

theorem dtoa_shortest_witness:
  "\<exists>s decpt q. dtoa (0x3fb99999, 0x9999999a) [] = Some ((s, decpt, 0), q) \<and>
    shortest_decimal (0x3fb99999, 0x9999999a) s decpt \<and> length s \<le> 18 \<and> p5s_ok q"
  using dtoa_shortest [of "(0x3fb99999, 0x9999999a)" "[]"]
  by (simp add: biased_def significand_def fraction_def p5s_ok_def)

end
