(* ===== verification/Doubles.thy ===== *)
theory Doubles
  imports Dtoa
begin

text \<open>
  Arithmetic on doubles as IEEE 754 defines it, rounding to the nearest: the exact result on rational
  numbers, and the double it is rounded to. A double is its two words, the representation that
  \<open>wtf/dtoa.cpp\<close> reads and changes through the union \<open>U\<close>.
\<close>

subsection \<open>Classes of doubles\<close>

definition negative :: "dbits \<Rightarrow> bool" where
  "negative d \<longleftrightarrow> word0 d AND 0x80000000 \<noteq> 0"

definition is_nan :: "dbits \<Rightarrow> bool" where
  "is_nan d \<longleftrightarrow> biased d = 2047 \<and> fraction d \<noteq> 0"

definition is_infinite :: "dbits \<Rightarrow> bool" where
  "is_infinite d \<longleftrightarrow> biased d = 2047 \<and> fraction d = 0"

definition is_zero :: "dbits \<Rightarrow> bool" where
  "is_zero d \<longleftrightarrow> significand d = 0"

definition infinity :: dbits where
  "infinity = (0x7ff00000, 0)"

definition nan :: dbits where
  "nan = (0x7ff80000, 0)"

definition negate :: "dbits \<Rightarrow> dbits" where
  "negate d = (word0 d XOR 0x80000000, word1 d)"

definition with_sign :: "bool \<Rightarrow> dbits \<Rightarrow> dbits" where
  "with_sign s d = (if s then negate d else d)"

text \<open>The number that a finite double stands for.\<close>

definition number_of :: "dbits \<Rightarrow> rat" where
  "number_of d = (if negative d then - double_value d else double_value d)"

subsection \<open>Rounding\<close>

text \<open>
  The double nearest to a number that is not negative. The last place has the exponent \<open>e\<close>; the words of a double,
  read as one integer, count the doubles from 0 on, so that a significand that is rounded up
  to \<open>2 ^ 53\<close> and a number that is too large need no cases of their own.
\<close>

definition encode_bits :: "rat \<Rightarrow> nat" where
  "encode_bits x =
    (let e = max (ilog2 x - 52) (- 1074)
     in nat (e + 1074) * 2 ^ 52 + nat (round_even (x / 2 powi e)))"

definition encode :: "rat \<Rightarrow> dbits" where
  "encode x =
    (let b = (if x = 0 then 0 else min (encode_bits x) (2047 * 2 ^ 52))
     in (of_nat (b div 2 ^ 32), of_nat b))"

definition double_of :: "rat \<Rightarrow> dbits" where
  "double_of x = with_sign (x < 0) (encode \<bar>x\<bar>)"

subsection \<open>Operations\<close>

definition dadd :: "dbits \<Rightarrow> dbits \<Rightarrow> dbits" where
  "dadd a b =
    (if is_nan a \<or> is_nan b \<or> is_infinite a \<and> is_infinite b \<and> negative a \<noteq> negative b then nan
     else if is_infinite a then a
     else if is_infinite b then b
     else if number_of a + number_of b = 0 then with_sign (negative a \<and> negative b) (0, 0)
     else double_of (number_of a + number_of b))"

definition dsub :: "dbits \<Rightarrow> dbits \<Rightarrow> dbits" where
  "dsub a b = dadd a (negate b)"

definition dmul :: "dbits \<Rightarrow> dbits \<Rightarrow> dbits" where
  "dmul a b =
    (if is_nan a \<or> is_nan b \<or> is_infinite a \<and> is_zero b \<or> is_zero a \<and> is_infinite b then nan
     else with_sign (negative a \<noteq> negative b)
       (if is_infinite a \<or> is_infinite b then infinity else encode (double_value a * double_value b)))"

definition ddiv :: "dbits \<Rightarrow> dbits \<Rightarrow> dbits" where
  "ddiv a b =
    (if is_nan a \<or> is_nan b \<or> is_infinite a \<and> is_infinite b \<or> is_zero a \<and> is_zero b then nan
     else with_sign (negative a \<noteq> negative b)
       (if is_infinite a \<or> is_zero b then infinity
        else if is_infinite b then (0, 0)
        else encode (double_value a / double_value b)))"

end
