(* ===== verification/NumberText.thy ===== *)
theory NumberText
  imports DtoaCorrect Doubles
begin

text \<open>
  The text that JavaScript shows for a number, \<open>doubleToStringInJavaScriptFormat\<close> in \<open>wtf/dtoa.cpp\<close> and
  \<open>UString::number\<close> in \<open>runtime/UString.h\<close>: what it is for every double, and that a finite double is what the
  text rounds to.
\<close>

text \<open>The digits of the exponent, without leading zeros.\<close>

definition exponent_text :: "int \<Rightarrow> int list" where
  "exponent_text e =
    (if 100 \<le> e then [48 + e div 100] else []) @ (if 10 \<le> e then [48 + e mod 100 div 10] else []) @ [48 + e mod 10]"

text \<open>What is appended to the buffer for the result of \<open>dtoa\<close>, after the sign.\<close>

definition decimal_text :: "int list \<Rightarrow> int \<Rightarrow> int list" where
  "decimal_text s decpt =
    (if decpt \<le> 0 \<and> -6 < decpt then [48, 46] @ replicate (nat (- decpt)) 48 @ s
     else if decpt \<le> 21 \<and> 0 < decpt then
       if int (length s) \<le> decpt then s @ replicate (nat (decpt - int (length s))) 48
       else take (nat decpt) s @ [46] @ drop (nat decpt) s
     else if hd s < 48 \<or> 57 < hd s then s
     else [hd s] @ (if 1 < length s then [46] @ tl s else []) @ [101, if 0 \<le> decpt then 43 else 45] @
       exponent_text \<bar>decpt - 1\<bar>)"

definition doubleToStringInJavaScriptFormat :: "dbits \<Rightarrow> bigint list \<Rightarrow> (int list \<times> bigint list) option" where
  "doubleToStringInJavaScriptFormat d p5s =
    (if is_nan d then Some (map of_char ''NaN'', p5s)
     else if significand d = 0 then Some ([48], p5s)
     else map_option (\<lambda>((s, decpt, sgn), p5s). ((if sgn \<noteq> 0 then [45] else []) @ decimal_text s decpt, p5s))
       (dtoa d p5s))"

subsection \<open>Reading the text back\<close>

text \<open>The value of digits with an optional point and an optional exponent, as a JavaScript literal has them.\<close>

definition exponent_value :: "int list \<Rightarrow> int" where
  "exponent_value cs =
    (case cs of [] \<Rightarrow> 0 | c # ds \<Rightarrow> if c = 45 then - int (digits_value 0 ds) else int (digits_value 0 ds))"

definition number_value :: "int list \<Rightarrow> rat" where
  "number_value cs =
    (let m = takeWhile (\<lambda>c. c \<noteq> 101) cs; e = drop 1 (dropWhile (\<lambda>c. c \<noteq> 101) cs);
         whole = takeWhile (\<lambda>c. c \<noteq> 46) m; fract = drop 1 (dropWhile (\<lambda>c. c \<noteq> 46) m)
     in of_nat (digits_value 0 (whole @ fract)) * 10 powi (exponent_value e - int (length fract)))"

lemma digits_chars: "digits s \<Longrightarrow> c \<in> set s \<Longrightarrow> c \<noteq> 101 \<and> c \<noteq> 46"
  by (auto simp: list_all_iff)

lemma take_until: "digits s \<Longrightarrow> takeWhile (\<lambda>c. c \<noteq> 101) (s @ t) = s @ takeWhile (\<lambda>c. c \<noteq> 101) t"
  "digits s \<Longrightarrow> dropWhile (\<lambda>c. c \<noteq> 101) (s @ t) = dropWhile (\<lambda>c. c \<noteq> 101) t"
  "digits s \<Longrightarrow> takeWhile (\<lambda>c. c \<noteq> 46) (s @ t) = s @ takeWhile (\<lambda>c. c \<noteq> 46) t"
  "digits s \<Longrightarrow> dropWhile (\<lambda>c. c \<noteq> 46) (s @ t) = dropWhile (\<lambda>c. c \<noteq> 46) t"
  using digits_chars by (simp_all add: takeWhile_append2 dropWhile_append2)

lemmas take_all = take_until [where t = "[]", unfolded append_Nil2 takeWhile.simps dropWhile.simps]

lemma number_value_text:
  assumes "digits a" and "digits b"
  shows "number_value a = of_nat (digits_value 0 a)"
    and "number_value (a @ 46 # b) = of_nat (digits_value 0 (a @ b)) * 10 powi - int (length b)"
    and "number_value (a @ 101 # c # ds) = of_nat (digits_value 0 a) * 10 powi exponent_value (c # ds)"
    and "number_value (a @ 46 # b @ 101 # c # ds) = of_nat (digits_value 0 (a @ b)) * 10 powi (exponent_value (c # ds) - int (length b))"
  by (simp_all add: number_value_def exponent_value_def take_until [OF assms(1)] take_until [OF assms(2)]
      take_all [OF assms(1)] take_all [OF assms(2)])

lemma digits_value_zeros: "digits_value 0 (replicate n 48 @ s) = digits_value 0 s"
  "digits_value 0 (s @ replicate n 48) = digits_value 0 s * 10 ^ n"
proof -
  show "digits_value 0 (replicate n 48 @ s) = digits_value 0 s" by (induction n) (simp_all add: digits_value_def)
  show "digits_value 0 (s @ replicate n 48) = digits_value 0 s * 10 ^ n"
  proof (induction n)
    case (Suc n)
    have "s @ replicate (Suc n) 48 = (s @ replicate n 48) @ [48 + int 0]" by (simp add: replicate_append_same)
    then show ?case using Suc by (simp only: digits_value_snoc) simp
  qed simp
qed

lemma three: "10 * b + c = r \<Longrightarrow> 100 * a + r = m \<Longrightarrow> 10 * (10 * a + b) + c = m" for a b c r m :: nat
  by simp

lemma exponent_text_value:
  assumes "0 \<le> e" and "e < 1000"
  shows "digits_value 0 (exponent_text e) = nat e" and "length (exponent_text e) \<le> 3"
proof -
  obtain m where m: "e = int m" using assms(1) nonneg_int_cases by blast
  have parts: "nat (int m div 100) = m div 100" "nat (int m mod 100 div 10) = m mod 100 div 10" "nat (int m mod 10) = m mod 10"
    by (simp_all add: nat_div_distrib nat_mod_distrib)
  consider "m < 10" | "10 \<le> m" "m < 100" | "100 \<le> m" by linarith
  then show "digits_value 0 (exponent_text e) = nat e"
  proof cases
    case 1
    then show ?thesis by (simp add: m exponent_text_def digits_value_def)
  next
    case 2
    then have "10 * (m mod 100 div 10) + m mod 10 = m" by simp
    with 2 show ?thesis by (simp add: m exponent_text_def digits_value_def nat_div_distrib nat_mod_distrib)
  next
    case 3
    have "10 * (m mod 100 div 10) + m mod 100 mod 10 = m mod 100" by simp
    moreover have "m mod 100 mod 10 = m mod 10" by (rule mod_mod_cancel) simp
    ultimately have "10 * (10 * (m div 100) + m mod 100 div 10) + m mod 10 = m"
      using three [OF _ mult_div_mod_eq [of 100 m]] by simp
    with 3 show ?thesis by (simp add: m exponent_text_def digits_value_def parts)
  qed
qed (simp add: exponent_text_def)

text \<open>The text of digits has the value of the digits.\<close>

lemma decimal_text_value:
  assumes s: "s \<noteq> []" "digits s" and "\<bar>decpt - 1\<bar> < 1000"
  shows "number_value (decimal_text s decpt) = decimal s decpt"
proof -
  consider (small) "decpt \<le> 0" "-6 < decpt" | (whole) "0 < decpt" "decpt \<le> 21" "int (length s) \<le> decpt"
    | (point) "0 < decpt" "decpt \<le> 21" "decpt < int (length s)" | (exponent) "decpt \<le> -6 \<or> 21 < decpt" by linarith
  then show ?thesis
  proof cases
    case small
    have d: "digits [48]" "digits (replicate (nat (- decpt)) 48 @ s)" using s(2) by (auto simp: list_all_iff)
    have "decimal_text s decpt = [48] @ 46 # replicate (nat (- decpt)) 48 @ s" using small by (simp add: decimal_text_def)
    then show ?thesis using number_value_text(2) [OF d] small digits_value_zeros(1) [of "Suc (nat (- decpt))" s]
      by (simp add: decimal_def)
  next
    case whole
    have d: "digits (s @ replicate (nat (decpt - int (length s))) 48)" using s(2) by (auto simp: list_all_iff)
    have "decimal_text s decpt = s @ replicate (nat (decpt - int (length s))) 48" using whole by (simp add: decimal_text_def)
    then show ?thesis using number_value_text(1) [OF d d] whole by (simp add: decimal_def digits_value_zeros power_int_def)
  next
    case point
    have d: "digits (take (nat decpt) s)" "digits (drop (nat decpt) s)" using s(2) by (auto simp: list_all_iff dest: in_set_takeD in_set_dropD)
    have "decimal_text s decpt = take (nat decpt) s @ 46 # drop (nat decpt) s" using point by (simp add: decimal_text_def)
    then show ?thesis using number_value_text(2) [OF d] point by (simp add: decimal_def)
  next
    case exponent
    obtain c cs where c: "s = c # cs" using s(1) by (cases s) simp_all
    have d: "digits [c]" "digits cs" "48 \<le> c" "c \<le> 57" using s(2) c by simp_all
    let ?sign = "if 0 \<le> decpt then 43 else 45 :: int"
    have e: "exponent_value (?sign # exponent_text \<bar>decpt - 1\<bar>) = decpt - 1"
      using exponent_text_value(1) [OF abs_ge_zero assms(3)] exponent by (auto simp: exponent_value_def)
    have t: "decimal_text s decpt = [c] @ (if cs = [] then [] else 46 # cs) @ 101 # ?sign # exponent_text \<bar>decpt - 1\<bar>"
      using exponent d(3,4) c by (auto simp: decimal_text_def)
    show ?thesis
      using number_value_text(3) [OF d(1,2)] number_value_text(4) [OF d(1,2)] e c unfolding t by (simp add: decimal_def diff_diff_eq)
  qed
qed

lemma decimal_text_length:
  assumes "s \<noteq> []" and "\<bar>decpt - 1\<bar> < 1000" and "length s \<le> 18"
  shows "length (decimal_text s decpt) \<le> 25"
  using assms exponent_text_value(2) [OF abs_ge_zero assms(2)] by (cases s) (auto simp: decimal_text_def)

subsection \<open>The exponent has at most three digits\<close>

lemma digits_value_first:
  assumes "s \<noteq> []" and "digits s" and "hd s \<noteq> 48"
  shows "10 ^ (length s - 1) \<le> digits_value 0 s"
proof -
  have "digits s \<Longrightarrow> 10 ^ length s * n \<le> digits_value n s" for n and s :: "int list"
  proof (induction s arbitrary: n)
    case (Cons c s)
    then have "10 ^ length s * (10 * n + nat (c - 48)) \<le> digits_value n (c # s)" by (simp add: digits_value_def)
    then show ?case by (simp add: algebra_simps)
  qed (simp add: digits_value_def)
  moreover obtain c cs where s: "s = c # cs" using assms(1) by (cases s) simp_all
  ultimately have "10 ^ length cs * nat (c - 48) \<le> digits_value 0 s" using assms(2) by (fastforce simp: digits_value_def)
  moreover have "1 \<le> nat (c - 48)" using assms(2,3) s by auto
  then have "10 ^ length cs * 1 \<le> 10 ^ length cs * nat (c - 48)" by (rule mult_le_mono2)
  ultimately have "10 ^ length cs * 1 \<le> digits_value 0 s" by (rule order.trans [rotated])
  then show ?thesis using s by simp
qed

lemma decimal_range:
  assumes "s \<noteq> []" and "digits s" and "hd s \<noteq> 48"
  shows "10 powi (decpt - 1) \<le> decimal s decpt" and "decimal s decpt < 10 powi decpt"
proof -
  let ?n = "length s" and ?t = "10 powi (decpt - int (length s)) :: rat"
  have t: "0 < ?t" by simp
  have e: "10 ^ m * ?t = 10 powi (int m + (decpt - int ?n))" for m
    using power_int_add [of "10 :: rat" "int m" "decpt - int ?n"] by (simp add: power_int_def)
  have "1 \<le> ?n" using assms(1) by (cases s) simp_all
  have "(10 :: rat) ^ (?n - 1) \<le> of_nat (digits_value 0 s)"
    using of_nat_mono [OF digits_value_first [OF assms], where 'a = rat] by simp
  then have "10 ^ (?n - 1) * ?t \<le> decimal s decpt" using t by (simp add: decimal_def)
  then show "10 powi (decpt - 1) \<le> decimal s decpt" unfolding e using \<open>1 \<le> ?n\<close> by simp
  have "(of_nat (digits_value 0 s) :: rat) < of_nat (10 ^ ?n)"
    unfolding of_nat_less_iff by (rule digits_value_bound [OF assms(2)])
  then have "decimal s decpt < 10 ^ ?n * ?t" using t by (simp add: decimal_def)
  then show "decimal s decpt < 10 powi decpt" unfolding e by simp
qed

lemma double_range:
  assumes "biased u < 2047" and "0 < significand u"
  shows "2 powi - 1074 \<le> double_value u" and "double_value u < 2 powi 1024"
proof -
  have e: "- 1074 \<le> exponent u" "exponent u \<le> 971" using assms(1) by (auto simp: exponent_def)
  have p: "(2 :: rat) powi - 1074 \<le> 2 powi exponent u" by (rule power_int_increasing [OF e(1)]) simp
  have q: "(2 :: rat) powi exponent u \<le> 2 powi 971" by (rule power_int_increasing [OF e(2)]) simp
  have "(1 :: rat) \<le> of_nat (significand u)" "(of_nat (significand u) :: rat) < 2 ^ 53"
    using assms(2) significand_bound [of u] of_nat_less_iff [of "significand u" "2 ^ 53", where 'a = rat] by simp_all
  then have "1 * 2 powi exponent u \<le> double_value u" "double_value u < 2 ^ 53 * 2 powi exponent u"
    unfolding double_value_def by (intro mult_right_mono mult_strict_right_mono; simp)+
  moreover have "2 ^ 53 * (2 :: rat) powi 971 = 2 powi 1024" using power_int_add [of "2 :: rat" 53 971] by simp
  then have "2 ^ 53 * 2 powi exponent u \<le> (2 :: rat) powi 1024"
    using mult_left_mono [OF q, of "2 ^ 53"] by (metis zero_le_numeral zero_le_power)
  ultimately show "2 powi - 1074 \<le> double_value u" "double_value u < 2 powi 1024" using p
    by (metis mult_1 order.trans, metis order.strict_trans2)
qed

lemma powi_less: "(10 :: rat) powi a < 10 powi b \<Longrightarrow> a < b"
  by (rule ccontr) (use power_int_increasing [of b a "10 :: rat"] in simp)

lemma decpt_bound:
  assumes u: "unat (word0 u) < 2 ^ 31" "biased u < 2047" "0 < significand u" and s: "shortest_decimal u s decpt"
  shows "\<bar>decpt - 1\<bar> < 1000"
proof -
  let ?x = "decimal s decpt" and ?v = "double_value u"
  have x: "10 powi (decpt - 1) \<le> ?x" "?x < 10 powi decpt" using decimal_range s by (simp_all add: shortest_decimal_def)
  have "between_midpoints ?x u" using s rounds_to_iff [OF u(1,3)] by (simp add: shortest_decimal_def)
  then have between: "?v - lower_gap u \<le> ?x" "?x \<le> ?v + upper_gap u" by (auto simp: between_midpoints_def split: if_splits)
  have "?v = of_nat (significand u) * (2 * upper_gap u)" using powi_half [of "exponent u"] by (simp add: double_value_def upper_gap_def)
  moreover have "1 * (2 * upper_gap u) \<le> of_nat (significand u) * (2 * upper_gap u)"
    using u(3) gaps_pos [of u] by (intro mult_right_mono) simp_all
  ultimately have "2 * upper_gap u \<le> ?v" by simp
  then have "?v / 2 \<le> ?x" "?x < 2 * ?v" using between midpoint_small(1,2) [OF u(1,3)] by simp_all
  then have "2 powi - 1074 / 2 \<le> ?x" "?x < 2 * 2 powi 1024" using double_range [OF u(2,3)] by linarith+
  moreover have "2 * 2 powi 1024 \<le> (10 :: rat) powi 400" "(10 :: rat) powi - 400 \<le> 2 powi - 1074 / 2" by (simp_all add: power_int_minus field_simps)
  ultimately have "(10 :: rat) powi (decpt - 1) < 10 powi 400" "(10 :: rat) powi - 400 < 10 powi decpt" using x by linarith+
  then have "decpt - 1 < 400" "- 400 < decpt" using powi_less by blast+
  then show ?thesis by simp
qed

subsection \<open>Numbers are read back\<close>

lemma finite_not_nan: "biased d < 2047 \<Longrightarrow> \<not> is_nan d"
  by (simp add: is_nan_def)

text \<open>
  C6. The text of a finite double other than zero, as JavaScript shows it: a minus sign for a negative number,
  then decimal digits with a point or an exponent whose value, read as a literal, is rounded to that
  double, so that nothing is lost; and at most 26 characters, so that it fits into the buffer of 80.
\<close>

theorem number_text_rounds_back:
  assumes "biased d < 2047" and "significand d \<noteq> 0" and "p5s_ok p5s"
  shows "\<exists>t q. doubleToStringInJavaScriptFormat d p5s = Some ((if word0 d AND 0x80000000 \<noteq> 0 then [45] else []) @ t, q) \<and>
    rounds_to (number_value t) d \<and> length t \<le> 25 \<and> p5s_ok q"
proof -
  obtain s decpt q where s: "dtoa d p5s = Some ((s, decpt, if word0 d AND 0x80000000 \<noteq> 0 then 1 else 0), q)"
    "shortest_decimal d s decpt" "length s \<le> 18" "p5s_ok q"
    using dtoa_correct [OF assms] by blast
  let ?u = "(word0 d AND 0x7fffffff, word1 d)"
  note sign = without_sign [of d]
  have "\<bar>decpt - 1\<bar> < 1000" using decpt_bound [of ?u s decpt] sign assms(1,2) s(2) by simp
  moreover have "s \<noteq> []" "digits s" "rounds_to (decimal s decpt) d" using s(2) by (simp_all add: shortest_decimal_def)
  ultimately have "rounds_to (number_value (decimal_text s decpt)) d" "length (decimal_text s decpt) \<le> 25"
    using decimal_text_value decimal_text_length s(3) by simp_all
  moreover have "doubleToStringInJavaScriptFormat d p5s =
    Some ((if word0 d AND 0x80000000 \<noteq> 0 then [45] else []) @ decimal_text s decpt, q)"
    using finite_not_nan [OF assms(1)] assms(2) s(1) by (simp add: doubleToStringInJavaScriptFormat_def)
  ultimately show ?thesis using s(4) by blast
qed

text \<open>The double -0.1.\<close>

theorem number_text_rounds_back_witness:
  "\<exists>t q. doubleToStringInJavaScriptFormat (0xbfb99999, 0x9999999a) [] = Some (45 # t, q) \<and>
    rounds_to (number_value t) (0xbfb99999, 0x9999999a) \<and> length t \<le> 25 \<and> p5s_ok q"
  using number_text_rounds_back [of "(0xbfb99999, 0x9999999a)" "[]"]
  by (simp add: biased_def significand_def fraction_def p5s_ok_def)

end
