(* ===== verification/Strtod.thy ===== *)
theory Strtod
  imports Doubles
begin

text \<open>
  The conversion of decimal text to a double, \<open>strtod\<close> in \<open>wtf/dtoa.cpp\<close>. A text is a list of characters that ends
  where the list ends or at a character 0; a pointer into it is what is left of the text. The
  code is compiled with \<open>Avoid_Underflow\<close>, \<open>NO_ERRNO\<close> and rounding to nearest.
\<close>

subsection \<open>Reading the text\<close>

definition char_at :: "int list \<Rightarrow> int" where
  "char_at s = (case s of [] \<Rightarrow> 0 | c # _ \<Rightarrow> c)"

abbreviation (input) is_digit :: "int \<Rightarrow> bool" where
  "is_digit c \<equiv> 48 \<le> c \<and> c \<le> 57"

text \<open>White space and the sign. \<open>None\<close> is the jump to \<open>ret0\<close>.\<close>

fun skip_to_number :: "int list \<Rightarrow> (bool \<times> int list) option" where
  "skip_to_number [] = None"
| "skip_to_number (c # s) =
    (if c = 45 \<or> c = 43 then if char_at s \<noteq> 0 then Some (c = 45, s) else None
     else if c = 0 then None
     else if 9 \<le> c \<and> c \<le> 13 \<or> c = 32 then skip_to_number s
     else Some (False, c # s))"

text \<open>
  The digits read so far: their number \<open>nd\<close>, the value \<open>y\<close> of the first nine and \<open>z\<close> of the next seven.
\<close>

record digit_state =
  nd :: nat
  y9 :: u32
  z7 :: u32

definition add_digit :: "int \<Rightarrow> digit_state \<Rightarrow> digit_state" where
  "add_digit c d =
    (let d' = d\<lparr>nd := nd d + 1\<rparr> in
     if nd d < 9 then d'\<lparr>y9 := 10 * y9 d + word_of_int (c - 48)\<rparr>
     else if nd d + 1 \<le> 16 then d'\<lparr>z7 := 10 * z7 d + word_of_int (c - 48)\<rparr>
     else d')"

fun whole_digits :: "digit_state \<Rightarrow> int list \<Rightarrow> digit_state \<times> int list" where
  "whole_digits d [] = (d, [])"
| "whole_digits d (c # s) = (if is_digit c then whole_digits (add_digit c d) s else (d, c # s))"

text \<open>The digits after the point, where zeros count only when a digit other than zero follows.\<close>

fun fraction_digits :: "nat \<Rightarrow> nat \<Rightarrow> digit_state \<Rightarrow> int list \<Rightarrow> nat \<times> nat \<times> digit_state \<times> int list" where
  "fraction_digits nz nf d [] = (nz, nf, d, [])"
| "fraction_digits nz nf d (c # s) =
    (if \<not> is_digit c then (nz, nf, d, c # s)
     else if c = 48 then fraction_digits (nz + 1) nf d s
     else fraction_digits 0 (nf + (nz + 1)) (add_digit c ((add_digit 48 ^^ nz) d)) s)"

text \<open>
  From the point on: \<open>nz\<close>, \<open>nf\<close>, the digits, where they start, and the rest of the text.
\<close>

definition read_fraction ::
  "digit_state \<Rightarrow> int list \<Rightarrow> int list \<Rightarrow> nat \<times> nat \<times> digit_state \<times> int list \<times> int list" where
  "read_fraction d s0 s =
    (if char_at s \<noteq> 46 then (0, 0, d, s0, s)
     else
       let s = tl s in
       if nd d = 0 then
         let s' = dropWhile (\<lambda>c. c = 48) s; nz = length s - length s' in
         if 48 < char_at s' \<and> char_at s' \<le> 57 then
           let (nz, nf, d, r) = fraction_digits 0 nz d s' in (nz, nf, d, s', r)
         else (nz, 0, d, s0, s')
       else let (nz, nf, d, r) = fraction_digits 0 0 d s in (nz, nf, d, s0, r))"

text \<open>
  The digits of the exponent. More than eight digits or a value above 19999 count as 19999, so that the
  32-bit \<open>L\<close> matters only while it cannot overflow.
\<close>

definition exponent_digits :: "int list \<Rightarrow> int \<times> int list" where
  "exponent_digits s =
    (let s1 = dropWhile (\<lambda>c. c = 48) s;
         ds = takeWhile is_digit s1; rest = dropWhile is_digit s1
     in if ds = [] then (0, rest)
        else
          let l = foldl (\<lambda>l c. 10 * l + (c - 48)) 0 ds
          in (if 8 < length ds \<or> 19999 < l then 19999 else l, rest))"

definition read_exponent :: "int list \<Rightarrow> int \<times> int list" where
  "read_exponent s =
    (if char_at s = 101 \<or> char_at s = 69 then
       let s1 = tl s;
           (esign, s2) = (if char_at s1 = 45 then (True, tl s1) else if char_at s1 = 43 then (False, tl s1) else (False, s1))
       in if is_digit (char_at s2) then
            let (e, r) = exponent_digits s2 in (if esign then - e else e, r)
          else (0, s)
     else (0, s))"

subsection \<open>Constants and starting value\<close>

definition tens :: "nat \<Rightarrow> dbits" where
  "tens i = double_of (10 ^ i)"

definition bigtens :: "nat \<Rightarrow> dbits" where
  "bigtens j = double_of (10 ^ ([16, 32, 64, 128, 256] ! j))"

definition tinytens :: "nat \<Rightarrow> dbits" where
  "tinytens j =
    (if j = 4 then dmul (double_of 9007199254740992) (double_of (9007199254740992 / 10 ^ 256))
     else double_of (1 / 10 ^ ([16, 32, 64, 128] ! j)))"

definition exp_field :: "dbits \<Rightarrow> u32" where
  "exp_field d = word0 d AND 0x7ff00000"

text \<open>\<open>goto ret\<close> with a value, or the value to go on with.\<close>

datatype 'a step = Return dbits | Continue 'a

abbreviation ovfl :: "'a step" where
  "ovfl \<equiv> Return (0x7ff00000, 0)"

abbreviation undfl :: "'a step" where
  "undfl \<equiv> Return (0, 0)"

fun multiply_bits :: "(nat \<Rightarrow> dbits) \<Rightarrow> nat \<Rightarrow> nat \<Rightarrow> dbits \<Rightarrow> dbits" where
  "multiply_bits f j n rv =
    (if n = 0 then rv
     else multiply_bits f (j + 1) (n div 2) (if odd n then dmul rv (f j) else rv))"

fun multiply_upper :: "nat \<Rightarrow> nat \<Rightarrow> dbits \<Rightarrow> nat \<times> dbits" where
  "multiply_upper j n rv =
    (if n \<le> 1 then (j, rv)
     else multiply_upper (j + 1) (n div 2) (if odd n then dmul rv (bigtens j) else rv))"

definition scale_up :: "nat \<Rightarrow> dbits \<Rightarrow> dbits step" where
  "scale_up e1 rv =
    (let rv = (if e1 mod 16 \<noteq> 0 then dmul rv (tens (e1 mod 16)) else rv) in
     if e1 div 16 = 0 then Continue rv
     else if 308 < e1 div 16 * 16 then ovfl
     else
       let (j, rv) = multiply_upper 0 (e1 div 16) rv;
           rv = dmul (word0 rv - 53 * 0x100000, word1 rv) (bigtens j);
           z = exp_field rv
       in if 0x100000 * (1024 + 1023 - 53) < z then ovfl
          else if 0x100000 * (1024 + 1023 - 1 - 53) < z then Continue (0x7fefffff, 0xffffffff)
          else Continue (word0 rv + 53 * 0x100000, word1 rv))"

text \<open>The low bits of a scaled value that stands for a denormal number are cleared.\<close>

definition zap_bits :: "dbits \<Rightarrow> dbits" where
  "zap_bits rv =
    (let j = 107 - uint (drop_bit 20 (exp_field rv)) in
     if j \<le> 0 then rv
     else if 53 \<le> j then (55 * 0x100000, 0)
     else if 32 \<le> j then (word0 rv AND push_bit (nat (j - 32)) 0xffffffff, 0)
     else (word0 rv, word1 rv AND push_bit (nat j) 0xffffffff))"

text \<open>The second component is \<open>scale\<close>, which is 0 or 106.\<close>

definition scale_down :: "nat \<Rightarrow> dbits \<Rightarrow> (dbits \<times> int) step" where
  "scale_down e1 rv =
    (let rv = (if e1 mod 16 \<noteq> 0 then ddiv rv (tens (e1 mod 16)) else rv); e1 = e1 div 16 in
     if e1 = 0 then Continue (rv, 0)
     else if 32 \<le> e1 then undfl
     else
       let scl = (if 16 \<le> e1 then 106 else 0);
           rv = multiply_bits tinytens 0 e1 rv;
           rv = (if scl \<noteq> 0 then zap_bits rv else rv)
       in if is_zero rv then undfl else Continue (rv, scl))"

definition first_estimate :: "int \<Rightarrow> dbits \<Rightarrow> (dbits \<times> int) step" where
  "first_estimate e1 rv =
    (if 0 < e1 then (case scale_up (nat e1) rv of Return r \<Rightarrow> Return r | Continue r \<Rightarrow> Continue (r, 0))
     else if e1 < 0 then scale_down (nat (- e1)) rv
     else Continue (rv, 0))"

subsection \<open>Correction of the estimate\<close>

definition ulp :: "dbits \<Rightarrow> dbits" where
  "ulp x = (exp_field x - 52 * 0x100000, 0)"

definition ratio :: "bigint \<Rightarrow> bigint \<Rightarrow> dbits option" where
  "ratio a b =
    Option.bind (b2d a) (\<lambda>(da, ka).
    Option.bind (b2d b) (\<lambda>(db, kb).
      let k = ka - kb + 32 * (int (length (words a)) - int (length (words b))) in
      if 0 < k then Some (ddiv (word0 da + word_of_int k * 0x100000, word1 da) db)
      else Some (ddiv da (word0 db + word_of_int (- k) * 0x100000, word1 db))))"

text \<open>
  The powers of two and five that \<open>bb\<close>, \<open>bd\<close> and \<open>bs\<close> are multiplied by, so that with a common factor \<open>bb\<close> is
  the estimate, \<open>bd\<close> the number that the text denotes and \<open>bs\<close> half a unit in the last place of the estimate.
\<close>

definition factors :: "int \<Rightarrow> int \<Rightarrow> int \<Rightarrow> int \<Rightarrow> int \<times> int \<times> int \<times> int \<times> int" where
  "factors e scl bbe bbbits =
    (let (bb2, bd2) = (if 0 \<le> e then (0, e) else (- e, 0));
         (bb5, bd5) = (bb2, bd2);
         (bb2, bd2) = (if 0 \<le> bbe then (bb2 + bbe, bd2) else (bb2, bd2 - bbe));
         bs2 = bb2;
         j = bbe - scl;
         j = (if j + bbbits - 1 < - 1022 then j + 1075 else 54 - bbbits);
         bb2 = bb2 + j;
         bd2 = bd2 + j + scl;
         i = min (min bb2 bd2) bs2;
         i = (if 0 < i then i else 0)
     in (bb2 - i, bb5, bd2 - i, bd5, bs2 - i))"

definition shift_if :: "int \<Rightarrow> bigint \<Rightarrow> bigint option" where
  "shift_if k b = (if 0 < k then lshift (nat k) b else Some b)"

text \<open>
  The difference of the estimate and the number, whether the estimate is too small, and half a unit. Only a
  product with 0 leaves \<open>bb\<close> without words; the word that \<open>diff\<close> reads nevertheless is still in the
  buffer of the vector, and it is 0.
\<close>

definition compare_estimate ::
  "bigint \<Rightarrow> int \<Rightarrow> int \<Rightarrow> bigint \<Rightarrow> int \<Rightarrow> int \<Rightarrow> bigint list \<Rightarrow> (bigint \<times> bool \<times> bigint \<times> bigint list) option" where
  "compare_estimate bd0 e scl bb bbe bbbits p5s =
    (let (bb2, bb5, bd2, bd5, bs2) = factors e scl bbe bbbits in
     Option.bind
       (if 0 < bb5 then map_option (\<lambda>(bs, p5s). (bs, mult bb bs, p5s)) (pow5mult (nat bb5) p5s (i2b 1))
        else Some (i2b 1, bb, p5s)) (\<lambda>(bs, bb, p5s).
     Option.bind (shift_if bb2 bb) (\<lambda>bb.
     Option.bind (if 0 < bd5 then pow5mult (nat bd5) p5s bd0 else Some (bd0, p5s)) (\<lambda>(bd, p5s).
     Option.bind (shift_if bd2 bd) (\<lambda>bd.
     Option.bind (shift_if bs2 bs) (\<lambda>bs.
     Option.bind (diff (if words bb = [] then bb\<lparr>words := [0]\<rparr> else bb) bd) (\<lambda>delta.
       Some (delta\<lparr>big_sign := 0\<rparr>, big_sign delta \<noteq> 0, bs, p5s))))))))"

text \<open>What a round of the loop does: \<open>break\<close>, \<open>goto ret\<close> or \<open>continue\<close>, with a new value.\<close>

datatype outcome = Break dbits | Goto_ret dbits | Again dbits

definition no_fraction :: "dbits \<Rightarrow> bool" where
  "no_fraction rv \<longleftrightarrow> word0 rv AND 0xfffff = 0 \<and> word1 rv = 0"

text \<open>\<open>dropDown\<close>: from a power of two to its lower neighbour.\<close>

definition drop_down :: "int \<Rightarrow> dbits \<Rightarrow> outcome" where
  "drop_down scl rv =
    (if scl \<noteq> 0 \<and> exp_field rv \<le> 107 * 0x100000 then
       if 55 * 0x100000 < exp_field rv then Break rv else Goto_ret (0, 0)
     else Break ((exp_field rv - 0x100000) OR 0xfffff, 0xffffffff))"

text \<open>The error is less than half a unit.\<close>

definition less_than_half :: "int \<Rightarrow> dbits \<Rightarrow> bigint \<Rightarrow> bool \<Rightarrow> bigint \<Rightarrow> outcome option" where
  "less_than_half scl rv delta dsign bs =
    (if dsign \<or> \<not> no_fraction rv \<or> exp_field rv \<le> 107 * 0x100000 then Some (Break rv)
     else if words delta = [0] then Some (Break rv)
     else Option.bind (lshift 1 delta) (\<lambda>delta.
       Option.bind (cmp delta bs) (\<lambda>c. Some (if 0 < c then drop_down scl rv else Break rv))))"

text \<open>The error is half a unit.\<close>

definition exactly_half :: "int \<Rightarrow> dbits \<Rightarrow> bool \<Rightarrow> outcome" where
  "exactly_half scl rv dsign =
    (let y = exp_field rv;
         ones = (if scl \<noteq> 0 \<and> y \<le> 106 * 0x100000
                 then push_bit (nat (107 - uint (drop_bit 20 y))) 0xffffffff else 0xffffffff)
     in if dsign \<and> word0 rv AND 0xfffff = 0xfffff \<and> word1 rv = ones then Break (y + 0x100000, 0)
        else if \<not> dsign \<and> no_fraction rv then drop_down scl rv
        else if word1 rv AND 1 = 0 then Break rv
        else if dsign then Break (dadd rv (ulp rv))
        else let rv = dsub rv (ulp rv) in if is_zero rv then Goto_ret (0, 0) else Break rv)"

text \<open>
  The error in units, \<open>aadj\<close>, and the amount of the adjustment, \<open>aadj1\<close>. \<open>None\<close> is the jump to \<open>undfl\<close>. The comparisons are of
  finite doubles.
\<close>

definition adjustment :: "dbits \<Rightarrow> bool \<Rightarrow> dbits \<Rightarrow> (dbits \<times> dbits) option" where
  "adjustment rv dsign aadj =
    (if number_of aadj \<le> 2 then
       if dsign then Some (double_of 1, double_of 1)
       else if \<not> no_fraction rv then
         if word1 rv = 1 \<and> word0 rv = 0 then None else Some (double_of 1, double_of (- 1))
       else
         let aadj = (if number_of aadj < 1 then double_of (1 / 2) else dmul aadj (double_of (1 / 2)))
         in Some (aadj, negate aadj)
     else
       let aadj = dmul aadj (double_of (1 / 2))
       in Some (aadj, if dsign then aadj else negate aadj))"

text \<open>\<open>aadj\<close> and \<open>aadj1\<close> for a scaled value that stands for a denormal number: whole units, multiplied by the unit.\<close>

definition scaled_adjustment :: "u32 \<Rightarrow> bool \<Rightarrow> dbits \<Rightarrow> dbits \<Rightarrow> dbits \<times> dbits" where
  "scaled_adjustment y dsign aadj aadj1 =
    (let (aadj, aadj1) =
       (if number_of aadj \<le> 0x7fffffff then
          let z = \<lfloor>number_of aadj\<rfloor>; aadj = double_of (of_int (if z \<le> 0 then 1 else z))
          in (aadj, if dsign then aadj else negate aadj)
        else (aadj, aadj1))
     in (aadj, (word0 aadj1 + (107 * 0x100000 - y), word1 aadj1)))"

text \<open>
  Whether the adjusted value is known to be the nearest, from the fraction of \<open>aadj\<close>. The code takes the integer part with 32 bits;
  \<open>aadj\<close>, the distance of the estimate in units, is far below that.
\<close>

definition can_stop :: "dbits \<Rightarrow> bool \<Rightarrow> dbits \<Rightarrow> bool" where
  "can_stop rv dsign aadj =
    (let r = number_of (dsub aadj (double_of (of_int \<lfloor>number_of aadj\<rfloor>))) in
     if dsign \<or> \<not> no_fraction rv then
       r < number_of (double_of (4999999 / 10 ^ 7)) \<or> number_of (double_of (5000001 / 10 ^ 7)) < r
     else r < number_of (ddiv (double_of (4999999 / 10 ^ 7)) (double_of 2)))"

definition finish_round :: "int \<Rightarrow> u32 \<Rightarrow> bool \<Rightarrow> dbits \<Rightarrow> dbits \<Rightarrow> outcome" where
  "finish_round scl y dsign aadj rv =
    (if scl = 0 \<and> y = exp_field rv \<and> can_stop rv dsign aadj then Break rv else Again rv)"

definition adjust :: "int \<Rightarrow> dbits \<Rightarrow> bool \<Rightarrow> dbits \<Rightarrow> outcome" where
  "adjust scl rv dsign aadj =
    (case adjustment rv dsign aadj of
       None \<Rightarrow> Goto_ret (0, 0)
     | Some (aadj, aadj1) \<Rightarrow>
         let y = exp_field rv in
         if y = 0x100000 * (1024 + 1023 - 1) then
           let rv0 = rv;
               rv = (word0 rv - 53 * 0x100000, word1 rv);
               rv = dadd rv (dmul aadj1 (ulp rv))
           in if 0x100000 * (1024 + 1023 - 53) \<le> exp_field rv then
                if rv0 = (0x7fefffff, 0xffffffff) then Goto_ret infinity else Again (0x7fefffff, 0xffffffff)
              else finish_round scl y dsign aadj (word0 rv + 53 * 0x100000, word1 rv)
         else
           let (aadj, aadj1) =
             (if scl \<noteq> 0 \<and> y \<le> 106 * 0x100000 then scaled_adjustment y dsign aadj aadj1 else (aadj, aadj1))
           in finish_round scl y dsign aadj (dadd rv (dmul aadj1 (ulp rv))))"

definition correct_once ::
  "bigint \<Rightarrow> int \<Rightarrow> int \<Rightarrow> dbits \<Rightarrow> bigint list \<Rightarrow> (outcome \<times> bigint list) option" where
  "correct_once bd0 e scl rv p5s =
    (let (rv, bb, bbe, bbbits) = d2b rv in
     Option.bind (compare_estimate bd0 e scl bb bbe bbbits p5s) (\<lambda>(delta, dsign, bs, p5s).
     Option.bind (cmp delta bs) (\<lambda>i.
     map_option (\<lambda>r. (r, p5s))
       (if i < 0 then less_than_half scl rv delta dsign bs
        else if i = 0 then Some (exactly_half scl rv dsign)
        else map_option (adjust scl rv dsign) (ratio delta bs)))))"

text \<open>The loop. A value that is returned with \<open>goto ret\<close> is not scaled back.\<close>

partial_function (option) correct ::
  "bigint \<Rightarrow> int \<Rightarrow> int \<Rightarrow> dbits \<Rightarrow> bigint list \<Rightarrow> (dbits \<times> bigint list) option" where
  "correct bd0 e scl rv p5s =
    Option.bind (correct_once bd0 e scl rv p5s) (\<lambda>(r, p5s).
      case r of
        Break rv \<Rightarrow> Some (if scl \<noteq> 0 then dmul rv (0x3ff00000 - 106 * 0x100000, 0) else rv, p5s)
      | Goto_ret rv \<Rightarrow> Some (rv, p5s)
      | Again rv \<Rightarrow> correct bd0 e scl rv p5s)"

declare correct.simps [code]

subsection \<open>The conversion\<close>

text \<open>
  A number with at most 15 digits and a small exponent is one product or quotient of exact doubles.
\<close>

definition short_number :: "nat \<Rightarrow> int \<Rightarrow> dbits \<Rightarrow> dbits option" where
  "short_number n e rv =
    (if 15 < n then None
     else if e = 0 then Some rv
     else if 0 < e then
       if e \<le> 22 then Some (dmul rv (tens (nat e)))
       else
         let i = 15 - int n in
         if e \<le> 22 + i then Some (dmul (dmul rv (tens (nat i))) (tens (nat (e - i)))) else None
     else if - 22 \<le> e then Some (ddiv rv (tens (nat (- e))))
     else None)"

text \<open>The value of the digits \<open>d\<close>, which start at \<open>s0\<close>, times \<open>10 ^ e\<close>.\<close>

definition digits_to_double ::
  "digit_state \<Rightarrow> nat \<Rightarrow> int list \<Rightarrow> int \<Rightarrow> bigint list \<Rightarrow> (dbits \<times> bigint list) option" where
  "digits_to_double d nd0 s0 e p5s =
    (let nd0 = (if nd0 = 0 then nd d else nd0);
         k = min (nd d) 16;
         rv = double_of (of_nat (unat (y9 d)));
         rv = (if 9 < k then dadd (dmul (tens (k - 9)) rv) (double_of (of_nat (unat (z7 d)))) else rv)
     in case short_number (nd d) e rv of
          Some r \<Rightarrow> Some (r, p5s)
        | None \<Rightarrow>
            (case first_estimate (e + int (nd d - k)) rv of
               Return r \<Rightarrow> Some (r, p5s)
             | Continue (rv, scl) \<Rightarrow>
                 Option.bind (s2b s0 nd0 (nd d) (y9 d)) (\<lambda>bd0. correct bd0 e scl rv p5s)))"

text \<open>The result is the double, the text after the number, and the list of powers of five.\<close>

definition strtod :: "int list \<Rightarrow> bigint list \<Rightarrow> ((dbits \<times> int list) \<times> bigint list) option" where
  "strtod s00 p5s =
    (case skip_to_number s00 of
       None \<Rightarrow> Some (((0, 0), s00), p5s)
     | Some (sign, s) \<Rightarrow>
         let nz0 = (char_at s = 48);
             s = dropWhile (\<lambda>c. c = 48) s
         in if nz0 \<and> char_at s = 0 then Some ((with_sign sign (0, 0), s), p5s)
            else
              let (d, r) = whole_digits \<lparr>nd = 0, y9 = 0, z7 = 0\<rparr> s;
                  nd0 = nd d;
                  (nz, nf, d, s0, r) = read_fraction d s r
              in if nd d = 0 \<and> nz = 0 \<and> \<not> nz0 then Some (((0, 0), s00), p5s)
                 else
                   let (e, r) = read_exponent r in
                   if nd d = 0 then Some ((with_sign sign (0, 0), r), p5s)
                   else map_option (\<lambda>(rv, p5s). ((with_sign sign rv, r), p5s))
                     (digits_to_double d nd0 s0 (e - int nf) p5s))"

end
