(* ===== verification/DoubleEncode.thy ===== *)
theory DoubleEncode
  imports Doubles LogEstimate
begin

text \<open>Which double a number is rounded to: the words that \<open>encode\<close> builds, and that they are the nearest.\<close>

subsection \<open>The words of a double\<close>

text \<open>The double with the given number when the doubles are counted from 0 on.\<close>

definition double_at :: "nat \<Rightarrow> dbits" where
  "double_at b = (of_nat (b div 2 ^ 32), of_nat b)"

lemma unat_of_nat32: "b < 2 ^ 32 \<Longrightarrow> unat (of_nat b :: u32) = b"
  by (simp add: unat_of_nat take_bit_nat_eq_self)

lemma double_at_words:
  assumes "b < 2047 * 2 ^ 52"
  shows "unat (word0 (double_at b)) = b div 2 ^ 32" and "unat (word1 (double_at b)) = b mod 2 ^ 32"
    and "unat (word0 (double_at b)) < 2 ^ 31"
proof -
  have b: "b div 2 ^ 32 < 2 ^ 31" using assms by (simp add: less_mult_imp_div_less)
  then show "unat (word0 (double_at b)) = b div 2 ^ 32" by (simp add: double_at_def unat_of_nat32)
  then show "unat (word0 (double_at b)) < 2 ^ 31" using b by simp
  show "unat (word1 (double_at b)) = b mod 2 ^ 32" by (simp add: double_at_def unat_of_nat take_bit_eq_mod)
qed

lemma double_at_fields:
  assumes "b < 2047 * 2 ^ 52"
  shows "biased (double_at b) = b div 2 ^ 52" and "fraction (double_at b) = b mod 2 ^ 52"
proof -
  note w = double_at_words(1,2) [OF assms]
  have "b div 2 ^ 52 < 2 ^ 11" using assms by (simp add: less_mult_imp_div_less)
  moreover have "b div 2 ^ 32 div 2 ^ 20 = b div 2 ^ 52" by (simp flip: div_mult2_eq)
  ultimately show "biased (double_at b) = b div 2 ^ 52" by (simp add: biased_eq w)
  have "b mod 2 ^ 52 = 2 ^ 32 * (b div 2 ^ 32 mod 2 ^ 20) + b mod 2 ^ 32" using mod_mult2_eq [of b "2 ^ 32" "2 ^ 20"] by simp
  then show "fraction (double_at b) = b mod 2 ^ 52" unfolding fraction_def unat_low_bits w by simp
qed

text \<open>\<open>n\<close> units of \<open>2 powi e\<close>, also when \<open>n\<close> is the next power of two.\<close>

lemma double_at_value:
  assumes e: "- 1074 \<le> e" and n: "n \<le> 2 ^ 53" "e = - 1074 \<or> 2 ^ 52 \<le> n" and b: "b = nat (e + 1074) * 2 ^ 52 + n" "b < 2047 * 2 ^ 52"
  shows "double_value (double_at b) = of_nat n * 2 powi e" and "even (significand (double_at b)) \<longleftrightarrow> even n"
    and "exponent (double_at b) = (if n = 2 ^ 53 then e + 1 else e)"
    and "significand (double_at b) = (if n = 2 ^ 53 then 2 ^ 52 else n)"
proof -
  obtain k where k: "e = int k - 1074" using e by (metis add.commute diff_add_cancel nonneg_int_cases diff_ge_0_iff_ge diff_minus_eq_add)
  note f = double_at_fields [OF b(2)]
  consider (small) "n < 2 ^ 52" "k = 0" | (normal) "2 ^ 52 \<le> n" "n < 2 ^ 53" | (next_power) "n = 2 ^ 53" using n k by linarith
  then have s: "exponent (double_at b) = (if n = 2 ^ 53 then e + 1 else e) \<and>
    significand (double_at b) = (if n = 2 ^ 53 then 2 ^ 52 else n)"
  proof cases
    case small
    then have "biased (double_at b) = 0" "fraction (double_at b) = n" using f b(1) k by simp_all
    then show ?thesis using small k by (simp add: exponent_def significand_def)
  next
    case normal
    then have "b = (n - 2 ^ 52) + (k + 1) * 2 ^ 52" "n - 2 ^ 52 < 2 ^ 52" using b(1) k by simp_all
    then have "b div 2 ^ 52 = k + 1" "b mod 2 ^ 52 = n - 2 ^ 52" by (simp_all only: div_mult_self1 mod_mult_self1 div_less mod_less power_not_zero zero_neq_numeral not_False_eq_True add_0)
    then show ?thesis using f normal k by (simp add: exponent_def significand_def)
  next
    case next_power
    then have "b = 0 + (k + 2) * 2 ^ 52" using b(1) k by simp
    then have "b div 2 ^ 52 = k + 2" "b mod 2 ^ 52 = 0" by simp_all
    then show ?thesis using f next_power k by (simp add: exponent_def significand_def)
  qed
  then show "exponent (double_at b) = (if n = 2 ^ 53 then e + 1 else e)"
    "significand (double_at b) = (if n = 2 ^ 53 then 2 ^ 52 else n)" "even (significand (double_at b)) \<longleftrightarrow> even n"
    by auto
  show "double_value (double_at b) = of_nat n * 2 powi e"
    using s powi_half [of "e + 1"] by (simp add: double_value_def)
qed

subsection \<open>The nearest double\<close>

lemma ilog2_less:
  assumes "0 < x"
  shows "x < 2 powi (ilog2 x + 1)"
proof -
  obtain p q where pq: "quotient_of x = (p, q)" by fastforce
  have x: "x = of_int p / of_int q" "0 < q" using quotient_of_div [OF pq] quotient_of_denom_pos [OF pq] by simp_all
  then have p: "0 < p" using assms by (simp add: zero_less_divide_iff)
  have bp: "p < 2 ^ nat (bitlen p)" and bq: "2 ^ nat (bitlen q - 1) \<le> q" using bitlen_bounds p x(2) by blast+
  have pos: "1 \<le> bitlen p" "1 \<le> bitlen q" using p x(2) by (simp_all add: bitlen_alt_def)
  have "of_int p < (2 :: rat) powi bitlen p" "(2 :: rat) powi (bitlen q - 1) \<le> of_int q"
    using bp bq pos of_int_less_iff [of p "2 ^ nat (bitlen p)", where 'a = rat]
      of_int_le_iff [of "2 ^ nat (bitlen q - 1)" q, where 'a = rat] by (simp_all add: power_int_def)
  then have "of_int p / of_int q < (2 :: rat) powi bitlen p / 2 powi (bitlen q - 1)"
    using p x(2) by (intro frac_less) simp_all
  then have "x < 2 powi (bitlen p - bitlen q + 1)"
    unfolding x(1) by (simp add: power_int_diff power_int_add algebra_simps)
  moreover have "x < 2 powi (bitlen p - bitlen q)" if "\<not> 2 powi (bitlen p - bitlen q) \<le> x" using that by simp
  ultimately show ?thesis by (simp add: ilog2_def pq Let_def)
qed

lemma round_even_tie: "\<bar>of_int (round_even x) - x\<bar> = 1 / 2 \<Longrightarrow> even (round_even x)"
proof -
  assume *: "\<bar>of_int (round_even x) - x\<bar> = 1 / 2"
  have "of_int \<lfloor>x\<rfloor> \<le> x" "x < of_int \<lfloor>x\<rfloor> + 1" by linarith+
  with * show ?thesis unfolding round_even_def Let_def by (simp split: if_split_asm; linarith)
qed

text \<open>The last place of the result, and the number of units.\<close>

definition last_place :: "rat \<Rightarrow> int" where
  "last_place x = max (ilog2 x - 52) (- 1074)"

definition units :: "rat \<Rightarrow> nat" where
  "units x = nat (round_even (x / 2 powi last_place x))"

lemma units_bounds:
  assumes "0 < x"
  shows "units x \<le> 2 ^ 53" and "last_place x = - 1074 \<or> 2 ^ 52 \<le> units x"
    and "\<bar>x - of_nat (units x) * 2 powi last_place x\<bar> \<le> 2 powi (last_place x - 1)"
    and "\<bar>x - of_nat (units x) * 2 powi last_place x\<bar> = 2 powi (last_place x - 1) \<Longrightarrow> even (units x)"
    and "- 1074 < last_place x \<Longrightarrow> 2 ^ 52 * 2 powi last_place x \<le> x"
proof -
  let ?e = "last_place x" and ?y = "x / 2 powi last_place x"
  have pos: "0 < ?y" using assms by simp
  have "ilog2 x + 1 \<le> ?e + 53" by (simp add: last_place_def)
  then have "(2 :: rat) powi (ilog2 x + 1) \<le> 2 powi (?e + 53)" by (rule power_int_increasing) simp
  then have "x < 2 powi (?e + 53)" using ilog2_less [OF assms] by (rule order.strict_trans2 [rotated])
  then have up: "?y < 2 ^ 53" using power_int_add [of "2 :: rat" ?e 53] by (simp add: field_simps)
  show low: "2 ^ 52 * 2 powi ?e \<le> x" if "- 1074 < ?e"
    using that ilog2_le [OF assms] power_int_diff [of "2 :: rat" "ilog2 x" 52] by (simp add: last_place_def max_def split: if_splits)
  have close: "\<bar>of_int (round_even ?y) - ?y\<bar> \<le> 1 / 2" by (rule round_even_close)
  have "0 \<le> round_even ?y" using close pos by linarith
  then have u: "(of_nat (units x) :: rat) = of_int (round_even ?y)" "int (units x) = round_even ?y" by (simp_all add: units_def)
  have "of_int (round_even ?y) < (2 ^ 53 + 1 :: rat)" using close up by linarith
  then have "round_even ?y < 2 ^ 53 + 1" using of_int_less_iff [of "round_even ?y" "2 ^ 53 + 1", where 'a = rat] by simp
  then show "units x \<le> 2 ^ 53" using u(2) by simp
  show "?e = - 1074 \<or> 2 ^ 52 \<le> units x"
  proof (cases "- 1074 < ?e")
    case True
    then have "2 ^ 52 \<le> ?y" using low by (simp add: field_simps)
    then have "2 ^ 52 - 1 < (of_int (round_even ?y) :: rat)" using close by linarith
    then have "2 ^ 52 - 1 < round_even ?y" using of_int_less_iff [of "2 ^ 52 - 1" "round_even ?y", where 'a = rat] by simp
    then show ?thesis using u(2) by simp
  qed (simp add: last_place_def)
  have diff: "x - of_nat (units x) * 2 powi ?e = (?y - of_int (round_even ?y)) * 2 powi ?e" using u(1) by (simp add: left_diff_distrib)
  then have dist: "\<bar>x - of_nat (units x) * 2 powi ?e\<bar> = \<bar>of_int (round_even ?y) - ?y\<bar> * 2 powi ?e" by (simp add: abs_mult)
  have half: "(2 :: rat) powi (?e - 1) = 1 / 2 * 2 powi ?e" using powi_half [of ?e] by simp
  show "\<bar>x - of_nat (units x) * 2 powi ?e\<bar> \<le> 2 powi (?e - 1)" unfolding dist half using close by (intro mult_right_mono) simp_all
  show "even (units x)" if "\<bar>x - of_nat (units x) * 2 powi ?e\<bar> = 2 powi (?e - 1)"
  proof -
    have "\<bar>of_int (round_even ?y) - ?y\<bar> = 1 / 2" using that unfolding dist half by simp
    then have "even (round_even ?y)" by (rule round_even_tie)
    then show ?thesis using u(2) by (metis even_of_nat)
  qed
qed

lemma encode_at: "0 < x \<Longrightarrow> encode x = double_at (min (nat (last_place x + 1074) * 2 ^ 52 + units x) (2047 * 2 ^ 52))"
  by (simp add: encode_def encode_bits_def double_at_def last_place_def units_def Let_def)

lemma encode_zero [simp]: "encode 0 = (0, 0)"
  by (simp add: encode_def)

lemma encode_finite:
  assumes "0 < x" and "biased (encode x) < 2047"
  defines "b \<equiv> nat (last_place x + 1074) * 2 ^ 52 + units x"
  shows "encode x = double_at b" and "b < 2047 * 2 ^ 52"
proof -
  have "biased (double_at (2047 * 2 ^ 52)) = 2047" by (simp add: double_at_def biased_def)
  then show "b < 2047 * 2 ^ 52" using assms(2) encode_at [OF assms(1)] unfolding b_def by (metis min.absorb2 not_less less_irrefl)
  then show "encode x = double_at b" using encode_at [OF assms(1)] unfolding b_def by simp
qed

lemma last_place_bound: "- 1074 \<le> last_place x"
  by (simp add: last_place_def)

theorem encode_rounds_to:
  assumes x: "0 < x" and f: "biased (encode x) < 2047" "significand (encode x) \<noteq> 0"
  shows "rounds_to x (encode x)" and "unat (word0 (encode x)) < 2 ^ 31"
proof -
  let ?e = "last_place x" and ?n = "units x" and ?u = "encode x"
  let ?b = "nat (?e + 1074) * 2 ^ 52 + ?n"
  note u = encode_finite [OF x f(1)]
  note bounds = units_bounds [OF x]
  note v = double_at_value [OF last_place_bound bounds(1,2) refl u(2), folded u(1)]
  show w: "unat (word0 ?u) < 2 ^ 31" unfolding u(1) by (rule double_at_words(3) [OF u(2)])
  have up: "2 powi (?e - 1) \<le> upper_gap ?u" unfolding upper_gap_def v(3) by (simp add: power_int_increasing)
  have low: "2 powi (?e - 1) \<le> lower_gap ?u \<or> double_value ?u \<le> x"
  proof (cases "spec_case ?u")
    case True
    then have spec: "significand ?u = 2 ^ 52" "- 1074 < exponent ?u" using spec_case_iff [OF w] by simp_all
    show ?thesis
    proof (cases "?n = 2 ^ 53")
      case True
      then show ?thesis using \<open>spec_case ?u\<close> v(3) by (simp add: lower_gap_def)
    next
      case False
      then have "?n = 2 ^ 52" "- 1074 < ?e" using spec v(3,4) by simp_all
      then show ?thesis using bounds(5) v(1) by simp
    qed
  next
    case False
    then show ?thesis unfolding lower_gap_def v(3) by (simp add: power_int_increasing)
  qed
  have "between_midpoints x ?u"
  proof (cases "even (significand ?u)")
    case True
    then show ?thesis using bounds(3) up low gaps_pos [of ?u] unfolding between_midpoints_def v(1) by (auto simp: abs_le_iff)
  next
    case False
    then have "\<bar>x - of_nat ?n * 2 powi ?e\<bar> \<noteq> 2 powi (?e - 1)" using bounds(4) v(2) by blast
    then have "\<bar>x - of_nat ?n * 2 powi ?e\<bar> < 2 powi (?e - 1)" using bounds(3) by simp
    then show ?thesis using False up low gaps_pos [of ?u] unfolding between_midpoints_def v(1) by (auto simp: abs_less_iff)
  qed
  then show "rounds_to x ?u" using rounds_to_iff [OF w] f(2) by simp
qed

text \<open>A number that is a double is encoded as that double.\<close>

lemma powi2_less: "(2 :: rat) powi a < 2 powi b \<Longrightarrow> a < b"
  by (rule ccontr) (use power_int_increasing [of b a "2 :: rat"] in simp)

lemma encode_finite_bound:
  assumes "0 < x" and "x < 2 powi 1023"
  shows "biased (encode x) < 2047"
proof -
  let ?e = "last_place x"
  have "2 powi ilog2 x < (2 :: rat) powi 1023" using ilog2_le [OF assms(1)] assms(2) by (rule order.strict_trans1)
  then have "ilog2 x < 1023" by (rule powi2_less)
  then have "?e \<le> 970" by (simp add: last_place_def)
  then have "nat (?e + 1074) * 2 ^ 52 \<le> 2044 * 2 ^ 52" by (intro mult_le_mono1) simp
  then have "nat (?e + 1074) * 2 ^ 52 + units x < 2047 * 2 ^ 52" using units_bounds(1) [OF assms(1)] by simp
  then have b: "nat (?e + 1074) * 2 ^ 52 + units x < 2047 * 2 ^ 52" "encode x = double_at (nat (?e + 1074) * 2 ^ 52 + units x)"
    using encode_at [OF assms(1)] by simp_all
  then show ?thesis using double_at_fields(1) [OF b(1)] by (simp add: less_mult_imp_div_less)
qed

lemma encode_exact:
  assumes x: "0 < x" "x < 2 powi 1023" and r: "representable x"
  shows "double_value (encode x) = x" and "biased (encode x) < 2047" and "\<not> negative (encode x)"
proof -
  show fin: "biased (encode x) < 2047" by (rule encode_finite_bound [OF x])
  note u = encode_finite [OF x(1) fin]
  note bounds = units_bounds [OF x(1)]
  note v = double_at_value [OF last_place_bound bounds(1,2) refl u(2), folded u(1)]
  obtain f e where f: "f < 2 ^ 53" "- 1074 \<le> e" "x = of_nat f * 2 powi e" using r by (auto simp: representable_def)
  have "last_place x \<le> e"
  proof (cases "last_place x = - 1074")
    case False
    then have "2 ^ 52 * 2 powi last_place x \<le> x" using bounds(5) last_place_bound [of x] by simp
    moreover have "x < 2 ^ 53 * 2 powi e" using f(1,3) of_nat_less_iff [of f "2 ^ 53", where 'a = rat] by simp
    ultimately have "2 ^ 52 * 2 powi last_place x < (2 :: rat) ^ 53 * 2 powi e" by (rule order.strict_trans1)
    then have "(2 :: rat) powi last_place x < 2 powi (e + 1)" by (simp add: power_int_add)
    then have "last_place x < e + 1" by (rule powi2_less)
    then show ?thesis by simp
  qed (use f(2) in simp)
  then obtain g where g: "x = of_nat g * 2 powi last_place x"
    using f(3) powi_split [of "last_place x" e] by (metis of_nat_mult of_nat_numeral of_nat_power mult.assoc)
  then have "x / 2 powi last_place x = of_nat g * 2 powi last_place x / 2 powi last_place x" by (rule arg_cong)
  then have "x / 2 powi last_place x = of_int (int g)" by simp
  then have "units x = g" unfolding units_def by (simp add: round_even_def)
  then show "double_value (encode x) = x" using v(1) g by simp
  show "\<not> negative (encode x)" using double_at_words(3) [OF u(2)] unfolding u(1) negative_def by (simp add: no_sign)
qed

end
