(* ===== verification/StrtodShort.thy ===== *)
theory StrtodShort
  imports Strtod DoubleEncode
begin

text \<open>
  \<open>strtod\<close> on decimal numbers of at most 15 digits with a small exponent: the result is the nearest double,
  as a product or quotient of two numbers that are doubles themselves.
\<close>

subsection \<open>Exact operations\<close>

text \<open>The double \<open>u\<close> stands for exactly \<open>x\<close>.\<close>

definition exactly :: "dbits \<Rightarrow> rat \<Rightarrow> bool" where
  "exactly u x \<longleftrightarrow> u = encode x \<and> double_value u = x \<and> biased u < 2047 \<and> \<not> negative u"

lemma exactly_zero: "exactly (0, 0) 0"
  by (simp add: exactly_def double_value_def significand_def fraction_def biased_def negative_def)

lemma exactly_representable: "0 < x \<Longrightarrow> x < 2 powi 1023 \<Longrightarrow> representable x \<Longrightarrow> exactly (encode x) x"
  using encode_exact by (simp add: exactly_def)

lemma exactly_nat:
  assumes "n < 2 ^ 53"
  shows "exactly (encode (of_nat n)) (of_nat n)" and "double_of (of_nat n) = encode (of_nat n)"
proof -
  show "exactly (encode (of_nat n)) (of_nat n)"
  proof (cases "n = 0")
    case False
    have "of_nat n < (2 ^ 53 :: rat)" using assms of_nat_less_iff [of n "2 ^ 53", where 'a = rat] by simp
    also have "(2 ^ 53 :: rat) \<le> 2 powi 1023" by simp
    finally have "of_nat n < (2 :: rat) powi 1023" .
    moreover have "representable (of_nat n)" unfolding representable_def by (intro exI [of _ n] exI [of _ "0 :: int"]) (use assms in simp)
    ultimately show ?thesis using False by (intro exactly_representable) simp_all
  qed (use exactly_zero in simp)
  show "double_of (of_nat n) = encode (of_nat n)" by (simp add: double_of_def with_sign_def)
qed

lemma exactly_tens:
  assumes "i \<le> 22"
  shows "exactly (tens i) (10 ^ i)"
proof -
  have ten: "(10 :: rat) ^ i = of_nat (5 ^ i) * 2 powi int i" using power_mult_distrib [of "5 :: rat" 2 i] by simp
  have "(5 :: nat) ^ i \<le> 5 ^ 22" using assms by (intro power_increasing) simp_all
  also have "(5 :: nat) ^ 22 < 2 ^ 53" by simp
  finally have "representable (10 ^ i)" unfolding representable_def ten by (intro exI [of _ "5 ^ i"] exI [of _ "int i"]) simp
  moreover have "(10 :: rat) ^ i \<le> 10 ^ 22" using assms by (intro power_increasing) simp_all
  then have "(10 :: rat) ^ i < 2 powi 1023" by (rule order.strict_trans1) simp
  ultimately show ?thesis unfolding tens_def double_of_def with_sign_def by (simp add: exactly_representable)
qed

lemma exactly_classes:
  assumes "exactly u x"
  shows "\<not> is_nan u" "\<not> is_infinite u" "\<not> negative u" "number_of u = x" "double_value u = x" "is_zero u \<longleftrightarrow> x = 0"
  using assms by (auto simp: exactly_def is_nan_def is_infinite_def number_of_def is_zero_def double_value_def)

lemma exact_operations:
  assumes "exactly a x" and "exactly b y"
  shows "dmul a b = encode (x * y)" and "0 \<le> x \<Longrightarrow> 0 \<le> y \<Longrightarrow> dadd a b = encode (x + y)" and "y \<noteq> 0 \<Longrightarrow> ddiv a b = encode (x / y)"
  using exactly_classes [OF assms(1)] exactly_classes [OF assms(2)]
  by (auto simp: dmul_def dadd_def ddiv_def with_sign_def double_of_def add_nonneg_eq_0_iff)

subsection \<open>Digits\<close>

definition digits_read :: "digit_state \<Rightarrow> nat" where
  "digits_read d = unat (y9 d) * 10 ^ (nd d - 9) + unat (z7 d)"

definition digit_state_ok :: "digit_state \<Rightarrow> bool" where
  "digit_state_ok d \<longleftrightarrow> nd d \<le> 16 \<and> unat (y9 d) < 10 ^ min (nd d) 9 \<and> unat (z7 d) < 10 ^ (nd d - 9)"

lemma next_digit_word:
  fixes w :: u32
  assumes "unat w < 10 ^ n" and "n < 9" and "48 \<le> c" "c < 58"
  shows "unat (10 * w + word_of_int (c - 48)) = 10 * unat w + nat (c - 48)" and "10 * unat w + nat (c - 48) < 10 ^ Suc n"
proof -
  have c: "nat (c - 48) \<le> 9" "word_of_int (c - 48) = (of_nat (nat (c - 48)) :: u32)" using assms(3,4) by simp_all
  show bound: "10 * unat w + nat (c - 48) < 10 ^ Suc n" using assms(1) c(1) by simp
  also have "(10 :: nat) ^ Suc n \<le> 10 ^ 9" using assms(2) by (intro power_increasing) simp_all
  finally have small: "10 * unat w + nat (c - 48) < 2 ^ 32" by simp
  have "10 * w + word_of_int (c - 48) = of_nat (10 * unat w + nat (c - 48))" unfolding c(2) by simp
  then show "unat (10 * w + word_of_int (c - 48)) = 10 * unat w + nat (c - 48)" using unat_of_nat32 [OF small] by simp
qed

lemma add_digit_value:
  assumes d: "digit_state_ok d" "nd d < 16" and c: "48 \<le> c" "c < 58"
  shows "digit_state_ok (add_digit c d)" and "nd (add_digit c d) = Suc (nd d)" and "digits_read (add_digit c d) = 10 * digits_read d + nat (c - 48)"
proof -
  show "nd (add_digit c d) = Suc (nd d)" by (simp add: add_digit_def Let_def)
  have "digit_state_ok (add_digit c d) \<and> digits_read (add_digit c d) = 10 * digits_read d + nat (c - 48)"
  proof (cases "nd d < 9")
    case True
    then have y: "unat (y9 d) < 10 ^ nd d" "unat (z7 d) = 0" using d by (simp_all add: digit_state_ok_def)
    show ?thesis using True d y next_digit_word [OF y(1) True c] by (simp add: add_digit_def digit_state_ok_def digits_read_def)
  next
    case False
    then have z: "unat (z7 d) < 10 ^ (nd d - 9)" "nd d - 9 < 9" and y: "unat (y9 d) < 10 ^ 9" using d by (simp_all add: digit_state_ok_def)
    have s: "nd d - 8 = Suc (nd d - 9)" using False by simp
    show ?thesis using False d y next_digit_word [OF z c] by (simp add: add_digit_def digit_state_ok_def digits_read_def s)
  qed
  then show "digit_state_ok (add_digit c d)" "digits_read (add_digit c d) = 10 * digits_read d + nat (c - 48)" by simp_all
qed

abbreviation no_digits :: digit_state where
  "no_digits \<equiv> \<lparr>nd = 0, y9 = 0, z7 = 0\<rparr>"

lemma fold_digits:
  assumes "digits gs" and "length gs \<le> 16"
  shows "digit_state_ok (fold add_digit gs no_digits) \<and> nd (fold add_digit gs no_digits) = length gs \<and>
    digits_read (fold add_digit gs no_digits) = digits_value 0 gs"
  using assms
proof (induction gs rule: rev_induct)
  case Nil
  then show ?case by (simp add: digit_state_ok_def digits_read_def digits_value_def)
next
  case (snoc c gs)
  then have "digit_state_ok (fold add_digit gs no_digits)" "nd (fold add_digit gs no_digits) = length gs"
    "digits_read (fold add_digit gs no_digits) = digits_value 0 gs" "length gs < 16" "48 \<le> c" "c < 58" by auto
  with add_digit_value [of "fold add_digit gs no_digits" c] show ?case by (simp add: digits_value_def)
qed

text \<open>The value of the digits, before the power of ten.\<close>

lemma digits_exact:
  assumes "digits gs" and "length gs \<le> 15"
  defines "d \<equiv> fold add_digit gs no_digits"
  shows "(if 9 < nd d then dadd (dmul (tens (nd d - 9)) (double_of (of_nat (unat (y9 d))))) (double_of (of_nat (unat (z7 d))))
     else double_of (of_nat (unat (y9 d)))) = encode (of_nat (digits_value 0 gs))"
proof -
  have d: "digit_state_ok d" "nd d = length gs" "digits_read d = digits_value 0 gs" using fold_digits [OF assms(1)] assms(2) by (simp_all add: d_def)
  have small: "digits_value 0 gs < 2 ^ 53"
    using digits_value_bound [OF assms(1)] power_increasing [OF assms(2), of "10 :: nat"] by simp
  show ?thesis
  proof (cases "9 < nd d")
    case False
    then have "unat (z7 d) = 0" using d(1) by (simp add: digit_state_ok_def)
    then have "unat (y9 d) = digits_value 0 gs" using d(3) False by (simp add: digits_read_def)
    then show ?thesis using False exactly_nat(2) [OF small] by simp
  next
    case True
    let ?p = "unat (y9 d) * 10 ^ (nd d - 9)"
    have parts: "?p + unat (z7 d) = digits_value 0 gs" using d(3) by (simp add: digits_read_def)
    have y: "unat (y9 d) < 2 ^ 53" "unat (z7 d) < 2 ^ 53" using u32_bound [of "y9 d"] u32_bound [of "z7 d"] by simp_all
    have t: "exactly (tens (nd d - 9)) (10 ^ (nd d - 9))" by (rule exactly_tens) (use d(2) assms(2) in simp)
    have "dmul (tens (nd d - 9)) (double_of (of_nat (unat (y9 d)))) = encode (of_nat ?p)"
      using exact_operations(1) [OF t exactly_nat(1) [OF y(1)]] exactly_nat(2) [OF y(1)] by (simp add: mult.commute)
    moreover have "exactly (encode (of_nat ?p)) (of_nat ?p)" by (rule exactly_nat(1)) (use parts small in linarith)
    then have "dadd (encode (of_nat ?p)) (encode (of_nat (unat (z7 d)))) = encode (of_nat ?p + of_nat (unat (z7 d)))"
      using exactly_nat(1) [OF y(2)] by (rule exact_operations(2)) (rule of_nat_0_le_iff)+
    moreover have "of_nat ?p + of_nat (unat (z7 d)) = (of_nat (digits_value 0 gs) :: rat)"
      unfolding parts [symmetric] by (rule of_nat_add [symmetric])
    ultimately show ?thesis using True unfolding exactly_nat(2) [OF y(2)] by simp
  qed
qed

lemma short_number_value:
  assumes n: "n < 10 ^ l" "l \<le> 15" and e: "- 22 \<le> e" "e \<le> 37 - int l"
  shows "short_number l e (encode (of_nat n)) = Some (encode (of_nat n * 10 powi e))"
proof -
  have small: "m < 2 ^ 53" if "m < 10 ^ 15" for m :: nat using that by simp
  have "(10 :: nat) ^ l \<le> 10 ^ 15" using n(2) by (intro power_increasing) simp_all
  then have rv: "exactly (encode (of_nat n)) (of_nat n)" using n(1) by (intro exactly_nat(1) small) simp
  consider (zero) "e = 0" | (product) "0 < e" "e \<le> 22" | (two) "22 < e" | (quotient) "e < 0" by linarith
  then show ?thesis
  proof cases
    case zero
    then show ?thesis using n(2) by (simp add: short_number_def)
  next
    case product
    then have "exactly (tens (nat e)) (10 ^ nat e)" by (intro exactly_tens) simp
    then show ?thesis using exact_operations(1) [OF rv] product n(2) by (simp add: short_number_def power_int_def)
  next
    case two
    let ?i = "15 - l"
    have i: "nat (15 - int l) = ?i" "e \<le> 22 + (15 - int l)" using n(2) e(2) by simp_all
    have "n * 10 ^ ?i < 10 ^ l * 10 ^ ?i" using n(1) by simp
    also have "\<dots> = (10 :: nat) ^ 15" using n(2) by (simp flip: power_add)
    finally have "exactly (encode (of_nat (n * 10 ^ ?i))) (of_nat (n * 10 ^ ?i))" by (intro exactly_nat(1) small)
    moreover have "dmul (encode (of_nat n)) (tens ?i) = encode (of_nat (n * 10 ^ ?i))"
      using exact_operations(1) [OF rv exactly_tens, of ?i] by simp
    moreover have "exactly (tens (nat (e - (15 - int l)))) (10 ^ nat (e - (15 - int l)))" using i(2) by (intro exactly_tens) simp
    ultimately have "dmul (dmul (encode (of_nat n)) (tens ?i)) (tens (nat (e - (15 - int l)))) =
        encode (of_nat (n * 10 ^ ?i) * 10 ^ nat (e - (15 - int l)))"
      using exact_operations(1) by simp
    moreover have "?i + nat (e - (15 - int l)) = nat e" using two n(2) by linarith
    then have "(10 :: rat) ^ ?i * 10 ^ nat (e - (15 - int l)) = 10 powi e" using two by (simp add: power_int_def flip: power_add)
    ultimately show ?thesis using two n(2) i by (simp add: short_number_def mult.assoc)
  next
    case quotient
    then have "exactly (tens (nat (- e))) (10 ^ nat (- e))" using e(1) by (intro exactly_tens) simp
    then have "ddiv (encode (of_nat n)) (tens (nat (- e))) = encode (of_nat n / 10 ^ nat (- e))"
      using exact_operations(3) [OF rv] by simp
    then show ?thesis using quotient n(2) e(1) by (simp add: short_number_def power_int_def field_simps)
  qed
qed

subsection \<open>Reading the digits\<close>

definition no_digit_at :: "int list \<Rightarrow> bool" where
  "no_digit_at s \<longleftrightarrow> \<not> (48 \<le> char_at s \<and> char_at s \<le> 57)"

lemma char_at_simps [simp]: "char_at [] = 0" "char_at (c # s) = c"
  by (simp_all add: char_at_def)

lemma no_digit_Cons [simp]: "no_digit_at (c # s) \<longleftrightarrow> \<not> (48 \<le> c \<and> c \<le> 57)"
  by (simp add: no_digit_at_def)

lemma whole_digits_fold: "digits ip \<Longrightarrow> no_digit_at r \<Longrightarrow> whole_digits d (ip @ r) = (fold add_digit ip d, r)"
proof (induction ip arbitrary: d)
  case Nil
  then show ?case by (cases r) (auto simp: no_digit_at_def)
qed auto

text \<open>All digits but the zeros at the end are added.\<close>

lemma fraction_digits_fold:
  "digits fp \<Longrightarrow> no_digit_at r \<Longrightarrow>
   \<exists>gs k. replicate nz 48 @ fp = gs @ replicate k 48 \<and>
     fraction_digits nz nf d (fp @ r) = (k, nf + length gs, fold add_digit gs d, r)"
proof (induction fp arbitrary: nz nf d)
  case Nil
  then have "fraction_digits nz nf d r = (nz, nf, d, r)" by (cases r) (auto simp: no_digit_at_def)
  then show ?case by (intro exI [of _ "[]"] exI [of _ nz]) simp
next
  case (Cons c fp)
  show ?case
  proof (cases "c = 48")
    case True
    obtain gs k where "replicate (nz + 1) 48 @ fp = gs @ replicate k 48"
      "fraction_digits (nz + 1) nf d (fp @ r) = (k, nf + length gs, fold add_digit gs d, r)"
      using Cons.IH [of "nz + 1" nf d] Cons.prems by auto
    then show ?thesis using True by (intro exI [of _ gs] exI [of _ k]) (simp add: replicate_app_Cons_same)
  next
    case False
    let ?d = "add_digit c ((add_digit 48 ^^ nz) d)"
    obtain gs k where g: "fp = gs @ replicate k 48"
      "fraction_digits 0 (nf + (nz + 1)) ?d (fp @ r) = (k, nf + (nz + 1) + length gs, fold add_digit gs ?d, r)"
      using Cons.IH [of 0 "nf + (nz + 1)" ?d] Cons.prems by auto
    have "fraction_digits nz nf d ((c # fp) @ r) = fraction_digits 0 (nf + (nz + 1)) ?d (fp @ r)"
      using False Cons.prems by simp
    also have "\<dots> = (k, nf + length (replicate nz 48 @ c # gs), fold add_digit (replicate nz 48 @ c # gs) d, r)"
      unfolding g(2) by (simp add: fold_replicate)
    finally have run: "fraction_digits nz nf d ((c # fp) @ r) =
      (k, nf + length (replicate nz 48 @ c # gs), fold add_digit (replicate nz 48 @ c # gs) d, r)" .
    show ?thesis by (intro exI [of _ "replicate nz 48 @ c # gs"] exI [of _ k] conjI run) (simp add: g(1))
  qed
qed

lemma zeros_off:
  fixes ip :: "int list"
  obtains j where "ip = replicate j 48 @ dropWhile (\<lambda>c. c = 48) ip"
proof -
  have "takeWhile (\<lambda>c. c = 48) ip = replicate (length (takeWhile (\<lambda>c. c = 48) ip)) 48"
    by (rule replicate_length_same [symmetric]) (auto dest: set_takeWhileD)
  then show ?thesis using that takeWhile_dropWhile_id [of "\<lambda>c. c = 48" ip] by metis
qed

lemma digits_value_split: "digits_value 0 (xs @ ys) = digits_value 0 xs * 10 ^ length ys + digits_value 0 ys"
proof (induction ys rule: rev_induct)
  case (snoc c ys)
  have "digits_value 0 (zs @ [c]) = 10 * digits_value 0 zs + nat (c - 48)" for zs by (simp add: digits_value_def)
  from this [of "xs @ ys"] this [of ys] snoc show ?case by simp
qed (simp add: digits_value_def)

lemma zeros_value: "digits_value 0 (replicate n 48) = 0"
  by (induction n) (simp_all add: digits_value_def)

text \<open>The text of the fraction: none, or a point and digits.\<close>

definition fraction_text :: "int list \<Rightarrow> int list \<Rightarrow> bool" where
  "fraction_text ft fp \<longleftrightarrow> ft = 46 # fp \<or> ft = [] \<and> fp = []"

text \<open>
  The digits that count, \<open>gs\<close>, between the leading zeros and the zeros at the end of the fraction.
\<close>

lemma read_fraction_fold:
  assumes ip: "digits ip" "ip = [] \<or> hd ip \<noteq> 48" and fp: "digits fp" "fraction_text ft fp" and r: "no_digit_at r" "char_at r \<noteq> 46"
  obtains gs k j nz nf s0' where "read_fraction (fold add_digit ip no_digits) s0 (ft @ r) = (nz, nf, fold add_digit gs no_digits, s0', r)"
    "ip @ fp = replicate j 48 @ gs @ replicate k 48" "gs = [] \<or> hd gs \<noteq> 48" "gs \<noteq> [] \<Longrightarrow> nf + k = length fp"
    "gs = [] \<Longrightarrow> nz = length fp"
proof (cases "ft = []")
  case True
  then show ?thesis using that [of 0 0 ip s0 0 0] fp r ip by (auto simp: read_fraction_def fraction_text_def)
next
  case False
  then have ft: "ft = 46 # fp" using fp(2) by (simp add: fraction_text_def)
  have count: "nd (fold add_digit xs d) = nd d + length xs" for xs d
    by (induction xs arbitrary: d) (simp_all add: add_digit_def Let_def)
  show ?thesis
  proof (cases "ip = []")
    case ne: False
    obtain gs k where g: "fp = gs @ replicate k 48" "fraction_digits 0 0 (fold add_digit ip no_digits) (fp @ r) =
        (k, length gs, fold add_digit gs (fold add_digit ip no_digits), r)"
      using fraction_digits_fold [OF fp(1) r(1), of 0 0 "fold add_digit ip no_digits"] by auto
    have "nd (fold add_digit ip no_digits) \<noteq> 0" using count [of ip no_digits] ne by simp
    then have "read_fraction (fold add_digit ip no_digits) s0 (ft @ r) = (k, length gs, fold add_digit (ip @ gs) no_digits, s0, r)"
      using g(2) by (simp add: read_fraction_def ft)
    then show ?thesis by (rule that [where j = 0 and k = k]) (use ne ip(2) g(1) in simp_all)
  next
    case e: True
    obtain z where z: "fp = replicate z 48 @ dropWhile (\<lambda>c. c = 48) fp" by (rule zeros_off)
    let ?q = "dropWhile (\<lambda>c. c = 48) fp"
    have q: "digits ?q" using fp(1) by (auto simp: list_all_iff dest: set_dropWhileD)
    have drop: "dropWhile (\<lambda>c. c = 48) (fp @ r) = ?q @ r"
    proof (cases "?q = []")
      case True
      then have "\<forall>c \<in> set fp. c = 48" by (simp add: dropWhile_eq_Nil_conv)
      moreover have "dropWhile (\<lambda>c. c = 48) r = r" using r(1) by (cases r) (auto simp: no_digit_at_def)
      ultimately show ?thesis using True by (simp add: dropWhile_append)
    next
      case False
      then have "\<not> (\<forall>c \<in> set fp. c = 48)" by (simp add: dropWhile_eq_Nil_conv)
      then show ?thesis by (auto simp: dropWhile_append)
    qed
    have len: "length fp = z + length ?q" by (subst z) simp
    show ?thesis
    proof (cases "?q")
      case Nil
      have "read_fraction (fold add_digit ip no_digits) s0 (ft @ r) = (z, 0, fold add_digit [] no_digits, s0, r)"
        using drop [unfolded Nil append_Nil] len [unfolded Nil] r(1) by (auto simp: read_fraction_def ft e no_digit_at_def Let_def)
      moreover have "ip @ fp = replicate z 48 @ [] @ replicate 0 48" using z Nil e by simp
      ultimately show ?thesis by (rule that) (use len Nil in simp_all)
    next
      case (Cons c cs)
      then have c: "c \<noteq> 48" "48 \<le> c" "c < 58" using q hd_dropWhile [of "\<lambda>c. c = 48" fp] by auto
      obtain gs k where g: "?q = gs @ replicate k 48" "fraction_digits 0 z no_digits (?q @ r) =
          (k, z + length gs, fold add_digit gs no_digits, r)"
        using fraction_digits_fold [OF q r(1), of 0 z no_digits] by auto
      have ne: "gs \<noteq> [] \<and> hd gs = c" using g(1) Cons c(1) by (cases gs; cases k) auto
      have nz: "length (fp @ r) - length (?q @ r) = z" using len by simp
      have "48 < char_at (?q @ r) \<and> char_at (?q @ r) \<le> 57" using Cons c by simp
      then have "read_fraction (fold add_digit ip no_digits) s0 (ft @ r) =
          (k, z + length gs, fold add_digit gs no_digits, ?q @ r, r)"
        using g(2) nz by (simp add: read_fraction_def ft e drop)
      moreover have "ip @ fp = replicate z 48 @ gs @ replicate k 48" using z g(1) e by simp
      ultimately show ?thesis by (rule that) (use ne c len g(1) in simp_all)
    qed
  qed
qed

subsection \<open>The exponent\<close>

definition exponent_literal :: "int list \<Rightarrow> int \<Rightarrow> bool" where
  "exponent_literal et e \<longleftrightarrow> et = [] \<and> e = 0 \<or>
    (\<exists>c sg ds. et = c # sg @ ds \<and> (c = 101 \<or> c = 69) \<and> sg \<in> {[], [43], [45]} \<and> ds \<noteq> [] \<and> digits ds \<and>
      e = (if sg = [45] then - int (digits_value 0 ds) else int (digits_value 0 ds)))"

lemma digits_value_int: "digits ds \<Longrightarrow> 0 \<le> v \<Longrightarrow> foldl (\<lambda>l c. 10 * l + (c - 48)) v ds = int (digits_value (nat v) ds)"
proof (induction ds arbitrary: v)
  case (Cons c ds)
  then have "nat (10 * v + (c - 48)) = 10 * nat v + nat (c - 48)" "0 \<le> 10 * v + (c - 48)" by (auto simp: nat_add_distrib nat_mult_distrib)
  then show ?case using Cons by (simp add: digits_value_def)
qed (simp add: digits_value_def)

lemma digits_value_nonzero:
  assumes "s \<noteq> []" and "digits s" and "hd s \<noteq> 48"
  shows "10 ^ (length s - 1) \<le> digits_value 0 s"
proof -
  obtain c cs where s: "s = [c] @ cs" using assms(1) by (cases s) simp_all
  have "1 \<le> digits_value 0 [c]" using assms(2,3) s by (auto simp: digits_value_def)
  then have "1 * 10 ^ length cs \<le> digits_value 0 [c] * 10 ^ length cs" by (rule mult_le_mono1)
  then have "10 ^ length cs \<le> digits_value 0 [c] * 10 ^ length cs + digits_value 0 cs" by (simp only: mult_1 trans_le_add1)
  then show ?thesis unfolding s digits_value_split by simp
qed

lemma exponent_digits_value:
  assumes ds: "digits ds" "ds \<noteq> []" and r: "no_digit_at r" and small: "digits_value 0 ds < 10000"
  shows "exponent_digits (ds @ r) = (int (digits_value 0 ds), r)"
proof -
  obtain j where j: "ds = replicate j 48 @ dropWhile (\<lambda>c. c = 48) ds" by (rule zeros_off)
  let ?q = "dropWhile (\<lambda>c. c = 48) ds"
  have q: "digits ?q" using ds(1) by (auto simp: list_all_iff dest: set_dropWhileD)
  have val: "digits_value 0 ds = digits_value 0 ?q" by (subst j) (simp add: digits_value_split zeros_value)
  have drop: "dropWhile (\<lambda>c. c = 48) (ds @ r) = ?q @ r"
  proof (cases "?q = []")
    case True
    then have "\<forall>c \<in> set ds. c = 48" by (simp add: dropWhile_eq_Nil_conv)
    moreover have "dropWhile (\<lambda>c. c = 48) r = r" using r by (cases r) (auto simp: no_digit_at_def)
    ultimately show ?thesis using True by (simp add: dropWhile_append)
  next
    case False
    then have "\<not> (\<forall>c \<in> set ds. c = 48)" by (simp add: dropWhile_eq_Nil_conv)
    then show ?thesis by (auto simp: dropWhile_append)
  qed
  have digit: "\<And>c. c \<in> set ?q \<Longrightarrow> 48 \<le> c \<and> c \<le> 57" using q by (auto simp: list_all_iff)
  have stop: "takeWhile (\<lambda>c. 48 \<le> c \<and> c \<le> 57) r = []" "dropWhile (\<lambda>c. 48 \<le> c \<and> c \<le> 57) r = r"
    using r by (cases r; auto simp: no_digit_at_def)+
  have parts: "takeWhile (\<lambda>c. 48 \<le> c \<and> c \<le> 57) (?q @ r) = ?q" "dropWhile (\<lambda>c. 48 \<le> c \<and> c \<le> 57) (?q @ r) = r"
    using takeWhile_append2 [of ?q "\<lambda>c. 48 \<le> c \<and> c \<le> 57" r] dropWhile_append2 [of ?q "\<lambda>c. 48 \<le> c \<and> c \<le> 57" r] digit stop
    by simp_all
  have short: "length ?q \<le> 8" if "?q \<noteq> []"
  proof (rule ccontr)
    assume "\<not> length ?q \<le> 8"
    then have "(10 :: nat) ^ 8 \<le> 10 ^ (length ?q - 1)" by (intro power_increasing) simp_all
    also have "\<dots> \<le> digits_value 0 ?q" using that q hd_dropWhile [of "\<lambda>c. c = 48" ds] by (intro digits_value_nonzero) auto
    finally show False using small unfolding val by simp
  qed
  show ?thesis
  proof (cases "?q = []")
    case True
    have "digits_value 0 ds = 0" using val unfolding True by (simp add: digits_value_def)
    then show ?thesis unfolding exponent_digits_def drop Let_def parts if_P [OF True] by simp
  next
    case False
    then show ?thesis unfolding exponent_digits_def drop Let_def parts if_not_P [OF False]
      using val small short digits_value_int [OF q, of 0] by simp
  qed
qed

lemma read_exponent_value:
  assumes "exponent_literal et e" and r: "no_digit_at r" "char_at r \<noteq> 101" "char_at r \<noteq> 69" and "\<bar>e\<bar> < 10000"
  shows "read_exponent (et @ r) = (e, r)"
proof (cases "et = []")
  case True
  then show ?thesis using assms by (auto simp: read_exponent_def exponent_literal_def)
next
  case False
  then obtain c sg ds where et: "et = c # sg @ ds" "c = 101 \<or> c = 69" "sg \<in> {[], [43], [45]}" "ds \<noteq> []" "digits ds"
    "e = (if sg = [45] then - int (digits_value 0 ds) else int (digits_value 0 ds))"
    using assms(1) by (auto simp: exponent_literal_def)
  have "digits_value 0 ds < 10000" using assms(5) et(6) by (auto split: if_splits)
  note val = exponent_digits_value [OF et(5,4) r(1) this]
  obtain d ds' where d: "ds = d # ds'" "48 \<le> d" "d \<le> 57" using et(4,5) by (cases ds) auto
  show ?thesis using et(2,3,6) val d unfolding et(1) by (auto simp: read_exponent_def)
qed

lemma exponent_literal_start:
  assumes "exponent_literal et e" and "no_digit_at r" and "char_at r \<noteq> 46"
  shows "no_digit_at (et @ r)" and "char_at (et @ r) \<noteq> 46"
  using assms by (auto simp: exponent_literal_def)


subsection \<open>The result\<close>

text \<open>A text after which the number cannot go on.\<close>

definition number_ends :: "int list \<Rightarrow> bool" where
  "number_ends rest \<longleftrightarrow> no_digit_at rest \<and> char_at rest \<notin> {46, 69, 101}"

lemma skip_blanks: "\<forall>c \<in> set ws. 9 \<le> c \<and> c \<le> 13 \<or> c = 32 \<Longrightarrow> skip_to_number (ws @ t) = skip_to_number t"
  by (induction ws) auto

lemma skip_sign:
  assumes "\<forall>c \<in> set ws. 9 \<le> c \<and> c \<le> 13 \<or> c = 32" and "sg \<in> {[], [43], [45]}" and "46 \<le> c" "c \<le> 57"
  shows "skip_to_number (ws @ sg @ c # s) = Some (sg = [45], c # s)"
  using assms(2-4) unfolding skip_blanks [OF assms(1)] by auto

lemma rounds_to_zero: "rounds_to 0 (0, 0)"
  by (auto simp: rounds_to_def double_value_def significand_def fraction_def biased_def)

lemma dropWhile_zeros_append:
  assumes "char_at r \<noteq> 48"
  shows "dropWhile (\<lambda>c. c = 48) (ip @ r) = dropWhile (\<lambda>c. c = 48) ip @ r"
  using assms by (induction ip) (cases r; auto)+

lemma digits_value_drop: "digits_value 0 (dropWhile (\<lambda>c. c = 48) ip @ fp) = digits_value 0 (ip @ fp)"
proof -
  obtain j where "ip = replicate j 48 @ dropWhile (\<lambda>c. c = 48) ip" by (rule zeros_off)
  then show ?thesis by (metis digits_value_split zeros_value add_0 mult_0 append_assoc)
qed

lemma digits_to_double_short:
  assumes "digits gs" "length gs \<le> 15" and e: "- 22 \<le> e" "e \<le> 37 - int (length gs)"
  shows "digits_to_double (fold add_digit gs no_digits) nd0 s0 e p5s = Some (encode (of_nat (digits_value 0 gs) * 10 powi e), p5s)"
proof -
  let ?d = "fold add_digit gs no_digits"
  have d: "nd ?d = length gs" using fold_digits [OF assms(1)] assms(2) by simp
  have "digits_value 0 gs < 10 ^ length gs" using digits_value_bound [OF assms(1)] by simp
  then have "short_number (length gs) e (encode (of_nat (digits_value 0 gs))) = Some (encode (of_nat (digits_value 0 gs) * 10 powi e))"
    using assms(2) e by (rule short_number_value)
  moreover have m: "min (length gs) 16 = length gs" using assms(2) by simp
  ultimately show ?thesis unfolding digits_to_double_def Let_def d m digits_exact [OF assms(1,2), unfolded d] by simp
qed


lemma encode_not_zero:
  assumes "2 powi (- 1074) \<le> x" and "x < 2 powi 1023"
  shows "rounds_to x (encode x)" and "biased (encode x) < 2047" and "\<not> negative (encode x)"
proof -
  have x: "0 < x" using assms(1) by (rule order.strict_trans2 [rotated]) simp
  note bounds = units_bounds [OF x]
  show fin: "biased (encode x) < 2047" by (rule encode_finite_bound [OF x assms(2)])
  note u = encode_finite [OF x fin]
  have "units x \<noteq> 0"
  proof
    assume z: "units x = 0"
    then have "last_place x = - 1074" using bounds(2) by simp
    then have "x \<le> 2 powi (- 1075)" using bounds(3) z x by simp
    moreover have "(2 :: rat) powi (- 1075) < 2 powi (- 1074)" by (rule power_int_strict_increasing) simp_all
    ultimately show False using assms(1) by linarith
  qed
  then have "significand (encode x) \<noteq> 0"
    using double_at_value(4) [OF last_place_bound bounds(1,2) refl u(2), folded u(1)] by simp
  then show "rounds_to x (encode x)" and "\<not> negative (encode x)"
    using encode_rounds_to(1) [OF x fin] double_at_words(3) [OF u(2)] unfolding u(1) negative_def by (simp_all add: no_sign)
qed


lemma dropWhile_twice:
  "dropWhile (\<lambda>c. c = 48) (dropWhile (\<lambda>c. c = 48) ip @ fp) = dropWhile (\<lambda>c. c = (48 :: int)) (ip @ fp)"
  by (induction ip) auto

lemma fraction_short:
  assumes ip: "digits ip" "ip = [] \<or> hd ip \<noteq> 48" and fp: "digits fp" "fraction_text ft fp" and r: "no_digit_at r" "char_at r \<noteq> 46"
    and short: "length (dropWhile (\<lambda>c. c = 48) (ip @ fp)) \<le> 15" "- 22 \<le> e - int (length fp)"
      "e - int (length fp) \<le> 37 - int (length (dropWhile (\<lambda>c. c = 48) (ip @ fp)))"
  obtains nz nf d s0' where "read_fraction (fold add_digit ip no_digits) s0 (ft @ r) = (nz, nf, d, s0', r)"
    "nd d = 0 \<Longrightarrow> nz = length fp \<and> digits_value 0 (ip @ fp) = 0"
    "nd d \<noteq> 0 \<Longrightarrow> digits_to_double d nd0 s0' (e - int nf) p5s =
      Some (encode (of_nat (digits_value 0 (ip @ fp)) * 10 powi (e - int (length fp))), p5s)"
proof -
  obtain gs k j nz nf s0' where g: "read_fraction (fold add_digit ip no_digits) s0 (ft @ r) = (nz, nf, fold add_digit gs no_digits, s0', r)"
    "ip @ fp = replicate j 48 @ gs @ replicate k 48" "gs = [] \<or> hd gs \<noteq> 48" "gs \<noteq> [] \<Longrightarrow> nf + k = length fp"
    "gs = [] \<Longrightarrow> nz = length fp"
    using read_fraction_fold [OF ip fp r, of s0] by metis
  have val: "digits_value 0 (ip @ fp) = digits_value 0 gs * 10 ^ k" unfolding g(2) by (simp add: digits_value_split zeros_value)
  have gs: "digits gs" using ip(1) fp(1) g(2) by (metis list_all_append)
  have count: "nd (fold add_digit xs d) = nd d + length xs" for xs d
    by (induction xs arbitrary: d) (simp_all add: add_digit_def Let_def)
  show thesis
  proof (rule that [OF g(1)])
    show "nz = length fp \<and> digits_value 0 (ip @ fp) = 0" if "nd (fold add_digit gs no_digits) = 0"
      using that g(5) val by (simp add: count digits_value_def)
    assume "nd (fold add_digit gs no_digits) \<noteq> 0"
    then have ne: "gs \<noteq> []" by (auto simp: count)
    then have "dropWhile (\<lambda>c. c = 48) (ip @ fp) = gs @ replicate k 48" using g(3) unfolding g(2) by (cases gs) (simp_all add: dropWhile_append3)
    then have l: "length gs + k \<le> 15" "e - int (length fp) \<le> 37 - int (length gs + k)" using short by simp_all
    have e: "e - int nf = int k + (e - int (length fp))" using g(4) [OF ne] by linarith
    have "digits_to_double (fold add_digit gs no_digits) nd0 s0' (e - int nf) p5s =
        Some (encode (of_nat (digits_value 0 gs) * 10 powi (e - int nf)), p5s)"
      by (rule digits_to_double_short [OF gs]) (use l short(2) e in simp_all)
    then show "digits_to_double (fold add_digit gs no_digits) nd0 s0' (e - int nf) p5s =
        Some (encode (of_nat (digits_value 0 (ip @ fp)) * 10 powi (e - int (length fp))), p5s)"
      unfolding val e by (simp add: power_int_add mult.assoc)
  qed
qed

lemma strtod_short_value:
  assumes ws: "\<forall>c \<in> set ws. 9 \<le> c \<and> c \<le> 13 \<or> c = 32" and sg: "sg \<in> {[], [43], [45]}"
    and ds: "digits (ip @ fp)" "ip @ fp \<noteq> []" "fraction_text ft fp"
    and ex: "exponent_literal et e" "number_ends rest" "\<bar>e\<bar> < 10000"
    and short: "length (dropWhile (\<lambda>c. c = 48) (ip @ fp)) \<le> 15" "- 22 \<le> e - int (length fp)"
      "e - int (length fp) \<le> 37 - int (length (dropWhile (\<lambda>c. c = 48) (ip @ fp)))"
  shows "strtod (ws @ sg @ ip @ ft @ et @ rest) p5s =
    Some ((with_sign (sg = [45]) (encode (of_nat (digits_value 0 (ip @ fp)) * 10 powi (e - int (length fp)))), rest), p5s)"
proof -
  let ?r = "et @ rest" and ?ip = "dropWhile (\<lambda>c. c = 48) ip" and ?D = "digits_value 0 (ip @ fp)"
  have r: "no_digit_at ?r" "char_at ?r \<noteq> 46" using exponent_literal_start [OF ex(1)] ex(2) by (auto simp: number_ends_def)
  have tail: "no_digit_at (ft @ ?r)" using ds(3) r(1) by (auto simp: fraction_text_def)
  obtain c s where cs: "ip @ ft @ ?r = c # s" "46 \<le> c" "c \<le> 57"
  proof (cases ip)
    case Nil
    then show ?thesis using that ds(2,3) by (auto simp: fraction_text_def)
  next
    case (Cons c cs)
    then show ?thesis using that ds(1) by auto
  qed
  have start: "skip_to_number (ws @ sg @ ip @ ft @ ?r) = Some (sg = [45], ip @ ft @ ?r)"
    unfolding cs(1) by (rule skip_sign [OF ws sg cs(2,3)])
  have drop: "dropWhile (\<lambda>c. c = 48) (ip @ ft @ ?r) = ?ip @ ft @ ?r"
    by (rule dropWhile_zeros_append) (use tail in \<open>auto simp: no_digit_at_def\<close>)
  have ip': "digits ?ip" "?ip = [] \<or> hd ?ip \<noteq> 48" using ds(1) hd_dropWhile [of "\<lambda>c. c = 48" ip]
    by (auto simp: list_all_iff dest: set_dropWhileD)
  have exponent: "read_exponent ?r = (e, rest)" by (rule read_exponent_value) (use ex in \<open>auto simp: number_ends_def\<close>)
  have fpd: "digits fp" using ds(1) by simp
  note short' = short [folded dropWhile_twice [of ip fp]]
  show ?thesis
  proof (cases "char_at (ip @ ft @ ?r) = 48 \<and> char_at (?ip @ ft @ ?r) = 0")
    case True
    then have e: "?ip = []" using ip'(1) by (cases ?ip) auto
    then have z: "char_at (ft @ ?r) = 0" using True unfolding e by simp
    then have f: "ft = []" "fp = []" using ds(3) by (auto simp: fraction_text_def)
    then have "et = []" using z ex(1) by (auto simp: exponent_literal_def)
    moreover have "?D = 0" using digits_value_drop [of ip fp] e f(2) by (simp add: digits_value_def)
    moreover have "dropWhile (\<lambda>c. c = 48) (ip @ ft @ ?r) = ft @ ?r" using drop unfolding e by simp
    ultimately show ?thesis using True z f unfolding strtod_def start by simp
  next
    case False
    obtain nz nf d s0 where f: "read_fraction (fold add_digit ?ip no_digits) (?ip @ ft @ ?r) (ft @ ?r) = (nz, nf, d, s0, ?r)"
      "nd d = 0 \<Longrightarrow> nz = length fp \<and> digits_value 0 (?ip @ fp) = 0"
      "nd d \<noteq> 0 \<Longrightarrow> digits_to_double d (nd (fold add_digit ?ip no_digits)) s0 (e - int nf) p5s =
        Some (encode (of_nat (digits_value 0 (?ip @ fp)) * 10 powi (e - int (length fp))), p5s)"
      using fraction_short [OF ip' fpd ds(3) r short', of "?ip @ ft @ ?r" "nd (fold add_digit ?ip no_digits)" p5s] by metis
    have whole: "whole_digits no_digits (?ip @ ft @ ?r) = (fold add_digit ?ip no_digits, ft @ ?r)"
      by (rule whole_digits_fold [OF ip'(1) tail])
    have digit: "\<not> (nd d = 0 \<and> nz = 0 \<and> char_at (ip @ ft @ ?r) \<noteq> 48)"
    proof
      assume a: "nd d = 0 \<and> nz = 0 \<and> char_at (ip @ ft @ ?r) \<noteq> 48"
      then have fp: "fp = []" using f(2) by simp
      then obtain c' cs' where ip: "ip = c' # cs'" using ds(2) by (cases ip) auto
      then have "?ip \<noteq> []" using a by simp
      then have "10 ^ (length ?ip - 1) \<le> digits_value 0 ?ip" using ip' by (intro digits_value_nonzero) auto
      then have "digits_value 0 (?ip @ fp) \<noteq> 0" using fp by (metis append_Nil2 leD zero_less_numeral zero_less_power)
      then show False using f(2) a by simp
    qed
    show ?thesis using False digit f(2,3)
      unfolding strtod_def start by (auto simp: drop whole f(1) exponent digits_value_drop)
  qed
qed





end
