(* ===== verification/TextNumbers.thy ===== *)
theory TextNumbers
  imports StrtodShort ASCII
begin

unbundle bit_operations_syntax

text \<open>
  From a text to a number, \<open>runtime/JSGlobalObjectFunctions.cpp\<close>: digits in a radix, hexadecimal and decimal
  literals, and \<open>jsToNumber\<close>. A pointer into the text is what is left of it up to \<open>end\<close>.
\<close>

definition isStrWhiteSpace :: "int \<Rightarrow> bool" where
  "isStrWhiteSpace c \<longleftrightarrow>
     c \<in> {0x9, 0xA, 0xB, 0xC, 0xD, 0x20, 0xA0, 0x2028, 0x2029, 0xFEFF} \<or> 0xff < c \<and> isSeparatorSpace c"

definition parseDigit :: "int \<Rightarrow> int \<Rightarrow> int" where
  "parseDigit c radix =
    (let digit =
       (if 48 \<le> c \<and> c \<le> 57 then c - 48
        else if 65 \<le> c \<and> c \<le> 90 then c - 65 + 10
        else if 97 \<le> c \<and> c \<le> 122 then c - 97 + 10
        else - 1)
     in if radix \<le> digit then - 1 else digit)"

text \<open>The digits from the last one on.\<close>

fun parseIntOverflow_loop :: "int \<Rightarrow> dbits \<Rightarrow> dbits \<Rightarrow> int list \<Rightarrow> dbits" where
  "parseIntOverflow_loop radix number radixMultiplier [] = number"
| "parseIntOverflow_loop radix number radixMultiplier (c # cs) =
    (if radixMultiplier = infinity \<and> c \<noteq> 48 then infinity
     else
       let number = (if radixMultiplier = infinity then number
                     else dadd number (dmul (double_of (of_int (parseDigit c radix))) radixMultiplier))
       in parseIntOverflow_loop radix number (dmul radixMultiplier (double_of (of_int radix))) cs)"

definition parseIntOverflow :: "int list \<Rightarrow> int \<Rightarrow> dbits" where
  "parseIntOverflow s radix = parseIntOverflow_loop radix (double_of 0) (double_of 1) (rev s)"

definition isInfinity :: "int list \<Rightarrow> bool" where
  "isInfinity data \<longleftrightarrow> take 8 data = map of_char ''Infinity''"

text \<open>The loop reads a digit before it looks for the end; its caller has seen the first.\<close>

fun hex_value :: "dbits \<Rightarrow> int list \<Rightarrow> dbits \<times> int list" where
  "hex_value number [] = (number, [])"
| "hex_value number (c # data) =
    (let number = dadd (dmul number (double_of 16)) (double_of (of_int (toASCIIHexValue c)))
     in if data = [] \<or> \<not> isASCIIHexDigit (hd data) then (number, data) else hex_value number data)"

definition jsHexIntegerLiteral :: "int list \<Rightarrow> dbits \<times> int list" where
  "jsHexIntegerLiteral data =
    (let first = drop 2 data;
         (number, data) = hex_value (double_of 0) first
     in if is_infinite number \<or> 9007199254740992 \<le> number_of number
        then (parseIntOverflow (take (length first - length data) first) 16, data)
        else (number, data))"

definition jsStrDecimalLiteral :: "int list \<Rightarrow> bigint list \<Rightarrow> ((dbits \<times> int list) \<times> bigint list) option" where
  "jsStrDecimalLiteral data p5s =
    (let byteBuffer = map (\<lambda>c. if isASCII c then c else 0) data @ [0] in
     map_option (\<lambda>((number, endOfNumber), p5s).
       let consumed = length byteBuffer - length endOfNumber in
       (if consumed \<noteq> 0 then (number, drop consumed data)
        else if hd data = of_char (CHR ''I'') \<and> isInfinity data then (infinity, drop 8 data)
        else if hd data = of_char (CHR ''+'') \<and> isInfinity (tl data) then (infinity, drop 9 data)
        else if hd data = of_char (CHR ''-'') \<and> isInfinity (tl data) then (negate infinity, drop 9 data)
        else (nan, data), p5s))
     (strtod byteBuffer p5s))"

definition jsToNumber :: "int list \<Rightarrow> bigint list \<Rightarrow> (dbits \<times> bigint list) option" where
  "jsToNumber s p5s =
    (if length s = 1 then
       Some (if isASCIIDigit (hd s) then double_of (of_int (hd s - 48))
             else if isStrWhiteSpace (hd s) then double_of 0 else nan, p5s)
     else
       let data = dropWhile isStrWhiteSpace s in
       if data = [] then Some (double_of 0, p5s)
       else
         map_option (\<lambda>((number, data), p5s). (if dropWhile isStrWhiteSpace data \<noteq> [] then nan else number, p5s))
           (if data ! 0 = 48 \<and> 2 < length data \<and> data ! 1 OR 0x20 = 120 \<and> isASCIIHexDigit (data ! 2)
            then Some (jsHexIntegerLiteral data, p5s) else jsStrDecimalLiteral data p5s))"


subsection \<open>Short decimal numbers\<close>

lemma white_space_chars:
  "isStrWhiteSpace c \<longleftrightarrow> c \<in> {0x9, 0xA, 0xB, 0xC, 0xD, 0x20, 0xA0, 0x2028, 0x2029, 0xFEFF}"
  by (simp add: isStrWhiteSpace_def isSeparatorSpace_def)

text \<open>The characters of a decimal number.\<close>

definition number_chars :: "int list" where
  "number_chars = [43, 45, 46, 48, 49, 50, 51, 52, 53, 54, 55, 56, 57, 69, 101]"

lemma number_chars_props:
  assumes "c \<in> set number_chars"
  shows "isASCII c" and "\<not> isStrWhiteSpace c" and "c OR 0x20 \<noteq> 120"
  using assms by (auto simp: number_chars_def isASCII_def white_space_chars)

lemma digits_number_chars: "digits s \<Longrightarrow> set s \<subseteq> set number_chars"
proof
  fix c assume "digits s" "c \<in> set s"
  then have "48 \<le> c" "c < 58" by (auto simp: list_all_iff)
  then have "c \<in> {48, 49, 50, 51, 52, 53, 54, 55, 56, 57}" by (simp, presburger)
  then show "c \<in> set number_chars" by (auto simp: number_chars_def)
qed

lemma decimal_number_chars:
  assumes "sg \<in> {[], [43], [45]}" and "digits (ip @ fp)" "fraction_text ft fp" and "exponent_literal et e"
  shows "set (sg @ ip @ ft @ et) \<subseteq> set number_chars"
proof -
  have "set sg \<subseteq> set number_chars" using assms(1) by (auto simp: number_chars_def)
  moreover have "set (ip @ fp) \<subseteq> set number_chars" by (rule digits_number_chars [OF assms(2)])
  moreover have "set ft \<subseteq> insert 46 (set fp)" "46 \<in> set number_chars" using assms(3) by (auto simp: fraction_text_def number_chars_def)
  moreover have "set et \<subseteq> set number_chars"
  proof (cases "et = []")
    case False
    then obtain c sg' ds where et: "et = c # sg' @ ds" "c = 101 \<or> c = 69" "sg' \<in> {[], [43], [45]}" "digits ds"
      using assms(4) by (auto simp: exponent_literal_def)
    then show ?thesis using digits_number_chars [of ds] by (auto simp: number_chars_def)
  qed simp
  ultimately show ?thesis by auto
qed

lemma white_space_rest: "list_all isStrWhiteSpace ws \<Longrightarrow> number_ends (map (\<lambda>c. if isASCII c then c else 0) ws @ [0])"
  by (cases ws) (auto simp: number_ends_def white_space_chars isASCII_def)

lemma single_digit:
  assumes "length (sg @ ip @ ft @ et) = 1" and "digits (ip @ fp)" "ip @ fp \<noteq> []" "fraction_text ft fp" and "exponent_literal et e"
  shows "sg @ ip @ ft @ et = ip" and "fp = []" and "e = 0" and "\<exists>c. ip = [c] \<and> 48 \<le> c \<and> c < 58"
  using assms by (cases ip; cases sg; cases fp; auto simp: fraction_text_def exponent_literal_def)+

lemma jsToNumber_decimal:
  assumes "length s \<noteq> 1" and "dropWhile isStrWhiteSpace s = data" "data \<noteq> []"
    and "\<not> (2 < length data \<and> data ! 1 OR 0x20 = 120)"
    and "jsStrDecimalLiteral data p5s = Some ((x, rest), q5s)" and "dropWhile isStrWhiteSpace rest = []"
  shows "jsToNumber s p5s = Some (x, q5s)"
proof -
  have "\<not> (data ! 0 = 48 \<and> 2 < length data \<and> data ! 1 OR 0x20 = 120 \<and> isASCIIHexDigit (data ! 2))" using assms(4) by blast
  note no_hex = if_not_P [OF this]
  show ?thesis unfolding jsToNumber_def Let_def assms(2) if_not_P [OF assms(1)] if_not_P [OF assms(3)] no_hex assms(5)
    using assms(6) by simp
qed

lemma jsToNumber_short_decimal:
  assumes ws: "list_all isStrWhiteSpace ws" "list_all isStrWhiteSpace ws'" and sg: "sg \<in> {[], [43], [45]}"
    and ds: "digits (ip @ fp)" "ip @ fp \<noteq> []" "fraction_text ft fp"
    and ex: "exponent_literal et e" "\<bar>e\<bar> < 10000"
    and short: "length (dropWhile (\<lambda>c. c = 48) (ip @ fp)) \<le> 15" "- 22 \<le> e - int (length fp)"
      "e - int (length fp) \<le> 37 - int (length (dropWhile (\<lambda>c. c = 48) (ip @ fp)))"
  shows "jsToNumber (ws @ sg @ ip @ ft @ et @ ws') p5s =
    Some (with_sign (sg = [45]) (encode (of_nat (digits_value 0 (ip @ fp)) * 10 powi (e - int (length fp)))), p5s)"
proof -
  let ?t = "sg @ ip @ ft @ et" and ?f = "\<lambda>c. if isASCII c then c else (0 :: int)"
  let ?x = "with_sign (sg = [45]) (encode (of_nat (digits_value 0 (ip @ fp)) * 10 powi (e - int (length fp))))"
  have chars: "set ?t \<subseteq> set number_chars" by (rule decimal_number_chars [OF sg ds(1,3) ex(1)])
  have ne: "?t \<noteq> []" using ds(2,3) by (auto simp: fraction_text_def)
  have "map ?f ?t = ?t" by (rule map_idI) (use chars number_chars_props(1) in auto)
  then have buffer: "map ?f (?t @ ws') @ [0] = [] @ sg @ ip @ ft @ et @ map ?f ws' @ [0]" by simp
  have "strtod (map ?f (?t @ ws') @ [0]) p5s = Some ((?x, map ?f ws' @ [0]), p5s)"
    unfolding buffer by (rule strtod_short_value) (use sg ds ex short white_space_rest [OF ws(2)] in simp_all)
  then have decimal: "jsStrDecimalLiteral (?t @ ws') p5s = Some ((?x, ws'), p5s)"
    using ne unfolding jsStrDecimalLiteral_def Let_def by simp
  have skip: "dropWhile isStrWhiteSpace (ws @ ?t @ ws') = ?t @ ws'"
    using ws(1) ne chars number_chars_props(2) by (cases ?t) (auto simp: list_all_iff)
  have skip': "dropWhile isStrWhiteSpace ws' = []" using ws(2) by (simp add: list_all_iff)
  have "c OR 0x20 \<noteq> 120" if "c \<in> set (?t @ ws')" for c
    using that chars number_chars_props(3) [of c] ws(2) by (auto simp: list_all_iff white_space_chars)
  then have no_hex: "\<not> (2 < length (?t @ ws') \<and> (?t @ ws') ! 1 OR 0x20 = 120)" using nth_mem [of 1 "?t @ ws'"] by auto
  show ?thesis
  proof (cases "length (ws @ ?t @ ws') = 1")
    case True
    then have "length ws + length ?t + length ws' = 1" by simp
    moreover have "0 < length ?t" using ne unfolding length_greater_0_conv .
    ultimately have "length ?t = 1 \<and> length ws = 0 \<and> length ws' = 0" by arith
    then have one: "length ?t = 1" "ws = []" "ws' = []" by simp_all
    note digit = single_digit [OF one(1) ds ex(1)]
    then obtain c where "ip = [c]" "48 \<le> c" "c < 58" "sg = []" by (auto simp: append_eq_Cons_conv)
    then show ?thesis using True digit one(2,3) unfolding jsToNumber_def
      by (simp add: isASCIIDigit_def digits_value_def double_of_def with_sign_def)
  next
    case False
    then have "jsToNumber (ws @ ?t @ ws') p5s = Some (?x, p5s)"
      by (rule jsToNumber_decimal [OF _ skip _ no_hex decimal skip']) (use ne in auto)
    then show ?thesis by simp
  qed
qed

end
