(* ===== verification/Spec2Isabelle.thy ===== *)
theory Spec2Isabelle
  imports Lookup Literals ReflectProps ParserErrors BinaryExpression ProgramRoundtrip ParserArena Shell BigIntPrograms NumberText TextNumbers
begin

text \<open>
  HammerJS is a JavaScript shell: \<open>hammerjs.cpp\<close> runs a script with the engine V8 and gives it three
  objects, \<open>system\<close>, \<open>fs\<close> and \<open>Reflect\<close>, which are implemented in \<open>modules/\<close>. The largest part of the
  program's own code is behind \<open>Reflect.parse\<close>: a scanner and a recursive descent parser for
  JavaScript with the containers and the arena they work on, and the conversion of the syntax tree
  to JavaScript objects. This development models that part, function by function, and around it
  the streams of \<open>fs\<close>, the functions of \<open>system\<close> and the command line. All paths below are under
  \<open>src/\<close>, those of the parser under \<open>src/modules/reflect/\<close>.

  \<^bold>\<open>How the parts interact.\<close> \<open>reflect_parse\<close> (\<open>reflect.cpp\<close>) widens the bytes of its argument to UTF-16
  units and hands them to \<open>Parser::createSyntaxTree\<close> (\<open>parser/Parser.cpp\<close>). That sets the source
  of the scanner, creates a \<open>JSParser\<close>, whose constructor reads the first token, and calls
  \<open>parseSourceElements\<close>. The parser (\<open>parser/JSParser.cpp\<close>) drives the scanner one token at a time
  with \<open>next\<close>; it keeps the current token, an error flag and some counters, and calls the
  functions of the tree builder (\<open>parser/SyntaxTree.h\<close>), which keeps four stacks for operands,
  operators, assignments and unary operators. A parser function returns a node or null; the
  \<open>fail()\<close> macros set the error flag and return. \<open>convertNode\<close> turns the finished tree into objects,
  or \<open>reflect_parse\<close> throws. Identifiers and nodes are allocated in the \<open>ParserArena\<close>.

  \<^bold>\<open>The model, theory by theory.\<close>

  \<^item> \<open>Prelude\<close>: integer types, collections of facts, generic lemmas.
  \<^item> \<open>ASCII\<close>: \<open>wtf/ASCIICType.h\<close>, the classification table and the character predicates of \<open>Lexer.cpp\<close>;
    \<open>TokenType\<close>, \<open>Token\<close>: the enumeration \<open>JSTokenType\<close> with its flag bits and precedences, token
    records (\<open>JSParser.h\<close>); \<open>Lookup\<close>: the comparison tree for reserved words (\<open>Lookup.h\<close>).
  \<^item> \<open>Lexer\<close>: the members of \<open>Lexer\<close> as a record, one function for each member function, \<open>lex\<close>
    with all its cases and the scanning of regular expressions.
  \<^item> \<open>SyntaxTree\<close>: nodes, all \<open>create\<close> and \<open>make\<close> functions, the stacks of the builder.
  \<^item> \<open>ParserMonad\<close>: the state of the parser; a function is a map from a state to an outcome:
    \<open>Ret\<close> with a value, \<open>Fail\<close> after a \<open>fail()\<close> macro, \<open>Crash\<close> where an assertion, \<open>CRASH()\<close> or an
    invalid access ends the process, \<open>OutOfFuel\<close>. \<open>JSParser\<close> and \<open>JSStatements\<close>: the functions of
    \<open>JSParser.cpp\<close>, the recursion, the constructor and \<open>createSyntaxTree\<close>.
  \<^item> \<open>Reflect\<close>, \<open>ReflectParse\<close>: \<open>convertNode\<close>, \<open>operatorAsText\<close> and \<open>reflect_parse\<close>; the values of V8
    are a datatype.
  \<^item> \<open>Source\<close>: \<open>UString\<close>, \<open>Identifier\<close>, source providers and source codes.
  \<^item> \<open>Vectors\<close>, \<open>SegmentedVector\<close>: the containers of \<open>wtf/\<close> with their buffers, capacities and
    reallocations; \<open>Sequences\<close>: the interface both provide as a stack, a locale that each theory
    interprets for its container. \<open>ParserArena\<close>: pools, identifiers, reset and destruction.
  \<^item> \<open>Streams\<close>: the class \<open>Stream\<close> of \<open>fs.cpp\<close> over a model of \<open>std::fstream\<close>; \<open>Shell\<close>: \<open>main\<close>, the functions of
    \<open>system.cpp\<close> and the queries of \<open>fs.cpp\<close>.
  \<^item> \<open>BigInt\<close>: the integers of arbitrary size of \<open>wtf/dtoa.cpp\<close>, with the operations that the
    conversions between decimal text and doubles are made of. \<open>Dtoa\<close>: \<open>dtoa\<close>, from a double to its shortest
    decimal digits; \<open>NumberText\<close>: \<open>doubleToStringInJavaScriptFormat\<close>, the text of a number. \<open>Doubles\<close>: the
    arithmetic of doubles as IEEE 754 defines it; \<open>Strtod\<close>: \<open>strtod\<close>, from decimal text to a double, with
    the estimate and the loop that corrects it; \<open>TextNumbers\<close>: \<open>runtime/JSGlobalObjectFunctions.cpp\<close>, \<open>parseIntOverflow\<close>
    and \<open>jsToNumber\<close>.

  The other theories hold proofs about these definitions. They use three calculi for parser functions:
  \<open>wp\<close> (\<open>ParserWP\<close>) for total correctness including the error flag, \<open>wlp\<close> (\<open>ParserErrors\<close>) for what
  holds if a function returns, and \<open>returns\<close> (\<open>ParserReturns\<close>) for runs that succeed.

  \<^bold>\<open>What is shown.\<close>

  \<^item> Everything ends, in a named way. \<open>ReflectParse\<close> states it for \<open>Reflect.parse\<close> on every text,
    \<open>CreateSyntaxTree\<close> for the parser. Below it are the invariant of the scanner (\<open>LexerProps\<close>: in
    bounds, buffers empty, progress with every token), the contracts of all parser functions
    (\<open>ParserProps\<close>, \<open>ExpressionProps\<close>, \<open>StatementProps\<close>, through the locales \<open>sub_parsers\<close> and
    \<open>statement_parsers\<close>, interpreted on the parser itself), independence from the fuel
    (\<open>FuelMono\<close>), and that every tree that is built has the shape that \<open>convertNode\<close> relies on
    (\<open>TreeShape\<close>).
  \<^item> The parser is right. \<open>ProgramRoundtrip\<close>: a program, printed as text, is parsed to its tree. The
    theorem rests on \<open>TokenText\<close> (the scanner reads a list of tokens back), \<open>ExpressionGrammar\<close> and
    \<open>ExpressionParsing\<close> (each level of expressions reads exactly its tokens), \<open>StatementGrammar\<close> and
    \<open>StatementParsing\<close>; and on \<open>BinaryExpression\<close>, where the operator precedence parser with
    its two stacks is refined by trees and shown to build the only one that respects precedence.
  \<^item> The scanner is right. \<open>Scanning\<close>: words, punctuators, comments as functions of the text;
    \<open>Literals\<close>: strings, hexadecimal and decimal numbers; \<open>Lookup\<close>: the tree of comparisons is the
    table of reserved words.
  \<^item> What the code does and should not. \<open>ParserErrors\<close> and \<open>ReflectProps\<close>: constructs that are never
    accepted, input that is ignored, parts of the program that the result loses.
  \<^item> The containers implement lists, with bounds on capacities and reallocations, and the arena hands out
    disjoint aligned blocks and frees each pool once (\<open>Vectors\<close>, \<open>SegmentedVector\<close>, \<open>ParserArena\<close>).
  \<^item> The big integers compute with natural numbers: \<open>BigIntProps\<close> gives the value of each operation,
    \<open>BigIntPrograms\<close> the refinement for sequences of them.
  \<^item> Numbers are written so that they can be read back. \<open>DtoaCorrect\<close>: \<open>dtoa\<close> gives the shortest digits that round to
    the double and of these the closest; it rests on the bits of a double (\<open>DoubleBits\<close>), the numbers that
    round to it (\<open>DoubleRounding\<close>), the estimate of the exponent with its rounding errors (\<open>LogEstimate\<close>), the
    scaling (\<open>DtoaScaling\<close>), the loop for the digits (\<open>ShortestDigits\<close>, \<open>DtoaShortest\<close>) and the branch for small
    integers (\<open>SmallIntegers\<close>). \<open>NumberText\<close>: the text has the value of the digits.
  \<^item> Numbers of up to 15 digits with a small exponent are read exactly: \<open>StrtodShort\<close> shows that \<open>strtod\<close>
    gives the nearest double, as one product or quotient of exact doubles, and \<open>TextNumbers\<close> the same for
    \<open>jsToNumber\<close>. It rests on \<open>DoubleEncode\<close>: rounding to the nearest, as the operations on doubles
    do it, gives the nearest double. For other numbers \<open>strtod\<close> is modelled, but that its loop ends, and ends with the nearest double,
    is not proved.
  \<^item> Reading and writing of files, and the command line (\<open>Streams\<close>, \<open>Shell\<close>).

  \<^bold>\<open>Fuel.\<close> Every cycle of calls in the parser goes through \<open>parseStatement\<close> or
  \<open>parseAssignmentExpression\<close>. These two are defined by recursion over a bound on the depth of the calls;
  the same number bounds the rounds of each loop. \<open>parserFuel source = 2 * length source + 5\<close> is
  enough for every source: each call and each round has consumed a token since the one before,
  except that a statement starts an expression without consuming one, hence the factor 2.
  \<open>createSyntaxTree_total\<close> proves that \<open>OutOfFuel\<close> does not occur from there on and that the result
  does not depend on the fuel. The functions of the scanner, the conversion and the streams
  recurse with proved measures and need no fuel.

  \<^bold>\<open>Parameters\<close> stand for what is not in the repository or not read by the model: the addresses
  \<open>malloc\<close> returns and whether it fails, the digits of uninitialised arrays, the text that
  \<open>UString::number\<close> makes of a double, the contents of files, the kinds of directory entries,
  whether V8 compiles a script. The scanner and the parser keep a decimal number as the digits that are passed to \<open>strtod\<close>.

  \<^bold>\<open>Not modelled.\<close> V8 is a vendored engine. Doubles are modelled by their
  bits and the rational number these stand for, arithmetic on them by the exact result and its rounding to 53 bits; the
  code is taken as compiled for 64 bits, with the 64-bit carries of \<open>USE_LONG_LONG\<close> and without excess
  precision. Setting up the objects of the engine and
  registering callbacks is left out of \<open>hammerjs.cpp\<close> and of each module: it has no logic of its own.
  Of \<open>Vector\<close> the operations that the parser never instantiates (\<open>insert\<close>, \<open>remove\<close>, \<open>swap\<close>, \<open>fill\<close>, the
  variants that report a failed allocation) are left out; of the streams, changing between
  reading and writing within one stream. Positions and line numbers that the parser
  passes to the builder, which ignores them, are not part of the model. The round trip covers the
  statements and expressions of \<open>stmt\<close> and \<open>expr\<close>; functions, labels, \<open>for\<close>, \<open>switch\<close>, \<open>new\<close>, object
  and array literals, numbers and regular expressions are modelled and covered by the theorems
  on termination and shape, but not by the round trip.
\<close>

end
